(* ===== verification/Prelude.thy ===== *)
theory Prelude
  imports Main "HOL-Library.Word" "HOL-Library.Sublist"
begin

section \<open>Prelude: machine types, byte order and shared lemmas\<close>

text \<open>
  The types and generic facts every component of the libcage model shares: the fixed
  width integers of the C++ sources, the network byte order conversions
  (\<^verbatim>\<open>htons\<close>, \<^verbatim>\<open>htonl\<close> and their inverses, as functions to and from byte
  lists), and lemmas on lists, ring indices and wrap-around sequence numbers.  The
  collections \<open>bn_value\<close>, \<open>pbuf_simps\<close> and \<open>rdp_frame\<close> are filled by the
  component theories.
\<close>

unbundle bit_operations_syntax

type_synonym u8 = "8 word"
type_synonym u16 = "16 word"
type_synonym u32 = "32 word"
type_synonym u64 = "64 word"

named_theorems bn_value \<open>value of the multi-limb operations\<close>
named_theorems pbuf_simps \<open>fields and contents of packet buffers\<close>
named_theorems rdp_frame \<open>parts of the RDP state an operation leaves alone\<close>

subsection \<open>Network byte order\<close>

definition htons_bytes :: "u16 \<Rightarrow> u8 list" where
  "htons_bytes w = [ucast (drop_bit 8 w), ucast w]"

definition htonl_bytes :: "u32 \<Rightarrow> u8 list" where
  "htonl_bytes w = [ucast (drop_bit 24 w), ucast (drop_bit 16 w), ucast (drop_bit 8 w), ucast w]"

fun ntohs_bytes :: "u8 list \<Rightarrow> u16" where
  "ntohs_bytes [a, b] = push_bit 8 (ucast a) OR ucast b"
| "ntohs_bytes _ = 0"

fun ntohl_bytes :: "u8 list \<Rightarrow> u32" where
  "ntohl_bytes [a, b, c, d] =
     push_bit 24 (ucast a) OR (push_bit 16 (ucast b) OR (push_bit 8 (ucast c) OR ucast d))"
| "ntohl_bytes _ = 0"

lemma length_htons_bytes [simp]: "length (htons_bytes w) = 2"
  by (simp add: htons_bytes_def)

lemma length_htonl_bytes [simp]: "length (htonl_bytes w) = 4"
  by (simp add: htonl_bytes_def)

lemma ntohs_htons [simp]: "ntohs_bytes (htons_bytes w) = w"
  by (rule bit_word_eqI) (auto simp: htons_bytes_def bit_simps)

lemma ntohl_htonl [simp]: "ntohl_bytes (htonl_bytes w) = w"
proof (rule bit_word_eqI)
  fix n assume "n < LENGTH(32)"
  then consider "n < 8" | "8 \<le> n" "n < 16" | "16 \<le> n" "n < 24" | "24 \<le> n" "n < 32"
    by fastforce
  then show "bit (ntohl_bytes (htonl_bytes w)) n = bit w n"
    by cases (auto simp: htonl_bytes_def bit_simps)
qed

lemma byte_bit_ge: "8 \<le> n \<Longrightarrow> \<not> bit (b :: u8) n"
  by (auto dest: bit_imp_le_length)

lemma htonl_ntohl [simp]: "length bs = 4 \<Longrightarrow> htonl_bytes (ntohl_bytes bs) = bs"
proof -
  assume "length bs = 4"
  then obtain a b c d where bs: "bs = [a, b, c, d]"
    by (auto simp: numeral_eq_Suc length_Suc_conv)
  show ?thesis
    unfolding bs htonl_bytes_def ntohl_bytes.simps
    by (auto intro!: bit_word_eqI simp: bit_simps byte_bit_ge)
qed

subsection \<open>Sequence numbers modulo two to the 32\<close>

text \<open>
  RDP compares 32-bit sequence numbers by their wrap-around distance.  A distance that
  is below the modulus reads back as the natural number it came from.
\<close>

lemma unat_of_nat_u32 [simp]: "n < 2 ^ 32 \<Longrightarrow> unat (of_nat n :: u32) = n"
  by (simp add: unat_of_nat)

lemma seq_diff_Suc: "(x + of_nat (Suc n) :: u32) - x = of_nat (Suc n)"
  by simp

subsection \<open>Ring indices\<close>

definition ring_inc :: "nat \<Rightarrow> nat \<Rightarrow> nat" where
  "ring_inc len i = (if Suc i \<ge> len then Suc i mod len else Suc i)"

lemma ring_inc_mod: "i < len \<Longrightarrow> ring_inc len i = Suc i mod len"
  by (simp add: ring_inc_def)

lemma ring_inc_less: "0 < len \<Longrightarrow> ring_inc len i < len"
  by (auto simp: ring_inc_def)

lemma ring_inj_le:
  assumes "(h + j) mod n = (h + k) mod n" "j \<le> k" "k < (n::nat)"
  shows "j = k"
proof -
  have "n dvd (h + k) - (h + j)"
    using assms(1,2) by (metis add_le_cancel_left mod_eq_dvd_iff_nat)
  then have "n dvd k - j" by simp
  with assms(2,3) show ?thesis by (auto dest: dvd_imp_le)
qed

lemma ring_inj:
  assumes "(h + j) mod n = (h + k) mod n" "j < n" "k < (n::nat)"
  shows "j = k"
  using ring_inj_le [of h j n k] ring_inj_le [of h k n j] assms by (cases "j \<le> k") auto

text \<open>
  A ring buffer read from its head index is the array rotated by the head: writing at
  ring offset \<open>k\<close> updates position \<open>k\<close> of that view, and advancing the head moves the
  first entry of the view to its end.
\<close>

lemma rotate_list_update:
  assumes "k < length xs"
  shows "rotate h (xs[(h + k) mod length xs := v]) = (rotate h xs)[k := v]"
proof (rule nth_equalityI)
  fix j assume "j < length (rotate h (xs[(h + k) mod length xs := v]))"
  then have j: "j < length xs" by simp
  moreover have "(h + j) mod length xs = (h + k) mod length xs \<longleftrightarrow> j = k"
    using ring_inj [of h j "length xs" k] assms j by auto
  ultimately show "rotate h (xs[(h + k) mod length xs := v]) ! j = (rotate h xs)[k := v] ! j"
    using assms j by (cases "j = k") (auto simp: nth_rotate intro!: nth_list_update_eq mod_less_divisor)
qed simp

lemma rotate_ring_inc:
  assumes "h < length xs"
  shows "rotate (ring_inc (length xs) h) xs = tl (rotate h xs) @ [hd (rotate h xs)]"
proof -
  have "rotate (ring_inc (length xs) h) xs = rotate (Suc h) xs"
    using assms by (simp add: ring_inc_mod rotate_conv_mod [symmetric])
  also have "\<dots> = rotate1 (rotate h xs)" by simp
  also have "\<dots> = tl (rotate h xs) @ [hd (rotate h xs)]"
    using assms by (cases "rotate h xs") auto
  finally show ?thesis .
qed

subsection \<open>Positional numbers\<close>

lemma mod_digit_snoc:
  fixes x r p w :: int
  assumes "0 \<le> r" "r < w" "0 < p"
  shows "(x mod p) * w + r = (x * w + r) mod (p * w)"
proof -
  have "x * w = ((x div p) * p + x mod p) * w" by simp
  also have "\<dots> = (x div p) * (p * w) + (x mod p) * w" by (simp only: distrib_right mult.assoc)
  finally have split: "x * w + r = (x div p) * (p * w) + ((x mod p) * w + r)" by simp
  have eq: "(x * w + r) mod (p * w) = ((x mod p) * w + r) mod (p * w)"
    unfolding split by (rule mod_mult_self3)
  have "x mod p + 1 \<le> p" using assms by (simp add: add1_zle_eq)
  then have "(x mod p + 1) * w \<le> p * w" by (rule mult_right_mono) (use assms in simp)
  then have "(x mod p) * w + r < p * w" using assms by (simp add: algebra_simps)
  moreover have "0 \<le> (x mod p) * w + r" using assms by simp
  ultimately show ?thesis using eq by simp
qed

lemma mod_wrap_once:
  fixes k m :: int
  shows "m \<le> k \<Longrightarrow> k < 2 * m \<Longrightarrow> k mod m = k - m"
    and "- m \<le> k \<Longrightarrow> k < 0 \<Longrightarrow> k mod m = k + m"
  using mod_pos_pos_trivial [of "k - m" m] mod_pos_pos_trivial [of "k + m" m]
  by simp_all

lemma unat_u32_less: "unat (x :: u32) < 2 ^ 32"
  using unsigned_less [of x] by simp

lemma unat_u8_less: "unat (x :: u8) < 2 ^ 8"
  using unsigned_less [of x] by simp

lemma uint_u32_less: "uint (x :: u32) < 2 ^ 32"
  using uint_bounded [of x] by simp

lemma uint_add_u32:
  "uint (x + y :: u32) = (if uint x + uint y < 2 ^ 32 then uint x + uint y else uint x + uint y - 2 ^ 32)"
  using uint_u32_less [of x] uint_u32_less [of y] mod_wrap_once(1) [of "2 ^ 32" "uint x + uint y"]
  by (simp add: uint_word_ariths)

lemma uint_sub_u32:
  "uint (x - y :: u32) = (if uint y \<le> uint x then uint x - uint y else uint x - uint y + 2 ^ 32)"
proof -
  have "uint (x - y) = (uint x - uint y) mod 2 ^ 32" by (simp add: uint_word_ariths)
  moreover have "uint y \<le> uint x \<Longrightarrow> (uint x - uint y) mod 2 ^ 32 = uint x - uint y"
    using uint_u32_less [of x] uint_ge_0 [of y] by (intro mod_pos_pos_trivial) linarith+
  moreover have "\<not> uint y \<le> uint x \<Longrightarrow> (uint x - uint y) mod 2 ^ 32 = uint x - uint y + 2 ^ 32"
    using uint_u32_less [of y] uint_ge_0 [of x] by (intro mod_wrap_once(2)) linarith+
  ultimately show ?thesis by simp
qed

lemma uint_minus_1_u32: "uint (-1 :: u32) = 2 ^ 32 - 1"
  by (simp add: unsigned_minus_1_eq_mask mask_eq_exp_minus_1)

lemma seq_window:
  assumes "i < 2 ^ 31" "n \<le> 2 ^ 31" "len < 2 ^ 31"
  shows "(0 < (of_nat i + 1 - of_nat n :: u32) \<and> (of_nat i + 1 - of_nat n :: u32) \<le> of_nat len) \<longleftrightarrow> n \<le> i \<and> i < n + len"
    and "n \<le> i \<Longrightarrow> unat (of_nat i + 1 - of_nat n :: u32) = Suc (i - n)"
proof -
  let ?s = "of_nat i + 1 - of_nat n :: u32"
  have s: "?s = word_of_int (int i + 1 - int n)" by simp
  have u: "uint ?s = (int i + 1 - int n) mod 2 ^ 32" unfolding s by (simp only: uint_word_of_int) simp
  have len: "uint (of_nat len :: u32) = int len" using assms(3) by (simp add: uint_nat)
  have up: "uint ?s = int i + 1 - int n" if "n \<le> Suc i"
    using that assms unfolding u by (intro mod_pos_pos_trivial) simp_all
  have down: "uint ?s = int i + 1 - int n + 2 ^ 32" if "\<not> n \<le> Suc i"
    using that assms unfolding u by (intro mod_wrap_once(2)) simp_all
  show "(0 < ?s \<and> ?s \<le> of_nat len) \<longleftrightarrow> n \<le> i \<and> i < n + len"
  proof (cases "n \<le> Suc i")
    case True
    then show ?thesis using up [OF True] len by (auto simp: word_less_def word_le_def simp del: of_nat_add)
  next
    case False
    then show ?thesis using down [OF False] len assms by (auto simp: word_less_def word_le_def)
  qed
  show "unat ?s = Suc (i - n)" if "n \<le> i"
    using up that by (simp add: unat_eq_nat_uint)
qed

subsection \<open>Lists\<close>

text \<open>
  Index loops that overwrite an array in place, upwards or downwards: if the value stored
  at \<open>i\<close> depends only on positions the loop has not overwritten yet, the result is
  given pointwise by the initial array.
\<close>

lemma fold_update_up:
  assumes "hi \<le> length a" "lo \<le> hi"
    and "\<And>i x. lo \<le> i \<Longrightarrow> i < hi \<Longrightarrow> length x = length a \<Longrightarrow>
      (\<And>j. i \<le> j \<Longrightarrow> j < length a \<Longrightarrow> x ! j = a ! j) \<Longrightarrow> F i x = x[i := g i]"
  shows "fold F [lo..<hi] a = map (\<lambda>j. if lo \<le> j \<and> j < hi then g j else a ! j) [0..<length a]"
  using assms(2,1,3)
proof (induction hi rule: dec_induct)
  case base
  show ?case by (rule nth_equalityI) auto
next
  case (step hi)
  let ?x = "map (\<lambda>j. if lo \<le> j \<and> j < hi then g j else a ! j) [0..<length a]"
  have "fold F [lo..<hi] a = ?x" using step by simp
  then have "fold F [lo..<Suc hi] a = F hi ?x" using step.hyps by simp
  also have "\<dots> = ?x[hi := g hi]" using step by (intro step.prems(2)) auto
  also have "\<dots> = map (\<lambda>j. if lo \<le> j \<and> j < Suc hi then g j else a ! j) [0..<length a]"
    using step by (intro nth_equalityI) (auto simp: nth_list_update)
  finally show ?case .
qed

lemma fold_update_down:
  assumes "hi \<le> length a" "lo \<le> hi"
    and "\<And>i x. lo \<le> i \<Longrightarrow> i < hi \<Longrightarrow> length x = length a \<Longrightarrow>
      (\<And>j. j \<le> i \<Longrightarrow> x ! j = a ! j) \<Longrightarrow> F i x = x[i := g i]"
  shows "fold F (rev [lo..<hi]) a = map (\<lambda>j. if lo \<le> j \<and> j < hi then g j else a ! j) [0..<length a]"
  using assms(2,1,3)
proof (induction lo rule: inc_induct)
  case base
  show ?case by (rule nth_equalityI) auto
next
  case (step lo)
  let ?x = "map (\<lambda>j. if Suc lo \<le> j \<and> j < hi then g j else a ! j) [0..<length a]"
  have "fold F (rev [Suc lo..<hi]) a = ?x" using step by simp
  then have "fold F (rev [lo..<hi]) a = F lo ?x" using step.hyps by (simp add: upt_rec [of lo])
  also have "\<dots> = ?x[lo := g lo]" using step by (intro step.prems(2)) auto
  also have "\<dots> = map (\<lambda>j. if lo \<le> j \<and> j < hi then g j else a ! j) [0..<length a]"
    using step by (intro nth_equalityI) (auto simp: nth_list_update)
  finally show ?case .
qed

subsection \<open>Sequences of fallible steps\<close>

fun run_steps :: "('a \<Rightarrow> 's \<Rightarrow> 's option) \<Rightarrow> 'a list \<Rightarrow> 's \<Rightarrow> 's option" where
  "run_steps step [] s = Some s"
| "run_steps step (a # as) s = (case step a s of None \<Rightarrow> None | Some s' \<Rightarrow> run_steps step as s')"

lemma run_steps_append:
  "run_steps step (as @ bs) s = (case run_steps step as s of None \<Rightarrow> None | Some s' \<Rightarrow> run_steps step bs s')"
  by (induction as arbitrary: s) (auto split: option.splits)

lemma run_steps_invariant:
  assumes "I s" "\<And>a s. a \<in> set as \<Longrightarrow> I s \<Longrightarrow> \<exists>s'. step a s = Some s' \<and> I s'"
  shows "\<exists>s'. run_steps step as s = Some s' \<and> I s'"
  using assms
proof (induction as arbitrary: s)
  case (Cons a as)
  obtain s' where "step a s = Some s'" "I s'" using Cons.prems by force
  then show ?case using Cons.IH [of s'] Cons.prems(2) by simp
qed simp

text \<open>
  A guarded run calls each step only in a state that satisfies its guard.  The contract of
  a component whose steps follow a specification is the locale \<open>stepwise_refinement\<close>: under
  the guard no step fails, and the abstract state moves as the specification says.
\<close>

fun guarded_run :: "('a \<Rightarrow> 's \<Rightarrow> 's option) \<Rightarrow> ('a \<Rightarrow> 's \<Rightarrow> bool) \<Rightarrow> 'a list \<Rightarrow> 's \<Rightarrow> bool" where
  "guarded_run step guard [] s \<longleftrightarrow> True"
| "guarded_run step guard (a # as) s \<longleftrightarrow>
     guard a s \<and> (case step a s of None \<Rightarrow> True | Some s' \<Rightarrow> guarded_run step guard as s')"

inductive spec_run :: "('a \<Rightarrow> 'b \<Rightarrow> 'b \<Rightarrow> bool) \<Rightarrow> 'a list \<Rightarrow> 'b \<Rightarrow> 'b \<Rightarrow> bool" for spec where
  spec_run_Nil: "spec_run spec [] b b"
| spec_run_Cons: "spec a b b' \<Longrightarrow> spec_run spec as b' b'' \<Longrightarrow> spec_run spec (a # as) b b''"

locale stepwise_refinement =
  fixes step :: "'a \<Rightarrow> 's \<Rightarrow> 's option" and guard :: "'a \<Rightarrow> 's \<Rightarrow> bool"
    and rel :: "'b \<Rightarrow> 's \<Rightarrow> bool" and spec :: "'a \<Rightarrow> 'b \<Rightarrow> 'b \<Rightarrow> bool"
  assumes simulates: "rel b s \<Longrightarrow> guard a s \<Longrightarrow> \<exists>s' b'. step a s = Some s' \<and> spec a b b' \<and> rel b' s'"
begin

lemma run_simulates:
  assumes "rel b s" "guarded_run step guard as s"
  shows "\<exists>s' b'. run_steps step as s = Some s' \<and> spec_run spec as b b' \<and> rel b' s'"
  using assms
proof (induction as arbitrary: b s)
  case (Cons a as)
  then obtain s' b' where s': "step a s = Some s'" "spec a b b'" "rel b' s'" using simulates by fastforce
  then show ?case
    using Cons.IH [OF s'(3)] Cons.prems(2) spec_run_Cons by fastforce
qed (auto intro: spec_run_Nil)

end

end
