(* ===== verification/Packetbuf.thy ===== *)
theory Packetbuf
  imports Prelude
begin

section \<open>Packet buffers (packetbuf.hpp, packetbuf.cpp)\<close>

text \<open>
  A \<^verbatim>\<open>packetbuf\<close> is a fixed array of \<open>PBUF_SIZE\<close> bytes with a window: \<open>m_head\<close>
  points to its first byte and \<open>m_len\<close> is its length.  Headers are prepended into the
  \<open>PBUF_DEFAULT_OFFSET\<close> bytes that a new buffer leaves free in front of the window.
  The pointer \<open>m_head\<close> is its offset from \<open>m_buf\<close>; a NULL result is \<open>None\<close>.
\<close>

definition PBUF_SIZE :: int where "PBUF_SIZE = 1024"
definition PBUF_DEFAULT_OFFSET :: int where "PBUF_DEFAULT_OFFSET = 128"

record packetbuf =
  m_buf :: "int \<Rightarrow> u8"
  m_head :: int
  m_len :: int
  m_refc :: int

definition packetbuf_init :: packetbuf where
  "packetbuf_init = \<lparr>m_buf = (\<lambda>_. 0), m_head = PBUF_DEFAULT_OFFSET, m_len = 0, m_refc = 0\<rparr>"

definition append :: "int \<Rightarrow> packetbuf \<Rightarrow> int option \<times> packetbuf" where
  "append len p =
     (if m_head p + m_len p + len > PBUF_SIZE then (None, p)
      else (Some (m_head p + m_len p), p\<lparr>m_len := m_len p + len\<rparr>))"

definition prepend :: "int \<Rightarrow> packetbuf \<Rightarrow> int option \<times> packetbuf" where
  "prepend len p =
     (if m_head p - len < 0 then (None, p)
      else (Some (m_head p - len), p\<lparr>m_len := m_len p + len, m_head := m_head p - len\<rparr>))"

definition get_data :: "packetbuf \<Rightarrow> int" where
  "get_data p = m_head p"

definition get_len :: "packetbuf \<Rightarrow> int" where
  "get_len p = m_len p"

definition set_len :: "int \<Rightarrow> packetbuf \<Rightarrow> packetbuf" where
  "set_len len p = p\<lparr>m_len := len\<rparr>"

definition use_whole :: "packetbuf \<Rightarrow> packetbuf" where
  "use_whole p = p\<lparr>m_head := 0, m_len := PBUF_SIZE\<rparr>"

definition rm_head :: "int \<Rightarrow> packetbuf \<Rightarrow> packetbuf" where
  "rm_head len p =
     (if len > m_len p then p else p\<lparr>m_head := m_head p + len, m_len := m_len p - len\<rparr>)"

text \<open>
  Reference counting: \<open>construct\<close> returns a counted pointer, so the count is one;
  releasing the last reference destroys the buffer (\<open>None\<close>).
\<close>

definition intrusive_ptr_add_ref :: "packetbuf \<Rightarrow> packetbuf" where
  "intrusive_ptr_add_ref p = p\<lparr>m_refc := m_refc p + 1\<rparr>"

definition intrusive_ptr_release :: "packetbuf \<Rightarrow> packetbuf option" where
  "intrusive_ptr_release p =
     (let q = p\<lparr>m_refc := m_refc p - 1\<rparr> in if m_refc q = 0 then None else Some q)"

definition pbuf_construct :: packetbuf where
  "pbuf_construct = intrusive_ptr_add_ref packetbuf_init"

subsection \<open>Contents\<close>

text \<open>\<open>pbuf_bytes\<close> is what a reader of the window sees; \<open>pbuf_write\<close> stores bytes at an offset.\<close>

definition pbuf_read :: "packetbuf \<Rightarrow> int \<Rightarrow> nat \<Rightarrow> u8 list" where
  "pbuf_read p off n = map (\<lambda>k. m_buf p (off + int k)) [0..<n]"

definition pbuf_bytes :: "packetbuf \<Rightarrow> u8 list" where
  "pbuf_bytes p = pbuf_read p (m_head p) (nat (m_len p))"

definition pbuf_write :: "int \<Rightarrow> u8 list \<Rightarrow> packetbuf \<Rightarrow> packetbuf" where
  "pbuf_write off bs p =
     p\<lparr>m_buf := (\<lambda>i. if off \<le> i \<and> i < off + int (length bs) then bs ! nat (i - off) else m_buf p i)\<rparr>"

definition pbuf_wf :: "packetbuf \<Rightarrow> bool" where
  "pbuf_wf p \<longleftrightarrow> 0 \<le> m_head p \<and> 0 \<le> m_len p \<and> m_head p + m_len p \<le> PBUF_SIZE"

lemmas pbuf_consts = PBUF_SIZE_def PBUF_DEFAULT_OFFSET_def

lemma pbuf_construct_simps [pbuf_simps, simp]:
  "m_head pbuf_construct = 128" "m_len pbuf_construct = 0" "m_refc pbuf_construct = 1"
  by (simp_all add: pbuf_construct_def packetbuf_init_def intrusive_ptr_add_ref_def pbuf_consts)

lemma pbuf_write_simps [pbuf_simps, simp]:
  "m_head (pbuf_write off bs p) = m_head p" "m_len (pbuf_write off bs p) = m_len p"
  by (simp_all add: pbuf_write_def)

lemma pbuf_write_wf [simp]: "pbuf_wf (pbuf_write off bs p) = pbuf_wf p"
  by (simp add: pbuf_wf_def)

lemma pbuf_wf_construct [simp]: "pbuf_wf pbuf_construct"
  by (simp add: pbuf_wf_def pbuf_consts)

lemma length_pbuf_read [simp]: "length (pbuf_read p off n) = n"
  by (simp add: pbuf_read_def)

lemma length_pbuf_bytes [simp]: "length (pbuf_bytes p) = nat (m_len p)"
  by (simp add: pbuf_bytes_def)

lemma pbuf_read_write_same:
  "length bs = n \<Longrightarrow> pbuf_read (pbuf_write off bs p) off n = bs"
  by (rule nth_equalityI) (auto simp: pbuf_read_def pbuf_write_def)

lemma pbuf_read_write_other:
  "off + int n \<le> w \<or> w + int (length bs) \<le> off \<Longrightarrow>
   pbuf_read (pbuf_write w bs p) off n = pbuf_read p off n"
  by (auto simp: pbuf_read_def pbuf_write_def)

lemma pbuf_read_append:
  "pbuf_read p off (m + n) = pbuf_read p off m @ pbuf_read p (off + int m) n"
  by (rule nth_equalityI) (auto simp: pbuf_read_def nth_append algebra_simps)

lemma pbuf_read_frame: "m_buf p = m_buf q \<Longrightarrow> pbuf_read p off n = pbuf_read q off n"
  by (simp add: pbuf_read_def)

subsection \<open>The window stays inside the array\<close>



end
