(* ===== verification/Bn.thy ===== *)
theory Bn
  imports Prelude
begin

section \<open>Multi-limb integers (bn.hpp)\<close>

text \<open>
  The class template \<^verbatim>\<open>bn<T, N>\<close> at \<^verbatim>\<open>T = uint32_t\<close>, the only limb type the
  sources instantiate (\<^verbatim>\<open>uint128_t\<close> with four limbs, \<^verbatim>\<open>uint160_t\<close> with five).
  \<open>m_num\<close> is a list of 32-bit limbs, most significant first; its length is \<open>N\<close>.
  Loops of the sources are recursions on the loop index or folds over the index range, in
  the source's order; an array access outside \<open>m_num\<close> is the result \<open>None\<close>.
  \<open>bn_val\<close> is the number the limbs stand for, and the theorems state each operation on
  numbers modulo \<open>2 ^ (32 * N)\<close>.
\<close>

type_synonym limbs = "u32 list"
type_synonym uint160 = "u32 list"

subsection \<open>Definitions\<close>

definition bn_assign_T :: "nat \<Rightarrow> u32 \<Rightarrow> limbs" where
  "bn_assign_T N rhs = (replicate N 0)[N - 1 := rhs]"

definition bn_fill_zero :: "nat \<Rightarrow> limbs" where
  "bn_fill_zero N = replicate N 0"

definition bn_fill_max :: "nat \<Rightarrow> limbs" where
  "bn_fill_max N = replicate N (NOT 0)"

text \<open>\<^verbatim>\<open>PLUS_BN\<close>: the loop runs from the last limb to the first; \<open>n\<close> is the result.\<close>

fun plus_bn_loop :: "nat \<Rightarrow> u32 \<Rightarrow> limbs \<Rightarrow> limbs \<Rightarrow> limbs \<Rightarrow> limbs" where
  "plus_bn_loop 0 carry m_num rhs n = n"
| "plus_bn_loop (Suc i) carry m_num rhs n =
     (let tmp = m_num ! i + rhs ! i in
      if tmp < m_num ! i then plus_bn_loop i 1 m_num rhs (n[i := tmp + carry])
      else let tmp' = tmp + carry in
           plus_bn_loop i (if tmp' < carry then 1 else 0) m_num rhs (n[i := tmp']))"

definition bn_plus :: "limbs \<Rightarrow> limbs \<Rightarrow> limbs" where
  "bn_plus a b = plus_bn_loop (length a) 0 a b (replicate (length a) 0)"

text \<open>The compound assignment runs the same macro with \<open>n\<close> an alias of \<open>*this\<close>.\<close>

fun plus_bn_loop_this :: "nat \<Rightarrow> u32 \<Rightarrow> limbs \<Rightarrow> limbs \<Rightarrow> limbs" where
  "plus_bn_loop_this 0 carry rhs n = n"
| "plus_bn_loop_this (Suc i) carry rhs n =
     (let tmp = n ! i + rhs ! i in
      if tmp < n ! i then plus_bn_loop_this i 1 rhs (n[i := tmp + carry])
      else let tmp' = tmp + carry in
           plus_bn_loop_this i (if tmp' < carry then 1 else 0) rhs (n[i := tmp']))"

definition bn_plus_assign :: "limbs \<Rightarrow> limbs \<Rightarrow> limbs" where
  "bn_plus_assign a b = plus_bn_loop_this (length a) 0 b a"

text \<open>\<^verbatim>\<open>PLUS_T\<close>: a one-limb addend.\<close>

fun plus_T_loop :: "nat \<Rightarrow> u32 \<Rightarrow> limbs \<Rightarrow> limbs" where
  "plus_T_loop 0 carry n = n"
| "plus_T_loop (Suc i) carry n =
     (let tmp = n ! i + carry in
      plus_T_loop i (if tmp < n ! i then 1 else 0) (n[i := tmp]))"

definition bn_plus_T :: "limbs \<Rightarrow> u32 \<Rightarrow> limbs" where
  "bn_plus_T a rhs =
     (let N = length a; tmp = a ! (N - 1) + rhs; carry = (if tmp < a ! (N - 1) then 1 else 0)
      in plus_T_loop (N - 1) carry (a[N - 1 := tmp]))"

text \<open>\<^verbatim>\<open>MINUS_BN\<close> and \<^verbatim>\<open>MINUS_T\<close>.\<close>

fun minus_bn_loop :: "nat \<Rightarrow> u32 \<Rightarrow> limbs \<Rightarrow> limbs \<Rightarrow> limbs \<Rightarrow> limbs" where
  "minus_bn_loop 0 borrow m_num rhs n = n"
| "minus_bn_loop (Suc i) borrow m_num rhs n =
     (let tmp = m_num ! i - rhs ! i in
      if tmp > m_num ! i then minus_bn_loop i 1 m_num rhs (n[i := tmp - borrow])
      else let tmp' = tmp - borrow in
           minus_bn_loop i (if tmp' = -1 then 1 else 0) m_num rhs (n[i := tmp']))"

definition bn_minus :: "limbs \<Rightarrow> limbs \<Rightarrow> limbs" where
  "bn_minus a b = minus_bn_loop (length a) 0 a b (replicate (length a) 0)"

fun minus_T_loop :: "nat \<Rightarrow> u32 \<Rightarrow> limbs \<Rightarrow> limbs" where
  "minus_T_loop 0 borrow n = n"
| "minus_T_loop (Suc i) borrow n =
     (let tmp = n ! i - borrow in
      minus_T_loop i (if tmp > n ! i then 1 else 0) (n[i := tmp]))"

definition bn_minus_T :: "limbs \<Rightarrow> u32 \<Rightarrow> limbs" where
  "bn_minus_T a rhs =
     (let N = length a; tmp = a ! (N - 1) - rhs; borrow = (if tmp > a ! (N - 1) then 1 else 0)
      in minus_T_loop (N - 1) borrow (a[N - 1 := tmp]))"

text \<open>
  Multiplication: 64-bit accumulation of the limb products; \<open>ij\<close> is the target limb
  and products beyond the first limb (\<open>ij < 0\<close>) are dropped.
\<close>

fun mult_inner :: "nat \<Rightarrow> u32 \<Rightarrow> nat \<Rightarrow> limbs \<Rightarrow> limbs \<Rightarrow> limbs \<Rightarrow> limbs" where
  "mult_inner 0 carry i m_num rhs n = n"
| "mult_inner (Suc j) carry i m_num rhs n =
     (let N = length m_num; ij = int N - 1 - (int N - 1 - int i + int N - 1 - int j) in
      if ij \<ge> 0 then
        (let u = (ucast (n ! nat ij) + ucast (rhs ! j) * ucast (m_num ! i) + ucast carry :: u64)
         in mult_inner j (ucast (drop_bit 32 u)) i m_num rhs
              (n[nat ij := ucast (u AND (push_bit 32 1 - 1))]))
      else mult_inner j carry i m_num rhs n)"

fun mult_outer :: "nat \<Rightarrow> limbs \<Rightarrow> limbs \<Rightarrow> limbs \<Rightarrow> limbs" where
  "mult_outer 0 m_num rhs n = n"
| "mult_outer (Suc i) m_num rhs n =
     mult_outer i m_num rhs (mult_inner (length m_num) 0 i m_num rhs n)"

definition bn_mult :: "limbs \<Rightarrow> limbs \<Rightarrow> limbs" where
  "bn_mult a b = mult_outer (length a) a b (replicate (length a) 0)"

text \<open>
  Multiplication by one limb: the loop resets \<open>carry\<close> to zero before every use.
\<close>

fun mult_T_loop :: "nat \<Rightarrow> limbs \<Rightarrow> u32 \<Rightarrow> limbs \<Rightarrow> limbs" where
  "mult_T_loop 0 m_num rhs n = n"
| "mult_T_loop (Suc i) m_num rhs n =
     (let carry = 0;
          u = (ucast (n ! i) + ucast rhs * ucast (m_num ! i) + ucast (carry :: u32) :: u64)
      in mult_T_loop i m_num rhs (n[i := ucast (u AND (push_bit 32 1 - 1))]))"

definition bn_mult_T :: "limbs \<Rightarrow> u32 \<Rightarrow> limbs" where
  "bn_mult_T a rhs = mult_T_loop (length a) a rhs (replicate (length a) 0)"

definition bn_xor :: "limbs \<Rightarrow> limbs \<Rightarrow> limbs" where
  "bn_xor a b = map (\<lambda>i. a ! i XOR b ! i) [0..<length a]"

definition bn_and :: "limbs \<Rightarrow> limbs \<Rightarrow> limbs" where
  "bn_and a b = map (\<lambda>i. a ! i AND b ! i) [0..<length a]"

definition bn_not :: "limbs \<Rightarrow> limbs" where
  "bn_not a = map (\<lambda>i. NOT (a ! i)) [0..<length a]"

text \<open>The one-limb forms \<^verbatim>\<open>^=(T)\<close> and \<^verbatim>\<open>&=(T)\<close> act on \<open>m_num[0]\<close>.\<close>

definition bn_xor_assign_T :: "limbs \<Rightarrow> u32 \<Rightarrow> limbs" where
  "bn_xor_assign_T a rhs = a[0 := a ! 0 XOR rhs]"

definition bn_and_assign_T :: "limbs \<Rightarrow> u32 \<Rightarrow> limbs" where
  "bn_and_assign_T a rhs = a[0 := a ! 0 AND rhs]"

text \<open>
  Shifts.  \<open>n\<close> whole limbs, then \<open>m\<close> bits.  The clearing loop of either direction
  leaves the array when \<open>n > size\<close>.  A negative count shifts the other way.
\<close>

definition shift_right_pos :: "nat \<Rightarrow> limbs \<Rightarrow> limbs option" where
  "shift_right_pos bits arr =
     (let size = length arr; n = bits div 32; m = bits mod 32 in
      if n > size then None
      else
        let arr = fold (\<lambda>i a. a[i := a ! (i - n)]) (rev [n..<size]) arr;
            arr = fold (\<lambda>i a. a[i := 0]) [0..<n] arr
        in if m = 0 \<or> n \<ge> size then Some arr
           else
             let arr = fold (\<lambda>i a.
                     let a = a[i := drop_bit m (a ! i)]; mask = push_bit m 1 - 1
                     in a[i := a ! i OR push_bit (32 - m) (mask AND a ! (i - 1))])
                   (rev [n + 1..<size]) arr
             in Some (arr[n := drop_bit m (arr ! n)]))"

definition shift_left_pos :: "nat \<Rightarrow> limbs \<Rightarrow> limbs option" where
  "shift_left_pos bits arr =
     (let size = length arr; n = bits div 32; m = bits mod 32 in
      if n > size then None
      else
        let arr = fold (\<lambda>i a. a[i := a ! (i + n)]) [0..<size - n] arr;
            arr = fold (\<lambda>i a. a[i := 0]) [size - n..<size] arr
        in if m = 0 \<or> n \<ge> size then Some arr
           else
             let arr = fold (\<lambda>i a.
                     let msb = drop_bit (32 - m) (a ! (i + 1)); a = a[i := push_bit m (a ! i)]
                     in a[i := a ! i OR msb])
                   [0..<size - n - 1] arr
             in Some (arr[size - n - 1 := push_bit m (arr ! (size - n - 1))]))"

definition shift_right :: "int \<Rightarrow> limbs \<Rightarrow> limbs option" where
  "shift_right bits arr =
     (if bits < 0 then shift_left_pos (nat (- bits)) arr else shift_right_pos (nat bits) arr)"

definition shift_left :: "int \<Rightarrow> limbs \<Rightarrow> limbs option" where
  "shift_left bits arr =
     (if bits < 0 then shift_right_pos (nat (- bits)) arr else shift_left_pos (nat bits) arr)"

text \<open>Comparison, limb by limb from the most significant one.\<close>

fun bn_eq :: "limbs \<Rightarrow> limbs \<Rightarrow> bool" where
  "bn_eq (x # xs) (y # ys) = (if x \<noteq> y then False else bn_eq xs ys)"
| "bn_eq _ _ = True"

fun bn_less :: "limbs \<Rightarrow> limbs \<Rightarrow> bool" where
  "bn_less (x # xs) (y # ys) = (if x < y then True else if x > y then False else bn_less xs ys)"
| "bn_less _ _ = False"

fun bn_greater :: "limbs \<Rightarrow> limbs \<Rightarrow> bool" where
  "bn_greater (x # xs) (y # ys) =
     (if x > y then True else if x < y then False else bn_greater xs ys)"
| "bn_greater _ _ = False"

definition bn_le :: "limbs \<Rightarrow> limbs \<Rightarrow> bool" where
  "bn_le a b = (\<not> bn_greater a b)"

definition bn_ge :: "limbs \<Rightarrow> limbs \<Rightarrow> bool" where
  "bn_ge a b = (\<not> bn_less a b)"

definition bn_is_zero :: "limbs \<Rightarrow> bool" where
  "bn_is_zero a = list_all (\<lambda>x. x = 0) a"

text \<open>
  Binary form: \<open>to_binary\<close> writes limbs while four bytes of room are left and reads
  past \<open>m_num\<close> when \<open>len\<close> exceeds its size; \<open>from_binary\<close> stops at \<open>N\<close> limbs.
\<close>

fun to_binary_loop :: "nat \<Rightarrow> nat \<Rightarrow> limbs \<Rightarrow> u8 list option" where
  "to_binary_loop i len m_num =
     (if len < 4 then Some []
      else if i < length m_num
           then map_option (\<lambda>bs. htonl_bytes (m_num ! i) @ bs) (to_binary_loop (i + 1) (len - 4) m_num)
           else None)"

declare to_binary_loop.simps [simp del]

definition bn_to_binary :: "limbs \<Rightarrow> nat \<Rightarrow> u8 list option" where
  "bn_to_binary a len = to_binary_loop 0 len a"

fun from_binary_loop :: "nat \<Rightarrow> u8 list \<Rightarrow> limbs \<Rightarrow> limbs" where
  "from_binary_loop i buf m_num =
     (if i < length m_num \<and> length buf \<ge> 4
      then from_binary_loop (i + 1) (drop 4 buf) (m_num[i := ntohl_bytes (take 4 buf)])
      else m_num)"

declare from_binary_loop.simps [simp del]

definition bn_from_binary :: "nat \<Rightarrow> u8 list \<Rightarrow> limbs" where
  "bn_from_binary N buf = from_binary_loop 0 buf (replicate N 0)"

text \<open>Hexadecimal form.\<close>

definition hexstr :: "string" where
  "hexstr = ''0123456789abcdef''"

definition bn_to_string :: "limbs \<Rightarrow> string" where
  "bn_to_string a =
     (case bn_to_binary a (4 * length a) of
        None \<Rightarrow> []
      | Some bs \<Rightarrow> concat (map (\<lambda>p. [hexstr ! unat (drop_bit 4 (0xf0 AND p)), hexstr ! unat (0x0f AND p)]) bs))"

definition hex_digit :: "char \<Rightarrow> u32 option" where
  "hex_digit ch =
     (let c = (of_char ch :: nat) in
      if c \<ge> 48 \<and> c \<le> 57 then Some (of_nat (c - 48))
      else if c \<ge> 65 \<and> c \<le> 70 then Some (of_nat (c - 65 + 10))
      else if c \<ge> 97 \<and> c \<le> 102 then Some (of_nat (c - 97 + 10))
      else None)"

fun from_string_loop :: "string \<Rightarrow> limbs \<Rightarrow> limbs" where
  "from_string_loop [] this = this"
| "from_string_loop (c # str) this =
     (if (of_char c :: nat) = 0 then this
      else let this = (case shift_left 4 this of Some a \<Rightarrow> a | None \<Rightarrow> this) in
           case hex_digit c of
             Some n \<Rightarrow> from_string_loop str (bn_plus_T this n)
           | None \<Rightarrow> this)"

definition bn_from_string :: "nat \<Rightarrow> string \<Rightarrow> limbs" where
  "bn_from_string N str = from_string_loop str (bn_fill_zero N)"

subsection \<open>Values\<close>

primrec bn_val :: "limbs \<Rightarrow> nat" where
  "bn_val [] = 0"
| "bn_val (x # xs) = unat x * 2 ^ (32 * length xs) + bn_val xs"

lemma bn_val_append: "bn_val (xs @ ys) = bn_val xs * 2 ^ (32 * length ys) + bn_val ys"
  by (induction xs) (simp_all add: algebra_simps power_add)

lemma bn_val_snoc: "bn_val (xs @ [x]) = bn_val xs * 2 ^ 32 + unat x"
  by (simp add: bn_val_append)

lemma bn_val_less: "bn_val xs < 2 ^ (32 * length xs)"
proof (induction xs rule: rev_induct)
  case (snoc x xs)
  have "bn_val xs + 1 \<le> 2 ^ (32 * length xs)" using snoc by simp
  then have "(bn_val xs + 1) * 2 ^ 32 \<le> 2 ^ (32 * length xs) * 2 ^ 32" by (rule mult_right_mono) simp
  then show ?case using unat_u32_less [of x] by (simp add: bn_val_snoc power_add)
qed simp

lemma bn_val_take_Suc:
  "i < length xs \<Longrightarrow> bn_val (take (Suc i) xs) = bn_val (take i xs) * 2 ^ 32 + unat (xs ! i)"
  by (simp add: take_Suc_conv_app_nth bn_val_snoc)


lemma bn_val_inject:
  "length xs = length ys \<Longrightarrow> bn_val xs = bn_val ys \<Longrightarrow> xs = ys"
proof (induction xs arbitrary: ys rule: rev_induct)
  case (snoc x xs)
  then obtain z zs where ys: "ys = zs @ [z]" by (metis length_0_conv append_is_Nil_conv neq_Nil_conv rev_exhaust)
  have eq: "bn_val xs * 2 ^ 32 + unat x = bn_val zs * 2 ^ 32 + unat z"
    using snoc.prems ys by (simp add: bn_val_snoc)
  have "unat x = unat z"
    using arg_cong [OF eq, of "\<lambda>n. n mod 2 ^ 32"] unat_u32_less [of x] unat_u32_less [of z] by simp
  moreover have "bn_val xs = bn_val zs"
    using arg_cong [OF eq, of "\<lambda>n. n div 2 ^ 32"] unat_u32_less [of x] unat_u32_less [of z] by simp
  ultimately show ?case using snoc ys by (simp add: unat_arith_simps)
qed simp

subsection \<open>Limb loops\<close>

text \<open>
  The arithmetic loops share one shape: from the last limb to the first, combine the limb
  with a carry (or borrow), store a digit and pass a new carry on.  \<open>limb_loop\<close> is that
  shape; \<open>g\<close> is what a position contributes, \<open>s\<close> the sign of the carry.
\<close>

fun limb_loop :: "(nat \<Rightarrow> u32 \<Rightarrow> u32 \<Rightarrow> u32 \<times> u32) \<Rightarrow> nat \<Rightarrow> u32 \<Rightarrow> limbs \<Rightarrow> limbs" where
  "limb_loop f 0 c n = n"
| "limb_loop f (Suc i) c n = (case f i c (n ! i) of (c', d) \<Rightarrow> limb_loop f i c' (n[i := d]))"

lemma limb_loop_frame:
  "i \<le> length n \<Longrightarrow> length (limb_loop f i c n) = length n \<and> drop i (limb_loop f i c n) = drop i n"
proof (induction i arbitrary: c n)
  case (Suc i)
  obtain c' d where f: "f i c (n ! i) = (c', d)" by fastforce
  have "drop i (limb_loop f i c' (n[i := d])) = drop i (n[i := d])"
    and len: "length (limb_loop f i c' (n[i := d])) = length n"
    using Suc.IH [of "n[i := d]" c'] Suc.prems by simp_all
  then have "drop 1 (drop i (limb_loop f i c' (n[i := d]))) = drop 1 (drop i (n[i := d]))" by simp
  then show ?case using len by (simp add: f)
qed simp

lemma limb_loop_value:
  fixes G :: "nat \<Rightarrow> int" and s :: int
  assumes "i \<le> length n" "P c"
    and "\<And>j c. j < i \<Longrightarrow> P c \<Longrightarrow> P (fst (f j c (n ! j))) \<and>
      g j + s * uint c =
        s * uint (fst (f j c (n ! j))) * 2 ^ 32 + uint (snd (f j c (n ! j)))"
    and "G 0 = 0" "\<And>j. j < i \<Longrightarrow> G (Suc j) = G j * 2 ^ 32 + g j"
  shows "int (bn_val (take i (limb_loop f i c n))) = (G i + s * uint c) mod 2 ^ (32 * i)"
  using assms
proof (induction i arbitrary: c n)
  case (Suc i)
  obtain c' d where f: "f i c (n ! i) = (c', d)" by fastforce
  let ?n = "n[i := d]" and ?R = "limb_loop f i c' (n[i := d])"
  have fr: "length ?R = length n" "drop i ?R = drop i ?n"
    using limb_loop_frame [of i ?n f c'] Suc.prems(1) by simp_all
  have Ri: "?R ! i = d"
    using fr Suc.prems(1) nth_drop [of i ?R 0] nth_drop [of i ?n 0] by simp
  have step: "P c'" "g i + s * uint c = s * uint c' * 2 ^ 32 + uint d"
    using Suc.prems(3) [of i c] Suc.prems(2) f by simp_all
  have "int (bn_val (take i ?R)) = (G i + s * uint c') mod 2 ^ (32 * i)"
    using Suc.IH [of ?n c'] Suc.prems step(1) by simp
  then have "int (bn_val (take (Suc i) ?R)) = ((G i + s * uint c') mod 2 ^ (32 * i)) * 2 ^ 32 + uint d"
    using Suc.prems(1) fr(1) Ri by (simp add: bn_val_take_Suc)
  also have "\<dots> = ((G i + s * uint c') * 2 ^ 32 + uint d) mod (2 ^ (32 * i) * 2 ^ 32)"
    by (rule mod_digit_snoc) (simp_all add: uint_u32_less [simplified])
  also have "(G i + s * uint c') * 2 ^ 32 + uint d = G (Suc i) + s * uint c"
    using step(2) Suc.prems(5) [of i] by (simp add: algebra_simps)
  finally show ?case by (simp add: f power_add mult.commute)
qed simp

subsection \<open>Addition\<close>

lemma add_limb_carry:
  fixes a b c :: u32
  assumes "c = 0 \<or> c = 1"
  shows "unat a + unat b + unat c =
      (if a + b < a then 1 else if a + b + c < c then 1 else 0) * 2 ^ 32 + unat (a + b + c)"
proof -
  have ab: "unat (a + b) = (unat a + unat b) mod 2 ^ 32" by (simp add: unat_word_ariths)
  have abc: "unat (a + b + c) = (unat (a + b) + unat c) mod 2 ^ 32" by (simp add: unat_word_ariths)
  note bounds = unat_u32_less [of a] unat_u32_less [of b] unat_u32_less [of "a + b"]
  have c: "unat c \<le> 1" using assms by auto
  show ?thesis
  proof (cases "unat a + unat b < 2 ^ 32")
    case True
    then have ab': "unat (a + b) = unat a + unat b" using ab by simp
    then have "\<not> a + b < a" by (simp add: word_less_nat_alt)
    moreover have "a + b + c < c \<longleftrightarrow> \<not> unat (a + b) + unat c < 2 ^ 32"
      using abc c bounds by (auto simp: word_less_nat_alt mod_if)
    ultimately show ?thesis using abc ab' c bounds by (auto simp: mod_if)
  next
    case False
    then have ab': "unat (a + b) + 2 ^ 32 = unat a + unat b" using ab bounds by (auto simp: mod_if)
    then have "a + b < a" using bounds by (simp add: word_less_nat_alt)
    moreover have "unat (a + b) + unat c < 2 ^ 32" using ab' bounds c by simp
    ultimately show ?thesis using abc ab' by simp
  qed
qed

definition plus_limb :: "limbs \<Rightarrow> nat \<Rightarrow> u32 \<Rightarrow> u32 \<Rightarrow> u32 \<times> u32" where
  "plus_limb b i c x = (if x + b ! i < x then 1 else if x + b ! i + c < c then 1 else 0, x + b ! i + c)"

lemma plus_bn_loop_this_eq: "plus_bn_loop_this i c b n = limb_loop (plus_limb b) i c n"
  by (induction i arbitrary: c n) (simp_all add: plus_limb_def Let_def)

lemma plus_bn_loop_eq: "plus_bn_loop i c a b n = limb_loop (\<lambda>i c _. plus_limb b i c (a ! i)) i c n"
  by (induction i arbitrary: c n) (simp_all add: plus_limb_def Let_def)

lemma plus_limb_carry:
  assumes "c = 0 \<or> c = 1"
  shows "fst (plus_limb b i c x) = 0 \<or> fst (plus_limb b i c x) = 1"
    and "uint x + uint (b ! i) + uint c =
      uint (fst (plus_limb b i c x)) * 2 ^ 32 + uint (snd (plus_limb b i c x))"
proof -
  show "fst (plus_limb b i c x) = 0 \<or> fst (plus_limb b i c x) = 1" by (simp add: plus_limb_def)
  show "uint x + uint (b ! i) + uint c =
      uint (fst (plus_limb b i c x)) * 2 ^ 32 + uint (snd (plus_limb b i c x))"
    using arg_cong [OF add_limb_carry [OF assms, of x "b ! i"], of int]
    by (simp add: plus_limb_def split: if_splits)
qed

lemma bn_val_int_take_Suc:
  "j < length a \<Longrightarrow> int (bn_val (take (Suc j) a)) = int (bn_val (take j a)) * 2 ^ 32 + uint (a ! j)"
  by (simp add: bn_val_take_Suc)

lemma plus_loop_val:
  assumes len: "length b = length a" "length n = length a"
    and f: "\<And>i c. i < length a \<Longrightarrow> f i c (n ! i) = plus_limb b i c (a ! i)"
  shows "bn_val (limb_loop f (length a) 0 n) = (bn_val a + bn_val b) mod 2 ^ (32 * length a)"
proof -
  have "int (bn_val (take (length a) (limb_loop f (length a) 0 n))) =
      ((int (bn_val (take (length a) a)) + int (bn_val (take (length a) b))) + 1 * uint (0 :: u32))
        mod 2 ^ (32 * length a)"
  proof (rule limb_loop_value [where P = "\<lambda>c. c = 0 \<or> c = 1" and g = "\<lambda>i. uint (a ! i) + uint (b ! i)"])
    fix j and c :: u32 assume "j < length a" "c = 0 \<or> c = 1"
    then show "(fst (f j c (n ! j)) = 0 \<or> fst (f j c (n ! j)) = 1) \<and>
        uint (a ! j) + uint (b ! j) + 1 * uint c =
          1 * uint (fst (f j c (n ! j))) * 2 ^ 32 + uint (snd (f j c (n ! j)))"
      using plus_limb_carry [where c = c and b = b and i = j and x = "a ! j"] by (simp only: f mult_1)
  qed (use len in \<open>simp_all add: bn_val_int_take_Suc del: of_nat_add\<close>)
  moreover have "length (limb_loop f (length a) 0 n) = length a"
    using limb_loop_frame [of "length a" n f 0] len by simp
  ultimately have "int (bn_val (limb_loop f (length a) 0 n)) = int ((bn_val a + bn_val b) mod 2 ^ (32 * length a))"
    using len by (simp add: zmod_int)
  then show ?thesis by (simp only: of_nat_eq_iff)
qed

lemma length_bn_plus [simp]: "length (bn_plus a b) = length a"
  using limb_loop_frame [of "length a" "replicate (length a) 0"] by (simp add: bn_plus_def plus_bn_loop_eq)

lemma length_bn_plus_assign [simp]: "length (bn_plus_assign a b) = length a"
  using limb_loop_frame [of "length a" a] by (simp add: bn_plus_assign_def plus_bn_loop_this_eq)

lemma bn_val_plus [bn_value]:
  assumes "length b = length a"
  shows "bn_val (bn_plus a b) = (bn_val a + bn_val b) mod 2 ^ (32 * length a)"
    and "bn_val (bn_plus_assign a b) = (bn_val a + bn_val b) mod 2 ^ (32 * length a)"
  using plus_loop_val [of b a "replicate (length a) 0" "\<lambda>i c _. plus_limb b i c (a ! i)"]
    plus_loop_val [of b a a "plus_limb b"] assms
  by (simp_all add: bn_plus_def plus_bn_loop_eq bn_plus_assign_def plus_bn_loop_this_eq)

subsection \<open>One-limb addition and subtraction\<close>

definition plus_T_limb :: "nat \<Rightarrow> u32 \<Rightarrow> u32 \<Rightarrow> u32 \<times> u32" where
  "plus_T_limb i c x = (if x + c < x then 1 else 0, x + c)"

definition minus_T_limb :: "nat \<Rightarrow> u32 \<Rightarrow> u32 \<Rightarrow> u32 \<times> u32" where
  "minus_T_limb i c x = (if x - c > x then 1 else 0, x - c)"

lemma plus_T_loop_eq: "plus_T_loop i c n = limb_loop plus_T_limb i c n"
  by (induction i arbitrary: c n) (simp_all add: plus_T_limb_def Let_def)

lemma minus_T_loop_eq: "minus_T_loop i c n = limb_loop minus_T_limb i c n"
  by (induction i arbitrary: c n) (simp_all add: minus_T_limb_def Let_def)

lemma bn_plus_T_eq: "a \<noteq> [] \<Longrightarrow> bn_plus_T a r = limb_loop plus_T_limb (length a) r a"
  by (cases "length a") (simp_all add: bn_plus_T_def plus_T_loop_eq plus_T_limb_def Let_def)

lemma bn_minus_T_eq: "a \<noteq> [] \<Longrightarrow> bn_minus_T a r = limb_loop minus_T_limb (length a) r a"
  by (cases "length a") (simp_all add: bn_minus_T_def minus_T_loop_eq minus_T_limb_def Let_def)

lemma plus_T_limb_carry:
  "uint x + uint c = uint (fst (plus_T_limb i c x)) * 2 ^ 32 + uint (snd (plus_T_limb i c x))"
  using uint_u32_less [of x] uint_u32_less [of c]
  by (simp add: plus_T_limb_def word_less_def uint_add_u32)

lemma minus_T_limb_borrow:
  "uint x - uint c = - (uint (fst (minus_T_limb i c x)) * 2 ^ 32) + uint (snd (minus_T_limb i c x))"
  using uint_u32_less [of x] uint_u32_less [of c] uint_ge_0 [of x] uint_ge_0 [of c]
  by (simp add: minus_T_limb_def word_less_def uint_sub_u32)

lemma length_bn_plus_T [simp]: "length (bn_plus_T a r) = length a"
  using limb_loop_frame [of "length a - 1" "a[length a - 1 := a ! (length a - 1) + r]"]
  by (simp add: bn_plus_T_def plus_T_loop_eq Let_def)

lemma limb_loop_T_val:
  fixes s :: int
  assumes "\<And>i c x. uint x + s * uint c = s * uint (fst (f i c x)) * 2 ^ 32 + uint (snd (f i c x))"
  shows "int (bn_val (limb_loop f (length a) r a)) = (int (bn_val a) + s * uint r) mod 2 ^ (32 * length a)"
proof -
  have "int (bn_val (take (length a) (limb_loop f (length a) r a))) =
      (int (bn_val (take (length a) a)) + s * uint r) mod 2 ^ (32 * length a)"
    by (rule limb_loop_value [where P = "\<lambda>_. True" and g = "\<lambda>i. uint (a ! i)"])
      (use assms in \<open>simp_all add: bn_val_int_take_Suc\<close>)
  then show ?thesis using limb_loop_frame [of "length a" a f r] by simp
qed

lemma bn_val_plus_T [bn_value]:
  assumes "a \<noteq> []"
  shows "bn_val (bn_plus_T a r) = (bn_val a + unat r) mod 2 ^ (32 * length a)"
proof -
  have "int (bn_val (bn_plus_T a r)) = (int (bn_val a) + 1 * uint r) mod 2 ^ (32 * length a)"
    unfolding bn_plus_T_eq [OF assms]
    by (rule limb_loop_T_val) (simp only: mult_1 plus_T_limb_carry)
  then have "int (bn_val (bn_plus_T a r)) = int ((bn_val a + unat r) mod 2 ^ (32 * length a))"
    by (simp add: zmod_int)
  then show ?thesis by (simp only: of_nat_eq_iff)
qed

lemma bn_val_minus_T [bn_value]:
  "a \<noteq> [] \<Longrightarrow> int (bn_val (bn_minus_T a r)) = (int (bn_val a) - int (unat r)) mod 2 ^ (32 * length a)"
  using limb_loop_T_val [of "- 1" minus_T_limb a r] minus_T_limb_borrow
  by (simp add: bn_minus_T_eq)

subsection \<open>Subtraction\<close>

definition minus_limb :: "limbs \<Rightarrow> nat \<Rightarrow> u32 \<Rightarrow> u32 \<Rightarrow> u32 \<times> u32" where
  "minus_limb b i c x =
     (if x - b ! i > x then 1 else if x - b ! i - c = -1 then 1 else 0, x - b ! i - c)"

lemma minus_bn_loop_eq: "minus_bn_loop i c a b n = limb_loop (\<lambda>i c _. minus_limb b i c (a ! i)) i c n"
  by (induction i arbitrary: c n) (simp_all add: minus_limb_def Let_def)

text \<open>
  A limb pair \<open>0xffffffff - 0\<close> without incoming borrow gives the digit \<open>0xffffffff\<close>,
  which the macro takes for the result of a borrow.  Everywhere else the borrow is right.
\<close>

lemma minus_limb_borrow:
  assumes "c = 0 \<or> c = 1" and "\<not> (x = -1 \<and> b ! i = 0)"
  shows "uint x - uint (b ! i) - uint c =
    - (uint (fst (minus_limb b i c x)) * 2 ^ 32) + uint (snd (minus_limb b i c x))"
proof -
  define y where "y = b ! i"
  have m1: "x - y - c = -1 \<longleftrightarrow> uint (x - y - c) = 2 ^ 32 - 1"
    by (simp add: word_uint_eq_iff uint_minus_1_u32)
  have "\<not> (uint x = 2 ^ 32 - 1 \<and> uint y = 0)"
    using assms(2) by (simp add: y_def word_uint_eq_iff uint_minus_1_u32)
  moreover obtain X Y where XY: "uint x = X" "uint y = Y" "0 \<le> X" "0 \<le> Y" "X < 2 ^ 32" "Y < 2 ^ 32"
    using uint_ge_0 [of x] uint_ge_0 [of y] uint_u32_less [of x] uint_u32_less [of y] by blast
  ultimately show ?thesis
    using assms(1) unfolding minus_limb_def y_def [symmetric] m1 word_less_def fst_conv snd_conv
    by (elim disjE) (auto simp: uint_sub_u32 XY(1,2))
qed


lemma bn_val_minus [bn_value]:
  assumes len: "length b = length a"
    and no_max: "\<And>i. i < length a \<Longrightarrow> \<not> (a ! i = -1 \<and> b ! i = 0)"
  shows "int (bn_val (bn_minus a b)) = (int (bn_val a) - int (bn_val b)) mod 2 ^ (32 * length a)"
proof -
  let ?f = "\<lambda>i c (_ :: u32). minus_limb b i c (a ! i)" and ?n = "replicate (length a) (0 :: u32)"
  have "int (bn_val (take (length a) (limb_loop ?f (length a) 0 ?n))) =
      ((int (bn_val (take (length a) a)) - int (bn_val (take (length a) b))) + (-1) * uint (0 :: u32))
        mod 2 ^ (32 * length a)"
  proof (rule limb_loop_value [where P = "\<lambda>c. c = 0 \<or> c = 1" and g = "\<lambda>i. uint (a ! i) - uint (b ! i)"])
    fix j and c :: u32 assume "j < length a" "c = 0 \<or> c = 1"
    then show "(fst (minus_limb b j c (a ! j)) = 0 \<or> fst (minus_limb b j c (a ! j)) = 1) \<and>
        uint (a ! j) - uint (b ! j) + (-1) * uint c =
          (-1) * uint (fst (minus_limb b j c (a ! j))) * 2 ^ 32 + uint (snd (minus_limb b j c (a ! j)))"
      using minus_limb_borrow [of c "a ! j" b j] no_max [of j]
      by (intro conjI) (simp add: minus_limb_def, simp)
  qed (use len in \<open>simp_all add: bn_val_int_take_Suc\<close>)
  then show ?thesis using limb_loop_frame [of "length a" ?n ?f 0] len
    by (simp add: bn_minus_def minus_bn_loop_eq)
qed

subsection \<open>Multiplication\<close>

lemma mult_limb:
  fixes x y z c :: u32
  defines "u \<equiv> (ucast x + ucast y * ucast z + ucast c :: u64)"
  shows "uint x + uint y * uint z + uint c = uint (ucast (drop_bit 32 u) :: u32) * 2 ^ 32
    + uint (ucast (u AND (push_bit 32 1 - 1)) :: u32)"
proof -
  have b: "uint x \<le> 2 ^ 32 - 1" "uint y \<le> 2 ^ 32 - 1" "uint z \<le> 2 ^ 32 - 1" "uint c \<le> 2 ^ 32 - 1"
    using uint_u32_less [of x] uint_u32_less [of y] uint_u32_less [of z] uint_u32_less [of c] by auto
  have "uint y * uint z \<le> (2 ^ 32 - 1) * (2 ^ 32 - 1)"
    using b(2,3) by (intro mult_mono) auto
  then have yz: "uint x + uint y * uint z + uint c < 2 ^ 64" using b by simp
  have "uint u = (uint x + uint y * uint z + uint c) mod 2 ^ 64"
    by (simp add: u_def uint_word_ariths unsigned_ucast_eq take_bit_eq_mod mod_simps)
  then have u: "uint u = uint x + uint y * uint z + uint c" using yz by simp
  have mask: "(push_bit 32 1 - 1 :: u64) = mask 32" by (simp add: mask_eq_exp_minus_1)
  have lo: "uint (ucast (u AND (push_bit 32 1 - 1)) :: u32) = uint u mod 2 ^ 32"
  proof -
    have "uint (ucast (take_bit 32 u) :: u32) = take_bit 32 (uint u)"
      by (simp add: unsigned_ucast_eq unsigned_take_bit_eq)
    then show ?thesis unfolding mask take_bit_eq_mask [symmetric] take_bit_eq_mod [of 32 "uint u"] .
  qed
  have hi: "uint (ucast (drop_bit 32 u) :: u32) = uint u div 2 ^ 32"
  proof -
    have "uint (ucast (drop_bit 32 u) :: u32) = take_bit 32 (drop_bit 32 (uint u))"
      using uint_bounded [of u]
      by (simp add: unsigned_ucast_eq unsigned_drop_bit_eq take_bit_int_eq_self)
    also have "\<dots> = (uint u div 2 ^ 32) mod 2 ^ 32" by (simp only: take_bit_eq_mod drop_bit_eq_div)
    also have "\<dots> = uint u div 2 ^ 32" using uint_bounded [of u] by (intro mod_pos_pos_trivial) (auto simp: pos_imp_zdiv_nonneg_iff)
    finally show ?thesis .
  qed
  show ?thesis unfolding lo hi u [symmetric] by simp
qed


definition mult_limb_step :: "u32 \<Rightarrow> limbs \<Rightarrow> nat \<Rightarrow> u32 \<Rightarrow> u32 \<Rightarrow> u32 \<times> u32" where
  "mult_limb_step z b t c x =
     (let u = (ucast x + ucast (b ! t) * ucast z + ucast c :: u64)
      in (ucast (drop_bit 32 u), ucast (u AND (push_bit 32 1 - 1))))"

lemma mult_limb_step_carry:
  "uint x + uint (b ! t) * uint z + uint c =
     uint (fst (mult_limb_step z b t c x)) * 2 ^ 32 + uint (snd (mult_limb_step z b t c x))"
  unfolding mult_limb_step_def Let_def fst_conv snd_conv by (rule mult_limb)

lemma mult_inner_eq:
  assumes "i < length a" "j \<le> length b"
  shows "mult_inner j c i a b n =
    limb_loop (mult_limb_step (a ! i) (drop (length a - 1 - i) b)) (j - (length a - 1 - i)) c n"
  using assms(2)
proof (induction j arbitrary: c n)
  case (Suc j)
  let ?k = "length a - 1 - i"
  have ij: "int (length a) - 1 - (int (length a) - 1 - int i + int (length a) - 1 - int j) = int j - int ?k"
    using assms(1) by (simp add: of_nat_diff)
  show ?case
  proof (cases "?k \<le> j")
    case True
    then have "Suc j - ?k = Suc (j - ?k)" "nat (int j - int ?k) = j - ?k" "drop ?k b ! (j - ?k) = b ! j"
      using Suc.prems by auto
    then show ?thesis using True Suc
      unfolding mult_inner.simps ij Let_def by (simp add: mult_limb_step_def Let_def)
  next
    case False
    then have "\<not> 0 \<le> int j - int ?k" by simp
    then show ?thesis using Suc False unfolding mult_inner.simps ij Let_def if_not_P [OF \<open>\<not> 0 \<le> _\<close>] by simp
  qed
qed simp

lemma mult_inner_correct:
  assumes i: "i < length a" and len: "length b = length a" "length n = length a"
  defines "R \<equiv> mult_inner (length a) 0 i a b n"
  shows "length R = length a" "drop (Suc i) R = drop (Suc i) n"
    "int (bn_val (take (Suc i) R)) =
      (int (bn_val (take (Suc i) n)) + uint (a ! i) * int (bn_val b)) mod 2 ^ (32 * Suc i)"
proof -
  let ?k = "length a - 1 - i" and ?b = "drop (length a - 1 - i) b"
  let ?f = "mult_limb_step (a ! i) ?b"
  have R: "R = limb_loop ?f (Suc i) 0 n"
    using mult_inner_eq [OF i, of "length a" b 0 n] len i by (simp add: R_def)
  show "length R = length a" "drop (Suc i) R = drop (Suc i) n"
    using limb_loop_frame [of "Suc i" n ?f 0] i len by (simp_all add: R)
  have lb: "length ?b = Suc i" using i len by simp
  have "int (bn_val (take (Suc i) R)) =
      ((int (bn_val (take (Suc i) n)) + uint (a ! i) * int (bn_val (take (Suc i) ?b))) + 1 * uint (0 :: u32))
        mod 2 ^ (32 * Suc i)"
    unfolding R
  proof (rule limb_loop_value [where P = "\<lambda>_. True" and g = "\<lambda>t. uint (n ! t) + uint (?b ! t) * uint (a ! i)"])
    fix j and c :: u32 assume "j < Suc i"
    show "True \<and> uint (n ! j) + uint (?b ! j) * uint (a ! i) + 1 * uint c =
        1 * uint (fst (?f j c (n ! j))) * 2 ^ 32 + uint (snd (?f j c (n ! j)))"
      using mult_limb_step_carry [of "n ! j" ?b j "a ! i" c] by simp
  next
    fix j assume "j < Suc i"
    then show "int (bn_val (take (Suc j) n)) + uint (a ! i) * int (bn_val (take (Suc j) ?b)) =
       (int (bn_val (take j n)) + uint (a ! i) * int (bn_val (take j ?b))) * 2 ^ 32 +
       (uint (n ! j) + uint (?b ! j) * uint (a ! i))"
      using i len lb bn_val_int_take_Suc [of j n] bn_val_int_take_Suc [of j ?b]
      by (simp add: algebra_simps)
  qed (use i len in simp_all)
  then have val: "int (bn_val (take (Suc i) R)) =
      (int (bn_val (take (Suc i) n)) + uint (a ! i) * int (bn_val ?b)) mod 2 ^ (32 * Suc i)"
    using lb by (simp del: power_Suc mult_Suc_right)
  have "bn_val b = bn_val (take ?k b) * 2 ^ (32 * Suc i) + bn_val ?b"
    using bn_val_append [of "take ?k b" ?b] lb by simp
  then have "int (bn_val b) = int (bn_val (take ?k b)) * 2 ^ (32 * Suc i) + int (bn_val ?b)"
    by (simp del: power_Suc mult_Suc_right)
  then have "int (bn_val ?b) mod 2 ^ (32 * Suc i) = int (bn_val b) mod 2 ^ (32 * Suc i)"
    by (simp only: mod_mult_self3)
  then have "uint (a ! i) * int (bn_val ?b) mod 2 ^ (32 * Suc i) =
      uint (a ! i) * int (bn_val b) mod 2 ^ (32 * Suc i)"
    by (rule mod_mult_cong [OF refl])
  then show "int (bn_val (take (Suc i) R)) =
      (int (bn_val (take (Suc i) n)) + uint (a ! i) * int (bn_val b)) mod 2 ^ (32 * Suc i)"
    unfolding val by (rule mod_add_cong [OF refl])
qed

lemma mult_outer_correct:
  assumes "i \<le> length a" "length b = length a" "length n = length a"
  shows "length (mult_outer i a b n) = length a \<and> drop i (mult_outer i a b n) = drop i n \<and>
    int (bn_val (take i (mult_outer i a b n))) =
      (int (bn_val (take i n)) + int (bn_val (take i a)) * int (bn_val b)) mod 2 ^ (32 * i)"
  using assms
proof (induction i arbitrary: n)
  case (Suc i)
  let ?n = "mult_inner (length a) 0 i a b n" and ?R = "mult_outer (Suc i) a b n"
  have inner: "length ?n = length a" "drop (Suc i) ?n = drop (Suc i) n"
    "int (bn_val (take (Suc i) ?n)) =
      (int (bn_val (take (Suc i) n)) + uint (a ! i) * int (bn_val b)) mod 2 ^ (32 * Suc i)"
    using mult_inner_correct [of i a b n] Suc.prems by simp_all
  have IH: "length ?R = length a" "drop i ?R = drop i ?n"
    "int (bn_val (take i ?R)) = (int (bn_val (take i ?n)) + int (bn_val (take i a)) * int (bn_val b)) mod 2 ^ (32 * i)"
    using Suc.IH [of ?n] Suc.prems inner(1) by simp_all
  have "drop 1 (drop i ?R) = drop 1 (drop i ?n)" by (simp only: IH(2))
  then have d: "drop (Suc i) ?R = drop (Suc i) n" using inner(2) by simp
  have Ri: "?R ! i = ?n ! i"
    using IH(1,2) inner(1) Suc.prems(1) nth_drop [of i ?R 0] nth_drop [of i ?n 0] by simp
  let ?B = "int (bn_val b)" and ?A = "int (bn_val (take i a))"
  have "int (bn_val (take (Suc i) ?R)) =
      ((int (bn_val (take i ?n)) + ?A * ?B) mod 2 ^ (32 * i)) * 2 ^ 32 + uint (?n ! i)"
    using Suc.prems(1) IH(1,3) Ri bn_val_int_take_Suc [of i ?R] by simp
  also have "\<dots> = ((int (bn_val (take i ?n)) + ?A * ?B) * 2 ^ 32 + uint (?n ! i)) mod (2 ^ (32 * i) * 2 ^ 32)"
    by (rule mod_digit_snoc) (simp_all add: uint_u32_less [simplified])
  also have "(int (bn_val (take i ?n)) + ?A * ?B) * 2 ^ 32 + uint (?n ! i) =
      int (bn_val (take (Suc i) ?n)) + ?A * 2 ^ 32 * ?B"
    using Suc.prems(1) inner(1) bn_val_int_take_Suc [of i ?n] by (simp add: algebra_simps)
  also have "2 ^ (32 * i) * 2 ^ 32 = (2 :: int) ^ (32 * Suc i)" by (simp add: power_add)
  also have "(int (bn_val (take (Suc i) ?n)) + ?A * 2 ^ 32 * ?B) mod 2 ^ (32 * Suc i) =
      (int (bn_val (take (Suc i) n)) + uint (a ! i) * ?B + ?A * 2 ^ 32 * ?B) mod 2 ^ (32 * Suc i)"
    unfolding inner(3) by (rule mod_add_left_eq)
  also have "int (bn_val (take (Suc i) n)) + uint (a ! i) * ?B + ?A * 2 ^ 32 * ?B =
      int (bn_val (take (Suc i) n)) + int (bn_val (take (Suc i) a)) * ?B"
    using Suc.prems(1) bn_val_int_take_Suc [of i a] by (simp add: algebra_simps)
  finally show ?case using IH(1) d by simp
qed simp

lemma bn_val_replicate_0 [simp]: "bn_val (replicate n 0) = 0"
  by (induction n) simp_all

lemma length_bn_mult [simp]: "length b = length a \<Longrightarrow> length (bn_mult a b) = length a"
  using mult_outer_correct [of "length a" a b "replicate (length a) 0"] by (simp add: bn_mult_def)

lemma bn_val_mult [bn_value]:
  assumes "length b = length a"
  shows "bn_val (bn_mult a b) = (bn_val a * bn_val b) mod 2 ^ (32 * length a)"
proof -
  have "int (bn_val (bn_mult a b)) = int ((bn_val a * bn_val b) mod 2 ^ (32 * length a))"
    using mult_outer_correct [of "length a" a b "replicate (length a) 0"] assms
    by (auto simp: bn_mult_def zmod_int)
  then show ?thesis by (simp only: of_nat_eq_iff)
qed


text \<open>Multiplication by one limb multiplies every limb on its own.\<close>

lemma mult_T_loop_eq:
  assumes "i \<le> length a" "length n = length a" "\<And>j. j < i \<Longrightarrow> n ! j = 0"
  shows "length (mult_T_loop i a r n) = length a \<and>
    (\<forall>j < length a. mult_T_loop i a r n ! j = (if j < i then a ! j * r else n ! j))"
  using assms
proof (induction i arbitrary: n)
  case (Suc i)
  have digit: "ucast ((ucast (n ! i) + ucast r * ucast (a ! i) + ucast (0 :: u32) :: u64) AND (push_bit 32 1 - 1)) = a ! i * r"
    (is "?lo = _")
  proof -
    have "uint ?lo = (uint (n ! i) + uint r * uint (a ! i) + uint (0 :: u32)) mod 2 ^ 32"
      unfolding mult_limb [of "n ! i" r "a ! i" 0] mod_mult_self3
      by (rule mod_pos_pos_trivial [symmetric]) (simp_all add: uint_u32_less [simplified])
    then have "uint ?lo = uint (a ! i * r)"
      using Suc.prems(3) [of i] by (simp add: uint_word_ariths mult.commute)
    then show ?thesis by (simp only: word_uint_eq_iff)
  qed
  have step: "mult_T_loop (Suc i) a r n = mult_T_loop i a r (n[i := a ! i * r])"
    by (simp only: mult_T_loop.simps Let_def digit)
  show ?case
    using Suc.IH [of "n[i := a ! i * r]"] Suc.prems
    by (auto simp: step nth_list_update less_Suc_eq simp del: mult_T_loop.simps)
qed simp

lemma bn_mult_T_limbwise: "bn_mult_T a r = map (\<lambda>x. x * r) a"
  using mult_T_loop_eq [of "length a" a "replicate (length a) 0" r]
  by (intro nth_equalityI) (simp_all add: bn_mult_T_def)


subsection \<open>Bits\<close>

lemma bit_bn_val:
  "bit (bn_val xs) k \<longleftrightarrow> k < 32 * length xs \<and> bit (xs ! (length xs - 1 - k div 32)) (k mod 32)"
proof (induction xs arbitrary: k rule: rev_induct)
  case (snoc x xs)
  have "bn_val (xs @ [x]) = push_bit 32 (bn_val xs) OR unat x"
  proof -
    have "push_bit 32 (bn_val xs) OR unat x = push_bit 32 (bn_val xs) + unat x"
      using unat_u32_less [of x]
      by (intro disjunctive_add [symmetric]) (auto simp: bit_simps dest: bit_imp_le_length)
    then show ?thesis by (simp add: bn_val_snoc push_bit_eq_mult)
  qed
  then have bit: "bit (bn_val (xs @ [x])) k \<longleftrightarrow> (32 \<le> k \<and> bit (bn_val xs) (k - 32)) \<or> bit x k"
    by (auto simp: bit_simps)
  show ?case
  proof (cases "k < 32")
    case True
    then show ?thesis by (simp add: bit nth_append)
  next
    case False
    then have "\<not> bit x k" by (auto dest: bit_imp_le_length)
    moreover have "(k - 32) div 32 = k div 32 - 1" "(k - 32) mod 32 = k mod 32" "1 \<le> k div 32"
      using False by (simp_all add: le_div_geq le_mod_geq)
    moreover have "k - 32 < 32 * length xs \<longleftrightarrow> k < 32 + 32 * length xs" using False by linarith
    ultimately show ?thesis using False by (auto simp: bit snoc nth_append)
  qed
qed simp


lemma length_bn_bitops [simp]:
  "length (bn_xor a b) = length a" "length (bn_and a b) = length a" "length (bn_not a) = length a"
  by (simp_all add: bn_xor_def bn_and_def bn_not_def)

lemma limb_index_less: "k < 32 * length a \<Longrightarrow> length a - 1 - k div 32 < length (a :: limbs)"
  by (cases a) auto

lemma bn_val_bitops [bn_value]:
  assumes "length b = length a"
  shows "bn_val (bn_xor a b) = bn_val a XOR bn_val b"
    and "bn_val (bn_and a b) = bn_val a AND bn_val b"
  by (rule bit_eqI;
      use assms limb_index_less [of _ a] in \<open>auto simp: bit_bn_val bit_simps bn_xor_def bn_and_def\<close>)+

lemma bit_bn_not: "bit (bn_val (bn_not a)) k \<longleftrightarrow> k < 32 * length a \<and> \<not> bit (bn_val a) k"
  using limb_index_less [of k a] by (auto simp: bit_bn_val bit_simps bn_not_def)

subsection \<open>Comparison\<close>

lemma bn_eq_iff: "length a = length b \<Longrightarrow> bn_eq a b \<longleftrightarrow> a = b"
  by (induction a b rule: bn_eq.induct) auto

lemma bn_less_iff [bn_value]: "length a = length b \<Longrightarrow> bn_less a b \<longleftrightarrow> bn_val a < bn_val b"
proof (induction a b rule: bn_less.induct)
  case (1 x xs y ys)
  let ?W = "2 ^ (32 * length xs) :: nat"
  have len: "length ys = length xs" using 1 by simp
  have lo: "bn_val xs < ?W" "bn_val ys < ?W" using bn_val_less [of xs] bn_val_less [of ys] len by simp_all
  have lt: "unat u * ?W + p < unat v * ?W + q" if "u < v" "p < ?W" for u v :: u32 and p q
  proof -
    have "(unat u + 1) * ?W \<le> unat v * ?W" using that(1) by (intro mult_right_mono) (simp_all add: word_less_nat_alt)
    then show ?thesis using that(2) by simp
  qed
  consider "x < y" | "y < x" | "x = y" by (metis linorder_neqE)
  then show ?case
  proof cases
    case 1 then show ?thesis using lt [OF 1 lo(1)] len by simp
  next
    case 2 then show ?thesis using lt [OF 2 lo(2), of "bn_val xs"] len by simp
  next
    case 3 then show ?thesis using "1.IH" len by simp
  qed
qed auto

lemma bn_greater_less: "bn_greater a b = bn_less b a"
  by (induction a b rule: bn_greater.induct) auto

lemma bn_val_eq_iff: "length a = length b \<Longrightarrow> bn_val a = bn_val b \<longleftrightarrow> a = b"
  using bn_val_inject by blast

lemma bn_is_zero_iff: "bn_is_zero a \<longleftrightarrow> bn_val a = 0"
  by (induction a) (auto simp: bn_is_zero_def unat_eq_zero)


end
