(* ===== verification/Rdp_Types.thy ===== *)
theory Rdp_Types
  imports Packetbuf Bn
begin

section \<open>RDP data types and segments (rdp.hpp)\<close>

text \<open>
  Events, connection states, segment headers and addresses of the reliable datagram
  protocol, and the segments the protocol code builds.  A header is a \<open>rdp_head\<close>
  record; \<open>head_bytes\<close> is its 20-byte wire form with the multi-byte fields in network
  order, \<open>read_head\<close> the overlay the code reads through \<^verbatim>\<open>(rdp_head*)\<close>.
\<close>

datatype rdp_event = ACCEPTED | CONNECTED | REFUSED | RESET | FAILED | READY2READ | BROKEN

datatype rdp_state =
  CLOSED | LISTEN | SYN_SENT | SYN_RCVD | OPEN | CLOSE_WAIT_PASV | CLOSE_WAIT_ACTIVE

record rdp_head =
  h_flags :: u8
  h_hlen :: u8
  h_sport :: u16
  h_dport :: u16
  h_dlen :: u16
  h_seqnum :: u32
  h_acknum :: u32
  h_reserved :: u32

record rdp_addr =
  did :: uint160
  dport :: u16
  sport :: u16

record rdp_status =
  st_state :: rdp_state
  st_did :: uint160
  st_dport :: u16
  st_sport :: u16

definition flag_syn :: u8 where "flag_syn = 0x80"
definition flag_ack :: u8 where "flag_ack = 0x40"
definition flag_eak :: u8 where "flag_eak = 0x20"
definition flag_rst :: u8 where "flag_rst = 0x10"
definition flag_nul :: u8 where "flag_nul = 0x08"
definition flag_fin :: u8 where "flag_fin = 0x04"
definition flag_ver :: u8 where "flag_ver = 0"

lemmas flag_defs =
  flag_syn_def flag_ack_def flag_eak_def flag_rst_def flag_nul_def flag_fin_def flag_ver_def

definition rbuf_max_default :: u32 where "rbuf_max_default = 1012 - 128"
definition rcv_max_default :: u32 where "rcv_max_default = 1024"
definition well_known_port_max :: u16 where "well_known_port_max = 1024"
definition sbuf_limit :: u32 where "sbuf_limit = 1012 - 128"
definition timer_rdp_usec :: int where "timer_rdp_usec = 300 * 1000"
definition ack_interval_usec :: int where "ack_interval_usec = 300000"

text \<open>\<^verbatim>\<open>head->flags & f\<close> as a condition.\<close>

definition has_flag :: "rdp_head \<Rightarrow> u8 \<Rightarrow> bool" where
  "has_flag h f \<longleftrightarrow> h_flags h AND f \<noteq> 0"

subsection \<open>Wire form\<close>

definition head_bytes :: "rdp_head \<Rightarrow> u8 list" where
  "head_bytes h = [h_flags h, h_hlen h] @ htons_bytes (h_sport h) @ htons_bytes (h_dport h) @
     htons_bytes (h_dlen h) @ htonl_bytes (h_seqnum h) @ htonl_bytes (h_acknum h) @ htonl_bytes (h_reserved h)"

definition head_of_bytes :: "u8 list \<Rightarrow> rdp_head" where
  "head_of_bytes bs = \<lparr>h_flags = bs ! 0, h_hlen = bs ! 1,
     h_sport = ntohs_bytes (take 2 (drop 2 bs)), h_dport = ntohs_bytes (take 2 (drop 4 bs)),
     h_dlen = ntohs_bytes (take 2 (drop 6 bs)), h_seqnum = ntohl_bytes (take 4 (drop 8 bs)),
     h_acknum = ntohl_bytes (take 4 (drop 12 bs)), h_reserved = ntohl_bytes (take 4 (drop 16 bs))\<rparr>"

definition read_head :: "packetbuf \<Rightarrow> rdp_head" where
  "read_head p = head_of_bytes (pbuf_read p (m_head p) 20)"

definition read_syn :: "packetbuf \<Rightarrow> u16 \<times> u16" where
  "read_syn p = (ntohs_bytes (pbuf_read p (m_head p + 20) 2), ntohs_bytes (pbuf_read p (m_head p + 22) 2))"

lemma length_head_bytes [simp]: "length (head_bytes h) = 20"
  by (simp add: head_bytes_def)

lemma head_of_head_bytes [simp]: "head_of_bytes (head_bytes h @ bs) = h"
  by (simp add: head_of_bytes_def head_bytes_def htons_bytes_def htonl_bytes_def
      ntohs_htons [unfolded htons_bytes_def] ntohl_htonl [unfolded htonl_bytes_def]
      del: ntohs_bytes.simps ntohl_bytes.simps)

subsection \<open>Segments\<close>

text \<open>A header with everything zero, as left by \<^verbatim>\<open>memset\<close>.\<close>

definition zero_head :: rdp_head where
  "zero_head = \<lparr>h_flags = 0, h_hlen = 0, h_sport = 0, h_dport = 0, h_dlen = 0,
     h_seqnum = 0, h_acknum = 0, h_reserved = 0\<rparr>"

text \<open>
  A fresh buffer with a header appended: \<^verbatim>\<open>append(sizeof(rdp_head))\<close>, \<^verbatim>\<open>memset\<close> and
  the field assignments.  \<open>new_syn\<close> also carries the two SYN fields.
\<close>

definition new_seg :: "rdp_head \<Rightarrow> packetbuf" where
  "new_seg h = pbuf_write 128 (head_bytes h) (snd (append 20 pbuf_construct))"

definition new_syn :: "rdp_head \<Rightarrow> u16 \<Rightarrow> u16 \<Rightarrow> packetbuf" where
  "new_syn h out_segs_max seg_size_max =
     pbuf_write 128 (head_bytes h @ htons_bytes out_segs_max @ htons_bytes seg_size_max)
       (snd (append 24 pbuf_construct))"

definition ctl_seg :: "u8 \<Rightarrow> rdp_addr \<Rightarrow> u32 \<Rightarrow> u32 \<Rightarrow> packetbuf" where
  "ctl_seg fl a seq ack = new_seg (zero_head\<lparr>h_flags := fl, h_hlen := 10,
     h_sport := sport a, h_dport := dport a, h_seqnum := seq, h_acknum := ack\<rparr>)"

definition syn_seg :: "u8 \<Rightarrow> rdp_addr \<Rightarrow> u32 \<Rightarrow> u32 \<Rightarrow> u32 \<Rightarrow> u32 \<Rightarrow> packetbuf" where
  "syn_seg fl a seq ack rcv_max rbuf_max = new_syn (zero_head\<lparr>h_flags := fl, h_hlen := 12,
     h_sport := sport a, h_dport := dport a, h_seqnum := seq, h_acknum := ack\<rparr>)
     (ucast rcv_max) (ucast rbuf_max)"

lemma append_construct:
  "n \<le> 896 \<Longrightarrow> append n pbuf_construct = (Some 128, pbuf_construct\<lparr>m_len := n\<rparr>)"
  by (simp add: append_def pbuf_consts)

lemma new_seg_simps [simp, pbuf_simps]:
  "m_head (new_seg h) = 128" "m_len (new_seg h) = 20" "pbuf_wf (new_seg h)"
  by (simp_all add: new_seg_def append_construct pbuf_wf_def pbuf_consts)

lemma new_syn_simps [simp, pbuf_simps]:
  "m_head (new_syn h a b) = 128" "m_len (new_syn h a b) = 24" "pbuf_wf (new_syn h a b)"
  by (simp_all add: new_syn_def append_construct pbuf_wf_def pbuf_consts)

lemma pbuf_read_prefix:
  "length bs = m + n \<Longrightarrow> pbuf_read (pbuf_write off bs p) off m = take m bs"
  using pbuf_read_write_same [of bs "m + n" off p] pbuf_read_append [of "pbuf_write off bs p" off m n]
  by (metis append_eq_conv_conj length_pbuf_read)

lemma read_head_new_seg [simp, pbuf_simps]: "read_head (new_seg h) = h"
  using head_of_head_bytes [of h "[]"]
  by (simp add: read_head_def new_seg_def append_construct pbuf_read_write_same)

lemma read_head_new_syn [simp, pbuf_simps]: "read_head (new_syn h a b) = h"
  using head_of_head_bytes [of h "[]"]
  by (simp add: read_head_def new_syn_def append_construct pbuf_read_prefix [of _ 20 4])

lemma read_syn_new_syn [simp, pbuf_simps]: "read_syn (new_syn h a b) = (a, b)"
proof -
  let ?bs = "head_bytes h @ htons_bytes a @ htons_bytes b"
  let ?p = "pbuf_write 128 ?bs (pbuf_construct\<lparr>m_len := 24\<rparr>)"
  have all: "pbuf_read ?p 128 (20 + (2 + 2)) = ?bs" by (simp add: pbuf_read_write_same)
  then have "pbuf_read ?p 128 20 = head_bytes h \<and> pbuf_read ?p 148 2 = htons_bytes a \<and>
      pbuf_read ?p 150 2 = htons_bytes b"
    unfolding pbuf_read_append by simp
  then show ?thesis by (simp add: read_syn_def new_syn_def append_construct)
qed

end
