(* ===== verification/Rdp_Con.thy ===== *)
theory Rdp_Con
  imports Rdp_Types "HOL-Library.Monad_Syntax"
begin

section \<open>RDP connections: send and receive windows (class rdp_con)\<close>

text \<open>
  The connection record and the operations of \<^verbatim>\<open>rdp_con\<close> (rdp.cpp).  The windows are
  ring buffers: a list of slots, a head index and a used count.  An operation returns the
  new connection and the segments it hands to \<^verbatim>\<open>rdp::output\<close>, in order; the result is
  \<open>None\<close> where the code has no defined behaviour (a null \<^verbatim>\<open>pbuf\<close> is dereferenced, an
  index leaves the array, a remainder by zero is taken), where a loop does not end, or
  where one of the \<^verbatim>\<open>int\<close> counts \<^verbatim>\<open>m_swnd_used\<close> and \<^verbatim>\<open>m_rwnd_used\<close>, naturals here,
  would drop below zero.
  \<^verbatim>\<open>time(NULL)\<close> is the argument \<open>now\<close> (seconds) and \<^verbatim>\<open>cagetime::update\<close> stores
  \<open>usec\<close> (microseconds).  Members that no constructor initialises are zero here.
\<close>

record swnd =
  sw_pbuf :: "packetbuf option"
  sent_time :: int
  is_acked :: bool
  is_sent :: bool
  sw_seqnum :: u32
  rt_sec :: int

record rwnd =
  rw_pbuf :: "packetbuf option"
  rw_seqnum :: u32
  is_used :: bool
  is_eacked :: bool

record rdp_con =
  addr :: rdp_addr
  desc :: int
  is_pasv :: bool
  is_closed :: bool
  state :: rdp_state
  sbuf_max :: u32
  rbuf_max :: u32
  snd_nxt :: u32
  snd_una :: u32
  snd_max :: u32
  snd_iss :: u32
  rcv_cur :: u32
  rcv_max :: u32
  rcv_irs :: u32
  rcv_ack :: u32
  acked_time :: int
  syn_time :: int
  syn_tout :: int
  rst_time :: int
  rst_tout :: int
  is_retry_rst :: bool
  rqueue :: "packetbuf list"
  m_swnd :: "swnd list"
  m_swnd_len :: nat
  m_swnd_head :: nat
  m_swnd_used :: nat
  m_swnd_ostand :: nat
  m_rwnd :: "rwnd list"
  m_rwnd_len :: nat
  m_rwnd_head :: nat
  m_rwnd_used :: nat

definition swnd_new :: swnd where
  "swnd_new = \<lparr>sw_pbuf = None, sent_time = 0, is_acked = False, is_sent = False, sw_seqnum = 0, rt_sec = 0\<rparr>"

definition rwnd_new :: rwnd where
  "rwnd_new = \<lparr>rw_pbuf = None, rw_seqnum = 0, is_used = False, is_eacked = False\<rparr>"

definition rdp_con_new :: rdp_con where
  "rdp_con_new = \<lparr>addr = \<lparr>did = [], dport = 0, sport = 0\<rparr>, desc = 0, is_pasv = False, is_closed = False,
     state = CLOSED, sbuf_max = 0, rbuf_max = 0, snd_nxt = 0, snd_una = 0, snd_max = 0, snd_iss = 0,
     rcv_cur = 0, rcv_max = 0, rcv_irs = 0, rcv_ack = 0, acked_time = 0, syn_time = 0, syn_tout = 0,
     rst_time = 0, rst_tout = 0, is_retry_rst = False, rqueue = [],
     m_swnd = [], m_swnd_len = 0, m_swnd_head = 0, m_swnd_used = 0, m_swnd_ostand = 0,
     m_rwnd = [], m_rwnd_len = 0, m_rwnd_head = 0, m_rwnd_used = 0\<rparr>"

definition init_rwnd :: "rdp_con \<Rightarrow> rdp_con" where
  "init_rwnd c = c\<lparr>m_rwnd_len := unat (rcv_max c * 2), m_rwnd_head := 0, m_rwnd_used := 0,
     m_rwnd := replicate (unat (rcv_max c * 2)) rwnd_new\<rparr>"

definition init_swnd :: "rdp_con \<Rightarrow> rdp_con" where
  "init_swnd c = c\<lparr>m_swnd_len := unat (snd_max c * 4), m_swnd_head := 0, m_swnd_used := 0,
     m_swnd_ostand := 0, m_swnd := replicate (unat (snd_max c * 4)) swnd_new\<rparr>"

definition slot :: "'a list \<Rightarrow> nat \<Rightarrow> 'a option" where
  "slot xs i = (if i < length xs then Some (xs ! i) else None)"

subsection \<open>Send window\<close>

definition data_head :: "rdp_con \<Rightarrow> u16 \<Rightarrow> rdp_head" where
  "data_head c len = zero_head\<lparr>h_flags := flag_ack OR flag_ver, h_hlen := 10,
     h_sport := sport (addr c), h_dport := dport (addr c), h_dlen := len,
     h_seqnum := snd_nxt c, h_acknum := rcv_cur c\<rparr>"

fun send_ostand_loop ::
  "nat \<Rightarrow> int \<Rightarrow> nat \<Rightarrow> nat \<Rightarrow> rdp_con \<Rightarrow> packetbuf list \<Rightarrow> (nat \<times> rdp_con \<times> packetbuf list) option" where
  "send_ostand_loop 0 now i e c out = None"
| "send_ostand_loop (Suc fuel) now i e c out =
     (if i \<noteq> e then
        if snd_nxt c - snd_una c < snd_max c then do {
          w \<leftarrow> slot (m_swnd c) i;
          pb \<leftarrow> sw_pbuf w;
          let len = of_int (m_len pb);
          let (off, pb) = prepend 20 pb;
          off \<leftarrow> off;
          let pb = pbuf_write off (head_bytes (data_head c len)) pb;
          let w = w\<lparr>sent_time := now, is_sent := True, sw_seqnum := snd_nxt c, sw_pbuf := Some pb\<rparr>;
          let c = c\<lparr>m_swnd := (m_swnd c)[i := w], snd_nxt := snd_nxt c + 1\<rparr>;
          send_ostand_loop fuel now (ring_inc (m_swnd_len c) i) e c (out @ [pb])
        }
        else Some (i, c, out)
      else Some (i, c, out))"

definition send_ostand_swnd :: "int \<Rightarrow> rdp_con \<Rightarrow> (rdp_con \<times> packetbuf list) option" where
  "send_ostand_swnd now c =
     (if m_swnd_len c = 0 then None
      else do {
        let e = (m_swnd_head c + m_swnd_used c) mod m_swnd_len c;
        (i, c, out) \<leftarrow> send_ostand_loop (Suc (m_swnd_len c)) now (m_swnd_ostand c) e c [];
        Some (c\<lparr>m_swnd_ostand := i\<rparr>, out)
      })"

definition enqueue_swnd :: "int \<Rightarrow> packetbuf \<Rightarrow> rdp_con \<Rightarrow> (bool \<times> rdp_con \<times> packetbuf list) option" where
  "enqueue_swnd now pb c =
     (if m_swnd_used c \<ge> m_swnd_len c \<or> state c \<noteq> OPEN then Some (False, c, [])
      else do {
        let pos = (m_swnd_head c + m_swnd_used c) mod m_swnd_len c;
        w \<leftarrow> slot (m_swnd c) pos;
        let w = w\<lparr>sw_pbuf := Some pb, sent_time := 0, is_acked := False, is_sent := False, rt_sec := 1\<rparr>;
        let c = c\<lparr>m_swnd := (m_swnd c)[pos := w], m_swnd_used := m_swnd_used c + 1\<rparr>;
        (c, out) \<leftarrow> send_ostand_swnd now c;
        Some (True, c, out)
      })"

fun recv_ack_loop :: "nat \<Rightarrow> nat \<Rightarrow> u32 \<Rightarrow> rdp_con \<Rightarrow> (nat \<times> rdp_con) option" where
  "recv_ack_loop 0 i acknum c = None"
| "recv_ack_loop (Suc fuel) i acknum c =
     (if i \<noteq> m_swnd_ostand c then do {
        w \<leftarrow> slot (m_swnd c) i;
        if sw_seqnum w - snd_una c \<le> acknum - snd_una c then
          if is_sent w then
            if m_swnd_used c = 0 then None
            else recv_ack_loop fuel (ring_inc (m_swnd_len c) i) acknum
                   (c\<lparr>m_swnd := (m_swnd c)[i := (if is_acked w then w else w\<lparr>sw_pbuf := None\<rparr>)],
                      m_swnd_used := m_swnd_used c - 1\<rparr>)
          else recv_ack_loop fuel (ring_inc (m_swnd_len c) i) acknum c
        else Some (i, c)
      }
      else Some (i, c))"

definition recv_ack :: "int \<Rightarrow> u32 \<Rightarrow> rdp_con \<Rightarrow> (rdp_con \<times> packetbuf list) option" where
  "recv_ack now acknum c =
     (if acknum - snd_una c < snd_nxt c - snd_una c then do {
        (i, c) \<leftarrow> recv_ack_loop (Suc (m_swnd_len c)) (m_swnd_head c) acknum c;
        send_ostand_swnd now (c\<lparr>m_swnd_head := i, snd_una := acknum\<rparr>)
      }
      else send_ostand_swnd now c)"

fun eack_remove_loop :: "nat \<Rightarrow> rdp_con \<Rightarrow> rdp_con option" where
  "eack_remove_loop 0 c = None"
| "eack_remove_loop (Suc fuel) c =
     (if m_swnd_head c \<noteq> m_swnd_ostand c then do {
        w \<leftarrow> slot (m_swnd c) (m_swnd_head c);
        if is_sent w \<and> is_acked w
        then eack_remove_loop fuel (c\<lparr>m_swnd_head := ring_inc (m_swnd_len c) (m_swnd_head c)\<rparr>)
        else Some c
      }
      else Some c)"

definition recv_eack :: "u32 \<Rightarrow> rdp_con \<Rightarrow> rdp_con option" where
  "recv_eack eacknum c =
     (if m_swnd_used c = 0 then Some c
      else do {
        hd \<leftarrow> slot (m_swnd c) (m_swnd_head c);
        let pos = eacknum - sw_seqnum hd;
        if pos \<ge> of_nat (m_swnd_len c) then Some c
        else do {
          let pos = unat pos + m_swnd_head c;
          let pos = (if pos \<ge> m_swnd_len c then pos mod m_swnd_len c else pos);
          w \<leftarrow> slot (m_swnd c) pos;
          let c = (if sw_seqnum w = eacknum \<and> is_sent w \<and> \<not> is_acked w
                   then c\<lparr>m_swnd := (m_swnd c)[pos := w\<lparr>sw_pbuf := None, is_acked := True\<rparr>]\<rparr>
                   else c);
          eack_remove_loop (Suc (m_swnd_len c)) c
        }
      })"

text \<open>
  \<open>retransmit\<close> returns \<open>False\<close> after it has closed the connection; the caller then
  signals \<open>BROKEN\<close> (the code does so inside the loop, just before the return).
\<close>

fun retransmit_loop ::
  "nat \<Rightarrow> int \<Rightarrow> int \<Rightarrow> nat \<Rightarrow> rdp_con \<Rightarrow> packetbuf list \<Rightarrow> (bool \<times> rdp_con \<times> packetbuf list) option" where
  "retransmit_loop 0 max_retrans now i c out = Some (True, c, out)"
| "retransmit_loop (Suc n) max_retrans now i c out = do {
     w \<leftarrow> slot (m_swnd c) i;
     let i' = ring_inc (m_swnd_len c) i;
     if \<not> is_sent w then Some (True, c, out)
     else if is_acked w then retransmit_loop n max_retrans now i' c out
     else if rt_sec w > max_retrans then Some (False, c\<lparr>state := CLOSED\<rparr>, out)
     else if now - sent_time w > rt_sec w then do {
       pb \<leftarrow> sw_pbuf w;
       let pb = pbuf_write (m_head pb + 12) (htonl_bytes (rcv_cur c)) pb;
       let w = w\<lparr>sent_time := now, rt_sec := rt_sec w * 2, sw_pbuf := Some pb\<rparr>;
       retransmit_loop n max_retrans now i' (c\<lparr>m_swnd := (m_swnd c)[i := w]\<rparr>) (out @ [pb])
     }
     else retransmit_loop n max_retrans now i' c out
   }"

definition retransmit :: "int \<Rightarrow> int \<Rightarrow> rdp_con \<Rightarrow> (bool \<times> rdp_con \<times> packetbuf list) option" where
  "retransmit max_retrans now c =
     (if m_swnd_used c = 0 then Some (True, c, [])
      else retransmit_loop (m_swnd_used c) max_retrans now (m_swnd_head c) c [])"

subsection \<open>Receive window\<close>

definition MAX_EACK :: nat where "MAX_EACK = 64"

fun eack_loop :: "nat \<Rightarrow> nat \<Rightarrow> nat \<Rightarrow> u32 list \<Rightarrow> rdp_con \<Rightarrow> (u32 list \<times> rdp_con) option" where
  "eack_loop 0 idx i seqs c = None"
| "eack_loop (Suc fuel) idx i seqs c =
     (if i < m_rwnd_used c \<and> length seqs < MAX_EACK then do {
        w \<leftarrow> slot (m_rwnd c) idx;
        let idx' = ring_inc (m_rwnd_len c) idx;
        if is_used w then
          if \<not> is_eacked w then
            eack_loop fuel idx' (i + 1) (seqs @ [rw_seqnum w])
              (c\<lparr>m_rwnd := (m_rwnd c)[idx := w\<lparr>is_eacked := True\<rparr>]\<rparr>)
          else eack_loop fuel idx' (i + 1) seqs c
        else eack_loop fuel idx' i seqs c
      }
      else Some (seqs, c))"

definition ack_seg :: "rdp_con \<Rightarrow> u32 list \<Rightarrow> packetbuf" where
  "ack_seg c seqs =
     (let h = zero_head\<lparr>h_flags := flag_ack OR flag_ver, h_hlen := 10, h_sport := sport (addr c),
                h_dport := dport (addr c), h_seqnum := snd_nxt c, h_acknum := rcv_cur c\<rparr>;
          j = length seqs
      in if j > 0
         then let h = h\<lparr>h_flags := h_flags h OR flag_eak, h_hlen := h_hlen h + of_nat (4 * j div 2)\<rparr>;
                  p = snd (append (4 * int j) (new_seg h))
              in pbuf_write 148 (concat (map htonl_bytes seqs)) p
         else new_seg h)"

definition delayed_ack :: "int \<Rightarrow> rdp_con \<Rightarrow> (rdp_con \<times> packetbuf list) option" where
  "delayed_ack usec c = do {
     (seqs, c) \<leftarrow> eack_loop (Suc (m_rwnd_len c)) (m_rwnd_head c) 0 [] c;
     if rcv_cur c = rcv_ack c \<and> seqs = [] then Some (c, [])
     else Some (c\<lparr>rcv_ack := rcv_cur c, acked_time := usec\<rparr>, [ack_seg c seqs])
   }"

fun rwnd_remove_loop :: "nat \<Rightarrow> rdp_con \<Rightarrow> rdp_con option" where
  "rwnd_remove_loop 0 c = None"
| "rwnd_remove_loop (Suc fuel) c = do {
     w \<leftarrow> slot (m_rwnd c) (m_rwnd_head c);
     if is_used w then do {
       pb \<leftarrow> rw_pbuf w;
       let c = c\<lparr>rcv_cur := rcv_cur c + 1\<rparr>;
       let c = (if m_len pb > 0 then c\<lparr>rqueue := rqueue c @ [pb]\<rparr> else c);
       let w = w\<lparr>rw_pbuf := None, is_used := False, is_eacked := False\<rparr>;
       if m_rwnd_used c = 0 then None
       else rwnd_remove_loop fuel (c\<lparr>m_rwnd := (m_rwnd c)[m_rwnd_head c := w], m_rwnd_used := m_rwnd_used c - 1,
              m_rwnd_head := ring_inc (m_rwnd_len c) (m_rwnd_head c)\<rparr>)
     }
     else Some c
   }"

definition rwnd_recv_data :: "int \<Rightarrow> packetbuf \<Rightarrow> u32 \<Rightarrow> rdp_con \<Rightarrow> (rdp_con \<times> packetbuf list) option" where
  "rwnd_recv_data usec pb seqnum c =
     (let seq_cur = seqnum - rcv_cur c in
      if \<not> (0 < seq_cur \<and> seq_cur \<le> of_nat (m_rwnd_len c)) then Some (c, [])
      else do {
        let idx = m_rwnd_head c + unat seq_cur - 1;
        let idx = (if idx \<ge> m_rwnd_len c then idx mod m_rwnd_len c else idx);
        w \<leftarrow> slot (m_rwnd c) idx;
        let c = (if \<not> is_used w
                 then c\<lparr>m_rwnd := (m_rwnd c)[idx := w\<lparr>rw_pbuf := Some pb, rw_seqnum := seqnum,
                          is_used := True, is_eacked := False\<rparr>],
                        m_rwnd_used := m_rwnd_used c + 1\<rparr>
                 else c);
        c \<leftarrow> rwnd_remove_loop (Suc (m_rwnd_len c)) c;
        if rcv_cur c - rcv_ack c > rcv_max c div 4 \<or> m_len pb = 0 then delayed_ack usec c
        else Some (c, [])
      })"

end
