(* ===== verification/Rdp_Rwnd.thy ===== *)
theory Rdp_Rwnd
  imports Rdp_Con
begin

section \<open>The receive window delivers the stream in order, once\<close>

text \<open>
  The ring buffer \<^verbatim>\<open>m_rwnd\<close> read from its head is the list \<open>rview\<close>: position \<open>k\<close>
  holds the segment with sequence number \<open>rcv_cur + 1 + k\<close> if it is buffered.
  \<open>rwnd_inv\<close> is the invariant of the window, \<open>reorder\<close> the abstract reordering buffer
  that \<open>rwnd_recv_data\<close> implements.
\<close>

definition rview :: "rdp_con \<Rightarrow> rwnd list" where
  "rview c = rotate (m_rwnd_head c) (m_rwnd c)"

definition rwnd_ok :: "rdp_con \<Rightarrow> bool" where
  "rwnd_ok c \<longleftrightarrow> length (m_rwnd c) = m_rwnd_len c \<and> 0 < m_rwnd_len c \<and> m_rwnd_len c < 2 ^ 31 \<and>
     m_rwnd_head c < m_rwnd_len c \<and> m_rwnd_used c = length (filter is_used (rview c)) \<and>
     (\<forall>k < m_rwnd_len c. is_used (rview c ! k) \<longrightarrow>
        rw_seqnum (rview c ! k) = rcv_cur c + 1 + of_nat k \<and> rw_pbuf (rview c ! k) \<noteq> None)"

definition rwnd_inv :: "rdp_con \<Rightarrow> bool" where
  "rwnd_inv c \<longleftrightarrow> rwnd_ok c \<and> \<not> is_used (rview c ! 0)"

definition rw_clear :: "rwnd \<Rightarrow> rwnd" where
  "rw_clear w = w\<lparr>rw_pbuf := None, is_used := False, is_eacked := False\<rparr>"

definition nonempty :: "packetbuf \<Rightarrow> bool" where
  "nonempty p \<longleftrightarrow> m_len p > 0"

lemma nonempty_bytes: "nonempty p \<longleftrightarrow> pbuf_bytes p \<noteq> []"
  by (auto simp: nonempty_def simp flip: length_0_conv)

lemma bytes_nonempty: "map pbuf_bytes (filter nonempty ps) = filter (\<lambda>x. x \<noteq> []) (map pbuf_bytes ps)"
  by (induction ps) (auto simp: nonempty_bytes)

lemma rw_clear_simps [simp]: "\<not> is_used (rw_clear w)" "rw_seqnum (rw_clear w) = rw_seqnum w"
  by (simp_all add: rw_clear_def)

lemma length_rview [simp]: "length (rview c) = length (m_rwnd c)"
  by (simp add: rview_def)

lemma rview_frame:
  "m_rwnd c' = m_rwnd c \<Longrightarrow> m_rwnd_head c' = m_rwnd_head c \<Longrightarrow> rview c' = rview c"
  by (simp add: rview_def)

text \<open>Everything of a connection but the receive side: what the operations here leave alone.\<close>

definition rcv_rest :: "rdp_con \<Rightarrow> rdp_con" where
  "rcv_rest c = c\<lparr>rcv_cur := 0, rcv_ack := 0, acked_time := 0, rqueue := [], m_rwnd := [],
     m_rwnd_head := 0, m_rwnd_used := 0\<rparr>"

lemma rcv_restD [rdp_frame]:
  assumes "rcv_rest c' = rcv_rest c"
  shows "addr c' = addr c" "desc c' = desc c" "is_pasv c' = is_pasv c" "is_closed c' = is_closed c"
    "state c' = state c" "rcv_irs c' = rcv_irs c" "rcv_max c' = rcv_max c" "m_rwnd_len c' = m_rwnd_len c"
    "snd_nxt c' = snd_nxt c" "snd_una c' = snd_una c" "snd_max c' = snd_max c" "m_swnd c' = m_swnd c"
    "m_swnd_len c' = m_swnd_len c" "m_swnd_head c' = m_swnd_head c" "m_swnd_used c' = m_swnd_used c"
    "m_swnd_ostand c' = m_swnd_ostand c"
  using assms by (cases c; cases c'; simp add: rcv_rest_def)+

subsection \<open>Removing the head of the window\<close>

lemma rview_pop:
  assumes "rwnd_ok c" "rview c = w # ws"
  shows "rview (c\<lparr>rcv_cur := r, rqueue := q, m_rwnd := (m_rwnd c)[m_rwnd_head c := w'], m_rwnd_used := u,
      m_rwnd_head := ring_inc (m_rwnd_len c) (m_rwnd_head c)\<rparr>) = ws @ [w']"
proof -
  let ?h = "m_rwnd_head c" and ?xs = "m_rwnd c"
  have len: "length ?xs = m_rwnd_len c" "?h < length ?xs" using assms(1) by (simp_all add: rwnd_ok_def)
  have "?h = (?h + 0) mod length ?xs" using len by simp
  then have "rotate ?h (?xs[?h := w']) = (rview c)[0 := w']"
    using len rotate_list_update [of 0 ?xs ?h w'] by (auto simp: rview_def)
  then have "rotate ?h (?xs[?h := w']) = w' # ws" using assms(2) by simp
  then show ?thesis
    using rotate_ring_inc [of ?h "?xs[?h := w']"] len by (simp add: rview_def)
qed

lemma head_slot:
  assumes "rwnd_ok c"
  shows "slot (m_rwnd c) (m_rwnd_head c) = Some (rview c ! 0)"
  using assms by (simp add: slot_def rview_def rwnd_ok_def nth_rotate)

lemma rwnd_remove_loop_spec:
  assumes "rwnd_ok c" "length (takeWhile is_used (rview c)) = n" "n < fuel"
  shows "\<exists>c'. rwnd_remove_loop fuel c = Some c' \<and> rcv_rest c' = rcv_rest c \<and> rcv_ack c' = rcv_ack c \<and>
    rcv_cur c' = rcv_cur c + of_nat n \<and>
    rqueue c' = rqueue c @ filter nonempty (map (the \<circ> rw_pbuf) (take n (rview c))) \<and>
    rwnd_inv c' \<and> rview c' = drop n (rview c) @ map rw_clear (take n (rview c))"
  using assms
proof (induction n arbitrary: c fuel)
  case 0
  then obtain f where f: "fuel = Suc f" by (cases fuel) auto
  have ne: "rview c \<noteq> []" using "0.prems"(1) by (auto simp: rwnd_ok_def simp flip: length_greater_0_conv)
  then have "\<not> is_used (rview c ! 0)" using "0.prems"(2) by (cases "rview c") (auto split: if_splits)
  then show ?case
    using head_slot [OF "0.prems"(1)] "0.prems"(1) f
    by (simp add: rwnd_inv_def)
next
  case (Suc n)
  then obtain f where f: "fuel = Suc f" "n < f" by (cases fuel) auto
  obtain w ws where L: "rview c = w # ws" and w: "is_used w"
    using Suc.prems(2) by (cases "rview c") (auto split: if_splits)
  define q where "q = rqueue c @ filter nonempty [the (rw_pbuf w)]"
  define d where "d = c\<lparr>rcv_cur := rcv_cur c + 1, rqueue := q, m_rwnd := (m_rwnd c)[m_rwnd_head c := rw_clear w],
     m_rwnd_used := m_rwnd_used c - 1, m_rwnd_head := ring_inc (m_rwnd_len c) (m_rwnd_head c)\<rparr>"
  have ok: "length (m_rwnd c) = m_rwnd_len c" "0 < m_rwnd_len c" "m_rwnd_len c < 2 ^ 31"
    "m_rwnd_used c = length (filter is_used (w # ws))" "m_rwnd_head c < m_rwnd_len c"
    and seqs: "\<And>k. k < m_rwnd_len c \<Longrightarrow> is_used ((w # ws) ! k) \<Longrightarrow>
      rw_seqnum ((w # ws) ! k) = rcv_cur c + 1 + of_nat k \<and> rw_pbuf ((w # ws) ! k) \<noteq> None"
    using Suc.prems(1) L by (auto simp: rwnd_ok_def)
  have view: "rview d = ws @ [rw_clear w]" unfolding d_def by (rule rview_pop [OF Suc.prems(1) L])
  have lws: "length ws + 1 = m_rwnd_len c" using L ok(1) length_rview [of c] by simp
  have seqs': "rw_seqnum (ws ! k) = rcv_cur d + 1 + of_nat k \<and> rw_pbuf (ws ! k) \<noteq> None"
    if "k < length ws" "is_used (ws ! k)" for k
    using seqs [of "Suc k"] that lws by (simp add: d_def algebra_simps)
  have ok': "rwnd_ok d"
    unfolding rwnd_ok_def view
    using ok lws w seqs' by (auto simp: d_def ring_inc_less nth_append less_Suc_eq)
  have tw: "length (takeWhile is_used (rview d)) = n"
    unfolding view using Suc.prems(2) L w by (simp add: takeWhile_tail)
  have "rw_pbuf w \<noteq> None" using seqs [of 0] w ok(2) by simp
  then have step: "rwnd_remove_loop fuel c = rwnd_remove_loop f d"
    using head_slot [OF Suc.prems(1)] L w ok(4) unfolding f(1) d_def q_def
    by (auto simp: rw_clear_def nonempty_def Let_def)
  have n: "n \<le> length ws" using Suc.prems(2) L w length_takeWhile_le [of is_used ws] by simp
  have "rcv_rest d = rcv_rest c" "rcv_ack d = rcv_ack c" "rcv_cur d = rcv_cur c + 1" "rqueue d = q"
    by (simp_all add: d_def rcv_rest_def)
  then show ?case
    using Suc.IH [OF ok' tw f(2)] n L view by (auto simp: step q_def algebra_simps)
qed

subsection \<open>Collecting extended acknowledgements\<close>

definition uneack :: "rwnd \<Rightarrow> rwnd" where
  "uneack w = w\<lparr>is_eacked := False\<rparr>"

lemma uneack_simps [simp]:
  "is_used (uneack w) = is_used w" "rw_seqnum (uneack w) = rw_seqnum w" "rw_pbuf (uneack w) = rw_pbuf w"
  "uneack (w\<lparr>is_eacked := b\<rparr>) = uneack w"
  by (simp_all add: uneack_def)

definition same_slots :: "rwnd list \<Rightarrow> rwnd list \<Rightarrow> bool" where
  "same_slots W W' \<longleftrightarrow> map uneack W = map uneack W'"

lemma same_slotsD:
  assumes "same_slots W W'"
  shows "length W = length W'" "length (filter is_used W) = length (filter is_used W')"
    and "k < length W' \<Longrightarrow> is_used (W ! k) = is_used (W' ! k) \<and> rw_seqnum (W ! k) = rw_seqnum (W' ! k) \<and>
      rw_pbuf (W ! k) = rw_pbuf (W' ! k)"
proof -
  have eq: "map uneack W = map uneack W'" using assms by (simp add: same_slots_def)
  show len: "length W = length W'" using arg_cong [OF eq, of length] by simp
  have "length (filter is_used V) = length (filter is_used (map uneack V))" for V
    by (simp add: filter_map comp_def)
  then show "length (filter is_used W) = length (filter is_used W')" using eq by metis
  have "uneack (W ! k) = uneack (W' ! k)" if "k < length W'" using arg_cong [OF eq, of "\<lambda>l. l ! k"] that len by simp
  then show "k < length W' \<Longrightarrow> is_used (W ! k) = is_used (W' ! k) \<and> rw_seqnum (W ! k) = rw_seqnum (W' ! k) \<and>
      rw_pbuf (W ! k) = rw_pbuf (W' ! k)"
    by (metis uneack_simps(1-3))
qed

lemma same_slots_rotate: "same_slots W W' \<Longrightarrow> same_slots (rotate h W) (rotate h W')"
  by (simp add: same_slots_def flip: rotate_map)

lemma same_slots_eack: "i < length W \<Longrightarrow> same_slots (W[i := (W ! i)\<lparr>is_eacked := True\<rparr>]) W"
  by (simp add: same_slots_def map_update) (metis list_update_id map_update)

lemma same_slots_trans: "same_slots A B \<Longrightarrow> same_slots B C \<Longrightarrow> same_slots A C"
  by (simp add: same_slots_def)

lemma same_slots_rview: "same_slots W (m_rwnd c) \<Longrightarrow> same_slots (rview (c\<lparr>m_rwnd := W\<rparr>)) (rview c)"
  by (simp add: rview_def same_slots_rotate)

lemma same_slots_ok: "same_slots W (m_rwnd c) \<Longrightarrow> rwnd_ok (c\<lparr>m_rwnd := W\<rparr>) = rwnd_ok c"
  using same_slotsD [OF same_slots_rview, of W c] by (auto simp: rwnd_ok_def)

definition buffered :: "rdp_con \<Rightarrow> u32 set" where
  "buffered c = rw_seqnum ` {w \<in> set (rview c). is_used w}"

lemma same_slots_buffered:
  assumes "same_slots W (m_rwnd c)"
  shows "buffered (c\<lparr>m_rwnd := W\<rparr>) = buffered c"
proof -
  have img: "rw_seqnum ` {w \<in> set L. is_used w} = rw_seqnum ` set (filter is_used (map uneack L))" for L
    by (simp add: filter_map comp_def image_image)
  show ?thesis using same_slots_rview [OF assms] unfolding buffered_def img same_slots_def by simp
qed

lemma eack_loop_spec:
  assumes "rwnd_ok c" "t \<le> m_rwnd_len c" "idx = (m_rwnd_head c + t) mod m_rwnd_len c"
    "i = length (filter is_used (take t (rview c)))" "m_rwnd_len c - t < fuel" "length seqs \<le> MAX_EACK"
  shows "\<exists>seqs' W. eack_loop fuel idx i seqs c = Some (seqs @ seqs', c\<lparr>m_rwnd := W\<rparr>) \<and>
    same_slots W (m_rwnd c) \<and> set seqs' \<subseteq> buffered c \<and> length (seqs @ seqs') \<le> MAX_EACK"
  using assms
proof (induction fuel arbitrary: t idx i seqs c)
  case (Suc f)
  let ?L = "rview c"
  have len: "length (m_rwnd c) = m_rwnd_len c" "m_rwnd_used c = length (filter is_used ?L)" "0 < m_rwnd_len c"
    using Suc.prems(1) by (simp_all add: rwnd_ok_def)
  show ?case
  proof (cases "i < m_rwnd_used c \<and> length seqs < MAX_EACK")
    case False
    then have "eack_loop (Suc f) idx i seqs c = Some (seqs @ [], c\<lparr>m_rwnd := m_rwnd c\<rparr>)" by auto
    moreover have "same_slots (m_rwnd c) (m_rwnd c)" by (simp add: same_slots_def)
    ultimately show ?thesis using Suc.prems(6) by (metis append_Nil2 empty_subsetI empty_set)
  next
    case True
    then have t: "t < m_rwnd_len c" using Suc.prems(2,4) len by (cases "t = m_rwnd_len c") auto
    then have idx: "slot (m_rwnd c) idx = Some (?L ! t)" "idx < length (m_rwnd c)" "m_rwnd c ! idx = ?L ! t"
      using Suc.prems(3) len by (simp_all add: slot_def rview_def nth_rotate)
    have take: "take (Suc t) ?L = take t ?L @ [?L ! t]" using t len by (simp add: take_Suc_conv_app_nth)
    have idx': "ring_inc (m_rwnd_len c) idx = (m_rwnd_head c + Suc t) mod m_rwnd_len c"
      using Suc.prems(3) len by (simp add: ring_inc_mod mod_Suc_eq)
    show ?thesis
    proof (cases "is_used (?L ! t) \<and> \<not> is_eacked (?L ! t)")
      case False
      let ?i = "if is_used (?L ! t) then i + 1 else i"
      have "eack_loop (Suc f) idx i seqs c = eack_loop f (ring_inc (m_rwnd_len c) idx) ?i seqs c"
        using False True idx(1) by simp
      moreover have "?i = length (filter is_used (take (Suc t) ?L))" using take Suc.prems(4) by simp
      ultimately show ?thesis
        using Suc.IH [OF Suc.prems(1) _ idx', of ?i seqs] t Suc.prems(5,6) by simp
    next
      case eack: True
      define W where "W = (m_rwnd c)[idx := (?L ! t)\<lparr>is_eacked := True\<rparr>]"
      define d where "d = c\<lparr>m_rwnd := W\<rparr>"
      let ?s = "rw_seqnum (?L ! t)"
      have W: "same_slots W (m_rwnd c)" using same_slots_eack [OF idx(2)] idx(3) by (simp add: W_def)
      have d: "rwnd_ok d" "buffered d = buffered c" "same_slots (rview d) ?L" "m_rwnd_len d = m_rwnd_len c"
        "m_rwnd_head d = m_rwnd_head c" "m_rwnd d = W" "\<And>V. d\<lparr>m_rwnd := V\<rparr> = c\<lparr>m_rwnd := V\<rparr>"
        using same_slots_ok [OF W] Suc.prems(1) same_slots_buffered [OF W] same_slots_rview [OF W]
        by (simp_all add: d_def)
      have "same_slots (take (Suc t) (rview d)) (take (Suc t) ?L)"
        using d(3) by (simp only: same_slots_def take_map [symmetric])
      then have tk: "i + 1 = length (filter is_used (take (Suc t) (rview d)))"
        using same_slotsD(2) take eack Suc.prems(4) by simp
      have fuel: "m_rwnd_len c - Suc t < f" using t Suc.prems(5) by arith
      obtain seqs' V where IH: "eack_loop f (ring_inc (m_rwnd_len c) idx) (i + 1) (seqs @ [?s]) d =
          Some (seqs @ ?s # seqs', c\<lparr>m_rwnd := V\<rparr>)" "same_slots V W"
          "set seqs' \<subseteq> buffered c" "length (seqs @ ?s # seqs') \<le> MAX_EACK"
        using Suc.IH [OF d(1) _ _ tk, of "ring_inc (m_rwnd_len c) idx" "seqs @ [?s]"] t True fuel idx'
        unfolding d(2,4,5,6,7) by auto
      have "?s \<in> buffered c" using eack t len by (force simp: buffered_def)
      moreover have "eack_loop (Suc f) idx i seqs c = Some (seqs @ ?s # seqs', c\<lparr>m_rwnd := V\<rparr>)"
        using IH(1) True idx(1) eack by (simp add: d_def W_def)
      ultimately show ?thesis
        using IH(3,4) same_slots_trans [OF IH(2) W]
        by (intro exI [of _ "?s # seqs'"] exI [of _ V]) simp
    qed
  qed
qed simp

text \<open>
  \<^verbatim>\<open>delayed_ack\<close> always ends, reports only buffered segments (64 at most) and leaves
  the window as it is but for the \<^verbatim>\<open>is_eacked\<close> marks.
\<close>

lemma delayed_ack_spec:
  assumes "rwnd_inv c"
  shows "\<exists>c' seqs. rcv_rest c' = rcv_rest c \<and> rcv_cur c' = rcv_cur c \<and> rqueue c' = rqueue c \<and>
    m_rwnd_head c' = m_rwnd_head c \<and> same_slots (m_rwnd c') (m_rwnd c) \<and> rwnd_inv c' \<and>
    set seqs \<subseteq> buffered c \<and> length seqs \<le> MAX_EACK \<and>
    (if rcv_cur c = rcv_ack c \<and> seqs = [] then delayed_ack usec c = Some (c', []) \<and> rcv_ack c' = rcv_ack c
     else delayed_ack usec c = Some (c', [ack_seg c seqs]) \<and> rcv_ack c' = rcv_cur c)"
proof -
  have ok: "rwnd_ok c" using assms by (simp add: rwnd_inv_def)
  obtain seqs W where *: "eack_loop (Suc (m_rwnd_len c)) (m_rwnd_head c) 0 [] c = Some (seqs, c\<lparr>m_rwnd := W\<rparr>)"
    "same_slots W (m_rwnd c)" "set seqs \<subseteq> buffered c" "length seqs \<le> MAX_EACK"
    using eack_loop_spec [OF ok, of 0 "m_rwnd_head c" 0 "Suc (m_rwnd_len c)" "[]"] ok
    by (auto simp: rwnd_ok_def)
  have inv: "rwnd_inv (c\<lparr>m_rwnd := W\<rparr>)"
    using assms same_slots_ok [OF *(2)] same_slotsD(3) [OF same_slots_rview [OF *(2)], of 0]
    by (auto simp: rwnd_inv_def rwnd_ok_def)
  have seg: "ack_seg (c\<lparr>m_rwnd := W\<rparr>) seqs = ack_seg c seqs" by (simp add: ack_seg_def)
  let ?c = "if rcv_cur c = rcv_ack c \<and> seqs = [] then c\<lparr>m_rwnd := W\<rparr>
     else c\<lparr>m_rwnd := W, rcv_ack := rcv_cur c, acked_time := usec\<rparr>"
  show ?thesis
    using * inv seg
    by (intro exI [of _ ?c] exI [of _ seqs])
      (simp add: delayed_ack_def rcv_rest_def rwnd_inv_def rwnd_ok_def rview_def)
qed

subsection \<open>Refinement of an abstract reordering buffer\<close>

text \<open>
  Segment \<open>i\<close> of the peer's stream carries the bytes \<open>d i\<close> under the sequence number
  \<open>irs + 1 + i\<close>.  \<open>r\<close> counts the segments the user has read.
  The abstract buffer is a pair: the number \<open>n\<close> of segments delivered so far and the set
  \<open>P\<close> of accepted segment numbers.  A segment inside the window is accepted, and then
  \<open>n\<close> moves to the first segment that is missing.
\<close>

fun reorder :: "nat \<Rightarrow> nat \<Rightarrow> nat \<times> nat set \<Rightarrow> nat \<times> nat set" where
  "reorder len i (n, P) =
     (if n \<le> i \<and> i < n + len
      then let Q = insert i P in (n + length (takeWhile (\<lambda>m. m \<in> Q) [n..<n + len]), Q)
      else (n, P))"

definition payloads :: "(nat \<Rightarrow> u8 list) \<Rightarrow> nat \<Rightarrow> u8 list list" where
  "payloads d n = filter (\<lambda>x. x \<noteq> []) (map d [0..<n])"

fun reorders :: "u32 \<Rightarrow> (nat \<Rightarrow> u8 list) \<Rightarrow> nat \<Rightarrow> nat \<times> nat set \<Rightarrow> rdp_con \<Rightarrow> bool" where
  "reorders irs d r (n, P) c \<longleftrightarrow> rwnd_inv c \<and> rcv_cur c = irs + of_nat n \<and>
     map pbuf_bytes (rqueue c) = drop r (payloads d n) \<and> r \<le> length (payloads d n) \<and>
     (\<forall>k < m_rwnd_len c. is_used (rview c ! k) \<longleftrightarrow> n + k \<in> P) \<and>
     (\<forall>k < m_rwnd_len c. n + k \<in> P \<longrightarrow> map_option pbuf_bytes (rw_pbuf (rview c ! k)) = Some (d (n + k))) \<and>
     {..<n} \<subseteq> P \<and> P \<subseteq> {..<n + m_rwnd_len c}"

lemma takeWhile_upt_used:
  assumes "length L = len" "\<And>k. k < len \<Longrightarrow> is_used (L ! k) \<longleftrightarrow> n + k \<in> Q"
  shows "length (takeWhile is_used L) = length (takeWhile (\<lambda>m. m \<in> Q) [n..<n + len])"
proof -
  have "map is_used L = map (\<lambda>m. m \<in> Q) [n..<n + len]"
    using assms by (intro nth_equalityI) auto
  then have "length (takeWhile id (map is_used L)) = length (takeWhile id (map (\<lambda>m. m \<in> Q) [n..<n + len]))"
    by simp
  then show ?thesis by (simp add: takeWhile_map comp_def)
qed

lemma rview_insert:
  assumes "rwnd_ok c" "k < m_rwnd_len c" "W = (m_rwnd c)[(m_rwnd_head c + k) mod m_rwnd_len c := w]"
  shows "rview (c\<lparr>m_rwnd := W, m_rwnd_used := u\<rparr>) = (rview c)[k := w]"
  using assms rotate_list_update [of k "m_rwnd c" "m_rwnd_head c" w] by (simp add: rview_def rwnd_ok_def)

lemma filter_update_new:
  "k < length L \<Longrightarrow> \<not> f (L ! k) \<Longrightarrow> f w \<Longrightarrow> length (filter f (L[k := w])) = Suc (length (filter f L))"
  by (induction L arbitrary: k) (auto split: nat.splits simp: nth_Cons' split: if_splits)

text \<open>The insertion step of \<^verbatim>\<open>rwnd_recv_data\<close>.\<close>

definition rwnd_put :: "packetbuf \<Rightarrow> u32 \<Rightarrow> nat \<Rightarrow> rdp_con \<Rightarrow> rdp_con" where
  "rwnd_put pb seqnum k c =
     (if is_used (rview c ! k) then c
      else c\<lparr>m_rwnd := (m_rwnd c)[(m_rwnd_head c + k) mod m_rwnd_len c :=
               (rview c ! k)\<lparr>rw_pbuf := Some pb, rw_seqnum := seqnum, is_used := True, is_eacked := False\<rparr>],
             m_rwnd_used := m_rwnd_used c + 1\<rparr>)"

lemma rwnd_put_ok:
  assumes "rwnd_ok c" "k < m_rwnd_len c" "seqnum = rcv_cur c + 1 + of_nat k"
  shows "rwnd_ok (rwnd_put pb seqnum k c) \<and> rcv_rest (rwnd_put pb seqnum k c) = rcv_rest c \<and>
    rcv_cur (rwnd_put pb seqnum k c) = rcv_cur c \<and> rqueue (rwnd_put pb seqnum k c) = rqueue c \<and>
    (\<forall>j < m_rwnd_len c. is_used (rview (rwnd_put pb seqnum k c) ! j) = (j = k \<or> is_used (rview c ! j))) \<and>
    (\<forall>j < m_rwnd_len c. rw_pbuf (rview (rwnd_put pb seqnum k c) ! j) =
       (if j = k \<and> \<not> is_used (rview c ! k) then Some pb else rw_pbuf (rview c ! j)))"
proof (cases "is_used (rview c ! k)")
  case True
  then show ?thesis using assms by (auto simp: rwnd_put_def)
next
  case False
  define w where "w = (rview c ! k)\<lparr>rw_pbuf := Some pb, rw_seqnum := seqnum, is_used := True, is_eacked := False\<rparr>"
  define e where "e = rwnd_put pb seqnum k c"
  have e: "e = c\<lparr>m_rwnd := (m_rwnd c)[(m_rwnd_head c + k) mod m_rwnd_len c := w], m_rwnd_used := m_rwnd_used c + 1\<rparr>"
    using False by (simp add: e_def rwnd_put_def w_def)
  have view: "rview e = (rview c)[k := w]" unfolding e by (rule rview_insert [OF assms(1,2) refl])
  have len: "length (rview c) = m_rwnd_len c" using assms(1) by (simp add: rwnd_ok_def)
  have used: "length (filter is_used (rview e)) = Suc (length (filter is_used (rview c)))"
    unfolding view using assms(2) False len by (intro filter_update_new) (simp_all add: w_def)
  have w: "is_used w" "rw_seqnum w = rcv_cur c + 1 + of_nat k" "rw_pbuf w = Some pb"
    by (simp_all add: w_def assms(3))
  have "rwnd_ok e"
    using assms(1,2) len used unfolding rwnd_ok_def view
    by (auto simp: e w nth_list_update)
  then show ?thesis
    using False len w assms(2) unfolding e_def [symmetric] view
    by (auto simp: nth_list_update e rcv_rest_def)
qed

lemma rwnd_recv_data_unfold:
  assumes "rwnd_ok c" "k < m_rwnd_len c" "seqnum - rcv_cur c = 1 + of_nat k"
  shows "rwnd_recv_data usec pb seqnum c = do {
     c \<leftarrow> rwnd_remove_loop (Suc (m_rwnd_len c)) (rwnd_put pb seqnum k c);
     if rcv_cur c - rcv_ack c > rcv_max c div 4 \<or> m_len pb = 0 then delayed_ack usec c else Some (c, []) }"
proof -
  have len: "length (m_rwnd c) = m_rwnd_len c" "m_rwnd_len c < 2 ^ 31" "m_rwnd_head c < m_rwnd_len c"
    using assms(1) by (simp_all add: rwnd_ok_def)
  have un: "unat (seqnum - rcv_cur c) = Suc k"
    unfolding assms(3) using assms(2) len(2) unat_of_nat_u32 [of "Suc k"] by simp
  then have acc: "0 < seqnum - rcv_cur c" "seqnum - rcv_cur c \<le> of_nat (m_rwnd_len c)"
    using assms(2) len(2) by (simp_all add: word_less_nat_alt word_le_nat_alt)
  have i: "m_rwnd_head c + unat (seqnum - rcv_cur c) - 1 = m_rwnd_head c + k" using un by simp
  have wrap: "(if m_rwnd_len c \<le> m_rwnd_head c + k then (m_rwnd_head c + k) mod m_rwnd_len c
      else m_rwnd_head c + k) = (m_rwnd_head c + k) mod m_rwnd_len c"
    by simp
  have "slot (m_rwnd c) ((m_rwnd_head c + k) mod m_rwnd_len c) = Some (rview c ! k)"
    using len assms(2) by (simp add: slot_def rview_def nth_rotate)
  then show ?thesis
    using acc unfolding rwnd_recv_data_def Let_def i wrap
    by (simp add: rwnd_put_def del: rwnd_remove_loop.simps)
qed

lemma takeWhile_upt_mem:
  assumes "m = length (takeWhile (\<lambda>m. m \<in> Q) [n..<n + len])"
  shows "m \<le> len" "\<And>j. j < m \<Longrightarrow> n + j \<in> Q" "m < len \<Longrightarrow> n + m \<notin> Q"
proof -
  let ?xs = "[n..<n + len]"
  show m: "m \<le> len" using assms length_takeWhile_le [of "\<lambda>m. m \<in> Q" ?xs] by simp
  show "n + j \<in> Q" if "j < m" for j
    using nth_mem [of j "takeWhile (\<lambda>m. m \<in> Q) ?xs"] that assms m set_takeWhileD
    by (fastforce simp: takeWhile_nth)
  show "n + m \<notin> Q" if "m < len"
    using nth_length_takeWhile [of "\<lambda>m. m \<in> Q" ?xs] that assms by simp
qed

lemma delayed_ack_reorders:
  assumes "reorders irs d r S c"
  shows "\<exists>c' out. delayed_ack usec c = Some (c', out) \<and> reorders irs d r S c' \<and> rcv_rest c' = rcv_rest c"
proof -
  obtain n P where S: "S = (n, P)" by (cases S)
  have inv: "rwnd_inv c" using assms S by simp
  obtain c' out where c': "delayed_ack usec c = Some (c', out)" "rwnd_inv c'" "rcv_cur c' = rcv_cur c"
    "rqueue c' = rqueue c" "rcv_rest c' = rcv_rest c" "same_slots (rview c') (rview c)"
    using delayed_ack_spec [OF inv, of usec] by (auto simp: rview_def same_slots_rotate split: if_splits)
  have "m_rwnd_len c' = m_rwnd_len c" "length (rview c) = m_rwnd_len c"
    using rcv_restD(8) [OF c'(5)] inv by (simp_all add: rwnd_inv_def rwnd_ok_def)
  then show ?thesis
    using assms c' same_slotsD(3) [OF c'(6)] unfolding S by simp
qed

text \<open>One arriving segment: the code's window follows the abstract buffer.\<close>

lemma rwnd_recv_data_refines:
  assumes R: "reorders irs d r (n, P) c" and i: "i < 2 ^ 31" "n \<le> 2 ^ 31" and pb: "pbuf_bytes pb = d i"
  shows "\<exists>c' out. rwnd_recv_data usec pb (irs + 1 + of_nat i) c = Some (c', out) \<and>
    reorders irs d r (reorder (m_rwnd_len c) i (n, P)) c' \<and> rcv_rest c' = rcv_rest c"
proof -
  let ?len = "m_rwnd_len c" and ?seq = "irs + 1 + of_nat i"
  have inv: "rwnd_inv c" "rcv_cur c = irs + of_nat n" using R by simp_all
  then have ok: "rwnd_ok c" "?len < 2 ^ 31" "length (rview c) = ?len" by (simp_all add: rwnd_inv_def rwnd_ok_def)
  have diff: "?seq - rcv_cur c = of_nat i + 1 - of_nat n" by (simp add: inv(2))
  show ?thesis
  proof (cases "n \<le> i \<and> i < n + ?len")
    case False
    then have "rwnd_recv_data usec pb ?seq c = Some (c, [])"
      using seq_window(1) [OF i ok(2)] unfolding rwnd_recv_data_def diff Let_def by auto
    then show ?thesis using R False by auto
  next
    case True
    define k where "k = i - n"
    have k: "i = n + k" "k < ?len" using True by (auto simp: k_def)
    define e where "e = rwnd_put pb ?seq k c"
    have seq: "?seq = rcv_cur c + 1 + of_nat k" "?seq - rcv_cur c = 1 + of_nat k" by (simp_all add: inv(2) k)
    note put = rwnd_put_ok [OF ok(1) k(2) seq(1), of pb, folded e_def]
    have e: "rwnd_ok e" "rcv_rest e = rcv_rest c" "rcv_cur e = rcv_cur c" "rqueue e = rqueue c"
      "\<And>j. j < ?len \<Longrightarrow> is_used (rview e ! j) = (n + j \<in> insert i P)"
      "\<And>j. j < ?len \<Longrightarrow> n + j \<in> insert i P \<Longrightarrow> map_option pbuf_bytes (rw_pbuf (rview e ! j)) = Some (d (n + j))"
      using put R k pb by (auto split: if_splits)
    have len_e: "m_rwnd_len e = ?len" "length (rview e) = ?len"
      using rcv_restD(8) [OF e(2)] e(1) by (simp_all add: rwnd_ok_def)
    define m where "m = length (takeWhile (\<lambda>m. m \<in> insert i P) [n..<n + ?len])"
    note m = takeWhile_upt_mem [OF m_def]
    have tw: "length (takeWhile is_used (rview e)) = m"
      unfolding m_def by (rule takeWhile_upt_used [OF len_e(2) e(5)])
    obtain f where f: "rwnd_remove_loop (Suc ?len) e = Some f" "rcv_rest f = rcv_rest e"
      "rcv_cur f = rcv_cur e + of_nat m" "rwnd_inv f"
      "rqueue f = rqueue e @ filter nonempty (map (the \<circ> rw_pbuf) (take m (rview e)))"
      "rview f = drop m (rview e) @ map rw_clear (take m (rview e))"
      using rwnd_remove_loop_spec [OF e(1) tw, of "Suc ?len"] m(1) by auto
    have "map (pbuf_bytes \<circ> (the \<circ> rw_pbuf)) (take m (rview e)) = map d [n..<n + m]"
    proof (rule nth_equalityI)
      fix j assume "j < length (map (pbuf_bytes \<circ> (the \<circ> rw_pbuf)) (take m (rview e)))"
      then have j: "j < m" by simp
      then have "map_option pbuf_bytes (rw_pbuf (rview e ! j)) = Some (d (n + j))"
        using e(6) [of j] m(1,2) by simp
      then show "map (pbuf_bytes \<circ> (the \<circ> rw_pbuf)) (take m (rview e)) ! j = map d [n..<n + m] ! j"
        using j m(1) len_e by auto
    qed (use m(1) len_e in simp)
    then have "map pbuf_bytes (rqueue f) = map pbuf_bytes (rqueue e) @ filter (\<lambda>x. x \<noteq> []) (map d [n..<n + m])"
      unfolding f(5) by (simp only: map_append bytes_nonempty map_map)
    then have q: "map pbuf_bytes (rqueue f) = drop r (payloads d (n + m))"
      using R e(4) upt_add_eq_append [of 0 n m] by (simp add: payloads_def)
    have len_f: "m_rwnd_len f = ?len" using rcv_restD(8) [OF f(2)] len_e by simp
    have slots: "is_used (rview f ! j) = (n + m + j \<in> insert i P) \<and>
        (n + m + j \<in> insert i P \<longrightarrow> map_option pbuf_bytes (rw_pbuf (rview f ! j)) = Some (d (n + m + j)))" if "j < ?len" for j
    proof (cases "j < ?len - m")
      case True
      then show ?thesis using e(5,6) [of "m + j"] len_e f(6) by (simp add: nth_append add.assoc)
    next
      case False
      have "n + m + j \<notin> insert i P" using R k that False m(1) by auto
      moreover have "\<not> is_used (rview f ! j)" using False that len_e m(1) f(6) by (simp add: nth_append)
      ultimately show ?thesis by simp
    qed
    have "{..<n + m} \<subseteq> insert i P"
    proof
      fix x assume "x \<in> {..<n + m}"
      then show "x \<in> insert i P" using R m(2) [of "x - n"] by (cases "x < n") auto
    qed
    moreover have "r \<le> length (payloads d (n + m))"
      using R upt_add_eq_append [of 0 n m] by (simp add: payloads_def)
    moreover have "insert i P \<subseteq> {..<n + m + ?len}" using R k by auto
    ultimately have "reorders irs d r (n + m, insert i P) f"
      using f(3,4) e(3) q slots len_f inv(2) by (simp add: add.assoc)
    moreover have "reorder ?len i (n, P) = (n + m, insert i P)" using True by (simp add: m_def Let_def)
    ultimately have "reorders irs d r (reorder ?len i (n, P)) f" by (simp only:)
    then obtain c' out where "(if rcv_cur f - rcv_ack f > rcv_max f div 4 \<or> m_len pb = 0
        then delayed_ack usec f else Some (f, [])) = Some (c', out)"
      "reorders irs d r (reorder ?len i (n, P)) c'" "rcv_rest c' = rcv_rest c"
      using delayed_ack_reorders [of irs d r "reorder ?len i (n, P)" f usec] e(2) f(2)
      by (metis (no_types, lifting))
    then show ?thesis
      using f(1) unfolding rwnd_recv_data_unfold [OF ok(1) k(2) seq(2)] e_def [symmetric] by simp
  qed
qed

subsection \<open>Delivery over any sequence of arrivals\<close>

lemma reorder_hole:
  assumes "n \<notin> P" "P \<subseteq> {..<n + len}" "reorder len i (n, P) = (n', P')"
  shows "n' \<notin> P' \<and> P' \<subseteq> {..<n' + len} \<and> P' \<subseteq> insert i P \<and> (i < len \<longrightarrow> {..<n} \<subseteq> P \<longrightarrow> P' = insert i P)"
proof (cases "n \<le> i \<and> i < n + len")
  case True
  define m where "m = length (takeWhile (\<lambda>m. m \<in> insert i P) [n..<n + len])"
  have eq: "n' = n + m" "P' = insert i P" using assms(3) True by (auto simp: m_def Let_def)
  note m = takeWhile_upt_mem [OF m_def]
  have "n + m \<notin> insert i P"
    using m(1,3) assms(2) True by (cases "m < len") auto
  then show ?thesis using eq assms(2) True by auto
next
  case False
  then have eq: "n' = n" "P' = P" using assms(3) by (auto split: if_splits)
  have "i \<in> P" if "i < len" "{..<n} \<subseteq> P" using False that by auto
  then have "i < len \<longrightarrow> {..<n} \<subseteq> P \<longrightarrow> P' = insert i P" unfolding eq by blast
  then show ?thesis using assms(1,2) unfolding eq by blast
qed

text \<open>
  The contract between a receive window and its users: every valid arrival is handled, and
  the window follows the reordering buffer.  From it alone follows in-order delivery
  without gaps or repetition.
\<close>

locale reordering_window =
  fixes step :: "'a \<Rightarrow> 's \<Rightarrow> 's option" and num :: "'a \<Rightarrow> nat" and valid :: "'a \<Rightarrow> bool"
    and rel :: "nat \<times> nat set \<Rightarrow> 's \<Rightarrow> bool" and len :: nat
  assumes step_refines: "rel (n, P) s \<Longrightarrow> valid a \<Longrightarrow> num a < 2 ^ 31 \<Longrightarrow> n \<le> 2 ^ 31 \<Longrightarrow>
      \<exists>s'. step a s = Some s' \<and> rel (reorder len (num a) (n, P)) s'"
    and rel_prefix: "rel (n, P) s \<Longrightarrow> {..<n} \<subseteq> P"
begin

lemma prefix_bound: "{..<n} \<subseteq> P \<Longrightarrow> P \<subseteq> {..<2 ^ 31} \<Longrightarrow> (n :: nat) \<le> 2 ^ 31"
  by (meson lessThan_subset_iff order_trans)

lemma run_refines:
  assumes "rel (n, P) s" "n \<notin> P" "P \<subseteq> {..<n + len}" "P \<subseteq> {..<2 ^ 31}"
    "num ` set as \<subseteq> {..<2 ^ 31}" "\<forall>a \<in> set as. valid a"
  shows "\<exists>s' n' P'. run_steps step as s = Some s' \<and> rel (n', P') s' \<and> n' \<notin> P' \<and> P' \<subseteq> P \<union> num ` set as \<and>
    (num ` set as \<subseteq> {..<len} \<longrightarrow> P' = P \<union> num ` set as)"
  using assms
proof (induction as arbitrary: s n P)
  case (Cons a as)
  have n: "n \<le> 2 ^ 31" using prefix_bound [OF rel_prefix [OF Cons.prems(1)] Cons.prems(4)] .
  obtain m Q where r: "reorder len (num a) (n, P) = (m, Q)" by fastforce
  obtain t where t: "step a s = Some t" "rel (m, Q) t"
    using step_refines [OF Cons.prems(1) _ _ n, of a] Cons.prems(5,6) r by auto
  note h = reorder_hole [OF Cons.prems(2,3) r]
  have Q: "Q \<subseteq> {..<2 ^ 31}" using h Cons.prems(4,5) by auto
  have rest: "num ` set as \<subseteq> {..<2 ^ 31}" "\<forall>a \<in> set as. valid a" using Cons.prems(5,6) by auto
  obtain s' n' P' where *: "run_steps step as t = Some s'" "rel (n', P') s'" "n' \<notin> P'" "P' \<subseteq> Q \<union> num ` set as"
    "num ` set as \<subseteq> {..<len} \<longrightarrow> P' = Q \<union> num ` set as"
    using Cons.IH [OF t(2) conjunct1 [OF h] conjunct1 [OF conjunct2 [OF h]] Q rest] by metis
  have "P' \<subseteq> P \<union> num ` set (a # as)" using *(4) h by auto
  moreover have "num ` set (a # as) \<subseteq> {..<len} \<longrightarrow> P' = P \<union> num ` set (a # as)"
    using *(5) h rel_prefix [OF Cons.prems(1)] by auto
  moreover have "run_steps step (a # as) s = Some s'" using t(1) *(1) by simp
  ultimately show ?case using *(2,3) by blast
qed auto

lemma delivery:
  assumes "rel (0, {}) s" "num ` set as \<subseteq> {..<2 ^ 31}" "\<forall>a \<in> set as. valid a"
  shows "\<exists>s' n P. run_steps step as s = Some s' \<and> rel (n, P) s' \<and> {..<n} \<subseteq> num ` set as \<and>
    (num ` set as \<subseteq> {..<len} \<longrightarrow> n \<notin> num ` set as)"
proof -
  obtain s' n P where *: "run_steps step as s = Some s'" "rel (n, P) s'" "n \<notin> P" "P \<subseteq> num ` set as"
    "num ` set as \<subseteq> {..<len} \<longrightarrow> P = num ` set as"
    using run_refines [OF assms(1) _ _ _ assms(2,3)] by (metis Un_empty_left empty_iff empty_subsetI)
  moreover have "{..<n} \<subseteq> num ` set as" using rel_prefix [OF *(2)] *(4) by (rule order_trans)
  ultimately show ?thesis by blast
qed

end

text \<open>An arrival is a segment number and the buffer behind the header.\<close>

definition recv_segment :: "int \<Rightarrow> u32 \<Rightarrow> nat \<times> packetbuf \<Rightarrow> rdp_con \<Rightarrow> rdp_con option" where
  "recv_segment usec irs a c = map_option fst (rwnd_recv_data usec (snd a) (irs + 1 + of_nat (fst a)) c)"

interpretation rwnd_window: reordering_window "recv_segment usec irs" fst "\<lambda>a. pbuf_bytes (snd a) = d (fst a)"
  "\<lambda>S c. reorders irs d r S c \<and> m_rwnd_len c = len" len
  for usec irs d r len
proof
  fix n P c and a :: "nat \<times> packetbuf"
  assume "reorders irs d r (n, P) c \<and> m_rwnd_len c = len" "pbuf_bytes (snd a) = d (fst a)"
    "fst a < 2 ^ 31" "n \<le> (2 ^ 31 :: nat)"
  then show "\<exists>c'. recv_segment usec irs a c = Some c' \<and> reorders irs d r (reorder len (fst a) (n, P)) c' \<and> m_rwnd_len c' = len"
    using rwnd_recv_data_refines [of irs d r n P c "fst a" "snd a" usec]
    by (auto simp: recv_segment_def dest: rcv_restD(8) simp del: reorders.simps reorder.simps)
qed simp

lemma fresh_window:
  assumes "rcv_max c = rcv_max_default" "rqueue c = []"
  shows "reorders (rcv_cur c) d 0 (0, {}) (init_rwnd c)" "m_rwnd_len (init_rwnd c) = 2048"
proof -
  have len: "m_rwnd_len (init_rwnd c) = 2048" using assms by (simp add: init_rwnd_def rcv_max_default_def)
  have view: "rview (init_rwnd c) = replicate 2048 rwnd_new"
    using assms by (simp add: rview_def init_rwnd_def rcv_max_default_def)
  have "\<not> is_used rwnd_new" by (simp add: rwnd_new_def)
  then show "reorders (rcv_cur c) d 0 (0, {}) (init_rwnd c)"
    unfolding reorders.simps rwnd_inv_def rwnd_ok_def view len
    using assms by (simp add: init_rwnd_def rcv_max_default_def payloads_def)
  show "m_rwnd_len (init_rwnd c) = 2048" by (rule len)
qed

lemma fresh_window_delivery:
  assumes "rcv_max c = rcv_max_default" "rqueue c = []" "fst ` set as \<subseteq> {..<2 ^ 31}"
    "\<forall>a \<in> set as. pbuf_bytes (snd a) = d (fst a)"
  shows "\<exists>c' n. run_steps (recv_segment usec (rcv_cur c)) as (init_rwnd c) = Some c' \<and>
    map pbuf_bytes (rqueue c') = payloads d n \<and> rcv_cur c' = rcv_cur c + of_nat n \<and>
    {..<n} \<subseteq> fst ` set as \<and> (fst ` set as \<subseteq> {..<2048} \<longrightarrow> n \<notin> fst ` set as)"
proof -
  obtain c' n P where "run_steps (recv_segment usec (rcv_cur c)) as (init_rwnd c) = Some c'"
    "reorders (rcv_cur c) d 0 (n, P) c'" "{..<n} \<subseteq> fst ` set as" "fst ` set as \<subseteq> {..<2048} \<longrightarrow> n \<notin> fst ` set as"
    using rwnd_window.delivery [of "rcv_cur c" d 0 "init_rwnd c" 2048 as usec] fresh_window [OF assms(1,2)] assms(3,4)
    by blast
  then show ?thesis by (intro exI [of _ c'] exI [of _ n]) simp
qed

text \<open>
  Property C13.  Whatever order the segments of a peer's stream arrive in, lost, repeated or
  reordered, a freshly opened receive window handles every arrival without a fault, and
  its read queue then holds exactly the non-empty payloads of the segments \<open>0, \<dots>, n - 1\<close>
  in stream order, each once, with \<open>rcv_cur\<close> at the last of them; all of them did arrive,
  and if no arrival ran ahead of the window then \<open>n\<close> is the first segment that did not.
\<close>

theorem rwnd_delivers_in_order:
  assumes "rcv_max c = rcv_max_default" "rqueue c = []" "fst ` set as \<subseteq> {..<2 ^ 31}"
    "\<forall>a \<in> set as. pbuf_bytes (snd a) = d (fst a)"
  shows "\<exists>c' n. run_steps (recv_segment usec (rcv_cur c)) as (init_rwnd c) = Some c' \<and>
    map pbuf_bytes (rqueue c') = payloads d n \<and> rcv_cur c' = rcv_cur c + of_nat n \<and>
    {..<n} \<subseteq> fst ` set as \<and> (fst ` set as \<subseteq> {..<2048} \<longrightarrow> n \<notin> fst ` set as)"
  using assms by (rule fresh_window_delivery)

theorem rwnd_delivers_in_order_witness:
  "\<exists>c'. run_steps (recv_segment 0 7) (map (\<lambda>i. (i, pbuf_construct\<lparr>m_len := int i\<rparr>)) [2, 0, 2, 1])
      (init_rwnd (rdp_con_new\<lparr>rcv_max := rcv_max_default, rcv_cur := 7\<rparr>)) = Some c' \<and>
    map pbuf_bytes (rqueue c') = payloads (\<lambda>i. pbuf_bytes (pbuf_construct\<lparr>m_len := int i\<rparr>)) 3"
proof -
  let ?c = "rdp_con_new\<lparr>rcv_max := rcv_max_default, rcv_cur := 7\<rparr>"
  let ?d = "\<lambda>i. pbuf_bytes (pbuf_construct\<lparr>m_len := int i\<rparr>)"
  let ?as = "map (\<lambda>i. (i, pbuf_construct\<lparr>m_len := int i\<rparr>)) [2, 0, 2, 1]"
  obtain c' n where *: "run_steps (recv_segment 0 7) ?as (init_rwnd ?c) = Some c'"
    "map pbuf_bytes (rqueue c') = payloads ?d n" "{..<n} \<subseteq> {2, 0, 2, 1}" "n \<notin> {2, 0, 2, 1}"
    using rwnd_delivers_in_order [of ?c ?as ?d 0] by (auto simp: rdp_con_new_def)
  have "3 \<notin> {..<n}" using *(3) by auto
  then have "n \<le> 3" by simp
  then have "n = 3" using *(4) by (auto simp: le_Suc_eq numeral_eq_Suc)
  then show ?thesis using * by blast
qed

end
