(* ===== verification/Rdp_Swnd.thy ===== *)
theory Rdp_Swnd
  imports Rdp_Con
begin

section \<open>The send window: what is transmitted, flow control, acknowledgements\<close>

text \<open>
  The ring buffer \<^verbatim>\<open>m_swnd\<close> read from its head is the list \<open>sview\<close>.  The relation
  \<open>sender iss ps b n c\<close> describes a connection whose user has enqueued the payloads
  \<open>ps\<close>, of which the first \<open>b\<close> are acknowledged and the next \<open>n\<close> transmitted:
  payload \<open>j\<close> travels under the sequence number \<open>iss + 1 + j\<close>.
\<close>

definition sview :: "rdp_con \<Rightarrow> swnd list" where
  "sview c = rotate (m_swnd_head c) (m_swnd c)"

definition carries :: "u32 \<Rightarrow> u8 list list \<Rightarrow> nat \<Rightarrow> packetbuf \<Rightarrow> bool" where
  "carries iss ps j pb \<longleftrightarrow> h_seqnum (read_head pb) = iss + 1 + of_nat j \<and>
     h_flags (read_head pb) = flag_ack OR flag_ver \<and> h_hlen (read_head pb) = 10 \<and>
     h_dlen (read_head pb) = of_nat (length (ps ! j)) \<and>
     m_len pb = 20 + int (length (ps ! j)) \<and>
     pbuf_read pb (m_head pb + 20) (length (ps ! j)) = ps ! j"

definition sent_slot :: "u32 \<Rightarrow> u8 list list \<Rightarrow> nat \<Rightarrow> swnd \<Rightarrow> bool" where
  "sent_slot iss ps j w \<longleftrightarrow> is_sent w \<and> sw_seqnum w = iss + 1 + of_nat j \<and>
     (\<not> is_acked w \<longrightarrow> (\<exists>pb. sw_pbuf w = Some pb \<and> carries iss ps j pb))"

definition queued_slot :: "u8 list list \<Rightarrow> nat \<Rightarrow> swnd \<Rightarrow> bool" where
  "queued_slot ps j w \<longleftrightarrow> \<not> is_sent w \<and> \<not> is_acked w \<and>
     (\<exists>pb. sw_pbuf w = Some pb \<and> 20 \<le> m_head pb \<and> 0 \<le> m_len pb \<and> pbuf_bytes pb = ps ! j)"

definition sender_ok :: "u32 \<Rightarrow> u8 list list \<Rightarrow> nat \<Rightarrow> nat \<Rightarrow> rdp_con \<Rightarrow> bool" where
  "sender_ok iss ps b n c \<longleftrightarrow>
     length (m_swnd c) = m_swnd_len c \<and> m_swnd_len c = 4 * unat (snd_max c) \<and> snd_max c \<le> 0xffff \<and>
     m_swnd_head c < m_swnd_len c \<and> m_swnd_used c \<le> m_swnd_len c \<and>
     n \<le> m_swnd_used c \<and> n < unat (snd_max c) \<and> length ps = b + m_swnd_used c \<and>
     snd_una c = iss + of_nat b \<and> snd_nxt c = iss + 1 + of_nat (b + n) \<and>
     (\<forall>k < n. sent_slot iss ps (b + k) (sview c ! k)) \<and>
     (\<forall>k. n \<le> k \<longrightarrow> k < m_swnd_used c \<longrightarrow> queued_slot ps (b + k) (sview c ! k))"

text \<open>Between operations everything the window allows has been transmitted.\<close>

definition sender :: "u32 \<Rightarrow> u8 list list \<Rightarrow> nat \<Rightarrow> nat \<Rightarrow> rdp_con \<Rightarrow> bool" where
  "sender iss ps b n c \<longleftrightarrow> sender_ok iss ps b n c \<and>
     m_swnd_ostand c = (m_swnd_head c + n) mod m_swnd_len c \<and>
     (n = m_swnd_used c \<or> Suc n = unat (snd_max c)) \<and> (0 < n \<longrightarrow> \<not> is_acked (sview c ! 0))"

definition snd_rest :: "rdp_con \<Rightarrow> rdp_con" where
  "snd_rest c = c\<lparr>snd_nxt := 0, snd_una := 0, m_swnd := [], m_swnd_head := 0, m_swnd_used := 0, m_swnd_ostand := 0\<rparr>"

lemma snd_restD [rdp_frame]:
  assumes "snd_rest c' = snd_rest c"
  shows "addr c' = addr c" "desc c' = desc c" "is_pasv c' = is_pasv c" "is_closed c' = is_closed c"
    "state c' = state c" "rcv_cur c' = rcv_cur c" "rcv_irs c' = rcv_irs c" "rcv_max c' = rcv_max c"
    "snd_max c' = snd_max c" "snd_iss c' = snd_iss c" "rqueue c' = rqueue c" "m_swnd_len c' = m_swnd_len c"
    "m_rwnd c' = m_rwnd c" "m_rwnd_len c' = m_rwnd_len c" "m_rwnd_head c' = m_rwnd_head c"
    "m_rwnd_used c' = m_rwnd_used c"
  using assms by (cases c; cases c'; simp add: snd_rest_def)+

lemma length_sview [simp]: "length (sview c) = length (m_swnd c)"
  by (simp add: sview_def)

lemma sview_slot:
  "length (m_swnd c) = m_swnd_len c \<Longrightarrow> k < m_swnd_len c \<Longrightarrow>
   slot (m_swnd c) ((m_swnd_head c + k) mod m_swnd_len c) = Some (sview c ! k)"
  by (simp add: slot_def sview_def nth_rotate)

lemma sview_update:
  assumes "length (m_swnd c) = m_swnd_len c" "k < m_swnd_len c"
    "m_swnd c' = (m_swnd c)[(m_swnd_head c + k) mod m_swnd_len c := w]" "m_swnd_head c' = m_swnd_head c"
  shows "sview c' = (sview c)[k := w]"
  using assms rotate_list_update [of k "m_swnd c" "m_swnd_head c" w] by (simp add: sview_def)

subsection \<open>A transmitted segment\<close>

definition data_seg :: "rdp_con \<Rightarrow> packetbuf \<Rightarrow> packetbuf" where
  "data_seg c pb = pbuf_write (m_head pb - 20) (head_bytes (data_head c (of_int (m_len pb))))
     (pb\<lparr>m_len := m_len pb + 20, m_head := m_head pb - 20\<rparr>)"

lemma read_head_data_seg [simp]: "read_head (data_seg c pb) = data_head c (of_int (m_len pb))"
  using head_of_head_bytes [of _ "[]"] by (simp add: data_seg_def read_head_def pbuf_read_write_same)

lemma data_seg_carries:
  assumes "snd_nxt c = iss + 1 + of_nat j" "0 \<le> m_len pb" "pbuf_bytes pb = ps ! j"
  shows "carries iss ps j (data_seg c pb)"
proof -
  have len: "length (ps ! j) = nat (m_len pb)" using assms(3) by (metis length_pbuf_bytes)
  have "pbuf_read (data_seg c pb) (m_head pb) (nat (m_len pb)) = ps ! j"
    using assms(3) by (simp add: data_seg_def pbuf_read_write_other pbuf_bytes_def)
      (simp add: pbuf_read_def)
  moreover have "m_head (data_seg c pb) = m_head pb - 20" "m_len (data_seg c pb) = m_len pb + 20"
    by (simp_all add: data_seg_def)
  ultimately show ?thesis
    using assms(1,2) len by (simp add: carries_def data_head_def zero_head_def)
qed

subsection \<open>Transmitting what the window allows\<close>

lemma seq_less_max: "m < 2 ^ 32 \<Longrightarrow> (of_nat m :: u32) < x \<longleftrightarrow> m < unat x"
  by (simp add: word_less_nat_alt)

lemma send_step:
  assumes ok: "sender_ok iss ps b n c" and n: "n < m_swnd_used c" "Suc n < unat (snd_max c)"
  shows "\<exists>w. queued_slot ps (b + n) w \<and> sview c ! n = w \<and>
    (let pb = data_seg c (the (sw_pbuf w));
         w' = w\<lparr>sent_time := now, is_sent := True, sw_seqnum := snd_nxt c, sw_pbuf := Some pb\<rparr>;
         c' = c\<lparr>m_swnd := (m_swnd c)[(m_swnd_head c + n) mod m_swnd_len c := w'], snd_nxt := snd_nxt c + 1\<rparr>
     in carries iss ps (b + n) pb \<and> sender_ok iss ps b (Suc n) c' \<and> snd_rest c' = snd_rest c \<and>
        sview c' = (sview c)[n := w'] \<and>
        send_ostand_loop (Suc fuel) now ((m_swnd_head c + n) mod m_swnd_len c) e c out =
          (if (m_swnd_head c + n) mod m_swnd_len c = e then Some (e, c, out)
           else send_ostand_loop fuel now ((m_swnd_head c + Suc n) mod m_swnd_len c) e c' (out @ [pb])))"
proof -
  let ?w = "sview c ! n" and ?i = "(m_swnd_head c + n) mod m_swnd_len c"
  have sz: "length (m_swnd c) = m_swnd_len c" "m_swnd_len c = 4 * unat (snd_max c)" "m_swnd_used c \<le> m_swnd_len c"
    "snd_una c = iss + of_nat b" "snd_nxt c = iss + 1 + of_nat (b + n)"
    using ok by (simp_all add: sender_ok_def)
  then have nl: "n < m_swnd_len c" using n by simp
  have q: "queued_slot ps (b + n) ?w" using ok n by (simp add: sender_ok_def)
  then obtain pb where pb: "sw_pbuf ?w = Some pb" "20 \<le> m_head pb" "0 \<le> m_len pb" "pbuf_bytes pb = ps ! (b + n)"
    by (auto simp: queued_slot_def)
  have car: "carries iss ps (b + n) (data_seg c pb)" using data_seg_carries sz(5) pb(3,4) by blast
  define w where "w = ?w\<lparr>sent_time := now, is_sent := True, sw_seqnum := snd_nxt c, sw_pbuf := Some (data_seg c pb)\<rparr>"
  define d where "d = c\<lparr>m_swnd := (m_swnd c)[?i := w], snd_nxt := snd_nxt c + 1\<rparr>"
  have view: "sview d = (sview c)[n := w]" by (rule sview_update [OF sz(1) nl]) (simp_all add: d_def)
  have w: "sent_slot iss ps (b + n) w" using car sz(5) by (simp add: sent_slot_def w_def)
  have slots: "(\<forall>k < Suc n. sent_slot iss ps (b + k) (sview d ! k)) \<and>
     (\<forall>k. Suc n \<le> k \<longrightarrow> k < m_swnd_used d \<longrightarrow> queued_slot ps (b + k) (sview d ! k))"
    using ok w nl sz(1) unfolding view sender_ok_def by (auto simp: nth_list_update less_Suc_eq d_def)
  have ok': "sender_ok iss ps b (Suc n) d"
    using ok n slots by (simp add: sender_ok_def d_def)
  have m32: "Suc n < 2 ^ 32" using n(2) unat_u32_less [of "snd_max c"] by linarith
  have "snd_nxt c - snd_una c = of_nat (Suc n)" using sz(4,5) by simp
  then have lt: "snd_nxt c - snd_una c < snd_max c" using n(2) seq_less_max [OF m32, of "snd_max c"] by (simp only:)
  have inc: "ring_inc (m_swnd_len c) ?i = (m_swnd_head c + Suc n) mod m_swnd_len c"
    using nl by (simp add: ring_inc_mod mod_Suc_eq)
  have loop: "send_ostand_loop (Suc fuel) now ?i e c out =
      (if ?i = e then Some (e, c, out)
       else send_ostand_loop fuel now ((m_swnd_head c + Suc n) mod m_swnd_len c) e d (out @ [data_seg c pb]))"
    using lt sview_slot [OF sz(1) nl] pb(1,2) inc
    by (simp add: Let_def prepend_def data_seg_def [symmetric] d_def w_def)
  have "snd_rest d = snd_rest c" by (simp add: d_def snd_rest_def)
  then show ?thesis
    using q pb(1) car ok' view loop unfolding Let_def d_def w_def
    by (intro exI [of _ ?w]) simp
qed

lemma ring_distinct:
  assumes "n < u" "u \<le> (len::nat)" "n = 0 \<longrightarrow> u \<noteq> len"
  shows "(h + n) mod len \<noteq> (h + u) mod len"
proof
  assume eq: "(h + n) mod len = (h + u) mod len"
  show False
  proof (cases "u = len")
    case True
    then have "(h + n) mod len = (h + 0) mod len" using eq by simp
    then show False using ring_inj [of h n len 0] assms True by auto
  next
    case False
    then show False using ring_inj [OF eq] assms by simp
  qed
qed

definition snd_window :: "rdp_con \<Rightarrow> nat" where
  "snd_window c = min (m_swnd_used c) (unat (snd_max c) - 1)"

lemma send_ostand_loop_spec:
  assumes "sender_ok iss ps b n c" "n \<le> snd_window c" "snd_window c - n < fuel"
    "n = 0 \<Longrightarrow> m_swnd_used c = m_swnd_len c \<Longrightarrow> snd_max c = 1"
  shows "\<exists>c' out'. send_ostand_loop fuel now ((m_swnd_head c + n) mod m_swnd_len c)
      ((m_swnd_head c + m_swnd_used c) mod m_swnd_len c) c out =
      Some ((m_swnd_head c + snd_window c) mod m_swnd_len c, c', out @ out') \<and>
    sender_ok iss ps b (snd_window c) c' \<and> snd_rest c' = snd_rest c \<and> m_swnd_head c' = m_swnd_head c \<and>
    m_swnd_used c' = m_swnd_used c \<and> is_acked (sview c' ! 0) = is_acked (sview c ! 0) \<and>
    list_all2 (carries iss ps) [b + n..<b + snd_window c] out'"
  using assms
proof (induction "snd_window c - n" arbitrary: n c fuel out)
  case 0
  then have N: "snd_window c = n" by simp
  obtain f where f: "fuel = Suc f" using 0(4) by (cases fuel) auto
  have "snd_nxt c - snd_una c = of_nat (Suc n)" "n \<le> m_swnd_used c" "n < unat (snd_max c)"
    using 0(2) by (simp_all add: sender_ok_def)
  moreover have "Suc n < 2 ^ 32 \<or> Suc n = unat (snd_max c)"
    using calculation(3) unat_u32_less [of "snd_max c"] by linarith
  ultimately have "(m_swnd_head c + n) mod m_swnd_len c = (m_swnd_head c + m_swnd_used c) mod m_swnd_len c \<or>
      \<not> snd_nxt c - snd_una c < snd_max c"
    using N seq_less_max [of "Suc n" "snd_max c"] unat_u32_less [of "snd_max c"]
    by (auto simp: snd_window_def min_def split: if_splits)
  then have "send_ostand_loop fuel now ((m_swnd_head c + n) mod m_swnd_len c)
      ((m_swnd_head c + m_swnd_used c) mod m_swnd_len c) c out = Some ((m_swnd_head c + n) mod m_swnd_len c, c, out @ [])"
    unfolding f by auto
  then show ?case using 0(2) N by (intro exI [of _ c] exI [of _ "[]"]) simp
next
  case (Suc x)
  obtain f where f: "fuel = Suc f" using Suc.prems(3) by (cases fuel) auto
  have n: "n < m_swnd_used c" "Suc n < unat (snd_max c)" using Suc(2) by (auto simp: snd_window_def)
  have used: "m_swnd_used c \<le> m_swnd_len c" using Suc.prems(1) by (simp add: sender_ok_def)
  have "n = 0 \<longrightarrow> m_swnd_used c \<noteq> m_swnd_len c" using Suc.prems(4) n(2) by auto
  then have ne: "(m_swnd_head c + n) mod m_swnd_len c \<noteq> (m_swnd_head c + m_swnd_used c) mod m_swnd_len c"
    using ring_distinct n(1) used by blast
  define e where "e = (m_swnd_head c + m_swnd_used c) mod m_swnd_len c"
  obtain w w' pb d where q: "queued_slot ps (b + n) w" "sview c ! n = w" "carries iss ps (b + n) pb"
    and w': "is_acked w' = is_acked w" and d: "sender_ok iss ps b (Suc n) d" "snd_rest d = snd_rest c"
    "sview d = (sview c)[n := w']" "m_swnd_head d = m_swnd_head c" "m_swnd_used d = m_swnd_used c"
    and loop: "send_ostand_loop (Suc f) now ((m_swnd_head c + n) mod m_swnd_len c) e c out =
      send_ostand_loop f now ((m_swnd_head c + Suc n) mod m_swnd_len c) e d (out @ [pb])"
  proof -
    from send_step [OF Suc.prems(1) n, of now f e out] ne show ?thesis
      unfolding Let_def e_def [symmetric] by (elim exE conjE, intro that) auto
  qed
  note fr = snd_restD [OF d(2)]
  have win: "snd_window d = snd_window c" using fr d(5) by (simp add: snd_window_def)
  have small: "snd_window d - Suc n < f" "x = snd_window d - Suc n" "Suc n \<le> snd_window d"
    using Suc(2) Suc.prems(3) f win by linarith+
  obtain c' out' where IH: "send_ostand_loop f now ((m_swnd_head c + Suc n) mod m_swnd_len c) e d (out @ [pb]) =
      Some ((m_swnd_head c + snd_window c) mod m_swnd_len c, c', (out @ [pb]) @ out')"
    "sender_ok iss ps b (snd_window c) c'" "snd_rest c' = snd_rest d" "m_swnd_head c' = m_swnd_head d"
    "m_swnd_used c' = m_swnd_used d" "is_acked (sview c' ! 0) = is_acked (sview d ! 0)"
    "list_all2 (carries iss ps) [b + Suc n..<b + snd_window c] out'"
    using Suc(1) [OF small(2) d(1) small(3,1), of "out @ [pb]"] unfolding fr(12) d(4,5) win e_def [symmetric] by auto
  have "is_acked (sview d ! 0) = is_acked (sview c ! 0)"
    using d(3) q(2) w' n(1) used Suc.prems(1) by (cases n) (simp_all add: sender_ok_def)
  moreover have "list_all2 (carries iss ps) [b + n..<b + snd_window c] (pb # out')"
    using IH(7) q(3) Suc(2) upt_conv_Cons [of "b + n" "b + snd_window c"] by simp
  ultimately show ?case
    using IH d loop unfolding f e_def [symmetric] by (intro exI [of _ c'] exI [of _ "pb # out'"]) simp
qed

text \<open>
  \<^verbatim>\<open>send_ostand_swnd\<close>: it never faults, it transmits the queued payloads in order until
  the window of \<^verbatim>\<open>snd_max\<close> is full, and the connection is then again in the relation.
\<close>

lemma send_ostand_spec:
  assumes "sender_ok iss ps b n c" "m_swnd_ostand c = (m_swnd_head c + n) mod m_swnd_len c"
    "n = 0 \<Longrightarrow> m_swnd_used c = m_swnd_len c \<Longrightarrow> snd_max c = 1" "0 < m_swnd_used c \<Longrightarrow> \<not> is_acked (sview c ! 0)"
  shows "\<exists>c' out. send_ostand_swnd now c = Some (c', out) \<and> sender iss ps b (snd_window c) c' \<and>
    snd_rest c' = snd_rest c \<and> m_swnd_used c' = m_swnd_used c \<and>
    list_all2 (carries iss ps) [b + n..<b + snd_window c] out"
proof -
  have ok: "n \<le> m_swnd_used c" "n < unat (snd_max c)" "m_swnd_len c = 4 * unat (snd_max c)"
    "m_swnd_used c \<le> m_swnd_len c" using assms(1) by (simp_all add: sender_ok_def)
  have "n \<le> snd_window c" "snd_window c - n < Suc (m_swnd_len c)" using ok by (auto simp: snd_window_def)
  from send_ostand_loop_spec [OF assms(1) this assms(3), of now "[]"]
  obtain c' out where l: "send_ostand_loop (Suc (m_swnd_len c)) now ((m_swnd_head c + n) mod m_swnd_len c)
      ((m_swnd_head c + m_swnd_used c) mod m_swnd_len c) c [] =
      Some ((m_swnd_head c + snd_window c) mod m_swnd_len c, c', out)"
    "sender_ok iss ps b (snd_window c) c'" "snd_rest c' = snd_rest c" "m_swnd_head c' = m_swnd_head c"
    "m_swnd_used c' = m_swnd_used c" "is_acked (sview c' ! 0) = is_acked (sview c ! 0)"
    "list_all2 (carries iss ps) [b + n..<b + snd_window c] out"
    by auto
  let ?c = "c'\<lparr>m_swnd_ostand := (m_swnd_head c + snd_window c) mod m_swnd_len c\<rparr>"
  have "send_ostand_swnd now c = Some (?c, out)"
    using l(1) ok(2,3) assms(2) by (simp add: send_ostand_swnd_def del: send_ostand_loop.simps)
  moreover have "sender iss ps b (snd_window c) ?c"
    using l(2,4,5,6) snd_restD [OF l(3)] assms(4) ok
    by (auto simp: sender_def sender_ok_def sview_def snd_window_def)
  moreover have "snd_rest ?c = snd_rest c" using l(3) by (simp add: snd_rest_def)
  ultimately show ?thesis using l(5,7) by auto
qed

subsection \<open>Enqueueing\<close>

lemma carries_append: "j < length ps \<Longrightarrow> carries iss (ps @ qs) j pb = carries iss ps j pb"
  by (simp add: carries_def nth_append)

lemma slots_append:
  "j < length ps \<Longrightarrow> sent_slot iss (ps @ qs) j w = sent_slot iss ps j w"
  "j < length ps \<Longrightarrow> queued_slot (ps @ qs) j w = queued_slot ps j w"
  by (simp_all add: sent_slot_def queued_slot_def carries_append nth_append)

lemma sender_head_not_acked:
  assumes "sender iss ps b n c" "0 < m_swnd_used c"
  shows "\<not> is_acked (sview c ! 0)"
proof (cases "0 < n")
  case True
  then show ?thesis using assms by (simp add: sender_def)
next
  case False
  then have "queued_slot ps b (sview c ! 0)" using assms by (auto simp: sender_def sender_ok_def)
  then show ?thesis by (simp add: queued_slot_def)
qed

lemma sender_full_edge:
  assumes "sender iss ps b n c" "n = 0" "m_swnd_used c = m_swnd_len c"
  shows "snd_max c = 1"
proof -
  have "0 < unat (snd_max c)" "m_swnd_len c = 4 * unat (snd_max c)" "unat (snd_max c) = 1 \<or> m_swnd_used c = 0"
    using assms by (auto simp: sender_def sender_ok_def)
  then have "unat (snd_max c) = unat (1 :: u32)" using assms(3) by simp
  then show ?thesis by (simp only: word_unat_eq_iff)
qed

lemma enqueue_spec:
  assumes S: "sender iss ps b n c" and st: "state c = OPEN"
    and pb: "20 \<le> m_head pb" "0 \<le> m_len pb" and room: "m_swnd_used c < m_swnd_len c"
  shows "\<exists>c' out n'. enqueue_swnd now pb c = Some (True, c', out) \<and> sender iss (ps @ [pbuf_bytes pb]) b n' c' \<and>
    n' = min (Suc (m_swnd_used c)) (unat (snd_max c) - 1) \<and>
    snd_rest c' = snd_rest c \<and> m_swnd_used c' = Suc (m_swnd_used c) \<and>
    list_all2 (carries iss (ps @ [pbuf_bytes pb])) [b + n..<b + n'] out"
proof -
  let ?u = "m_swnd_used c" and ?i = "(m_swnd_head c + m_swnd_used c) mod m_swnd_len c"
  let ?ps = "ps @ [pbuf_bytes pb]"
  have ok: "sender_ok iss ps b n c" "m_swnd_ostand c = (m_swnd_head c + n) mod m_swnd_len c"
    using S by (simp_all add: sender_def)
  have sz: "length (m_swnd c) = m_swnd_len c" "length ps = b + ?u" "n \<le> ?u" "n < unat (snd_max c)"
    "m_swnd_len c = 4 * unat (snd_max c)"
    using ok(1) by (simp_all add: sender_ok_def)
  define w where "w = (sview c ! ?u)\<lparr>sw_pbuf := Some pb, sent_time := 0, is_acked := False, is_sent := False, rt_sec := 1\<rparr>"
  define d where "d = c\<lparr>m_swnd := (m_swnd c)[?i := w], m_swnd_used := Suc ?u\<rparr>"
  have view: "sview d = (sview c)[?u := w]" by (rule sview_update [OF sz(1) room]) (simp_all add: d_def)
  have w: "queued_slot ?ps (b + ?u) w" using pb sz(2) by (simp add: queued_slot_def w_def nth_append)
  have slots: "(\<forall>k < n. sent_slot iss ?ps (b + k) (sview d ! k)) \<and>
     (\<forall>k. n \<le> k \<longrightarrow> k < Suc ?u \<longrightarrow> queued_slot ?ps (b + k) (sview d ! k))"
  proof (intro conjI allI impI)
    fix k assume "k < n"
    then show "sent_slot iss ?ps (b + k) (sview d ! k)"
      using ok(1) sz by (simp add: view sender_ok_def slots_append)
  next
    fix k assume "n \<le> k" "k < Suc ?u"
    then show "queued_slot ?ps (b + k) (sview d ! k)"
      using ok(1) sz w room by (cases "k = ?u") (simp_all add: view sender_ok_def slots_append)
  qed
  have dok: "sender_ok iss ?ps b n d"
    using ok(1) slots room by (simp add: sender_ok_def d_def)
  have edge: "n = 0 \<Longrightarrow> m_swnd_used d = m_swnd_len d \<Longrightarrow> snd_max d = 1"
    using S sz unfolding sender_def d_def by (auto simp: word_unat_eq_iff)
  have "\<not> is_acked (sview d ! 0)"
    using sender_head_not_acked [OF S] w sz room by (cases "?u = 0") (simp_all add: view queued_slot_def)
  from send_ostand_spec [OF dok _ edge this, of now] obtain c' out where
    c': "send_ostand_swnd now d = Some (c', out)" "sender iss ?ps b (snd_window d) c'" "snd_rest c' = snd_rest d"
    "m_swnd_used c' = m_swnd_used d" "list_all2 (carries iss ?ps) [b + n..<b + snd_window d] out"
    using ok(2) by (auto simp: d_def)
  have "snd_window d = min (Suc ?u) (unat (snd_max c) - 1)" by (simp add: snd_window_def d_def)
  moreover have "enqueue_swnd now pb c = Some (True, c', out)"
    using room st sview_slot [OF sz(1) room] c'(1) by (simp add: enqueue_swnd_def Let_def d_def w_def)
  moreover have "snd_rest c' = snd_rest c" "m_swnd_used c' = Suc ?u" using c'(3,4) by (simp_all add: d_def snd_rest_def)
  ultimately show ?thesis using c'(2,5) by auto
qed

subsection \<open>Acknowledgements\<close>

lemma recv_ack_loop_spec:
  assumes S: "sender iss ps b n c" and a: "a \<le> n" "acknum = iss + of_nat (b + a)"
    and "t \<le> a" "a - t < fuel" "length W = m_swnd_len c"
    and "\<And>k. t \<le> k \<Longrightarrow> k < m_swnd_len c \<Longrightarrow> rotate (m_swnd_head c) W ! k = sview c ! k"
  shows "\<exists>W'. recv_ack_loop fuel ((m_swnd_head c + t) mod m_swnd_len c) acknum
        (c\<lparr>m_swnd := W, m_swnd_used := m_swnd_used c - t\<rparr>) =
      Some ((m_swnd_head c + a) mod m_swnd_len c, c\<lparr>m_swnd := W', m_swnd_used := m_swnd_used c - a\<rparr>) \<and>
    length W' = m_swnd_len c \<and>
    (\<forall>k. a \<le> k \<longrightarrow> k < m_swnd_len c \<longrightarrow> rotate (m_swnd_head c) W' ! k = sview c ! k)"
  using assms(4-)
proof (induction fuel arbitrary: t W)
  case (Suc f)
  let ?h = "m_swnd_head c" and ?len = "m_swnd_len c" and ?w = "sview c ! t"
  let ?c = "c\<lparr>m_swnd := W, m_swnd_used := m_swnd_used c - t\<rparr>"
  have sz: "n < unat (snd_max c)" "?len = 4 * unat (snd_max c)" "n \<le> m_swnd_used c" "snd_una c = iss + of_nat b"
    "m_swnd_ostand c = (?h + n) mod ?len" "snd_max c \<le> 0xffff"
    using S by (simp_all add: sender_def sender_ok_def)
  have small: "n < 2 ^ 31" using sz(1,6) by (simp add: word_le_nat_alt)
  have sent: "sent_slot iss ps (b + k) (sview c ! k)" if "k < n" for k
    using S that by (simp add: sender_def sender_ok_def)
  have tl: "t < ?len" using Suc.prems(1) a sz by linarith
  have slot: "slot W ((?h + t) mod ?len) = Some ?w"
    using Suc.prems(3) Suc.prems(4) [of t] tl by (simp add: slot_def nth_rotate)
  have ost: "(?h + t) mod ?len = m_swnd_ostand c \<longleftrightarrow> t = n"
    using ring_inj [of ?h t ?len n] tl sz by auto
  have acked: "sw_seqnum ?w - snd_una c \<le> acknum - snd_una c \<longleftrightarrow> t < a" if "t < n"
  proof -
    have "sw_seqnum ?w - snd_una c = of_nat (Suc t)" "acknum - snd_una c = of_nat a"
      using sent [OF that] sz(4) a(2) by (simp_all add: sent_slot_def)
    then show ?thesis using that a(1) small by (simp add: word_le_nat_alt Suc_le_eq del: of_nat_Suc)
  qed
  show ?case
  proof (cases "t < a")
    case False
    then have t: "t = a" using Suc.prems(1) by simp
    have "recv_ack_loop (Suc f) ((?h + t) mod ?len) acknum ?c = Some ((?h + a) mod ?len, ?c)"
      using ost acked slot False a(1) t by (cases "t = n") simp_all
    then show ?thesis using Suc.prems(3,4) t by auto
  next
    case True
    then have tn: "t < n" using a(1) by simp
    define W2 where "W2 = W[(?h + t) mod ?len := (if is_acked ?w then ?w else ?w\<lparr>sw_pbuf := None\<rparr>)]"
    have used: "m_swnd_used c - t \<noteq> 0" "m_swnd_used c - t - 1 = m_swnd_used c - Suc t" using tn sz(3) by auto
    have inc: "ring_inc ?len ((?h + t) mod ?len) = (?h + Suc t) mod ?len"
      using tl by (simp add: ring_inc_mod mod_Suc_eq)
    have step: "recv_ack_loop (Suc f) ((?h + t) mod ?len) acknum ?c =
        recv_ack_loop f ((?h + Suc t) mod ?len) acknum (c\<lparr>m_swnd := W2, m_swnd_used := m_swnd_used c - Suc t\<rparr>)"
      using ost acked [OF tn] slot True tn used sent [OF tn] inc by (simp add: sent_slot_def W2_def)
    have "rotate ?h W2 ! k = sview c ! k" if "Suc t \<le> k" "k < ?len" for k
      using rotate_list_update [of t W ?h] Suc.prems(3,4) tl that by (simp add: W2_def)
    then show ?thesis
      unfolding step using True Suc.prems(2,3) by (intro Suc.IH) (auto simp: W2_def)
  qed
qed simp

text \<open>The number of segments an acknowledgement newly covers.\<close>

definition newly_acked :: "u32 \<Rightarrow> rdp_con \<Rightarrow> nat" where
  "newly_acked acknum c =
     (if acknum - snd_una c < snd_nxt c - snd_una c then unat (acknum - snd_una c) else 0)"

lemma newly_acked_le:
  assumes "sender iss ps b n c"
  shows "newly_acked acknum c \<le> n"
proof -
  have nx: "snd_nxt c - snd_una c = of_nat (Suc n)" and n: "n < unat (snd_max c)"
    using assms by (simp_all add: sender_def sender_ok_def)
  have "Suc n < 2 ^ 32" using assms unfolding sender_def sender_ok_def by (simp add: word_le_nat_alt)
  then show ?thesis unfolding newly_acked_def nx by (simp add: word_less_nat_alt del: of_nat_Suc)
qed

lemma recv_ack_spec:
  assumes S: "sender iss ps b n c" and a: "newly_acked acknum c = a"
    and hd: "a < n \<Longrightarrow> \<not> is_acked (sview c ! a)"
  shows "\<exists>c' out n'. recv_ack now acknum c = Some (c', out) \<and> sender iss ps (b + a) n' c' \<and>
    n' = min (m_swnd_used c - a) (unat (snd_max c) - 1) \<and>
    snd_rest c' = snd_rest c \<and> m_swnd_used c' = m_swnd_used c - a \<and>
    list_all2 (carries iss ps) [b + n..<b + a + n'] out"
proof -
  have ok: "sender_ok iss ps b n c" "m_swnd_ostand c = (m_swnd_head c + n) mod m_swnd_len c"
    using S by (simp_all add: sender_def)
  show ?thesis
  proof (cases "acknum - snd_una c < snd_nxt c - snd_una c")
    case False
    then have a0: "a = 0" using a by (simp add: newly_acked_def)
    obtain c' out where "send_ostand_swnd now c = Some (c', out)" "sender iss ps b (snd_window c) c'"
      "snd_rest c' = snd_rest c" "m_swnd_used c' = m_swnd_used c"
      "list_all2 (carries iss ps) [b + n..<b + snd_window c] out"
      using send_ostand_spec [OF ok sender_full_edge [OF S] sender_head_not_acked [OF S]] by metis
    then show ?thesis using False a0 by (simp add: recv_ack_def snd_window_def)
  next
    case True
    have an: "a \<le> n" using newly_acked_le [OF S] a by blast
    have sz: "length (m_swnd c) = m_swnd_len c" "m_swnd_len c = 4 * unat (snd_max c)" "n \<le> m_swnd_used c"
      "n < unat (snd_max c)" "m_swnd_used c \<le> m_swnd_len c" "m_swnd_head c < m_swnd_len c" "snd_una c = iss + of_nat b"
      using ok(1) by (simp_all add: sender_ok_def)
    have "of_nat a = acknum - snd_una c" using a True by (auto simp: newly_acked_def)
    then have ack: "acknum = iss + of_nat (b + a)" by (simp add: sz(7) algebra_simps)
    obtain W where W: "recv_ack_loop (Suc (m_swnd_len c)) (m_swnd_head c) acknum c =
        Some ((m_swnd_head c + a) mod m_swnd_len c, c\<lparr>m_swnd := W, m_swnd_used := m_swnd_used c - a\<rparr>)"
      "length W = m_swnd_len c"
      "\<And>k. a \<le> k \<Longrightarrow> k < m_swnd_len c \<Longrightarrow> rotate (m_swnd_head c) W ! k = sview c ! k"
      using recv_ack_loop_spec [OF S an ack, of 0 "Suc (m_swnd_len c)" "m_swnd c"] sz an by (auto simp: sview_def)
    define d where "d = c\<lparr>m_swnd := W, m_swnd_used := m_swnd_used c - a,
      m_swnd_head := (m_swnd_head c + a) mod m_swnd_len c, snd_una := acknum\<rparr>"
    have view: "sview d ! k = sview c ! (a + k)" if "a + k < m_swnd_len c" for k
      using W(2) W(3) [of "a + k"] that by (simp add: sview_def d_def nth_rotate mod_add_left_eq add.assoc)
    have slots: "(\<forall>k < n - a. sent_slot iss ps (b + a + k) (sview d ! k)) \<and>
       (\<forall>k. n - a \<le> k \<longrightarrow> k < m_swnd_used c - a \<longrightarrow> queued_slot ps (b + a + k) (sview d ! k))"
    proof (intro conjI allI impI)
      fix k assume "k < n - a"
      then show "sent_slot iss ps (b + a + k) (sview d ! k)"
        using ok(1) an sz view [of k] by (simp add: sender_ok_def add.assoc)
    next
      fix k assume "n - a \<le> k" "k < m_swnd_used c - a"
      then show "queued_slot ps (b + a + k) (sview d ! k)"
        using ok(1) an sz view [of k] by (simp add: sender_ok_def add.assoc)
    qed
    have nxt: "b + a + (n - a) = b + n" using an by simp
    have dok: "sender_ok iss ps (b + a) (n - a) d"
      using ok(1) slots an sz(3,6) W(2) ack unfolding sender_ok_def nxt by (auto simp: d_def)
    have ost: "m_swnd_ostand d = (m_swnd_head d + (n - a)) mod m_swnd_len d"
    proof -
      have "((m_swnd_head c + a) mod m_swnd_len c + (n - a)) mod m_swnd_len c = (m_swnd_head c + n) mod m_swnd_len c"
        unfolding mod_add_left_eq using an by (simp add: add.assoc)
      then show ?thesis using ok(2) by (simp add: d_def)
    qed
    have edge: "n - a = 0 \<Longrightarrow> m_swnd_used d = m_swnd_len d \<Longrightarrow> snd_max d = 1"
      using sender_full_edge [OF S] an sz by (cases "a = 0") (auto simp: d_def)
    have hd': "\<not> is_acked (sview d ! 0)" if "0 < m_swnd_used d"
    proof (cases "a < n")
      case True
      then show ?thesis using hd view [of 0] sz by simp
    next
      case False
      moreover have "m_swnd_used d = m_swnd_used c - a" by (simp add: d_def)
      ultimately have "queued_slot ps (b + a + 0) (sview d ! 0)"
        using slots [THEN conjunct2, rule_format, of 0] that by simp
      then show ?thesis by (simp add: queued_slot_def)
    qed
    obtain c' out where c': "send_ostand_swnd now d = Some (c', out)" "sender iss ps (b + a) (snd_window d) c'"
      "snd_rest c' = snd_rest d" "m_swnd_used c' = m_swnd_used d"
      "list_all2 (carries iss ps) [b + a + (n - a)..<b + a + snd_window d] out"
      using send_ostand_spec [OF dok ost edge hd'] by metis
    have "recv_ack now acknum c = Some (c', out)"
      using True W(1) c'(1) by (simp add: recv_ack_def d_def del: recv_ack_loop.simps)
    moreover have "snd_rest d = snd_rest c" by (simp add: d_def snd_rest_def)
    ultimately show ?thesis
      using c' by (auto simp: nxt snd_window_def d_def)
  qed
qed

subsection \<open>Extended acknowledgements\<close>

text \<open>
  An extended acknowledgement of a segment other than the oldest outstanding one (the
  only kind a receiver of this protocol sends) keeps the relation.
\<close>

lemma recv_eack_spec:
  assumes S: "sender iss ps b n c" and e: "eacknum \<noteq> snd_una c + 1"
  shows "\<exists>c'. recv_eack eacknum c = Some c' \<and> sender iss ps b n c' \<and> snd_rest c' = snd_rest c \<and>
    m_swnd_used c' = m_swnd_used c"
proof (cases "m_swnd_used c = 0")
  case True
  then show ?thesis using S by (simp add: recv_eack_def)
next
  case used: False
  let ?h = "m_swnd_head c" and ?len = "m_swnd_len c"
  have ok: "sender_ok iss ps b n c" using S by (simp add: sender_def)
  have sz: "length (m_swnd c) = ?len" "m_swnd_used c \<le> ?len" "?h < ?len" "snd_una c = iss + of_nat b"
    "n < ?len" "?len < 2 ^ 32"
    using ok unfolding sender_ok_def by (simp_all add: word_le_nat_alt)
  have hd: "slot (m_swnd c) ?h = Some (sview c ! 0)" using sview_slot [OF sz(1), of 0] sz(3) by simp
  define k where "k = unat (eacknum - sw_seqnum (sview c ! 0))"
  show ?thesis
  proof (cases "k < ?len")
    case False
    then have "eacknum - sw_seqnum (sview c ! 0) \<ge> of_nat ?len" using sz(6) by (simp add: k_def word_le_nat_alt)
    then show ?thesis using S used hd by (simp add: recv_eack_def Let_def)
  next
    case True
    then have lt: "\<not> eacknum - sw_seqnum (sview c ! 0) \<ge> of_nat ?len" using sz(6) by (simp add: k_def word_le_nat_alt)
    let ?w = "sview c ! k" and ?pos = "(?h + k) mod ?len"
    let ?hit = "sw_seqnum ?w = eacknum \<and> is_sent ?w \<and> \<not> is_acked ?w"
    define d where "d = (if ?hit then c\<lparr>m_swnd := (m_swnd c)[?pos := ?w\<lparr>sw_pbuf := None, is_acked := True\<rparr>]\<rparr> else c)"
    have pos: "(if unat (eacknum - sw_seqnum (sview c ! 0)) + ?h \<ge> ?len
        then (unat (eacknum - sw_seqnum (sview c ! 0)) + ?h) mod ?len
        else unat (eacknum - sw_seqnum (sview c ! 0)) + ?h) = ?pos"
      by (simp add: k_def [symmetric] add.commute)
    have unf: "recv_eack eacknum c = eack_remove_loop (Suc ?len) d"
      using used hd lt sview_slot [OF sz(1) True]
      unfolding recv_eack_def Let_def by (simp add: pos d_def del: eack_remove_loop.simps)
    have view: "sview d = (if ?hit then (sview c)[k := ?w\<lparr>sw_pbuf := None, is_acked := True\<rparr>] else sview c)"
    proof (cases ?hit)
      case hit: True
      show ?thesis using hit by (simp add: d_def sview_update [OF sz(1) True])
    next
      case miss: False
      show ?thesis unfolding d_def if_not_P [OF miss] ..
    qed
    have fr: "m_swnd_head d = ?h" "m_swnd_len d = ?len" "m_swnd_used d = m_swnd_used c" "m_swnd_ostand d = m_swnd_ostand c"
      "length (m_swnd d) = length (m_swnd c)" "snd_rest d = snd_rest c" "snd_max d = snd_max c" "snd_una d = snd_una c"
      "snd_nxt d = snd_nxt c"
      by (simp_all add: d_def snd_rest_def)
    have k0: "\<not> ?hit \<or> 0 < k \<or> n = 0"
    proof (rule ccontr)
      assume "\<not> (\<not> ?hit \<or> 0 < k \<or> n = 0)"
      then have "sw_seqnum (sview c ! 0) = eacknum" "sent_slot iss ps (b + 0) (sview c ! 0)"
        using ok by (auto simp: sender_ok_def)
      then show False using e sz(4) by (simp add: sent_slot_def)
    qed
    have hd0: "0 < n \<longrightarrow> \<not> is_acked (sview d ! 0)"
      using S k0 True sz(1) by (auto simp: view sender_def nth_list_update)
    have slots: "(\<forall>j < n. sent_slot iss ps (b + j) (sview d ! j)) \<and>
       (\<forall>j. n \<le> j \<longrightarrow> j < m_swnd_used c \<longrightarrow> queued_slot ps (b + j) (sview d ! j))"
      using ok True sz(1) by (auto simp: view sender_ok_def nth_list_update sent_slot_def queued_slot_def)
    have S': "sender iss ps b n d"
      using S slots hd0 unfolding sender_def sender_ok_def fr by auto
    have "eack_remove_loop (Suc ?len) d = Some d"
    proof (cases "?h = m_swnd_ostand c")
      case False
      then have "0 < n" using S sz(3) by (cases n) (auto simp: sender_def)
      then have "\<not> is_acked (sview d ! 0)" using hd0 by simp
      then show ?thesis using sview_slot [of d 0] fr sz(1,3) by simp
    qed (simp add: fr)
    then show ?thesis using unf S' fr by auto
  qed
qed

subsection \<open>Retransmission\<close>

lemma read_head_set_ack:
  "read_head (pbuf_write (m_head pb + 12) (htonl_bytes x) pb) = (read_head pb)\<lparr>h_acknum := x\<rparr>"
proof -
  let ?q = "pbuf_write (m_head pb + 12) (htonl_bytes x) pb" and ?h = "m_head pb"
  have split: "pbuf_read p ?h 20 = pbuf_read p ?h 12 @ pbuf_read p (?h + 12) 4 @ pbuf_read p (?h + 16) 4" for p
    using pbuf_read_append [of p ?h 12 8] pbuf_read_append [of p "?h + 12" 4 4] by (simp add: add.assoc)
  have "pbuf_read ?q ?h 12 = pbuf_read pb ?h 12" "pbuf_read ?q (?h + 12) 4 = htonl_bytes x"
    "pbuf_read ?q (?h + 16) 4 = pbuf_read pb (?h + 16) 4"
    by (simp_all add: pbuf_read_write_other pbuf_read_write_same)
  then show ?thesis
    unfolding read_head_def pbuf_write_simps split by (simp add: head_of_bytes_def nth_append)
qed

lemma carries_set_ack:
  assumes "carries iss ps j pb"
  shows "carries iss ps j (pbuf_write (m_head pb + 12) (htonl_bytes x) pb)"
  using assms by (simp add: carries_def read_head_set_ack pbuf_read_write_other)

lemma retransmit_loop_spec:
  assumes "sender iss ps b n c" "k + m = m_swnd_used c"
  shows "\<exists>r c' out'. retransmit_loop m max_retrans now ((m_swnd_head c + k) mod m_swnd_len c) c out =
      Some (r, c', out @ out') \<and> sender iss ps b n c' \<and>
    (if r then snd_rest c' = snd_rest c else snd_rest c' = (snd_rest c)\<lparr>state := CLOSED\<rparr>) \<and>
    (\<forall>p \<in> set out'. \<exists>j. b \<le> j \<and> j < b + n \<and> carries iss ps j p)"
  using assms
proof (induction m arbitrary: k c out)
  case 0
  then show ?case by (intro exI [of _ True] exI [of _ c] exI [of _ "[]"]) simp
next
  case (Suc m)
  let ?w = "sview c ! k" and ?i = "(m_swnd_head c + k) mod m_swnd_len c"
  have ok: "sender_ok iss ps b n c" using Suc.prems(1) by (simp add: sender_def)
  have sz: "length (m_swnd c) = m_swnd_len c" "k < m_swnd_len c" "m_swnd_head c < m_swnd_len c"
    using ok Suc.prems(2) by (auto simp: sender_ok_def)
  note slot = sview_slot [OF sz(1,2)]
  have inc: "ring_inc (m_swnd_len c) ?i = (m_swnd_head c + Suc k) mod m_swnd_len c"
    using sz by (simp add: ring_inc_mod mod_Suc_eq)
  consider (queued) "\<not> is_sent ?w" | (closed) "is_sent ?w" "\<not> is_acked ?w" "rt_sec ?w > max_retrans"
    | (skip) "is_sent ?w" "is_acked ?w \<or> (\<not> rt_sec ?w > max_retrans \<and> \<not> now - sent_time ?w > rt_sec ?w)"
    | (again) "is_sent ?w" "\<not> is_acked ?w" "\<not> rt_sec ?w > max_retrans" "now - sent_time ?w > rt_sec ?w"
    by blast
  then show ?case
  proof cases
    case queued
    then show ?thesis using slot Suc.prems(1)
      by (intro exI [of _ True] exI [of _ c] exI [of _ "[]"]) simp
  next
    case closed
    have "sender iss ps b n (c\<lparr>state := CLOSED\<rparr>)"
      using Suc.prems(1) by (simp add: sender_def sender_ok_def sview_def)
    then show ?thesis using slot closed
      by (intro exI [of _ False] exI [of _ "c\<lparr>state := CLOSED\<rparr>"] exI [of _ "[]"]) (simp add: snd_rest_def)
  next
    case skip
    then have "retransmit_loop (Suc m) max_retrans now ?i c out =
        retransmit_loop m max_retrans now ((m_swnd_head c + Suc k) mod m_swnd_len c) c out"
      using slot inc by (auto simp: Let_def)
    then show ?thesis using Suc.IH [OF Suc.prems(1), of "Suc k" out] Suc.prems(2) by simp
  next
    case again
    have kn: "k < n"
    proof (rule ccontr)
      assume "\<not> k < n"
      then have "queued_slot ps (b + k) ?w" using ok Suc.prems(2) by (simp add: sender_ok_def)
      then show False using again by (simp add: queued_slot_def)
    qed
    then have "sent_slot iss ps (b + k) ?w" using ok by (simp add: sender_ok_def)
    then obtain pb where pb: "sw_pbuf ?w = Some pb" "carries iss ps (b + k) pb" "sw_seqnum ?w = iss + 1 + of_nat (b + k)"
      using again by (auto simp: sent_slot_def)
    define pb' where "pb' = pbuf_write (m_head pb + 12) (htonl_bytes (rcv_cur c)) pb"
    have car: "carries iss ps (b + k) pb'" unfolding pb'_def by (rule carries_set_ack [OF pb(2)])
    define w where "w = ?w\<lparr>sent_time := now, rt_sec := rt_sec ?w * 2, sw_pbuf := Some pb'\<rparr>"
    define d where "d = c\<lparr>m_swnd := (m_swnd c)[?i := w]\<rparr>"
    have view: "sview d = (sview c)[k := w]" by (rule sview_update [OF sz(1,2)]) (simp_all add: d_def)
    have w: "sent_slot iss ps (b + k) w" "is_acked w = is_acked ?w"
      using car pb(3) again by (simp_all add: sent_slot_def w_def)
    have S: "sender iss ps b n d"
      using Suc.prems(1) w kn sz(1,2) unfolding sender_def sender_ok_def view
      by (auto simp: d_def nth_list_update)
    have step: "retransmit_loop (Suc m) max_retrans now ?i c out =
        retransmit_loop m max_retrans now ((m_swnd_head d + Suc k) mod m_swnd_len d) d (out @ [pb'])"
      using slot inc again pb(1) by (simp add: Let_def d_def w_def pb'_def)
    have "Suc k + m = m_swnd_used d" "snd_rest d = snd_rest c" using Suc.prems(2) by (simp_all add: d_def snd_rest_def)
    then obtain r c' out' where "retransmit_loop (Suc m) max_retrans now ?i c out = Some (r, c', (out @ [pb']) @ out')"
      "sender iss ps b n c'" "if r then snd_rest c' = snd_rest c else snd_rest c' = (snd_rest c)\<lparr>state := CLOSED\<rparr>"
      "\<forall>p \<in> set out'. \<exists>j. b \<le> j \<and> j < b + n \<and> carries iss ps j p"
      using Suc.IH [OF S, of "Suc k" "out @ [pb']"] unfolding step by auto
    moreover have "\<exists>j. b \<le> j \<and> j < b + n \<and> carries iss ps j pb'" using kn car by (intro exI [of _ "b + k"]) simp
    ultimately show ?thesis
      by (intro exI [of _ r] exI [of _ c'] exI [of _ "pb' # out'"]) (simp del: retransmit_loop.simps)
  qed
qed

lemma retransmit_spec:
  assumes "sender iss ps b n c"
  shows "\<exists>r c' out. retransmit max_retrans now c = Some (r, c', out) \<and> sender iss ps b n c' \<and>
    (if r then snd_rest c' = snd_rest c else snd_rest c' = (snd_rest c)\<lparr>state := CLOSED\<rparr>) \<and>
    (\<forall>p \<in> set out. \<exists>j. b \<le> j \<and> j < b + n \<and> carries iss ps j p)"
proof (cases "m_swnd_used c = 0")
  case True
  then show ?thesis using assms by (auto simp: retransmit_def)
next
  case False
  have "m_swnd_head c mod m_swnd_len c = m_swnd_head c" using assms by (simp add: sender_def sender_ok_def)
  then show ?thesis
    using retransmit_loop_spec [OF assms, of 0 "m_swnd_used c" max_retrans now "[]"] False
    by (simp add: retransmit_def)
qed

subsection \<open>The sender over any sequence of operations\<close>

text \<open>
  What the layers above and below may do to a send window: enqueue a buffer, hand in an
  acknowledgement or an extended acknowledgement, run the retransmission timer.
\<close>

datatype snd_op = Enqueue packetbuf | Ack u32 | Eack u32 | Retransmit int

fun snd_step :: "int \<Rightarrow> snd_op \<Rightarrow> rdp_con \<times> packetbuf list \<Rightarrow> (rdp_con \<times> packetbuf list) option" where
  "snd_step now (Enqueue pb) (c, sent) = do { (r, c, out) \<leftarrow> enqueue_swnd now pb c; Some (c, sent @ out) }"
| "snd_step now (Ack a) (c, sent) = do { (c, out) \<leftarrow> recv_ack now a c; Some (c, sent @ out) }"
| "snd_step now (Eack a) (c, sent) = do { c \<leftarrow> recv_eack a c; Some (c, sent) }"
| "snd_step now (Retransmit m) (c, sent) = do { (r, c, out) \<leftarrow> retransmit m now c; Some (c, sent @ out) }"

text \<open>
  The behaviour of a peer that acknowledges the way \<^verbatim>\<open>delayed_ack\<close> does: it never extends
  an acknowledgement to the segment right after the one it acknowledges.
\<close>

fun fair_op :: "snd_op \<Rightarrow> rdp_con \<Rightarrow> bool" where
  "fair_op (Enqueue pb) c \<longleftrightarrow> 20 \<le> m_head pb \<and> 0 \<le> m_len pb"
| "fair_op (Ack a) c \<longleftrightarrow> newly_acked a c < m_swnd_used c \<longrightarrow>
     \<not> (is_sent (sview c ! newly_acked a c) \<and> is_acked (sview c ! newly_acked a c))"
| "fair_op (Eack a) c \<longleftrightarrow> a \<noteq> snd_una c + 1"
| "fair_op (Retransmit m) c \<longleftrightarrow> True"

definition all_carried :: "u32 \<Rightarrow> u8 list list \<Rightarrow> packetbuf list \<Rightarrow> bool" where
  "all_carried iss ps out \<longleftrightarrow> (\<forall>p \<in> set out. \<exists>j < length ps. carries iss ps j p)"

lemma all_carried_append [simp]:
  "all_carried iss ps (out @ out') \<longleftrightarrow> all_carried iss ps out \<and> all_carried iss ps out'"
  by (auto simp: all_carried_def)

lemma all_carried_more: "all_carried iss ps out \<Longrightarrow> all_carried iss (ps @ qs) out"
  by (auto simp: all_carried_def) (metis carries_append length_append trans_less_add1)

lemma list_all2_carried:
  assumes "list_all2 (carries iss ps) [x..<y] out" "y \<le> length ps"
  shows "all_carried iss ps out"
  unfolding all_carried_def
proof
  fix p assume "p \<in> set out"
  then obtain i where "i < length out" "p = out ! i" by (auto simp: in_set_conv_nth)
  then have "carries iss ps (x + i) p" "x + i < y"
    using assms(1) by (auto simp: list_all2_conv_all_nth)
  then show "\<exists>j < length ps. carries iss ps j p" using assms(2) by (intro exI [of _ "x + i"]) simp
qed

definition enqueued :: "snd_op \<Rightarrow> u8 list list" where
  "enqueued x = (case x of Enqueue pb \<Rightarrow> [pbuf_bytes pb] | _ \<Rightarrow> [])"

text \<open>The payloads a user's calls handed over, in order: all of them or a prefix that fitted.\<close>

lemma snd_rest_closed:
  "snd_rest c' = snd_rest c \<Longrightarrow> snd_rest (c'\<lparr>state := CLOSED\<rparr>) = snd_rest (c\<lparr>state := CLOSED\<rparr>)"
  by (cases c; cases c') (simp add: snd_rest_def)

lemma snd_step_spec:
  assumes S: "sender iss ps b n c" and out: "all_carried iss ps out" and f: "fair_op x c"
  shows "\<exists>c' out' ps' b' n'. snd_step now x (c, out) = Some (c', out @ out') \<and> sender iss ps' b' n' c' \<and>
    all_carried iss ps' (out @ out') \<and> (ps' = ps \<or> ps' = ps @ enqueued x) \<and> b \<le> b' \<and>
    snd_rest (c'\<lparr>state := CLOSED\<rparr>) = snd_rest (c\<lparr>state := CLOSED\<rparr>)"
proof (cases x)
  case (Enqueue pb)
  show ?thesis
  proof (cases "m_swnd_used c \<ge> m_swnd_len c \<or> state c \<noteq> OPEN")
    case True
    then show ?thesis using S out Enqueue by - (rule exI [of _ c], rule exI [of _ "[] :: packetbuf list"], rule exI [of _ ps], rule exI [of _ b], rule exI [of _ n], auto simp: enqueue_swnd_def)
  next
    case False
    then obtain c' o' n' where e: "enqueue_swnd now pb c = Some (True, c', o')" "sender iss (ps @ [pbuf_bytes pb]) b n' c'"
      "snd_rest c' = snd_rest c" "list_all2 (carries iss (ps @ [pbuf_bytes pb])) [b + n..<b + n'] o'"
      using enqueue_spec [OF S, of pb now] f Enqueue by auto
    have "b + n' \<le> length (ps @ [pbuf_bytes pb])" using e(2) by (simp add: sender_def sender_ok_def)
    then have "all_carried iss (ps @ [pbuf_bytes pb]) (out @ o')"
      using list_all2_carried [OF e(4)] all_carried_more [OF out] by simp
    then show ?thesis
      using e(1,2) Enqueue snd_rest_closed [OF e(3)]
      by - (rule exI [of _ c'], rule exI [of _ o'],
        rule exI [of _ "ps @ [pbuf_bytes pb]"], rule exI [of _ b], rule exI [of _ n'], simp add: enqueued_def)
  qed
next
  case (Ack a)
  let ?a = "newly_acked a c"
  have "\<not> is_acked (sview c ! ?a)" if "?a < n"
  proof -
    have "sent_slot iss ps (b + ?a) (sview c ! ?a)" "?a < m_swnd_used c"
      using S that by (auto simp: sender_def sender_ok_def)
    then show ?thesis using f Ack by (auto simp: sent_slot_def)
  qed
  then obtain c' o' n' where e: "recv_ack now a c = Some (c', o')" "sender iss ps (b + ?a) n' c'"
    "snd_rest c' = snd_rest c" "list_all2 (carries iss ps) [b + n..<b + ?a + n'] o'"
    using recv_ack_spec [OF S refl, of a now] by blast
  have "b + ?a + n' \<le> length ps" using e(2) by (simp add: sender_def sender_ok_def)
  then have "all_carried iss ps (out @ o')" using list_all2_carried [OF e(4)] out by simp
  then show ?thesis
    using e(1,2) Ack snd_rest_closed [OF e(3)]
    by - (rule exI [of _ c'], rule exI [of _ o'],
      rule exI [of _ ps], rule exI [of _ "b + ?a"], rule exI [of _ n'], simp)
next
  case (Eack a)
  then obtain c' where e: "recv_eack a c = Some c'" "sender iss ps b n c'" "snd_rest c' = snd_rest c"
    using recv_eack_spec [OF S, of a] f by auto
  then show ?thesis
    using e(1,2) Eack out snd_rest_closed [OF e(3)]
    by - (rule exI [of _ c'], rule exI [of _ "[] :: packetbuf list"],
      rule exI [of _ ps], rule exI [of _ b], rule exI [of _ n], simp)
next
  case (Retransmit m)
  obtain r c' o' where e: "retransmit m now c = Some (r, c', o')" "sender iss ps b n c'"
    "if r then snd_rest c' = snd_rest c else snd_rest c' = (snd_rest c)\<lparr>state := CLOSED\<rparr>"
    "\<forall>p \<in> set o'. \<exists>j. b \<le> j \<and> j < b + n \<and> carries iss ps j p"
    using retransmit_spec [OF S] by blast
  have "b + n \<le> length ps" using S by (simp add: sender_def sender_ok_def)
  then have "all_carried iss ps o'" using e(4) unfolding all_carried_def by (meson order_less_le_trans)
  moreover have "snd_rest (c'\<lparr>state := CLOSED\<rparr>) = snd_rest (c\<lparr>state := CLOSED\<rparr>)"
    using e(3) by (cases c; cases c') (auto simp: snd_rest_def split: if_splits)
  ultimately show ?thesis
    using e(1,2) Retransmit out
    by - (rule exI [of _ c'], rule exI [of _ o'],
      rule exI [of _ ps], rule exI [of _ b], rule exI [of _ n], simp)
qed

text \<open>The abstract sender: the payloads accepted so far and how many are acknowledged.\<close>

definition snd_spec :: "snd_op \<Rightarrow> u8 list list \<times> nat \<Rightarrow> u8 list list \<times> nat \<Rightarrow> bool" where
  "snd_spec x = (\<lambda>(ps, b) (ps', b'). (ps' = ps \<or> ps' = ps @ enqueued x) \<and> b \<le> b')"

definition snd_rel :: "u32 \<Rightarrow> u8 list list \<times> nat \<Rightarrow> rdp_con \<times> packetbuf list \<Rightarrow> bool" where
  "snd_rel iss = (\<lambda>(ps, b) (c, out). all_carried iss ps out \<and> (\<exists>n. sender iss ps b n c))"

interpretation swnd_sender: stepwise_refinement "snd_step now" "\<lambda>x s. fair_op x (fst s)" "snd_rel iss" snd_spec
  for now iss
proof
  fix B s x
  assume "snd_rel iss B s" "fair_op x (fst s)"
  moreover obtain ps b c out where eqs: "B = (ps, b)" "s = (c, out)" by (metis surj_pair)
  ultimately obtain n where "sender iss ps b n c" "all_carried iss ps out" "fair_op x c" by (auto simp: snd_rel_def)
  from snd_step_spec [OF this, of now]
  show "\<exists>s' B'. snd_step now x s = Some s' \<and> snd_spec x B B' \<and> snd_rel iss B' s'"
    unfolding eqs snd_spec_def snd_rel_def by fastforce
qed

lemma snd_spec_run_subseq:
  "spec_run snd_spec xs B B' \<Longrightarrow>
   \<exists>qs. fst B' = fst B @ qs \<and> subseq qs (concat (map enqueued xs)) \<and> snd B \<le> snd B'"
proof (induction rule: spec_run.induct)
  case (spec_run_Cons x B B' xs B'')
  then obtain qs where qs: "fst B'' = fst B' @ qs" "subseq qs (concat (map enqueued xs))" "snd B' \<le> snd B''" by blast
  have B': "fst B' = fst B \<or> fst B' = fst B @ enqueued x" "snd B \<le> snd B'"
    using spec_run_Cons.hyps(1) by (auto simp: snd_spec_def split: prod.splits)
  have "subseq qs (concat (map enqueued (x # xs)))" "subseq (enqueued x @ qs) (concat (map enqueued (x # xs)))"
    using qs(2) by (auto intro: list_emb_append2 list_emb_append_mono)
  then show ?case using qs B' by fastforce
qed auto

lemma fresh_sender:
  assumes "snd_nxt c = iss + 1" "snd_una c = iss" "0 < snd_max c" "snd_max c \<le> 0xffff"
  shows "sender iss [] 0 0 (init_swnd c)"
proof -
  have len: "unat (snd_max c * 4) = 4 * unat (snd_max c)"
  proof -
    have "unat (snd_max c) * 4 < 2 ^ 32" using assms(4) by (simp add: word_le_nat_alt)
    then show ?thesis by (simp add: unat_word_ariths)
  qed
  have "0 < unat (snd_max c)" using assms(3) by (simp add: word_less_nat_alt)
  then show ?thesis using assms
    by (simp add: sender_def sender_ok_def init_swnd_def len)
qed

lemma sender_run:
  assumes "snd_nxt c = iss + 1" "snd_una c = iss" "0 < snd_max c" "snd_max c \<le> 0xffff"
    and "guarded_run (snd_step now) (\<lambda>x s. fair_op x (fst s)) ops (init_swnd c, [])"
  shows "\<exists>c' out ps b n. run_steps (snd_step now) ops (init_swnd c, []) = Some (c', out) \<and>
    subseq ps (concat (map enqueued ops)) \<and> all_carried iss ps out \<and> sender iss ps b n c'"
proof -
  have "snd_rel iss ([], 0) (init_swnd c, [])"
    using fresh_sender [OF assms(1-4)] by (auto simp: snd_rel_def all_carried_def)
  from swnd_sender.run_simulates [OF this assms(5)] obtain c' out ps b n where
    run: "run_steps (snd_step now) ops (init_swnd c, []) = Some (c', out)"
    "spec_run snd_spec ops ([], 0) (ps, b)" "all_carried iss ps out" "sender iss ps b n c'"
    by (auto simp: snd_rel_def)
  moreover have "subseq ps (concat (map enqueued ops))" using snd_spec_run_subseq [OF run(2)] by simp
  ultimately show ?thesis by blast
qed


text \<open>A three-byte buffer as \<^verbatim>\<open>rdp::send\<close> builds it, and an open connection with a peer window of three.\<close>

definition sample_pbuf :: packetbuf where
  "sample_pbuf = pbuf_write 128 [1, 2, 3] (snd (append 3 pbuf_construct))"

definition sample_con :: rdp_con where
  "sample_con = rdp_con_new\<lparr>state := OPEN, snd_iss := 100, snd_nxt := 101, snd_una := 100, snd_max := 3, sbuf_max := 884\<rparr>"


subsection \<open>Peers that break the sender\<close>


text \<open>
  A peer that announces a window of zero segments in its SYN makes the first
  acknowledgement take a remainder by the window length zero; one that announces a window
  of one segment is never sent anything, however much is enqueued.
\<close>

lemma degenerate_peer_windows:
  "(snd_max c = 0 \<longrightarrow> recv_ack now acknum (init_swnd c) = None) \<and>
   (sender iss ps b n c \<and> snd_max c = 1 \<and> state c = OPEN \<and> 20 \<le> m_head pb \<and> 0 \<le> m_len pb \<and>
      m_swnd_used c < m_swnd_len c \<longrightarrow>
    (\<exists>c'. enqueue_swnd now pb c = Some (True, c', []) \<and> sender iss (ps @ [pbuf_bytes pb]) b 0 c'))"
proof (intro conjI impI)
  assume "snd_max c = 0"
  then show "recv_ack now acknum (init_swnd c) = None"
    by (simp add: recv_ack_def init_swnd_def send_ostand_swnd_def)
next
  assume a: "sender iss ps b n c \<and> snd_max c = 1 \<and> state c = OPEN \<and> 20 \<le> m_head pb \<and> 0 \<le> m_len pb \<and>
      m_swnd_used c < m_swnd_len c"
  then have "sender iss ps b n c" "snd_max c = 1" by simp_all
  moreover from this have "n < unat (snd_max c)" unfolding sender_def sender_ok_def by blast
  ultimately have "n = 0" by simp
  then show "\<exists>c'. enqueue_swnd now pb c = Some (True, c', []) \<and> sender iss (ps @ [pbuf_bytes pb]) b 0 c'"
    using enqueue_spec [of iss ps b n c pb now] a by auto
qed

lemma degenerate_peer_windows_witness:
  "recv_ack 0 5 (init_swnd (sample_con\<lparr>snd_max := 0\<rparr>)) = None \<and>
   (\<exists>c'. enqueue_swnd 0 sample_pbuf (init_swnd (sample_con\<lparr>snd_max := 1\<rparr>)) = Some (True, c', []))"
proof -
  let ?c = "init_swnd (sample_con\<lparr>snd_max := 1\<rparr>)"
  have "sender 100 [] 0 0 ?c" by (rule fresh_sender) (simp_all add: sample_con_def)
  moreover have "snd_max ?c = 1" "state ?c = OPEN" "20 \<le> m_head sample_pbuf" "0 \<le> m_len sample_pbuf"
    "m_swnd_used ?c < m_swnd_len ?c"
    by code_simp+
  ultimately show ?thesis
    using degenerate_peer_windows [of "sample_con\<lparr>snd_max := 0\<rparr>" 0 5]
      degenerate_peer_windows [of ?c 0 5 100 "[]" 0 0 sample_pbuf] by auto
qed

end
