(* ===== verification/Rdp_Stream.thy ===== *)
theory Rdp_Stream
  imports Rdp_Rwnd Rdp_Swnd
begin

section \<open>End to end: the receiver's bytes are a prefix of the sender's\<close>

text \<open>
  The two window theories put together over a network that may lose, repeat and reorder
  segments.  \<open>recv_packet\<close> is what \<^verbatim>\<open>rdp::in_state_open\<close> does with a data segment: it
  takes the sequence number from the header and removes \<^verbatim>\<open>2 * hlen\<close> bytes.
\<close>

definition recv_packet :: "int \<Rightarrow> packetbuf \<Rightarrow> rdp_con \<Rightarrow> rdp_con option" where
  "recv_packet usec p c = map_option fst
     (rwnd_recv_data usec (rm_head (int (unat (ucast (h_hlen (read_head p)) * 2 :: u16))) p) (h_seqnum (read_head p)) c)"

lemma run_steps_map:
  "(\<And>a s. a \<in> set as \<Longrightarrow> f a s = g (h a) s) \<Longrightarrow> run_steps f as s = run_steps g (map h as) s"
proof (induction as arbitrary: s)
  case (Cons a as)
  then have "f a s = g (h a) s" by simp
  then show ?case using Cons by (auto split: option.splits)
qed simp

lemma carries_payload:
  assumes "carries iss ps j p"
  shows "pbuf_bytes (rm_head 20 p) = ps ! j"
    and "recv_packet usec p c = recv_segment usec iss (j, rm_head 20 p) c"
  using assms by (simp_all add: carries_def pbuf_bytes_def rm_head_def recv_packet_def recv_segment_def pbuf_read_def)

lemma concat_payloads: "concat (payloads d n) = concat (map d [0..<n])"
  by (induction n) (auto simp: payloads_def)

lemma delivered_prefix:
  assumes sent: "\<forall>p \<in> set arrivals. \<exists>j < length ps. carries (rcv_cur c) ps j p" and "length ps \<le> 2 ^ 31"
    and fresh: "rcv_max c = rcv_max_default" "rqueue c = []"
  shows "\<exists>c' n. run_steps (recv_packet usec) arrivals (init_rwnd c) = Some c' \<and> n \<le> length ps \<and>
    concat (map pbuf_bytes (rqueue c')) = concat (take n ps) \<and> rcv_cur c' = rcv_cur c + of_nat n"
proof -
  obtain j where j: "\<And>p. p \<in> set arrivals \<Longrightarrow> j p < length ps \<and> carries (rcv_cur c) ps (j p) p"
    using sent by metis
  define as where "as = map (\<lambda>p. (j p, rm_head 20 p)) arrivals"
  have run: "run_steps (recv_packet usec) arrivals s = run_steps (recv_segment usec (rcv_cur c)) as s" for s
    unfolding as_def using carries_payload(2) j by (intro run_steps_map) blast
  have idx: "fst ` set as \<subseteq> {..<length ps}" using j by (auto simp: as_def)
  have "fst ` set as \<subseteq> {..<2 ^ 31}" using idx assms(2) by fastforce
  moreover have "\<forall>p \<in> set arrivals. pbuf_bytes (rm_head 20 p) = ps ! j p" using carries_payload(1) j by blast
  then have "\<forall>a \<in> set as. pbuf_bytes (snd a) = ps ! fst a" by (simp add: as_def)
  ultimately obtain c' n where c': "run_steps (recv_segment usec (rcv_cur c)) as (init_rwnd c) = Some c'"
    "map pbuf_bytes (rqueue c') = payloads (\<lambda>i. ps ! i) n" "rcv_cur c' = rcv_cur c + of_nat n" "{..<n} \<subseteq> fst ` set as"
    using fresh_window_delivery [OF fresh, of as "\<lambda>i. ps ! i" usec] by blast
  have n: "n \<le> length ps" using c'(4) idx by (meson lessThan_subset_iff order_trans)
  then have "map ((!) ps) [0..<n] = take n ps" by (intro nth_equalityI) auto
  then have "concat (map pbuf_bytes (rqueue c')) = concat (take n ps)" using c'(2) by (simp add: concat_payloads)
  then show ?thesis using c'(1,3) n run by auto
qed

lemma enqueued_length: "length (concat (map enqueued ops)) \<le> length ops"
proof (induction ops)
  case (Cons x ops)
  then show ?case by (cases x) (simp_all add: enqueued_def)
qed simp



end
