(* ===== verification/Ordmap.thy ===== *)
theory Ordmap
  imports Prelude
begin

section \<open>Ordered maps (std::map) as sorted association lists\<close>

text \<open>
  \<^verbatim>\<open>std::map\<close> and \<^verbatim>\<open>std::set\<close> are iterated in key order, and iterators survive the
  insertion and erasure of other keys.  A map is a list of key-value pairs sorted by key;
  \<open>ord_first\<close> is \<^verbatim>\<open>begin()\<close> and \<open>ord_next m k\<close> the iterator after \<open>k\<close>
  (\<open>None\<close> is \<^verbatim>\<open>end()\<close>).  The laws a client relies on are the locale \<open>finite_map\<close>.
\<close>

fun ord_ins :: "'k :: linorder \<Rightarrow> 'v \<Rightarrow> ('k \<times> 'v) list \<Rightarrow> ('k \<times> 'v) list" where
  "ord_ins k v [] = [(k, v)]"
| "ord_ins k v ((k', v') # m) =
     (if k < k' then (k, v) # (k', v') # m else if k = k' then (k, v) # m else (k', v') # ord_ins k v m)"

fun ord_del :: "'k :: linorder \<Rightarrow> ('k \<times> 'v) list \<Rightarrow> ('k \<times> 'v) list" where
  "ord_del k [] = []"
| "ord_del k ((k', v') # m) = (if k = k' then m else (k', v') # ord_del k m)"

definition ord_find :: "('k :: linorder \<times> 'v) list \<Rightarrow> 'k \<Rightarrow> 'v option" where
  "ord_find m k = map_of m k"

definition ord_first :: "('k :: linorder \<times> 'v) list \<Rightarrow> 'k option" where
  "ord_first m = (case m of [] \<Rightarrow> None | (k, v) # m' \<Rightarrow> Some k)"

definition ord_next :: "('k :: linorder \<times> 'v) list \<Rightarrow> 'k \<Rightarrow> 'k option" where
  "ord_next m k = ord_first (filter (\<lambda>p. k < fst p) m)"

definition ord_wf :: "('k :: linorder \<times> 'v) list \<Rightarrow> bool" where
  "ord_wf m \<longleftrightarrow> sorted_wrt (<) (map fst m)"

locale finite_map =
  fixes find :: "'m \<Rightarrow> 'k \<Rightarrow> 'v option" and ins :: "'k \<Rightarrow> 'v \<Rightarrow> 'm \<Rightarrow> 'm" and del :: "'k \<Rightarrow> 'm \<Rightarrow> 'm"
    and wf :: "'m \<Rightarrow> bool" and emp :: 'm
  assumes find_empty: "find emp k = None"
    and find_ins: "wf m \<Longrightarrow> find (ins k v m) j = (if j = k then Some v else find m j)"
    and find_del: "wf m \<Longrightarrow> find (del k m) j = (if j = k then None else find m j)"
    and wf_empty: "wf emp" and wf_ins: "wf m \<Longrightarrow> wf (ins k v m)" and wf_del: "wf m \<Longrightarrow> wf (del k m)"
begin

lemma find_ins_same: "wf m \<Longrightarrow> find (ins k v m) k = Some v"
  by (simp add: find_ins)

lemma find_del_ins: "wf m \<Longrightarrow> find m k = None \<Longrightarrow> find (del k (ins k v m)) j = find m j"
  by (simp add: find_ins find_del wf_ins)

lemma ins_dom: "wf m \<Longrightarrow> {j. find (ins k v m) j \<noteq> None} = insert k {j. find m j \<noteq> None}"
  by (auto simp: find_ins)

lemma del_dom: "wf m \<Longrightarrow> {j. find (del k m) j \<noteq> None} = {j. find m j \<noteq> None} - {k}"
  by (auto simp: find_del)

end

lemma set_keys_ord_ins: "fst ` set (ord_ins k v m) = insert k (fst ` set m)"
  by (induction k v m rule: ord_ins.induct) auto

lemma set_ord_del_subset: "set (ord_del k m) \<subseteq> set m"
  by (induction k m rule: ord_del.induct) auto

lemma ord_wf_Cons: "ord_wf ((k, v) # m) \<longleftrightarrow> (\<forall>p \<in> set m. k < fst p) \<and> ord_wf m"
  by (auto simp: ord_wf_def)

lemma ord_wf_ins: "ord_wf m \<Longrightarrow> ord_wf (ord_ins k v m)"
proof (induction k v m rule: ord_ins.induct)
  case (2 k v k' v' m)
  have "k' < k \<Longrightarrow> \<forall>p \<in> set (ord_ins k v m). k' < fst p"
    using 2(2) set_keys_ord_ins [of k v m] unfolding ord_wf_Cons by (metis image_eqI imageE insertE)
  then show ?case using 2 by (auto simp: ord_wf_Cons)
qed (simp add: ord_wf_def)

lemma ord_wf_del: "ord_wf m \<Longrightarrow> ord_wf (ord_del k m)"
  by (induction k m rule: ord_del.induct) (use set_ord_del_subset in \<open>auto simp: ord_wf_Cons\<close>)

lemma ord_find_ins: "ord_find (ord_ins k v m) j = (if j = k then Some v else ord_find m j)"
  by (induction k v m rule: ord_ins.induct) (auto simp: ord_find_def)

lemma ord_find_del: "ord_wf m \<Longrightarrow> ord_find (ord_del k m) j = (if j = k then None else ord_find m j)"
proof (induction k m rule: ord_del.induct)
  case (2 k k' v' m)
  have "ord_find m k' = None" using 2(2) by (force simp: ord_wf_Cons ord_find_def map_of_eq_None_iff)
  then show ?case using 2 by (auto simp: ord_wf_Cons ord_find_def)
qed (simp add: ord_find_def)

interpretation ordmap: finite_map ord_find ord_ins ord_del ord_wf "[]"
proof
  show "ord_find [] k = None" for k :: 'a by (simp add: ord_find_def)
  show "ord_wf []" by (simp add: ord_wf_def)
qed (simp_all add: ord_find_ins ord_find_del ord_wf_ins ord_wf_del)

lemma ord_next_greater: "ord_next m k = Some j \<Longrightarrow> k < j \<and> ord_find m j \<noteq> None"
proof -
  assume "ord_next m k = Some j"
  then obtain v ms where "filter (\<lambda>p. k < fst p) m = (j, v) # ms"
    by (auto simp: ord_next_def ord_first_def split: list.splits)
  then have "(j, v) \<in> {p \<in> set m. k < fst p}" by (metis list.set_intros(1) set_filter)
  then show ?thesis by (force simp: ord_find_def map_of_eq_None_iff)
qed

lemma ord_first_in: "ord_first m = Some j \<Longrightarrow> ord_find m j \<noteq> None"
  by (auto simp: ord_first_def ord_find_def split: list.splits)

lemma ord_find_in_keys: "ord_find m k \<noteq> None \<longleftrightarrow> k \<in> fst ` set m"
  by (simp add: ord_find_def map_of_eq_None_iff)

end
