(* ===== verification/Rdp.thy ===== *)
theory Rdp
  imports Rdp_Con Ordmap
begin

section \<open>The RDP protocol machine (class rdp)\<close>

text \<open>
  The object \<^verbatim>\<open>rdp\<close> as a record: its tables, the store \<open>heap\<close> of connections that
  \<^verbatim>\<open>m_addr2conn\<close> and \<^verbatim>\<open>m_desc2conn\<close> share by pointer, and what surrounds it: the
  clock in microseconds, the values \<^verbatim>\<open>m_rnd\<close> will return, the segments handed to
  \<^verbatim>\<open>m_output_func\<close> (with their destination), the events signalled so far, and the time
  the timer is set for.  Every operation returns \<open>None\<close> where the code has no defined
  behaviour or waits for more random numbers than the supply holds.

  An application's event callback is code outside this program: the parameter \<open>app\<close>
  gives the calls of the public interface a callback makes when it is invoked.
\<close>

datatype api_call =
    ApiListen u16 nat
  | ApiConnect u16 uint160 u16 nat
  | ApiClose int
  | ApiSend int "u8 list"
  | ApiReceive int int
  | ApiSetCallback int nat
  | ApiSetMaxRetrans int

record rdp =
  m_desc_set :: "int set"
  m_listening :: "(u16 \<times> int) list"
  m_addr2conn :: "rdp_addr \<rightharpoonup> nat"
  m_desc2conn :: "(int \<times> nat) list"
  m_desc2event :: "int \<rightharpoonup> nat"
  m_max_retrans :: int
  m_is_invoke :: bool
  m_desc_closed :: "int list"
  heap :: "nat \<Rightarrow> rdp_con"
  next_ptr :: nat
  clock :: int
  rnds :: "u32 list"
  out :: "(uint160 \<times> packetbuf) list"
  events :: "(int \<times> rdp_addr \<times> rdp_event) list"
  m_timer :: "int option"

type_synonym app = "nat \<Rightarrow> int \<Rightarrow> rdp_addr \<Rightarrow> rdp_event \<Rightarrow> rdp \<Rightarrow> api_call list"

definition now :: "rdp \<Rightarrow> int" where
  "now s = clock s div 1000000"

text \<open>Constructor and destructor.\<close>

definition rdp_init :: "u32 list \<Rightarrow> int \<Rightarrow> rdp" where
  "rdp_init rs t = \<lparr>m_desc_set = {}, m_listening = [], m_addr2conn = Map.empty, m_desc2conn = [],
     m_desc2event = Map.empty, m_max_retrans = 32, m_is_invoke = False, m_desc_closed = [],
     heap = (\<lambda>_. rdp_con_new), next_ptr = 0, clock = t, rnds = rs, out = [], events = [],
     m_timer = Some (t + timer_rdp_usec)\<rparr>"

definition rdp_destroy :: "rdp \<Rightarrow> rdp" where
  "rdp_destroy s = s\<lparr>m_timer := None\<rparr>"

definition rdp_output :: "uint160 \<Rightarrow> packetbuf \<Rightarrow> rdp \<Rightarrow> rdp" where
  "rdp_output dst pb s = s\<lparr>out := out s @ [(dst, pb)]\<rparr>"

definition upd_con :: "nat \<Rightarrow> (rdp_con \<Rightarrow> rdp_con) \<Rightarrow> rdp \<Rightarrow> rdp" where
  "upd_con p f s = s\<lparr>heap := (heap s)(p := f (heap s p))\<rparr>"

text \<open>A connection operation run on the object \<open>p\<close> points to; its segments go to the peer.\<close>

definition put_con :: "nat \<Rightarrow> rdp_con \<Rightarrow> packetbuf list \<Rightarrow> rdp \<Rightarrow> rdp" where
  "put_con p c outs s =
     s\<lparr>heap := (heap s)(p := c), out := out s @ map (Pair (did (addr c))) outs\<rparr>"

definition on_con :: "nat \<Rightarrow> (rdp_con \<Rightarrow> (rdp_con \<times> packetbuf list) option) \<Rightarrow> rdp \<Rightarrow> rdp option" where
  "on_con p f s = do { (c, outs) \<leftarrow> f (heap s p); Some (put_con p c outs s) }"

text \<open>The listening bimap: an insertion fails when the port or the descriptor is taken.\<close>

definition listen_left :: "(u16 \<times> int) list \<Rightarrow> u16 \<Rightarrow> int option" where
  "listen_left l port = map_of l port"

definition listen_right :: "(u16 \<times> int) list \<Rightarrow> int \<Rightarrow> u16 option" where
  "listen_right l d = map_of (map (\<lambda>(p, e). (e, p)) l) d"

definition listen_insert :: "u16 \<Rightarrow> int \<Rightarrow> (u16 \<times> int) list \<Rightarrow> (u16 \<times> int) list" where
  "listen_insert port d l =
     (if listen_left l port \<noteq> None \<or> listen_right l d \<noteq> None then l else l @ [(port, d)])"

definition listen_erase :: "int \<Rightarrow> (u16 \<times> int) list \<Rightarrow> (u16 \<times> int) list" where
  "listen_erase d l = filter (\<lambda>(p, e). e \<noteq> d) l"

subsection \<open>Descriptors\<close>

definition get_desc_state :: "int \<Rightarrow> rdp \<Rightarrow> rdp_state" where
  "get_desc_state d s =
     (if d \<notin> m_desc_set s then CLOSED
      else if listen_right (m_listening s) d \<noteq> None then LISTEN
      else case ord_find (m_desc2conn s) d of
             Some p \<Rightarrow> state (heap s p)
           | None \<Rightarrow> CLOSED)"

fun generate_desc_loop :: "int set \<Rightarrow> u32 list \<Rightarrow> (int \<times> u32 list) option" where
  "generate_desc_loop ds [] = None"
| "generate_desc_loop ds (r # rs) =
     (if sint r \<in> ds \<or> sint r \<le> 0 then generate_desc_loop ds rs else Some (sint r, rs))"

definition generate_desc :: "rdp \<Rightarrow> (int \<times> rdp) option" where
  "generate_desc s = do {
     (d, rs) \<leftarrow> generate_desc_loop (m_desc_set s) (rnds s);
     Some (d, s\<lparr>rnds := rs\<rparr>)
   }"

definition m_rnd :: "rdp \<Rightarrow> (u32 \<times> rdp) option" where
  "m_rnd s = (case rnds s of [] \<Rightarrow> None | r # rs \<Rightarrow> Some (r, s\<lparr>rnds := rs\<rparr>))"

text \<open>The four erasures that deallocate a connection.\<close>

definition forget_con :: "int \<Rightarrow> rdp_addr \<Rightarrow> rdp \<Rightarrow> rdp" where
  "forget_con d a s = s\<lparr>m_desc_set := m_desc_set s - {d}, m_desc2event := (m_desc2event s)(d := None),
     m_addr2conn := (m_addr2conn s)(a := None), m_desc2conn := ord_del d (m_desc2conn s)\<rparr>"

text \<open>A new connection object, entered in the tables under its descriptor and address.\<close>

definition add_con :: "int \<Rightarrow> rdp_con \<Rightarrow> rdp \<Rightarrow> rdp" where
  "add_con d c s = (let p = next_ptr s in
     s\<lparr>heap := (heap s)(p := c\<lparr>desc := d\<rparr>), next_ptr := p + 1,
       m_desc_set := insert d (m_desc_set s), m_addr2conn := (m_addr2conn s)(addr c \<mapsto> p),
       m_desc2conn := ord_ins d p (m_desc2conn s)\<rparr>)"

subsection \<open>Interface\<close>

text \<open>\<open>-1\<close> stands for failure, as in the code.\<close>

definition listen :: "u16 \<Rightarrow> nat \<Rightarrow> rdp \<Rightarrow> (int \<times> rdp) option" where
  "listen port func s =
     (if listen_left (m_listening s) port = None then do {
        (d, s) \<leftarrow> generate_desc s;
        Some (d, s\<lparr>m_desc_set := insert d (m_desc_set s),
                   m_listening := listen_insert port d (m_listening s),
                   m_desc2event := (m_desc2event s)(d \<mapsto> func)\<rparr>)
      }
      else Some (-1, s))"

text \<open>
  The ephemeral port of an active open: \<^verbatim>\<open>continue\<close> in a \<^verbatim>\<open>do ... while\<close> goes on to the
  condition, so the test against \<^verbatim>\<open>well_known_port_max\<close> changes nothing.
\<close>

fun connect_port :: "(rdp_addr \<rightharpoonup> nat) \<Rightarrow> uint160 \<Rightarrow> u16 \<Rightarrow> u32 list \<Rightarrow> (u16 \<times> u32 list) option" where
  "connect_port tab dst dp [] = None"
| "connect_port tab dst dp (r # rs) =
     (let port = ucast (r AND 0xffff)
      in if tab \<lparr>did = dst, dport = dp, sport = port\<rparr> \<noteq> None then connect_port tab dst dp rs
         else Some (port, rs))"

definition active_con :: "rdp_addr \<Rightarrow> u32 \<Rightarrow> int \<Rightarrow> rdp_con" where
  "active_con a iss t =
     rdp_con_new\<lparr>addr := a, is_pasv := False, state := SYN_SENT, snd_iss := iss,
       snd_nxt := iss + 1, snd_una := iss, rcv_max := rcv_max_default,
       rbuf_max := rbuf_max_default, is_closed := False, syn_time := t, syn_tout := 1\<rparr>"

definition connect :: "u16 \<Rightarrow> uint160 \<Rightarrow> u16 \<Rightarrow> nat \<Rightarrow> rdp \<Rightarrow> (int \<times> rdp) option" where
  "connect sp dst dp func s =
     (if sp \<noteq> 0 \<and> m_addr2conn s \<lparr>did = dst, dport = dp, sport = sp\<rparr> \<noteq> None then Some (-1, s)
      else do {
        (port, rs) \<leftarrow> (if sp \<noteq> 0 then Some (sp, rnds s) else connect_port (m_addr2conn s) dst dp (rnds s));
        let s = s\<lparr>rnds := rs\<rparr>;
        let a = \<lparr>did = dst, dport = dp, sport = port\<rparr>;
        (iss, s) \<leftarrow> m_rnd s;
        let c = active_con a iss (now s);
        (d, s) \<leftarrow> generate_desc s;
        let s = (add_con d c s)\<lparr>m_desc2event := (m_desc2event s)(d \<mapsto> func)\<rparr>;
        Some (d, rdp_output dst (syn_seg (flag_syn OR flag_ver) a iss 0 rcv_max_default rbuf_max_default) s)
      })"

definition close :: "int \<Rightarrow> rdp \<Rightarrow> rdp option" where
  "close d s =
     (if listen_right (m_listening s) d \<noteq> None then Some (s\<lparr>m_listening := listen_erase d (m_listening s)\<rparr>)
      else case ord_find (m_desc2conn s) d of
        None \<Rightarrow> Some s
      | Some p \<Rightarrow>
          (case state (heap s p) of
             OPEN \<Rightarrow> do {
               s \<leftarrow> on_con p (delayed_ack (clock s)) s;
               let s = upd_con p (\<lambda>c. c\<lparr>state := CLOSE_WAIT_ACTIVE, is_closed := True, rst_time := now s,
                                        rst_tout := 1, is_retry_rst := True\<rparr>) s;
               let c = heap s p;
               Some (rdp_output (did (addr c)) (ctl_seg (flag_rst OR flag_ver) (addr c) (snd_nxt c) 0) s)
             }
           | CLOSE_WAIT_PASV \<Rightarrow> Some (upd_con p (\<lambda>c. c\<lparr>is_closed := True\<rparr>) s)
           | CLOSED \<Rightarrow>
               if \<not> m_is_invoke s then Some (forget_con d (addr (heap s p)) s)
               else Some (s\<lparr>m_desc_closed := insort_insert d (m_desc_closed s)\<rparr>)
           | SYN_SENT \<Rightarrow>
               let c = heap s p;
                   s = upd_con p (\<lambda>c. c\<lparr>state := CLOSED\<rparr>) s;
                   s = rdp_output (did (addr c)) (ctl_seg (flag_rst OR flag_ver) (addr c) (snd_nxt c) 0) s
               in if \<not> m_is_invoke s then Some (forget_con d (addr c) s)
                  else Some (s\<lparr>m_desc_closed := insort_insert d (m_desc_closed s)\<rparr>)
           | SYN_RCVD \<Rightarrow>
               let c = heap s p;
                   s = upd_con p (\<lambda>c. c\<lparr>state := CLOSED\<rparr>) s;
                   s = rdp_output (did (addr c)) (ctl_seg (flag_rst OR flag_ver) (addr c) (snd_nxt c) 0) s
               in if \<not> m_is_invoke s then Some (forget_con d (addr c) s)
                  else Some (s\<lparr>m_desc_closed := insort_insert d (m_desc_closed s)\<rparr>)
           | _ \<Rightarrow> Some s))"

text \<open>
  \<^verbatim>\<open>send\<close>: segments of at most \<^verbatim>\<open>sbuf_max\<close> less the header, until the window is full.
  A negative segment size makes \<^verbatim>\<open>memcpy\<close> run over the buffer.
\<close>

fun send_loop :: "nat \<Rightarrow> nat \<Rightarrow> u8 list \<Rightarrow> int \<Rightarrow> rdp \<Rightarrow> (int \<times> rdp) option" where
  "send_loop 0 p buf tot s = None"
| "send_loop (Suc fuel) p buf tot s = (
     let len = int (length buf);
         dmax = sint (sbuf_max (heap s p) - 20);
         size = (if len < dmax then len else dmax) in
     if size < 0 then None
     else do {
       let (off, pb) = append size pbuf_construct;
       off \<leftarrow> off;
       let pb = pbuf_write off (take (nat size) buf) pb;
       (ok, c, outs) \<leftarrow> enqueue_swnd (now s) pb (heap s p);
       let s = put_con p c outs s;
       if \<not> ok then Some (tot, s)
       else if len - size = 0 then Some (tot + size, s)
       else send_loop fuel p (drop (nat size) buf) (tot + size) s
     })"

definition send :: "int \<Rightarrow> u8 list \<Rightarrow> rdp \<Rightarrow> (int \<times> rdp) option" where
  "send d buf s =
     (case ord_find (m_desc2conn s) d of
        None \<Rightarrow> Some (-1, s)
      | Some p \<Rightarrow>
          if state (heap s p) \<noteq> OPEN then Some (-1, s)
          else if buf = [] then Some (0, s)
          else send_loop (Suc (m_swnd_len (heap s p))) p buf 0 s)"

text \<open>\<^verbatim>\<open>receive\<close>: whole segments from the read queue while they fit.\<close>

fun receive_loop :: "packetbuf list \<Rightarrow> int \<Rightarrow> u8 list \<Rightarrow> u8 list \<times> packetbuf list" where
  "receive_loop [] len acc = (acc, [])"
| "receive_loop (pb # q) len acc =
     (if int (length acc) + m_len pb > len then (acc, pb # q)
      else receive_loop q len (acc @ pbuf_bytes pb))"

definition receive :: "int \<Rightarrow> int \<Rightarrow> rdp \<Rightarrow> u8 list \<times> rdp" where
  "receive d len s =
     (case ord_find (m_desc2conn s) d of
        None \<Rightarrow> ([], s)
      | Some p \<Rightarrow>
          let (bytes, q) = receive_loop (rqueue (heap s p)) len []
          in (bytes, upd_con p (\<lambda>c. c\<lparr>rqueue := q\<rparr>) s))"

definition set_callback_rdp_event :: "int \<Rightarrow> nat \<Rightarrow> rdp \<Rightarrow> rdp" where
  "set_callback_rdp_event d func s =
     (if d \<notin> m_desc_set s then s else s\<lparr>m_desc2event := (m_desc2event s)(d \<mapsto> func)\<rparr>)"

definition set_max_retrans :: "int \<Rightarrow> rdp \<Rightarrow> rdp" where
  "set_max_retrans sec s = s\<lparr>m_max_retrans := sec\<rparr>"

definition get_max_retrans :: "rdp \<Rightarrow> int" where
  "get_max_retrans s = m_max_retrans s"

definition status_of :: "rdp \<Rightarrow> int \<Rightarrow> rdp_status list" where
  "status_of s d =
     (case listen_right (m_listening s) d of
        Some port \<Rightarrow> [\<lparr>st_state = LISTEN, st_did = bn_fill_zero 5, st_dport = 0, st_sport = port\<rparr>]
      | None \<Rightarrow>
          (case ord_find (m_desc2conn s) d of
             Some p \<Rightarrow> [\<lparr>st_state = state (heap s p), st_did = did (addr (heap s p)),
                         st_dport = dport (addr (heap s p)), st_sport = sport (addr (heap s p))\<rparr>]
           | None \<Rightarrow> []))"

definition get_status :: "rdp \<Rightarrow> rdp_status list" where
  "get_status s = concat (map (status_of s) (sorted_list_of_set (m_desc_set s)))"

subsection \<open>Events\<close>

text \<open>One call an application makes; results are left to the application.\<close>

fun api :: "api_call \<Rightarrow> rdp \<Rightarrow> rdp option" where
  "api (ApiListen port func) s = map_option snd (listen port func s)"
| "api (ApiConnect sp dst dp func) s = map_option snd (connect sp dst dp func s)"
| "api (ApiClose d) s = close d s"
| "api (ApiSend d buf) s = map_option snd (send d buf s)"
| "api (ApiReceive d len) s = Some (snd (receive d len s))"
| "api (ApiSetCallback d func) s = Some (set_callback_rdp_event d func s)"
| "api (ApiSetMaxRetrans sec) s = Some (set_max_retrans sec s)"

definition call_app :: "app \<Rightarrow> nat \<Rightarrow> int \<Rightarrow> rdp_addr \<Rightarrow> rdp_event \<Rightarrow> rdp \<Rightarrow> rdp option" where
  "call_app app cb d a ev s =
     (let s = s\<lparr>events := events s @ [(d, a, ev)]\<rparr> in run_steps api (app cb d a ev s) s)"

definition invoke_event :: "app \<Rightarrow> int \<Rightarrow> int \<Rightarrow> rdp_addr \<Rightarrow> rdp_event \<Rightarrow> rdp \<Rightarrow> rdp option" where
  "invoke_event app desc1 desc2 a ev s =
     (case m_desc2event s desc1 of
        None \<Rightarrow> Some s
      | Some cb \<Rightarrow>
          if desc2 > 0 then do {
            s \<leftarrow> call_app app cb desc2 a ev s;
            if ev = ACCEPTED \<and> m_desc2event s desc2 = None then do {
              cb \<leftarrow> m_desc2event s desc1;
              Some (s\<lparr>m_desc2event := (m_desc2event s)(desc2 \<mapsto> cb)\<rparr>)
            }
            else Some s
          }
          else do {
            s \<leftarrow> call_app app cb desc1 a ev (s\<lparr>m_is_invoke := True\<rparr>);
            let s = s\<lparr>m_is_invoke := False\<rparr>;
            s \<leftarrow> run_steps close (m_desc_closed s) s;
            Some (s\<lparr>m_desc_closed := []\<rparr>)
          })"

subsection \<open>Segments in each state\<close>

definition in_state_close_wait_active :: "nat \<Rightarrow> rdp_addr \<Rightarrow> packetbuf \<Rightarrow> rdp \<Rightarrow> rdp option" where
  "in_state_close_wait_active p a pb s =
     (let h = read_head pb; c = heap s p in
      if has_flag h flag_rst \<and> has_flag h flag_fin then
        Some (rdp_output (did (addr c)) (ctl_seg (flag_fin OR flag_ver) a (snd_nxt c) 0)
                (upd_con p (\<lambda>c. c\<lparr>is_retry_rst := False\<rparr>) s))
      else if has_flag h flag_ack then
        Some (rdp_output (did a) (ctl_seg (flag_rst OR flag_ver) a (snd_nxt c) 0)
                (upd_con p (\<lambda>c. c\<lparr>rst_time := now s\<rparr>) s))
      else Some s)"

definition in_state_close_wait_pasv :: "nat \<Rightarrow> rdp_addr \<Rightarrow> packetbuf \<Rightarrow> rdp \<Rightarrow> rdp option" where
  "in_state_close_wait_pasv p a pb s =
     (let h = read_head pb; c = heap s p in
      if has_flag h flag_fin then Some (upd_con p (\<lambda>c. c\<lparr>is_retry_rst := False\<rparr>) s)
      else if has_flag h flag_rst then
        Some (rdp_output (did (addr c)) (ctl_seg (flag_rst OR flag_fin OR flag_ver) a (snd_nxt c) 0)
                (upd_con p (\<lambda>c. c\<lparr>rst_time := now s\<rparr>) s))
      else Some s)"

definition in_state_closed :: "rdp_addr \<Rightarrow> packetbuf \<Rightarrow> rdp \<Rightarrow> rdp option" where
  "in_state_closed a pb s =
     (let h = read_head pb in
      if has_flag h flag_rst then Some s
      else if has_flag h flag_ack \<or> has_flag h flag_nul then
        Some (rdp_output (did a) (ctl_seg (flag_rst OR flag_ver) a (h_acknum h + 1) 0) s)
      else Some (rdp_output (did a) (ctl_seg (flag_rst OR flag_ack OR flag_ver) a 0 (h_seqnum h)) s))"

text \<open>The limit of \<^verbatim>\<open>sbuf_max\<close> that both ends of the handshake apply.\<close>

definition limit_sbuf :: "u16 \<Rightarrow> u32" where
  "limit_sbuf bmax = (if ucast bmax > sbuf_limit then sbuf_limit else ucast bmax)"

text \<open>What a SYN tells about the peer, and the windows it opens.\<close>

definition take_syn :: "packetbuf \<Rightarrow> rdp_con \<Rightarrow> rdp_con" where
  "take_syn pb c =
     (let h = read_head pb; (segs, size) = read_syn pb
      in init_rwnd (init_swnd (c\<lparr>rcv_cur := h_seqnum h, rcv_irs := h_seqnum h, rcv_ack := h_seqnum h,
           snd_max := ucast segs, sbuf_max := limit_sbuf size\<rparr>)))"

definition passive_con :: "rdp_addr \<Rightarrow> packetbuf \<Rightarrow> u32 \<Rightarrow> int \<Rightarrow> int \<Rightarrow> rdp_con" where
  "passive_con a pb iss t usec =
     (take_syn pb (rdp_con_new\<lparr>addr := a, is_pasv := True, state := SYN_RCVD, snd_iss := iss,
        snd_nxt := iss + 1, snd_una := iss, rcv_max := rcv_max_default,
        rbuf_max := rbuf_max_default, is_closed := False\<rparr>))
       \<lparr>syn_time := t, syn_tout := 1, acked_time := usec\<rparr>"

definition in_state_listen :: "rdp_addr \<Rightarrow> packetbuf \<Rightarrow> rdp \<Rightarrow> rdp option" where
  "in_state_listen a pb s =
     (let h = read_head pb in
      if has_flag h flag_rst then Some s
      else if has_flag h flag_ack \<or> has_flag h flag_nul then
        Some (rdp_output (did a) (ctl_seg (flag_rst OR flag_ver) a (h_acknum h + 1) 0) s)
      else if has_flag h flag_syn then
        if m_len pb < 24 then Some s
        else do {
          (iss, s) \<leftarrow> m_rnd s;
          let c = passive_con a pb iss (now s) (clock s);
          (d, s) \<leftarrow> generate_desc s;
          Some (rdp_output (did a) (syn_seg (flag_syn OR flag_ack OR flag_ver) a iss (h_seqnum h)
                  rcv_max_default rbuf_max_default) (add_con d c s))
        }
      else Some s)"

definition in_state_syn_sent :: "app \<Rightarrow> nat \<Rightarrow> rdp_addr \<Rightarrow> packetbuf \<Rightarrow> rdp \<Rightarrow> rdp option" where
  "in_state_syn_sent app p a pb s =
     (let h = read_head pb; c = heap s p in
      if has_flag h flag_ack \<and> \<not> has_flag h flag_rst \<and> h_acknum h \<noteq> snd_iss c then
        Some (rdp_output (did a) (ctl_seg (flag_rst OR flag_ver) a (h_acknum h + 1) 0) s)
      else if has_flag h flag_rst then
        if has_flag h flag_ack then
          invoke_event app (desc c) 0 a REFUSED (upd_con p (\<lambda>c. c\<lparr>state := CLOSED\<rparr>) s)
        else Some s
      else if has_flag h flag_syn then
        if m_len pb < 24 then Some s
        else
          let c = (take_syn pb c)\<lparr>acked_time := clock s\<rparr>
          in if has_flag h flag_ack then
               (let c = c\<lparr>snd_una := h_acknum h, state := OPEN\<rparr>;
                    s = put_con p c [] s;
                    s = rdp_output (did a) (ctl_seg (flag_ack OR flag_ver) a (snd_nxt c) (rcv_cur c)) s
                in invoke_event app (desc c) 0 a CONNECTED s)
             else
               (let c = c\<lparr>state := SYN_RCVD, syn_time := now s, syn_tout := 1\<rparr>;
                    s = put_con p c [] s
                in Some (rdp_output (did a) (syn_seg (flag_syn OR flag_ack OR flag_ver) a (snd_iss c) (rcv_cur c)
                           (rcv_max c) (rbuf_max c)) s))
      else Some s)"

text \<open>
  Data in a segment for an open connection: the payload behind the header goes to the
  receive window, and the user is told when there is something to read.
\<close>

definition deliver :: "app \<Rightarrow> nat \<Rightarrow> rdp_addr \<Rightarrow> int \<Rightarrow> packetbuf \<Rightarrow> u32 \<Rightarrow> rdp \<Rightarrow> rdp option" where
  "deliver app p a hlen pb seq s = do {
     s \<leftarrow> on_con p (rwnd_recv_data (clock s) (rm_head hlen pb) seq) s;
     if rqueue (heap s p) \<noteq> [] then invoke_event app (desc (heap s p)) 0 a READY2READ s
     else Some s
   }"

text \<open>The acknowledgement that completes a handshake, with the data the segment may carry.\<close>

definition syn_rcvd_acked :: "app \<Rightarrow> nat \<Rightarrow> rdp_addr \<Rightarrow> packetbuf \<Rightarrow> rdp \<Rightarrow> rdp option" where
  "syn_rcvd_acked app p a pb s = (
     let h = read_head pb; c = heap s p; s = upd_con p (\<lambda>c. c\<lparr>state := OPEN\<rparr>) s in
     if is_pasv c \<and> listen_left (m_listening s) (sport a) = None then close (desc c) s
     else do {
       s \<leftarrow> (case listen_left (m_listening s) (sport a) of
               Some l \<Rightarrow> if is_pasv c then invoke_event app l (desc c) a ACCEPTED s else Some s
             | None \<Rightarrow> Some s);
       if m_len pb - 20 > 0 \<or> has_flag h flag_nul then
         if int (unat (h_dlen h)) + 20 \<noteq> m_len pb then Some s
         else if has_flag h flag_nul \<and> h_dlen h > 0 then Some s
         else deliver app p a 20 pb (h_seqnum h) s
       else Some s
     })"

definition in_state_syn_rcvd :: "app \<Rightarrow> nat \<Rightarrow> rdp_addr \<Rightarrow> packetbuf \<Rightarrow> rdp \<Rightarrow> rdp option" where
  "in_state_syn_rcvd app p a pb s =
     (let h = read_head pb; c = heap s p; seq = h_seqnum h;
          seq_irs = seq - rcv_irs c; rcv_max2 = rcv_cur c + rcv_max c * 2 - rcv_irs c in
      if has_flag h flag_syn \<and> seq = rcv_cur c then
        Some (rdp_output (did a) (syn_seg (flag_ack OR flag_syn OR flag_ver) a (snd_iss c) 0 (rcv_max c) (rbuf_max c))
                (upd_con p (\<lambda>c. c\<lparr>syn_time := now s\<rparr>) s))
      else if \<not> (0 < seq_irs \<and> seq_irs \<le> rcv_max2) then
        Some (rdp_output (did a) (ctl_seg (flag_ack OR flag_ver) a (snd_nxt c) (rcv_cur c))
                (upd_con p (\<lambda>c. c\<lparr>rcv_ack := rcv_cur c, acked_time := clock s\<rparr>) s))
      else if has_flag h flag_rst then
        if is_pasv c then Some (forget_con (desc c) (addr c) s)
        else invoke_event app (desc c) 0 a REFUSED (upd_con p (\<lambda>c. c\<lparr>state := CLOSED\<rparr>) s)
      else if has_flag h flag_syn then do {
        s \<leftarrow> (if is_pasv c then Some (forget_con (desc c) (addr c) s)
              else invoke_event app (desc c) 0 a RESET (upd_con p (\<lambda>c. c\<lparr>state := CLOSED\<rparr>) s));
        Some (rdp_output (did a) (ctl_seg (flag_rst OR flag_ver) a (h_acknum h + 1) 0) s)
      }
      else if has_flag h flag_eak then
        (let acknum = ucast (h_acknum h) :: u8
         in Some (rdp_output (did a) (ctl_seg (flag_rst OR flag_ver) a (ucast acknum + 1) 0) s))
      else if has_flag h flag_ack then
        if h_acknum h = snd_iss c then syn_rcvd_acked app p a pb s
        else Some (rdp_output (did a) (ctl_seg (flag_rst OR flag_ver) a (h_acknum h + 1) 0) s)
      else Some s)"

text \<open>
  The extended acknowledgements of a segment: their number is taken from the header length,
  an 8-bit count that wraps around, without regard to the length of the segment.
\<close>

definition eack_count :: "rdp_head \<Rightarrow> nat" where
  "eack_count h = unat (h_hlen h - 10) div 2"

definition eack_nums :: "packetbuf \<Rightarrow> rdp_head \<Rightarrow> u32 list" where
  "eack_nums pb h = map (\<lambda>i. ntohl_bytes (pbuf_read pb (m_head pb + 20 + 4 * int i) 4)) [0..<eack_count h]"

definition in_state_open :: "app \<Rightarrow> nat \<Rightarrow> rdp_addr \<Rightarrow> packetbuf \<Rightarrow> rdp \<Rightarrow> rdp option" where
  "in_state_open app p a pb s =
     (let h = read_head pb; c = heap s p; seq = h_seqnum h in
      if seq - rcv_cur c - 1 \<ge> rcv_max c * 2 then
        Some (upd_con p (\<lambda>c. c\<lparr>rcv_ack := rcv_cur c, acked_time := clock s\<rparr>)
                (rdp_output (did a) (ctl_seg (flag_ack OR flag_ver) a (snd_nxt c) (rcv_cur c)) s))
      else if has_flag h flag_rst then do {
        s \<leftarrow> on_con p (delayed_ack (clock s)) s;
        let s = upd_con p (\<lambda>c. c\<lparr>state := CLOSE_WAIT_PASV, rst_time := now s, rst_tout := 1, is_retry_rst := True\<rparr>) s;
        let s = rdp_output (did a) (ctl_seg (flag_rst OR flag_fin OR flag_ver) a (snd_nxt (heap s p)) 0) s;
        invoke_event app (desc c) 0 a RESET s
      }
      else if has_flag h flag_nul then
        if m_len pb \<noteq> 20 then Some s
        else on_con p (rwnd_recv_data (clock s) (rm_head (m_len pb) pb) seq) s
      else if has_flag h flag_syn then do {
        let (off, pb) = append 20 pb;
        off \<leftarrow> off;
        let rst = zero_head\<lparr>h_flags := flag_rst OR flag_ver, h_hlen := 10, h_sport := sport a,
                    h_dport := dport a, h_seqnum := h_acknum h + 1\<rparr>;
        let s = rdp_output (did a) (pbuf_write off (head_bytes rst) pb) s;
        invoke_event app (desc c) 0 a RESET (upd_con p (\<lambda>c. c\<lparr>state := CLOSED\<rparr>) s)
      }
      else do {
        s \<leftarrow> (if has_flag h flag_ack then on_con p (recv_ack (now s) (h_acknum h)) s else Some s);
        s \<leftarrow> (if has_flag h flag_eak then
                if m_head pb + 20 + 4 * int (eack_count h) > PBUF_SIZE then None
                else on_con p (\<lambda>c. map_option (\<lambda>c. (c, [])) (run_steps recv_eack (eack_nums pb h) c)) s
              else Some s);
        let dlen = h_dlen h;
        let hlen = (ucast (h_hlen h) * 2 :: u16);
        if dlen > 0 \<and> int (unat dlen) + int (unat hlen) = m_len pb
        then deliver app p a (int (unat hlen)) pb seq s
        else Some s
      })"

definition input_dgram :: "app \<Rightarrow> uint160 \<Rightarrow> packetbuf \<Rightarrow> rdp \<Rightarrow> rdp option" where
  "input_dgram app src pb s =
     (if m_len pb < 20 then Some s
      else
        let h = read_head pb;
            a = \<lparr>did = src, dport = h_sport h, sport = h_dport h\<rparr>
        in case m_addr2conn s a of
             Some p \<Rightarrow>
               (case state (heap s p) of
                  CLOSE_WAIT_PASV \<Rightarrow> in_state_close_wait_pasv p a pb s
                | CLOSE_WAIT_ACTIVE \<Rightarrow> in_state_close_wait_active p a pb s
                | SYN_SENT \<Rightarrow> in_state_syn_sent app p a pb s
                | SYN_RCVD \<Rightarrow> in_state_syn_rcvd app p a pb s
                | OPEN \<Rightarrow> in_state_open app p a pb s
                | CLOSED \<Rightarrow> in_state_closed a pb s
                | LISTEN \<Rightarrow> Some s)
           | None \<Rightarrow>
               if listen_left (m_listening s) (h_dport h) \<noteq> None then in_state_listen a pb s
               else in_state_closed a pb s)"

subsection \<open>Timer\<close>

text \<open>
  One pass over \<^verbatim>\<open>m_desc2conn\<close>.  \<open>it\<close> is the key the iterator points at.  The code
  advances the iterator before it invokes a callback, so what a callback erases may be the
  very element the iterator points at: the next iteration then has no defined behaviour.
\<close>

definition timer_syn :: "app \<Rightarrow> int \<Rightarrow> nat \<Rightarrow> rdp \<Rightarrow> rdp option" where
  "timer_syn app d p s =
     (let c = heap s p in
      if syn_tout c \<ge> m_max_retrans s then
        if is_pasv c then Some (forget_con d (addr c) s)
        else invoke_event app d 0 (addr c) FAILED (upd_con p (\<lambda>c. c\<lparr>state := CLOSED\<rparr>) s)
      else if now s - syn_time c > syn_tout c then
        (let syn = (if state c = SYN_RCVD
                    then syn_seg (flag_syn OR flag_ver OR flag_ack) (addr c) (snd_iss c) (rcv_cur c) (rcv_max c) (rbuf_max c)
                    else syn_seg (flag_syn OR flag_ver) (addr c) (snd_iss c) 0 (rcv_max c) (rbuf_max c))
         in Some (upd_con p (\<lambda>c. c\<lparr>syn_tout := syn_tout c * 2, syn_time := now s\<rparr>)
                    (rdp_output (did (addr c)) syn s)))
      else Some s)"

definition timer_close_wait :: "int \<Rightarrow> nat \<Rightarrow> rdp \<Rightarrow> rdp option" where
  "timer_close_wait d p s =
     (let c = heap s p in
      if rst_tout c \<ge> m_max_retrans s then
        if is_closed c then Some (forget_con d (addr c) s)
        else Some (upd_con p (\<lambda>c. c\<lparr>state := CLOSED\<rparr>) s)
      else if now s - rst_time c > rst_tout c then
        (let s = upd_con p (\<lambda>c. c\<lparr>rst_tout := rst_tout c * 2, rst_time := now s\<rparr>) s
         in if is_retry_rst c then
              Some (rdp_output (did (addr c))
                (ctl_seg (if state c = CLOSE_WAIT_ACTIVE then flag_rst OR flag_ver else flag_rst OR flag_fin OR flag_ver)
                   (addr c) (snd_nxt c) 0) s)
            else Some s)
      else Some s)"

definition timer_open :: "app \<Rightarrow> nat \<Rightarrow> rdp \<Rightarrow> rdp option" where
  "timer_open app p s = do {
     (ok, c, outs) \<leftarrow> retransmit (m_max_retrans s) (now s) (heap s p);
     let s = put_con p c outs s;
     if \<not> ok then invoke_event app (desc c) 0 (addr c) BROKEN s
     else if clock s - acked_time c > ack_interval_usec then on_con p (delayed_ack (clock s)) s
     else Some s
   }"

definition timer_con :: "app \<Rightarrow> int \<Rightarrow> nat \<Rightarrow> rdp \<Rightarrow> rdp option" where
  "timer_con app d p s =
     (case state (heap s p) of
        SYN_SENT \<Rightarrow> timer_syn app d p s
      | SYN_RCVD \<Rightarrow> timer_syn app d p s
      | CLOSE_WAIT_ACTIVE \<Rightarrow> timer_close_wait d p s
      | CLOSE_WAIT_PASV \<Rightarrow> timer_close_wait d p s
      | OPEN \<Rightarrow> timer_open app p s
      | _ \<Rightarrow> Some s)"

fun timer_loop :: "nat \<Rightarrow> app \<Rightarrow> int option \<Rightarrow> rdp \<Rightarrow> rdp option" where
  "timer_loop 0 app it s = None"
| "timer_loop (Suc fuel) app it s =
     (case it of
        None \<Rightarrow> Some s
      | Some d \<Rightarrow> do {
          p \<leftarrow> ord_find (m_desc2conn s) d;
          let nxt = ord_next (m_desc2conn s) d;
          s \<leftarrow> timer_con app d p s;
          timer_loop fuel app nxt s
        })"

text \<open>
  Every iteration either visits a connection that was there at the start or one that a
  callback made, which takes at least one random number: the fuel covers both.
\<close>

definition timer_rdp :: "app \<Rightarrow> rdp \<Rightarrow> rdp option" where
  "timer_rdp app s =
     (let s = s\<lparr>m_timer := Some (clock s + timer_rdp_usec)\<rparr> in
      if m_desc2conn s = [] then Some s
      else timer_loop (Suc (length (m_desc2conn s) + length (rnds s))) app (ord_first (m_desc2conn s)) s)"

end
