(* ===== verification/Rdp_Inv.thy ===== *)
theory Rdp_Inv
  imports Rdp Rdp_Rwnd Rdp_Swnd
begin

section \<open>Invariants of the RDP machine\<close>

text \<open>
  What every operation of \<^verbatim>\<open>class rdp\<close> keeps, whatever segments arrive and whatever the
  application's callbacks call: the address table, the descriptor table and the connection
  objects agree (\<open>rdp_inv\<close>), and every connection moves forward through the states of the
  protocol and never changes its identity (\<open>evolves\<close>).
\<close>

subsection \<open>Connection operations\<close>

lemma snd_rest_upd [simp]:
  "snd_rest (c\<lparr>snd_nxt := x\<rparr>) = snd_rest c" "snd_rest (c\<lparr>snd_una := x\<rparr>) = snd_rest c"
  "snd_rest (c\<lparr>m_swnd := w\<rparr>) = snd_rest c" "snd_rest (c\<lparr>m_swnd_head := n\<rparr>) = snd_rest c"
  "snd_rest (c\<lparr>m_swnd_used := n\<rparr>) = snd_rest c" "snd_rest (c\<lparr>m_swnd_ostand := n\<rparr>) = snd_rest c"
  "snd_rest (c\<lparr>state := st\<rparr>) = (snd_rest c)\<lparr>state := st\<rparr>"
  by (simp_all add: snd_rest_def)

lemma send_ostand_loop_frame:
  "send_ostand_loop fuel t i e c os = Some (i', c', os') \<Longrightarrow> snd_rest c' = snd_rest c"
  by (induction fuel arbitrary: i c os)
    (auto simp: Let_def bind_eq_Some_conv split_beta split: if_splits)

lemma send_ostand_frame: "send_ostand_swnd t c = Some (c', os) \<Longrightarrow> snd_rest c' = snd_rest c"
  by (auto simp: send_ostand_swnd_def Let_def bind_eq_Some_conv simp del: send_ostand_loop.simps
      split: if_splits dest!: send_ostand_loop_frame)

lemma enqueue_frame: "enqueue_swnd t pb c = Some (r, c', os) \<Longrightarrow> snd_rest c' = snd_rest c"
  by (auto simp: enqueue_swnd_def Let_def bind_eq_Some_conv split: if_splits dest!: send_ostand_frame)

lemma recv_ack_loop_frame: "recv_ack_loop fuel i a c = Some (i', c') \<Longrightarrow> snd_rest c' = snd_rest c"
proof (induction fuel arbitrary: i c)
  case (Suc fuel)
  from Suc.prems show ?case
    by (auto simp: bind_eq_Some_conv simp del: list_update_id split: if_splits dest!: Suc.IH)
qed simp

lemma recv_ack_frame: "recv_ack t a c = Some (c', os) \<Longrightarrow> snd_rest c' = snd_rest c"
  by (auto simp: recv_ack_def bind_eq_Some_conv simp del: recv_ack_loop.simps
      split: if_splits dest!: send_ostand_frame recv_ack_loop_frame)

lemma eack_remove_loop_frame: "eack_remove_loop fuel c = Some c' \<Longrightarrow> snd_rest c' = snd_rest c"
proof (induction fuel arbitrary: c)
  case (Suc fuel)
  from Suc.prems show ?case by (auto simp: bind_eq_Some_conv split: if_splits dest!: Suc.IH)
qed simp

lemma recv_eack_frame: "recv_eack e c = Some c' \<Longrightarrow> snd_rest c' = snd_rest c"
  by (auto simp: recv_eack_def Let_def bind_eq_Some_conv simp del: eack_remove_loop.simps
      split: if_splits dest!: eack_remove_loop_frame)

lemma recv_eacks_frame: "run_steps recv_eack es c = Some c' \<Longrightarrow> snd_rest c' = snd_rest c"
  by (induction es arbitrary: c) (auto split: option.splits dest: recv_eack_frame)

lemma retransmit_loop_frame:
  "retransmit_loop n m t i c os = Some (r, c', os') \<Longrightarrow>
   snd_rest c' = (if r then snd_rest c else (snd_rest c)\<lparr>state := CLOSED\<rparr>)"
proof (induction n arbitrary: i c os)
  case (Suc n)
  from Suc.prems show ?case
    by (auto simp: Let_def bind_eq_Some_conv split: if_splits dest!: Suc.IH)
qed simp

lemma retransmit_frame:
  "retransmit m t c = Some (r, c', os) \<Longrightarrow>
   snd_rest c' = (if r then snd_rest c else (snd_rest c)\<lparr>state := CLOSED\<rparr>)"
  by (auto simp: retransmit_def split: if_splits dest!: retransmit_loop_frame)

text \<open>On a connection whose receive window is sound the receiving operations always succeed.\<close>

lemma rwnd_recv_data_total:
  assumes inv: "rwnd_inv c"
  shows "\<exists>c' os. rwnd_recv_data usec pb seq c = Some (c', os) \<and> rwnd_inv c' \<and> rcv_rest c' = rcv_rest c"
proof (cases "0 < seq - rcv_cur c \<and> seq - rcv_cur c \<le> of_nat (m_rwnd_len c)")
  case False
  then show ?thesis using inv by (auto simp: rwnd_recv_data_def Let_def)
next
  case True
  define k where "k = unat (seq - rcv_cur c) - 1"
  have ok: "rwnd_ok c" "m_rwnd_len c < 2 ^ 31" using inv by (simp_all add: rwnd_inv_def rwnd_ok_def)
  have pos: "0 < unat (seq - rcv_cur c)" "unat (seq - rcv_cur c) \<le> m_rwnd_len c"
    using True ok(2) by (simp_all add: word_less_nat_alt word_le_nat_alt)
  then have k: "k < m_rwnd_len c" "unat (seq - rcv_cur c) = Suc k" by (simp_all add: k_def)
  have "seq - rcv_cur c = of_nat (unat (seq - rcv_cur c))" by simp
  then have diff: "seq - rcv_cur c = 1 + of_nat k" unfolding k(2) by simp
  then have seq: "seq = rcv_cur c + 1 + of_nat k" by (simp add: algebra_simps)
  define e where "e = rwnd_put pb seq k c"
  have e: "rwnd_ok e" "rcv_rest e = rcv_rest c" using rwnd_put_ok [OF ok(1) k(1) seq, of pb] by (simp_all add: e_def)
  have "length (takeWhile is_used (rview e)) < Suc (m_rwnd_len c)"
    using length_takeWhile_le [of is_used "rview e"] e rcv_restD(8) [OF e(2)] by (simp add: rwnd_ok_def)
  then obtain f where f: "rwnd_remove_loop (Suc (m_rwnd_len c)) e = Some f" "rcv_rest f = rcv_rest e" "rwnd_inv f"
    using rwnd_remove_loop_spec [OF e(1) refl] by blast
  obtain g os where "delayed_ack usec f = Some (g, os)" "rwnd_inv g" "rcv_rest g = rcv_rest f"
    using delayed_ack_spec [OF f(3), of usec] by (auto split: if_splits)
  then show ?thesis
    using f e(2) unfolding rwnd_recv_data_unfold [OF ok(1) k(1) diff] e_def [symmetric]
    by (cases "rcv_max f div 4 < rcv_cur f - rcv_ack f \<or> m_len pb = 0") auto
qed

lemma delayed_ack_total:
  assumes "rwnd_inv c"
  shows "\<exists>c' os. delayed_ack usec c = Some (c', os) \<and> rwnd_inv c' \<and> rcv_rest c' = rcv_rest c"
  using delayed_ack_spec [OF assms, of usec] by (auto split: if_splits)

lemma rwnd_inv_init: "rcv_max c = rcv_max_default \<Longrightarrow> rwnd_inv (init_rwnd c)"
proof -
  assume "rcv_max c = rcv_max_default"
  then have "rwnd_inv (init_rwnd (c\<lparr>rqueue := []\<rparr>))" using fresh_window(1) [of "c\<lparr>rqueue := []\<rparr>"] by simp
  moreover have "init_rwnd (c\<lparr>rqueue := []\<rparr>) = (init_rwnd c)\<lparr>rqueue := []\<rparr>" by (simp add: init_rwnd_def)
  moreover have "rwnd_inv (e\<lparr>rqueue := q\<rparr>) = rwnd_inv e" for e q by (simp add: rwnd_inv_def rwnd_ok_def rview_def)
  ultimately show ?thesis by simp
qed

subsection \<open>Connections move forward\<close>

fun leads_to :: "rdp_state \<Rightarrow> rdp_state \<Rightarrow> bool" where
  "leads_to st CLOSED = True"
| "leads_to CLOSED st = False"
| "leads_to LISTEN st = (st = LISTEN)"
| "leads_to SYN_SENT st = (st \<noteq> LISTEN)"
| "leads_to SYN_RCVD st = (st \<in> {SYN_RCVD, OPEN, CLOSE_WAIT_PASV, CLOSE_WAIT_ACTIVE})"
| "leads_to OPEN st = (st \<in> {OPEN, CLOSE_WAIT_PASV, CLOSE_WAIT_ACTIVE})"
| "leads_to CLOSE_WAIT_PASV st = (st = CLOSE_WAIT_PASV)"
| "leads_to CLOSE_WAIT_ACTIVE st = (st = CLOSE_WAIT_ACTIVE)"

lemma leads_to_refl [simp]: "leads_to st st"
  by (cases st) simp_all

lemma leads_to_trans: "leads_to a b \<Longrightarrow> leads_to b c \<Longrightarrow> leads_to a c"
  by (cases a; cases b; cases c) simp_all

definition con_ok :: "rdp_con \<Rightarrow> bool" where
  "con_ok c \<longleftrightarrow> rcv_max c = rcv_max_default \<and>
     (state c \<in> {SYN_RCVD, OPEN, CLOSE_WAIT_PASV, CLOSE_WAIT_ACTIVE} \<longrightarrow> rwnd_inv c)"

definition keeps :: "rdp_con \<Rightarrow> rdp_con \<Rightarrow> bool" where
  "keeps c c' \<longleftrightarrow> addr c' = addr c \<and> desc c' = desc c \<and> leads_to (state c) (state c') \<and> (con_ok c \<longrightarrow> con_ok c')"

lemma keeps_refl [simp]: "keeps c c"
  by (simp add: keeps_def)

lemma keeps_trans: "keeps a b \<Longrightarrow> keeps b c \<Longrightarrow> keeps a c"
  by (auto simp: keeps_def intro: leads_to_trans)

lemma rwnd_inv_cong:
  assumes "m_rwnd c' = m_rwnd c" "m_rwnd_len c' = m_rwnd_len c" "m_rwnd_head c' = m_rwnd_head c"
    "m_rwnd_used c' = m_rwnd_used c" "rcv_cur c' = rcv_cur c"
  shows "rwnd_inv c' = rwnd_inv c"
proof -
  have "rview c' = rview c" using assms by (simp add: rview_def)
  then show ?thesis using assms by (simp add: rwnd_inv_def rwnd_ok_def)
qed

lemma keepsI:
  assumes "addr c' = addr c" "desc c' = desc c" "rcv_max c' = rcv_max c" "state c' = state c \<or> state c' = CLOSED"
    "m_rwnd c' = m_rwnd c" "m_rwnd_len c' = m_rwnd_len c" "m_rwnd_head c' = m_rwnd_head c"
    "m_rwnd_used c' = m_rwnd_used c" "rcv_cur c' = rcv_cur c"
  shows "keeps c c'"
  using assms rwnd_inv_cong [OF assms(5-9)] by (auto simp: keeps_def con_ok_def)

lemma keeps_snd: "snd_rest c' = snd_rest c \<Longrightarrow> keeps c c'"
  using rwnd_inv_cong [of c' c] snd_restD [of c' c] by (simp add: keeps_def con_ok_def)

lemma keeps_rcv: "rcv_rest c' = rcv_rest c \<Longrightarrow> (rwnd_inv c \<Longrightarrow> rwnd_inv c') \<Longrightarrow> keeps c c'"
  using rcv_restD [of c' c] by (auto simp: keeps_def con_ok_def)

lemma keeps_retransmit: "retransmit m t c = Some (r, c', os) \<Longrightarrow> keeps c c'"
proof -
  assume "retransmit m t c = Some (r, c', os)"
  then have fr: "snd_rest c' = (if r then snd_rest c else (snd_rest c)\<lparr>state := CLOSED\<rparr>)" by (rule retransmit_frame)
  show ?thesis
  proof (cases r)
    case False
    then have "snd_rest c' = snd_rest (c\<lparr>state := CLOSED\<rparr>)" using fr by simp
    then have "keeps (c\<lparr>state := CLOSED\<rparr>) c'" by (rule keeps_snd)
    moreover have "keeps c (c\<lparr>state := CLOSED\<rparr>)" by (simp add: keeps_def con_ok_def)
    ultimately show ?thesis by (blast intro: keeps_trans)
  qed (use fr keeps_snd in simp)
qed

text \<open>Fields that no invariant mentions may change freely.\<close>

lemma keeps_fields [simp]:
  "keeps c (c\<lparr>is_retry_rst := b\<rparr>)" "keeps c (c\<lparr>rst_time := t\<rparr>)" "keeps c (c\<lparr>syn_time := t\<rparr>)"
  "keeps c (c\<lparr>is_closed := b\<rparr>)" "keeps c (c\<lparr>rqueue := q\<rparr>)" "keeps c (c\<lparr>state := CLOSED\<rparr>)"
  "keeps c (c\<lparr>rcv_ack := w, acked_time := t\<rparr>)" "keeps c (c\<lparr>syn_tout := t, syn_time := u\<rparr>)"
  "keeps c (c\<lparr>rst_tout := t, rst_time := u\<rparr>)"
  by (rule keepsI; simp)+

subsection \<open>The tables agree\<close>

definition rdp_inv :: "rdp \<Rightarrow> bool" where
  "rdp_inv s \<longleftrightarrow> ord_wf (m_desc2conn s) \<and> finite (m_desc_set s) \<and> (\<forall>d \<in> m_desc_set s. 0 < d) \<and>
     (\<forall>d p. ord_find (m_desc2conn s) d = Some p \<longrightarrow>
        p < next_ptr s \<and> desc (heap s p) = d \<and> d \<in> m_desc_set s \<and> m_addr2conn s (addr (heap s p)) = Some p) \<and>
     (\<forall>a p. m_addr2conn s a = Some p \<longrightarrow>
        addr (heap s p) = a \<and> ord_find (m_desc2conn s) (desc (heap s p)) = Some p) \<and>
     distinct (map fst (m_listening s)) \<and> distinct (map snd (m_listening s)) \<and>
     (\<forall>x \<in> set (m_listening s). snd x \<in> m_desc_set s \<and> ord_find (m_desc2conn s) (snd x) = None) \<and>
     (\<forall>p < next_ptr s. con_ok (heap s p))"

definition evolves :: "rdp \<Rightarrow> rdp \<Rightarrow> bool" where
  "evolves s s' \<longleftrightarrow> rdp_inv s' \<and> next_ptr s \<le> next_ptr s' \<and> (\<forall>p < next_ptr s. keeps (heap s p) (heap s' p))"

lemma evolves_refl: "rdp_inv s \<Longrightarrow> evolves s s"
  by (simp add: evolves_def)

lemma evolves_trans [trans]: "evolves a b \<Longrightarrow> evolves b c \<Longrightarrow> evolves a c"
  unfolding evolves_def by (meson keeps_trans order_less_le_trans order_trans)

lemma evolves_inv: "evolves s s' \<Longrightarrow> rdp_inv s'"
  by (simp add: evolves_def)

text \<open>A step that leaves the tables alone and only moves connections forward.\<close>

lemma quiet_evolves:
  assumes inv: "rdp_inv s"
    and tabs: "m_desc_set s' = m_desc_set s" "m_listening s' = m_listening s" "m_addr2conn s' = m_addr2conn s"
      "m_desc2conn s' = m_desc2conn s" "next_ptr s' = next_ptr s"
    and keep: "\<And>p. p < next_ptr s \<Longrightarrow> keeps (heap s p) (heap s' p)"
  shows "evolves s s'"
proof -
  have eq: "addr (heap s' p) = addr (heap s p) \<and> desc (heap s' p) = desc (heap s p) \<and> con_ok (heap s' p)"
    if "p < next_ptr s" for p
    using keep [OF that] inv that by (simp add: keeps_def rdp_inv_def)
  have p1: "p < next_ptr s" if "ord_find (m_desc2conn s) d = Some p" for d p
    using inv that unfolding rdp_inv_def by blast
  have p2: "p < next_ptr s" if "m_addr2conn s a = Some p" for a p
    using inv that p1 unfolding rdp_inv_def by blast
  have "\<forall>d p. ord_find (m_desc2conn s) d = Some p \<longrightarrow>
      p < next_ptr s \<and> desc (heap s' p) = d \<and> d \<in> m_desc_set s \<and> m_addr2conn s (addr (heap s' p)) = Some p"
    using inv eq p1 unfolding rdp_inv_def by metis
  moreover have "\<forall>a p. m_addr2conn s a = Some p \<longrightarrow>
      addr (heap s' p) = a \<and> ord_find (m_desc2conn s) (desc (heap s' p)) = Some p"
    using inv eq p2 unfolding rdp_inv_def by metis
  ultimately have "rdp_inv s'"
    using inv eq unfolding rdp_inv_def tabs by blast
  then show ?thesis using keep by (simp add: evolves_def tabs)
qed

lemma rcv_rest_upd [simp]:
  "rcv_rest (c\<lparr>rcv_cur := x\<rparr>) = rcv_rest c" "rcv_rest (c\<lparr>rcv_ack := x\<rparr>) = rcv_rest c"
  "rcv_rest (c\<lparr>acked_time := t\<rparr>) = rcv_rest c" "rcv_rest (c\<lparr>rqueue := q\<rparr>) = rcv_rest c"
  "rcv_rest (c\<lparr>m_rwnd := w\<rparr>) = rcv_rest c" "rcv_rest (c\<lparr>m_rwnd_head := n\<rparr>) = rcv_rest c"
  "rcv_rest (c\<lparr>m_rwnd_used := n\<rparr>) = rcv_rest c"
  by (simp_all add: rcv_rest_def)

lemma eack_loop_frame: "eack_loop fuel idx i seqs c = Some (seqs', c') \<Longrightarrow> rcv_rest c' = rcv_rest c"
proof (induction fuel arbitrary: idx i seqs c)
  case (Suc fuel)
  from Suc.prems show ?case
    by (auto simp: Let_def bind_eq_Some_conv split: if_splits dest!: Suc.IH)
qed simp

lemma delayed_ack_frame: "delayed_ack usec c = Some (c', os) \<Longrightarrow> rcv_rest c' = rcv_rest c"
  by (auto simp: delayed_ack_def bind_eq_Some_conv simp del: eack_loop.simps split: if_splits dest!: eack_loop_frame)

lemma rwnd_remove_loop_frame: "rwnd_remove_loop fuel c = Some c' \<Longrightarrow> rcv_rest c' = rcv_rest c"
proof (induction fuel arbitrary: c)
  case (Suc fuel)
  from Suc.prems show ?case
    by (auto simp: Let_def bind_eq_Some_conv split: if_splits dest!: Suc.IH)
qed simp

lemma rwnd_recv_data_frame: "rwnd_recv_data usec pb seq c = Some (c', os) \<Longrightarrow> rcv_rest c' = rcv_rest c"
  by (auto simp: rwnd_recv_data_def Let_def bind_eq_Some_conv simp del: rwnd_remove_loop.simps
      split: if_splits dest!: delayed_ack_frame rwnd_remove_loop_frame)

lemma keeps_delayed_ack:
  assumes "delayed_ack usec c = Some (c', os)"
  shows "keeps c c'"
  by (rule keeps_rcv [OF delayed_ack_frame [OF assms]]) (use delayed_ack_total [of c usec] assms in simp)

lemma keeps_recv_data:
  assumes "rwnd_recv_data usec pb seq c = Some (c', os)"
  shows "keeps c c'"
  by (rule keeps_rcv [OF rwnd_recv_data_frame [OF assms]]) (use rwnd_recv_data_total [of c usec pb seq] assms in simp)

subsection \<open>Primitive steps\<close>

lemma evolves_upd_con: "rdp_inv s \<Longrightarrow> keeps (heap s p) (f (heap s p)) \<Longrightarrow> evolves s (upd_con p f s)"
  by (rule quiet_evolves) (auto simp: upd_con_def)

lemma evolves_put_con: "rdp_inv s \<Longrightarrow> keeps (heap s p) c \<Longrightarrow> evolves s (put_con p c os s)"
  by (rule quiet_evolves) (auto simp: put_con_def)

lemma evolves_output: "rdp_inv s \<Longrightarrow> evolves s (rdp_output dst pb s)"
  by (rule quiet_evolves) (auto simp: rdp_output_def)

lemma evolves_fields:
  assumes "rdp_inv s"
  shows "evolves s (s\<lparr>m_desc2event := ev\<rparr>)" "evolves s (s\<lparr>m_is_invoke := b\<rparr>)" "evolves s (s\<lparr>m_desc_closed := ds\<rparr>)"
    "evolves s (s\<lparr>rnds := rs\<rparr>)" "evolves s (s\<lparr>clock := t\<rparr>)" "evolves s (s\<lparr>events := es\<rparr>)"
    "evolves s (s\<lparr>m_max_retrans := t\<rparr>)" "evolves s (s\<lparr>m_timer := tm\<rparr>)"
  using assms by (auto intro!: quiet_evolves)

lemma evolves_on_con:
  assumes "rdp_inv s" "on_con p f s = Some s'" "\<And>c' os. f (heap s p) = Some (c', os) \<Longrightarrow> keeps (heap s p) c'"
  shows "evolves s s'"
  using assms by (auto simp: on_con_def bind_eq_Some_conv intro: evolves_put_con)

lemma evolves_forget:
  assumes inv: "rdp_inv s" and p: "ord_find (m_desc2conn s) d = Some p" and a: "a = addr (heap s p)"
  shows "evolves s (forget_con d a s)"
proof -
  have wf: "ord_wf (m_desc2conn s)" using inv by (simp add: rdp_inv_def)
  have tab: "desc (heap s p) = d" "m_addr2conn s a = Some p" using inv p a unfolding rdp_inv_def by blast+
  have d1: "e \<noteq> d \<Longrightarrow> ord_find (m_desc2conn s) e = Some q \<Longrightarrow> addr (heap s q) \<noteq> a" for e q
    using inv tab unfolding rdp_inv_def by (metis option.inject)
  have d2: "b \<noteq> a \<Longrightarrow> m_addr2conn s b = Some q \<Longrightarrow> desc (heap s q) \<noteq> d" for b q
    using inv p a unfolding rdp_inv_def by (metis option.inject)
  have lis: "x \<in> set (m_listening s) \<Longrightarrow> snd x \<noteq> d" for x using inv p unfolding rdp_inv_def by fastforce
  have "rdp_inv (forget_con d a s)"
    unfolding rdp_inv_def forget_con_def
    by (simp add: ord_find_del [OF wf] ord_wf_del [OF wf], intro conjI allI impI ballI)
      (use inv d1 d2 lis in \<open>auto simp: rdp_inv_def\<close>)
  then show ?thesis by (simp add: evolves_def forget_con_def)
qed

lemma evolves_add_con:
  assumes inv: "rdp_inv s" and d: "d \<notin> m_desc_set s" "0 < d" and c: "m_addr2conn s (addr c) = None" "con_ok c"
  shows "evolves s (add_con d c s)"
proof -
  let ?p = "next_ptr s"
  have wf: "ord_wf (m_desc2conn s)" using inv by (simp add: rdp_inv_def)
  have old: "q < ?p" if "ord_find (m_desc2conn s) e = Some q" for e q using inv that unfolding rdp_inv_def by blast
  have olda: "q < ?p \<and> desc (heap s q) \<noteq> d" if "m_addr2conn s b = Some q" for b q
    using inv that d(1) old unfolding rdp_inv_def by metis
  have fresh: "ord_find (m_desc2conn s) d = None" using inv d(1) unfolding rdp_inv_def by (metis option.exhaust)
  have noaddr: "addr (heap s q) \<noteq> addr c" if "ord_find (m_desc2conn s) e = Some q" for e q
    using inv that c(1) unfolding rdp_inv_def by (metis option.distinct(1))
  have ok: "con_ok (c\<lparr>desc := d\<rparr>)" using c(2) rwnd_inv_cong [of "c\<lparr>desc := d\<rparr>" c] by (simp add: con_ok_def)
  have "rdp_inv (add_con d c s)"
    unfolding rdp_inv_def add_con_def Let_def
  proof (simp add: ord_find_ins ord_wf_ins [OF wf], intro conjI allI impI ballI)
    fix e q
    assume "e \<noteq> d" "ord_find (m_desc2conn s) e = Some q"
    then show "q < Suc ?p" using old by (simp add: less_Suc_eq)
  qed (use inv d c fresh ok old olda noaddr in \<open>auto simp: rdp_inv_def less_Suc_eq\<close>)
  then show ?thesis by (simp add: evolves_def add_con_def Let_def)
qed

end
