(* ===== verification/Rdp_Steps.thy ===== *)
theory Rdp_Steps
  imports Rdp_Inv
begin

section \<open>Every operation keeps the invariant; reachable states\<close>

text \<open>
  Each operation of the RDP machine \<open>evolves\<close> its state.  The machine's step relation runs
  any operation with any segment, any application and any passage of time; \<open>rdp_reach\<close> are
  the states it reaches from the constructor.
\<close>

subsection \<open>Interface calls\<close>

lemma generate_desc_loop_spec:
  "generate_desc_loop ds rs = Some (d, rs') \<Longrightarrow> d \<notin> ds \<and> 0 < d \<and> (\<exists>used. rs = used @ rs' \<and> used \<noteq> [])"
proof (induction ds rs rule: generate_desc_loop.induct)
  case (2 ds r rs)
  then show ?case
    by (auto split: if_splits)
qed simp

lemma generate_desc_spec:
  "generate_desc s = Some (d, s') \<Longrightarrow> d \<notin> m_desc_set s \<and> 0 < d \<and> (\<exists>rs. s' = s\<lparr>rnds := rs\<rparr>)"
  by (auto simp: generate_desc_def bind_eq_Some_conv dest: generate_desc_loop_spec)

lemma evolves_listen:
  assumes inv: "rdp_inv s" and l: "listen port func s = Some (d, s')"
  shows "evolves s s'"
proof (cases "listen_left (m_listening s) port = None")
  case False
  then show ?thesis using l inv by (auto simp: listen_def evolves_refl)
next
  case True
  then obtain s1 where g: "generate_desc s = Some (d, s1)"
    and s1: "s' = s1\<lparr>m_desc_set := insert d (m_desc_set s1), m_listening := listen_insert port d (m_listening s1),
       m_desc2event := (m_desc2event s1)(d \<mapsto> func)\<rparr>"
    using l by (auto simp: listen_def bind_eq_Some_conv)
  obtain rs where d: "d \<notin> m_desc_set s" "0 < d" and rs: "s1 = s\<lparr>rnds := rs\<rparr>"
    using generate_desc_spec [OF g] by blast
  have s': "s' = s\<lparr>rnds := rs, m_desc_set := insert d (m_desc_set s),
       m_listening := listen_insert port d (m_listening s), m_desc2event := (m_desc2event s)(d \<mapsto> func)\<rparr>"
    by (simp add: s1 rs)
  have nd: "d \<notin> snd ` set (m_listening s)" using inv d(1) by (auto simp: rdp_inv_def)
  moreover have np: "port \<notin> fst ` set (m_listening s)" using True by (simp add: listen_left_def map_of_eq_None_iff)
  moreover have "fst ` set (map (\<lambda>(p, e). (e, p)) (m_listening s)) = snd ` set (m_listening s)"
    by (force simp: image_image case_prod_unfold)
  ultimately have ins: "listen_insert port d (m_listening s) = m_listening s @ [(port, d)]"
    by (simp add: listen_insert_def listen_left_def listen_right_def map_of_eq_None_iff)
  have "ord_find (m_desc2conn s) d = None" using inv d(1) unfolding rdp_inv_def by (metis option.exhaust)
  then have "rdp_inv s'"
    using inv d nd np unfolding rdp_inv_def s' ins by auto
  then show ?thesis by (simp add: evolves_def s')
qed

lemma connect_port_free:
  "connect_port tab dst dp rs = Some (port, rs') \<Longrightarrow> tab \<lparr>did = dst, dport = dp, sport = port\<rparr> = None"
  by (induction tab dst dp rs rule: connect_port.induct) (auto simp: Let_def split: if_splits)

lemma evolves_connect:
  assumes inv: "rdp_inv s" and c: "connect sp dst dp func s = Some (d, s')"
  shows "evolves s s'"
proof (cases "sp \<noteq> 0 \<and> m_addr2conn s \<lparr>did = dst, dport = dp, sport = sp\<rparr> \<noteq> None")
  case True
  then show ?thesis using c inv by (auto simp: connect_def evolves_refl)
next
  case False
  then obtain port rs iss s1 s2 where port: "(if sp \<noteq> 0 then Some (sp, rnds s)
      else connect_port (m_addr2conn s) dst dp (rnds s)) = Some (port, rs)"
    and s1: "m_rnd (s\<lparr>rnds := rs\<rparr>) = Some (iss, s1)" and s2: "generate_desc s1 = Some (d, s2)"
    and s': "s' = rdp_output dst (syn_seg (flag_syn OR flag_ver) \<lparr>did = dst, dport = dp, sport = port\<rparr> iss 0
        rcv_max_default rbuf_max_default)
      ((add_con d (active_con \<lparr>did = dst, dport = dp, sport = port\<rparr> iss (now s1)) s2)
        \<lparr>m_desc2event := (m_desc2event s2)(d \<mapsto> func)\<rparr>)"
    using c unfolding connect_def if_not_P [OF False] Let_def
    by (auto simp: bind_eq_Some_conv simp del: if_split)
  let ?a = "\<lparr>did = dst, dport = dp, sport = port\<rparr>"
  have free: "m_addr2conn s ?a = None" using port False by (auto split: if_splits dest: connect_port_free)
  obtain rs' where s2': "s2 = s\<lparr>rnds := rs'\<rparr>" "d \<notin> m_desc_set s" "0 < d"
    using s1 generate_desc_spec [OF s2] by (auto simp: m_rnd_def split: list.splits)
  have inv2: "evolves s s2" unfolding s2'(1) using inv by (rule evolves_fields)
  show ?thesis
    unfolding s'
    by (rule evolves_trans [OF inv2], rule evolves_trans [OF evolves_add_con evolves_trans [OF evolves_fields(1) evolves_output]])
      (use evolves_inv [OF inv2] s2' free inv in \<open>auto simp: con_ok_def active_con_def intro!: evolves_inv [OF evolves_add_con] evolves_inv [OF evolves_fields(1)]\<close>)
qed

text \<open>Chains of two and three steps.\<close>

lemma evolves_then:
  assumes "evolves s t" "\<And>u. rdp_inv t \<Longrightarrow> f t = Some u \<Longrightarrow> evolves t u" "f t = Some s'"
  shows "evolves s s'"
  using assms evolves_inv evolves_trans by blast

lemma evolves_bind:
  assumes "(f s \<bind> g) = Some s'" "\<And>t. f s = Some t \<Longrightarrow> evolves s t"
    "\<And>t. f s = Some t \<Longrightarrow> rdp_inv t \<Longrightarrow> g t = Some s' \<Longrightarrow> evolves t s'"
  shows "evolves s s'"
  using assms by (auto simp: bind_eq_Some_conv intro: evolves_trans dest: evolves_inv)

lemma evolves_out_upd:
  assumes "rdp_inv s" "keeps (heap s p) (f (heap s p))"
  shows "evolves s (rdp_output dst pb (upd_con p f s))"
proof -
  have e: "evolves s (upd_con p f s)" using assms by (rule evolves_upd_con)
  show ?thesis by (rule evolves_trans [OF e evolves_output [OF evolves_inv [OF e]]])
qed

lemma evolves_upd_out:
  assumes "rdp_inv s" "keeps (heap s p) (f (heap s p))"
  shows "evolves s (upd_con p f (rdp_output dst pb s))"
  by (rule evolves_trans [OF evolves_output [OF assms(1)] evolves_upd_con [OF evolves_inv [OF evolves_output [OF assms(1)]]]])
    (use assms(2) in \<open>simp add: rdp_output_def\<close>)

lemma run_steps_evolves:
  assumes "\<And>a t u. rdp_inv t \<Longrightarrow> step a t = Some u \<Longrightarrow> evolves t u"
  shows "rdp_inv s \<Longrightarrow> run_steps step as s = Some s' \<Longrightarrow> evolves s s'"
proof (induction as arbitrary: s)
  case (Cons a as)
  then obtain t where "step a s = Some t" "run_steps step as t = Some s'" by (auto split: option.splits)
  then show ?case using assms [OF Cons.prems(1)] Cons.IH evolves_inv evolves_trans by blast
qed (simp add: evolves_refl)

lemma keeps_open_closing:
  "state c = OPEN \<Longrightarrow> keeps c (c\<lparr>state := CLOSE_WAIT_ACTIVE, is_closed := True, rst_time := t, rst_tout := u, is_retry_rst := b\<rparr>)"
  "state c = OPEN \<Longrightarrow> keeps c (c\<lparr>state := CLOSE_WAIT_PASV, rst_time := t, rst_tout := u, is_retry_rst := b\<rparr>)"
  using rwnd_inv_cong [of "c\<lparr>state := CLOSE_WAIT_ACTIVE, is_closed := True, rst_time := t, rst_tout := u, is_retry_rst := b\<rparr>" c]
    rwnd_inv_cong [of "c\<lparr>state := CLOSE_WAIT_PASV, rst_time := t, rst_tout := u, is_retry_rst := b\<rparr>" c]
  by (simp_all add: keeps_def con_ok_def)

lemma evolves_close_aborted:
  assumes inv: "rdp_inv s" and p: "ord_find (m_desc2conn s) d = Some p"
    and s1: "s1 = rdp_output dst pb (upd_con p (\<lambda>c. c\<lparr>state := CLOSED\<rparr>) s)"
  shows "evolves s (forget_con d (addr (heap s p)) s1)" "evolves s (s1\<lparr>m_desc_closed := ds\<rparr>)"
proof -
  have e: "evolves s s1" unfolding s1 by (rule evolves_out_upd [OF inv]) simp
  have "evolves s1 (forget_con d (addr (heap s p)) s1)"
    by (rule evolves_forget [OF evolves_inv [OF e], of d p]) (use p in \<open>simp_all add: s1 rdp_output_def upd_con_def\<close>)
  then show "evolves s (forget_con d (addr (heap s p)) s1)" by (rule evolves_trans [OF e])
  show "evolves s (s1\<lparr>m_desc_closed := ds\<rparr>)" by (rule evolves_trans [OF e evolves_fields(3) [OF evolves_inv [OF e]]])
qed

lemma listen_erase_inv: "rdp_inv s \<Longrightarrow> evolves s (s\<lparr>m_listening := listen_erase d (m_listening s)\<rparr>)"
  by (auto simp: evolves_def rdp_inv_def listen_erase_def distinct_map_filter)

lemma evolves_close:
  assumes inv: "rdp_inv s" and cl: "close d s = Some s'"
  shows "evolves s s'"
proof (cases "listen_right (m_listening s) d \<noteq> None")
  case True
  then show ?thesis using cl inv by (auto simp: close_def intro: listen_erase_inv)
next
  case False
  show ?thesis
  proof (cases "ord_find (m_desc2conn s) d")
    case None
    then show ?thesis using cl False inv by (auto simp: close_def evolves_refl)
  next
    case (Some p)
    note unf = cl [unfolded close_def if_not_P [OF False] Some option.case]
    show ?thesis
    proof (cases "state (heap s p)")
      case OPEN
      obtain c' os where c': "delayed_ack (clock s) (heap s p) = Some (c', os)"
        and s': "s' = (let t = upd_con p (\<lambda>c. c\<lparr>state := CLOSE_WAIT_ACTIVE, is_closed := True, rst_time := now (put_con p c' os s),
             rst_tout := 1, is_retry_rst := True\<rparr>) (put_con p c' os s)
           in rdp_output (did (addr (heap t p))) (ctl_seg (flag_rst OR flag_ver) (addr (heap t p)) (snd_nxt (heap t p)) 0) t)"
        using unf OPEN by (auto simp: on_con_def bind_eq_Some_conv Let_def)
      have k: "keeps (heap s p) c'" by (rule keeps_delayed_ack [OF c'])
      have "rcv_rest c' = rcv_rest (heap s p)" by (rule delayed_ack_frame [OF c'])
      then have st: "state c' = OPEN" using rcv_restD(5) OPEN by metis
      note e = evolves_put_con [OF inv k, of os]
      show ?thesis
        unfolding s' Let_def
        by (rule evolves_trans [OF e evolves_out_upd [OF evolves_inv [OF e]]])
          (simp add: put_con_def st keeps_open_closing)
    next
      case CLOSE_WAIT_PASV
      then show ?thesis using unf inv by (auto intro!: evolves_upd_con)
    next
      case CLOSED
      then show ?thesis using unf inv Some by (auto split: if_splits intro: evolves_forget evolves_fields)
    next
      case SYN_SENT
      then show ?thesis using unf evolves_close_aborted [OF inv Some refl] by (auto simp: Let_def split: if_splits)
    next
      case SYN_RCVD
      then show ?thesis using unf evolves_close_aborted [OF inv Some refl] by (auto simp: Let_def split: if_splits)
    qed (use unf inv in \<open>auto simp: evolves_refl\<close>)
  qed
qed

lemma evolves_send_loop:
  "send_loop fuel p buf n s = Some (m, s') \<Longrightarrow> rdp_inv s \<Longrightarrow> evolves s s'"
proof (induction fuel arbitrary: buf n s)
  case (Suc fuel)
  from Suc.prems(1) obtain pb ok c' os where
    q: "enqueue_swnd (now s) pb (heap s p) = Some (ok, c', os)"
    and r: "s' = put_con p c' os s \<or> (\<exists>B N. send_loop fuel p B N (put_con p c' os s) = Some (m, s'))"
    by (auto simp: Let_def bind_eq_Some_conv split_beta split: if_splits) blast
  have e: "evolves s (put_con p c' os s)"
    by (rule evolves_put_con [OF Suc.prems(2) keeps_snd [OF enqueue_frame [OF q]]])
  then show ?case using r Suc.IH evolves_inv [OF e] evolves_trans [OF e] by blast
qed simp

lemma evolves_api:
  assumes inv: "rdp_inv s" and a: "api x s = Some s'"
  shows "evolves s s'"
proof (cases x)
  case (ApiSend d buf)
  then show ?thesis using inv a evolves_send_loop
    by (auto simp: send_def evolves_refl simp del: send_loop.simps split: option.splits if_splits)
next
  case (ApiReceive d len)
  then show ?thesis using inv a
    by (auto simp: receive_def evolves_refl split: option.splits prod.splits intro!: evolves_upd_con)
qed (use inv a in \<open>auto simp: set_callback_rdp_event_def set_max_retrans_def evolves_refl
    intro: evolves_listen evolves_connect evolves_close evolves_fields\<close>)

subsection \<open>Events and segments\<close>

lemma evolves_call_app: "rdp_inv s \<Longrightarrow> call_app app cb d a ev s = Some s' \<Longrightarrow> evolves s s'"
  unfolding call_app_def Let_def
  by (rule evolves_then [OF evolves_fields(6)]) (auto intro: run_steps_evolves evolves_api)

lemma evolves_invoke:
  assumes inv: "rdp_inv s" and i: "invoke_event app d1 d2 a ev s = Some s'"
  shows "evolves s s'"
proof (cases "m_desc2event s d1")
  case None
  then show ?thesis using i inv by (simp add: invoke_event_def evolves_refl)
next
  case (Some cb)
  show ?thesis
  proof (cases "d2 > 0")
    case True
    then obtain t where t: "call_app app cb d2 a ev s = Some t"
      and r: "s' = t \<or> (\<exists>m. s' = t\<lparr>m_desc2event := m\<rparr>)"
      using i Some by (auto simp: invoke_event_def bind_eq_Some_conv split: if_splits)
    have e: "evolves s t" by (rule evolves_call_app [OF inv t])
    then show ?thesis using r evolves_trans [OF e evolves_fields(1) [OF evolves_inv [OF e]]] by blast
  next
    case False
    then obtain t u where t: "call_app app cb d1 a ev (s\<lparr>m_is_invoke := True\<rparr>) = Some t"
      and u: "run_steps close (m_desc_closed t) (t\<lparr>m_is_invoke := False\<rparr>) = Some u"
      and s': "s' = u\<lparr>m_desc_closed := []\<rparr>"
      using i Some by (auto simp: invoke_event_def bind_eq_Some_conv Let_def)
    have e1: "evolves s (s\<lparr>m_is_invoke := True\<rparr>)" by (rule evolves_fields(2) [OF inv])
    have e2: "evolves s t" by (rule evolves_trans [OF e1 evolves_call_app [OF evolves_inv [OF e1] t]])
    have e3: "evolves s (t\<lparr>m_is_invoke := False\<rparr>)"
      by (rule evolves_trans [OF e2 evolves_fields(2) [OF evolves_inv [OF e2]]])
    have e4: "evolves s u"
      by (rule evolves_trans [OF e3 run_steps_evolves [OF evolves_close evolves_inv [OF e3] u]])
    show ?thesis unfolding s' by (rule evolves_trans [OF e4 evolves_fields(3) [OF evolves_inv [OF e4]]])
  qed
qed

lemma evolves_closed_event:
  assumes "rdp_inv s" "invoke_event app d 0 a ev (upd_con p (\<lambda>c. c\<lparr>state := CLOSED\<rparr>) s) = Some s'"
  shows "evolves s s'"
proof -
  have e: "evolves s (upd_con p (\<lambda>c. c\<lparr>state := CLOSED\<rparr>) s)" by (rule evolves_upd_con [OF assms(1)]) simp
  show ?thesis by (rule evolves_trans [OF e evolves_invoke [OF evolves_inv [OF e] assms(2)]])
qed

lemma evolves_deliver:
  assumes inv: "rdp_inv s" and d: "deliver app p a hlen pb seq s = Some s'"
  shows "evolves s s'"
proof -
  obtain t where t: "on_con p (rwnd_recv_data (clock s) (rm_head hlen pb) seq) s = Some t"
    and r: "s' = t \<or> invoke_event app (desc (heap t p)) 0 a READY2READ t = Some s'"
    using d by (auto simp: deliver_def bind_eq_Some_conv split: if_splits)
  have e: "evolves s t" using evolves_on_con [OF inv t] keeps_recv_data by blast
  then show ?thesis using r evolves_trans [OF e evolves_invoke [OF evolves_inv [OF e]]] by blast
qed

lemma evolves_close_wait:
  assumes "rdp_inv s"
  shows "in_state_close_wait_active p a pb s = Some s' \<Longrightarrow> evolves s s'"
    and "in_state_close_wait_pasv p a pb s = Some s' \<Longrightarrow> evolves s s'"
  using assms
  by (auto simp: in_state_close_wait_active_def in_state_close_wait_pasv_def Let_def evolves_refl split: if_splits
      intro!: evolves_out_upd evolves_upd_con)

lemma evolves_in_closed: "rdp_inv s \<Longrightarrow> in_state_closed a pb s = Some s' \<Longrightarrow> evolves s s'"
  by (auto simp: in_state_closed_def Let_def evolves_refl split: if_splits intro: evolves_output)

lemma take_syn_simps [simp]:
  "addr (take_syn pb c) = addr c" "desc (take_syn pb c) = desc c" "state (take_syn pb c) = state c"
  "rcv_max (take_syn pb c) = rcv_max c" "rcv_cur (take_syn pb c) = h_seqnum (read_head pb)"
  "snd_nxt (take_syn pb c) = snd_nxt c" "snd_iss (take_syn pb c) = snd_iss c" "is_pasv (take_syn pb c) = is_pasv c"
  "rbuf_max (take_syn pb c) = rbuf_max c" "rcv_irs (take_syn pb c) = h_seqnum (read_head pb)"
  "snd_una (take_syn pb c) = snd_una c" "rqueue (take_syn pb c) = rqueue c"
  by (simp_all add: take_syn_def init_rwnd_def init_swnd_def Let_def split: prod.splits)

lemma rwnd_inv_take_syn: "rcv_max c = rcv_max_default \<Longrightarrow> rwnd_inv (take_syn pb c)"
  by (auto simp: take_syn_def Let_def init_swnd_def split: prod.splits intro!: rwnd_inv_init)

lemma passive_con_simps [simp]:
  "addr (passive_con a pb iss t u) = a" "state (passive_con a pb iss t u) = SYN_RCVD"
  "is_pasv (passive_con a pb iss t u)" "snd_iss (passive_con a pb iss t u) = iss"
  "rcv_cur (passive_con a pb iss t u) = h_seqnum (read_head pb)" "snd_nxt (passive_con a pb iss t u) = iss + 1"
  "rcv_irs (passive_con a pb iss t u) = h_seqnum (read_head pb)" "rcv_max (passive_con a pb iss t u) = rcv_max_default"
  "snd_una (passive_con a pb iss t u) = iss" "rbuf_max (passive_con a pb iss t u) = rbuf_max_default"
  by (simp_all add: passive_con_def)

lemma con_ok_passive: "con_ok (passive_con a pb iss t u)"
proof -
  let ?c = "rdp_con_new\<lparr>addr := a, is_pasv := True, state := SYN_RCVD, snd_iss := iss,
        snd_nxt := iss + 1, snd_una := iss, rcv_max := rcv_max_default,
        rbuf_max := rbuf_max_default, is_closed := False\<rparr>"
  have "keeps (take_syn pb ?c) (passive_con a pb iss t u)" unfolding passive_con_def by (rule keepsI) simp_all
  moreover have "con_ok (take_syn pb ?c)" using rwnd_inv_take_syn [of ?c pb] by (simp add: con_ok_def)
  ultimately show ?thesis by (simp add: keeps_def)
qed

lemma evolves_in_listen:
  assumes inv: "rdp_inv s" and a: "m_addr2conn s a = None" and l: "in_state_listen a pb s = Some s'"
  shows "evolves s s'"
proof (cases "\<not> has_flag (read_head pb) flag_rst \<and> \<not> (has_flag (read_head pb) flag_ack \<or> has_flag (read_head pb) flag_nul) \<and>
    has_flag (read_head pb) flag_syn \<and> \<not> m_len pb < 24")
  case False
  then show ?thesis
    using l inv by (auto simp: in_state_listen_def Let_def evolves_refl intro: evolves_output split: if_splits)
next
  case True
  obtain iss s1 d s2 where s1: "m_rnd s = Some (iss, s1)" and s2: "generate_desc s1 = Some (d, s2)"
    and s': "s' = rdp_output (did a) (syn_seg (flag_syn OR flag_ack OR flag_ver) a iss (h_seqnum (read_head pb))
        rcv_max_default rbuf_max_default) (add_con d (passive_con a pb iss (now s1) (clock s1)) s2)"
    using l True by (auto simp: in_state_listen_def Let_def bind_eq_Some_conv)
  obtain rs where rs: "s2 = s\<lparr>rnds := rs\<rparr>" "d \<notin> m_desc_set s" "0 < d"
    using s1 generate_desc_spec [OF s2] by (auto simp: m_rnd_def split: list.splits)
  have e: "evolves s s2" unfolding rs(1) by (rule evolves_fields(4) [OF inv])
  have e2: "evolves s2 (add_con d (passive_con a pb iss (now s1) (clock s1)) s2)"
    using evolves_add_con [OF evolves_inv [OF e], of d] rs a con_ok_passive by simp
  note e3 = evolves_trans [OF e e2]
  show ?thesis unfolding s' by (rule evolves_trans [OF e3 evolves_output [OF evolves_inv [OF e3]]])
qed

lemma keeps_opened:
  assumes "state c = SYN_SENT" "c' = (take_syn pb c)\<lparr>acked_time := t\<rparr>"
  shows "keeps c (c'\<lparr>snd_una := u, state := OPEN\<rparr>)" "keeps c (c'\<lparr>state := SYN_RCVD, syn_time := v, syn_tout := w\<rparr>)"
proof -
  have "rwnd_inv (c'\<lparr>snd_una := u, state := OPEN\<rparr>) \<and> rwnd_inv (c'\<lparr>state := SYN_RCVD, syn_time := v, syn_tout := w\<rparr>)"
    if "rcv_max c = rcv_max_default"
    using rwnd_inv_take_syn [OF that, of pb]
      rwnd_inv_cong [of "c'\<lparr>snd_una := u, state := OPEN\<rparr>" "take_syn pb c"]
      rwnd_inv_cong [of "c'\<lparr>state := SYN_RCVD, syn_time := v, syn_tout := w\<rparr>" "take_syn pb c"] assms(2) by simp
  then show "keeps c (c'\<lparr>snd_una := u, state := OPEN\<rparr>)" "keeps c (c'\<lparr>state := SYN_RCVD, syn_time := v, syn_tout := w\<rparr>)"
    using assms by (simp_all add: keeps_def con_ok_def)
qed

lemma evolves_syn_sent:
  assumes inv: "rdp_inv s" and st: "state (heap s p) = SYN_SENT" and r: "in_state_syn_sent app p a pb s = Some s'"
  shows "evolves s s'"
proof -
  let ?h = "read_head pb" and ?c = "(take_syn pb (heap s p))\<lparr>acked_time := clock s\<rparr>"
  consider (rst) "s' = s \<or> (\<exists>dst pk. s' = rdp_output dst pk s)"
    | (ref) d ev where "invoke_event app d 0 a ev (upd_con p (\<lambda>c. c\<lparr>state := CLOSED\<rparr>) s) = Some s'"
    | (opn) d dst pk where "invoke_event app d 0 a CONNECTED
        (rdp_output dst pk (put_con p (?c\<lparr>snd_una := h_acknum ?h, state := OPEN\<rparr>) [] s)) = Some s'"
    | (syn) dst pk where "s' = rdp_output dst pk (put_con p (?c\<lparr>state := SYN_RCVD, syn_time := now s, syn_tout := 1\<rparr>) [] s)"
    using r by (auto simp: in_state_syn_sent_def Let_def split: if_splits)
  then show ?thesis
  proof cases
    case rst
    then show ?thesis using inv evolves_refl evolves_output by blast
  next
    case ref
    then show ?thesis by (rule evolves_closed_event [OF inv])
  next
    case opn
    have e: "evolves s (put_con p (?c\<lparr>snd_una := h_acknum ?h, state := OPEN\<rparr>) [] s)"
      by (rule evolves_put_con [OF inv keeps_opened(1) [OF st refl]])
    note e2 = evolves_trans [OF e evolves_output [OF evolves_inv [OF e]]]
    show ?thesis by (rule evolves_trans [OF e2 evolves_invoke [OF evolves_inv [OF e2] opn]])
  next
    case syn
    have e: "evolves s (put_con p (?c\<lparr>state := SYN_RCVD, syn_time := now s, syn_tout := 1\<rparr>) [] s)"
      by (rule evolves_put_con [OF inv keeps_opened(2) [OF st refl]])
    show ?thesis unfolding syn by (rule evolves_trans [OF e evolves_output [OF evolves_inv [OF e]]])
  qed
qed

end
