(* ===== verification/Rdp_Reach.thy ===== *)
theory Rdp_Reach
  imports Rdp_Steps
begin

section \<open>Reachable states of the RDP machine\<close>

text \<open>
  The remaining segment handlers and the timer keep the invariant too, so every state the
  machine reaches satisfies it.  \<open>rdp_step\<close> is the interleaving the program has: interface
  calls, arriving datagrams, timer expiry and the passage of time, in any order.
\<close>

lemma keeps_syn_rcvd_open: "state c = SYN_RCVD \<Longrightarrow> keeps c (c\<lparr>state := OPEN\<rparr>)"
  using rwnd_inv_cong [of "c\<lparr>state := OPEN\<rparr>" c] by (simp add: keeps_def con_ok_def)

lemma evolves_forget_addr:
  assumes inv: "rdp_inv s" and p: "m_addr2conn s a = Some p"
  shows "evolves s (forget_con (desc (heap s p)) (addr (heap s p)) s)"
proof -
  have "ord_find (m_desc2conn s) (desc (heap s p)) = Some p" using inv p unfolding rdp_inv_def by blast
  then show ?thesis by (rule evolves_forget [OF inv _ refl])
qed

lemma evolves_then_output:
  assumes "evolves s t" "s' = t \<or> (\<exists>dst pk. s' = rdp_output dst pk t)"
  shows "evolves s s'"
  using assms evolves_trans [OF assms(1) evolves_output [OF evolves_inv [OF assms(1)]]] by blast

lemma evolves_accept:
  assumes inv: "rdp_inv s" and st: "state (heap s p) = SYN_RCVD" and r: "syn_rcvd_acked app p a pb s = Some s'"
  shows "evolves s s'"
proof -
  let ?t = "upd_con p (\<lambda>c. c\<lparr>state := OPEN\<rparr>) s"
  have e: "evolves s ?t" using evolves_upd_con [OF inv, where f = "\<lambda>c. c\<lparr>state := OPEN\<rparr>"] keeps_syn_rcvd_open [OF st] by blast
  have inv': "rdp_inv ?t" by (rule evolves_inv [OF e])
  show ?thesis
  proof (cases "is_pasv (heap s p) \<and> listen_left (m_listening ?t) (sport a) = None")
    case True
    then show ?thesis using r
      by (auto simp: syn_rcvd_acked_def Let_def intro: evolves_trans [OF e] evolves_close [OF inv'])
  next
    case False
    then obtain u where u: "u = ?t \<or> (\<exists>l. invoke_event app l (desc (heap s p)) a ACCEPTED ?t = Some u)"
      and r': "s' = u \<or> deliver app p a 20 pb (h_seqnum (read_head pb)) u = Some s'"
      using r by (auto simp: syn_rcvd_acked_def Let_def bind_eq_Some_conv split: option.splits if_splits)
    have e2: "evolves s u" using u evolves_trans [OF e evolves_invoke [OF inv']] e by blast
    show ?thesis using r' evolves_trans [OF e2 evolves_deliver [OF evolves_inv [OF e2]]] e2 by blast
  qed
qed

lemma evolves_syn_rcvd:
  assumes inv: "rdp_inv s" and p: "m_addr2conn s a = Some p" and st: "state (heap s p) = SYN_RCVD"
    and r: "in_state_syn_rcvd app p a pb s = Some s'"
  shows "evolves s s'"
proof -
  let ?fin = "\<lambda>t. s' = t \<or> (\<exists>dst pk. s' = rdp_output dst pk t)"
  consider (quiet) f dst pk where "s' = rdp_output dst pk (upd_con p f s)" "keeps (heap s p) (f (heap s p))"
    | (same) "?fin s"
    | (gone) "?fin (forget_con (desc (heap s p)) (addr (heap s p)) s)"
    | (closed) d ev t where "invoke_event app d 0 a ev (upd_con p (\<lambda>c. c\<lparr>state := CLOSED\<rparr>) s) = Some t" "?fin t"
    | (acc) "syn_rcvd_acked app p a pb s = Some s'"
    using r unfolding in_state_syn_rcvd_def Let_def
    by (simp add: bind_eq_Some_conv split: if_split_asm) (blast intro: keeps_fields)+
  then show ?thesis
  proof cases
    case quiet
    then show ?thesis using evolves_out_upd [OF inv] by blast
  next
    case same
    then show ?thesis by (rule evolves_then_output [OF evolves_refl [OF inv]])
  next
    case gone
    then show ?thesis by (rule evolves_then_output [OF evolves_forget_addr [OF inv p]])
  next
    case closed
    then show ?thesis by (rule evolves_then_output [OF evolves_closed_event [OF inv]])
  next
    case acc
    then show ?thesis by (rule evolves_accept [OF inv st])
  qed
qed

lemma evolves_open:
  assumes inv: "rdp_inv s" and st: "state (heap s p) = OPEN" and r: "in_state_open app p a pb s = Some s'"
  shows "evolves s s'"
proof -
  let ?h = "read_head pb"
  consider (dup) dst pk t where "s' = upd_con p (\<lambda>c. c\<lparr>rcv_ack := rcv_cur c, acked_time := t\<rparr>) (rdp_output dst pk s)"
    | (rst) t u d dst pk where "on_con p (delayed_ack (clock s)) s = Some t"
        "u = upd_con p (\<lambda>c. c\<lparr>state := CLOSE_WAIT_PASV, rst_time := now t, rst_tout := 1, is_retry_rst := True\<rparr>) t"
        "invoke_event app d 0 a RESET (rdp_output dst pk u) = Some s'"
    | (nul) pk where "s' = s \<or> on_con p (rwnd_recv_data (clock s) pk (h_seqnum ?h)) s = Some s'"
    | (syn) d dst pk where "invoke_event app d 0 a RESET (upd_con p (\<lambda>c. c\<lparr>state := CLOSED\<rparr>) (rdp_output dst pk s)) = Some s'"
    | (data) t u hl where "t = s \<or> on_con p (recv_ack (now s) (h_acknum ?h)) s = Some t"
        "u = t \<or> on_con p (\<lambda>c. map_option (\<lambda>c. (c, [])) (run_steps recv_eack (eack_nums pb ?h) c)) t = Some u"
        "s' = u \<or> deliver app p a hl pb (h_seqnum ?h) u = Some s'"
    using r unfolding in_state_open_def Let_def
    by (simp add: bind_eq_Some_conv split_beta split: if_split_asm) blast+
  then show ?thesis
  proof cases
    case dup
    then show ?thesis by (auto intro: evolves_upd_out [OF inv])
  next
    case rst
    obtain c' os where c': "delayed_ack (clock s) (heap s p) = Some (c', os)" and t: "t = put_con p c' os s"
      using rst(1) by (auto simp: on_con_def bind_eq_Some_conv)
    have st': "state (heap t p) = OPEN"
      using rcv_restD(5) [OF delayed_ack_frame [OF c']] st by (simp add: t put_con_def)
    have e: "evolves s t" unfolding t by (rule evolves_put_con [OF inv keeps_delayed_ack [OF c']])
    have "evolves t (rdp_output dst pk u)"
      unfolding rst(2) by (rule evolves_out_upd [OF evolves_inv [OF e]]) (rule keeps_open_closing(2) [OF st'])
    note e2 = evolves_trans [OF e this]
    show ?thesis by (rule evolves_trans [OF e2 evolves_invoke [OF evolves_inv [OF e2] rst(3)]])
  next
    case nul
    then show ?thesis using evolves_refl [OF inv] by (auto intro: evolves_on_con [OF inv] keeps_recv_data)
  next
    case syn
    note e = evolves_output [OF inv, of dst pk]
    show ?thesis by (rule evolves_trans [OF e evolves_closed_event [OF evolves_inv [OF e] syn]])
  next
    case data
    have e1: "evolves s t"
      using data(1) inv evolves_refl evolves_on_con [OF inv] keeps_snd [OF recv_ack_frame] by blast
    have "evolves t u"
      using data(2) evolves_refl [OF evolves_inv [OF e1]]
      by (elim disjE) (auto intro!: evolves_on_con [OF evolves_inv [OF e1]] keeps_snd dest: recv_eacks_frame)
    note e2 = evolves_trans [OF e1 this]
    show ?thesis using data(3) e2 evolves_trans [OF e2 evolves_deliver [OF evolves_inv [OF e2]]] by blast
  qed
qed

lemma evolves_input:
  assumes inv: "rdp_inv s" and r: "input_dgram app src pb s = Some s'"
  shows "evolves s s'"
proof (cases "m_len pb < 20")
  case True
  then show ?thesis using r inv by (simp add: input_dgram_def evolves_refl)
next
  case False
  let ?a = "\<lparr>did = src, dport = h_sport (read_head pb), sport = h_dport (read_head pb)\<rparr>"
  note r' = r [unfolded input_dgram_def if_not_P [OF False] Let_def]
  show ?thesis
  proof (cases "m_addr2conn s ?a")
    case None
    then show ?thesis using r' evolves_in_listen [OF inv None] evolves_in_closed [OF inv] by (auto split: if_splits)
  next
    case (Some p)
    then show ?thesis
      using r' inv evolves_refl evolves_close_wait [OF inv] evolves_syn_sent [OF inv] evolves_syn_rcvd [OF inv Some]
        evolves_open [OF inv] evolves_in_closed [OF inv]
      by (cases "state (heap s p)") auto
  qed
qed

subsection \<open>Timer\<close>

lemma evolves_timer_con:
  assumes inv: "rdp_inv s" and p: "ord_find (m_desc2conn s) d = Some p" and r: "timer_con app d p s = Some s'"
  shows "evolves s s'"
proof -
  consider (syn) "timer_syn app d p s = Some s'" | (cw) "timer_close_wait d p s = Some s'"
    | (opn) "timer_open app p s = Some s'" | (skip) "s' = s"
    using r unfolding timer_con_def by (cases "state (heap s p)") auto
  then show ?thesis
  proof cases
    case syn
    then show ?thesis
      using evolves_forget [OF inv p refl] evolves_refl [OF inv]
      by (auto simp: timer_syn_def Let_def split: if_split_asm intro: evolves_closed_event [OF inv] evolves_upd_out [OF inv])
  next
    case cw
    then show ?thesis
      using evolves_forget [OF inv p refl] evolves_refl [OF inv]
      by (auto simp: timer_close_wait_def Let_def split: if_split_asm intro: evolves_upd_con [OF inv] evolves_out_upd [OF inv])
  next
    case opn
    then obtain ok c' os t where q: "retransmit (m_max_retrans s) (now s) (heap s p) = Some (ok, c', os)"
      and t: "t = put_con p c' os s"
      and r': "invoke_event app (desc c') 0 (addr c') BROKEN t = Some s' \<or> s' = t \<or> on_con p (delayed_ack (clock t)) t = Some s'"
      by (auto simp: timer_open_def bind_eq_Some_conv Let_def split: if_split_asm)
    have e: "evolves s t" unfolding t by (rule evolves_put_con [OF inv keeps_retransmit [OF q]])
    note inv' = evolves_inv [OF e]
    show ?thesis
      using r' e
      by (auto intro: evolves_trans [OF e] evolves_invoke [OF inv'] evolves_on_con [OF inv'] keeps_delayed_ack)
  qed (use inv evolves_refl in blast)
qed

lemma evolves_timer_loop: "rdp_inv s \<Longrightarrow> timer_loop fuel app it s = Some s' \<Longrightarrow> evolves s s'"
proof (induction fuel app it s rule: timer_loop.induct)
  case (2 fuel app it s)
  show ?case
  proof (cases it)
    case None
    then show ?thesis using 2 by (simp add: evolves_refl)
  next
    case (Some d)
    then obtain p t where p: "ord_find (m_desc2conn s) d = Some p" and t: "timer_con app d p s = Some t"
      and r: "timer_loop fuel app (ord_next (m_desc2conn s) d) t = Some s'"
      using 2 by (auto simp: bind_eq_Some_conv)
    have e: "evolves s t" by (rule evolves_timer_con [OF 2(2) p t])
    show ?thesis by (rule evolves_trans [OF e 2(1) [OF Some p refl t evolves_inv [OF e] r]])
  qed
qed simp

lemma evolves_timer:
  assumes inv: "rdp_inv s" and r: "timer_rdp app s = Some s'"
  shows "evolves s s'"
proof -
  have e: "evolves s (s\<lparr>m_timer := Some (clock s + timer_rdp_usec)\<rparr>)" by (rule evolves_fields(8) [OF inv])
  show ?thesis
    using r e evolves_trans [OF e evolves_timer_loop [OF evolves_inv [OF e]]]
    by (auto simp: timer_rdp_def Let_def simp del: timer_loop.simps split: if_split_asm)
qed

subsection \<open>Reachability\<close>

inductive rdp_step :: "app \<Rightarrow> rdp \<Rightarrow> rdp \<Rightarrow> bool" for app where
  step_api: "api x s = Some s' \<Longrightarrow> rdp_step app s s'"
| step_dgram: "input_dgram app src pb s = Some s' \<Longrightarrow> rdp_step app s s'"
| step_timer: "m_timer s = Some t \<Longrightarrow> t \<le> clock s \<Longrightarrow> timer_rdp app s = Some s' \<Longrightarrow> rdp_step app s s'"
| step_tick: "0 \<le> dt \<Longrightarrow> rdp_step app s (s\<lparr>clock := clock s + dt\<rparr>)"

inductive rdp_reach :: "app \<Rightarrow> rdp \<Rightarrow> bool" for app where
  reach_init: "rdp_reach app (rdp_init rs t)"
| reach_step: "rdp_reach app s \<Longrightarrow> rdp_step app s s' \<Longrightarrow> rdp_reach app s'"

inductive_cases rdp_stepE: "rdp_step app s s'"

lemma rdp_inv_init: "rdp_inv (rdp_init rs t)"
  by (simp add: rdp_inv_def rdp_init_def ord_wf_def ord_find_def)

lemma step_evolves: "rdp_step app s s' \<Longrightarrow> rdp_inv s \<Longrightarrow> evolves s s'"
  by (erule rdp_stepE) (auto intro: evolves_api evolves_input evolves_timer evolves_fields)

lemma reach_inv: "rdp_reach app s \<Longrightarrow> rdp_inv s"
  by (induction rule: rdp_reach.induct) (auto intro: rdp_inv_init evolves_inv step_evolves)

lemma run_evolves:
  assumes "(rdp_step app)\<^sup>*\<^sup>* s s'" "rdp_inv s"
  shows "evolves s s'"
  using assms by (induction rule: rtranclp_induct) (auto intro: evolves_refl evolves_trans step_evolves evolves_inv)

end
