(* ===== verification/Rdp_Props.thy ===== *)
theory Rdp_Props
  imports Rdp_Reach
begin

section \<open>Properties of the RDP interface and protocol\<close>

text \<open>
  What holds in every reachable state, and what each interface operation does:
  descriptors, sending, receiving, refused segments, the format of extended
  acknowledgements.
\<close>

subsection \<open>Descriptors\<close>

definition fresh_desc :: "rdp \<Rightarrow> u32 \<Rightarrow> bool" where
  "fresh_desc s r \<longleftrightarrow> 0 < sint r \<and> sint r \<notin> m_desc_set s"

lemma generate_desc_loop_find:
  "generate_desc_loop ds rs =
     (case dropWhile (\<lambda>r. sint r \<in> ds \<or> sint r \<le> 0) rs of [] \<Rightarrow> None | r # rs' \<Rightarrow> Some (sint r, rs'))"
  by (induction ds rs rule: generate_desc_loop.induct) auto

subsection \<open>Receiving\<close>

fun fitting :: "int \<Rightarrow> packetbuf list \<Rightarrow> packetbuf list" where
  "fitting len [] = []"
| "fitting len (pb # q) = (if m_len pb > len then [] else pb # fitting (len - m_len pb) q)"

lemma receive_loop_fitting:
  assumes "\<forall>pb \<in> set q. 0 \<le> m_len pb"
  shows "receive_loop q len acc =
    (acc @ concat (map pbuf_bytes (fitting (len - int (length acc)) q)), drop (length (fitting (len - int (length acc)) q)) q)"
  using assms
proof (induction q len acc rule: receive_loop.induct)
  case (2 pb q len acc)
  have "int (length (acc @ pbuf_bytes pb)) = int (length acc) + m_len pb" using 2(2) by simp
  then show ?case using 2 by (auto simp: algebra_simps)
qed simp

lemma fitting_length:
  assumes "\<forall>pb \<in> set q. 0 \<le> m_len pb" "0 \<le> len"
  shows "int (length (concat (map pbuf_bytes (fitting len q)))) \<le> len"
  using assms by (induction len q rule: fitting.induct) auto

lemma fitting_prefix: "fitting len q = take (length (fitting len q)) q"
  by (induction len q rule: fitting.induct) auto

lemma fitting_maximal:
  assumes "\<forall>pb \<in> set q. 0 \<le> m_len pb" "length (fitting len q) < length q"
  shows "len < int (length (concat (map pbuf_bytes (fitting len q)))) + m_len (q ! length (fitting len q))"
  using assms by (induction len q rule: fitting.induct) (auto simp: algebra_simps)

subsection \<open>Sending\<close>

lemma sint_small: "unat (w :: u32) < 2 ^ 31 \<Longrightarrow> sint w = int (unat w)"
proof -
  assume "unat w < 2 ^ 31"
  then have "nat (uint w) < nat (2 ^ 31)" unfolding unat_eq_nat_uint by simp
  then have "uint w < 2 ^ 31" by linarith
  moreover have "0 \<le> uint w" by (rule unsigned_greater_eq)
  ultimately have "signed_take_bit 31 (uint w) = uint w" by (intro signed_take_bit_int_eq_self) linarith+
  then show ?thesis by (simp add: sint_uint)
qed

lemma send_piece:
  assumes "0 \<le> m" "m \<le> 896" "int (length bs) = m"
  shows "\<exists>pb. append m pbuf_construct = (Some 128, pb) \<and> m_head (pbuf_write 128 bs pb) = 128 \<and>
    m_len (pbuf_write 128 bs pb) = m \<and> pbuf_bytes (pbuf_write 128 bs pb) = bs"
  using assms append_construct [of m] pbuf_read_write_same [of bs "length bs" 128 "pbuf_construct\<lparr>m_len := m\<rparr>"]
  by (auto simp: pbuf_bytes_def)

lemma send_loop_spec:
  assumes "sender iss ps b n (heap s p)" "state (heap s p) = OPEN" "buf \<noteq> []"
    "dmax = sint (sbuf_max (heap s p) - 20)" "0 < dmax" "dmax \<le> 896"
    "m_swnd_len (heap s p) - m_swnd_used (heap s p) < fuel"
  shows "\<exists>k s' qs n'. send_loop fuel p buf tot s = Some (tot + int k, s') \<and> k \<le> length buf \<and>
    concat qs = take k buf \<and> sender iss (ps @ qs) b n' (heap s' p) \<and> (\<forall>q \<in> set qs. q \<noteq> [] \<and> int (length q) \<le> dmax) \<and>
    (k < length buf \<longrightarrow> m_swnd_used (heap s' p) = m_swnd_len (heap s' p)) \<and> (\<forall>j. j \<noteq> p \<longrightarrow> heap s' j = heap s j)"
  using assms
proof (induction fuel arbitrary: ps n buf tot s)
  case (Suc fuel)
  let ?c = "heap s p"
  define m where "m = (if int (length buf) < dmax then int (length buf) else dmax)"
  let ?bs = "take (nat m) buf"
  have sz: "0 < m" "m \<le> 896" "int (length ?bs) = m" "nat m \<le> length buf" using Suc.prems by (auto simp: m_def)
  then obtain pb0 where pb0: "append m pbuf_construct = (Some 128, pb0)"
      "m_head (pbuf_write 128 ?bs pb0) = 128" "m_len (pbuf_write 128 ?bs pb0) = m" "pbuf_bytes (pbuf_write 128 ?bs pb0) = ?bs"
    using send_piece [of m ?bs] by auto
  let ?pb = "pbuf_write 128 ?bs pb0"
  have unf: "send_loop (Suc fuel) p buf tot s = do {
       (ok, c, outs) \<leftarrow> enqueue_swnd (now s) ?pb ?c;
       let s = put_con p c outs s;
       if \<not> ok then Some (tot, s)
       else if int (length buf) - m = 0 then Some (tot + m, s)
       else send_loop fuel p (drop (nat m) buf) (tot + m) s
     }"
    using sz(1) pb0(1) unfolding send_loop.simps Let_def Suc.prems(4) [symmetric] m_def [symmetric] by simp
  show ?case
  proof (cases "m_swnd_used ?c < m_swnd_len ?c")
    case False
    then have "m_swnd_used ?c = m_swnd_len ?c" using Suc.prems(1) by (simp add: sender_def sender_ok_def)
    moreover have "send_loop (Suc fuel) p buf tot s = Some (tot, put_con p ?c [] s)"
      unfolding unf using False by (simp add: enqueue_swnd_def)
    ultimately show ?thesis using Suc.prems(1)
      by (intro exI [of _ 0] exI [of _ "put_con p ?c [] s"] exI [of _ "[]"] exI [of _ n]) (simp add: put_con_def)
  next
    case True
    obtain c' outs k' where q: "enqueue_swnd (now s) ?pb ?c = Some (True, c', outs)"
      and S: "sender iss (ps @ [?bs]) b k' c'" and fr: "snd_rest c' = snd_rest ?c" and used: "m_swnd_used c' = Suc (m_swnd_used ?c)"
      using enqueue_spec [OF Suc.prems(1,2) _ _ True, of ?pb "now s"] pb0 sz by auto
    let ?s = "put_con p c' outs s"
    have heap: "heap ?s p = c'" "\<forall>j. j \<noteq> p \<longrightarrow> heap ?s j = heap s j" by (simp_all add: put_con_def)
    have sb: "sbuf_max c' = sbuf_max ?c" using fr by (cases c'; cases ?c; simp add: snd_rest_def)
    have bs: "?bs \<noteq> [] \<and> int (length ?bs) \<le> dmax" using sz by (auto simp: m_def split: if_splits)
    show ?thesis
    proof (cases "int (length buf) - m = 0")
      case True
      then have "send_loop (Suc fuel) p buf tot s = Some (tot + int (length buf), ?s)" "?bs = buf"
        unfolding unf using q sz by (auto split: if_splits)
      then show ?thesis using S heap bs
        by (intro exI [of _ "length buf"] exI [of _ ?s] exI [of _ "[buf]"] exI [of _ k']) simp
    next
      case False
      have step: "send_loop (Suc fuel) p buf tot s = send_loop fuel p (drop (nat m) buf) (tot + m) ?s"
        unfolding unf using q False by simp
      have pre: "sender iss (ps @ [?bs]) b k' (heap ?s p)" "state (heap ?s p) = OPEN" "drop (nat m) buf \<noteq> []"
        "dmax = sint (sbuf_max (heap ?s p) - 20)" "m_swnd_len (heap ?s p) - m_swnd_used (heap ?s p) < fuel"
        using S heap sb used snd_restD [OF fr] Suc.prems True False sz by auto
      from Suc.IH [OF pre(1-4) Suc.prems(5,6) pre(5)] obtain k s' qs l where
        IH: "send_loop fuel p (drop (nat m) buf) (tot + m) ?s = Some (tot + m + int k, s')"
        "k \<le> length (drop (nat m) buf)" "concat qs = take k (drop (nat m) buf)"
        "sender iss ((ps @ [?bs]) @ qs) b l (heap s' p)" "\<forall>q \<in> set qs. q \<noteq> [] \<and> int (length q) \<le> dmax"
        "k < length (drop (nat m) buf) \<longrightarrow> m_swnd_used (heap s' p) = m_swnd_len (heap s' p)"
        "\<forall>j. j \<noteq> p \<longrightarrow> heap s' j = heap ?s j"
        by metis
      show ?thesis unfolding step
        using IH heap bs sz
        by (intro exI [of _ "nat m + k"] exI [of _ s'] exI [of _ "?bs # qs"] exI [of _ l])
          (auto simp: take_add)
    qed
  qed
qed simp

subsection \<open>Properties\<close>

text \<open>
  Property C2.  In every state the machine can reach, whatever arrives and whatever the
  application calls, the tables agree: a descriptor of a connection is in use and its
  connection object carries it and is the one its address leads to; an address leads to the
  object that carries it, which its descriptor leads to; a listening descriptor is in use,
  belongs to one port and has no connection; descriptors are positive.
\<close>

theorem rdp_tables_agree:
  assumes "rdp_reach app s"
  shows "(\<forall>d p. ord_find (m_desc2conn s) d = Some p \<longrightarrow>
      d \<in> m_desc_set s \<and> desc (heap s p) = d \<and> m_addr2conn s (addr (heap s p)) = Some p) \<and>
    (\<forall>a p. m_addr2conn s a = Some p \<longrightarrow> addr (heap s p) = a \<and> ord_find (m_desc2conn s) (desc (heap s p)) = Some p) \<and>
    (\<forall>port d. listen_left (m_listening s) port = Some d \<longrightarrow>
      d \<in> m_desc_set s \<and> listen_right (m_listening s) d = Some port \<and> ord_find (m_desc2conn s) d = None) \<and>
    (\<forall>d \<in> m_desc_set s. 0 < d) \<and> ord_wf (m_desc2conn s)"
proof -
  have inv: "rdp_inv s" by (rule reach_inv [OF assms])
  have "d \<in> m_desc_set s \<and> listen_right (m_listening s) d = Some port \<and> ord_find (m_desc2conn s) d = None"
    if "listen_left (m_listening s) port = Some d" for port d
  proof -
    have m: "(port, d) \<in> set (m_listening s)" using that by (simp add: listen_left_def map_of_SomeD)
    moreover have "distinct (map fst (map (\<lambda>(p, e). (e, p)) (m_listening s)))"
      using inv by (simp add: rdp_inv_def comp_def case_prod_unfold)
    moreover have "(d, port) \<in> set (map (\<lambda>(p, e). (e, p)) (m_listening s))" using m by force
    ultimately show ?thesis using inv by (force simp: rdp_inv_def listen_right_def intro: map_of_is_SomeI)
  qed
  then show ?thesis using inv unfolding rdp_inv_def by blast
qed

definition silent :: app where
  "silent = (\<lambda>_ _ _ _ _. [])"

definition listener :: "u32 list \<Rightarrow> rdp" where
  "listener rs = snd (the (listen 5000 1 (rdp_init (7 # rs) 0)))"

lemma listener_eq:
  "listener rs = (rdp_init rs 0)\<lparr>m_desc_set := {7}, m_listening := [(5000, 7)], m_desc2event := [7 \<mapsto> 1]\<rparr>"
  by (simp add: listener_def listen_def generate_desc_def rdp_init_def listen_left_def listen_insert_def listen_right_def)

lemma listener_reach: "rdp_reach app (listener rs)"
  by (rule reach_step [OF reach_init [of app "7 # rs" 0] step_api [where x = "ApiListen 5000 1"]])
    (simp add: listener_def listen_def generate_desc_def rdp_init_def listen_left_def)

theorem rdp_tables_agree_witness:
  "7 \<in> m_desc_set (listener []) \<and> listen_right (m_listening (listener [])) 7 = Some 5000 \<and>
   ord_find (m_desc2conn (listener [])) 7 = None"
proof -
  have "listen_left (m_listening (listener [])) 5000 = Some 7" by (simp add: listener_eq listen_left_def)
  then show ?thesis using rdp_tables_agree [OF listener_reach [of silent "[]"]] by blast
qed

text \<open>
  Property C3.  Along every run, a connection object keeps its address and its descriptor
  and its state only moves forward: from SYN-SENT and SYN-RCVD to OPEN, from there to one of
  the CLOSE-WAIT states, and to CLOSED from everywhere.  A closed connection never reopens,
  a CLOSE-WAIT connection is never open again.
\<close>

theorem connections_move_forward:
  assumes "rdp_reach app s" "(rdp_step app)\<^sup>*\<^sup>* s s'" "p < next_ptr s"
  shows "addr (heap s' p) = addr (heap s p) \<and> desc (heap s' p) = desc (heap s p) \<and>
    leads_to (state (heap s p)) (state (heap s' p)) \<and> (state (heap s p) = CLOSED \<longrightarrow> state (heap s' p) = CLOSED)"
proof -
  have "keeps (heap s p) (heap s' p)"
    using run_evolves [OF assms(2) reach_inv [OF assms(1)]] assms(3) by (simp add: evolves_def)
  moreover have "leads_to CLOSED st \<longleftrightarrow> st = CLOSED" for st by (cases st) simp_all
  ultimately show ?thesis unfolding keeps_def by metis
qed

definition caller :: "u32 list \<Rightarrow> rdp" where
  "caller rs = snd (the (connect 4000 (bn_fill_max 5) 5000 1 (rdp_init (100 # 7 # rs) 0)))"

lemma caller_eq:
  "caller rs = rdp_output (bn_fill_max 5)
     (syn_seg (flag_syn OR flag_ver) \<lparr>did = bn_fill_max 5, dport = 5000, sport = 4000\<rparr> 100 0 rcv_max_default rbuf_max_default)
     ((add_con 7 (active_con \<lparr>did = bn_fill_max 5, dport = 5000, sport = 4000\<rparr> 100 0) (rdp_init rs 0))\<lparr>m_desc2event := [7 \<mapsto> 1]\<rparr>)"
  by (simp add: caller_def connect_def generate_desc_def rdp_init_def m_rnd_def now_def Let_def)

lemma caller_reach: "rdp_reach app (caller rs)"
  by (rule reach_step [OF reach_init [of app "100 # 7 # rs" 0] step_api [where x = "ApiConnect 4000 (bn_fill_max 5) 5000 1"]])
    (simp add: caller_def connect_def generate_desc_def rdp_init_def m_rnd_def Let_def)

theorem connections_move_forward_witness:
  "state (heap (the (close 7 (caller []))) 0) = CLOSED \<and> desc (heap (the (close 7 (caller []))) 0) = 7"
proof -
  have "rdp_step silent (caller []) (the (close 7 (caller [])))"
    by (rule step_api [where x = "ApiClose 7"])
      (simp add: close_def caller_eq rdp_output_def add_con_def rdp_init_def listen_right_def ord_find_def active_con_def Let_def)
  then show ?thesis
    using connections_move_forward [OF caller_reach [of silent "[]"], of "the (close 7 (caller []))" 0]
    by (simp add: close_def caller_eq rdp_output_def add_con_def rdp_init_def listen_right_def ord_find_def active_con_def
        upd_con_def forget_con_def Let_def)
qed

text \<open>
  \<^verbatim>\<open>generate_desc\<close> ends exactly when the random source eventually gives a
  positive number that is not in use, and then returns the first such number.
\<close>

lemma generate_desc_returns_first_fresh:
  "(generate_desc s \<noteq> None \<longleftrightarrow> (\<exists>r \<in> set (rnds s). fresh_desc s r)) \<and>
   (\<forall>d s'. generate_desc s = Some (d, s') \<longrightarrow> 0 < d \<and> d \<notin> m_desc_set s \<and>
      (\<exists>used r rs. rnds s = used @ r # rs \<and> d = sint r \<and> (\<forall>u \<in> set used. \<not> fresh_desc s u) \<and> s' = s\<lparr>rnds := rs\<rparr>))"
proof -
  let ?bad = "\<lambda>r. sint r \<in> m_desc_set s \<or> sint r \<le> 0"
  have bad: "?bad r \<longleftrightarrow> \<not> fresh_desc s r" for r by (auto simp: fresh_desc_def)
  show ?thesis
  proof (cases "dropWhile ?bad (rnds s)")
    case Nil
    have "generate_desc s = None" unfolding generate_desc_def generate_desc_loop_find Nil by simp
    moreover have "\<forall>r \<in> set (rnds s). \<not> fresh_desc s r" using Nil by (simp add: dropWhile_eq_Nil_conv bad)
    ultimately show ?thesis by simp
  next
    case (Cons r rs)
    have split: "rnds s = takeWhile ?bad (rnds s) @ r # rs"
      using takeWhile_dropWhile_id [of ?bad "rnds s"] unfolding Cons by simp
    have "\<not> ?bad r" using hd_dropWhile [of ?bad "rnds s"] unfolding Cons by simp
    then have r: "fresh_desc s r" by (simp add: bad)
    have "\<forall>u \<in> set (takeWhile ?bad (rnds s)). \<not> fresh_desc s u" by (auto dest!: set_takeWhileD simp: bad)
    moreover have "r \<in> set (rnds s)" by (subst split) simp
    moreover have "generate_desc s = Some (sint r, s\<lparr>rnds := rs\<rparr>)"
      using Cons by (simp add: generate_desc_def generate_desc_loop_find)
    ultimately show ?thesis using r split by (force simp: fresh_desc_def)
  qed
qed

lemma generate_desc_returns_first_fresh_witness:
  "fst (the (generate_desc (rdp_init [0xffffffff, 0, 9] 0))) = 9 \<and> (9 :: int) \<notin> m_desc_set (rdp_init [0xffffffff, 0, 9] 0)"
proof -
  have g: "generate_desc (rdp_init [0xffffffff, 0, 9] 0) = Some (9, rdp_init [] 0)"
    by (simp add: generate_desc_def rdp_init_def)
  then have "(9 :: int) \<notin> m_desc_set (rdp_init [0xffffffff, 0, 9] 0)"
    using generate_desc_returns_first_fresh [of "rdp_init [0xffffffff, 0, 9] 0"] by blast
  then show ?thesis by (simp add: g)
qed

text \<open>
  \<^verbatim>\<open>receive\<close> returns the bytes of the longest prefix of the read queue that
  fits into the caller's buffer, whole segments only, never more than the buffer holds, and
  removes exactly those segments.
\<close>

lemma receive_takes_fitting_prefix:
  assumes "ord_find (m_desc2conn s) d = Some p" "\<forall>pb \<in> set (rqueue (heap s p)). 0 \<le> m_len pb" "0 \<le> len"
  shows "\<exists>k. receive d len s = (concat (map pbuf_bytes (take k (rqueue (heap s p)))),
        upd_con p (\<lambda>c. c\<lparr>rqueue := drop k (rqueue (heap s p))\<rparr>) s) \<and> k \<le> length (rqueue (heap s p)) \<and>
      int (length (fst (receive d len s))) \<le> len \<and>
      (k < length (rqueue (heap s p)) \<longrightarrow> len < int (length (fst (receive d len s))) + m_len (rqueue (heap s p) ! k))"
proof -
  let ?q = "rqueue (heap s p)" and ?f = "fitting len (rqueue (heap s p))"
  have pre: "?f = take (length ?f) ?q" by (rule fitting_prefix)
  have r: "receive d len s = (concat (map pbuf_bytes ?f), upd_con p (\<lambda>c. c\<lparr>rqueue := drop (length ?f) ?q\<rparr>) s)"
    using assms(1) receive_loop_fitting [OF assms(2), of len "[]"] by (simp add: receive_def)
  have "length ?f \<le> length ?q" using pre by (metis length_take min.bounded_iff order_refl)
  moreover have "receive d len s = (concat (map pbuf_bytes (take (length ?f) ?q)),
      upd_con p (\<lambda>c. c\<lparr>rqueue := drop (length ?f) ?q\<rparr>) s)"
    using r pre by simp
  ultimately show ?thesis
    using fitting_length [OF assms(2,3)] fitting_maximal [OF assms(2), of len] r
    by (intro exI [of _ "length ?f"]) simp
qed

definition open_pair :: "rdp_con \<Rightarrow> rdp" where
  "open_pair c = (caller [])\<lparr>heap := (\<lambda>_. c)\<rparr>"

lemma open_pair_find: "ord_find (m_desc2conn (open_pair c)) 7 = Some 0" "heap (open_pair c) = (\<lambda>_. c)"
  by (simp_all add: open_pair_def caller_eq rdp_output_def add_con_def rdp_init_def ord_find_def Let_def)

lemma receive_takes_fitting_prefix_witness:
  "fst (receive 7 5 (open_pair (sample_con\<lparr>rqueue := [sample_pbuf, sample_pbuf]\<rparr>))) = [1, 2, 3]"
proof -
  let ?q = "[sample_pbuf, sample_pbuf]" and ?s = "open_pair (sample_con\<lparr>rqueue := [sample_pbuf, sample_pbuf]\<rparr>)"
  have len: "m_len sample_pbuf = 3" "pbuf_bytes sample_pbuf = [1, 2, 3]"
    using send_piece [of 3 "[1, 2, 3]"] append_construct [of 3] by (auto simp: sample_pbuf_def)
  have q: "rqueue (heap ?s 0) = ?q" by (simp add: open_pair_find)
  have pos: "\<forall>pb \<in> set (rqueue (heap ?s 0)). 0 \<le> m_len pb" by (simp add: q len)
  obtain k where k: "receive 7 5 ?s = (concat (map pbuf_bytes (take k ?q)), upd_con 0 (\<lambda>c. c\<lparr>rqueue := drop k ?q\<rparr>) ?s)"
      "k \<le> length ?q" "int (length (fst (receive 7 5 ?s))) \<le> 5"
      "k < length ?q \<longrightarrow> 5 < int (length (fst (receive 7 5 ?s))) + m_len (?q ! k)"
    using receive_takes_fitting_prefix [OF open_pair_find(1) pos, of 5] unfolding q by (meson zero_le_numeral)
  consider "k = 0" | "k = 1" | "k = 2" using k(2) by force
  then have "k = 1" by cases (use k len in simp_all)
  then show ?thesis using k(1) by (simp add: len)
qed

text \<open>
  On an open connection whose peer accepts segments with data, \<^verbatim>\<open>send\<close>
  returns (its loop ends and nothing faults) the number of bytes it took: exactly the first
  bytes of the caller's buffer, cut into non-empty segments of at most \<^verbatim>\<open>sbuf_max\<close> less
  the header, are appended to the payloads of the send window; fewer than all are taken only
  when the window is full.
\<close>

lemma send_takes_prefix:
  assumes "ord_find (m_desc2conn s) d = Some p" "state (heap s p) = OPEN" "sender iss ps b n (heap s p)"
    "20 < sbuf_max (heap s p)" "sbuf_max (heap s p) \<le> sbuf_limit"
  shows "\<exists>k s' qs n'. send d buf s = Some (int k, s') \<and> k \<le> length buf \<and> concat qs = take k buf \<and>
    sender iss (ps @ qs) b n' (heap s' p) \<and> (\<forall>q \<in> set qs. q \<noteq> [] \<and> length q \<le> unat (sbuf_max (heap s p)) - 20) \<and>
    (k < length buf \<longrightarrow> m_swnd_used (heap s' p) = m_swnd_len (heap s' p))"
proof (cases "buf = []")
  case True
  then show ?thesis using assms by (intro exI [of _ 0] exI [of _ s] exI [of _ "[]"] exI [of _ n]) (simp add: send_def)
next
  case False
  have u: "unat (sbuf_max (heap s p)) \<le> 884" "20 < unat (sbuf_max (heap s p))"
    using assms(4,5) by (simp_all add: sbuf_limit_def word_le_nat_alt word_less_nat_alt)
  then have sub: "unat (sbuf_max (heap s p) - 20) = unat (sbuf_max (heap s p)) - 20"
    by (simp add: unat_sub word_le_nat_alt)
  have dmax: "sint (sbuf_max (heap s p) - 20) = int (unat (sbuf_max (heap s p)) - 20)"
    using u by (simp add: sint_small sub del: of_nat_diff of_nat_unat)
  have pos: "0 < sint (sbuf_max (heap s p) - 20)" "sint (sbuf_max (heap s p) - 20) \<le> 896" using u unfolding dmax by (simp_all del: of_nat_diff of_nat_unat)
  have fuel: "m_swnd_len (heap s p) - m_swnd_used (heap s p) < Suc (m_swnd_len (heap s p))" by simp
  have "send d buf s = send_loop (Suc (m_swnd_len (heap s p))) p buf 0 s"
    using assms(1,2) False by (simp add: send_def del: send_loop.simps)
  then show ?thesis
    using send_loop_spec [OF assms(3,2) False refl pos fuel, of 0] unfolding dmax by (metis add_0 of_nat_le_iff)
qed

lemma send_takes_prefix_witness:
  "\<exists>k s' qs. send 7 [1, 2, 3, 4] (open_pair (init_swnd sample_con)) = Some (int k, s') \<and> concat qs = take k [1, 2, 3, 4 :: u8]"
proof -
  let ?c = "init_swnd sample_con"
  have S: "sender 100 [] 0 0 ?c" by (rule fresh_sender) (simp_all add: sample_con_def)
  have c: "state ?c = OPEN" "20 < sbuf_max ?c" "sbuf_max ?c \<le> sbuf_limit"
    by (simp_all add: sample_con_def init_swnd_def sbuf_limit_def)
  show ?thesis
    using send_takes_prefix [of "open_pair ?c" 7 0 100 "[]" 0 0 "[1, 2, 3, 4]"] S c open_pair_find [of ?c] by auto
qed

text \<open>
  A segment for a closed connection, or for a port where nobody listens,
  changes nothing but the output: a RST is dropped, anything else is answered with exactly
  one RST from the addressed port to the sender, whose sequence number is the acknowledged
  one plus one or whose acknowledgement is the sequence number received.  That answer is in
  turn dropped by any peer that has no open connection for it, so two closed ends never
  exchange more than one reply.
\<close>

definition closed_at :: "rdp \<Rightarrow> rdp_addr \<Rightarrow> bool" where
  "closed_at s a \<longleftrightarrow> (case m_addr2conn s a of Some p \<Rightarrow> state (heap s p) = CLOSED | None \<Rightarrow> True)"

lemma ctl_seg_simps [simp]:
  "m_len (ctl_seg fl a seq ack) = 20" "h_flags (read_head (ctl_seg fl a seq ack)) = fl"
  "h_sport (read_head (ctl_seg fl a seq ack)) = sport a" "h_dport (read_head (ctl_seg fl a seq ack)) = dport a"
  "h_seqnum (read_head (ctl_seg fl a seq ack)) = seq" "h_acknum (read_head (ctl_seg fl a seq ack)) = ack"
  "h_dlen (read_head (ctl_seg fl a seq ack)) = 0"
  by (simp_all add: ctl_seg_def zero_head_def)

lemma closed_port_resets:
  assumes "20 \<le> m_len pb" "h = read_head pb" "a = \<lparr>did = src, dport = h_sport h, sport = h_dport h\<rparr>"
    and "closed_at s a" "m_addr2conn s a = None \<longrightarrow> listen_left (m_listening s) (h_dport h) = None"
  shows "\<exists>reply. input_dgram app src pb s = Some (if has_flag h flag_rst then s else rdp_output src reply s) \<and>
    has_flag (read_head reply) flag_rst \<and> m_len reply = 20 \<and>
    h_sport (read_head reply) = h_dport h \<and> h_dport (read_head reply) = h_sport h \<and>
    (if has_flag h flag_ack \<or> has_flag h flag_nul then h_seqnum (read_head reply) = h_acknum h + 1
     else has_flag (read_head reply) flag_ack \<and> h_acknum (read_head reply) = h_seqnum h) \<and>
    (\<forall>t me. closed_at t \<lparr>did = me, dport = h_dport h, sport = h_sport h\<rparr> \<longrightarrow> input_dgram app me reply t = Some t)"
proof -
  let ?r = "if has_flag h flag_ack \<or> has_flag h flag_nul then ctl_seg (flag_rst OR flag_ver) a (h_acknum h + 1) 0
     else ctl_seg (flag_rst OR flag_ack OR flag_ver) a 0 (h_seqnum h)"
  have rst: "has_flag (read_head ?r) flag_rst" by (simp add: has_flag_def flag_defs)
  have ports: "h_sport (read_head ?r) = h_dport h" "h_dport (read_head ?r) = h_sport h" "m_len ?r = 20"
    using assms(3) by simp_all
  have "input_dgram app src pb s = in_state_closed a pb s"
    using assms(1,4,5) unfolding input_dgram_def closed_at_def Let_def assms(2) [symmetric] assms(3) [symmetric]
    by (auto split: option.splits)
  then have "input_dgram app src pb s = Some (if has_flag h flag_rst then s else rdp_output src ?r s)"
    using assms(2,3) by (simp add: in_state_closed_def Let_def)
  moreover have "input_dgram app me ?r t = Some t"
    if "closed_at t \<lparr>did = me, dport = h_dport h, sport = h_sport h\<rparr>" for t me
    using that rst ports unfolding input_dgram_def closed_at_def Let_def
    by (auto simp: in_state_closed_def in_state_listen_def Let_def split: option.splits)
  moreover have "if has_flag h flag_ack \<or> has_flag h flag_nul then h_seqnum (read_head ?r) = h_acknum h + 1
     else has_flag (read_head ?r) flag_ack \<and> h_acknum (read_head ?r) = h_seqnum h"
    by (simp add: has_flag_def flag_defs)
  ultimately show ?thesis using rst ports by blast
qed

lemma closed_port_resets_witness:
  "\<exists>reply. input_dgram silent [] (ctl_seg flag_ack \<lparr>did = [], dport = 80, sport = 90\<rparr> 5 6) (rdp_init [] 0) =
     Some (rdp_output [] reply (rdp_init [] 0)) \<and> h_seqnum (read_head reply) = 7"
proof -
  let ?pb = "ctl_seg flag_ack \<lparr>did = [], dport = 80, sport = 90\<rparr> 5 6"
  have "closed_at (rdp_init [] 0) a" "m_addr2conn (rdp_init [] 0) a = None" "listen_left (m_listening (rdp_init [] 0)) port = None"
    for a port by (simp_all add: closed_at_def rdp_init_def listen_left_def)
  moreover have "has_flag (read_head ?pb) flag_ack" "\<not> has_flag (read_head ?pb) flag_rst"
    by (simp_all add: has_flag_def flag_defs)
  ultimately show ?thesis
    using closed_port_resets [of ?pb "read_head ?pb" _ "[]" "rdp_init [] 0" silent] by fastforce
qed

text \<open>
  The extended acknowledgements of a segment that \<^verbatim>\<open>delayed_ack\<close> builds, at
  most \<^verbatim>\<open>MAX_EACK\<close> of them, are read back by the receiver exactly: their number from the
  header length, their values from behind the header, together with the cumulative
  acknowledgement.
\<close>

lemma pbuf_read_concat:
  assumes "\<forall>b \<in> set bs. length b = 4" "i < length bs"
  shows "pbuf_read (pbuf_write off (concat bs) p) (off + 4 * int i) 4 = bs ! i"
proof -
  have len: "length (concat xs) = 4 * length xs" if "\<forall>b \<in> set xs. length b = 4" for xs :: "u8 list list"
    using that by (induction xs) auto
  have pre: "length (concat (take i bs)) = 4 * i" using len [of "take i bs"] assms by (auto dest: in_set_takeD)
  have split: "concat bs = concat (take i bs) @ bs ! i @ concat (drop (Suc i) bs)"
    using id_take_nth_drop [OF assms(2)] by (metis concat.simps(2) concat_append)
  have "length (bs ! i) = 4" using assms by simp
  then have "concat bs ! (4 * i + k) = bs ! i ! k" if "k < 4" for k
    unfolding split using that pre by (simp add: nth_append)
  moreover have "4 * int i + int k < 4 * int (length bs)" if "k < 4" for k using that assms(2) by linarith
  ultimately show ?thesis
    using \<open>length (bs ! i) = 4\<close> len [OF assms(1)]
    by (intro nth_equalityI) (auto simp: pbuf_read_def pbuf_write_def nat_add_distrib nat_mult_distrib)
qed

lemma eack_segment_roundtrip:
  assumes "length seqs \<le> MAX_EACK"
  shows "eack_nums (ack_seg c seqs) (read_head (ack_seg c seqs)) = seqs \<and>
    has_flag (read_head (ack_seg c seqs)) flag_ack \<and>
    has_flag (read_head (ack_seg c seqs)) flag_eak = (seqs \<noteq> []) \<and>
    h_acknum (read_head (ack_seg c seqs)) = rcv_cur c \<and> h_seqnum (read_head (ack_seg c seqs)) = snd_nxt c \<and>
    m_len (ack_seg c seqs) = 2 * int (unat (h_hlen (read_head (ack_seg c seqs)))) \<and>
    m_len (ack_seg c seqs) = 20 + 4 * int (length seqs)"
proof (cases "seqs = []")
  case True
  then show ?thesis by (simp add: ack_seg_def Let_def zero_head_def has_flag_def flag_defs eack_nums_def eack_count_def)
next
  case False
  let ?n = "length seqs"
  define h where "h = zero_head\<lparr>h_flags := (flag_ack OR flag_ver) OR flag_eak, h_hlen := 10 + of_nat (4 * ?n div 2),
     h_sport := sport (addr c), h_dport := dport (addr c), h_seqnum := snd_nxt c, h_acknum := rcv_cur c\<rparr>"
  let ?bs = "map htonl_bytes seqs"
  define q where "q = snd (append (4 * int ?n) (new_seg h))"
  let ?p = "pbuf_write 148 (concat ?bs) q"
  have n: "?n \<le> 64" using assms by (simp add: MAX_EACK_def)
  have q: "q = (new_seg h)\<lparr>m_len := 20 + 4 * int ?n\<rparr>" using n by (simp add: q_def append_def pbuf_consts)
  have p: "ack_seg c seqs = ?p" using False by (simp add: ack_seg_def Let_def zero_head_def q_def h_def)
  have "pbuf_read ?p 128 20 = pbuf_read (new_seg h) 128 20"
    unfolding q by (subst pbuf_read_write_other) (simp_all add: pbuf_read_def)
  then have h: "read_head ?p = h" using read_head_new_seg [of h] by (simp add: read_head_def q)
  have hl: "unat (10 + of_nat (4 * ?n div 2) :: u8) = 10 + 2 * ?n" "unat (of_nat (4 * ?n div 2) :: u8) = 2 * ?n"
    using n by (simp_all add: unat_word_ariths unat_of_nat)
  have cnt: "eack_count h = ?n" using hl(2) by (simp add: eack_count_def h_def)
  have "pbuf_read ?p (148 + 4 * int i) 4 = htonl_bytes (seqs ! i)" if "i < ?n" for i
    using pbuf_read_concat [of ?bs i 148 q] that by simp
  then have "eack_nums ?p h = seqs"
    by (intro nth_equalityI) (simp_all add: eack_nums_def cnt q)
  then show ?thesis
    unfolding p h using False hl by (simp add: q h_def has_flag_def flag_defs)
qed

lemma eack_segment_roundtrip_witness:
  "eack_nums (ack_seg rdp_con_new [7, 9]) (read_head (ack_seg rdp_con_new [7, 9])) = [7, 9]"
  using eack_segment_roundtrip [of "[7, 9]" rdp_con_new] by (simp add: MAX_EACK_def)

end
