(* ===== verification/Rdp_Handshake.thy ===== *)
theory Rdp_Handshake
  imports Rdp_Props
begin

section \<open>Opening a connection between two machines\<close>

text \<open>
  The three-way handshake between two instances of the protocol machine, and what an opener
  does when nobody answers: how often the timer repeats the SYN.
\<close>

lemma syn_seg_simps [simp]:
  "m_len (syn_seg fl a seq ack rm rb) = 24" "h_flags (read_head (syn_seg fl a seq ack rm rb)) = fl"
  "h_sport (read_head (syn_seg fl a seq ack rm rb)) = sport a" "h_dport (read_head (syn_seg fl a seq ack rm rb)) = dport a"
  "h_seqnum (read_head (syn_seg fl a seq ack rm rb)) = seq" "h_acknum (read_head (syn_seg fl a seq ack rm rb)) = ack"
  "read_syn (syn_seg fl a seq ack rm rb) = (ucast rm, ucast rb)"
  by (simp_all add: syn_seg_def zero_head_def)

abbreviation syn_of :: "rdp_addr \<Rightarrow> u32 \<Rightarrow> packetbuf" where
  "syn_of a iss \<equiv> syn_seg (flag_syn OR flag_ver) a iss 0 rcv_max_default rbuf_max_default"

abbreviation synack_of :: "rdp_addr \<Rightarrow> u32 \<Rightarrow> u32 \<Rightarrow> packetbuf" where
  "synack_of a iss irs \<equiv> syn_seg (flag_syn OR flag_ack OR flag_ver) a iss irs rcv_max_default rbuf_max_default"

abbreviation ack_of :: "rdp_addr \<Rightarrow> u32 \<Rightarrow> u32 \<Rightarrow> packetbuf" where
  "ack_of a seq irs \<equiv> ctl_seg (flag_ack OR flag_ver) a seq irs"

lemma handshake_flags [simp]:
  "has_flag (read_head (syn_of a iss)) flag_syn" "\<not> has_flag (read_head (syn_of a iss)) flag_rst"
  "\<not> has_flag (read_head (syn_of a iss)) flag_ack" "\<not> has_flag (read_head (syn_of a iss)) flag_nul"
  "has_flag (read_head (synack_of a iss irs)) flag_syn" "\<not> has_flag (read_head (synack_of a iss irs)) flag_rst"
  "has_flag (read_head (synack_of a iss irs)) flag_ack"
  "has_flag (read_head (ack_of a s irs)) flag_ack" "\<not> has_flag (read_head (ack_of a s irs)) flag_rst"
  "\<not> has_flag (read_head (ack_of a s irs)) flag_syn" "\<not> has_flag (read_head (ack_of a s irs)) flag_eak"
  "\<not> has_flag (read_head (ack_of a s irs)) flag_nul"
  by (simp_all add: has_flag_def flag_defs)

lemma generate_desc_head:
  "rnds s = r # rs \<Longrightarrow> fresh_desc s r \<Longrightarrow> generate_desc s = Some (sint r, s\<lparr>rnds := rs\<rparr>)"
  by (simp add: generate_desc_def fresh_desc_def)

lemma connect_eq:
  assumes "sp \<noteq> 0" "a = \<lparr>did = dst, dport = dp, sport = sp\<rparr>" "m_addr2conn s a = None"
    "rnds s = iss # r # rs" "fresh_desc s r"
  shows "connect sp dst dp func s = Some (sint r, rdp_output dst (syn_of a iss)
    ((add_con (sint r) (active_con a iss (now s)) (s\<lparr>rnds := rs\<rparr>))\<lparr>m_desc2event := (m_desc2event s)(sint r \<mapsto> func)\<rparr>))"
proof -
  have "generate_desc (s\<lparr>rnds := r # rs\<rparr>) = Some (sint r, s\<lparr>rnds := rs\<rparr>)"
    using assms(5) by (simp add: generate_desc_def fresh_desc_def)
  then show ?thesis using assms by (simp add: connect_def m_rnd_def Let_def now_def)
qed

lemma listen_syn_eq:
  assumes "listen_left (m_listening s) (dport b) = Some l" "a = \<lparr>did = src, dport = sport b, sport = dport b\<rparr>"
    "m_addr2conn s a = None" "rnds s = iss # r # rs" "fresh_desc s r"
  shows "input_dgram app src (syn_of b irs) s = Some (rdp_output src (synack_of a iss irs)
    (add_con (sint r) (passive_con a (syn_of b irs) iss (now s) (clock s)) (s\<lparr>rnds := rs\<rparr>)))"
proof -
  have "generate_desc (s\<lparr>rnds := r # rs\<rparr>) = Some (sint r, s\<lparr>rnds := rs\<rparr>)"
    using assms(5) by (simp add: generate_desc_def fresh_desc_def)
  then show ?thesis using assms by (simp add: input_dgram_def in_state_listen_def m_rnd_def Let_def now_def)
qed

lemma silent_event:
  assumes "m_desc_closed s = []" "m_desc2event s d = Some cb"
  shows "invoke_event silent d 0 a ev s = Some (s\<lparr>events := events s @ [(d, a, ev)], m_is_invoke := False\<rparr>)"
  using assms by (simp add: invoke_event_def call_app_def silent_def)

lemma silent_accept:
  assumes "m_desc2event s l = Some cb" "0 < d" "m_desc2event s d = None"
  shows "invoke_event silent l d a ACCEPTED s =
    Some (s\<lparr>events := events s @ [(d, a, ACCEPTED)], m_desc2event := (m_desc2event s)(d \<mapsto> cb)\<rparr>)"
  using assms by (simp add: invoke_event_def call_app_def silent_def)

definition opened :: "packetbuf \<Rightarrow> u32 \<Rightarrow> int \<Rightarrow> rdp_con \<Rightarrow> rdp_con" where
  "opened pb una usec c = (take_syn pb c)\<lparr>acked_time := usec, snd_una := una, state := OPEN\<rparr>"

lemma synack_eq:
  assumes "a = \<lparr>did = src, dport = sport b, sport = dport b\<rparr>" "m_addr2conn s a = Some p"
    "state (heap s p) = SYN_SENT" "snd_iss (heap s p) = iss" "desc (heap s p) = d"
    "m_desc_closed s = []" "m_desc2event s d = Some cb"
  shows "input_dgram silent src (synack_of b irs iss) s = Some ((rdp_output src (ack_of a (snd_nxt (heap s p)) irs)
     (put_con p (opened (synack_of b irs iss) iss (clock s) (heap s p)) [] s))
       \<lparr>events := events s @ [(d, a, CONNECTED)], m_is_invoke := False\<rparr>)"
  using assms
  by (simp add: input_dgram_def in_state_syn_sent_def Let_def opened_def silent_event rdp_output_def put_con_def)

lemma ack_eq:
  assumes "a = \<lparr>did = src, dport = sport b, sport = dport b\<rparr>" "m_addr2conn s a = Some p" "heap s p = c"
    "state c = SYN_RCVD" "is_pasv c" "snd_iss c = iss" "desc c = d" "rcv_irs c = rcv_cur c" "rcv_max c = rcv_max_default"
    "seq = rcv_cur c + 1" "0 < d" "listen_left (m_listening s) (dport b) = Some l" "m_desc2event s l = Some cb"
    "m_desc2event s d = None"
  shows "input_dgram silent src (ack_of b seq iss) s = Some ((upd_con p (\<lambda>c. c\<lparr>state := OPEN\<rparr>) s)
     \<lparr>events := events s @ [(d, a, ACCEPTED)], m_desc2event := (m_desc2event s)(d \<mapsto> cb)\<rparr>)"
  using assms
  by (simp add: input_dgram_def in_state_syn_rcvd_def syn_rcvd_acked_def Let_def upd_con_def silent_accept rcv_max_default_def)

lemma take_syn_window [simp]:
  "snd_max (take_syn (syn_seg fl a q k rcv_max_default rbuf_max_default) c) = rcv_max_default"
  "sbuf_max (take_syn (syn_seg fl a q k rcv_max_default rbuf_max_default) c) = sbuf_limit"
  by (simp_all add: take_syn_def Let_def init_swnd_def init_rwnd_def limit_sbuf_def rcv_max_default_def
      rbuf_max_default_def sbuf_limit_def)

lemma sender_cong:
  assumes "m_swnd c' = m_swnd c" "m_swnd_len c' = m_swnd_len c" "m_swnd_head c' = m_swnd_head c"
    "m_swnd_used c' = m_swnd_used c" "m_swnd_ostand c' = m_swnd_ostand c" "snd_max c' = snd_max c"
    "snd_una c' = snd_una c" "snd_nxt c' = snd_nxt c"
  shows "sender iss ps b n c' = sender iss ps b n c"
proof -
  have "sview c' = sview c" using assms by (simp add: sview_def)
  then show ?thesis using assms by (simp add: sender_def sender_ok_def)
qed

lemma take_syn_sender:
  assumes "snd_nxt c = iss + 1" "snd_una c = iss"
  shows "sender iss [] 0 0 (take_syn (syn_seg fl a q k rcv_max_default rbuf_max_default) c)"
proof -
  let ?e = "c\<lparr>rcv_cur := q, rcv_irs := q, rcv_ack := q, snd_max := rcv_max_default, sbuf_max := sbuf_limit\<rparr>"
  have "sender iss [] 0 0 (init_swnd ?e)" using assms by (intro fresh_sender) (simp_all add: rcv_max_default_def)
  moreover have "take_syn (syn_seg fl a q k rcv_max_default rbuf_max_default) c = init_rwnd (init_swnd ?e)"
    by (simp add: take_syn_def Let_def limit_sbuf_def rcv_max_default_def rbuf_max_default_def sbuf_limit_def)
  ultimately show ?thesis using sender_cong [of "init_rwnd (init_swnd ?e)" "init_swnd ?e"] by (simp add: init_rwnd_def)
qed

lemma opened_simps [simp]:
  "state (opened pb una usec c) = OPEN" "rcv_cur (opened pb una usec c) = h_seqnum (read_head pb)"
  "snd_nxt (opened pb una usec c) = snd_nxt c" "rcv_max (opened pb una usec c) = rcv_max c"
  "rbuf_max (opened pb una usec c) = rbuf_max c" "snd_iss (opened pb una usec c) = snd_iss c"
  by (simp_all add: opened_def)

lemma opened_connected:
  assumes "snd_nxt c = iss + 1" "snd_una c = iss" "rcv_max c = rcv_max_default"
  shows "sender iss [] 0 0 (opened (synack_of b irs iss') iss usec c) \<and> rwnd_inv (opened (synack_of b irs iss') iss usec c) \<and>
    snd_max (opened (synack_of b irs iss') iss usec c) = rcv_max_default \<and>
    sbuf_max (opened (synack_of b irs iss') iss usec c) = sbuf_limit"
  using take_syn_sender [OF assms(1,2)] rwnd_inv_take_syn [OF assms(3)] assms(2)
    sender_cong [of "opened (synack_of b irs iss') iss usec c" "take_syn (synack_of b irs iss') c"]
    rwnd_inv_cong [of "opened (synack_of b irs iss') iss usec c" "take_syn (synack_of b irs iss') c"]
  by (simp add: opened_def)

lemma passive_connected:
  fixes iss a b irs t usec d
  defines "c \<equiv> (passive_con a (syn_of b irs) iss t usec)\<lparr>desc := d, state := OPEN\<rparr>"
  shows "sender iss [] 0 0 c \<and> rwnd_inv c \<and> snd_max c = rcv_max_default \<and> sbuf_max c = sbuf_limit"
proof -
  let ?e = "rdp_con_new\<lparr>addr := a, is_pasv := True, state := SYN_RCVD, snd_iss := iss, snd_nxt := iss + 1,
      snd_una := iss, rcv_max := rcv_max_default, rbuf_max := rbuf_max_default, is_closed := False\<rparr>"
  show ?thesis
    using take_syn_sender [of ?e iss] rwnd_inv_take_syn [of ?e "syn_of b irs"]
      sender_cong [of c "take_syn (syn_of b irs) ?e"] rwnd_inv_cong [of c "take_syn (syn_of b irs) ?e"]
    by (simp add: c_def passive_con_def)
qed

lemma listen_right_fresh: "rdp_inv s \<Longrightarrow> fresh_desc s r \<Longrightarrow> listen_right (m_listening s) (sint r) = None"
  by (force simp: rdp_inv_def fresh_desc_def listen_right_def map_of_eq_None_iff)

text \<open>The two ends agree: each expects what the other sends next, and both windows are empty and sound.\<close>

definition connected :: "rdp_con \<Rightarrow> rdp_con \<Rightarrow> bool" where
  "connected c e \<longleftrightarrow> state c = OPEN \<and> sender (snd_iss c) [] 0 0 c \<and> rwnd_inv c \<and>
     rcv_cur c + 1 = snd_nxt e \<and> snd_max c = rcv_max e \<and> sbuf_max c \<le> rbuf_max e \<and> 20 < sbuf_max c"

text \<open>
  Property C4.  A machine with identifier \<open>idA\<close> connects to a port on which the machine
  \<open>idB\<close> listens.  When the datagrams each hands to its output reach the other, the
  handshake takes exactly three segments: the opener is told CONNECTED, the listener is told
  ACCEPTED with the new descriptor, both descriptors are OPEN and the two connections agree
  on sequence numbers, windows and segment sizes.
\<close>

theorem handshake_connects:
  assumes sp: "sp \<noteq> 0" and aA: "aA = \<lparr>did = idB, dport = dp, sport = sp\<rparr>" and aB: "aB = \<lparr>did = idA, dport = sp, sport = dp\<rparr>"
    and A: "m_addr2conn sA aA = None" "rnds sA = issA # rA # rsA" "fresh_desc sA rA" "m_desc_closed sA = []" "rdp_inv sA"
    and B: "m_addr2conn sB aB = None" "rnds sB = issB # rB # rsB" "fresh_desc sB rB" "m_desc2event sB (sint rB) = None"
      "listen_left (m_listening sB) dp = Some l" "m_desc2event sB l = Some cb" "rdp_inv sB"
  shows "\<exists>sA1 sA2 sB1 sB2 syn synack ack cA cB.
    connect sp idB dp func sA = Some (sint rA, sA1) \<and> out sA1 = out sA @ [(idB, syn)] \<and>
    input_dgram silent idA syn sB = Some sB1 \<and> out sB1 = out sB @ [(idA, synack)] \<and>
    input_dgram silent idB synack sA1 = Some sA2 \<and> out sA2 = out sA1 @ [(idB, ack)] \<and>
    input_dgram silent idA ack sB1 = Some sB2 \<and> out sB2 = out sB1 \<and>
    events sA2 = events sA @ [(sint rA, aA, CONNECTED)] \<and> events sB2 = events sB @ [(sint rB, aB, ACCEPTED)] \<and>
    get_desc_state (sint rA) sA2 = OPEN \<and> get_desc_state (sint rB) sB2 = OPEN \<and>
    m_addr2conn sA2 aA = Some cA \<and> m_addr2conn sB2 aB = Some cB \<and>
    connected (heap sA2 cA) (heap sB2 cB) \<and> connected (heap sB2 cB) (heap sA2 cA)"
proof -
  let ?pA = "next_ptr sA" and ?pB = "next_ptr sB" and ?dA = "sint rA" and ?dB = "sint rB"
  define eA where "eA = (active_con aA issA (now sA))\<lparr>desc := ?dA\<rparr>"
  define eB where "eB = (passive_con aB (syn_of aA issA) issB (now sB) (clock sB))\<lparr>desc := ?dB\<rparr>"
  define sA1 where "sA1 = rdp_output idB (syn_of aA issA)
    ((add_con ?dA (active_con aA issA (now sA)) (sA\<lparr>rnds := rsA\<rparr>))\<lparr>m_desc2event := (m_desc2event sA)(?dA \<mapsto> func)\<rparr>)"
  define sB1 where "sB1 = rdp_output idA (synack_of aB issB issA)
    (add_con ?dB (passive_con aB (syn_of aA issA) issB (now sB) (clock sB)) (sB\<lparr>rnds := rsB\<rparr>))"
  define sA2 where "sA2 = (rdp_output idB (ack_of aA (issA + 1) issB)
     (put_con ?pA (opened (synack_of aB issB issA) issA (clock sA1) eA) [] sA1))
       \<lparr>events := events sA1 @ [(?dA, aA, CONNECTED)], m_is_invoke := False\<rparr>"
  define sB2 where "sB2 = (upd_con ?pB (\<lambda>c. c\<lparr>state := OPEN\<rparr>) sB1)
     \<lparr>events := events sB1 @ [(?dB, aB, ACCEPTED)], m_desc2event := (m_desc2event sB1)(?dB \<mapsto> cb)\<rparr>"
  have "0 < ?dB" "0 < ?dA" using A(3) B(3) by (simp_all add: fresh_desc_def)
  have hA: "heap sA1 ?pA = eA" "m_addr2conn sA1 aA = Some ?pA" "m_desc_closed sA1 = []" "m_desc2event sA1 ?dA = Some func"
    "state eA = SYN_SENT" "snd_iss eA = issA" "desc eA = ?dA" "snd_nxt eA = issA + 1" "addr eA = aA" "snd_una eA = issA"
    "rcv_max eA = rcv_max_default" "rbuf_max eA = rbuf_max_default"
    using A(4) by (simp_all add: sA1_def eA_def rdp_output_def add_con_def Let_def active_con_def)
  have hB: "heap sB1 ?pB = eB" "m_addr2conn sB1 aB = Some ?pB" "m_listening sB1 = m_listening sB" "m_desc2event sB1 = m_desc2event sB"
    "state eB = SYN_RCVD" "is_pasv eB" "snd_iss eB = issB" "desc eB = ?dB" "rcv_irs eB = issA" "rcv_cur eB = issA"
    "rcv_max eB = rcv_max_default" "snd_nxt eB = issB + 1" "snd_una eB = issB" "rbuf_max eB = rbuf_max_default"
    by (simp_all add: sB1_def eB_def rdp_output_def add_con_def Let_def)
  have 1: "connect sp idB dp func sA = Some (?dA, sA1)" using connect_eq [OF sp aA A(1-3)] by (simp add: sA1_def)
  have 2: "input_dgram silent idA (syn_of aA issA) sB = Some sB1"
    using listen_syn_eq [of sB aA l aB idA issB rB rsB silent issA] aA aB B by (simp add: sB1_def)
  have 3: "input_dgram silent idB (synack_of aB issB issA) sA1 = Some sA2"
    using synack_eq [of aA idB aB sA1 ?pA issA ?dA func issB] aA aB hA by (simp add: sA2_def)
  have 4: "input_dgram silent idA (ack_of aA (issA + 1) issB) sB1 = Some sB2"
    using ack_eq [of aB idA aA sB1 ?pB eB issB ?dB "issA + 1" l cb] aA aB hB B \<open>0 < ?dB\<close> by (simp add: sB2_def)
  have outs: "out sA1 = out sA @ [(idB, syn_of aA issA)]" "out sB1 = out sB @ [(idA, synack_of aB issB issA)]"
    "out sA2 = out sA1 @ [(idB, ack_of aA (issA + 1) issB)]" "out sB2 = out sB1"
    by (simp_all add: sA1_def sB1_def sA2_def sB2_def rdp_output_def add_con_def Let_def put_con_def upd_con_def)
  have evs: "events sA2 = events sA @ [(?dA, aA, CONNECTED)]" "events sB2 = events sB @ [(?dB, aB, ACCEPTED)]"
    by (simp_all add: sA2_def sB2_def sA1_def sB1_def rdp_output_def add_con_def Let_def)
  have hA2: "heap sA2 ?pA = opened (synack_of aB issB issA) issA (clock sA1) eA" "m_addr2conn sA2 aA = Some ?pA"
    using hA by (simp_all add: sA2_def rdp_output_def put_con_def)
  have hB2: "heap sB2 ?pB = eB\<lparr>state := OPEN\<rparr>" "m_addr2conn sB2 aB = Some ?pB"
    using hB by (simp_all add: sB2_def upd_con_def)
  have descs: "get_desc_state ?dA sA2 = OPEN" "get_desc_state ?dB sB2 = OPEN"
    using listen_right_fresh [OF A(5,3)] listen_right_fresh [OF B(7,3)] hA2(1) hB2(1)
    by (simp_all add: get_desc_state_def sA2_def sA1_def sB2_def sB1_def rdp_output_def add_con_def Let_def put_con_def
        upd_con_def ord_find_ins opened_simps)
  have "connected (heap sA2 ?pA) (heap sB2 ?pB)"
    using opened_connected [OF hA(8,10,11), of aB issB issA "clock sA1"] hA hB unfolding hA2 hB2
    by (simp add: connected_def opened_simps sbuf_limit_def rbuf_max_default_def)
  moreover have "connected (heap sB2 ?pB) (heap sA2 ?pA)"
    using passive_connected [where iss = issB and a = aB and b = aA and irs = issA and t = "now sB" and usec = "clock sB" and d = ?dB] hA hB unfolding hA2 hB2 eB_def [symmetric]
    by (simp add: connected_def opened_simps sbuf_limit_def rbuf_max_default_def)
  ultimately show ?thesis using 1 2 3 4 outs evs descs hA2(2) hB2(2) by blast
qed

theorem handshake_connects_witness:
  "\<exists>sA1 sA2 sB1 sB2 syn synack ack. connect 4000 [2] 5000 1 (rdp_init [100, 7] 0) = Some (7, sA1) \<and> out sA1 = [([2], syn)] \<and>
     input_dgram silent [1] syn (listener [200, 9]) = Some sB1 \<and> input_dgram silent [2] synack sA1 = Some sA2 \<and>
     input_dgram silent [1] ack sB1 = Some sB2 \<and> get_desc_state 7 sA2 = OPEN \<and> get_desc_state 9 sB2 = OPEN"
proof -
  let ?A = "rdp_init [100, 7] 0" and ?B = "listener [200, 9]"
  let ?aA = "\<lparr>did = [2], dport = 5000, sport = 4000\<rparr>" and ?aB = "\<lparr>did = [1], dport = 4000, sport = 5000\<rparr>"
  have A: "m_addr2conn ?A ?aA = None" "rnds ?A = [100, 7]" "fresh_desc ?A 7" "m_desc_closed ?A = []" "out ?A = []"
    by (simp_all add: rdp_init_def fresh_desc_def)
  have B: "m_addr2conn ?B ?aB = None" "rnds ?B = [200, 9]" "fresh_desc ?B 9" "m_desc2event ?B (sint (9 :: u32)) = None"
    "listen_left (m_listening ?B) 5000 = Some 7" "m_desc2event ?B 7 = Some 1"
    by (simp_all add: listener_eq rdp_init_def fresh_desc_def listen_left_def)
  have "(4000 :: u16) \<noteq> 0" "sint (7 :: u32) = 7" "sint (9 :: u32) = 9" by simp_all
  then show ?thesis
    using handshake_connects [OF \<open>(4000 :: u16) \<noteq> 0\<close> refl refl A(1-4) rdp_inv_init B reach_inv [OF listener_reach [of silent]], of 1] A(5)
    by (metis append_Nil)
qed

subsection \<open>Nobody answers\<close>

fun spaced :: "int \<Rightarrow> int \<Rightarrow> int list \<Rightarrow> bool" where
  "spaced t0 tout [] = True"
| "spaced t0 tout (t # ts) = (t div 1000000 - t0 > tout \<and> spaced (t div 1000000) (2 * tout) ts)"

definition timer_at :: "int \<Rightarrow> nat \<Rightarrow> int \<Rightarrow> rdp \<Rightarrow> rdp option" where
  "timer_at d p t s = timer_con silent d p (s\<lparr>clock := t\<rparr>)"

definition awaits :: "int \<Rightarrow> nat \<Rightarrow> nat \<Rightarrow> rdp \<Rightarrow> bool" where
  "awaits d p k s \<longleftrightarrow> state (heap s p) = SYN_SENT \<and> \<not> is_pasv (heap s p) \<and> syn_tout (heap s p) = 2 ^ k \<and>
     m_desc_closed s = [] \<and> (\<exists>cb. m_desc2event s d = Some cb)"

definition gave_up :: "nat \<Rightarrow> rdp \<Rightarrow> bool" where
  "gave_up p s \<longleftrightarrow> state (heap s p) = CLOSED"

lemma timer_gave_up: "gave_up p s \<Longrightarrow> timer_at d p t s = Some (s\<lparr>clock := t\<rparr>)"
  by (simp add: timer_at_def timer_con_def gave_up_def)

lemma timer_gave_up_run: "gave_up p s \<Longrightarrow> \<exists>s'. run_steps (timer_at d p) ts s = Some s' \<and> gave_up p s' \<and> out s' = out s \<and> events s' = events s"
proof (induction ts arbitrary: s)
  case (Cons t ts)
  then show ?case using Cons.IH [of "s\<lparr>clock := t\<rparr>"] by (simp add: timer_gave_up gave_up_def)
qed simp

lemma timer_awaits:
  assumes "awaits d p k s" "m_max_retrans s \<le> 2 ^ n" "a = addr (heap s p)"
  shows "\<exists>s'. timer_at d p t s = Some s' \<and> m_max_retrans s' = m_max_retrans s \<and> addr (heap s' p) = a \<and>
    ((gave_up p s' \<and> out s' = out s \<and> events s' = events s @ [(d, a, FAILED)] \<and> m_max_retrans s \<le> 2 ^ k) \<or>
     (awaits d p (Suc k) s' \<and> k < n \<and> events s' = events s \<and> syn_time (heap s' p) = t div 1000000 \<and>
       (\<exists>syn. out s' = out s @ [(did a, syn)])) \<or>
     (awaits d p k s' \<and> out s' = out s \<and> events s' = events s \<and> \<not> t div 1000000 - syn_time (heap s p) > 2 ^ k \<and>
       syn_time (heap s' p) = syn_time (heap s p)))"
proof -
  have k: "k < n" if "\<not> m_max_retrans s \<le> 2 ^ k"
  proof -
    have "(2 :: int) ^ k < 2 ^ n" using that assms(2) by linarith
    then show ?thesis by simp
  qed
  obtain cb where cb: "m_desc2event s d = Some cb" using assms(1) by (auto simp: awaits_def)
  show ?thesis
  proof (cases "m_max_retrans s \<le> 2 ^ k")
    case True
    then show ?thesis using assms cb
      by (simp add: timer_at_def timer_con_def timer_syn_def awaits_def silent_event upd_con_def gave_up_def Let_def)
  next
    case False
    then show ?thesis using assms cb k
      by (simp add: timer_at_def timer_con_def timer_syn_def awaits_def upd_con_def Let_def now_def rdp_output_def)
  qed
qed

lemma syn_retries:
  assumes "awaits d p k s" "m_max_retrans s \<le> 2 ^ n" "a = addr (heap s p)" "k \<le> n"
  shows "\<exists>s' syns. run_steps (timer_at d p) ts s = Some s' \<and> out s' = out s @ map (Pair (did a)) syns \<and> length syns \<le> n - k \<and>
    ((awaits d p (k + length syns) s' \<and> events s' = events s) \<or> (gave_up p s' \<and> events s' = events s @ [(d, a, FAILED)])) \<and>
    (spaced (syn_time (heap s p)) (2 ^ k) ts \<and> length ts > n - k \<longrightarrow> gave_up p s')"
  using assms
proof (induction ts arbitrary: s k)
  case (Cons t ts)
  obtain s1 where s1: "timer_at d p t s = Some s1" "m_max_retrans s1 \<le> 2 ^ n" "a = addr (heap s1 p)"
    and r: "(gave_up p s1 \<and> out s1 = out s \<and> events s1 = events s @ [(d, a, FAILED)]) \<or>
     (awaits d p (Suc k) s1 \<and> k < n \<and> events s1 = events s \<and> syn_time (heap s1 p) = t div 1000000 \<and>
       (\<exists>syn. out s1 = out s @ [(did a, syn)])) \<or>
     (awaits d p k s1 \<and> out s1 = out s \<and> events s1 = events s \<and> \<not> t div 1000000 - syn_time (heap s p) > 2 ^ k \<and>
       syn_time (heap s1 p) = syn_time (heap s p))"
    using timer_awaits [OF Cons.prems(1-3), of t] Cons.prems(2) by metis
  from r consider (up) "gave_up p s1" "out s1 = out s" "events s1 = events s @ [(d, a, FAILED)]"
    | (again) syn where "awaits d p (Suc k) s1" "k < n" "events s1 = events s" "syn_time (heap s1 p) = t div 1000000"
        "out s1 = out s @ [(did a, syn)]"
    | (wait) "awaits d p k s1" "out s1 = out s" "events s1 = events s" "\<not> t div 1000000 - syn_time (heap s p) > 2 ^ k"
        "syn_time (heap s1 p) = syn_time (heap s p)" by blast
  then show ?case
  proof cases
    case up
    then show ?thesis using timer_gave_up_run [OF up(1), of d ts] s1(1) by (force intro: exI [of _ "[]"])
  next
    case again
    then obtain s' syns where IH: "run_steps (timer_at d p) ts s1 = Some s'" "out s' = out s1 @ map (Pair (did a)) syns"
      "length syns \<le> n - Suc k"
      "(awaits d p (Suc k + length syns) s' \<and> events s' = events s1) \<or> (gave_up p s' \<and> events s' = events s1 @ [(d, a, FAILED)])"
      "spaced (syn_time (heap s1 p)) (2 ^ Suc k) ts \<and> length ts > n - Suc k \<longrightarrow> gave_up p s'"
      using Cons.IH [OF again(1) s1(2,3)] by auto
    then show ?thesis using again s1(1) by (intro exI [of _ s'] exI [of _ "syn # syns"]) auto
  next
    case wait
    then show ?thesis using Cons.IH [OF wait(1) s1(2,3) Cons.prems(4)] s1(1) by auto
  qed
qed (auto intro: exI [of _ "[]"])



end
