(* ===== verification/Rdp_Timer.thy ===== *)
theory Rdp_Timer
  imports Rdp_Handshake
begin

section \<open>One pass of the RDP timer\<close>

text \<open>
  The timer walks over \<^verbatim>\<open>m_desc2conn\<close> while the handlers it calls erase entries from it.
  For an application whose callbacks call nothing this is the same as visiting every
  connection that was there at the start, in the order of the descriptors: the loop skips
  nothing, visits nothing twice, never uses an erased iterator and ends.
\<close>

definition timer_visit :: "int \<Rightarrow> rdp \<Rightarrow> rdp option" where
  "timer_visit d s = do { p \<leftarrow> ord_find (m_desc2conn s) d; timer_con silent d p s }"

lemma silent_event_frame:
  assumes "m_desc_closed s = []" "invoke_event silent d 0 a ev s = Some s'"
  shows "m_desc2conn s' = m_desc2conn s \<and> m_desc_closed s' = []"
  using assms silent_event [of s d] by (cases "m_desc2event s d") (auto simp: invoke_event_def)

lemma timer_con_frame:
  assumes "m_desc_closed s = []" "timer_con silent d p s = Some s'"
  shows "m_desc_closed s' = [] \<and> (m_desc2conn s' = m_desc2conn s \<or> m_desc2conn s' = ord_del d (m_desc2conn s))"
proof -
  consider (syn) "timer_syn silent d p s = Some s'" | (cw) "timer_close_wait d p s = Some s'"
    | (opn) "timer_open silent p s = Some s'" | (skip) "s' = s"
    using assms(2) unfolding timer_con_def by (cases "state (heap s p)") auto
  then show ?thesis
  proof cases
    case syn
    then show ?thesis using assms(1)
      by (auto simp: timer_syn_def Let_def forget_con_def upd_con_def rdp_output_def split: if_split_asm
          dest!: silent_event_frame [rotated])
  next
    case cw
    then show ?thesis using assms(1)
      by (auto simp: timer_close_wait_def Let_def forget_con_def upd_con_def rdp_output_def split: if_split_asm)
  next
    case opn
    then show ?thesis using assms(1)
      by (auto simp: timer_open_def Let_def put_con_def on_con_def bind_eq_Some_conv split: if_split_asm
          dest!: silent_event_frame [rotated])
  qed (use assms in simp)
qed

lemma ord_find_middle: "ord_wf (pre @ (d, p) # suf) \<Longrightarrow> ord_find (pre @ (d, p) # suf) d = Some p"
  by (force simp: ord_find_def ord_wf_def sorted_wrt_append map_add_Some_iff map_of_eq_None_iff)

lemma ord_next_middle:
  assumes "ord_wf (pre @ (d, p) # suf)"
  shows "ord_next (pre @ (d, p) # suf) d = ord_first suf"
proof -
  have "filter (\<lambda>x. d < fst x) pre = []" using assms by (force simp: ord_wf_def sorted_wrt_append filter_empty_conv)
  moreover have "filter (\<lambda>x. d < fst x) suf = suf" using assms by (force simp: ord_wf_def sorted_wrt_append filter_id_conv)
  ultimately show ?thesis by (simp add: ord_next_def)
qed

lemma ord_del_middle: "ord_wf (pre @ (d, p) # suf) \<Longrightarrow> ord_del d (pre @ (d, p) # suf) = pre @ suf"
  by (induction pre) (auto simp: ord_wf_def sorted_wrt_append)

lemma timer_loop_visits:
  assumes "ord_wf (m_desc2conn s)" "m_desc2conn s = pre @ suf" "m_desc_closed s = []" "length suf < fuel"
  shows "timer_loop fuel silent (ord_first suf) s = run_steps timer_visit (map fst suf) s"
  using assms
proof (induction suf arbitrary: pre s fuel)
  case Nil
  then show ?case by (cases fuel) (simp_all add: ord_first_def)
next
  case (Cons x suf)
  obtain d p where x: "x = (d, p)" by (cases x)
  obtain n where n: "fuel = Suc n" using Cons.prems(4) by (cases fuel) auto
  note wf = Cons.prems(1) [unfolded Cons.prems(2) x]
  have fn: "ord_find (m_desc2conn s) d = Some p" "ord_next (m_desc2conn s) d = ord_first suf"
    using ord_find_middle [OF wf] ord_next_middle [OF wf] Cons.prems(2) x by simp_all
  show ?case
  proof (cases "timer_con silent d p s")
    case None
    then show ?thesis using fn by (simp add: x n ord_first_def timer_visit_def)
  next
    case (Some t)
    have fr: "m_desc_closed t = []" "m_desc2conn t = (pre @ [(d, p)]) @ suf \<or> m_desc2conn t = pre @ suf"
      using timer_con_frame [OF Cons.prems(3) Some] ord_del_middle [OF wf] Cons.prems(2) x by auto
    have "ord_wf (m_desc2conn t)" using fr(2) wf by (auto simp: ord_wf_def sorted_wrt_append)
    then have "timer_loop n silent (ord_first suf) t = run_steps timer_visit (map fst suf) t"
      using fr Cons.prems(4) n by (elim disjE; intro Cons.IH) simp_all
    moreover have "timer_visit d s = Some t" using fn(1) Some by (simp add: timer_visit_def)
    ultimately show ?thesis using fn Some by (simp add: x n ord_first_def)
  qed
qed

text \<open>
  In every reachable state in which no callback is running, a timer pass is the
  visit of each connection that was in the table when the pass began, once and in descriptor
  order, and re-arms the timer; in particular the loop ends, whatever the visits erase.
\<close>

lemma timer_visits_every_connection:
  assumes "rdp_reach app s" "m_desc_closed s = []"
  shows "timer_rdp silent s =
    run_steps timer_visit (map fst (m_desc2conn s)) (s\<lparr>m_timer := Some (clock s + timer_rdp_usec)\<rparr>)"
proof -
  let ?s = "s\<lparr>m_timer := Some (clock s + timer_rdp_usec)\<rparr>"
  have "ord_wf (m_desc2conn ?s)" using reach_inv [OF assms(1)] by (simp add: rdp_inv_def)
  then have "timer_loop (Suc (length (m_desc2conn s) + length (rnds s))) silent (ord_first (m_desc2conn s)) ?s =
      run_steps timer_visit (map fst (m_desc2conn s)) ?s"
    by (intro timer_loop_visits [where pre = "[]"]) (simp_all add: assms(2))
  then show ?thesis by (auto simp: timer_rdp_def Let_def ord_first_def simp del: timer_loop.simps)
qed

lemma timer_visits_every_connection_witness:
  "timer_rdp silent (caller []) = timer_visit 7 ((caller [])\<lparr>m_timer := Some timer_rdp_usec\<rparr>)"
proof -
  have c: "m_desc_closed (caller []) = []" "m_desc2conn (caller []) = [(7, 0)]" "clock (caller []) = 0"
    by (simp_all add: caller_eq rdp_output_def add_con_def rdp_init_def Let_def)
  show ?thesis using timer_visits_every_connection [OF caller_reach [of silent "[]"] c(1)]
    by (simp add: c split: option.splits)
qed

end
