(* ===== verification/Bn_Shift.thy ===== *)
theory Bn_Shift
  imports Bn
begin

section \<open>Shifts and conversions of multi-limb integers\<close>

text \<open>
  The shift operators of bn.hpp as division by and multiplication with powers of two, and
  the binary and hexadecimal conversions with their round trips.
\<close>

subsection \<open>Shifts\<close>

lemma shift_left_pos_limbs:
  assumes "bits div 32 \<le> length a"
  defines "n \<equiv> bits div 32" and "m \<equiv> bits mod 32"
  shows "shift_left_pos bits a = Some (map (\<lambda>j.
      if length a - n \<le> j then 0
      else push_bit m (a ! (j + n)) OR (if j + n + 1 < length a then drop_bit (32 - m) (a ! (j + n + 1)) else 0))
    [0..<length a])"
proof -
  let ?N = "length a"
  let ?a1 = "map (\<lambda>j. if 0 \<le> j \<and> j < ?N - n then a ! (j + n) else a ! j) [0..<?N]"
  let ?a2 = "map (\<lambda>j. if ?N - n \<le> j \<and> j < length ?a1 then 0 else ?a1 ! j) [0..<length ?a1]"
  have nN: "n \<le> ?N" using assms by simp
  have f1: "fold (\<lambda>i a. a[i := a ! (i + n)]) [0..<?N - n] a = ?a1"
    by (rule fold_update_up) auto
  have f2: "fold (\<lambda>i a. a[i := 0]) [?N - n..<?N] ?a1 = ?a2"
    using fold_update_up [of ?N ?a1 "?N - n" "\<lambda>i a. a[i := 0]" "\<lambda>_. 0"] by simp
  have a2: "?a2 ! j = (if j < ?N - n then a ! (j + n) else 0)" if "j < ?N" for j using that by simp
  show ?thesis
  proof (cases "m = 0 \<or> n \<ge> ?N")
    case True
    have "drop_bit 32 (x :: u32) = 0" for x by (rule bit_word_eqI) (auto simp: bit_simps dest: bit_imp_le_length)
    then show ?thesis using True nN unfolding shift_left_pos_def n_def [symmetric] m_def [symmetric] Let_def f1 f2
      by (auto intro!: nth_equalityI simp: a2)
  next
    case False
    let ?g = "\<lambda>j. push_bit m (?a2 ! j) OR drop_bit (32 - m) (?a2 ! (j + 1))"
    let ?a3 = "map (\<lambda>j. if 0 \<le> j \<and> j < ?N - n - 1 then ?g j else ?a2 ! j) [0..<length ?a2]"
    have "fold (\<lambda>i a. let msb = drop_bit (32 - m) (a ! (i + 1)); a = a[i := push_bit m (a ! i)]
           in a[i := a ! i OR msb]) [0..<?N - n - 1] ?a2 = ?a3"
      by (rule fold_update_up) (auto simp: Let_def)
    then show ?thesis using False nN
      unfolding shift_left_pos_def n_def [symmetric] m_def [symmetric] Let_def f1 f2
      by (auto intro!: nth_equalityI simp: a2 nth_list_update)
  qed
qed

text \<open>Bit \<open>32 * q + t\<close> of a number is bit \<open>t\<close> of limb \<open>q\<close>, counted from the last.\<close>

lemma bit_bn_val_limb:
  "t < 32 \<Longrightarrow> q < length a \<Longrightarrow> bit (bn_val a) (32 * q + t) \<longleftrightarrow> bit (a ! (length a - 1 - q)) t"
  by (simp add: bit_bn_val)

lemma limb_pos_cases:
  obtains q t where "(k :: nat) = 32 * q + t" "t < 32"
  using that [of "k div 32" "k mod 32"] by simp

lemma shift_left_limb_bits:
  fixes a r :: limbs
  assumes m: "m < 32" and t: "t < 32" and q: "q < length a" and n: "n \<le> length a"
    and rj: "r ! (length a - 1 - q) = (if length a - n \<le> length a - 1 - q then 0
      else push_bit m (a ! (length a - 1 - q + n)) OR
        (if length a - 1 - q + n + 1 < length a then drop_bit (32 - m) (a ! (length a - 1 - q + n + 1)) else 0))"
  shows "bit (r ! (length a - 1 - q)) t \<longleftrightarrow>
    32 * n + m \<le> 32 * q + t \<and> bit (bn_val a) (32 * q + t - (32 * n + m))"
proof (cases "n \<le> q")
  case False
  then show ?thesis using rj q n t m by auto
next
  case nq: True
  then have guard: "\<not> length a - n \<le> length a - 1 - q" using q by simp
  show ?thesis
  proof (cases "m \<le> t")
    case True
    have "32 * q + t - (32 * n + m) = 32 * (q - n) + (t - m)" using True nq by simp
    then have "bit (bn_val a) (32 * q + t - (32 * n + m)) \<longleftrightarrow> bit (a ! (length a - 1 - (q - n))) (t - m)"
      using bit_bn_val_limb [of "t - m" "q - n" a] t q by simp
    moreover have "length a - 1 - (q - n) = length a - 1 - q + n" using q nq by simp
    moreover have "\<not> bit (drop_bit (32 - m) x) t" for x :: u32
      using True m by (auto simp: bit_simps dest: bit_imp_le_length)
    ultimately show ?thesis using True nq t rj guard by (auto simp: bit_simps)
  next
    case mt: False
    show ?thesis
    proof (cases "n < q")
      case True
      have "32 * q + t - (32 * n + m) = 32 * (q - n - 1) + (32 + t - m)" using True mt m by simp
      then have "bit (bn_val a) (32 * q + t - (32 * n + m)) \<longleftrightarrow>
          bit (a ! (length a - 1 - (q - n - 1))) (32 + t - m)"
        using bit_bn_val_limb [of "32 + t - m" "q - n - 1" a] mt q by simp
      moreover have "length a - 1 - (q - n - 1) = length a - 1 - q + n + 1" "length a - 1 - q + n + 1 < length a"
        using q True by simp_all
      moreover have "32 - m + t = 32 + t - m" using m by simp
      ultimately show ?thesis using True mt t m rj guard by (auto simp: bit_simps)
    next
      case False
      then have "\<not> length a - 1 - q + n + 1 < length a" "\<not> 32 * n + m \<le> 32 * q + t"
        using nq mt q by simp_all
      then show ?thesis using mt rj guard by (auto simp: bit_simps)
    qed
  qed
qed

lemma shift_left_pos_bits:
  assumes "bits div 32 \<le> length a"
  obtains r where "shift_left_pos bits a = Some r" "length r = length a"
    "\<And>k. bit (bn_val r) k \<longleftrightarrow> k < 32 * length a \<and> bits \<le> k \<and> bit (bn_val a) (k - bits)"
proof -
  obtain n m where bits: "bits = 32 * n + m" "m < 32" by (rule limb_pos_cases)
  then have nm: "bits div 32 = n" "bits mod 32 = m" by simp_all
  obtain r where r: "shift_left_pos bits a = Some r"
    and len: "length r = length a"
    and nth: "\<And>j. j < length a \<Longrightarrow> r ! j = (if length a - n \<le> j then 0
      else push_bit m (a ! (j + n)) OR (if j + n + 1 < length a then drop_bit (32 - m) (a ! (j + n + 1)) else 0))"
    using shift_left_pos_limbs [OF assms] unfolding nm by simp
  have "bit (bn_val r) k \<longleftrightarrow> k < 32 * length a \<and> bits \<le> k \<and> bit (bn_val a) (k - bits)" for k
  proof (cases "k < 32 * length a")
    case True
    obtain q t where k: "k = 32 * q + t" "t < 32" by (rule limb_pos_cases)
    have q: "q < length a" using True k by simp
    have "bit (bn_val r) k \<longleftrightarrow> bit (r ! (length a - 1 - q)) t"
      using bit_bn_val_limb [of t q r] k(2) q len unfolding k(1) by simp
    moreover have "length a - 1 - q < length a" using q by simp
    ultimately show ?thesis
      using shift_left_limb_bits [OF bits(2) k(2) q _ nth] assms True nm bits(1) k(1) by simp
  next
    case False
    then show ?thesis using len by (simp add: bit_bn_val)
  qed
  then show ?thesis using that [OF r len] by blast
qed


lemma shift_right_pos_limbs:
  assumes "bits div 32 \<le> length a"
  defines "n \<equiv> bits div 32" and "m \<equiv> bits mod 32"
  shows "shift_right_pos bits a = Some (map (\<lambda>j.
      if j < n then 0
      else drop_bit m (a ! (j - n)) OR
        (if n < j then push_bit (32 - m) ((push_bit m 1 - 1) AND a ! (j - n - 1)) else 0))
    [0..<length a])"
proof -
  let ?N = "length a"
  let ?a1 = "map (\<lambda>j. if n \<le> j \<and> j < ?N then a ! (j - n) else a ! j) [0..<?N]"
  let ?a2 = "map (\<lambda>j. if 0 \<le> j \<and> j < n then 0 else ?a1 ! j) [0..<length ?a1]"
  have nN: "n \<le> ?N" using assms by simp
  have f1: "fold (\<lambda>i a. a[i := a ! (i - n)]) (rev [n..<?N]) a = ?a1"
    by (rule fold_update_down) (use nN in auto)
  have f2: "fold (\<lambda>i a. a[i := 0]) [0..<n] ?a1 = ?a2"
    by (rule fold_update_up) (use nN in auto)
  have a2: "?a2 ! j = (if j < n then 0 else a ! (j - n))" if "j < ?N" for j using that by simp
  show ?thesis
  proof (cases "m = 0 \<or> n \<ge> ?N")
    case True
    then show ?thesis using nN unfolding shift_right_pos_def n_def [symmetric] m_def [symmetric] Let_def f1 f2
      by (auto intro!: nth_equalityI simp: a2)
  next
    case False
    let ?mask = "push_bit m 1 - 1 :: u32"
    let ?g = "\<lambda>j. drop_bit m (?a2 ! j) OR push_bit (32 - m) (?mask AND ?a2 ! (j - 1))"
    let ?a3 = "map (\<lambda>j. if n + 1 \<le> j \<and> j < ?N then ?g j else ?a2 ! j) [0..<length ?a2]"
    have "fold (\<lambda>i a. let a = a[i := drop_bit m (a ! i)]; mask = push_bit m 1 - 1
           in a[i := a ! i OR push_bit (32 - m) (mask AND a ! (i - 1))]) (rev [n + 1..<?N]) ?a2 = ?a3"
      by (rule fold_update_down) (use False in \<open>auto simp: Let_def nth_list_update\<close>)
    then show ?thesis using False nN
      unfolding shift_right_pos_def n_def [symmetric] m_def [symmetric] Let_def f1 f2
      by (auto intro!: nth_equalityI simp: a2 nth_list_update)
  qed
qed

lemma shift_right_limb_bits:
  fixes a r :: limbs
  assumes m: "m < 32" and t: "t < 32" and q: "q < length a" and n: "n \<le> length a"
    and rj: "r ! (length a - 1 - q) = (if length a - 1 - q < n then 0
      else drop_bit m (a ! (length a - 1 - q - n)) OR
        (if n < length a - 1 - q then push_bit (32 - m) ((push_bit m 1 - 1) AND a ! (length a - 1 - q - n - 1)) else 0))"
  shows "bit (r ! (length a - 1 - q)) t \<longleftrightarrow> bit (bn_val a) (32 * q + t + (32 * n + m))"
proof (cases "length a - 1 - q < n")
  case True
  then have "length a \<le> q + n" using q by simp
  then have "\<not> bit (bn_val a) (32 * q + t + (32 * n + m))" by (simp add: bit_bn_val)
  then show ?thesis using rj True by simp
next
  case False
  then have qn: "q + n < length a" using q by simp
  have mask: "(push_bit m 1 - 1 :: u32) = mask m" by (simp add: mask_eq_exp_minus_1 push_bit_eq_mult)
  show ?thesis
  proof (cases "t + m < 32")
    case True
    have "bit (bn_val a) (32 * (q + n) + (t + m)) \<longleftrightarrow> bit (a ! (length a - 1 - (q + n))) (t + m)"
      by (rule bit_bn_val_limb) (use True qn in simp_all)
    moreover have e: "32 * q + t + (32 * n + m) = 32 * (q + n) + (t + m)" by simp
    moreover have "length a - 1 - q - n = length a - 1 - (q + n)" by simp
    moreover have no: "\<not> bit (push_bit (32 - m) x) t" for x :: u32 using True by (auto simp: bit_simps)
    moreover have "bit (drop_bit m x) t = bit x (t + m)" for x :: u32 by (simp add: bit_simps add.commute)
    ultimately show ?thesis using False rj unfolding e by (simp only: if_False bit_or_iff) (simp add: bit_and_iff)
  next
    case tm: False
    have no: "\<not> bit (drop_bit m x) t" for x :: u32
      using tm by (auto simp: bit_simps add.commute dest: bit_imp_le_length)
    have e: "32 * q + t + (32 * n + m) = 32 * (q + n + 1) + (t + m - 32)" using tm by simp
    show ?thesis
    proof (cases "q + n + 1 < length a")
      case True
      have "bit (bn_val a) (32 * (q + n + 1) + (t + m - 32)) \<longleftrightarrow>
          bit (a ! (length a - 1 - (q + n + 1))) (t + m - 32)"
        by (rule bit_bn_val_limb) (use True t m in simp_all)
      moreover have "length a - 1 - q - n - 1 = length a - 1 - (q + n + 1)" by simp
      moreover have "t - (32 - m) = t + m - 32" "t + m - 32 < m" "32 - m \<le> t" using m t tm by simp_all
      ultimately show ?thesis using False True rj no t unfolding mask e
        by (auto simp: bit_simps)
    next
      case last: False
      then have "\<not> bit (bn_val a) (32 * (q + n + 1) + (t + m - 32))" by (simp add: bit_bn_val)
      then show ?thesis using rj no last False unfolding e by (auto simp: bit_simps)
    qed
  qed
qed

lemma shift_right_pos_bits:
  assumes "bits div 32 \<le> length a"
  obtains r where "shift_right_pos bits a = Some r" "length r = length a"
    "\<And>k. bit (bn_val r) k \<longleftrightarrow> bit (bn_val a) (k + bits)"
proof -
  obtain n m where bits: "bits = 32 * n + m" "m < 32" by (rule limb_pos_cases)
  then have nm: "bits div 32 = n" "bits mod 32 = m" by simp_all
  obtain r where r: "shift_right_pos bits a = Some r"
    and len: "length r = length a"
    and nth: "\<And>j. j < length a \<Longrightarrow> r ! j = (if j < n then 0 else drop_bit m (a ! (j - n)) OR
        (if n < j then push_bit (32 - m) ((push_bit m 1 - 1) AND a ! (j - n - 1)) else 0))"
    using shift_right_pos_limbs [OF assms] unfolding nm by simp
  have "bit (bn_val r) k \<longleftrightarrow> bit (bn_val a) (k + bits)" for k
  proof (cases "k < 32 * length a")
    case True
    obtain q t where k: "k = 32 * q + t" "t < 32" by (rule limb_pos_cases)
    have q: "q < length a" using True k by simp
    have "bit (bn_val r) k \<longleftrightarrow> bit (r ! (length a - 1 - q)) t"
      using bit_bn_val_limb [of t q r] k(2) q len unfolding k(1) by simp
    moreover have "length a - 1 - q < length a" using q by simp
    ultimately show ?thesis
      using shift_right_limb_bits [OF bits(2) k(2) q _ nth] assms nm bits(1) k(1) by simp
  next
    case False
    then show ?thesis using len by (simp add: bit_bn_val)
  qed
  then show ?thesis using that [OF r len] by blast
qed

lemma shift_left_value:
  assumes "bits \<le> 32 * length a"
  shows "\<exists>r. shift_left (int bits) a = Some r \<and> length r = length a \<and>
      bn_val r = (bn_val a * 2 ^ bits) mod 2 ^ (32 * length a)"
proof -
  have le: "bits div 32 \<le> length a" using assms by simp
  obtain r where r: "shift_left_pos bits a = Some r" "length r = length a"
    "\<And>k. bit (bn_val r) k \<longleftrightarrow> k < 32 * length a \<and> bits \<le> k \<and> bit (bn_val a) (k - bits)"
    using shift_left_pos_bits [OF le] by blast
  have "bn_val r = take_bit (32 * length a) (push_bit bits (bn_val a))"
    by (rule bit_eqI) (auto simp: r(3) bit_simps)
  then show ?thesis
    using r(1,2) by (auto simp: shift_left_def take_bit_eq_mod push_bit_eq_mult)
qed

lemma shift_right_value:
  assumes "bits \<le> 32 * length a"
  shows "\<exists>r. shift_right (int bits) a = Some r \<and> length r = length a \<and>
      bn_val r = bn_val a div 2 ^ bits"
proof -
  have le: "bits div 32 \<le> length a" using assms by simp
  obtain r where r: "shift_right_pos bits a = Some r" "length r = length a"
    "\<And>k. bit (bn_val r) k \<longleftrightarrow> bit (bn_val a) (k + bits)"
    using shift_right_pos_bits [OF le] by blast
  have "bn_val r = drop_bit bits (bn_val a)"
    by (rule bit_eqI) (auto simp: r(3) bit_simps add.commute)
  then show ?thesis
    using r(1,2) by (auto simp: shift_right_def drop_bit_eq_div)
qed

text \<open>
  For shift counts up to the width of the number, \<open>shift_left\<close> multiplies
  by a power of two modulo the width and \<open>shift_right\<close> divides by it; both stay inside
  the array.
\<close>

lemma bn_shift_value:
  assumes "bits \<le> 32 * length a"
  shows "(\<exists>r. shift_left (int bits) a = Some r \<and> length r = length a \<and>
      bn_val r = (bn_val a * 2 ^ bits) mod 2 ^ (32 * length a)) \<and>
    (\<exists>r. shift_right (int bits) a = Some r \<and> length r = length a \<and>
      bn_val r = bn_val a div 2 ^ bits)"
  using shift_left_value [OF assms] shift_right_value [OF assms] by blast

lemma bn_shift_value_witness:
  "\<exists>r. shift_left 33 [0, 1, 0x80000001, 5, 6] = Some r \<and>
     bn_val r = (bn_val [0, 1, 0x80000001, 5, 6] * 2 ^ 33) mod 2 ^ 160"
  using bn_shift_value [of 33 "[0, 1, 0x80000001, 5, 6]"] by (auto simp del: bn_val.simps)

subsection \<open>Binary form\<close>

lemma to_binary_loop_eq:
  "i + len div 4 \<le> length a \<Longrightarrow>
   to_binary_loop i len a = Some (concat (map htonl_bytes (take (len div 4) (drop i a))))"
proof (induction i len a rule: to_binary_loop.induct)
  case (1 i len a)
  show ?case
  proof (cases "len < 4")
    case False
    then have d: "len div 4 = Suc ((len - 4) div 4)" by (simp add: le_div_geq)
    then have i: "i < length a" using 1 by simp
    have "to_binary_loop (i + 1) (len - 4) a =
        Some (concat (map htonl_bytes (take ((len - 4) div 4) (drop (i + 1) a))))"
      using 1 False i d by simp
    then show ?thesis using False i d
      by (simp add: to_binary_loop.simps [of i len] Cons_nth_drop_Suc [symmetric])
  qed (simp add: to_binary_loop.simps)
qed

lemma bn_to_binary_eq: "bn_to_binary a (4 * length a) = Some (concat (map htonl_bytes a))"
  using to_binary_loop_eq [of 0 "4 * length a" a] by (simp add: bn_to_binary_def)

lemma length_concat_htonl [simp]: "length (concat (map htonl_bytes a)) = 4 * length a"
  by (induction a) simp_all

lemma from_binary_loop_concat:
  "i + length b = length a \<Longrightarrow> from_binary_loop i (concat (map htonl_bytes b)) a = take i a @ b"
proof (induction b arbitrary: i a)
  case Nil
  then show ?case by (simp add: from_binary_loop.simps)
next
  case (Cons x b)
  then have "from_binary_loop i (concat (map htonl_bytes (x # b))) a =
      from_binary_loop (Suc i) (concat (map htonl_bytes b)) (a[i := x])"
    by (subst from_binary_loop.simps) simp
  also have "\<dots> = take (Suc i) (a[i := x]) @ b" using Cons by simp
  also have "\<dots> = take i a @ x # b" using Cons.prems by (simp add: take_Suc_conv_app_nth)
  finally show ?case .
qed

lemma from_binary_loop_frame:
  "length (from_binary_loop j cs z) = length z \<and> take j (from_binary_loop j cs z) = take j z"
proof (induction j cs z rule: from_binary_loop.induct)
  case (1 j cs z)
  show ?case
  proof (cases "j < length z \<and> 4 \<le> length cs")
    case True
    let ?S = "from_binary_loop (j + 1) (drop 4 cs) (z[j := ntohl_bytes (take 4 cs)])"
    have len: "length ?S = length z" and tk: "take (j + 1) ?S = take (j + 1) (z[j := ntohl_bytes (take 4 cs)])"
      using 1 True by simp_all
    have "take j (take (j + 1) ?S) = take j (take (j + 1) (z[j := ntohl_bytes (take 4 cs)]))" by (simp only: tk)
    then show ?thesis using True len by (simp add: from_binary_loop.simps [of j cs z])
  next
    case False
    then show ?thesis by (subst (1 2) from_binary_loop.simps) auto
  qed
qed

lemma from_binary_loop_chunks:
  "i + N = length a \<Longrightarrow> length bs = 4 * N \<Longrightarrow>
   concat (map htonl_bytes (drop i (from_binary_loop i bs a))) = bs"
proof (induction N arbitrary: i a bs)
  case 0
  then show ?case using from_binary_loop_frame [of i "[]" a] by simp
next
  case (Suc N)
  let ?y = "ntohl_bytes (take 4 bs)" and ?R = "from_binary_loop (Suc i) (drop 4 bs) (a[i := ntohl_bytes (take 4 bs)])"
  have step: "from_binary_loop i bs a = ?R" using Suc.prems by (subst from_binary_loop.simps) simp
  have R: "length ?R = length a" "take (Suc i) ?R = take (Suc i) (a[i := ?y])"
    using from_binary_loop_frame [of "Suc i" "drop 4 bs" "a[i := ?y]"] by simp_all
  have i: "i < length a" using Suc.prems by simp
  have "?R ! i = ?y" using R i nth_take [of i "Suc i" ?R] nth_take [of i "Suc i" "a[i := ?y]"] by simp
  then have "drop i ?R = ?y # drop (Suc i) ?R" using R(1) i by (simp add: Cons_nth_drop_Suc [symmetric])
  moreover have "concat (map htonl_bytes (drop (Suc i) ?R)) = drop 4 bs"
    using Suc.IH [of "Suc i" "a[i := ?y]" "drop 4 bs"] Suc.prems by simp
  moreover have "htonl_bytes ?y = take 4 bs" using Suc.prems by simp
  ultimately show ?case by (simp add: step)
qed

lemma bn_from_to_binary:
  "\<exists>bs. bn_to_binary a (4 * length a) = Some bs \<and> length bs = 4 * length a \<and> bn_from_binary (length a) bs = a"
  using from_binary_loop_concat [of 0 a "replicate (length a) 0"]
  by (simp add: bn_to_binary_eq bn_from_binary_def)

lemma bn_to_from_binary:
  assumes bs: "length bs = 4 * N"
  shows "bn_to_binary (bn_from_binary N bs) (4 * N) = Some bs"
proof -
  have cat: "concat (map htonl_bytes (bn_from_binary N bs)) = bs"
    using from_binary_loop_chunks [of 0 N "replicate N 0" bs] bs
    by (simp add: bn_from_binary_def)
  then have "4 * length (bn_from_binary N bs) = 4 * N"
    using bs length_concat_htonl [of "bn_from_binary N bs"] by simp
  then show ?thesis
    using bn_to_binary_eq [of "bn_from_binary N bs"] cat by simp
qed

text \<open>
  \<open>from_binary\<close> and \<open>to_binary\<close> are inverse to each other on full-width
  buffers: an identifier survives its trip through a message header, and every 20-byte
  field is the image of exactly one identifier.
\<close>

lemma bn_binary_roundtrip:
  "(\<exists>bs. bn_to_binary a (4 * length a) = Some bs \<and> length bs = 4 * length a \<and>
      bn_from_binary (length a) bs = a) \<and>
   (length field = 4 * N \<longrightarrow> bn_to_binary (bn_from_binary N field) (4 * N) = Some field)"
  using bn_from_to_binary bn_to_from_binary by blast

lemma bn_binary_roundtrip_witness:
  "bn_to_binary (bn_from_binary 5 (map of_nat [0..<20])) 20 = Some (map of_nat [0..<20])"
  using bn_binary_roundtrip [of "[]" "map of_nat [0..<20]" 5] by simp

subsection \<open>Hexadecimal form\<close>

definition hex_shift :: "nat \<Rightarrow> nat \<Rightarrow> nat" where
  "hex_shift v d = v * 16 + d"

definition nibbles :: "u8 list \<Rightarrow> nat list" where
  "nibbles bs = concat (map (\<lambda>p. [unat (drop_bit 4 (0xf0 AND p)), unat (0x0f AND p)]) bs)"

lemma byte_nibbles:
  fixes p :: u8
  shows "unat (drop_bit 4 (0xf0 AND p)) = unat p div 16" "unat (0x0f AND p) = unat p mod 16"
proof -
  have hi: "drop_bit 4 (0xf0 AND p) = drop_bit 4 p"
    by (rule bit_word_eqI) (auto simp: bit_simps bit_numeral_rec less_Suc_eq numeral_eq_Suc dest: bit_imp_le_length)
  show "unat (drop_bit 4 (0xf0 AND p)) = unat p div 16"
  proof -
    have "unat (drop_bit 4 p) = drop_bit 4 (unat p)"
      using unat_u8_less [of p] by (simp add: unsigned_drop_bit_eq take_bit_nat_eq_self)
    then show ?thesis unfolding hi by (simp add: drop_bit_eq_div)
  qed
  have "(0x0f AND p) = take_bit 4 p"
    by (simp add: take_bit_eq_mask mask_eq_exp_minus_1 and.commute)
  then have "unat (0x0f AND p) = take_bit 4 (unat p)" by (simp only: unsigned_take_bit_eq)
  then show "unat (0x0f AND p) = unat p mod 16" by (simp add: take_bit_eq_mod)
qed

lemma foldl_hex_byte: "foldl hex_shift v (nibbles [p]) = v * 256 + unat p"
  unfolding nibbles_def list.map concat.simps byte_nibbles by (simp add: hex_shift_def)

lemma foldl_hex_limb: "foldl hex_shift v (nibbles (htonl_bytes x)) = v * 2 ^ 32 + unat x"
proof -
  have cat: "nibbles (htonl_bytes x) =
      nibbles [ucast (drop_bit 24 x)] @ nibbles [ucast (drop_bit 16 x)] @ nibbles [ucast (drop_bit 8 x)] @ nibbles [ucast x]"
    by (simp add: nibbles_def htonl_bytes_def)
  have byte: "unat (ucast (drop_bit n x) :: u8) = unat x div 2 ^ n mod 256" for n
  proof -
    have "unat (ucast (drop_bit n x) :: u8) = take_bit 8 (drop_bit n (unat x))"
      using unat_u32_less [of x]
      by (simp add: unsigned_ucast_eq unsigned_drop_bit_eq take_bit_nat_eq_self)
    then show ?thesis by (simp add: take_bit_eq_mod drop_bit_eq_div)
  qed
  have "unat x = (unat x div 2 ^ 24 mod 256) * 2 ^ 24 + (unat x div 2 ^ 16 mod 256) * 2 ^ 16
      + (unat x div 2 ^ 8 mod 256) * 2 ^ 8 + unat x div 2 ^ 0 mod 256"
  proof -
    define b where "b = unat x div 256"
    define c where "c = b div 256"
    define d where "d = c div 256"
    have "unat x = b * 256 + unat x mod 256" "b = c * 256 + b mod 256" "c = d * 256 + c mod 256"
      by (simp_all add: b_def c_def d_def)
    moreover have "d < 256" using unat_u32_less [of x] by (simp add: b_def c_def d_def flip: div_mult2_eq)
    moreover have "unat x div 2 ^ 24 = d" "unat x div 2 ^ 16 = c" "unat x div 2 ^ 8 = b"
      by (simp_all add: b_def c_def d_def flip: div_mult2_eq)
    ultimately show ?thesis by simp
  qed
  then have "unat x = unat (ucast (drop_bit 24 x) :: u8) * 2 ^ 24 + unat (ucast (drop_bit 16 x) :: u8) * 2 ^ 16
      + unat (ucast (drop_bit 8 x) :: u8) * 2 ^ 8 + unat (ucast x :: u8)"
    using byte [of 0] by (simp only: byte drop_bit_0 id_apply)
  then show ?thesis unfolding cat foldl_append foldl_hex_byte by simp
qed

lemma foldl_hex_limbs: "foldl hex_shift v (nibbles (concat (map htonl_bytes a))) = v * 2 ^ (32 * length a) + bn_val a"
proof (induction a arbitrary: v)
  case (Cons x a)
  have "nibbles (concat (map htonl_bytes (x # a))) = nibbles (htonl_bytes x) @ nibbles (concat (map htonl_bytes a))"
    by (simp add: nibbles_def)
  then show ?case using Cons by (simp add: foldl_hex_limb algebra_simps power_add)
qed (simp add: nibbles_def)

lemma foldl_hex_linear: "foldl hex_shift v ds = v * 16 ^ length ds + foldl hex_shift 0 ds"
proof (induction ds rule: rev_induct)
  case (snoc d ds)
  have "foldl hex_shift v (ds @ [d]) = (v * 16 ^ length ds + foldl hex_shift 0 ds) * 16 + d"
    unfolding snoc.IH [symmetric] by (simp add: hex_shift_def)
  then show ?case by (simp add: hex_shift_def [of "foldl hex_shift 0 ds"] algebra_simps)
qed simp

lemma hex_digit_hexstr: "d < 16 \<Longrightarrow> hex_digit (hexstr ! d) = Some (of_nat d) \<and> (of_char (hexstr ! d) :: nat) \<noteq> 0"
  by (auto simp: less_Suc_eq numeral_eq_Suc hexstr_def hex_digit_def)

lemma from_string_loop_value:
  assumes "\<forall>d \<in> set ds. d < 16" "this \<noteq> []"
  shows "length (from_string_loop (map ((!) hexstr) ds) this) = length this \<and>
    bn_val (from_string_loop (map ((!) hexstr) ds) this) =
      foldl hex_shift (bn_val this) ds mod 2 ^ (32 * length this)"
  using assms
proof (induction ds arbitrary: this)
  case Nil
  then show ?case using bn_val_less [of this] by simp
next
  case (Cons d ds)
  let ?M = "2 ^ (32 * length this) :: nat"
  obtain s where s: "shift_left (int 4) this = Some s" "length s = length this" "bn_val s = bn_val this * 2 ^ 4 mod ?M"
    using shift_left_value [of 4 this] Cons.prems(2) by (cases this) auto
  have d: "hex_digit (hexstr ! d) = Some (of_nat d)" "(of_char (hexstr ! d) :: nat) \<noteq> 0" "d < 16"
    using hex_digit_hexstr [of d] Cons.prems(1) by simp_all
  let ?t = "bn_plus_T s (of_nat d)"
  have "s \<noteq> []" using s(2) Cons.prems(2) by auto
  then have t: "length ?t = length this" "bn_val ?t = (bn_val this * 16 + d) mod ?M"
    using s d(3) by (simp_all add: bn_val_plus_T mod_simps)
  have "foldl hex_shift (bn_val ?t) ds mod ?M = foldl hex_shift (bn_val this * 16 + d) ds mod ?M"
  proof -
    have "foldl hex_shift (bn_val ?t) ds mod ?M =
        (((bn_val this * 16 + d) mod ?M) * 16 ^ length ds + foldl hex_shift 0 ds) mod ?M"
      unfolding t(2) by (rule arg_cong [OF foldl_hex_linear])
    also have "\<dots> = foldl hex_shift (bn_val this * 16 + d) ds mod ?M"
      unfolding foldl_hex_linear [of "bn_val this * 16 + d"] by (metis mod_add_left_eq mod_mult_left_eq)
    finally show ?thesis .
  qed
  moreover have "?t \<noteq> []" using t(1) Cons.prems(2) by (metis length_0_conv)
  ultimately show ?case using Cons.IH [of ?t] Cons.prems t(1) s(1) d
    by (simp add: hex_shift_def [of "bn_val this"])
qed

text \<open>
  Printing an identifier in hexadecimal and parsing the text gives the
  identifier back.
\<close>

lemma bn_string_roundtrip: "a \<noteq> [] \<Longrightarrow> bn_from_string (length a) (bn_to_string a) = a"
proof -
  assume ne: "a \<noteq> []"
  let ?ds = "nibbles (concat (map htonl_bytes a))" and ?z = "bn_fill_zero (length a)"
  have str: "bn_to_string a = map ((!) hexstr) ?ds"
    by (simp add: bn_to_string_def bn_to_binary_eq nibbles_def map_concat comp_def)
  have small: "\<forall>d \<in> set ?ds. d < 16" by (auto simp: nibbles_def byte_nibbles)
  have "?z \<noteq> []" using ne by (simp add: bn_fill_zero_def)
  then have "length (bn_from_string (length a) (bn_to_string a)) = length a"
    "bn_val (bn_from_string (length a) (bn_to_string a)) = bn_val a"
    using from_string_loop_value [OF small, of ?z] bn_val_less [of a]
    by (simp_all add: bn_from_string_def str foldl_hex_limbs bn_fill_zero_def)
  then show ?thesis by (rule bn_val_inject)
qed

lemma bn_string_roundtrip_witness:
  "bn_from_string 5 (bn_to_string [1, 2, 3, 0xdeadbeef, 5]) = [1, 2, 3, 0xdeadbeef, 5]"
  using bn_string_roundtrip [of "[1, 2, 3, 0xdeadbeef, 5]"] by (simp add: numeral_eq_Suc)

subsection \<open>Arithmetic on identifiers\<close>

text \<open>
  Property C39.  The limb-wise arithmetic of \<^verbatim>\<open>bn\<close> computes on the numbers the limbs stand
  for, modulo the width: both forms of addition, multiplication, addition and subtraction
  of one limb, exclusive or and conjunction; and the comparisons order the numbers.
\<close>

theorem bn_arithmetic:
  assumes "length b = length a" "a \<noteq> []"
  shows "bn_val (bn_plus a b) = (bn_val a + bn_val b) mod 2 ^ (32 * length a) \<and>
    bn_plus_assign a b = bn_plus a b \<and>
    bn_val (bn_plus_T a r) = (bn_val a + unat r) mod 2 ^ (32 * length a) \<and>
    int (bn_val (bn_minus_T a r)) = (int (bn_val a) - int (unat r)) mod 2 ^ (32 * length a) \<and>
    bn_val (bn_mult a b) = (bn_val a * bn_val b) mod 2 ^ (32 * length a) \<and>
    bn_val (bn_xor a b) = bn_val a XOR bn_val b \<and> bn_val (bn_and a b) = bn_val a AND bn_val b \<and>
    (bn_less a b \<longleftrightarrow> bn_val a < bn_val b) \<and> (bn_greater a b \<longleftrightarrow> bn_val a > bn_val b) \<and>
    (bn_eq a b \<longleftrightarrow> bn_val a = bn_val b)"
proof -
  have "bn_plus_assign a b = bn_plus a b"
    by (rule bn_val_inject) (simp_all add: bn_val_plus [OF assms(1)])
  then show ?thesis
    using assms by (simp add: bn_value bn_greater_less bn_eq_iff bn_val_eq_iff)
qed

theorem bn_arithmetic_witness:
  "bn_val (bn_mult [1, 2, 3, 4, 0xffffffff] [0, 0, 0, 7, 0xffffffff]) =
     (bn_val [1, 2, 3, 4, 0xffffffff] * bn_val [0, 0, 0, 7, 0xffffffff]) mod 2 ^ 160"
  using bn_arithmetic [of "[0, 0, 0, 7, 0xffffffff]" "[1, 2, 3, 4, 0xffffffff]" 0] by (simp del: bn_val.simps)

text \<open>
  Subtraction is right modulo the width unless some limb of the minuend is all
  ones over a zero limb of the subtrahend; there the borrow macro borrows when it must not.
  Multiplication by a single limb drops every carry between limbs.
\<close>

lemma bn_subtraction_and_limb_product:
  "(length b = length a \<and> (\<forall>i < length a. \<not> (a ! i = -1 \<and> b ! i = 0)) \<longrightarrow>
      int (bn_val (bn_minus a b)) = (int (bn_val a) - int (bn_val b)) mod 2 ^ (32 * length a)) \<and>
   bn_minus [1, -1] [0, 0] = [0, -1] \<and> bn_mult_T a r = map (\<lambda>x. x * r) a \<and>
   bn_val (bn_mult_T [0, 0x80000000] 2) = 0"
proof -
  have "length b = length a \<and> (\<forall>i < length a. \<not> (a ! i = -1 \<and> b ! i = 0)) \<longrightarrow>
      int (bn_val (bn_minus a b)) = (int (bn_val a) - int (bn_val b)) mod 2 ^ (32 * length a)"
    by (intro impI bn_val_minus) auto
  moreover have "bn_minus [1, -1] [0, 0] = [0, -1]" by (simp add: bn_minus_def)
  moreover have "bn_val (bn_mult_T [0, 0x80000000] 2) = 0" by (simp add: bn_mult_T_limbwise)
  ultimately show ?thesis using bn_mult_T_limbwise by blast
qed

lemma bn_subtraction_and_limb_product_witness:
  "int (bn_val (bn_minus [3, 0] [1, 1])) = (int (bn_val [3, 0]) - int (bn_val [1, 1])) mod 2 ^ 64"
  using bn_subtraction_and_limb_product [of "[1, 1]" "[3, 0]" 0] by (simp add: less_Suc_eq del: bn_val.simps)

end
