(* ===== verification/Cagetypes.thy ===== *)
theory Cagetypes
  imports Bn_Shift "HOL-Library.Monad_Syntax"
begin

section \<open>Addresses and message formats (cagetypes.hpp, cagetypes.cpp)\<close>

text \<open>
  Node addresses, the header common to all messages, and the lists of nodes that
  find-node and find-value replies carry.  A datagram is a list of bytes; a struct the code
  lays over it is read with \<open>u16_at\<close>, \<open>u32_at\<close> and \<open>id_at\<close> at the field's offset.
  Ports and IPv4 addresses of a \<^verbatim>\<open>sockaddr\<close> are the numbers whose network byte order the
  code stores.  \<open>NoAddr\<close> is the default value of the variant \<^verbatim>\<open>saddr\<close>, a null pointer.
  Results are \<open>None\<close> where \<^verbatim>\<open>boost::get\<close> throws or a null pointer is dereferenced.
\<close>

definition CAGE_ID_LEN :: nat where "CAGE_ID_LEN = 20"
definition MAGIC_NUMBER :: u16 where "MAGIC_NUMBER = 0xbabe"
definition CAGE_VERSION :: u8 where "CAGE_VERSION = 0"

definition domain_loopback :: u16 where "domain_loopback = 0"
definition domain_inet :: u16 where "domain_inet = 1"
definition domain_inet6 :: u16 where "domain_inet6 = 2"

lemmas domain_defs = domain_loopback_def domain_inet_def domain_inet6_def

definition state_global :: u16 where "state_global = 1"
definition state_nat :: u16 where "state_nat = 2"

definition type_dgram :: u8 where "type_dgram = 0x01"
definition type_advertise :: u8 where "type_advertise = 0x02"
definition type_advertise_reply :: u8 where "type_advertise_reply = 0x03"
definition type_nat_echo :: u8 where "type_nat_echo = 0x11"
definition type_nat_echo_reply :: u8 where "type_nat_echo_reply = 0x12"
definition type_nat_echo_redirect :: u8 where "type_nat_echo_redirect = 0x13"
definition type_nat_echo_redirect_reply :: u8 where "type_nat_echo_redirect_reply = 0x14"
definition type_rdp :: u8 where "type_rdp = 0x90"
definition type_undefined :: u8 where "type_undefined = 0"
definition type_dtun_ping :: u8 where "type_dtun_ping = 0x21"
definition type_dtun_ping_reply :: u8 where "type_dtun_ping_reply = 0x22"
definition type_dtun_find_node :: u8 where "type_dtun_find_node = 0x23"
definition type_dtun_find_node_reply :: u8 where "type_dtun_find_node_reply = 0x24"
definition type_dtun_find_value :: u8 where "type_dtun_find_value = 0x25"
definition type_dtun_find_value_reply :: u8 where "type_dtun_find_value_reply = 0x26"
definition type_dtun_register :: u8 where "type_dtun_register = 0x27"
definition type_dtun_request :: u8 where "type_dtun_request = 0x28"
definition type_dtun_request_by :: u8 where "type_dtun_request_by = 0x29"
definition type_dtun_request_reply :: u8 where "type_dtun_request_reply = 0x2A"
definition type_dht_ping :: u8 where "type_dht_ping = 0x41"
definition type_dht_ping_reply :: u8 where "type_dht_ping_reply = 0x42"
definition type_dht_find_node :: u8 where "type_dht_find_node = 0x43"
definition type_dht_find_node_reply :: u8 where "type_dht_find_node_reply = 0x44"
definition type_dht_find_value :: u8 where "type_dht_find_value = 0x45"
definition type_dht_find_value_reply :: u8 where "type_dht_find_value_reply = 0x46"
definition type_dht_store :: u8 where "type_dht_store = 0x47"
definition type_proxy_register :: u8 where "type_proxy_register = 0x81"
definition type_proxy_register_reply :: u8 where "type_proxy_register_reply = 0x82"
definition type_proxy_store :: u8 where "type_proxy_store = 0x83"
definition type_proxy_get :: u8 where "type_proxy_get = 0x84"
definition type_proxy_get_reply :: u8 where "type_proxy_get_reply = 0x85"
definition type_proxy_dgram :: u8 where "type_proxy_dgram = 0x86"
definition type_proxy_dgram_forwarded :: u8 where "type_proxy_dgram_forwarded = 0x87"
definition type_proxy_rdp :: u8 where "type_proxy_rdp = 0x88"
definition type_proxy_rdp_forwarded :: u8 where "type_proxy_rdp_forwarded = 0x89"

lemmas type_dtun_defs = type_dtun_ping_def type_dtun_ping_reply_def type_dtun_find_node_def type_dtun_find_node_reply_def type_dtun_find_value_def type_dtun_find_value_reply_def type_dtun_register_def type_dtun_request_def type_dtun_request_by_def type_dtun_request_reply_def

lemmas type_defs = type_dgram_def type_advertise_def type_advertise_reply_def type_nat_echo_def
  type_nat_echo_reply_def type_nat_echo_redirect_def type_nat_echo_redirect_reply_def type_rdp_def

datatype node_state = node_undefined | node_nat | node_cone | node_symmetric | node_global

record sockaddr_in =
  sin_port :: u16
  sin_addr :: u32

record sockaddr_in6 =
  sin6_port :: u16
  sin6_addr :: "u8 list"

datatype saddr = NoAddr | In sockaddr_in | In6 sockaddr_in6

record cageaddr =
  ca_id :: uint160
  ca_domain :: u16
  ca_saddr :: saddr

fun get_in :: "saddr \<Rightarrow> sockaddr_in option" where
  "get_in (In a) = Some a"
| "get_in _ = None"

fun get_in6 :: "saddr \<Rightarrow> sockaddr_in6 option" where
  "get_in6 (In6 a) = Some a"
| "get_in6 _ = None"

subsection \<open>Struct access\<close>

definition u8_at :: "nat \<Rightarrow> u8 list \<Rightarrow> u8" where
  "u8_at off bs = bs ! off"

definition u16_at :: "nat \<Rightarrow> u8 list \<Rightarrow> u16" where
  "u16_at off bs = ntohs_bytes (take 2 (drop off bs))"

definition u32_at :: "nat \<Rightarrow> u8 list \<Rightarrow> u32" where
  "u32_at off bs = ntohl_bytes (take 4 (drop off bs))"

definition id_at :: "nat \<Rightarrow> u8 list \<Rightarrow> uint160" where
  "id_at off bs = bn_from_binary 5 (take 20 (drop off bs))"

text \<open>A field the code reads without \<^verbatim>\<open>ntohs\<close>: its bytes in the order of the (little-endian) machine.\<close>

definition u16_raw_at :: "nat \<Rightarrow> u8 list \<Rightarrow> u16" where
  "u16_raw_at off bs = ntohs_bytes (rev (take 2 (drop off bs)))"

definition id_bytes :: "uint160 \<Rightarrow> u8 list option" where
  "id_bytes a = bn_to_binary a CAGE_ID_LEN"

record msg_hdr =
  hd_magic :: u16
  hd_ver :: u8
  hd_type :: u8
  hd_len :: u16
  hd_reserved :: u16
  hd_src :: uint160
  hd_dst :: uint160

definition hdr_size :: nat where "hdr_size = 48"

definition hdr_bytes :: "msg_hdr \<Rightarrow> u8 list option" where
  "hdr_bytes h = do {
     s \<leftarrow> id_bytes (hd_src h);
     d \<leftarrow> id_bytes (hd_dst h);
     Some (htons_bytes (hd_magic h) @ [hd_ver h, hd_type h] @ htons_bytes (hd_len h) @ htons_bytes (hd_reserved h) @ s @ d)
   }"

definition hdr_at :: "u8 list \<Rightarrow> msg_hdr" where
  "hdr_at bs = \<lparr>hd_magic = u16_at 0 bs, hd_ver = u8_at 2 bs, hd_type = u8_at 3 bs, hd_len = u16_at 4 bs,
     hd_reserved = u16_at 6 bs, hd_src = id_at 8 bs, hd_dst = id_at 28 bs\<rparr>"

definition new_hdr :: "u8 \<Rightarrow> nat \<Rightarrow> uint160 \<Rightarrow> uint160 \<Rightarrow> msg_hdr" where
  "new_hdr ty n s d = \<lparr>hd_magic = MAGIC_NUMBER, hd_ver = CAGE_VERSION, hd_type = ty, hd_len = of_nat n,
     hd_reserved = 0, hd_src = s, hd_dst = d\<rparr>"

text \<open>Datagrams handed to \<^verbatim>\<open>udphandler::sendto\<close>, with their destination.\<close>

type_synonym sent = "(u8 list \<times> saddr) list"

definition new_cageaddr :: "u8 list \<Rightarrow> saddr \<Rightarrow> cageaddr option" where
  "new_cageaddr hdr from =
     (case from of
        In a \<Rightarrow> Some \<lparr>ca_id = hd_src (hdr_at hdr), ca_domain = domain_inet, ca_saddr = In a\<rparr>
      | In6 a \<Rightarrow> Some \<lparr>ca_id = hd_src (hdr_at hdr), ca_domain = domain_inet6, ca_saddr = In6 a\<rparr>
      | NoAddr \<Rightarrow> None)"

text \<open>
  \<^verbatim>\<open>send_msg\<close> fills the header in front of the body.  A destination that is neither
  IPv4 nor IPv6 gets nothing.
\<close>

definition send_msg :: "u8 list \<Rightarrow> u8 \<Rightarrow> cageaddr \<Rightarrow> uint160 \<Rightarrow> sent option" where
  "send_msg body ty dst s = do {
     h \<leftarrow> hdr_bytes (new_hdr ty (hdr_size + length body) s (ca_id dst));
     if ca_domain dst = domain_inet then do { a \<leftarrow> get_in (ca_saddr dst); Some [(h @ body, In a)] }
     else if ca_domain dst = domain_inet6 then do { a \<leftarrow> get_in6 (ca_saddr dst); Some [(h @ body, In6 a)] }
     else Some []
   }"

text \<open>A message sent to a node at the address of its domain.\<close>

definition send_to :: "u8 list \<Rightarrow> cageaddr \<Rightarrow> sent option" where
  "send_to m dst =
     (if ca_domain dst = domain_inet then do { a \<leftarrow> get_in (ca_saddr dst); Some [(m, In a)] }
      else if ca_domain dst = domain_inet6 then do { a \<leftarrow> get_in6 (ca_saddr dst); Some [(m, In6 a)] }
      else Some [])"

subsection \<open>Lists of nodes\<close>

text \<open>
  \<^verbatim>\<open>msg_inet\<close> has 28 bytes, \<^verbatim>\<open>msg_inet6\<close> 40; the sender's own entry (domain loopback) is
  written with port and address zero and read as the address the reply came from.
\<close>

definition write_node_inet :: "cageaddr \<Rightarrow> u8 list option" where
  "write_node_inet c = do {
     (port, a) \<leftarrow> (if ca_domain c = domain_loopback then Some (0, 0)
                  else do { a \<leftarrow> get_in (ca_saddr c); Some (sin_port a, sin_addr a) });
     i \<leftarrow> id_bytes (ca_id c);
     Some (htons_bytes port @ [0, 0] @ htonl_bytes a @ i)
   }"

fun write_nodes_inet :: "cageaddr list \<Rightarrow> u8 list option" where
  "write_nodes_inet [] = Some []"
| "write_nodes_inet (c # nodes) = do { b \<leftarrow> write_node_inet c; bs \<leftarrow> write_nodes_inet nodes; Some (b @ bs) }"

definition write_node_inet6 :: "cageaddr \<Rightarrow> u8 list option" where
  "write_node_inet6 c = do {
     (port, a) \<leftarrow> (if ca_domain c = domain_loopback then Some (0, replicate 16 0)
                  else do { a \<leftarrow> get_in6 (ca_saddr c); Some (sin6_port a, sin6_addr a) });
     i \<leftarrow> id_bytes (ca_id c);
     Some (htons_bytes port @ [0, 0] @ a @ i)
   }"

fun write_nodes_inet6 :: "cageaddr list \<Rightarrow> u8 list option" where
  "write_nodes_inet6 [] = Some []"
| "write_nodes_inet6 (c # nodes) = do { b \<leftarrow> write_node_inet6 c; bs \<leftarrow> write_nodes_inet6 nodes; Some (b @ bs) }"

fun read_nodes_inet :: "u8 list \<Rightarrow> nat \<Rightarrow> saddr \<Rightarrow> (uint160 \<Rightarrow> bool) \<Rightarrow> cageaddr list option" where
  "read_nodes_inet bs 0 from is_timeout = Some []"
| "read_nodes_inet bs (Suc num) from is_timeout =
     (let i = id_at 8 bs; port = u16_at 0 bs; a = u32_at 4 bs in
      if is_timeout i then read_nodes_inet (drop 28 bs) num from is_timeout
      else do {
        sa \<leftarrow> (if port = 0 \<and> a = 0 then get_in from else Some \<lparr>sin_port = port, sin_addr = a\<rparr>);
        nodes \<leftarrow> read_nodes_inet (drop 28 bs) num from is_timeout;
        Some (\<lparr>ca_id = i, ca_domain = domain_inet, ca_saddr = In sa\<rparr> # nodes)
      })"

fun read_nodes_inet6 :: "u8 list \<Rightarrow> nat \<Rightarrow> saddr \<Rightarrow> (uint160 \<Rightarrow> bool) \<Rightarrow> cageaddr list option" where
  "read_nodes_inet6 bs 0 from is_timeout = Some []"
| "read_nodes_inet6 bs (Suc num) from is_timeout =
     (let i = id_at 20 bs; port = u16_at 0 bs; a = take 16 (drop 4 bs) in
      if is_timeout i then read_nodes_inet6 (drop 40 bs) num from is_timeout
      else do {
        sa \<leftarrow> (if port = 0 \<and> a = replicate 16 0 then get_in6 from else Some \<lparr>sin6_port = port, sin6_addr = a\<rparr>);
        nodes \<leftarrow> read_nodes_inet6 (drop 40 bs) num from is_timeout;
        Some (\<lparr>ca_id = i, ca_domain = domain_inet6, ca_saddr = In6 sa\<rparr> # nodes)
      })"

subsection \<open>Round trips\<close>

lemma id_bytes_eq: "length a = 5 \<Longrightarrow> id_bytes a = Some (concat (map htonl_bytes a))"
  using bn_to_binary_eq [of a] by (simp add: id_bytes_def CAGE_ID_LEN_def)

lemma id_at_bytes: "length a = 5 \<Longrightarrow> id_bytes a = Some bs \<Longrightarrow> id_at 0 (bs @ rest) = a"
  using bn_from_to_binary [of a] by (auto simp: id_at_def id_bytes_def CAGE_ID_LEN_def)

lemma length_id_bytes: "length a = 5 \<Longrightarrow> id_bytes a = Some bs \<Longrightarrow> length bs = 20"
  by (auto simp: id_bytes_eq)

lemma at_append:
  "length pre \<le> off \<Longrightarrow> u16_at off (pre @ bs) = u16_at (off - length pre) bs"
  "length pre \<le> off \<Longrightarrow> u32_at off (pre @ bs) = u32_at (off - length pre) bs"
  "length pre \<le> off \<Longrightarrow> id_at off (pre @ bs) = id_at (off - length pre) bs"
  "length pre \<le> off \<Longrightarrow> u8_at off (pre @ bs) = u8_at (off - length pre) bs"
  by (simp_all add: u16_at_def u32_at_def id_at_def u8_at_def nth_append)

lemma at_head [simp]:
  "u16_at 0 (htons_bytes w @ bs) = w" "u32_at 0 (htonl_bytes x @ bs) = x" "u8_at 0 (b # bs) = b"
  by (simp_all add: u16_at_def u32_at_def u8_at_def del: ntohs_bytes.simps ntohl_bytes.simps)

lemma at_Cons:
  "u16_at (Suc off) (b # bs) = u16_at off bs" "u32_at (Suc off) (b # bs) = u32_at off bs"
  "id_at (Suc off) (b # bs) = id_at off bs" "u8_at (Suc off) (b # bs) = u8_at off bs"
  by (simp_all add: u16_at_def u32_at_def id_at_def u8_at_def)

lemmas at_simps = at_append at_Cons

lemma hdr_roundtrip:
  assumes "length (hd_src h) = 5" "length (hd_dst h) = 5"
  shows "\<exists>bs. hdr_bytes h = Some bs \<and> length bs = hdr_size \<and> hdr_at (bs @ rest) = h"
proof -
  obtain s d where sd: "id_bytes (hd_src h) = Some s" "id_bytes (hd_dst h) = Some d" using assms by (simp add: id_bytes_eq)
  have l: "length s = 20" "length d = 20" using sd assms length_id_bytes by blast+
  have i: "id_at 0 (s @ d @ rest) = hd_src h" "id_at 0 (d @ rest) = hd_dst h" using sd assms id_at_bytes by blast+
  show ?thesis
    using sd l i by (cases h) (simp add: hdr_bytes_def hdr_size_def hdr_at_def at_simps numeral_eq_Suc)
qed

text \<open>What a node list can carry, and how the receiver of a reply from \<open>from\<close> sees an entry.\<close>

definition node_inet_ok :: "cageaddr \<Rightarrow> bool" where
  "node_inet_ok c \<longleftrightarrow> length (ca_id c) = 5 \<and> (ca_domain c = domain_loopback \<or>
     ca_domain c = domain_inet \<and> (\<exists>a. ca_saddr c = In a \<and> \<not> (sin_port a = 0 \<and> sin_addr a = 0)))"

definition node_inet6_ok :: "cageaddr \<Rightarrow> bool" where
  "node_inet6_ok c \<longleftrightarrow> length (ca_id c) = 5 \<and> (ca_domain c = domain_loopback \<or>
     ca_domain c = domain_inet6 \<and> (\<exists>a. ca_saddr c = In6 a \<and> length (sin6_addr a) = 16 \<and>
       \<not> (sin6_port a = 0 \<and> sin6_addr a = replicate 16 0)))"

definition seen_from :: "u16 \<Rightarrow> saddr \<Rightarrow> cageaddr \<Rightarrow> cageaddr" where
  "seen_from dm from c = (if ca_domain c = domain_loopback then c\<lparr>ca_domain := dm, ca_saddr := from\<rparr> else c)"

lemma write_node_inet_fields:
  assumes "node_inet_ok c"
  shows "\<exists>b. write_node_inet c = Some b \<and> length b = 28 \<and> id_at 8 (b @ rest) = ca_id c \<and>
    (if ca_domain c = domain_loopback then u16_at 0 (b @ rest) = 0 \<and> u32_at 4 (b @ rest) = 0
     else \<exists>a. ca_saddr c = In a \<and> u16_at 0 (b @ rest) = sin_port a \<and> u32_at 4 (b @ rest) = sin_addr a)"
proof -
  obtain i where i: "id_bytes (ca_id c) = Some i" "length i = 20" "id_at 0 (i @ rest) = ca_id c"
    using assms id_at_bytes by (auto simp: node_inet_ok_def id_bytes_eq)
  show ?thesis using assms i
    by (auto simp: node_inet_ok_def write_node_inet_def at_simps numeral_eq_Suc domain_defs split: if_splits)
qed

lemma write_node_inet6_fields:
  assumes "node_inet6_ok c"
  shows "\<exists>b. write_node_inet6 c = Some b \<and> length b = 40 \<and> id_at 20 (b @ rest) = ca_id c \<and>
    (if ca_domain c = domain_loopback then u16_at 0 (b @ rest) = 0 \<and> take 16 (drop 4 (b @ rest)) = replicate 16 0
     else \<exists>a. ca_saddr c = In6 a \<and> u16_at 0 (b @ rest) = sin6_port a \<and> take 16 (drop 4 (b @ rest)) = sin6_addr a)"
proof -
  obtain i where i: "id_bytes (ca_id c) = Some i" "length i = 20" "id_at 0 (i @ rest) = ca_id c"
    using assms id_at_bytes by (auto simp: node_inet6_ok_def id_bytes_eq)
  show ?thesis using assms i
    by (auto simp: node_inet6_ok_def write_node_inet6_def at_simps numeral_eq_Suc domain_defs split: if_splits)
qed

lemma nodes_inet_list:
  assumes "\<forall>c \<in> set nodes. node_inet_ok c"
  shows "\<exists>bs. write_nodes_inet nodes = Some bs \<and> length bs = 28 * length nodes \<and>
    read_nodes_inet (bs @ rest) (length nodes) (In from) gone =
      Some (map (seen_from domain_inet (In from)) (filter (\<lambda>c. \<not> gone (ca_id c)) nodes))"
  using assms
proof (induction nodes)
  case (Cons c nodes)
  then obtain bs where bs: "write_nodes_inet nodes = Some bs" "length bs = 28 * length nodes"
    "read_nodes_inet (bs @ rest) (length nodes) (In from) gone =
      Some (map (seen_from domain_inet (In from)) (filter (\<lambda>c. \<not> gone (ca_id c)) nodes))" by auto
  have ok: "node_inet_ok c" using Cons.prems by simp
  obtain b where b: "write_node_inet c = Some b" "length b = 28" "id_at 8 (b @ bs @ rest) = ca_id c"
    "if ca_domain c = domain_loopback then u16_at 0 (b @ bs @ rest) = 0 \<and> u32_at 4 (b @ bs @ rest) = 0
     else \<exists>a. ca_saddr c = In a \<and> u16_at 0 (b @ bs @ rest) = sin_port a \<and> u32_at 4 (b @ bs @ rest) = sin_addr a"
    using write_node_inet_fields [OF ok, of "bs @ rest"] by auto
  show ?case
    using bs b ok by (auto simp: Let_def seen_from_def node_inet_ok_def domain_defs split: if_splits)
qed simp

lemma nodes_inet6_list:
  assumes "\<forall>c \<in> set nodes. node_inet6_ok c"
  shows "\<exists>bs. write_nodes_inet6 nodes = Some bs \<and> length bs = 40 * length nodes \<and>
    read_nodes_inet6 (bs @ rest) (length nodes) (In6 from) gone =
      Some (map (seen_from domain_inet6 (In6 from)) (filter (\<lambda>c. \<not> gone (ca_id c)) nodes))"
  using assms
proof (induction nodes)
  case (Cons c nodes)
  then obtain bs where bs: "write_nodes_inet6 nodes = Some bs" "length bs = 40 * length nodes"
    "read_nodes_inet6 (bs @ rest) (length nodes) (In6 from) gone =
      Some (map (seen_from domain_inet6 (In6 from)) (filter (\<lambda>c. \<not> gone (ca_id c)) nodes))" by auto
  have ok: "node_inet6_ok c" using Cons.prems by simp
  obtain b where b: "write_node_inet6 c = Some b" "length b = 40" "id_at 20 (b @ bs @ rest) = ca_id c"
    "if ca_domain c = domain_loopback then u16_at 0 (b @ bs @ rest) = 0 \<and> take 16 (drop 4 (b @ bs @ rest)) = replicate 16 0
     else \<exists>a. ca_saddr c = In6 a \<and> u16_at 0 (b @ bs @ rest) = sin6_port a \<and> take 16 (drop 4 (b @ bs @ rest)) = sin6_addr a"
    using write_node_inet6_fields [OF ok, of "bs @ rest"] by auto
  show ?case
    using bs b ok by (auto simp: Let_def seen_from_def node_inet6_ok_def domain_defs split: if_splits)
qed simp

text \<open>
  The node list of a find reply, written by one node and read by another that
  got it from the address \<open>from\<close>: every entry whose node is not timed out arrives
  unchanged and in order, the writer's own entry with the address \<open>from\<close>; IPv4 and IPv6
  lists alike, whatever bytes follow the list.
\<close>

lemma node_list_roundtrip:
  "((\<forall>c \<in> set nodes. node_inet_ok c) \<longrightarrow>
      (\<exists>bs. write_nodes_inet nodes = Some bs \<and> length bs = 28 * length nodes \<and>
         read_nodes_inet (bs @ rest) (length nodes) (In from4) gone =
           Some (map (seen_from domain_inet (In from4)) (filter (\<lambda>c. \<not> gone (ca_id c)) nodes)))) \<and>
   ((\<forall>c \<in> set nodes. node_inet6_ok c) \<longrightarrow>
      (\<exists>bs. write_nodes_inet6 nodes = Some bs \<and> length bs = 40 * length nodes \<and>
         read_nodes_inet6 (bs @ rest) (length nodes) (In6 from6) gone =
           Some (map (seen_from domain_inet6 (In6 from6)) (filter (\<lambda>c. \<not> gone (ca_id c)) nodes))))"
  using nodes_inet_list nodes_inet6_list by blast

definition sample_node :: "u32 \<Rightarrow> u16 \<Rightarrow> cageaddr" where
  "sample_node n dm = \<lparr>ca_id = [0, 0, 0, 0, n], ca_domain = dm, ca_saddr = In \<lparr>sin_port = 99, sin_addr = n\<rparr>\<rparr>"

lemma node_list_roundtrip_witness:
  "\<exists>bs. write_nodes_inet [sample_node 1 domain_loopback, sample_node 2 domain_inet, sample_node 3 domain_inet] = Some bs \<and>
     read_nodes_inet bs 3 (In \<lparr>sin_port = 7, sin_addr = 8\<rparr>) (\<lambda>i. i = [0, 0, 0, 0, 3]) =
       Some [(sample_node 1 domain_inet)\<lparr>ca_saddr := In \<lparr>sin_port = 7, sin_addr = 8\<rparr>\<rparr>, sample_node 2 domain_inet]"
proof -
  let ?nodes = "[sample_node 1 domain_loopback, sample_node 2 domain_inet, sample_node 3 domain_inet]"
  have "\<forall>c \<in> set ?nodes. node_inet_ok c" by (simp add: node_inet_ok_def sample_node_def domain_defs)
  moreover have "map (seen_from domain_inet (In \<lparr>sin_port = 7, sin_addr = 8\<rparr>))
      (filter (\<lambda>c. \<not> ca_id c = [0, 0, 0, 0, 3]) ?nodes) =
    [(sample_node 1 domain_inet)\<lparr>ca_saddr := In \<lparr>sin_port = 7, sin_addr = 8\<rparr>\<rparr>, sample_node 2 domain_inet]"
    by (simp add: seen_from_def sample_node_def domain_defs)
  ultimately show ?thesis
    using node_list_roundtrip [of ?nodes "[]" "\<lparr>sin_port = 7, sin_addr = 8\<rparr>" "\<lambda>i. i = [0, 0, 0, 0, 3]"]
    by (auto simp del: read_nodes_inet.simps write_nodes_inet.simps simp: numeral_3_eq_3)
qed

end
