(* ===== verification/Rttable.thy ===== *)
theory Rttable
  imports Cagetypes Ordmap "HOL-Library.Multiset"
begin

section \<open>Routing tables (rttable.hpp, rttable.cpp)\<close>

text \<open>
  The routing table of a node: row \<open>i\<close> holds up to 20 nodes whose identifier first
  differs from the own one in bit \<open>i\<close>, the longest unseen in front.  A node for a full
  row waits until the front node has answered a ping or the ping has timed out.

  \<open>rnds\<close> are the values \<^verbatim>\<open>m_rnd\<close> will return, \<open>pings\<close> the calls of the virtual
  \<^verbatim>\<open>send_ping\<close> and \<open>timed_out\<close> those of \<^verbatim>\<open>peers::add_timeout\<close>, \<open>armed\<close> the
  nonces whose ping timer is set.  Results are \<open>None\<close> where an element is removed from an
  empty row or vector, a shift leaves its array or the random numbers run out.
\<close>

definition max_entry :: nat where "max_entry = 20"
definition ping_timeout :: int where "ping_timeout = 2"

record timer_ping =
  tp_addr_old :: cageaddr
  tp_addr_new :: cageaddr
  tp_nonce :: u32
  tp_i :: int

record rttable =
  m_id :: uint160
  m_table :: "(int \<times> cageaddr list) list"
  m_ping_wait :: "u32 \<rightharpoonup> timer_ping"
  m_ping_send :: "int set"
  m_nodes :: "uint160 set"
  rt_rnds :: "u32 list"
  armed :: "u32 set"
  pings :: "(cageaddr \<times> u32) list"
  timed_out :: "uint160 list"

definition rttable_init :: "uint160 \<Rightarrow> u32 list \<Rightarrow> rttable" where
  "rttable_init i rs = \<lparr>m_id = i, m_table = [], m_ping_wait = Map.empty, m_ping_send = {}, m_nodes = {},
     rt_rnds = rs, armed = {}, pings = [], timed_out = []\<rparr>"

definition rt_is_zero :: "rttable \<Rightarrow> bool" where
  "rt_is_zero s \<longleftrightarrow> m_table s = []"

definition has_id :: "uint160 \<Rightarrow> rttable \<Rightarrow> bool" where
  "has_id i s \<longleftrightarrow> i \<in> m_nodes s"

definition get_size :: "rttable \<Rightarrow> nat" where
  "get_size s = sum_list (map (length \<circ> snd) (m_table s))"

subsection \<open>The row of an identifier\<close>

fun id2i_loop :: "nat \<Rightarrow> limbs \<Rightarrow> limbs \<Rightarrow> int option" where
  "id2i_loop 0 d msk = Some (-1)"
| "id2i_loop (Suc i) d msk =
     (if bn_greater (bn_and d msk) (bn_fill_zero 5) then Some (int i)
      else do { msk \<leftarrow> shift_right 1 msk; id2i_loop i d msk })"

definition id2i :: "uint160 \<Rightarrow> uint160 \<Rightarrow> int option" where
  "id2i me i = do {
     msk \<leftarrow> shift_left 159 (bn_assign_T 5 1);
     id2i_loop 160 (bn_xor me i) msk
   }"

subsection \<open>Changing the table\<close>

fun fresh_nonce :: "(u32 \<Rightarrow> bool) \<Rightarrow> u32 list \<Rightarrow> (u32 \<times> u32 list) option" where
  "fresh_nonce used [] = None"
| "fresh_nonce used (r # rs) = (if used r then fresh_nonce used rs else Some (r, rs))"

fun erase_id :: "uint160 \<Rightarrow> cageaddr list \<Rightarrow> cageaddr list" where
  "erase_id i [] = []"
| "erase_id i (c # row) = (if ca_id c = i then row else c # erase_id i row)"

definition start_ping :: "int \<Rightarrow> cageaddr \<Rightarrow> cageaddr \<Rightarrow> rttable \<Rightarrow> rttable option" where
  "start_ping i old addr s = do {
     (nonce, rs) \<leftarrow> fresh_nonce (\<lambda>r. m_ping_wait s r \<noteq> None) (rt_rnds s);
     let t = \<lparr>tp_addr_old = old, tp_addr_new = addr, tp_nonce = nonce, tp_i = i\<rparr>;
     Some (s\<lparr>rt_rnds := rs, armed := insert nonce (armed s), m_ping_wait := (m_ping_wait s)(nonce \<mapsto> t),
             m_ping_send := insert i (m_ping_send s), pings := pings s @ [(old, nonce)]\<rparr>)
   }"

definition rt_add :: "cageaddr \<Rightarrow> rttable \<Rightarrow> rttable option" where
  "rt_add addr s =
     (if ca_id addr = m_id s then Some s
      else do {
        i \<leftarrow> id2i (m_id s) (ca_id addr);
        if i < 0 \<or> ca_id addr \<in> m_nodes s then Some s
        else case ord_find (m_table s) i of
          None \<Rightarrow> Some (s\<lparr>m_table := ord_ins i [addr] (m_table s), m_nodes := insert (ca_id addr) (m_nodes s)\<rparr>)
        | Some row \<Rightarrow>
            if \<exists>c \<in> set row. ca_id c = ca_id addr then
              Some (s\<lparr>m_table := ord_ins i (erase_id (ca_id addr) row @ [addr]) (m_table s)\<rparr>)
            else if length row < max_entry then
              Some (s\<lparr>m_table := ord_ins i (row @ [addr]) (m_table s), m_nodes := insert (ca_id addr) (m_nodes s)\<rparr>)
            else if i \<in> m_ping_send s then Some s
            else do { old \<leftarrow> (case row of [] \<Rightarrow> None | old # _ \<Rightarrow> Some old); start_ping i old addr s }
      })"

text \<open>The row is erased when it becomes empty; only the first entry with the identifier goes.\<close>

definition rt_remove :: "uint160 \<Rightarrow> rttable \<Rightarrow> rttable option" where
  "rt_remove i s =
     (if i \<notin> m_nodes s then Some s
      else do {
        k \<leftarrow> id2i (m_id s) i;
        let row = (case ord_find (m_table s) k of None \<Rightarrow> [] | Some row \<Rightarrow> row);
        let row = erase_id i row;
        Some (s\<lparr>m_table := (if row = [] then ord_del k (m_table s) else ord_ins k row (m_table s)),
                m_nodes := m_nodes s - {i}\<rparr>)
      })"

text \<open>The front of the row moves to its end, replaced by \<open>c\<close>.\<close>

definition rotate_row :: "int \<Rightarrow> cageaddr \<Rightarrow> rttable \<Rightarrow> rttable option" where
  "rotate_row i c s =
     (case ord_find (m_table s) i of
        Some (_ # row) \<Rightarrow> Some (s\<lparr>m_table := ord_ins i (row @ [c]) (m_table s)\<rparr>)
      | _ \<Rightarrow> None)"

definition timer_ping_fire :: "u32 \<Rightarrow> rttable \<Rightarrow> rttable option" where
  "timer_ping_fire nonce s = do {
     t \<leftarrow> m_ping_wait s nonce;
     s \<leftarrow> rotate_row (tp_i t) (tp_addr_new t) s;
     Some (s\<lparr>m_ping_send := m_ping_send s - {tp_i t},
             m_nodes := insert (ca_id (tp_addr_new t)) (m_nodes s - {ca_id (tp_addr_old t)}),
             timed_out := timed_out s @ [ca_id (tp_addr_old t)],
             armed := armed s - {nonce}, m_ping_wait := (m_ping_wait s)(tp_nonce t := None)\<rparr>)
   }"

text \<open>
  The branch of either address family, once the addresses agree.  In the IPv6 branch the
  length passed to \<^verbatim>\<open>memcmp\<close> is \<^verbatim>\<open>sizeof(in6_addr) == 0\<close>, which is 0.
\<close>

definition ping_answered :: "u32 \<Rightarrow> timer_ping \<Rightarrow> rttable \<Rightarrow> rttable option" where
  "ping_answered nonce t s = do {
     s \<leftarrow> rotate_row (tp_i t) (tp_addr_old t) s;
     Some (s\<lparr>armed := armed s - {nonce}, m_ping_wait := (m_ping_wait s)(nonce := None),
             m_ping_send := m_ping_send s - {tp_i t}\<rparr>)
   }"

definition memcmp_differs :: "nat \<Rightarrow> u8 list \<Rightarrow> u8 list \<Rightarrow> bool" where
  "memcmp_differs n xs ys \<longleftrightarrow> take n xs \<noteq> take n ys"

definition rt_recv_ping_reply :: "cageaddr \<Rightarrow> u32 \<Rightarrow> rttable \<Rightarrow> rttable option" where
  "rt_recv_ping_reply from nonce s =
     (case m_ping_wait s nonce of
        None \<Rightarrow> Some s
      | Some t \<Rightarrow>
          if ca_id from \<noteq> ca_id (tp_addr_old t) \<or> ca_domain from \<noteq> ca_domain (tp_addr_old t) then Some s
          else if ca_domain from = domain_inet then do {
            in1 \<leftarrow> get_in (ca_saddr from);
            in2 \<leftarrow> get_in (ca_saddr (tp_addr_old t));
            if sin_port in1 = sin_port in2 \<and> sin_addr in1 = sin_addr in2 then ping_answered nonce t s else Some s
          }
          else if ca_domain from = domain_inet6 then do {
            in1 \<leftarrow> get_in6 (ca_saddr from);
            in2 \<leftarrow> get_in6 (ca_saddr (tp_addr_old t));
            if sin6_port in1 = sin6_port in2 \<and>
               memcmp_differs (if (16 :: nat) = 0 then 1 else 0) (sin6_addr in1) (sin6_addr in2)
            then ping_answered nonce t s else Some s
          }
          else Some s)"

subsection \<open>Looking up the closest nodes\<close>

fun id2i4lookup_loop :: "nat \<Rightarrow> rttable \<Rightarrow> int \<Rightarrow> limbs \<Rightarrow> int \<Rightarrow> int list \<Rightarrow> (int \<times> int list) option" where
  "id2i4lookup_loop 0 s mx id0 n is = None"
| "id2i4lookup_loop (Suc fuel) s mx id0 n is =
     (if \<not> n < mx then Some (n, is)
      else if bn_is_zero (bn_xor (m_id s) id0) then Some (n + 1, insort_insert (-1) is)
      else do {
        i \<leftarrow> id2i (m_id s) id0;
        let (n, is) = (case ord_find (m_table s) i of
                         Some row \<Rightarrow> (n + int (length row), insort_insert i is)
                       | None \<Rightarrow> (n, is));
        id2 \<leftarrow> shift_left i (bn_assign_T 5 1);
        id2i4lookup_loop fuel s mx (bn_xor id0 id2) n is
      })"

definition id2i4lookup :: "uint160 \<Rightarrow> int \<Rightarrow> rttable \<Rightarrow> (int \<times> int list) option" where
  "id2i4lookup i mx s = id2i4lookup_loop 162 s mx i 0 []"

fun id2i4lookupR_loop :: "(int \<times> cageaddr list) list \<Rightarrow> limbs \<Rightarrow> int \<Rightarrow> int \<Rightarrow> int list \<Rightarrow> int list option" where
  "id2i4lookupR_loop [] id0 mx n is = Some is"
| "id2i4lookupR_loop ((i, row) # m) id0 mx n is =
     (if n \<ge> mx then Some is
      else do {
        bits \<leftarrow> shift_left i (bn_assign_T 5 1);
        if \<not> bn_is_zero (bn_and bits id0)
        then id2i4lookupR_loop m id0 mx (n + int (length row)) (insort_insert i is)
        else id2i4lookupR_loop m id0 mx n is
      })"

definition id2i4lookupR :: "uint160 \<Rightarrow> int \<Rightarrow> int list \<Rightarrow> rttable \<Rightarrow> int list option" where
  "id2i4lookupR i mx is s = id2i4lookupR_loop (m_table s) (bn_not (bn_xor (m_id s) i)) mx 0 is"

definition self_addr :: "rttable \<Rightarrow> cageaddr" where
  "self_addr s = \<lparr>ca_id = m_id s, ca_domain = domain_loopback, ca_saddr = NoAddr\<rparr>"

definition bucket :: "rttable \<Rightarrow> int \<Rightarrow> cageaddr list" where
  "bucket s i = (if i = -1 then [self_addr s] else case ord_find (m_table s) i of Some row \<Rightarrow> row | None \<Rightarrow> [])"

text \<open>\<open>compare\<close> orders by the distance; \<^verbatim>\<open>std::sort\<close> with it is sorting by that key.\<close>

definition xor_dist :: "uint160 \<Rightarrow> cageaddr \<Rightarrow> nat" where
  "xor_dist i c = bn_val (bn_xor i (ca_id c))"

definition rt_lookup :: "uint160 \<Rightarrow> int \<Rightarrow> rttable \<Rightarrow> cageaddr list option" where
  "rt_lookup i num s = do {
     (n, is) \<leftarrow> id2i4lookup i num s;
     is \<leftarrow> (if n < num then id2i4lookupR i (num - n) is s else Some is);
     if num < 0 then None
     else Some (take (nat num) (sort_key (xor_dist i) (concat (map (bucket s) is))))
   }"

subsection \<open>Merging answers\<close>

text \<open>The loop counts iterations, so an entry that is skipped uses up one of \<open>max\<close> too.\<close>

definition push_new :: "cageaddr \<Rightarrow> uint160 set \<Rightarrow> cageaddr list \<Rightarrow> uint160 set \<times> cageaddr list" where
  "push_new c already out = (if ca_id c \<in> already then (already, out) else (insert (ca_id c) already, out @ [c]))"

fun merge_loop :: "nat \<Rightarrow> uint160 \<Rightarrow> cageaddr list \<Rightarrow> cageaddr list \<Rightarrow> uint160 set \<Rightarrow> cageaddr list \<Rightarrow> cageaddr list" where
  "merge_loop 0 i v1 v2 already out = out"
| "merge_loop (Suc n) i [] [] already out = out"
| "merge_loop (Suc n) i [] (c2 # v2) already out =
     (let (already, out) = push_new c2 already out in merge_loop n i [] v2 already out)"
| "merge_loop (Suc n) i (c1 # v1) [] already out =
     (let (already, out) = push_new c1 already out in merge_loop n i v1 [] already out)"
| "merge_loop (Suc n) i (c1 # v1) (c2 # v2) already out =
     (if ca_id c1 = ca_id c2 then
        let (already, out) = push_new c1 already out in merge_loop n i v1 v2 already out
      else if bn_less (bn_xor (ca_id c1) i) (bn_xor (ca_id c2) i) then
        let (already, out) = push_new c1 already out in merge_loop n i v1 (c2 # v2) already out
      else
        let (already, out) = push_new c2 already out in merge_loop n i (c1 # v1) v2 already out)"

definition merge_nodes :: "uint160 \<Rightarrow> cageaddr list \<Rightarrow> cageaddr list \<Rightarrow> int \<Rightarrow> cageaddr list" where
  "merge_nodes i v1 v2 mx = merge_loop (nat mx) i v1 v2 {} []"

end
