(* ===== verification/Rttable_Lookup.thy ===== *)
theory Rttable_Lookup
  imports Rttable
begin

section \<open>The lookup finds the closest nodes\<close>

text \<open>
  Rows of a routing table against distances: for a target whose distance from the own
  identifier is \<open>d\<close>, the nodes of row \<open>i\<close> are closer than everything in lower rows and
  the own node if bit \<open>i\<close> of \<open>d\<close> is set, and farther otherwise.  So the rows that
  \<open>id2i4lookup\<close> and \<open>id2i4lookupR\<close> choose hold the closest nodes, and the lookup is the
  sorted and cut list of all nodes.
\<close>

subsection \<open>Highest bits\<close>

lemma bit_high: "2 ^ h \<le> (x :: nat) \<Longrightarrow> x < 2 ^ Suc h \<Longrightarrow> bit x h"
proof -
  assume "2 ^ h \<le> x" "x < 2 ^ Suc h"
  then have "x div 2 ^ h = 1" by (intro div_nat_eqI) simp_all
  then show ?thesis by (simp add: bit_iff_odd)
qed

lemma xor_eq_0_nat: "(a :: nat) XOR b = 0 \<longleftrightarrow> a = b"
proof
  assume "a XOR b = 0"
  then have "bit a n = bit b n" for n by (metis bit_0_eq bit_xor_iff bot_apply bot_bool_def)
  then show "a = b" by (rule bit_eqI)
qed simp

lemma xor_less_high_bit:
  fixes a b :: nat
  assumes "2 ^ h \<le> a XOR b" "a XOR b < 2 ^ Suc h"
  shows "a < b \<longleftrightarrow> bit b h"
proof -
  have "drop_bit (Suc h) (a XOR b) = 0" using assms(2) by (simp only: drop_bit_eq_div) simp
  then have "drop_bit (Suc h) a = drop_bit (Suc h) b" by (simp add: drop_bit_xor xor_eq_0_nat)
  then have hi: "a div 2 ^ Suc h = b div 2 ^ Suc h" by (simp only: drop_bit_eq_div)
  have low: "take_bit h a < 2 ^ h" "take_bit h b < 2 ^ h" by simp_all
  have "bit a h \<noteq> bit b h" using bit_high [OF assms] by (simp add: bit_xor_iff)
  then have "take_bit (Suc h) a < take_bit (Suc h) b \<longleftrightarrow> bit b h"
    using low by (auto simp: take_bit_Suc_from_most simp del: take_bit_nat_less_exp)
  moreover have "a = a div 2 ^ Suc h * 2 ^ Suc h + take_bit (Suc h) a" "b = b div 2 ^ Suc h * 2 ^ Suc h + take_bit (Suc h) b"
    by (simp_all only: take_bit_eq_mod div_mult_mod_eq)
  ultimately show ?thesis using hi by (metis nat_add_left_cancel_less)
qed

definition hbit :: "nat \<Rightarrow> int" where
  "hbit x = int (LEAST n. x < 2 ^ n) - 1"

lemma hbit_0 [simp]: "hbit 0 = -1"
  by (simp add: hbit_def)

lemma hbit_eq:
  assumes "2 ^ h \<le> x" "x < 2 ^ Suc h"
  shows "hbit x = int h"
proof -
  have "(LEAST n. x < 2 ^ n) = Suc h"
  proof (rule Least_equality)
    show "x < 2 ^ Suc h" by (fact assms(2))
    fix n assume "x < 2 ^ n"
    then have "(2 :: nat) ^ h < 2 ^ n" using assms(1) by linarith
    then show "Suc h \<le> n" by simp
  qed
  then show ?thesis by (simp add: hbit_def)
qed

lemma hbit_pos:
  assumes "0 < x"
  obtains h where "hbit x = int h" "2 ^ h \<le> x" "x < 2 ^ Suc h"
proof -
  define n where "n = (LEAST n. x < 2 ^ n)"
  have "x < 2 ^ x" by simp
  then have up: "x < 2 ^ n" unfolding n_def by (rule LeastI)
  then have "n \<noteq> 0" using assms by (cases n) simp_all
  then obtain h where h: "n = Suc h" by (cases n) simp_all
  have "\<not> x < 2 ^ h" using not_less_Least [of h "\<lambda>n. x < 2 ^ n"] h by (simp add: n_def)
  then show thesis using that up h hbit_eq [of h x] by simp
qed

lemma hbit_range: "x < 2 ^ n \<Longrightarrow> hbit x < int n"
proof (cases "x = 0")
  case False
  assume "x < 2 ^ n"
  obtain h where "hbit x = int h" "2 ^ h \<le> x" using False hbit_pos by blast
  moreover have "(2 :: nat) ^ h < 2 ^ n" using \<open>2 ^ h \<le> x\<close> \<open>x < 2 ^ n\<close> by linarith
  ultimately show ?thesis by simp
qed simp

lemma mask_test:
  assumes "length d = 5" "length msk = 5" "bn_val msk = 2 ^ i"
  shows "bn_greater (bn_and d msk) (bn_fill_zero 5) \<longleftrightarrow> bit (bn_val d) i"
proof -
  have "bn_greater (bn_and d msk) (bn_fill_zero 5) \<longleftrightarrow> bn_val d AND 2 ^ i \<noteq> 0"
    using assms by (simp add: bn_greater_less bn_less_iff bn_val_bitops bn_fill_zero_def)
  then show ?thesis by (simp add: and_exp_eq_0_iff_not_bit)
qed

lemma not_high_bit:
  assumes "(x :: nat) < 2 ^ Suc i"
  shows "bit x i \<longleftrightarrow> 2 ^ i \<le> x"
  using assms bit_high by (auto simp: bit_iff_odd) (metis div_less even_zero not_le)

lemma id2i_loop_spec:
  assumes "length d = 5" "length msk = 5" "bn_val msk = 2 ^ i" "bn_val d < 2 ^ Suc i"
  shows "id2i_loop (Suc i) d msk = Some (hbit (bn_val d))"
  using assms
proof (induction i arbitrary: msk)
  case 0
  obtain r where r: "shift_right 1 msk = Some r" using shift_right_value [of 1 msk] 0 by auto
  show ?case
  proof (cases "bit (bn_val d) 0")
    case True
    then show ?thesis using mask_test [OF 0(1-3)] not_high_bit [OF 0(4)] hbit_eq [of 0 "bn_val d"] 0(4) by simp
  next
    case False
    then have "bn_val d = 0" using not_high_bit [OF 0(4)] by simp
    then show ?thesis using mask_test [OF 0(1-3)] False r by simp
  qed
next
  case (Suc i)
  obtain r where r: "shift_right 1 msk = Some r" "length r = 5" "bn_val r = 2 ^ i"
    using shift_right_value [of 1 msk] Suc.prems by auto
  show ?case
  proof (cases "bit (bn_val d) (Suc i)")
    case True
    then show ?thesis
      using mask_test [OF Suc.prems(1-3)] not_high_bit [OF Suc.prems(4)] hbit_eq [of "Suc i" "bn_val d"] Suc.prems(4) by simp
  next
    case False
    then have "bn_val d < 2 ^ Suc i" using not_high_bit [OF Suc.prems(4)] by linarith
    then have "id2i_loop (Suc i) d r = Some (hbit (bn_val d))" by (rule Suc.IH [OF Suc.prems(1) r(2,3)])
    then show ?thesis using mask_test [OF Suc.prems(1-3)] False r(1) by simp
  qed
qed

lemma bit_mask:
  assumes "i < 160"
  shows "\<exists>r. shift_left (int i) (bn_assign_T 5 1) = Some r \<and> length r = 5 \<and> bn_val r = 2 ^ i"
proof -
  have "bn_assign_T 5 1 = [0, 0, 0, 0, 1]" by (simp add: bn_assign_T_def numeral_eq_Suc)
  then have one: "length (bn_assign_T 5 1) = 5" "bn_val (bn_assign_T 5 1) = 1" by simp_all
  have "(2 :: nat) ^ i < 2 ^ 160" using assms by (rule power_strict_increasing) simp
  then show ?thesis using shift_left_value [of i "bn_assign_T 5 1"] assms one by auto
qed

lemma id2i_spec:
  assumes "length me = 5" "length i = 5"
  shows "id2i me i = Some (hbit (bn_val me XOR bn_val i))"
proof -
  obtain r where r: "shift_left 159 (bn_assign_T 5 1) = Some r" "length r = 5" "bn_val r = 2 ^ 159"
    using bit_mask [of 159] by auto
  have "bn_val (bn_xor me i) < 2 ^ Suc 159" using bn_val_less [of "bn_xor me i"] assms by simp
  then have "id2i_loop (Suc 159) (bn_xor me i) r = Some (hbit (bn_val (bn_xor me i)))"
    using r assms by (intro id2i_loop_spec) simp_all
  then show ?thesis using r(1) assms bn_val_bitops(1) [of i me] by (simp add: id2i_def del: id2i_loop.simps)
qed

subsection \<open>Rows and distances\<close>

lemma xor_row:
  fixes e e' :: nat
  assumes "2 ^ h \<le> e" "e < 2 ^ Suc h" "e' < 2 ^ h"
  shows "2 ^ h \<le> e XOR e' \<and> e XOR e' < 2 ^ Suc h"
proof -
  have "drop_bit h e = 1" "drop_bit h e' = 0" using assms by (simp_all add: drop_bit_eq_div div_nat_eqI)
  then have "drop_bit h (e XOR e') = 1" by (simp add: drop_bit_xor)
  then have one: "(e XOR e') div 2 ^ h = 1" by (simp add: drop_bit_eq_div)
  have "e XOR e' = 2 ^ h * ((e XOR e') div 2 ^ h) + (e XOR e') mod 2 ^ h" by (simp only: mult_div_mod_eq)
  moreover have "(e XOR e') mod 2 ^ h < 2 ^ h" by simp
  ultimately show ?thesis unfolding one by (simp only: mult_1_right power_Suc) linarith
qed

lemma closer_row:
  fixes d e e' :: nat
  assumes "hbit e = int i" "hbit e' < int i"
  shows "d XOR e < d XOR e' \<longleftrightarrow> bit d i" "d XOR e' < d XOR e \<longleftrightarrow> \<not> bit d i"
proof -
  have "0 < e" using assms(1) by (cases "e = 0") simp_all
  then have e: "2 ^ i \<le> e" "e < 2 ^ Suc i" using assms(1) hbit_pos [of e] by auto
  have e': "e' < 2 ^ i"
  proof (cases "e' = 0")
    case False
    then obtain h where "hbit e' = int h" "e' < 2 ^ Suc h" using hbit_pos [of e'] by blast
    moreover have "(2 :: nat) ^ Suc h \<le> 2 ^ i" using assms(2) \<open>hbit e' = int h\<close> by (intro power_increasing) simp_all
    ultimately show ?thesis by linarith
  qed simp
  have x: "(d XOR e) XOR (d XOR e') = e XOR e'" by (metis xor.assoc xor.commute xor.left_commute xor.right_neutral xor_self_eq)
  have row: "2 ^ i \<le> e XOR e'" "e XOR e' < 2 ^ Suc i" using xor_row [OF e e'] by simp_all
  have be: "bit e i" "\<not> bit e' i" using bit_high [OF e] e' by (auto simp: bit_iff_odd)
  show "d XOR e < d XOR e' \<longleftrightarrow> bit d i" using xor_less_high_bit [of i "d XOR e" "d XOR e'"] x row be by (simp add: bit_xor_iff)
  show "d XOR e' < d XOR e \<longleftrightarrow> \<not> bit d i"
    using xor_less_high_bit [of i "d XOR e'" "d XOR e"] x row be by (simp add: bit_xor_iff xor.commute)
qed

definition row_of :: "uint160 \<Rightarrow> cageaddr \<Rightarrow> int" where
  "row_of me c = hbit (bn_val me XOR bn_val (ca_id c))"

text \<open>What a lookup relies on: rows hold nodes of their distance only, and each node once.\<close>

definition rows_ok :: "rttable \<Rightarrow> bool" where
  "rows_ok s \<longleftrightarrow> length (m_id s) = 5 \<and> ord_wf (m_table s) \<and>
     (\<forall>(i, row) \<in> set (m_table s). 0 \<le> i \<and> i < 160 \<and> (\<forall>c \<in> set row. length (ca_id c) = 5 \<and> row_of (m_id s) c = i)) \<and>
     distinct (map ca_id (concat (map snd (m_table s))))"

definition all_nodes :: "rttable \<Rightarrow> cageaddr list" where
  "all_nodes s = self_addr s # concat (map snd (m_table s))"

definition all_buckets :: "rttable \<Rightarrow> int list" where
  "all_buckets s = -1 # map fst (m_table s)"

lemma row_find: "ord_wf m \<Longrightarrow> (i, row) \<in> set m \<Longrightarrow> ord_find m i = Some row"
  unfolding ord_find_def ord_wf_def by (intro map_of_is_SomeI) (simp_all add: strict_sorted_iff del: sorted_wrt_map)

lemma bucket_row: "rows_ok s \<Longrightarrow> (i, row) \<in> set (m_table s) \<Longrightarrow> bucket s i = row"
  by (force simp: bucket_def rows_ok_def row_find)

lemma buckets_nodes: "rows_ok s \<Longrightarrow> concat (map (bucket s) (all_buckets s)) = all_nodes s"
proof -
  assume ok: "rows_ok s"
  have "map (bucket s) (map fst (m_table s)) = map snd (m_table s)" using bucket_row [OF ok] by auto
  moreover have "bucket s (-1) = [self_addr s]" by (simp add: bucket_def)
  ultimately show ?thesis by (simp add: all_buckets_def all_nodes_def del: map_map)
qed

lemma distinct_buckets: "rows_ok s \<Longrightarrow> distinct (all_buckets s)"
proof -
  assume ok: "rows_ok s"
  then have "distinct (map fst (m_table s))" by (auto simp: rows_ok_def ord_wf_def strict_sorted_iff)
  moreover have "-1 \<notin> fst ` set (m_table s)" using ok by (force simp: rows_ok_def)
  ultimately show ?thesis by (simp add: all_buckets_def)
qed

lemma bucket_member:
  assumes ok: "rows_ok s" and b: "b \<in> set (all_buckets s)" and c: "c \<in> set (bucket s b)"
  shows "length (ca_id c) = 5 \<and> row_of (m_id s) c = b"
proof (cases "b = -1")
  case True
  then show ?thesis using c ok by (simp add: bucket_def self_addr_def row_of_def rows_ok_def)
next
  case False
  then obtain row where "(b, row) \<in> set (m_table s)" using b by (auto simp: all_buckets_def)
  then show ?thesis using bucket_row [OF ok] c ok by (force simp: rows_ok_def)
qed

lemma xor_dist_row:
  assumes "length (m_id s) = 5" "length i = 5" "length (ca_id c) = 5"
  shows "xor_dist i c = (bn_val (m_id s) XOR bn_val i) XOR (bn_val (m_id s) XOR bn_val (ca_id c))"
  using assms bn_val_bitops(1) [of "ca_id c" i] unfolding xor_dist_def
  by (metis xor.assoc xor.commute xor.left_neutral xor_self_eq)

text \<open>A set of buckets nearer to the target than all others.\<close>

definition nearest :: "nat \<Rightarrow> int set \<Rightarrow> int set \<Rightarrow> bool" where
  "nearest d C A \<longleftrightarrow> (\<forall>i \<in> C. \<forall>j \<in> A - C. (j < i \<longrightarrow> bit d (nat i)) \<and> (i < j \<longrightarrow> \<not> bit d (nat j)))"

lemma nearest_closer:
  assumes ok: "rows_ok s" and i: "length i = 5" and near: "nearest (bn_val (m_id s) XOR bn_val i) C (set (all_buckets s))"
    and C: "C \<subseteq> set (all_buckets s)" and b: "b \<in> C" "c \<in> set (bucket s b)"
    and b': "b' \<in> set (all_buckets s) - C" "c' \<in> set (bucket s b')"
  shows "xor_dist i c < xor_dist i c'"
proof -
  let ?d = "bn_val (m_id s) XOR bn_val i"
  have c: "length (ca_id c) = 5" "row_of (m_id s) c = b" using bucket_member [OF ok] b C by blast+
  have c': "length (ca_id c') = 5" "row_of (m_id s) c' = b'" using bucket_member [OF ok] b' by blast+
  have me: "length (m_id s) = 5" using ok by (simp add: rows_ok_def)
  have low: "-1 \<le> x" if "x \<in> set (all_buckets s)" for x using that ok by (force simp: all_buckets_def rows_ok_def)
  have "b \<noteq> b'" using b(1) b'(1) by blast
  then consider (lower) "b' < b" | (upper) "b < b'" by linarith
  then show ?thesis
  proof cases
    case lower
    then have "0 \<le> b" "bit ?d (nat b)" using low [of b'] b' b near by (auto simp: nearest_def)
    then show ?thesis using closer_row(1) [of _ "nat b" _ ?d] lower c c'
      unfolding xor_dist_row [OF me i c(1)] xor_dist_row [OF me i c'(1)] by (simp add: row_of_def)
  next
    case upper
    then have "0 \<le> b'" "\<not> bit ?d (nat b')" using low [of b] b' b C near by (auto simp: nearest_def)
    then show ?thesis using closer_row(2) [of _ "nat b'" _ ?d] upper c c'
      unfolding xor_dist_row [OF me i c(1)] xor_dist_row [OF me i c'(1)] by (simp add: row_of_def)
  qed
qed

subsection \<open>Sorting the nearest buckets is enough\<close>

lemma mset_concat_map: "mset xs = mset ys \<Longrightarrow> mset (concat (map f xs)) = mset (concat (map f ys))"
  by (metis mset_concat mset_map sum_mset_sum_list map_map)

lemma distinct_ids:
  assumes ok: "rows_ok s"
  shows "distinct (map ca_id (all_nodes s))" "\<forall>c \<in> set (all_nodes s). length (ca_id c) = 5"
proof -
  have "ca_id c \<noteq> m_id s" if "(i, row) \<in> set (m_table s)" "c \<in> set row" for i row c
    using that ok by (force simp: rows_ok_def row_of_def)
  then have "m_id s \<notin> ca_id ` set (concat (map snd (m_table s)))" by fastforce
  then show "distinct (map ca_id (all_nodes s))" using ok by (simp add: rows_ok_def all_nodes_def self_addr_def)
  show "\<forall>c \<in> set (all_nodes s). length (ca_id c) = 5" using ok by (auto simp: rows_ok_def all_nodes_def self_addr_def)
qed

lemma xor_dist_inj:
  assumes ok: "rows_ok s" and i: "length i = 5"
  shows "inj_on (xor_dist i) (set (all_nodes s))"
proof (rule inj_onI)
  fix c c' assume c: "c \<in> set (all_nodes s)" "c' \<in> set (all_nodes s)" "xor_dist i c = xor_dist i c'"
  then have l: "length (ca_id c) = 5" "length (ca_id c') = 5" using distinct_ids [OF ok] by blast+
  then have "bn_val (ca_id c) = bn_val (ca_id c')"
    using c(3) i bn_val_bitops(1) [of "ca_id c" i] bn_val_bitops(1) [of "ca_id c'" i]
    by (metis xor_dist_def xor.assoc xor.left_neutral xor_self_eq)
  then have "ca_id c = ca_id c'" using l bn_val_inject by metis
  then show "c = c'" using c distinct_ids [OF ok] by (simp add: distinct_map inj_on_def)
qed

lemma sort_nearest:
  assumes ok: "rows_ok s" and i: "length i = 5" and is': "distinct is" "set is \<subseteq> set (all_buckets s)"
    and near: "nearest (bn_val (m_id s) XOR bn_val i) (set is) (set (all_buckets s))"
    and enough: "set is = set (all_buckets s) \<or> num \<le> length (concat (map (bucket s) is))"
  shows "take num (sort_key (xor_dist i) (concat (map (bucket s) is))) = take num (sort_key (xor_dist i) (all_nodes s))"
proof -
  let ?f = "xor_dist i" and ?rest = "filter (\<lambda>b. b \<notin> set is) (all_buckets s)"
  let ?xs = "concat (map (bucket s) is)" and ?ys = "concat (map (bucket s) ?rest)"
  have "mset (all_buckets s) = mset (is @ ?rest)"
    using is' distinct_buckets [OF ok] by (intro set_eq_iff_mset_eq_distinct [THEN iffD1]) auto
  then have perm: "mset (all_nodes s) = mset (?xs @ ?ys)"
    using mset_concat_map [of "all_buckets s" "is @ ?rest" "bucket s"] buckets_nodes [OF ok] by simp
  have "?f x \<le> ?f y" if "x \<in> set ?xs" "y \<in> set ?ys" for x y
    using that nearest_closer [OF ok i near is'(2)] by (force intro: less_imp_le)
  then have "sorted (map ?f (sort_key ?f ?xs @ sort_key ?f ?ys))" by (simp add: sorted_append) blast
  then have "sort_key ?f (all_nodes s) = sort_key ?f ?xs @ sort_key ?f ?ys"
    using perm xor_dist_inj [OF ok i] by (intro sort_key_inj_key_eq) simp_all
  moreover have "?ys = []" if "set is = set (all_buckets s)" using that by (simp add: filter_empty_conv)
  ultimately show ?thesis using enough by auto
qed

subsection \<open>The two selection loops\<close>

definition total :: "rttable \<Rightarrow> int list \<Rightarrow> int" where
  "total s is = int (length (concat (map (bucket s) is)))"

definition set_rows :: "nat \<Rightarrow> rttable \<Rightarrow> nat \<Rightarrow> int set" where
  "set_rows d s k = {i \<in> fst ` set (m_table s). bit d (nat i) \<and> int k \<le> i}"

lemma insort_bucket:
  assumes "distinct is" "b \<notin> set is"
  shows "distinct (insort_insert b is)" "set (insort_insert b is) = insert b (set is)"
    "total s (insort_insert b is) = total s is + int (length (bucket s b))"
proof -
  have "mset (insort_insert b is) = mset (b # is)" using assms(2) by (simp add: insort_insert_key_def)
  then show "total s (insort_insert b is) = total s is + int (length (bucket s b))"
    unfolding total_def using mset_concat_map [of "insort_insert b is" "b # is" "bucket s"]
    by (metis add.commute concat.simps(2) length_append list.simps(9) of_nat_add size_mset)
  show "distinct (insort_insert b is)" using assms(1) by (rule distinct_insort_insert)
qed (simp add: set_insort_insert)

lemma take_bit_high:
  fixes d :: nat
  assumes "hbit (take_bit k d) = int h"
  shows "h < k" "bit d h" "\<And>j. h < j \<Longrightarrow> j < k \<Longrightarrow> \<not> bit d j" "take_bit k d XOR 2 ^ h = take_bit h d"
proof -
  let ?x = "take_bit k d"
  have "0 < ?x" using assms by (cases "?x = 0") simp_all
  then have h: "2 ^ h \<le> ?x" "?x < 2 ^ Suc h" using hbit_pos [of ?x] assms by auto
  have "bit ?x h" by (rule bit_high [OF h])
  then show hk: "h < k" "bit d h" by (simp_all add: bit_take_bit_iff)
  have up: "\<not> bit ?x j" if "h < j" for j
  proof -
    have "(2 :: nat) ^ Suc h \<le> 2 ^ j" using that by (intro power_increasing) simp_all
    then show ?thesis using h(2) by (auto simp: bit_iff_odd)
  qed
  then show "\<not> bit d j" if "h < j" "j < k" for j using that by (auto simp: bit_take_bit_iff)
  show "?x XOR 2 ^ h = take_bit h d"
    by (rule bit_eqI) (use up hk in \<open>auto simp: bit_xor_iff bit_take_bit_iff bit_exp_iff\<close>, (metis linorder_neqE_nat)+)
qed

lemma lookup_loop_spec:
  assumes ok: "rows_ok s" and i: "length id0 = 5" "length i = 5" and d: "d = bn_val (m_id s) XOR bn_val i"
    and k: "bn_val (m_id s) XOR bn_val id0 = take_bit k d" "k \<le> 160" "k < fuel"
    and is': "distinct is" "set is = set_rows d s k" "n = total s is"
  shows "\<exists>n' is'. id2i4lookup_loop fuel s mx id0 n is = Some (n', is') \<and> n' = total s is' \<and> distinct is' \<and>
    ((\<exists>k'. set is' = set_rows d s k') \<and> mx \<le> n' \<or> set is' = insert (-1) (set_rows d s 0))"
  using i(1) k is'
proof (induction fuel arbitrary: id0 k n "is")
  case (Suc fuel)
  have me: "length (m_id s) = 5" using ok by (simp add: rows_ok_def)
  have neg: "-1 \<notin> set is" using Suc.prems(6) by (simp add: set_rows_def)
  show ?case
  proof (cases "n < mx")
    case False
    then show ?thesis using Suc.prems by auto
  next
    case True
    have xor: "bn_val (bn_xor (m_id s) id0) = take_bit k d" using bn_val_bitops(1) [of id0 "m_id s"] me Suc.prems(1,2) by simp
    show ?thesis
    proof (cases "take_bit k d = 0")
      case zero: True
      have "\<not> bit d j" if "j < k" for j using zero that by (metis bit_0_eq bit_take_bit_iff bot_apply bot_bool_def)
      then have "set_rows d s k = set_rows d s 0"
        unfolding set_rows_def using ok by (auto simp: rows_ok_def) (metis nat_less_iff not_le of_nat_nat)
      then show ?thesis
        using True zero xor Suc.prems insort_bucket(1,2) [OF Suc.prems(5) neg] insort_bucket(3) [OF Suc.prems(5) neg, of s]
        by (auto simp: bn_is_zero_iff bucket_def)
    next
      case nz: False
      then obtain h where h: "hbit (take_bit k d) = int h" using hbit_pos by blast
      note th = take_bit_high [OF h]
      have id2i: "id2i (m_id s) id0 = Some (int h)" using id2i_spec [OF me Suc.prems(1)] h Suc.prems(2) by simp
      obtain r where r: "shift_left (int h) (bn_assign_T 5 1) = Some r" "length r = 5" "bn_val r = 2 ^ h"
        using bit_mask [of h] th(1) Suc.prems(3) by auto
      have id0': "length (bn_xor id0 r) = 5" "bn_val (m_id s) XOR bn_val (bn_xor id0 r) = take_bit h d"
        using Suc.prems(1,2) r bn_val_bitops(1) [of r id0] th(4) by (simp_all flip: xor.assoc)
      have rows: "set_rows d s h = set_rows d s k \<union> ({int h} \<inter> fst ` set (m_table s))"
      proof -
        have "int k \<le> x \<or> x = int h" if "bit d (nat x)" "int h \<le> x" for x
          using th(3) [of "nat x"] that by (cases "x = int h") linarith+
        then show ?thesis unfolding set_rows_def using th(1,2) by force
      qed
      let ?p = "case ord_find (m_table s) (int h) of
          Some row \<Rightarrow> (n + int (length row), insort_insert (int h) is) | None \<Rightarrow> (n, is)"
      have new: "int h \<notin> set is" using Suc.prems(6) th(1) by (simp add: set_rows_def)
      have "distinct (snd ?p) \<and> set (snd ?p) = set_rows d s h \<and> fst ?p = total s (snd ?p)"
        using Suc.prems(5-7) insort_bucket(1,2) [OF Suc.prems(5) new] insort_bucket(3) [OF Suc.prems(5) new, of s] rows ord_find_in_keys [of "m_table s" "int h"]
        by (auto simp: bucket_def split: option.splits)
      then have "\<exists>n' is'. id2i4lookup_loop fuel s mx (bn_xor id0 r) (fst ?p) (snd ?p) = Some (n', is') \<and> n' = total s is' \<and> distinct is' \<and>
          ((\<exists>k'. set is' = set_rows d s k') \<and> mx \<le> n' \<or> set is' = insert (-1) (set_rows d s 0))"
        using Suc.prems(3,4) th(1) by (intro Suc.IH [OF id0']) simp_all
      moreover have "id2i4lookup_loop (Suc fuel) s mx id0 n is = id2i4lookup_loop fuel s mx (bn_xor id0 r) (fst ?p) (snd ?p)"
        using True nz xor id2i r(1) by (simp add: bn_is_zero_iff split: option.splits)
      ultimately show ?thesis by simp
    qed
  qed
qed simp

definition base_rows :: "nat \<Rightarrow> rttable \<Rightarrow> int set" where
  "base_rows d s = insert (-1) (set_rows d s 0)"

definition clear_rows :: "nat \<Rightarrow> (int \<times> cageaddr list) list \<Rightarrow> int set" where
  "clear_rows d m = {j \<in> fst ` set m. \<not> bit d (nat j)}"

lemma bit_test:
  assumes "length x = 5" "0 \<le> i" "i < 160" "shift_left i (bn_assign_T 5 1) = Some r"
  shows "\<not> bn_is_zero (bn_and r (bn_not x)) \<longleftrightarrow> \<not> bit (bn_val x) (nat i)"
proof -
  have "nat i < 160" using assms by linarith
  then have r: "length r = 5" "bn_val r = 2 ^ nat i" using bit_mask [of "nat i"] assms by auto
  then have "bn_val (bn_and r (bn_not x)) = bn_val (bn_not x) AND 2 ^ nat i"
    using assms(1) by (simp add: bn_val_bitops(2) and.commute)
  moreover have "nat i < 160" using assms by linarith
  ultimately show ?thesis using assms(1) by (simp add: bn_is_zero_iff and_exp_eq_0_iff_not_bit bit_bn_not)
qed

lemma lookupR_loop_spec:
  assumes ok: "rows_ok s" and i: "length i = 5" and d: "d = bn_val (m_id s) XOR bn_val i"
    and m: "m_table s = pre @ m" and is': "distinct is" "set is = base_rows d s \<union> clear_rows d pre" "n = total s is - c"
  shows "\<exists>is' pre' m'. id2i4lookupR_loop m (bn_not (bn_xor (m_id s) i)) mx n is = Some is' \<and> distinct is' \<and>
    m_table s = pre' @ m' \<and> set is' = base_rows d s \<union> clear_rows d pre' \<and> (m' = [] \<or> mx \<le> total s is' - c)"
  using m is'
proof (induction m arbitrary: pre n "is")
  case Nil
  then show ?case by auto
next
  case (Cons x m)
  obtain b row where x: "x = (b, row)" by (cases x)
  have me: "length (m_id s) = 5" "0 \<le> b" "b < 160" using ok Cons.prems(1) x by (auto simp: rows_ok_def)
  show ?case
  proof (cases "n \<ge> mx")
    case True
    then show ?thesis using Cons.prems x by auto
  next
    case False
    have "nat b < 160" using me by linarith
    then obtain r where r: "shift_left b (bn_assign_T 5 1) = Some r" using bit_mask [of "nat b"] me by auto
    have test: "\<not> bn_is_zero (bn_and r (bn_not (bn_xor (m_id s) i))) \<longleftrightarrow> \<not> bit d (nat b)"
      using bit_test [OF _ me(2,3) r, of "bn_xor (m_id s) i"] me(1) i d bn_val_bitops(1) [of i "m_id s"] by simp
    have pre: "m_table s = (pre @ [x]) @ m" using Cons.prems(1) by simp
    show ?thesis
    proof (cases "bit d (nat b)")
      case True
      have "set is = base_rows d s \<union> clear_rows d (pre @ [x])" using Cons.prems(3) True x by (auto simp: clear_rows_def)
      then show ?thesis using Cons.IH [OF pre Cons.prems(2) _ Cons.prems(4)] False r test True x by simp
    next
      case clear: False
      have "b \<notin> fst ` set pre" using ok Cons.prems(1) x by (force simp: rows_ok_def ord_wf_def sorted_wrt_append)
      then have new: "b \<notin> set is" using Cons.prems(3) clear me(2) by (auto simp: base_rows_def set_rows_def clear_rows_def)
      have row: "bucket s b = row" using bucket_row [OF ok] Cons.prems(1) x by auto
      have "set (insort_insert b is) = base_rows d s \<union> clear_rows d (pre @ [x])"
        using insort_bucket(2) [OF Cons.prems(2) new] Cons.prems(3) clear x by (auto simp: clear_rows_def)
      moreover have "n + int (length row) = total s (insort_insert b is) - c"
        using insort_bucket(3) [OF Cons.prems(2) new, of s] Cons.prems(4) row by simp
      ultimately show ?thesis
        using Cons.IH [OF pre insort_bucket(1) [OF Cons.prems(2) new]] False r test clear x by simp
    qed
  qed
qed

lemma nearest_set_rows: "rows_ok s \<Longrightarrow> nearest d (set_rows d s k) (set (all_buckets s))"
  by (auto simp: nearest_def set_rows_def all_buckets_def rows_ok_def)

lemma nearest_clear_rows:
  assumes ok: "rows_ok s" and m: "m_table s = pre @ m"
  shows "nearest d (base_rows d s \<union> clear_rows d pre) (set (all_buckets s))"
proof -
  have pos: "0 \<le> j" if "j \<in> fst ` set (m_table s)" for j using that ok by (auto simp: rows_ok_def)
  have lt: "x < j" if "x \<in> fst ` set pre" "j \<in> fst ` set m" for x j
    using that ok m by (auto simp: rows_ok_def ord_wf_def sorted_wrt_append)
  have "\<not> bit d (nat j) \<and> j \<in> fst ` set m" if "j \<in> set (all_buckets s) - (base_rows d s \<union> clear_rows d pre)" for j
    using that m pos by (auto simp: all_buckets_def base_rows_def set_rows_def clear_rows_def)
  then have out: "\<not> bit d (nat j) \<and> j \<in> fst ` set m \<and> 0 \<le> j" if "j \<in> set (all_buckets s) - (base_rows d s \<union> clear_rows d pre)" for j
    using that pos m by fastforce
  have "bit d (nat x)" if "x \<in> base_rows d s \<union> clear_rows d pre" "j < x" "j \<in> fst ` set m" "0 \<le> j" for x j
    using that lt [of x j] by (auto simp: base_rows_def set_rows_def clear_rows_def)
  then show ?thesis unfolding nearest_def using out by blast
qed

lemma lookup_closest:
  assumes ok: "rows_ok s" and i: "length i = 5" and num: "0 \<le> num"
  shows "rt_lookup i num s = Some (take (nat num) (sort_key (xor_dist i) (all_nodes s)))"
proof -
  define d where "d = bn_val (m_id s) XOR bn_val i"
  have "d < 2 ^ 160" using bn_val_less [of "bn_xor (m_id s) i"] ok i bn_val_bitops(1) [of i "m_id s"] by (simp add: d_def rows_ok_def)
  then have tb: "take_bit 160 d = d" by (simp add: take_bit_nat_eq_self)
  have top: "set_rows d s 160 = {}" using ok by (force simp: set_rows_def rows_ok_def)
  obtain n is1 where l1: "id2i4lookup_loop 162 s num i 0 [] = Some (n, is1)" "n = total s is1" "distinct is1"
    and c1: "(\<exists>k'. set is1 = set_rows d s k') \<and> num \<le> n \<or> set is1 = base_rows d s"
    using lookup_loop_spec [OF ok i i d_def, of 160 162 "[]" 0 num] tb top by (auto simp: d_def total_def base_rows_def)
  have sub: "base_rows d s \<union> clear_rows d pre \<subseteq> set (all_buckets s)" if "m_table s = pre @ m" for pre m
    using that by (auto simp: base_rows_def set_rows_def clear_rows_def all_buckets_def)
  have sub': "set_rows d s k \<subseteq> set (all_buckets s)" for k by (auto simp: set_rows_def all_buckets_def)
  show ?thesis
  proof (cases "n < num")
    case False
    have "nearest d (base_rows d s) (set (all_buckets s))" "base_rows d s \<subseteq> set (all_buckets s)"
      using nearest_clear_rows [OF ok, of "[]" "m_table s" d] sub [of "[]" "m_table s"] by (simp_all add: clear_rows_def)
    then have "nearest d (set is1) (set (all_buckets s)) \<and> set is1 \<subseteq> set (all_buckets s)"
      using c1 nearest_set_rows [OF ok, of d] sub' by metis
    moreover have "nat num \<le> length (concat (map (bucket s) is1))" using False l1(2) by (simp add: total_def)
    ultimately show ?thesis
      using sort_nearest [OF ok i l1(3), of "nat num"] False num l1(1) by (simp add: rt_lookup_def id2i4lookup_def d_def del: id2i4lookup_loop.simps)
  next
    case True
    then have is1: "set is1 = base_rows d s \<union> clear_rows d []" using c1 by (auto simp: clear_rows_def)
    have start: "m_table s = [] @ m_table s" "0 = total s is1 - n" using l1(2) by simp_all
    from lookupR_loop_spec [OF ok i d_def start(1) l1(3) is1 start(2)] obtain is2 pre m where l2: "id2i4lookupR_loop (m_table s) (bn_not (bn_xor (m_id s) i)) (num - n) 0 is1 = Some is2"
      "distinct is2" "m_table s = pre @ m" "set is2 = base_rows d s \<union> clear_rows d pre"
      "m = [] \<or> num - n \<le> total s is2 - n"
      by blast
    have "set is2 = set (all_buckets s) \<or> nat num \<le> length (concat (map (bucket s) is2))"
    proof (cases "m = []")
      case True
      then have "set is2 = set (all_buckets s)"
        using l2(3,4) ok by (auto simp: base_rows_def set_rows_def clear_rows_def all_buckets_def rows_ok_def)
      then show ?thesis ..
    next
      case False
      then have "num \<le> int (length (concat (map (bucket s) is2)))" using l2(5) by (simp add: total_def)
      then show ?thesis by linarith
    qed
    then show ?thesis
      using sort_nearest [OF ok i l2(2), of "nat num"] nearest_clear_rows [OF ok l2(3), of d] sub [OF l2(3)] l2 l1(1) True num
      by (simp add: rt_lookup_def id2i4lookup_def id2i4lookupR_def d_def del: id2i4lookup_loop.simps)
  qed
qed

end
