(* ===== verification/Rttable_Inv.thy ===== *)
theory Rttable_Inv
  imports Rttable_Lookup
begin

section \<open>The routing table in every reachable state\<close>

text \<open>
  \<open>rt_step\<close> are the calls that change a routing table: adding a node, removing one whose
  row no ping is pending for, a ping that is answered or times out.  They keep the table
  sound; the lookup of the previous theory then holds in every state they reach.
\<close>

definition row_ok :: "uint160 \<Rightarrow> int \<Rightarrow> cageaddr list \<Rightarrow> bool" where
  "row_ok me i row \<longleftrightarrow> 0 \<le> i \<and> i < 160 \<and> row \<noteq> [] \<and> length row \<le> max_entry \<and> distinct (map ca_id row) \<and>
     (\<forall>c \<in> set row. length (ca_id c) = 5 \<and> row_of me c = i)"

definition table_ids :: "(int \<times> cageaddr list) list \<Rightarrow> uint160 set" where
  "table_ids tab = {x. \<exists>i row. ord_find tab i = Some row \<and> x \<in> ca_id ` set row}"

definition ping_ok :: "rttable \<Rightarrow> u32 \<Rightarrow> timer_ping \<Rightarrow> bool" where
  "ping_ok s nonce t \<longleftrightarrow> tp_nonce t = nonce \<and> tp_i t \<in> m_ping_send s \<and>
     (\<exists>row. ord_find (m_table s) (tp_i t) = Some (tp_addr_old t # row) \<and> Suc (length row) = max_entry) \<and>
     length (ca_id (tp_addr_new t)) = 5 \<and> row_of (m_id s) (tp_addr_new t) = tp_i t \<and> ca_id (tp_addr_new t) \<notin> m_nodes s"

definition rt_inv :: "rttable \<Rightarrow> bool" where
  "rt_inv s \<longleftrightarrow> length (m_id s) = 5 \<and> ord_wf (m_table s) \<and>
     (\<forall>i row. ord_find (m_table s) i = Some row \<longrightarrow> row_ok (m_id s) i row) \<and> m_nodes s = table_ids (m_table s) \<and>
     (\<forall>n t. m_ping_wait s n = Some t \<longrightarrow> ping_ok s n t) \<and>
     (\<forall>n n' t t'. m_ping_wait s n = Some t \<longrightarrow> m_ping_wait s n' = Some t' \<longrightarrow> tp_i t = tp_i t' \<longrightarrow> n = n') \<and>
     armed s = dom (m_ping_wait s)"

lemma find_set: "ord_wf m \<Longrightarrow> ord_find m i = Some row \<longleftrightarrow> (i, row) \<in> set m"
  using row_find by (auto simp: ord_find_def dest: map_of_SomeD)

lemma distinct_rows:
  assumes "ord_wf m" "\<forall>(i, row) \<in> set m. distinct (map ca_id row) \<and> (\<forall>c \<in> set row. row_of me c = i)"
  shows "distinct (map ca_id (concat (map snd m)))"
  using assms
proof (induction m)
  case (Cons x m)
  obtain i row where x: "x = (i, row)" by (cases x)
  have "ord_wf m" "\<forall>(j, row) \<in> set m. i < j" using Cons.prems(1) x by (auto simp: ord_wf_Cons)
  moreover have "ca_id c \<noteq> ca_id c'" if "c \<in> set row" "(j, row') \<in> set m" "c' \<in> set row'" for c c' j row'
  proof -
    have "row_of me c = i" "row_of me c' = j" using Cons.prems(2) that x by auto
    moreover have "i < j" using that(2) \<open>\<forall>(j, row) \<in> set m. i < j\<close> by auto
    ultimately show ?thesis by (auto simp: row_of_def)
  qed
  ultimately show ?case using Cons x by (fastforce simp: comp_def)
qed simp

lemma rt_inv_rows: "rt_inv s \<Longrightarrow> rows_ok s"
proof -
  assume inv: "rt_inv s"
  then have "\<forall>(i, row) \<in> set (m_table s). row_ok (m_id s) i row" using find_set [of "m_table s"] by (auto simp: rt_inv_def)
  then show ?thesis
    using inv distinct_rows [of "m_table s" "m_id s"] by (force simp: rt_inv_def rows_ok_def row_ok_def)
qed

text \<open>An identifier is in the table iff it is in its own row.\<close>

lemma table_ids_row:
  assumes "\<forall>i row. ord_find tab i = Some row \<longrightarrow> row_ok me i row"
  shows "x \<in> table_ids tab \<longleftrightarrow> (\<exists>row. ord_find tab (hbit (bn_val me XOR bn_val x)) = Some row \<and> x \<in> ca_id ` set row)"
  using assms unfolding table_ids_def row_ok_def row_of_def by auto

text \<open>A step that changes one row, for which no ping is pending afterwards.\<close>

lemma rt_inv_change:
  assumes inv: "rt_inv s" and s': "m_id s' = m_id s" "ord_wf (m_table s')"
    and rows: "\<And>j. j \<noteq> i \<Longrightarrow> ord_find (m_table s') j = ord_find (m_table s) j"
      "\<And>row. ord_find (m_table s') i = Some row \<Longrightarrow> row_ok (m_id s) i row"
    and nodes: "m_nodes s' = {x \<in> m_nodes s. hbit (bn_val (m_id s) XOR bn_val x) \<noteq> i} \<union>
      (case ord_find (m_table s') i of None \<Rightarrow> {} | Some row \<Rightarrow> ca_id ` set row)"
    and wait: "\<And>n t. m_ping_wait s' n = Some t \<Longrightarrow> m_ping_wait s n = Some t \<and> tp_i t \<noteq> i \<and> tp_i t \<in> m_ping_send s'"
    and armed: "armed s' = dom (m_ping_wait s')"
  shows "rt_inv s'"
proof -
  have ok: "\<forall>j row. ord_find (m_table s) j = Some row \<longrightarrow> row_ok (m_id s) j row" using inv by (simp add: rt_inv_def)
  have ok': "\<forall>j row. ord_find (m_table s') j = Some row \<longrightarrow> row_ok (m_id s') j row" using ok rows s'(1) by metis
  have "m_nodes s' = table_ids (m_table s')"
  proof (rule set_eqI)
    fix x
    let ?h = "hbit (bn_val (m_id s) XOR bn_val x)"
    have "x \<in> m_nodes s \<longleftrightarrow> (\<exists>row. ord_find (m_table s) ?h = Some row \<and> x \<in> ca_id ` set row)"
      using inv table_ids_row [OF ok] by (simp add: rt_inv_def)
    moreover have "x \<in> table_ids (m_table s') \<longleftrightarrow> (\<exists>row. ord_find (m_table s') ?h = Some row \<and> x \<in> ca_id ` set row)"
      using table_ids_row [OF ok'] s'(1) by simp
    moreover have "?h = i" if "ord_find (m_table s') i = Some row" "x \<in> ca_id ` set row" for row
      using rows(2) that by (auto simp: row_ok_def row_of_def)
    ultimately show "x \<in> m_nodes s' \<longleftrightarrow> x \<in> table_ids (m_table s')"
      unfolding nodes using rows(1) [of ?h] by (cases "?h = i") (auto split: option.splits)
  qed
  moreover have "ping_ok s' n t" if w: "m_ping_wait s' n = Some t" for n t
  proof -
    have old: "ping_ok s n t" "tp_i t \<noteq> i" "tp_i t \<in> m_ping_send s'" using wait [OF w] inv by (auto simp: rt_inv_def)
    have "ca_id (tp_addr_new t) \<notin> ca_id ` set row" if "ord_find (m_table s') i = Some row" for row
      using rows(2) [OF that] old(1,2) by (auto simp: row_ok_def ping_ok_def row_of_def)
    then show ?thesis using old rows(1) [OF old(2)] s'(1) nodes by (auto simp: ping_ok_def split: option.splits)
  qed
  moreover have "n = n'" if "m_ping_wait s' n = Some t" "m_ping_wait s' n' = Some t'" "tp_i t = tp_i t'" for n n' t t'
    using inv wait [OF that(1)] wait [OF that(2)] that(3) unfolding rt_inv_def by blast
  ultimately show ?thesis using inv s' ok' armed unfolding rt_inv_def by metis
qed

lemma row_of_same: "ca_id c = ca_id c' \<Longrightarrow> row_of me c = row_of me c'"
  by (simp add: row_of_def)

text \<open>A pending ping keeps its row full.\<close>

lemma pending_ok: "rt_inv s \<Longrightarrow> m_ping_wait s n = Some t \<Longrightarrow> ping_ok s n t"
  by (simp add: rt_inv_def)

lemma pending_row:
  assumes "rt_inv s" "m_ping_wait s n = Some t"
  obtains row where "ord_find (m_table s) (tp_i t) = Some (tp_addr_old t # row)" "Suc (length row) = max_entry"
  using pending_ok [OF assms] by (auto simp: ping_ok_def)

lemma rows_ids:
  assumes inv: "rt_inv s" and x: "hbit (bn_val (m_id s) XOR bn_val x) = i"
  shows "x \<in> m_nodes s \<longleftrightarrow> (\<exists>row. ord_find (m_table s) i = Some row \<and> x \<in> ca_id ` set row)"
  using inv table_ids_row [of "m_table s" "m_id s" x] x by (simp add: rt_inv_def)

lemma other_rows_ids:
  assumes inv: "rt_inv s" and row: "ord_find (m_table s) i = Some row"
  shows "m_nodes s = {x \<in> m_nodes s. hbit (bn_val (m_id s) XOR bn_val x) \<noteq> i} \<union> ca_id ` set row"
proof -
  have "row_ok (m_id s) i row" using inv row by (simp add: rt_inv_def)
  then have "\<forall>x \<in> ca_id ` set row. hbit (bn_val (m_id s) XOR bn_val x) = i" by (auto simp: row_ok_def row_of_def)
  then show ?thesis using rows_ids [OF inv] row by fastforce
qed

lemma no_row_ids:
  assumes inv: "rt_inv s" and row: "ord_find (m_table s) i = None"
  shows "m_nodes s = {x \<in> m_nodes s. hbit (bn_val (m_id s) XOR bn_val x) \<noteq> i}"
  using rows_ids [OF inv] row by fastforce

lemma row_bound:
  assumes "length me = 5" "length i = 5"
  shows "hbit (bn_val me XOR bn_val i) < 160"
proof (cases "bn_val me XOR bn_val i = 0")
  case False
  then obtain h where h: "hbit (bn_val me XOR bn_val i) = int h" "2 ^ h \<le> bn_val me XOR bn_val i" using hbit_pos by blast
  have "bn_val me XOR bn_val i < 2 ^ 160" using bn_val_less [of "bn_xor me i"] assms bn_val_bitops(1) [of i me] by simp
  then have "(2 :: nat) ^ h < 2 ^ 160" using h(2) by linarith
  then have "h < 160" by (metis power_less_imp_less_exp one_less_numeral_iff semiring_norm(76))
  then show ?thesis using h(1) by simp
qed simp

lemma row_index:
  assumes inv: "rt_inv s" and i: "length i = 5" "i \<noteq> m_id s"
  obtains k where "id2i (m_id s) i = Some k" "hbit (bn_val (m_id s) XOR bn_val i) = k" "0 \<le> k" "k < 160"
proof
  have me: "length (m_id s) = 5" using inv by (simp add: rt_inv_def)
  show "id2i (m_id s) i = Some (hbit (bn_val (m_id s) XOR bn_val i))" by (rule id2i_spec [OF me i(1)])
  show "hbit (bn_val (m_id s) XOR bn_val i) < 160" by (rule row_bound [OF me i(1)])
  have "bn_val (m_id s) \<noteq> bn_val i" using i me bn_val_inject [of "m_id s" i] by auto
  then have "0 < bn_val (m_id s) XOR bn_val i" by (metis gr0I xor_eq_0_nat)
  then show "0 \<le> hbit (bn_val (m_id s) XOR bn_val i)" using hbit_pos by (metis of_nat_0_le_iff)
qed simp

subsection \<open>Adding a node\<close>

lemma rt_inv_start_ping:
  assumes inv: "rt_inv s" and row: "ord_find (m_table s) i = Some (old # row)" "max_entry \<le> length (old # row)"
    and i: "i \<notin> m_ping_send s" "row_of (m_id s) addr = i"
    and addr: "length (ca_id addr) = 5" "ca_id addr \<notin> m_nodes s" and ping: "start_ping i old addr s = Some s'"
  shows "rt_inv s'"
proof -
  obtain nonce rs where n: "fresh_nonce (\<lambda>r. m_ping_wait s r \<noteq> None) (rt_rnds s) = Some (nonce, rs)"
    and s': "s' = s\<lparr>rt_rnds := rs, armed := insert nonce (armed s),
      m_ping_wait := (m_ping_wait s)(nonce \<mapsto> \<lparr>tp_addr_old = old, tp_addr_new = addr, tp_nonce = nonce, tp_i = i\<rparr>),
      m_ping_send := insert i (m_ping_send s), pings := pings s @ [(old, nonce)]\<rparr>"
    using ping by (auto simp: start_ping_def Let_def split: Option.bind_splits)
  have "row_ok (m_id s) i (old # row)" using inv row(1) by (simp add: rt_inv_def)
  then have full: "Suc (length row) = max_entry" using row(2) by (simp add: row_ok_def)
  have other: "tp_i t \<noteq> i" if "m_ping_wait s n = Some t" for n t
    using pending_ok [OF inv that] i(1) by (auto simp: ping_ok_def)
  have "ping_ok s' n t" if "m_ping_wait s' n = Some t" for n t
    using that pending_ok [OF inv, of n t] row full i addr by (auto simp: s' ping_ok_def split: if_splits)
  moreover have "n = n'" if "m_ping_wait s' n = Some t" "m_ping_wait s' n' = Some t'" "tp_i t = tp_i t'" for n n' t t'
  proof (cases "n = nonce \<or> n' = nonce")
    case True
    then show ?thesis using that other [of n t] other [of n' t'] by (auto simp: s' split: if_splits)
  next
    case False
    then have "m_ping_wait s n = Some t" "m_ping_wait s n' = Some t'" using that by (simp_all add: s')
    then show ?thesis using inv that(3) unfolding rt_inv_def by metis
  qed
  moreover have "armed s' = dom (m_ping_wait s')" using inv by (simp add: s' rt_inv_def)
  ultimately have "(\<forall>n t. m_ping_wait s' n = Some t \<longrightarrow> ping_ok s' n t) \<and>
     (\<forall>n n' t t'. m_ping_wait s' n = Some t \<longrightarrow> m_ping_wait s' n' = Some t' \<longrightarrow> tp_i t = tp_i t' \<longrightarrow> n = n') \<and>
     armed s' = dom (m_ping_wait s')" by blast
  moreover have "m_id s' = m_id s" "m_table s' = m_table s" "m_nodes s' = m_nodes s" by (simp_all add: s')
  ultimately show ?thesis using inv unfolding rt_inv_def by metis
qed

lemma rt_inv_append:
  assumes inv: "rt_inv s" and i: "0 \<le> i" "i < 160" "row_of (m_id s) addr = i"
    and addr: "length (ca_id addr) = 5" "ca_id addr \<notin> m_nodes s"
    and row: "row = (case ord_find (m_table s) i of None \<Rightarrow> [] | Some row \<Rightarrow> row)" "length row < max_entry"
  shows "rt_inv (s\<lparr>m_table := ord_ins i (row @ [addr]) (m_table s), m_nodes := insert (ca_id addr) (m_nodes s)\<rparr>)"
proof (rule rt_inv_change [OF inv, of _ i])
  have wf: "ord_wf (m_table s)" using inv by (simp add: rt_inv_def)
  let ?s = "s\<lparr>m_table := ord_ins i (row @ [addr]) (m_table s), m_nodes := insert (ca_id addr) (m_nodes s)\<rparr>"
  show "ord_wf (m_table ?s)" using wf by (simp add: ord_wf_ins)
  show "ord_find (m_table ?s) j = ord_find (m_table s) j" if "j \<noteq> i" for j using that by (simp add: ord_find_ins)
  have nodes: "m_nodes s = {x \<in> m_nodes s. hbit (bn_val (m_id s) XOR bn_val x) \<noteq> i} \<union> ca_id ` set row"
    using other_rows_ids [OF inv, of i] no_row_ids [OF inv, of i] row(1) by (cases "ord_find (m_table s) i") auto
  show "row_ok (m_id s) i row'" if "ord_find (m_table ?s) i = Some row'" for row'
  proof -
    have "row = [] \<or> row_ok (m_id s) i row" using inv row(1) by (auto simp: rt_inv_def split: option.splits)
    moreover have "ca_id addr \<notin> ca_id ` set row" using nodes addr(2) by auto
    ultimately show ?thesis using that row(2) addr(1) i by (auto simp: ord_find_ins row_ok_def)
  qed
  show "m_nodes ?s = {x \<in> m_nodes s. hbit (bn_val (m_id s) XOR bn_val x) \<noteq> i} \<union>
      (case ord_find (m_table ?s) i of None \<Rightarrow> {} | Some row \<Rightarrow> ca_id ` set row)"
    using nodes by (auto simp: ord_find_ins)
  show "m_ping_wait s n = Some t \<and> tp_i t \<noteq> i \<and> tp_i t \<in> m_ping_send ?s" if "m_ping_wait ?s n = Some t" for n t
    using that pending_ok [OF inv, of n t] row by (auto simp: ping_ok_def)
qed (use inv in \<open>simp_all add: rt_inv_def\<close>)

lemma rt_inv_add:
  assumes inv: "rt_inv s" and addr: "length (ca_id addr) = 5" and add: "rt_add addr s = Some s'"
  shows "rt_inv s'"
proof (cases "ca_id addr = m_id s \<or> ca_id addr \<in> m_nodes s")
  case True
  then show ?thesis using add inv by (auto simp: rt_add_def split: Option.bind_splits if_splits)
next
  case False
  then obtain i where i: "id2i (m_id s) (ca_id addr) = Some i" "row_of (m_id s) addr = i" "0 \<le> i" "i < 160"
    using row_index [OF inv addr] by (auto simp: row_of_def)
  note app = rt_inv_append [OF inv i(3,4,2) addr]
  show ?thesis
  proof (cases "ord_find (m_table s) i")
    case None
    then show ?thesis using add False i app [of "[]"] by (simp add: rt_add_def max_entry_def)
  next
    case (Some row)
    then have new: "\<not> (\<exists>c \<in> set row. ca_id c = ca_id addr)" using rows_ids [OF inv, of "ca_id addr" i] False i(2) by (auto simp: row_of_def image_iff)
    have ne: "row \<noteq> []" using inv Some by (auto simp: rt_inv_def row_ok_def)
    show ?thesis
    proof (cases "length row < max_entry \<or> i \<in> m_ping_send s")
      case True
      then show ?thesis using add False i Some new app [of row] inv by (auto simp: rt_add_def split: if_splits)
    next
      case full: False
      obtain old row' where row: "row = old # row'" using ne by (cases row) auto
      then show ?thesis
        using add False i Some new full addr rt_inv_start_ping [OF inv, of i old row' addr s'] by (auto simp: rt_add_def)
    qed
  qed
qed

subsection \<open>Answered and unanswered pings, removal\<close>

text \<open>The front of a pending row makes room for \<open>c\<close>, the pinged node itself or the one that waits.\<close>

lemma rt_inv_rotate:
  assumes inv: "rt_inv s" and t: "m_ping_wait s n = Some t" and c: "c = tp_addr_old t \<or> c = tp_addr_new t"
    and s': "m_id s' = m_id s" "m_table s' = ord_ins (tp_i t) (row @ [c]) (m_table s)"
      "m_nodes s' = insert (ca_id c) (m_nodes s - {ca_id (tp_addr_old t)})" "m_ping_wait s' = (m_ping_wait s)(n := None)"
      "m_ping_send s' = m_ping_send s - {tp_i t}" "armed s' = armed s - {n}"
    and row: "ord_find (m_table s) (tp_i t) = Some (tp_addr_old t # row)"
  shows "rt_inv s'"
proof (rule rt_inv_change [OF inv, of _ "tp_i t"])
  let ?h = "\<lambda>x. hbit (bn_val (m_id s) XOR bn_val x)"
  have wf: "ord_wf (m_table s)" using inv by (simp add: rt_inv_def)
  have ok: "row_ok (m_id s) (tp_i t) (tp_addr_old t # row)" using inv row by (simp add: rt_inv_def)
  have p: "ping_ok s n t" by (rule pending_ok [OF inv t])
  show "ord_wf (m_table s')" using wf by (simp add: s' ord_wf_ins)
  show "ord_find (m_table s') j = ord_find (m_table s) j" if "j \<noteq> tp_i t" for j using that by (simp add: s' ord_find_ins)
  have nodes: "m_nodes s = {x \<in> m_nodes s. ?h x \<noteq> tp_i t} \<union> insert (ca_id (tp_addr_old t)) (ca_id ` set row)"
    using other_rows_ids [OF inv row] by simp
  have new: "ca_id c \<notin> ca_id ` set row" using c ok p nodes by (auto simp: row_ok_def ping_ok_def)
  show "row_ok (m_id s) (tp_i t) row'" if "ord_find (m_table s') (tp_i t) = Some row'" for row'
    using that ok new c p by (auto simp: s' ord_find_ins row_ok_def ping_ok_def)
  have "ca_id (tp_addr_old t) \<notin> ca_id ` set row" "?h (ca_id (tp_addr_old t)) = tp_i t"
    using ok by (auto simp: row_ok_def row_of_def)
  then show "m_nodes s' = {x \<in> m_nodes s. ?h x \<noteq> tp_i t} \<union>
      (case ord_find (m_table s') (tp_i t) of None \<Rightarrow> {} | Some row \<Rightarrow> ca_id ` set row)"
    unfolding s' ord_find_ins using nodes by auto
  show "m_ping_wait s n' = Some t' \<and> tp_i t' \<noteq> tp_i t \<and> tp_i t' \<in> m_ping_send s'" if w: "m_ping_wait s' n' = Some t'" for n' t'
  proof -
    have w': "n' \<noteq> n" "m_ping_wait s n' = Some t'" using w by (auto simp: s' split: if_splits)
    then have "tp_i t' \<noteq> tp_i t" using inv t unfolding rt_inv_def by metis
    then show ?thesis using w' pending_ok [OF inv w'(2)] by (simp add: s' ping_ok_def)
  qed
  show "armed s' = dom (m_ping_wait s')" using inv by (simp add: s' rt_inv_def)
qed (simp add: s')

lemma rt_inv_timer:
  assumes inv: "rt_inv s" and fire: "timer_ping_fire nonce s = Some s'"
  shows "rt_inv s'"
proof -
  obtain t where t: "m_ping_wait s nonce = Some t" using fire by (auto simp: timer_ping_fire_def split: Option.bind_splits)
  obtain row where row: "ord_find (m_table s) (tp_i t) = Some (tp_addr_old t # row)" using pending_row [OF inv t] by blast
  have "tp_nonce t = nonce" using pending_ok [OF inv t] by (simp add: ping_ok_def)
  then show ?thesis
    using fire t row by (intro rt_inv_rotate [OF inv t disjI2 [OF refl] _ _ _ _ _ _ row])
      (auto simp: timer_ping_fire_def rotate_row_def)
qed

lemma ping_answered_inv:
  assumes inv: "rt_inv s" and t: "m_ping_wait s nonce = Some t" and s': "ping_answered nonce t s = Some s'"
  shows "rt_inv s'"
proof -
  obtain row where row: "ord_find (m_table s) (tp_i t) = Some (tp_addr_old t # row)" using pending_row [OF inv t] by blast
  have "ca_id (tp_addr_old t) \<in> m_nodes s" using other_rows_ids [OF inv row] by auto
  then show ?thesis
    using s' row by (intro rt_inv_rotate [OF inv t disjI1 [OF refl] _ _ _ _ _ _ row])
      (auto simp: ping_answered_def rotate_row_def)
qed

lemma rt_inv_reply: "rt_inv s \<Longrightarrow> rt_recv_ping_reply from nonce s = Some s' \<Longrightarrow> rt_inv s'"
  using ping_answered_inv by (auto simp: rt_recv_ping_reply_def split: option.splits if_splits Option.bind_splits)

lemma erase_id_ids: "distinct (map ca_id row) \<Longrightarrow> ca_id ` set (erase_id i row) = ca_id ` set row - {i}"
  by (induction row) (auto simp: image_iff)

lemma erase_id_set: "set (erase_id i row) \<subseteq> set row"
  by (induction row) auto

lemma erase_id_distinct: "distinct (map ca_id row) \<Longrightarrow> distinct (map ca_id (erase_id i row))"
  by (induction row) (use erase_id_set in fastforce)+

lemma erase_id_length: "length (erase_id i row) \<le> length row"
  by (induction row) auto

lemma rt_inv_remove:
  assumes inv: "rt_inv s" and free: "id2i (m_id s) i = Some k" "k \<notin> m_ping_send s" and i: "length i = 5"
    and s': "rt_remove i s = Some s'"
  shows "rt_inv s'"
proof (cases "i \<in> m_nodes s")
  case True
  have wf: "ord_wf (m_table s)" "length (m_id s) = 5" using inv by (simp_all add: rt_inv_def)
  have k: "hbit (bn_val (m_id s) XOR bn_val i) = k" using id2i_spec [OF wf(2) i] free(1) by simp
  obtain row where row: "ord_find (m_table s) k = Some row" "i \<in> ca_id ` set row" using rows_ids [OF inv k] True by auto
  have ok: "row_ok (m_id s) k row" using inv row(1) by (simp add: rt_inv_def)
  let ?row = "erase_id i row"
  have s'_eq: "s' = s\<lparr>m_table := (if ?row = [] then ord_del k (m_table s) else ord_ins k ?row (m_table s)), m_nodes := m_nodes s - {i}\<rparr>"
    using s' True free(1) row(1) by (auto simp: rt_remove_def Let_def)
  have find: "ord_find (m_table s') j = (if j = k then if ?row = [] then None else Some ?row else ord_find (m_table s) j)" for j
    using wf(1) by (simp add: s'_eq ord_find_ins ord_find_del)
  have ids: "ca_id ` set ?row = ca_id ` set row - {i}" using ok erase_id_ids by (simp add: row_ok_def)
  show ?thesis
  proof (rule rt_inv_change [OF inv, of _ k])
    show "ord_wf (m_table s')" using wf(1) by (simp add: s'_eq ord_wf_ins ord_wf_del)
    show "row_ok (m_id s) k row'" if "ord_find (m_table s') k = Some row'" for row'
      using that ok erase_id_set [of i row] erase_id_distinct [of row i] erase_id_length [of i row]
      by (auto simp: find row_ok_def split: if_splits)
    have "m_nodes s' = m_nodes s - {i}" by (simp add: s'_eq)
    also have "\<dots> = {x \<in> m_nodes s. hbit (bn_val (m_id s) XOR bn_val x) \<noteq> k} \<union> ca_id ` set ?row"
      using other_rows_ids [OF inv row(1)] ids k by auto
    finally show "m_nodes s' = {x \<in> m_nodes s. hbit (bn_val (m_id s) XOR bn_val x) \<noteq> k} \<union>
        (case ord_find (m_table s') k of None \<Rightarrow> {} | Some row \<Rightarrow> ca_id ` set row)"
      by (auto simp: find)
    show "m_ping_wait s n = Some t \<and> tp_i t \<noteq> k \<and> tp_i t \<in> m_ping_send s'" if "m_ping_wait s' n = Some t" for n t
      using that pending_ok [OF inv, of n t] free(2) by (auto simp: s'_eq ping_ok_def)
    show "ord_find (m_table s') j = ord_find (m_table s) j" if "j \<noteq> k" for j using that by (simp add: find)
  qed (use inv in \<open>auto simp: s'_eq rt_inv_def\<close>)
qed (use inv s' in \<open>simp add: rt_remove_def\<close>)

subsection \<open>Reachable tables\<close>

inductive rt_step :: "rttable \<Rightarrow> rttable \<Rightarrow> bool" where
  add: "length (ca_id addr) = 5 \<Longrightarrow> rt_add addr s = Some s' \<Longrightarrow> rt_step s s'"
| reply: "rt_recv_ping_reply from nonce s = Some s' \<Longrightarrow> rt_step s s'"
| ping_timer: "timer_ping_fire nonce s = Some s' \<Longrightarrow> rt_step s s'"
| remove: "length i = 5 \<Longrightarrow> id2i (m_id s) i = Some k \<Longrightarrow> k \<notin> m_ping_send s \<Longrightarrow> rt_remove i s = Some s' \<Longrightarrow> rt_step s s'"

inductive_cases rt_stepE: "rt_step s s'"

inductive rt_reach :: "uint160 \<Rightarrow> rttable \<Rightarrow> bool" where
  start: "length me = 5 \<Longrightarrow> rt_reach me (rttable_init me rs)"
| run: "rt_reach me s \<Longrightarrow> rt_step s s' \<Longrightarrow> rt_reach me s'"

lemma rt_step_inv: "rt_step s s' \<Longrightarrow> rt_inv s \<Longrightarrow> rt_inv s'"
  by (erule rt_stepE) (blast intro: rt_inv_add rt_inv_reply rt_inv_timer rt_inv_remove)+

lemma rotate_row_id: "rotate_row i c s = Some s' \<Longrightarrow> m_id s' = m_id s"
  by (auto simp: rotate_row_def split: option.splits list.splits)

lemma rt_step_id: "rt_step s s' \<Longrightarrow> m_id s' = m_id s"
  by (erule rt_stepE)
    (auto simp: rt_add_def rt_recv_ping_reply_def ping_answered_def timer_ping_fire_def rt_remove_def start_ping_def Let_def
      dest!: rotate_row_id split: option.splits if_splits Option.bind_splits list.splits)

lemma rt_inv_init: "length me = 5 \<Longrightarrow> rt_inv (rttable_init me rs)"
  by (simp add: rt_inv_def rttable_init_def ord_find_def ord_wf_def table_ids_def)

lemma rt_reach_inv: "rt_reach me s \<Longrightarrow> rt_inv s \<and> m_id s = me"
proof (induction rule: rt_reach.induct)
  case (start me rs)
  then show ?case by (simp add: rt_inv_init) (simp add: rttable_init_def)
qed (auto intro: rt_step_inv simp: rt_step_id)

end
