(* ===== verification/Rttable_Props.thy ===== *)
theory Rttable_Props
  imports Rttable_Inv
begin

section \<open>Properties of the routing table\<close>

text \<open>
  What the routing table promises its clients, the DHT and the directory of tunnels: its
  shape in every reachable state, that a lookup returns the closest nodes, that merging two
  answers keeps the closest nodes of both, and how a full row chooses between an old node
  and a new one.
\<close>

subsection \<open>Sample tables\<close>

definition node_id :: "nat \<Rightarrow> uint160" where
  "node_id k = [0x80000000, 0, 0, 0, of_nat k]"

definition node_at :: "nat \<Rightarrow> cageaddr" where
  "node_at k = \<lparr>ca_id = node_id k, ca_domain = domain_inet, ca_saddr = In \<lparr>sin_port = of_nat k, sin_addr = 7\<rparr>\<rparr>"

fun rt_adds :: "cageaddr list \<Rightarrow> rttable \<Rightarrow> rttable option" where
  "rt_adds [] s = Some s"
| "rt_adds (c # cs) s = do { s \<leftarrow> rt_add c s; rt_adds cs s }"

lemma rt_reach_adds: "rt_reach me s \<Longrightarrow> \<forall>c \<in> set cs. length (ca_id c) = 5 \<Longrightarrow> rt_adds cs s = Some s' \<Longrightarrow> rt_reach me s'"
proof (induction cs arbitrary: s)
  case (Cons c cs)
  then show ?case by (auto split: Option.bind_splits) (metis rt_reach.run rt_step.add)
qed simp

lemma rt_adds_snoc: "rt_adds (cs @ [c]) s = do { s \<leftarrow> rt_adds cs s; rt_add c s }"
  by (induction cs arbitrary: s) (auto split: Option.bind_splits)

definition me0 :: uint160 where "me0 = [0, 0, 0, 0, 0]"

lemma id2i_me0: "id2i me0 (node_id k) = Some 159"
proof -
  have "length (node_id k) = 5" "length me0 = 5" by (simp_all add: me0_def node_id_def)
  moreover have "bn_val me0 XOR bn_val (node_id k) = bn_val (node_id k)" by (simp add: me0_def)
  moreover have "2 ^ 159 \<le> bn_val (node_id k)" "bn_val (node_id k) < 2 ^ Suc 159"
    using bn_val_less [of "node_id k"] by (simp_all add: node_id_def)
  ultimately show ?thesis using id2i_spec [of me0 "node_id k"] hbit_eq [of 159 "bn_val (node_id k)"] by simp
qed

lemma node_id_inject:
  assumes "j < 100" "k < 100"
  shows "node_id j = node_id k \<longleftrightarrow> j = k"
proof -
  have "unat (of_nat j :: u32) = j" "unat (of_nat k :: u32) = k" using assms by simp_all
  then show ?thesis unfolding node_id_def by (metis list.inject)
qed

definition filled :: "u32 list \<Rightarrow> nat \<Rightarrow> rttable" where
  "filled rs k = (rttable_init me0 rs)\<lparr>m_table := [(159, map node_at [0..<k])], m_nodes := node_id ` {0..<k}\<rparr>"

lemma filled_add:
  assumes k: "0 < k" "k < 20"
  shows "rt_add (node_at k) (filled rs k) = Some (filled rs (Suc k))"
proof -
  have new: "node_id k \<notin> node_id ` {0..<k}" "\<not> (\<exists>c \<in> set (map node_at [0..<k]). ca_id c = node_id k)"
    using k node_id_inject by (force simp: node_at_def)+
  have "node_id k \<noteq> me0" by (simp add: node_id_def me0_def)
  then show ?thesis
    using new k id2i_me0 [of k]
    by (simp add: rt_add_def filled_def rttable_init_def node_at_def ord_find_def max_entry_def atLeast0_lessThan_Suc)
qed

lemma filled_adds:
  assumes "0 < k" "k \<le> 20"
  shows "rt_adds (map node_at [0..<k]) (rttable_init me0 rs) = Some (filled rs k)"
  using assms
proof (induction k)
  case (Suc k)
  show ?case
  proof (cases "k = 0")
    case True
    have "node_id 0 \<noteq> me0" by (simp add: node_id_def me0_def)
    then show ?thesis using id2i_me0 [of 0] True by (simp add: rt_add_def filled_def rttable_init_def node_at_def ord_find_def)
  next
    case False
    then show ?thesis using Suc filled_add [of k rs] by (simp add: rt_adds_snoc)
  qed
qed simp

lemma filled_reach: "rt_reach me0 (filled rs 20)"
  by (rule rt_reach_adds [OF rt_reach.start _ filled_adds]) (auto simp: me0_def node_at_def node_id_def)

text \<open>A node more for the full row: it waits for the ping of the first one.\<close>

definition pinging :: "rttable" where
  "pinging = (filled [] 20)\<lparr>m_ping_wait := [9 \<mapsto> \<lparr>tp_addr_old = node_at 0, tp_addr_new = node_at 20, tp_nonce = 9, tp_i = 159\<rparr>],
     m_ping_send := {159}, armed := {9}, pings := [(node_at 0, 9)]\<rparr>"

lemma node_20_new: "node_id 20 \<notin> node_id ` {0..<20}" "node_id 20 \<noteq> me0"
  using node_id_inject by (force, simp add: node_id_def me0_def)

lemma pinging_add: "rt_add (node_at 20) (filled [9] 20) = Some pinging"
proof -
  have "\<not> (\<exists>c \<in> set (map node_at [0..<20]). ca_id c = node_id 20)" using node_20_new(1) by (auto simp: node_at_def image_iff simp del: upt_rec_numeral)
  moreover have "map node_at [0..<20] = node_at 0 # map node_at [1..<20]" by (simp add: upt_conv_Cons)
  ultimately show ?thesis
    using node_20_new id2i_me0 [of 20]
    by (simp add: rt_add_def pinging_def filled_def rttable_init_def node_at_def [of 20] ord_find_def max_entry_def start_ping_def
        del: upt_rec_numeral)
qed

lemma pinging_reach: "rt_reach me0 pinging"
  by (rule rt_reach.run [OF filled_reach [of "[9]"] rt_step.add [OF _ pinging_add]]) (simp add: node_at_def node_id_def)

subsection \<open>The shape of a table\<close>

lemma nodes_concat: "ord_wf m \<Longrightarrow> table_ids m = ca_id ` set (concat (map snd m))"
  using find_set [of m] by (force simp: table_ids_def)

lemma reach_row:
  assumes "rt_reach me s" "ord_find (m_table s) i = Some row"
  shows "row_ok me i row"
  using rt_reach_inv [OF assms(1)] assms(2) by (auto simp: rt_inv_def)

lemma own_id_absent:
  assumes "rt_reach me s"
  shows "me \<notin> m_nodes s"
proof
  assume "me \<in> m_nodes s"
  then obtain i row c where "ord_find (m_table s) i = Some row" "c \<in> set row" "ca_id c = me"
    using rt_reach_inv [OF assms] by (auto simp: rt_inv_def table_ids_def)
  then show False using reach_row [OF assms, of i row] by (auto simp: row_ok_def row_of_def)
qed



text \<open>Property C12.  In every reachable state a lookup returns what sorting the whole table,
  the own node included, by XOR distance from the target and keeping the first \<open>num\<close>
  would return, although it reads only the rows that hold the closest nodes.\<close>

theorem lookup_returns_closest:
  assumes "rt_reach me s" "length i = 5" "0 \<le> num"
  shows "rt_lookup i num s = Some (take (nat num) (sort_key (xor_dist i) (self_addr s # concat (map snd (m_table s)))))"
  using lookup_closest [OF rt_inv_rows _ assms(3)] rt_reach_inv [OF assms(1)] assms(2) by (simp add: all_nodes_def)

theorem lookup_returns_closest_witness:
  "rt_lookup (node_id 3) 2 pinging =
     Some (take 2 (sort_key (xor_dist (node_id 3)) (self_addr pinging # map node_at [0..<20])))"
proof -
  have "length (node_id 3) = 5" by (simp add: node_id_def)
  from lookup_returns_closest [OF pinging_reach this, of 2] show ?thesis
    by (simp add: pinging_def filled_def del: upt_rec_numeral)
qed

subsection \<open>A full row\<close>

text \<open>A new node for a full row leaves the table alone and pings the row's first
  node.  If the ping times out, the first node is dropped and the new one appended; if the
  first node answers, it moves to the end of the row and the new node is dropped.\<close>

lemma full_row_keeps_answering_node:
  assumes reach: "rt_reach me s" and row: "ord_find (m_table s) i = Some (old # row)" "length (old # row) = max_entry"
    and i: "id2i me (ca_id addr) = Some i" "i \<notin> m_ping_send s" "ca_id addr \<notin> m_nodes s"
    and rnd: "rt_rnds s = nonce # rs" "m_ping_wait s nonce = None"
    and old: "ca_domain old = domain_inet" "ca_saddr old = In a"
  shows "\<exists>s1 s2 s3. rt_add addr s = Some s1 \<and> m_table s1 = m_table s \<and> pings s1 = pings s @ [(old, nonce)] \<and>
    timer_ping_fire nonce s1 = Some s2 \<and> ord_find (m_table s2) i = Some (row @ [addr]) \<and>
      m_nodes s2 = insert (ca_id addr) (m_nodes s - {ca_id old}) \<and> timed_out s2 = timed_out s @ [ca_id old] \<and>
    rt_recv_ping_reply old nonce s1 = Some s3 \<and> ord_find (m_table s3) i = Some (row @ [old]) \<and> m_nodes s3 = m_nodes s"
proof -
  have inv: "rt_inv s" "m_id s = me" using rt_reach_inv [OF reach] by auto
  have ok: "0 \<le> i" using reach_row [OF reach row(1)] by (simp add: row_ok_def)
  have new: "ca_id addr \<notin> ca_id ` set (old # row)" using other_rows_ids [OF inv(1) row(1)] i(3) by auto
  have self: "ca_id addr \<noteq> me"
  proof
    assume "ca_id addr = me"
    then have "hbit (bn_val me XOR bn_val me) = i" using i(1) id2i_spec [of me me] inv by (simp add: rt_inv_def)
    then show False using ok by simp
  qed
  let ?t = "\<lparr>tp_addr_old = old, tp_addr_new = addr, tp_nonce = nonce, tp_i = i\<rparr>"
  let ?s1 = "s\<lparr>rt_rnds := rs, armed := insert nonce (armed s), m_ping_wait := (m_ping_wait s)(nonce \<mapsto> ?t),
     m_ping_send := insert i (m_ping_send s), pings := pings s @ [(old, nonce)]\<rparr>"
  have add: "rt_add addr s = Some ?s1"
  proof -
    have "\<not> (\<exists>c \<in> set (old # row). ca_id c = ca_id addr)" using new by (auto simp: image_iff)
    then show ?thesis using self inv(2) ok i row rnd by (simp add: rt_add_def start_ping_def max_entry_def)
  qed
  have rotate: "rotate_row i c ?s1 = Some (?s1\<lparr>m_table := ord_ins i (row @ [c]) (m_table s)\<rparr>)" for c
    using row(1) by (simp add: rotate_row_def)
  show ?thesis unfolding add
    using rotate old by (simp add: timer_ping_fire_def rt_recv_ping_reply_def ping_answered_def ord_find_ins)
qed

lemma full_row_keeps_answering_node_witness:
  "\<exists>s1 s2 s3. rt_add (node_at 20) (filled [9] 20) = Some s1 \<and> m_table s1 = m_table (filled [9] 20) \<and>
    pings s1 = pings (filled [9] 20) @ [(node_at 0, 9)] \<and>
    timer_ping_fire 9 s1 = Some s2 \<and> ord_find (m_table s2) 159 = Some (map node_at [1..<20] @ [node_at 20]) \<and>
      m_nodes s2 = insert (ca_id (node_at 20)) (m_nodes (filled [9] 20) - {ca_id (node_at 0)}) \<and>
      timed_out s2 = timed_out (filled [9] 20) @ [ca_id (node_at 0)] \<and>
    rt_recv_ping_reply (node_at 0) 9 s1 = Some s3 \<and> ord_find (m_table s3) 159 = Some (map node_at [1..<20] @ [node_at 0]) \<and>
      m_nodes s3 = m_nodes (filled [9] 20)"
proof (rule full_row_keeps_answering_node [OF filled_reach [of "[9]"]])
  show "ord_find (m_table (filled [9] 20)) 159 = Some (node_at 0 # map node_at [1..<20])"
    by (simp add: filled_def ord_find_def upt_conv_Cons)
  show "id2i me0 (ca_id (node_at 20)) = Some 159" using id2i_me0 by (simp add: node_at_def)
  show "ca_id (node_at 20) \<notin> m_nodes (filled [9] 20)" using node_20_new by (simp add: node_at_def filled_def)
  show "rt_rnds (filled [9] 20) = 9 # []" by (simp add: filled_def rttable_init_def)
  show "ca_saddr (node_at 0) = In \<lparr>sin_port = of_nat 0, sin_addr = 7\<rparr>" by (simp add: node_at_def)
qed (simp_all add: filled_def rttable_init_def max_entry_def node_at_def)

text \<open>A node that is removed while its own ping is pending takes its successor
  with it: when the ping times out, the successor is dropped from the row instead, but its
  identifier stays in \<open>m_nodes\<close>, so that adding it again has no effect.\<close>

lemma remove_during_ping_loses_node:
  assumes reach: "rt_reach me s" and t: "m_ping_wait s n = Some t"
    and row: "ord_find (m_table s) (tp_i t) = Some (tp_addr_old t # next # row)"
  shows "\<exists>s1 s2. rt_remove (ca_id (tp_addr_old t)) s = Some s1 \<and> timer_ping_fire n s1 = Some s2 \<and>
    ord_find (m_table s2) (tp_i t) = Some (row @ [tp_addr_new t]) \<and>
    (\<forall>j row'. ord_find (m_table s2) j = Some row' \<longrightarrow> next \<notin> set row') \<and> rt_add next s2 = Some s2"
proof -
  have inv: "rt_inv s" "m_id s = me" "length me = 5" using rt_reach_inv [OF reach] by (auto simp: rt_inv_def)
  have wf: "ord_wf (m_table s)" using inv by (simp add: rt_inv_def)
  have ok: "row_ok me (tp_i t) (tp_addr_old t # next # row)" by (rule reach_row [OF reach row])
  have p: "ping_ok s n t" by (rule pending_ok [OF inv(1) t])
  have ids: "ca_id (tp_addr_old t) \<in> m_nodes s" "ca_id next \<in> m_nodes s" using other_rows_ids [OF inv(1) row] by auto
  have k: "id2i me (ca_id (tp_addr_old t)) = Some (tp_i t)" "id2i me (ca_id next) = Some (tp_i t)"
    using ok inv id2i_spec by (auto simp: row_ok_def row_of_def)
  let ?s1 = "s\<lparr>m_table := ord_ins (tp_i t) (next # row) (m_table s), m_nodes := m_nodes s - {ca_id (tp_addr_old t)}\<rparr>"
  have s1: "rt_remove (ca_id (tp_addr_old t)) s = Some ?s1" using ids k row inv by (simp add: rt_remove_def Let_def)
  obtain s2 where s2: "timer_ping_fire n ?s1 = Some s2"
    "m_table s2 = ord_ins (tp_i t) (row @ [tp_addr_new t]) (ord_ins (tp_i t) (next # row) (m_table s))"
    "m_nodes s2 = insert (ca_id (tp_addr_new t)) (m_nodes s - {ca_id (tp_addr_old t)})" "m_id s2 = me"
    using t inv by (simp add: timer_ping_fire_def rotate_row_def ord_find_ins)
  have other: "next \<notin> set row'" if "ord_find (m_table s2) j = Some row'" for j row'
  proof (cases "j = tp_i t")
    case True
    have "next \<noteq> tp_addr_new t" using ids(2) p by (auto simp: ping_ok_def)
    then show ?thesis using that True ok by (auto simp: s2 ord_find_ins row_ok_def)
  next
    case False
    then have "row_ok me j row'" using that reach_row [OF reach] by (simp add: s2 ord_find_ins)
    then show ?thesis using ok False by (auto simp: row_ok_def)
  qed
  have "ca_id next \<in> m_nodes s2" using ids ok by (auto simp: s2 row_ok_def)
  then have "rt_add next s2 = Some s2" using k(2) s2(4) by (simp add: rt_add_def)
  then show ?thesis using s1 s2 other by (auto simp: ord_find_ins)
qed

lemma upt_20: "[0..<20 :: nat] = 0 # 1 # [2..<20]"
  by (simp add: upt_conv_Cons numeral_2_eq_2 del: upt_rec_numeral)

lemma remove_during_ping_loses_node_witness:
  "\<exists>s1 s2. rt_remove (node_id 0) pinging = Some s1 \<and> timer_ping_fire 9 s1 = Some s2 \<and> rt_add (node_at 1) s2 = Some s2"
proof -
  let ?t = "\<lparr>tp_addr_old = node_at 0, tp_addr_new = node_at 20, tp_nonce = 9, tp_i = 159\<rparr>"
  have "m_ping_wait pinging 9 = Some ?t" by (simp add: pinging_def)
  moreover have "ord_find (m_table pinging) (tp_i ?t) = Some (tp_addr_old ?t # node_at 1 # map node_at [2..<20])"
    using upt_20 by (simp add: pinging_def filled_def ord_find_def del: upt_rec_numeral)
  ultimately show ?thesis using remove_during_ping_loses_node [OF pinging_reach] by (fastforce simp: node_at_def)
qed

text \<open>A ping reply from an IPv6 node is never accepted: the comparison of the addresses looks at no bytes.\<close>

lemma inet6_ping_reply_ignored:
  assumes "ca_domain from = domain_inet6" "rt_recv_ping_reply from nonce s = Some s'"
  shows "s' = s"
  using assms by (auto simp: rt_recv_ping_reply_def memcmp_differs_def domain_inet_def domain_inet6_def
      split: option.splits if_splits Option.bind_splits)

subsection \<open>Merging two answers\<close>

definition by_dist :: "uint160 \<Rightarrow> cageaddr list \<Rightarrow> bool" where
  "by_dist i v \<longleftrightarrow> sorted_wrt (<) (map (xor_dist i) v) \<and> (\<forall>c \<in> set v. length (ca_id c) = 5)"

definition dists :: "uint160 \<Rightarrow> cageaddr list \<Rightarrow> cageaddr list \<Rightarrow> nat list" where
  "dists i v1 v2 = sorted_list_of_set (xor_dist i ` (set v1 \<union> set v2))"

lemma sorted_list_of_set_least:
  "finite A \<Longrightarrow> \<forall>a \<in> A. (x :: nat) < a \<Longrightarrow> sorted_list_of_set (insert x A) = x # sorted_list_of_set A"
  by (subst sorted_list_of_set_insert) (auto intro!: insort_is_Cons intro: less_imp_le)

lemma xor_dist_less:
  "length i = 5 \<Longrightarrow> length (ca_id a) = 5 \<Longrightarrow> length (ca_id b) = 5 \<Longrightarrow>
    bn_less (bn_xor (ca_id a) i) (bn_xor (ca_id b) i) \<longleftrightarrow> xor_dist i a < xor_dist i b"
  by (simp add: xor_dist_def bn_less_iff bn_val_bitops(1) xor.commute)

lemma xor_dist_eq:
  assumes "length i = 5" "length (ca_id a) = 5" "length (ca_id b) = 5"
  shows "xor_dist i a = xor_dist i b \<longleftrightarrow> ca_id a = ca_id b"
proof
  assume "xor_dist i a = xor_dist i b"
  then have "bn_val (ca_id a) = bn_val (ca_id b)"
    using assms bn_val_bitops(1) [of "ca_id a" i] bn_val_bitops(1) [of "ca_id b" i]
    by (metis xor_dist_def xor.assoc xor.left_neutral xor_self_eq)
  then show "ca_id a = ca_id b" using assms bn_val_inject by metis
qed (simp add: xor_dist_def)

lemma dists_Cons: "\<forall>a \<in> set v1 \<union> set v2. xor_dist i c < xor_dist i a \<Longrightarrow> dists i (c # v1) v2 = xor_dist i c # dists i v1 v2"
  unfolding dists_def using sorted_list_of_set_least [of "xor_dist i ` (set v1 \<union> set v2)" "xor_dist i c"] by simp

lemma dists_commute: "dists i v1 v2 = dists i v2 v1"
  by (simp add: dists_def Un_commute)

lemma dists_same: "xor_dist i c1 = xor_dist i c2 \<Longrightarrow> dists i (c1 # v1) (c2 # v2) = dists i (c1 # v1) v2"
  by (simp add: dists_def insert_absorb2)

lemma by_dist_Cons: "by_dist i (c # v) \<longleftrightarrow> length (ca_id c) = 5 \<and> by_dist i v \<and> (\<forall>a \<in> set v. xor_dist i c < xor_dist i a)"
  by (auto simp: by_dist_def)

lemma less_ids:
  assumes i: "length i = 5" and v: "by_dist i (c # v)" "by_dist i v'" "\<forall>a \<in> set v'. xor_dist i c < xor_dist i a"
  shows "ca_id c \<notin> ca_id ` (set v \<union> set v')"
proof
  assume "ca_id c \<in> ca_id ` (set v \<union> set v')"
  then obtain a where a: "a \<in> set v \<union> set v'" "ca_id c = ca_id a" by blast
  then have "xor_dist i c < xor_dist i a" using v by (auto simp: by_dist_Cons)
  then show False using a(2) by (simp add: xor_dist_def)
qed

lemma by_dist_ids: "length i = 5 \<Longrightarrow> by_dist i (c # v) \<Longrightarrow> ca_id c \<notin> ca_id ` set v"
  using less_ids [of i c v "[]"] by (simp add: by_dist_def)

lemma merge_loop_spec:
  assumes "length i = 5" "by_dist i v1" "by_dist i v2" "already \<inter> ca_id ` (set v1 \<union> set v2) = {}"
  shows "map (xor_dist i) (merge_loop n i v1 v2 already out) = map (xor_dist i) out @ take n (dists i v1 v2) \<and>
    set (merge_loop n i v1 v2 already out) \<subseteq> set out \<union> set v1 \<union> set v2"
  using assms
proof (induction n i v1 v2 already out rule: merge_loop.induct)
  case (2 n i already out)
  then show ?case by (simp add: dists_def)
next
  case (3 n i c2 v2 already out)
  have "dists i [] (c2 # v2) = xor_dist i c2 # dists i [] v2"
    using 3(4) dists_Cons [of v2 "[]" i c2] dists_commute by (simp add: by_dist_Cons)
  then show ?case using 3 by_dist_ids [OF 3(2,4)] by (auto simp: push_new_def by_dist_Cons)
next
  case (4 n i c1 v1 already out)
  have "dists i (c1 # v1) [] = xor_dist i c1 # dists i v1 []" using 4(3) by (simp add: by_dist_Cons dists_Cons)
  then show ?case using 4 by_dist_ids [OF 4(2,3)] by (auto simp: push_new_def by_dist_Cons)
next
  case (5 n i c1 v1 c2 v2 already out)
  have new: "push_new c1 already out = (insert (ca_id c1) already, out @ [c1])"
    "push_new c2 already out = (insert (ca_id c2) already, out @ [c2])" using 5(7) by (auto simp: push_new_def)
  have d: "\<forall>a \<in> set v1. xor_dist i c1 < xor_dist i a" "\<forall>a \<in> set v2. xor_dist i c2 < xor_dist i a" "by_dist i v1" "by_dist i v2"
    "length (ca_id c1) = 5" "length (ca_id c2) = 5" using 5(5,6) by (auto simp: by_dist_Cons)
  note eq = xor_dist_eq [OF 5(4) d(5,6)] and less = xor_dist_less [OF 5(4) d(5,6)]
  consider (same) "ca_id c1 = ca_id c2" | (left) "ca_id c1 \<noteq> ca_id c2" "xor_dist i c1 < xor_dist i c2"
    | (right) "ca_id c1 \<noteq> ca_id c2" "xor_dist i c2 < xor_dist i c1" using eq by linarith
  then show ?case
  proof cases
    case same
    have "ca_id c1 \<notin> ca_id ` (set v1 \<union> set v2)" using less_ids [OF 5(4,5) d(4)] d(2) eq same by simp
    moreover have "dists i (c1 # v1) (c2 # v2) = xor_dist i c1 # dists i v1 v2" using dists_same [of i c1 c2 v1 v2] dists_Cons [of v1 v2 i c1] eq same d by auto
    ultimately show ?thesis using 5(1) [OF same new(1) [symmetric] refl] 5(4,7) d same new by auto
  next
    case left
    then have lt: "\<forall>a \<in> set (c2 # v2). xor_dist i c1 < xor_dist i a" using d(2) by auto
    have "ca_id c1 \<notin> ca_id ` (set v1 \<union> set (c2 # v2))" by (rule less_ids [OF 5(4,5,6) lt])
    moreover have "dists i (c1 # v1) (c2 # v2) = xor_dist i c1 # dists i v1 (c2 # v2)" using lt d(1) by (intro dists_Cons) auto
    ultimately show ?thesis using 5(2) [OF left(1) _ new(1) [symmetric] refl] 5(4,6,7) d left less new by auto
  next
    case right
    then have lt: "\<forall>a \<in> set (c1 # v1). xor_dist i c2 < xor_dist i a" using d(1) by auto
    have "ca_id c2 \<notin> ca_id ` (set v2 \<union> set (c1 # v1))" by (rule less_ids [OF 5(4,6,5) lt])
    moreover have "dists i (c1 # v1) (c2 # v2) = xor_dist i c2 # dists i (c1 # v1) v2"
      using lt d(2) by (subst (1 2) dists_commute) (intro dists_Cons, blast)
    ultimately show ?thesis using 5(3) [OF right(1) _ new(2) [symmetric] refl] 5(4,5,7) d right less new by auto
  qed
qed auto

text \<open>For two lists of nodes sorted by their distance from \<open>i\<close>, without
  repetitions, \<open>merge_nodes\<close> returns nodes of them whose distances are the \<open>mx\<close> smallest
  of both, each once and in order.\<close>

lemma merge_nodes_closest:
  assumes "length i = 5" "sorted_wrt (<) (map (xor_dist i) v1)" "sorted_wrt (<) (map (xor_dist i) v2)"
    "\<forall>c \<in> set v1 \<union> set v2. length (ca_id c) = 5"
  shows "map (xor_dist i) (merge_nodes i v1 v2 mx) = take (nat mx) (sorted_list_of_set (xor_dist i ` (set v1 \<union> set v2))) \<and>
    set (merge_nodes i v1 v2 mx) \<subseteq> set v1 \<union> set v2"
  using merge_loop_spec [of i v1 v2 "{}" "nat mx" "[]"] assms by (simp add: merge_nodes_def dists_def by_dist_def)

lemma merge_nodes_closest_witness:
  "map (xor_dist me0) (merge_nodes me0 [node_at 1] [node_at 1, node_at 2] 2) =
     take (nat 2) (sorted_list_of_set (xor_dist me0 ` (set [node_at 1] \<union> set [node_at 1, node_at 2]))) \<and>
   set (merge_nodes me0 [node_at 1] [node_at 1, node_at 2] 2) \<subseteq> set [node_at 1] \<union> set [node_at 1, node_at 2]"
proof (rule merge_nodes_closest)
  show "sorted_wrt (<) (map (xor_dist me0) [node_at 1, node_at 2])"
    by (simp add: xor_dist_def node_at_def node_id_def me0_def bn_xor_def)
qed (simp_all add: me0_def node_at_def node_id_def)

end
