(* ===== verification/Peers.thy ===== *)
theory Peers
  imports Cagetypes
begin

section \<open>Known peers (peers.hpp, peers.cpp)\<close>

text \<open>
  The cache of node addresses: a bimap of identifiers (with the time of the entry and a
  session number) and addresses, and the set of nodes that timed out.  The bimap is the list
  of its entries in the order they were inserted, which is the order of equal keys in the
  address view.  The order of the identifier view is up to the hash table and a parameter
  of \<open>get_first\<close> and \<open>get_next\<close>.

  Times are seconds, \<open>now\<close> is what \<^verbatim>\<open>time(NULL)\<close> returns, \<open>called\<close> the addresses the
  callback was given.  Results are \<open>None\<close> where the code throws: for an unknown identifier, a
  callback that is not set, or two addresses that cannot be compared.
\<close>

definition timeout_ttl :: int where "timeout_ttl = 30"
definition map_ttl :: int where "map_ttl = 300"
definition peers_timer_interval :: int where "peers_timer_interval = 30"

record peer_id =
  p_id :: uint160
  p_t :: int
  p_session :: u32

type_synonym peer_addr = "u16 \<times> saddr"

record peers =
  m_map :: "(peer_id \<times> peer_addr) list"
  m_timeout :: "uint160 \<rightharpoonup> int"
  m_is_callback :: bool
  called :: "cageaddr list"
  next_refresh :: int

text \<open>Comparing two addresses; \<open>None\<close> is an exception.\<close>

definition addr_eq :: "peer_addr \<Rightarrow> peer_addr \<Rightarrow> bool option" where
  "addr_eq a b =
     (if fst a \<noteq> fst b then Some False
      else if fst a = domain_inet then do {
        n1 \<leftarrow> get_in (snd a);
        n2 \<leftarrow> get_in (snd b);
        Some (sin_port n1 = sin_port n2 \<and> sin_addr n1 = sin_addr n2)
      }
      else if fst a = domain_inet6 then do {
        n1 \<leftarrow> get_in6 (snd a);
        n2 \<leftarrow> get_in6 (snd b);
        Some (sin6_port n1 = sin6_port n2 \<and> sin6_addr n1 = sin6_addr n2)
      }
      else None)"

definition memcmp_less :: "u8 list \<Rightarrow> u8 list \<Rightarrow> bool" where
  "memcmp_less xs ys = (case filter (\<lambda>(x, y). x \<noteq> y) (zip xs ys) of [] \<Rightarrow> False | (x, y) # _ \<Rightarrow> x < y)"

definition addr_less :: "peer_addr \<Rightarrow> peer_addr \<Rightarrow> bool option" where
  "addr_less a b =
     (if fst a \<noteq> fst b then Some (fst a < fst b)
      else if fst a = domain_inet then do {
        n1 \<leftarrow> get_in (snd a);
        n2 \<leftarrow> get_in (snd b);
        Some (if sin_addr n1 \<noteq> sin_addr n2 then sin_addr n1 < sin_addr n2 else sin_port n1 < sin_port n2)
      }
      else if fst a = domain_inet6 then do {
        n1 \<leftarrow> get_in6 (snd a);
        n2 \<leftarrow> get_in6 (snd b);
        Some (if memcmp_less (sin6_addr n1) (sin6_addr n2) then True
              else if memcmp_less (sin6_addr n2) (sin6_addr n1) then False
              else sin6_port n1 < sin6_port n2)
      }
      else None)"

text \<open>
  The address view is an ordered tree of the entries.  Its nodes of one domain are
  contiguous, so every search for an address of that domain compares it with one of them:
  it throws iff the address cannot be compared.
\<close>

definition right_ok :: "peer_addr \<Rightarrow> (peer_id \<times> peer_addr) list \<Rightarrow> bool" where
  "right_ok a m \<longleftrightarrow> (\<forall>(i, b) \<in> set m. addr_less a b \<noteq> None)"

definition right_match :: "peer_addr \<Rightarrow> peer_addr \<Rightarrow> bool" where
  "right_match a b \<longleftrightarrow> addr_less a b = Some False \<and> addr_less b a = Some False"

definition left_find :: "uint160 \<Rightarrow> (peer_id \<times> peer_addr) list \<Rightarrow> (peer_id \<times> peer_addr) option" where
  "left_find i m = List.find (\<lambda>(j, a). p_id j = i) m"

text \<open>Inserting an identifier that is present changes nothing.\<close>

definition bimap_insert :: "peer_id \<Rightarrow> peer_addr \<Rightarrow> (peer_id \<times> peer_addr) list \<Rightarrow> (peer_id \<times> peer_addr) list option" where
  "bimap_insert i a m =
     (if left_find (p_id i) m \<noteq> None then Some m else if right_ok a m then Some (m @ [(i, a)]) else None)"

definition left_erase :: "uint160 \<Rightarrow> (peer_id \<times> peer_addr) list \<Rightarrow> (peer_id \<times> peer_addr) list" where
  "left_erase i m = filter (\<lambda>(j, a). p_id j \<noteq> i) m"

subsection \<open>Operations\<close>

text \<open>\<open>jitter\<close> is \<open>30\<close> times a random number of the unit interval, rounded down.\<close>

definition peers_init :: "int \<Rightarrow> int \<Rightarrow> peers" where
  "peers_init now jitter = \<lparr>m_map = [], m_timeout = Map.empty, m_is_callback = False, called = [],
     next_refresh = now + (jitter + peers_timer_interval)\<rparr>"

definition set_callback :: "peers \<Rightarrow> peers" where
  "set_callback s = s\<lparr>m_is_callback := True\<rparr>"

definition call_back :: "cageaddr \<Rightarrow> peers \<Rightarrow> peers option" where
  "call_back addr s = (if m_is_callback s then Some (s\<lparr>called := called s @ [addr]\<rparr>) else None)"

definition get_addr :: "uint160 \<Rightarrow> peers \<Rightarrow> cageaddr option" where
  "get_addr i s = do {
     (j, a) \<leftarrow> left_find i (m_map s);
     Some \<lparr>ca_id = i, ca_domain = fst a, ca_saddr = snd a\<rparr>
   }"

definition get_id :: "cageaddr \<Rightarrow> peers \<Rightarrow> uint160 list option" where
  "get_id addr s =
     (let a = (ca_domain addr, ca_saddr addr) in
      if right_ok a (m_map s) then Some (map (\<lambda>(i, b). p_id i) (filter (\<lambda>(i, b). right_match a b) (m_map s))) else None)"

definition remove_id :: "uint160 \<Rightarrow> peers \<Rightarrow> peers" where
  "remove_id i s = s\<lparr>m_map := left_erase i (m_map s)\<rparr>"

definition remove_addr :: "cageaddr \<Rightarrow> peers \<Rightarrow> peers option" where
  "remove_addr addr s =
     (let a = (ca_domain addr, ca_saddr addr) in
      if right_ok a (m_map s) then Some (s\<lparr>m_map := filter (\<lambda>(i, b). \<not> right_match a b) (m_map s)\<rparr>) else None)"

definition accept_node :: "peer_id \<Rightarrow> cageaddr \<Rightarrow> peers \<Rightarrow> (bool \<times> peers) option" where
  "accept_node i addr s = do {
     m \<leftarrow> bimap_insert i (ca_domain addr, ca_saddr addr) (m_map s);
     s \<leftarrow> call_back addr (s\<lparr>m_map := m, m_timeout := (m_timeout s)(p_id i := None)\<rparr>);
     Some (True, s)
   }"

definition set_time :: "uint160 \<Rightarrow> int \<Rightarrow> (peer_id \<times> peer_addr) list \<Rightarrow> (peer_id \<times> peer_addr) list" where
  "set_time i t m = map (\<lambda>(j, a). (if p_id j = i then j\<lparr>p_t := t\<rparr> else j, a)) m"

definition add_node_session :: "int \<Rightarrow> cageaddr \<Rightarrow> u32 \<Rightarrow> peers \<Rightarrow> (bool \<times> peers) option" where
  "add_node_session now addr session s =
     (if ca_domain addr \<noteq> domain_inet \<and> ca_domain addr = domain_inet6 then Some (False, s)
      else let i = \<lparr>p_id = ca_id addr, p_t = now, p_session = session\<rparr> in
        case left_find (ca_id addr) (m_map s) of
          Some (j, a1) \<Rightarrow>
            if p_session j = session \<or> p_session j = 0 then accept_node i addr s
            else do {
              same \<leftarrow> addr_eq a1 (ca_domain addr, ca_saddr addr);
              if same then do {
                s \<leftarrow> call_back addr (s\<lparr>m_map := set_time (ca_id addr) now (m_map s),
                                       m_timeout := (m_timeout s)(ca_id addr := None)\<rparr>);
                Some (True, s)
              }
              else Some (False, s)
            }
        | None \<Rightarrow> accept_node i addr s)"

definition add_node :: "int \<Rightarrow> cageaddr \<Rightarrow> peers \<Rightarrow> peers option" where
  "add_node now addr s = do { (b, s) \<leftarrow> add_node_session now addr 0 s; Some s }"

definition add_node_force :: "int \<Rightarrow> cageaddr \<Rightarrow> peers \<Rightarrow> peers option" where
  "add_node_force now addr s =
     (if ca_domain addr \<noteq> domain_inet \<and> ca_domain addr \<noteq> domain_inet6 then Some s
      else do {
        m \<leftarrow> bimap_insert \<lparr>p_id = ca_id addr, p_t = now, p_session = 0\<rparr> (ca_domain addr, ca_saddr addr) (m_map s);
        call_back addr (s\<lparr>m_map := m\<rparr>)
      })"

definition refresh :: "int \<Rightarrow> peers \<Rightarrow> peers" where
  "refresh now s = s\<lparr>
     m_timeout := (\<lambda>i. case m_timeout s i of None \<Rightarrow> None | Some t \<Rightarrow> if now - t > timeout_ttl then None else Some t),
     m_map := filter (\<lambda>(i, a). \<not> now - p_t i > map_ttl) (m_map s)\<rparr>"

definition peers_timer_func :: "int \<Rightarrow> int \<Rightarrow> peers \<Rightarrow> peers" where
  "peers_timer_func now jitter s = (refresh now s)\<lparr>next_refresh := now + (jitter + peers_timer_interval)\<rparr>"

definition add_timeout :: "int \<Rightarrow> uint160 \<Rightarrow> peers \<Rightarrow> peers" where
  "add_timeout now i s =
     (if m_timeout s i = None then s
      else s\<lparr>m_timeout := (case m_timeout s i of None \<Rightarrow> (m_timeout s)(i \<mapsto> now) | Some _ \<Rightarrow> m_timeout s),
             m_map := left_erase i (m_map s)\<rparr>)"

definition is_timeout :: "uint160 \<Rightarrow> peers \<Rightarrow> bool" where
  "is_timeout i s \<longleftrightarrow> m_timeout s i \<noteq> None"

text \<open>\<open>order\<close> gives the sequence in which the hash table iterates over its entries.\<close>

type_synonym iteration = "(peer_id \<times> peer_addr) list \<Rightarrow> (peer_id \<times> peer_addr) list"

definition entry_addr :: "peer_id \<times> peer_addr \<Rightarrow> cageaddr" where
  "entry_addr e = \<lparr>ca_id = p_id (fst e), ca_domain = fst (snd e), ca_saddr = snd (snd e)\<rparr>"

definition get_first :: "iteration \<Rightarrow> peers \<Rightarrow> cageaddr option" where
  "get_first order s = (case order (m_map s) of [] \<Rightarrow> None | e # _ \<Rightarrow> Some (entry_addr e))"

definition get_next :: "iteration \<Rightarrow> uint160 \<Rightarrow> peers \<Rightarrow> cageaddr option" where
  "get_next order i s =
     (case dropWhile (\<lambda>(j, a). p_id j \<noteq> i) (order (m_map s)) of
        _ # e # _ \<Rightarrow> Some (entry_addr e)
      | _ \<Rightarrow> None)"

end
