(* ===== verification/Natdetector.thy ===== *)
theory Natdetector
  imports Peers Rttable
begin

section \<open>NAT detection (natdetector.hpp, natdetector.cpp)\<close>

text \<open>
  A node asks a peer to echo (\<open>echo_wait1\<close>), then to echo to a second socket
  (\<open>echo_redirect_wait\<close>).  If the second answer arrives the node is global, if not it is
  behind a NAT; two peers then tell from which port they see it (\<open>echo_wait2\<close>), the same
  port being a cone NAT and different ones a symmetric NAT.

  \<open>nd_rnds\<close> are the random numbers, \<open>nd_ports\<close> the ports of the sockets that will be opened
  (0 when opening fails), \<open>nd_out\<close> the datagrams sent, \<open>nd_joins\<close> the calls of
  \<^verbatim>\<open>dht::find_node\<close> and \<open>nd_registers\<close> the number of those of \<^verbatim>\<open>proxy::register_node\<close>.
  Every nonce in \<open>nd_timers\<close> has its timer set.  The peers and the order in which they are
  iterated are arguments.  Results are \<open>None\<close> where the code throws or a supply is empty.
\<close>

definition echo_timeout :: int where "echo_timeout = 3"
definition nat_timer_interval :: int where "nat_timer_interval = 30"

datatype nat_state = nat_undefined | echo_wait1 | echo_redirect_wait | nat_global | nat_nat | echo_wait2 | cone_nat | symmetric_nat

datatype echo_timer = timer_echo_wait1 | timer_echo_wait2

record natdetector =
  nd_id :: uint160
  nd_state :: nat_state
  nd_timers :: "u32 \<rightharpoonup> echo_timer"
  nd_udps :: "u32 set"
  nd_reply :: "u32 \<rightharpoonup> u16"
  nd_global_port :: u16
  nd_global_addr :: "u8 list option"
  nd_timer_nat :: bool
  nd_rnds :: "u32 list"
  nd_ports :: "u16 list"
  nd_out :: sent
  nd_joins :: "saddr list"
  nd_registers :: nat

definition natdetector_init :: "uint160 \<Rightarrow> u32 list \<Rightarrow> u16 list \<Rightarrow> natdetector" where
  "natdetector_init i rs ps = \<lparr>nd_id = i, nd_state = nat_undefined, nd_timers = Map.empty, nd_udps = {}, nd_reply = Map.empty,
     nd_global_port = 0, nd_global_addr = None, nd_timer_nat = False, nd_rnds = rs, nd_ports = ps, nd_out = [],
     nd_joins = [], nd_registers = 0\<rparr>"

subsection \<open>Messages\<close>

definition echo_size :: nat where "echo_size = 52"
definition echo_reply_size :: nat where "echo_reply_size = 72"
definition echo_redirect_size :: nat where "echo_redirect_size = 56"
definition echo_redirect_reply_size :: nat where "echo_redirect_reply_size = 72"

definition msg_nat_echo :: "uint160 \<Rightarrow> u32 \<Rightarrow> u8 list option" where
  "msg_nat_echo me nonce = do {
     h \<leftarrow> hdr_bytes (new_hdr type_nat_echo echo_size me (replicate 5 0));
     Some (h @ htonl_bytes nonce)
   }"

text \<open>Port and address of a socket address, the address padded to 16 bytes.\<close>

definition seen_addr :: "saddr \<Rightarrow> u16 \<times> u16 \<times> u8 list" where
  "seen_addr from =
     (case from of
        In a \<Rightarrow> (domain_inet, sin_port a, htonl_bytes (sin_addr a) @ replicate 12 0)
      | In6 a \<Rightarrow> (domain_inet6, sin6_port a, sin6_addr a)
      | NoAddr \<Rightarrow> (0, 0, replicate 16 0))"

definition msg_nat_echo_reply :: "uint160 \<Rightarrow> uint160 \<Rightarrow> u32 \<Rightarrow> saddr \<Rightarrow> u8 list option" where
  "msg_nat_echo_reply me dst nonce from = do {
     h \<leftarrow> hdr_bytes (new_hdr type_nat_echo_reply echo_reply_size me dst);
     let (domain, port, addr) = seen_addr from;
     Some (h @ htonl_bytes nonce @ htons_bytes domain @ htons_bytes port @ addr)
   }"

definition msg_nat_echo_redirect :: "uint160 \<Rightarrow> uint160 \<Rightarrow> u32 \<Rightarrow> u16 \<Rightarrow> u8 list option" where
  "msg_nat_echo_redirect me dst nonce port = do {
     h \<leftarrow> hdr_bytes (new_hdr type_nat_echo_redirect echo_redirect_size me dst);
     Some (h @ htonl_bytes nonce @ htons_bytes port @ [0, 0])
   }"

text \<open>The domain of this reply is not converted to network byte order.\<close>

definition host_bytes :: "u16 \<Rightarrow> u8 list" where
  "host_bytes w = rev (htons_bytes w)"

definition msg_nat_echo_redirect_reply :: "uint160 \<Rightarrow> uint160 \<Rightarrow> u32 \<Rightarrow> saddr \<Rightarrow> u8 list option" where
  "msg_nat_echo_redirect_reply me dst nonce from = do {
     h \<leftarrow> hdr_bytes (new_hdr type_nat_echo_redirect_reply echo_redirect_reply_size me dst);
     let (domain, port, addr) = seen_addr from;
     Some (h @ htonl_bytes nonce @ host_bytes domain @ htons_bytes port @ addr)
   }"

definition set_port :: "u16 \<Rightarrow> saddr \<Rightarrow> saddr" where
  "set_port port from =
     (case from of In a \<Rightarrow> In (a\<lparr>sin_port := port\<rparr>) | In6 a \<Rightarrow> In6 (a\<lparr>sin6_port := port\<rparr>) | NoAddr \<Rightarrow> NoAddr)"

subsection \<open>Asking\<close>

definition get_echo :: "natdetector \<Rightarrow> (u8 list \<times> natdetector) option" where
  "get_echo s = do {
     (nonce, rs) \<leftarrow> fresh_nonce (\<lambda>r. nd_timers s r \<noteq> None) (nd_rnds s);
     m \<leftarrow> msg_nat_echo (nd_id s) nonce;
     Some (m, s\<lparr>nd_rnds := rs, nd_timers := (nd_timers s)(nonce \<mapsto> timer_echo_wait1), nd_state := echo_wait1\<rparr>)
   }"

definition detect_nat :: "saddr \<Rightarrow> natdetector \<Rightarrow> natdetector option" where
  "detect_nat to s =
     (if nd_state s \<noteq> nat_undefined then Some s
      else do { (m, s) \<leftarrow> get_echo s; Some (s\<lparr>nd_out := nd_out s @ [(m, to)]\<rparr>) })"

text \<open>\<open>to\<close> is what the host name resolves to; nothing is sent if it does not.\<close>

definition detect_nat_host :: "saddr option \<Rightarrow> natdetector \<Rightarrow> natdetector option" where
  "detect_nat_host to s =
     (if nd_state s \<noteq> nat_undefined then Some s
      else do {
        (m, s) \<leftarrow> get_echo s;
        Some (case to of None \<Rightarrow> s | Some a \<Rightarrow> s\<lparr>nd_out := nd_out s @ [(m, a)]\<rparr>)
      })"

definition detect_nat_type :: "saddr \<Rightarrow> saddr \<Rightarrow> natdetector \<Rightarrow> natdetector option" where
  "detect_nat_type saddr1 saddr2 s =
     (if nd_state s \<noteq> nat_nat then Some s
      else do {
        (nonce, rs) \<leftarrow> fresh_nonce (\<lambda>r. nd_timers s r \<noteq> None) (nd_rnds s);
        m \<leftarrow> msg_nat_echo (nd_id s) nonce;
        Some (s\<lparr>nd_rnds := rs, nd_out := nd_out s @ [(m, saddr1), (m, saddr2)],
                nd_timers := (nd_timers s)(nonce \<mapsto> timer_echo_wait2), nd_reply := (nd_reply s)(nonce \<mapsto> 0),
                nd_state := echo_wait2\<rparr>)
      })"

definition join_dht :: "iteration \<Rightarrow> peers \<Rightarrow> natdetector \<Rightarrow> natdetector option" where
  "join_dht order p s =
     (case get_first order p of
        None \<Rightarrow> Some s
      | Some addr \<Rightarrow> do { a \<leftarrow> get_in (ca_saddr addr); Some (s\<lparr>nd_joins := nd_joins s @ [In a]\<rparr>) })"

subsection \<open>Answering\<close>

definition recv_echo :: "u8 list \<Rightarrow> saddr \<Rightarrow> natdetector \<Rightarrow> natdetector option" where
  "recv_echo msg from s = do {
     m \<leftarrow> msg_nat_echo_reply (nd_id s) (hd_src (hdr_at msg)) (u32_at 48 msg) from;
     Some (s\<lparr>nd_out := nd_out s @ [(m, from)]\<rparr>)
   }"

definition recv_echo_redirect :: "u8 list \<Rightarrow> saddr \<Rightarrow> natdetector \<Rightarrow> natdetector option" where
  "recv_echo_redirect msg from s = do {
     m \<leftarrow> msg_nat_echo_redirect_reply (nd_id s) (hd_src (hdr_at msg)) (u32_at 48 msg) from;
     Some (s\<lparr>nd_out := nd_out s @ [(m, set_port (u16_at 52 msg) from)]\<rparr>)
   }"

subsection \<open>Replies\<close>

definition recv_echo_reply_wait1 :: "u8 list \<Rightarrow> saddr \<Rightarrow> natdetector \<Rightarrow> natdetector option" where
  "recv_echo_reply_wait1 msg from s =
     (let nonce1 = u32_at 48 msg in
      if nd_timers s nonce1 = None then Some s
      else do {
        let s = s\<lparr>nd_timers := (nd_timers s)(nonce1 := None)\<rparr>;
        (nonce2, rs) \<leftarrow> fresh_nonce (\<lambda>r. r \<in> nd_udps s) (nd_rnds s);
        (port, ps) \<leftarrow> (case nd_ports s of [] \<Rightarrow> None | p # ps \<Rightarrow> Some (p, ps));
        m \<leftarrow> msg_nat_echo_redirect (nd_id s) (hd_src (hdr_at msg)) nonce2 port;
        Some (s\<lparr>nd_rnds := rs, nd_ports := ps, nd_udps := insert nonce2 (nd_udps s), nd_out := nd_out s @ [(m, from)],
                nd_state := echo_redirect_wait\<rparr>)
      })"

definition recv_echo_reply_wait2 :: "iteration \<Rightarrow> peers \<Rightarrow> u8 list \<Rightarrow> natdetector \<Rightarrow> natdetector option" where
  "recv_echo_reply_wait2 order p msg s =
     (let nonce = u32_at 48 msg; port = u16_at 54 msg;
          old = (case nd_reply s nonce of None \<Rightarrow> 0 | Some q \<Rightarrow> q);
          forget = s\<lparr>nd_reply := (nd_reply s)(nonce := None), nd_timers := (nd_timers s)(nonce := None)\<rparr> in
      if nd_timers s nonce = None then Some s
      else if old = 0 then Some (s\<lparr>nd_reply := (nd_reply s)(nonce \<mapsto> port)\<rparr>)
      else if old = port then join_dht order p (forget\<lparr>nd_state := cone_nat\<rparr>)
      else Some (forget\<lparr>nd_state := symmetric_nat, nd_registers := nd_registers s + 1\<rparr>))"

definition recv_echo_reply :: "iteration \<Rightarrow> peers \<Rightarrow> u8 list \<Rightarrow> saddr \<Rightarrow> natdetector \<Rightarrow> natdetector option" where
  "recv_echo_reply order p msg from s = do {
     s \<leftarrow> (if nd_state s = echo_wait1 then recv_echo_reply_wait1 msg from s else Some s);
     if nd_state s = echo_wait2 then recv_echo_reply_wait2 order p msg s else Some s
   }"

definition recv_echo_redirect_reply :: "iteration \<Rightarrow> peers \<Rightarrow> u8 list \<Rightarrow> natdetector \<Rightarrow> natdetector option" where
  "recv_echo_redirect_reply order p msg s =
     (if nd_state s \<noteq> echo_redirect_wait then Some (s\<lparr>nd_state := nat_undefined\<rparr>)
      else let nonce = u32_at 48 msg in
        if nonce \<notin> nd_udps s then Some (s\<lparr>nd_state := nat_undefined\<rparr>)
        else join_dht order p (s\<lparr>nd_global_port := u16_at 54 msg, nd_global_addr := Some (take 16 (drop 56 msg)), nd_state := nat_global\<rparr>))"

text \<open>The callback of a second socket, \<open>None\<close> for its time-out.\<close>

definition udp_receiver :: "iteration \<Rightarrow> peers \<Rightarrow> u32 \<Rightarrow> u8 list option \<Rightarrow> natdetector \<Rightarrow> natdetector option" where
  "udp_receiver order p nonce pbuf s =
     (case pbuf of
        None \<Rightarrow> Some (s\<lparr>nd_state := nat_nat, nd_udps := nd_udps s - {nonce}\<rparr>)
      | Some msg \<Rightarrow> do {
          s \<leftarrow> (if length msg = echo_redirect_reply_size then
                  if hd_type (hdr_at msg) = type_nat_echo_redirect_reply then recv_echo_redirect_reply order p msg s else Some s
                else Some (s\<lparr>nd_state := nat_undefined\<rparr>));
          Some (s\<lparr>nd_udps := nd_udps s - {nonce}\<rparr>)
        })"

subsection \<open>Timers\<close>

definition timer_echo :: "u32 \<Rightarrow> natdetector \<Rightarrow> natdetector option" where
  "timer_echo nonce s = do {
     t \<leftarrow> nd_timers s nonce;
     Some (case t of
       timer_echo_wait1 \<Rightarrow> s\<lparr>nd_state := nat_undefined, nd_timers := (nd_timers s)(nonce := None)\<rparr>
     | timer_echo_wait2 \<Rightarrow> s\<lparr>nd_state := nat_nat, nd_reply := (nd_reply s)(nonce := None), nd_timers := (nd_timers s)(nonce := None)\<rparr>)
   }"

text \<open>
  The next peer with another IPv4 address: \<open>Some None\<close> when the iteration ends, which the caller
  catches, \<open>None\<close> for another exception.  The fuel bounds the steps of the iteration.
\<close>

fun other_peer :: "nat \<Rightarrow> iteration \<Rightarrow> peers \<Rightarrow> sockaddr_in \<Rightarrow> uint160 \<Rightarrow> sockaddr_in option option" where
  "other_peer 0 order p in1 i = None"
| "other_peer (Suc fuel) order p in1 i =
     (case get_next order i p of
        None \<Rightarrow> Some None
      | Some addr2 \<Rightarrow> do {
          in2 \<leftarrow> get_in (ca_saddr addr2);
          if sin_addr in1 \<noteq> sin_addr in2 then Some (Some in2) else other_peer fuel order p in1 (ca_id addr2)
        })"

definition timer_nat :: "iteration \<Rightarrow> peers \<Rightarrow> natdetector \<Rightarrow> natdetector option" where
  "timer_nat order p s =
     (let s = s\<lparr>nd_timer_nat := False\<rparr> in
      if nd_state s \<in> {nat_global, cone_nat, symmetric_nat} then Some s
      else let s = s\<lparr>nd_timer_nat := True\<rparr> in
        if nd_state s \<in> {echo_wait1, echo_wait2, echo_redirect_wait} then Some s
        else case get_first order p of
          None \<Rightarrow> Some s
        | Some addr1 \<Rightarrow> do {
            in1 \<leftarrow> get_in (ca_saddr addr1);
            if nd_state s = nat_undefined then detect_nat (In in1) s
            else do {
              r \<leftarrow> other_peer (Suc (length (m_map p))) order p in1 (ca_id addr1);
              case r of None \<Rightarrow> Some s | Some in2 \<Rightarrow> detect_nat_type (In in1) (In in2) s
            }
          })"

definition detect :: "u16 \<Rightarrow> saddr option \<Rightarrow> natdetector \<Rightarrow> natdetector option" where
  "detect domain to s =
     (if domain = domain_inet6 then Some (s\<lparr>nd_state := nat_global\<rparr>)
      else if nd_state s \<in> {nat_global, cone_nat, symmetric_nat} then Some s
      else do {
        s \<leftarrow> detect_nat_host to (s\<lparr>nd_timer_nat := False\<rparr>);
        Some (s\<lparr>nd_timer_nat := True\<rparr>)
      })"

definition get_state :: "natdetector \<Rightarrow> node_state" where
  "get_state s =
     (case nd_state s of
        nat_undefined \<Rightarrow> node_undefined
      | echo_wait1 \<Rightarrow> node_undefined
      | echo_redirect_wait \<Rightarrow> node_undefined
      | nat_global \<Rightarrow> node_global
      | nat_nat \<Rightarrow> node_nat
      | echo_wait2 \<Rightarrow> node_nat
      | symmetric_nat \<Rightarrow> node_symmetric
      | cone_nat \<Rightarrow> node_cone)"

definition set_state_global :: "natdetector \<Rightarrow> natdetector" where "set_state_global s = s\<lparr>nd_state := nat_global\<rparr>"
definition set_state_nat :: "natdetector \<Rightarrow> natdetector" where "set_state_nat s = s\<lparr>nd_state := nat_nat\<rparr>"
definition set_state_cone_nat :: "natdetector \<Rightarrow> natdetector" where "set_state_cone_nat s = s\<lparr>nd_state := cone_nat\<rparr>"
definition set_state_symmetric_nat :: "natdetector \<Rightarrow> natdetector" where "set_state_symmetric_nat s = s\<lparr>nd_state := symmetric_nat\<rparr>"

end
