(* ===== verification/Peers_Props.thy ===== *)
theory Peers_Props
  imports Peers "HOL-Library.Multiset"
begin

section \<open>What the cache of peers promises\<close>

text \<open>
  Entries are keyed by identifier, the first address given for an identifier wins until the
  entry is removed or expires, and iteration visits every entry once.  \<open>address_book\<close> states
  the first of these as an interface; the cache provides it for IPv4 nodes.
\<close>

locale address_book =
  fixes lookup :: "'s \<Rightarrow> 'k \<Rightarrow> 'v option" and add :: "'k \<Rightarrow> 'e \<Rightarrow> 's \<Rightarrow> 's option" and val :: "'e \<Rightarrow> 'v"
    and remove :: "'k \<Rightarrow> 's \<Rightarrow> 's" and ok :: "'e \<Rightarrow> bool" and inv :: "'s \<Rightarrow> bool"
  assumes lookup_add: "inv s \<Longrightarrow> ok e \<Longrightarrow> add k e s = Some s' \<Longrightarrow>
      lookup s' j = (if j = k \<and> lookup s k = None then Some (val e) else lookup s j)"
    and add_total: "inv s \<Longrightarrow> ok e \<Longrightarrow> \<exists>s'. add k e s = Some s'"
    and add_inv: "inv s \<Longrightarrow> ok e \<Longrightarrow> add k e s = Some s' \<Longrightarrow> inv s'"
    and lookup_remove: "inv s \<Longrightarrow> lookup (remove k s) j = (if j = k then None else lookup s j)"
    and remove_inv: "inv s \<Longrightarrow> inv (remove k s)"
begin

fun adds :: "('k \<times> 'e) list \<Rightarrow> 's \<Rightarrow> 's option" where
  "adds [] s = Some s"
| "adds ((k, e) # kes) s = (case add k e s of None \<Rightarrow> None | Some s \<Rightarrow> adds kes s)"

lemma first_wins:
  assumes "inv s" "\<forall>(k, e) \<in> set kes. ok e"
  shows "\<exists>s'. adds kes s = Some s' \<and> inv s' \<and>
    (\<forall>j. lookup s' j = (case lookup s j of Some v \<Rightarrow> Some v | None \<Rightarrow> map_option val (map_of kes j)))"
  using assms
proof (induction kes arbitrary: s)
  case (Cons ke kes)
  obtain k e where ke: "ke = (k, e)" by (cases ke)
  then have "ok e" using Cons.prems by simp
  then obtain s1 where s1: "add k e s = Some s1" "inv s1" using add_total add_inv Cons.prems(1) by blast
  from Cons.IH [OF s1(2)] Cons.prems(2) obtain s' where
    "adds kes s1 = Some s'" "inv s'" "\<forall>j. lookup s' j = (case lookup s1 j of Some v \<Rightarrow> Some v | None \<Rightarrow> map_option val (map_of kes j))"
    by auto
  then show ?case
    using lookup_add [OF Cons.prems(1) \<open>ok e\<close> s1(1)] s1(1) ke by (auto split: option.splits)
qed (simp split: option.splits)

end

subsection \<open>Well-formed caches\<close>

definition addr_ok :: "peer_addr \<Rightarrow> bool" where
  "addr_ok a \<longleftrightarrow> fst a = domain_inet \<and> (\<exists>n. snd a = In n) \<or> fst a = domain_inet6 \<and> (\<exists>n. snd a = In6 n)"

definition peers_inv :: "peers \<Rightarrow> bool" where
  "peers_inv s \<longleftrightarrow> distinct (map (p_id \<circ> fst) (m_map s)) \<and> (\<forall>(i, a) \<in> set (m_map s). addr_ok a) \<and>
     m_timeout s = Map.empty \<and> m_is_callback s"

lemma addr_less_ok: "addr_ok a \<Longrightarrow> addr_ok b \<Longrightarrow> \<exists>r. addr_less a b = Some r"
  by (auto simp: addr_ok_def addr_less_def domain_defs)

lemma addr_eq_ok: "addr_ok a \<Longrightarrow> addr_ok b \<Longrightarrow> addr_eq a b = Some (a = b)"
  by (cases a; cases b) (auto simp: addr_ok_def addr_eq_def domain_defs intro: sockaddr_in.equality sockaddr_in6.equality)

lemma right_ok_addr:
  assumes "addr_ok a" "\<forall>(i, b) \<in> set m. addr_ok b"
  shows "right_ok a m"
proof -
  have "addr_less a b \<noteq> None" if "(i, b) \<in> set m" for i b using addr_less_ok [of a b] assms that by auto
  then show ?thesis by (auto simp: right_ok_def)
qed

lemma left_find_None: "left_find i m = None \<longleftrightarrow> i \<notin> (p_id \<circ> fst) ` set m"
  unfolding left_find_def by (induction m) auto

lemma left_find_iff:
  "distinct (map (p_id \<circ> fst) m) \<Longrightarrow> left_find i m = Some (j, a) \<longleftrightarrow> (j, a) \<in> set m \<and> p_id j = i"
  unfolding left_find_def by (induction m) (force simp: image_iff)+

lemma left_find_append: "left_find i (m @ [(j, a)]) = (case left_find i m of None \<Rightarrow> if p_id j = i then Some (j, a) else None | Some e \<Rightarrow> Some e)"
  unfolding left_find_def by (induction m) (auto split: option.splits)

lemma left_find_erase: "left_find i (left_erase k m) = (if i = k then None else left_find i m)"
  unfolding left_find_def left_erase_def by (induction m) auto

lemma left_find_set_time:
  "left_find i (set_time k t m) = map_option (\<lambda>(j, a). (if p_id j = k then j\<lparr>p_t := t\<rparr> else j, a)) (left_find i m)"
  unfolding left_find_def set_time_def by (induction m) auto

lemma left_find_filter:
  "distinct (map (p_id \<circ> fst) m) \<Longrightarrow> left_find i m = Some (j, a) \<Longrightarrow> left_find i (filter P m) = (if P (j, a) then Some (j, a) else None)"
proof (induction m)
  case (Cons e m)
  then show ?case
    using left_find_None [of i "filter P m"] unfolding left_find_def by (cases e) (auto split: if_splits)
qed (simp add: left_find_def)

lemma ids_set_time: "map (p_id \<circ> fst) (set_time k t m) = map (p_id \<circ> fst) m"
  by (induction m) (auto simp: set_time_def)

lemma addrs_set_time: "snd ` set (set_time k t m) = snd ` set m"
  by (force simp: set_time_def)

lemma bimap_insert_ok:
  assumes "addr_ok a" "\<forall>(i, b) \<in> set m. addr_ok b"
  shows "bimap_insert i a m = Some (if left_find (p_id i) m = None then m @ [(i, a)] else m)"
  using right_ok_addr [OF assms] by (simp add: bimap_insert_def)

text \<open>For an IPv4 node, adding never throws; it changes the map only for a new identifier or the time of an entry.\<close>

definition new_entry :: "int \<Rightarrow> cageaddr \<Rightarrow> u32 \<Rightarrow> peer_id \<times> peer_addr" where
  "new_entry now addr session = (\<lparr>p_id = ca_id addr, p_t = now, p_session = session\<rparr>, (ca_domain addr, ca_saddr addr))"

definition map_added :: "int \<Rightarrow> cageaddr \<Rightarrow> u32 \<Rightarrow> (peer_id \<times> peer_addr) list \<Rightarrow> bool \<Rightarrow> (peer_id \<times> peer_addr) list \<Rightarrow> bool" where
  "map_added now addr session m b m' \<longleftrightarrow>
     (case left_find (ca_id addr) m of
        None \<Rightarrow> b \<and> m' = m @ [new_entry now addr session]
      | Some (j, a) \<Rightarrow> if p_session j = session \<or> p_session j = 0 then b \<and> m' = m else m' = m \<or> m' = set_time (ca_id addr) now m)"

lemma add_node_session_spec:
  assumes inv: "peers_inv s" and addr: "ca_domain addr = domain_inet" "ca_saddr addr = In n"
  shows "\<exists>b m. add_node_session now addr session s = Some (b, s\<lparr>m_map := m, called := called s @ (if b then [addr] else [])\<rparr>) \<and>
    map_added now addr session (m_map s) b m"
proof -
  have ok: "addr_ok (ca_domain addr, ca_saddr addr)" using addr by (simp add: addr_ok_def)
  have entries: "\<forall>(i, b) \<in> set (m_map s). addr_ok b" and rest: "m_timeout s = Map.empty" "m_is_callback s"
    using inv by (simp_all add: peers_inv_def)
  note ins = bimap_insert_ok [OF ok entries]
  have dom: "\<not> (ca_domain addr \<noteq> domain_inet \<and> ca_domain addr = domain_inet6)" using addr by simp
  have upd: "s\<lparr>m_map := m, m_timeout := (m_timeout s)(i := None)\<rparr> = s\<lparr>m_map := m\<rparr>" for m i using rest(1) by (cases s) simp
  show ?thesis
  proof (cases "left_find (ca_id addr) (m_map s)")
    case None
    then have "add_node_session now addr session s = Some (True, s\<lparr>m_map := m_map s @ [new_entry now addr session], called := called s @ [addr]\<rparr>)"
      using dom ins rest upd by (simp add: add_node_session_def accept_node_def call_back_def new_entry_def)
    then show ?thesis using None by (intro exI [of _ True] exI [of _ "m_map s @ [new_entry now addr session]"]) (simp add: map_added_def)
  next
    case (Some e)
    obtain j a where e: "e = (j, a)" by (cases e)
    have "(j, a) \<in> set (m_map s)" using Some e by (auto simp: left_find_def find_Some_iff) (metis nth_mem)
    then have eq: "addr_eq a (ca_domain addr, ca_saddr addr) = Some (a = (ca_domain addr, ca_saddr addr))"
      using addr_eq_ok [OF _ ok] entries by blast
    show ?thesis
    proof (cases "p_session j = session \<or> p_session j = 0")
      case True
      then have "add_node_session now addr session s = Some (True, s\<lparr>m_map := m_map s, called := called s @ [addr]\<rparr>)"
        using Some e dom ins rest upd by (simp add: add_node_session_def accept_node_def call_back_def)
      then show ?thesis using Some e by (intro exI [of _ True] exI [of _ "m_map s"]) (auto simp: map_added_def)
    next
      case False
      let ?b = "a = (ca_domain addr, ca_saddr addr)"
      have "add_node_session now addr session s = Some (?b, s\<lparr>m_map := if ?b then set_time (ca_id addr) now (m_map s) else m_map s,
          called := called s @ (if ?b then [addr] else [])\<rparr>)"
        using Some e dom eq rest upd False by (simp add: add_node_session_def call_back_def)
      then show ?thesis using Some e False by (intro exI [of _ ?b] exI [of _ "if ?b then set_time (ca_id addr) now (m_map s) else m_map s"]) (simp add: map_added_def)
    qed
  qed
qed

subsection \<open>Operations keep the cache well formed\<close>

lemma peers_inv_map:
  assumes "peers_inv s" "m = m_map s \<or> m = set_time i t (m_map s) \<or> m = left_erase i (m_map s) \<or> m = filter P (m_map s) \<or>
    left_find (p_id j) (m_map s) = None \<and> addr_ok a \<and> m = m_map s @ [(j, a)]"
  shows "distinct (map (p_id \<circ> fst) m) \<and> (\<forall>(i, a) \<in> set m. addr_ok a)"
proof -
  have d: "distinct (map (p_id \<circ> fst) (m_map s))" "\<forall>(i, a) \<in> set (m_map s). addr_ok a" using assms(1) by (auto simp: peers_inv_def)
  then have "distinct (map (p_id \<circ> fst) (filter Q (m_map s)))" for Q by (simp add: distinct_map_filter)
  moreover have "\<forall>(i', a) \<in> set (set_time i t (m_map s)). addr_ok a" using d(2) by (auto simp: set_time_def)
  ultimately show ?thesis
    using assms(2) d by (auto simp: ids_set_time left_erase_def left_find_None simp del: map_map)
qed

lemma peers_inv_add:
  assumes inv: "peers_inv s" and addr: "addr_ok (ca_domain addr, ca_saddr addr)"
    and s': "add_node_session now addr session s = Some (b, s')"
  shows "peers_inv s'"
proof (cases "ca_domain addr = domain_inet")
  case True
  then obtain n where n: "ca_saddr addr = In n" using addr by (auto simp: addr_ok_def domain_defs)
  from add_node_session_spec [OF inv True n, of now session] s' obtain m where
    s'_eq: "s' = s\<lparr>m_map := m, called := called s @ (if b then [addr] else [])\<rparr>" and m: "map_added now addr session (m_map s) b m"
    by auto
  have "distinct (map (p_id \<circ> fst) m) \<and> (\<forall>(i, a) \<in> set m. addr_ok a)"
    by (rule peers_inv_map [OF inv, where j = "fst (new_entry now addr session)" and a = "(ca_domain addr, ca_saddr addr)" and i = "ca_id addr" and t = now])
      (use m addr in \<open>auto simp: map_added_def new_entry_def split: option.splits if_splits\<close>)
  then show ?thesis using inv by (simp add: s'_eq peers_inv_def)
next
  case False
  then have "ca_domain addr = domain_inet6" using addr by (auto simp: addr_ok_def)
  then show ?thesis using s' inv False by (simp add: add_node_session_def)
qed

lemma peers_inv_force:
  assumes inv: "peers_inv s" and addr: "addr_ok (ca_domain addr, ca_saddr addr)" and s': "add_node_force now addr s = Some s'"
  shows "peers_inv s'"
proof -
  let ?i = "\<lparr>p_id = ca_id addr, p_t = now, p_session = 0\<rparr>" and ?a = "(ca_domain addr, ca_saddr addr)"
  let ?m = "if left_find (ca_id addr) (m_map s) = None then m_map s @ [(?i, ?a)] else m_map s"
  have "\<forall>(i, b) \<in> set (m_map s). addr_ok b" "m_is_callback s" using inv by (simp_all add: peers_inv_def)
  then have "s' = s\<lparr>m_map := ?m, called := called s @ [addr]\<rparr>"
    using s' addr bimap_insert_ok [OF addr, of "m_map s" ?i] by (auto simp: add_node_force_def call_back_def addr_ok_def)
  moreover have "distinct (map (p_id \<circ> fst) ?m) \<and> (\<forall>(i, a) \<in> set ?m. addr_ok a)"
    by (rule peers_inv_map [OF inv, where j = ?i and a = ?a]) (use addr in auto)
  ultimately show ?thesis using inv by (simp add: peers_inv_def)
qed

inductive peers_step :: "peers \<Rightarrow> peers \<Rightarrow> bool" where
  add: "addr_ok (ca_domain addr, ca_saddr addr) \<Longrightarrow> add_node_session now addr session s = Some (b, s') \<Longrightarrow> peers_step s s'"
| force: "addr_ok (ca_domain addr, ca_saddr addr) \<Longrightarrow> add_node_force now addr s = Some s' \<Longrightarrow> peers_step s s'"
| remove: "peers_step s (remove_id i s)"
| remove_all: "remove_addr addr s = Some s' \<Longrightarrow> peers_step s s'"
| time_out: "peers_step s (add_timeout now i s)"
| tick: "peers_step s (peers_timer_func now jitter s)"

inductive_cases peers_stepE: "peers_step s s'"

inductive peers_reach :: "peers \<Rightarrow> bool" where
  start: "peers_reach (set_callback (peers_init now jitter))"
| run: "peers_reach s \<Longrightarrow> peers_step s s' \<Longrightarrow> peers_reach s'"

lemma peers_inv_remove: "peers_inv s \<Longrightarrow> peers_inv (remove_id i s)"
  using peers_inv_map [of s "left_erase i (m_map s)" i] by (simp add: peers_inv_def remove_id_def)

lemma peers_inv_remove_addr:
  assumes inv: "peers_inv s" and s': "remove_addr addr s = Some s'"
  shows "peers_inv s'"
proof -
  let ?P = "\<lambda>(i :: peer_id, b). \<not> right_match (ca_domain addr, ca_saddr addr) b"
  have "s' = s\<lparr>m_map := filter ?P (m_map s)\<rparr>" using s' by (simp add: remove_addr_def Let_def split: if_splits)
  then show ?thesis using inv peers_inv_map [OF inv, of "filter ?P (m_map s)" _ _ ?P] by (simp add: peers_inv_def)
qed

lemma peers_inv_tick:
  assumes inv: "peers_inv s"
  shows "peers_inv (peers_timer_func now jitter s)"
proof -
  let ?P = "\<lambda>(i, a :: peer_addr). \<not> now - p_t i > map_ttl"
  show ?thesis
    using inv peers_inv_map [OF inv, of "filter ?P (m_map s)" _ _ ?P] by (simp add: peers_inv_def peers_timer_func_def refresh_def)
qed

lemma peers_inv_time_out: "peers_inv s \<Longrightarrow> add_timeout now i s = s"
  by (simp add: add_timeout_def peers_inv_def)

lemma peers_step_inv: "peers_step s s' \<Longrightarrow> peers_inv s \<Longrightarrow> peers_inv s'"
  by (erule peers_stepE)
    (auto simp: peers_inv_time_out intro: peers_inv_add peers_inv_force peers_inv_remove peers_inv_remove_addr peers_inv_tick)

lemma peers_reach_inv: "peers_reach s \<Longrightarrow> peers_inv s"
  by (induction rule: peers_reach.induct)
    (simp_all add: peers_step_inv, simp add: peers_inv_def set_callback_def peers_init_def)

subsection \<open>The first address wins\<close>

definition inet_node :: "uint160 \<Rightarrow> sockaddr_in \<Rightarrow> cageaddr" where
  "inet_node i n = \<lparr>ca_id = i, ca_domain = domain_inet, ca_saddr = In n\<rparr>"

lemma inet_node_simps [simp]:
  "ca_id (inet_node i n) = i" "ca_domain (inet_node i n) = domain_inet" "ca_saddr (inet_node i n) = In n"
  by (simp_all add: inet_node_def)

lemma add_inet_node:
  assumes "peers_inv s"
  shows "\<exists>b m. add_node_session now (inet_node k n) session s = Some (b, s\<lparr>m_map := m, called := called s @ (if b then [inet_node k n] else [])\<rparr>) \<and>
    map_added now (inet_node k n) session (m_map s) b m"
  by (rule add_node_session_spec [OF assms]) simp_all

interpretation book: address_book "\<lambda>s i. map_option snd (left_find i (m_map s))"
  "\<lambda>i (now, session, n) s. map_option snd (add_node_session now (inet_node i n) session s)"
  "\<lambda>(now, session, n). (domain_inet, In n)" remove_id "\<lambda>e. True" peers_inv
proof
  fix s :: peers and k :: uint160 and e :: "int \<times> u32 \<times> sockaddr_in"
  assume inv: "peers_inv s"
  obtain now session n where e: "e = (now, session, n)" by (cases e)
  obtain b m where
    add: "add_node_session now (inet_node k n) session s = Some (b, s\<lparr>m_map := m, called := called s @ (if b then [inet_node k n] else [])\<rparr>)"
    and m: "map_added now (inet_node k n) session (m_map s) b m"
    using add_inet_node [OF inv, of now k n session] by blast
  let ?add = "(\<lambda>i (now, session, n) s. map_option snd (add_node_session now (inet_node i n) session s)) k e s"
  show "\<exists>s'. ?add = Some s'" using add e by simp
  fix s' assume s': "?add = Some s'"
  show "peers_inv s'" using s' e add peers_inv_add [OF inv _ add] by (simp add: addr_ok_def)
  have map: "m_map s' = m" using s' e add by auto
  fix j show "map_option snd (left_find j (m_map s')) = (if j = k \<and> map_option snd (left_find k (m_map s)) = None
      then Some ((\<lambda>(now, session, n). (domain_inet, In n)) e) else map_option snd (left_find j (m_map s)))"
    using m e unfolding map
    by (auto simp: map_added_def new_entry_def left_find_append left_find_set_time option.map_comp comp_def case_prod_unfold
        split: option.splits if_splits)
next
  fix s k j show "peers_inv s \<Longrightarrow> peers_inv (remove_id k s)" by (rule peers_inv_remove)
  show "map_option snd (left_find j (m_map (remove_id k s))) = (if j = k then None else map_option snd (left_find j (m_map s)))"
    by (simp add: remove_id_def left_find_erase)
qed

fun add_nodes :: "(uint160 \<times> int \<times> u32 \<times> sockaddr_in) list \<Rightarrow> peers \<Rightarrow> peers option" where
  "add_nodes [] s = Some s"
| "add_nodes ((i, now, session, n) # es) s = do { (b, s) \<leftarrow> add_node_session now (inet_node i n) session s; add_nodes es s }"

lemma add_nodes_book: "add_nodes es s = book.adds es s"
proof (induction es arbitrary: s)
  case (Cons e es)
  obtain i now session n where "e = (i, now, session, n)" by (cases e) auto
  then show ?case using Cons by (cases "add_node_session now (inet_node i n) session s") auto
qed simp

lemma get_addr_map: "get_addr i s = map_option (\<lambda>a. \<lparr>ca_id = i, ca_domain = fst a, ca_saddr = snd a\<rparr>) (map_option snd (left_find i (m_map s)))"
  by (cases "left_find i (m_map s)") (auto simp: get_addr_def)

text \<open>Property C30.  Adding IPv4 nodes, in any order, with any sessions and at any time, never
  throws, and the address of an identifier is the first one that was given for it: what is
  known already is never replaced, whatever \<open>add_node\<close> returns.\<close>

theorem first_address_wins:
  assumes "peers_reach s"
  shows "\<exists>s'. add_nodes es s = Some s' \<and> (\<forall>i. get_addr i s' =
    (case get_addr i s of
       Some a \<Rightarrow> Some a
     | None \<Rightarrow> map_option (\<lambda>(now, session, n). inet_node i n) (map_of es i)))"
proof -
  from book.first_wins [OF peers_reach_inv [OF assms], of es] obtain s' where
    s': "add_nodes es s = Some s'" "\<forall>i. map_option snd (left_find i (m_map s')) =
      (case map_option snd (left_find i (m_map s)) of Some a \<Rightarrow> Some a
       | None \<Rightarrow> map_option (\<lambda>(now, session, n). (domain_inet, In n)) (map_of es i))"
    by (auto simp: add_nodes_book)
  then have "get_addr i s' = (case get_addr i s of Some a \<Rightarrow> Some a
      | None \<Rightarrow> map_option (\<lambda>(now, session, n). inet_node i n) (map_of es i))" for i
    by (auto simp: get_addr_map inet_node_def option.map_comp comp_def case_prod_unfold split: option.splits)
  then show ?thesis using s'(1) by blast
qed

definition empty_peers :: peers where "empty_peers = set_callback (peers_init 0 0)"

theorem first_address_wins_witness:
  "\<exists>s'. add_nodes [([0, 0, 0, 0, 1], 5, 0, \<lparr>sin_port = 1, sin_addr = 7\<rparr>), ([0, 0, 0, 0, 1], 6, 0, \<lparr>sin_port = 2, sin_addr = 8\<rparr>)] empty_peers = Some s' \<and>
     get_addr [0, 0, 0, 0, 1] s' = Some (inet_node [0, 0, 0, 0, 1] \<lparr>sin_port = 1, sin_addr = 7\<rparr>)"
proof -
  let ?es = "[([0, 0, 0, 0, 1], 5, 0, \<lparr>sin_port = 1, sin_addr = 7\<rparr>), ([0, 0, 0, 0, 1], 6, 0, \<lparr>sin_port = 2, sin_addr = 8\<rparr>)]"
  have "peers_reach empty_peers" unfolding empty_peers_def by (rule peers_reach.start)
  moreover have "get_addr [0, 0, 0, 0, 1] empty_peers = None"
    by (simp add: empty_peers_def get_addr_def left_find_def set_callback_def peers_init_def)
  ultimately show ?thesis using first_address_wins [of empty_peers ?es] by force
qed

subsection \<open>Expiry\<close>

lemma add_nodes_entry:
  assumes "peers_inv s" "left_find i (m_map s) = Some (j, a)" "p_session j = 0" "add_nodes es s = Some s'"
  shows "peers_inv s' \<and> left_find i (m_map s') = Some (j, a)"
  using assms
proof (induction es arbitrary: s)
  case (Cons e es)
  obtain k now session n where e: "e = (k, now, session, n)" by (cases e) auto
  obtain b m where
    add: "add_node_session now (inet_node k n) session s = Some (b, s\<lparr>m_map := m, called := called s @ (if b then [inet_node k n] else [])\<rparr>)"
    and m: "map_added now (inet_node k n) session (m_map s) b m"
    using add_inet_node [OF Cons.prems(1), of now k n session] by blast
  let ?s = "s\<lparr>m_map := m, called := called s @ (if b then [inet_node k n] else [])\<rparr>"
  have "p_id j = i" using Cons.prems(2) by (auto simp: left_find_def find_Some_iff)
  then have "left_find i m = Some (j, a)"
    using m Cons.prems(2,3)
    by (cases "k = i") (auto simp: map_added_def new_entry_def left_find_append left_find_set_time split: option.splits if_splits)
  moreover have "peers_inv ?s" by (rule peers_inv_add [OF Cons.prems(1) _ add]) (simp add: addr_ok_def)
  ultimately show ?case using Cons.IH [of ?s] Cons.prems(3,4) e add by simp
qed simp

text \<open>An entry made without a session expires \<open>map_ttl\<close> seconds after it was made,
  however often the node is seen in between: adding a known node again does not renew its time.\<close>

lemma entry_expires_despite_renewal:
  assumes reach: "peers_reach s" and i: "left_find i (m_map s) = Some (j, a)" "p_session j = 0"
    and add: "add_nodes es s = Some s'"
  shows "get_addr i (refresh now s') = (if now - p_t j > map_ttl then None else get_addr i s)"
proof -
  have s': "peers_inv s'" "left_find i (m_map s') = Some (j, a)" using add_nodes_entry [OF peers_reach_inv [OF reach] i add] by auto
  then have "distinct (map (p_id \<circ> fst) (m_map s'))" by (simp add: peers_inv_def)
  then have "left_find i (m_map (refresh now s')) = (if now - p_t j > map_ttl then None else Some (j, a))"
    using left_find_filter [OF _ s'(2)] by (simp add: refresh_def)
  then show ?thesis using i(1) by (simp add: get_addr_def)
qed

definition one_peer :: peers where
  "one_peer = empty_peers\<lparr>m_map := [(\<lparr>p_id = [0, 0, 0, 0, 1], p_t = 5, p_session = 0\<rparr>, (domain_inet, In \<lparr>sin_port = 1, sin_addr = 7\<rparr>))],
     called := [inet_node [0, 0, 0, 0, 1] \<lparr>sin_port = 1, sin_addr = 7\<rparr>]\<rparr>"

lemmas peers_eval = empty_peers_def set_callback_def peers_init_def add_node_session_def accept_node_def call_back_def
  bimap_insert_def right_ok_def left_find_def inet_node_def domain_defs

lemma one_peer_reach: "peers_reach one_peer"
proof -
  have "peers_reach empty_peers" unfolding empty_peers_def by (rule peers_reach.start)
  moreover have "add_node_session 5 (inet_node [0, 0, 0, 0, 1] \<lparr>sin_port = 1, sin_addr = 7\<rparr>) 0 empty_peers = Some (True, one_peer)"
    by (simp add: one_peer_def peers_eval)
  ultimately show ?thesis
    using peers_step.add [of "inet_node [0, 0, 0, 0, 1] \<lparr>sin_port = 1, sin_addr = 7\<rparr>"] by (auto intro: peers_reach.run simp: addr_ok_def)
qed

lemma entry_expires_despite_renewal_witness:
  "\<exists>s'. add_nodes [([0, 0, 0, 0, 1], 300, 0, \<lparr>sin_port = 1, sin_addr = 7\<rparr>)] one_peer = Some s' \<and> get_addr [0, 0, 0, 0, 1] (refresh 306 s') = None"
proof -
  let ?es = "[([0, 0, 0, 0, 1], 300, 0, \<lparr>sin_port = 1, sin_addr = 7\<rparr>)]"
  have find: "left_find [0, 0, 0, 0, 1] (m_map one_peer) =
      Some (\<lparr>p_id = [0, 0, 0, 0, 1], p_t = 5, p_session = 0\<rparr>, (domain_inet, In \<lparr>sin_port = 1, sin_addr = 7\<rparr>))"
    by (simp add: one_peer_def left_find_def)
  obtain s' where s': "add_nodes ?es one_peer = Some s'" by (simp add: one_peer_def peers_eval)
  from entry_expires_despite_renewal [OF one_peer_reach find _ s', of 306] show ?thesis using s' by (simp add: map_ttl_def)
qed

subsection \<open>Time-outs\<close>

text \<open>No time-out is ever recorded: \<open>add_timeout\<close> gives up unless the node is
  recorded already, so it never changes anything and \<open>is_timeout\<close> is false for every node.\<close>

lemma timeouts_never_recorded:
  assumes "peers_reach s"
  shows "\<not> is_timeout i s \<and> add_timeout now i s = s"
  using peers_reach_inv [OF assms] by (auto simp: peers_inv_def is_timeout_def add_timeout_def)

lemma timeouts_never_recorded_witness: "\<not> is_timeout [0, 0, 0, 0, 1] one_peer \<and> add_timeout 9 [0, 0, 0, 0, 1] one_peer = one_peer"
  by (rule timeouts_never_recorded [OF one_peer_reach])

text \<open>The test that should reject unknown domains rejects exactly the IPv6 nodes.\<close>

lemma add_node_inet6_ignored: "ca_domain addr = domain_inet6 \<Longrightarrow> add_node_session now addr session s = Some (False, s)"
  by (simp add: add_node_session_def domain_defs)

subsection \<open>Iteration\<close>

lemma dropWhile_ids:
  assumes "distinct (map (p_id \<circ> fst) es)" "k < length es"
  shows "dropWhile (\<lambda>(j, a). p_id j \<noteq> p_id (fst (es ! k))) es = drop k es"
  using assms
proof (induction es arbitrary: k)
  case (Cons e es)
  show ?case
  proof (cases k)
    case (Suc l)
    then have "p_id (fst e) \<noteq> p_id (fst (es ! l))" using Cons.prems by (auto simp: in_set_conv_nth) (metis nth_mem image_eqI comp_apply)
    then show ?thesis using Cons Suc by (cases e) auto
  qed (cases e, simp)
qed simp

lemma get_addr_iff:
  assumes "distinct (map (p_id \<circ> fst) (m_map s))"
  shows "get_addr (ca_id c) s = Some c \<longleftrightarrow> c \<in> entry_addr ` set (m_map s)"
proof
  assume "get_addr (ca_id c) s = Some c"
  then obtain j a where find: "left_find (ca_id c) (m_map s) = Some (j, a)" and c: "c = \<lparr>ca_id = ca_id c, ca_domain = fst a, ca_saddr = snd a\<rparr>"
    by (auto simp: get_addr_def split: Option.bind_splits)
  have e: "(j, a) \<in> set (m_map s)" "p_id j = ca_id c" using find left_find_iff [OF assms] by auto
  then have "c = entry_addr (j, a)" using c by (simp add: entry_addr_def)
  then show "c \<in> entry_addr ` set (m_map s)" using e(1) by blast
next
  assume "c \<in> entry_addr ` set (m_map s)"
  then obtain j a where e: "(j, a) \<in> set (m_map s)" "c = entry_addr (j, a)" by auto
  then have "left_find (ca_id c) (m_map s) = Some (j, a)" using left_find_iff [OF assms] by (simp add: entry_addr_def)
  then show "get_addr (ca_id c) s = Some c" using e(2) by (simp add: get_addr_def entry_addr_def)
qed

text \<open>Whatever the order of the hash table, \<open>get_first\<close> and \<open>get_next\<close> walk through
  all the entries, each once: the first, then for every entry the next one, and past the last
  one they throw.\<close>

lemma iteration_visits_every_entry:
  assumes reach: "peers_reach s" and order: "mset (order (m_map s)) = mset (m_map s)"
  shows "get_first order s = (if m_map s = [] then None else Some (entry_addr (order (m_map s) ! 0))) \<and>
    (\<forall>k < length (m_map s). get_next order (ca_id (entry_addr (order (m_map s) ! k))) s =
       (if Suc k < length (m_map s) then Some (entry_addr (order (m_map s) ! Suc k)) else None)) \<and>
    set (map entry_addr (order (m_map s))) = {c. get_addr (ca_id c) s = Some c}"
proof -
  let ?es = "order (m_map s)"
  have inv: "peers_inv s" by (rule peers_reach_inv [OF reach])
  have len: "length ?es = length (m_map s)" and es: "set ?es = set (m_map s)"
    using order by (metis size_mset, metis set_mset_mset)
  have d: "distinct (map (p_id \<circ> fst) (m_map s))" using inv by (simp add: peers_inv_def)
  have "mset (map (p_id \<circ> fst) ?es) = mset (map (p_id \<circ> fst) (m_map s))" using order by simp
  then have ids: "distinct (map (p_id \<circ> fst) ?es)" using d by (metis mset_eq_imp_distinct_iff)
  have "get_next order (ca_id (entry_addr (?es ! k))) s = (if Suc k < length (m_map s) then Some (entry_addr (?es ! Suc k)) else None)"
    if "k < length (m_map s)" for k
  proof -
    have "dropWhile (\<lambda>(j, a). p_id j \<noteq> ca_id (entry_addr (?es ! k))) ?es = ?es ! k # drop (Suc k) ?es"
      using dropWhile_ids [OF ids] that len by (simp add: entry_addr_def Cons_nth_drop_Suc)
    then show ?thesis
      using len by (cases "Suc k < length ?es") (simp_all add: get_next_def Cons_nth_drop_Suc [symmetric])
  qed
  moreover have "get_first order s = (if m_map s = [] then None else Some (entry_addr (?es ! 0)))"
    using len by (cases ?es) (auto simp: get_first_def)
  moreover have "set (map entry_addr ?es) = {c. get_addr (ca_id c) s = Some c}"
    using get_addr_iff [OF d] by (simp add: es set_eq_iff)
  ultimately show ?thesis by blast
qed

lemma iteration_visits_every_entry_witness:
  "get_first rev one_peer = Some (inet_node [0, 0, 0, 0, 1] \<lparr>sin_port = 1, sin_addr = 7\<rparr>) \<and> get_next rev [0, 0, 0, 0, 1] one_peer = None"
  using iteration_visits_every_entry [OF one_peer_reach, of rev] by (simp add: one_peer_def entry_addr_def inet_node_def)

end
