(* ===== verification/Natdetector_Props.thy ===== *)
theory Natdetector_Props
  imports Natdetector Peers_Props
begin

section \<open>Properties of NAT detection\<close>

text \<open>
  In every state the pending timers and sockets are those the state waits for; two nodes
  that exchange their datagrams find out whether the first is reachable from outside, and by
  the ports two peers see, which kind of NAT it is behind.
\<close>

subsection \<open>Reachable states\<close>

definition nat_pending :: "natdetector \<Rightarrow> bool" where
  "nat_pending s \<longleftrightarrow>
     (case nd_state s of
        echo_wait1 \<Rightarrow> (\<exists>n. nd_timers s = [n \<mapsto> timer_echo_wait1]) \<and> nd_reply s = Map.empty \<and> nd_udps s = {}
      | echo_wait2 \<Rightarrow> (\<exists>n q. nd_timers s = [n \<mapsto> timer_echo_wait2] \<and> nd_reply s = [n \<mapsto> q]) \<and> nd_udps s = {}
      | echo_redirect_wait \<Rightarrow> nd_timers s = Map.empty \<and> nd_reply s = Map.empty \<and> (\<exists>n. nd_udps s \<subseteq> {n})
      | _ \<Rightarrow> nd_timers s = Map.empty \<and> nd_reply s = Map.empty \<and> nd_udps s = {})"

text \<open>
  The setters are meant for nodes that know their state; they are steps when no detection is
  pending.  The second sockets are the only source of \<open>recv_echo_redirect_reply\<close>.
\<close>

inductive nat_step :: "natdetector \<Rightarrow> natdetector \<Rightarrow> bool" where
  detect: "domain \<noteq> domain_inet6 \<Longrightarrow> detect domain to s = Some s' \<Longrightarrow> nat_step s s'"
| ask: "detect_nat to s = Some s' \<Longrightarrow> nat_step s s'"
| ask_type: "detect_nat_type to1 to2 s = Some s' \<Longrightarrow> nat_step s s'"
| echo: "recv_echo msg from s = Some s' \<Longrightarrow> nat_step s s'"
| redirect: "recv_echo_redirect msg from s = Some s' \<Longrightarrow> nat_step s s'"
| reply: "recv_echo_reply order p msg from s = Some s' \<Longrightarrow> nat_step s s'"
| socket: "n \<in> nd_udps s \<Longrightarrow> udp_receiver order p n pbuf s = Some s' \<Longrightarrow> nat_step s s'"
| echo_timer: "timer_echo n s = Some s' \<Longrightarrow> nat_step s s'"
| nat_timer: "timer_nat order p s = Some s' \<Longrightarrow> nat_step s s'"
| known: "nd_state s \<notin> {echo_wait1, echo_wait2, echo_redirect_wait} \<Longrightarrow>
    f \<in> {set_state_global, set_state_nat, set_state_cone_nat, set_state_symmetric_nat} \<Longrightarrow> nat_step s (f s)"

inductive_cases nat_stepE: "nat_step s s'"

inductive nat_reach :: "natdetector \<Rightarrow> bool" where
  start: "nat_reach (natdetector_init me rs ps)"
| run: "nat_reach s \<Longrightarrow> nat_step s s' \<Longrightarrow> nat_reach s'"

inductive nat_steps :: "natdetector \<Rightarrow> natdetector \<Rightarrow> bool" where
  stay: "nat_steps s s"
| move: "nat_steps s s' \<Longrightarrow> nat_step s' s'' \<Longrightarrow> nat_steps s s''"

abbreviation waits :: "nat_state set" where
  "waits \<equiv> {echo_wait1, echo_wait2, echo_redirect_wait}"

lemma pending_wait1I: "nd_state s = echo_wait1 \<Longrightarrow> nd_timers s = [n \<mapsto> timer_echo_wait1] \<Longrightarrow> nd_reply s = Map.empty \<Longrightarrow> nd_udps s = {} \<Longrightarrow> nat_pending s"
  unfolding nat_pending_def by simp blast

lemma pending_wait2I: "nd_state s = echo_wait2 \<Longrightarrow> nd_timers s = [n \<mapsto> timer_echo_wait2] \<Longrightarrow> nd_reply s = [n \<mapsto> q] \<Longrightarrow> nd_udps s = {} \<Longrightarrow> nat_pending s"
  unfolding nat_pending_def by simp blast

lemma pending_redirectI: "nd_state s = echo_redirect_wait \<Longrightarrow> nd_timers s = Map.empty \<Longrightarrow> nd_reply s = Map.empty \<Longrightarrow> nd_udps s \<subseteq> {n} \<Longrightarrow> nat_pending s"
  unfolding nat_pending_def by simp blast

lemma pending_idle: "nd_state s \<notin> waits \<Longrightarrow> nat_pending s \<longleftrightarrow> nd_timers s = Map.empty \<and> nd_reply s = Map.empty \<and> nd_udps s = {}"
  unfolding nat_pending_def by (cases "nd_state s") simp_all

lemma pending_wait1E:
  assumes "nat_pending s" "nd_state s = echo_wait1"
  obtains n where "nd_timers s = [n \<mapsto> timer_echo_wait1]" "nd_reply s = Map.empty" "nd_udps s = {}"
  using assms unfolding nat_pending_def by auto

lemma pending_wait2E:
  assumes "nat_pending s" "nd_state s = echo_wait2"
  obtains n q where "nd_timers s = [n \<mapsto> timer_echo_wait2]" "nd_reply s = [n \<mapsto> q]" "nd_udps s = {}"
  using assms unfolding nat_pending_def by auto

lemma pending_redirectE:
  assumes "nat_pending s" "nd_state s = echo_redirect_wait"
  obtains n where "nd_timers s = Map.empty" "nd_reply s = Map.empty" "nd_udps s \<subseteq> {n}"
  using assms unfolding nat_pending_def by auto

lemma pending_frame:
  assumes "nat_pending s" "nd_state s' = nd_state s" "nd_timers s' = nd_timers s" "nd_reply s' = nd_reply s" "nd_udps s' = nd_udps s"
  shows "nat_pending s'"
  using assms(1) unfolding nat_pending_def assms(2-5) .

lemma join_dht_frame:
  assumes "join_dht order p s = Some s'"
  shows "nd_state s' = nd_state s" "nd_timers s' = nd_timers s" "nd_reply s' = nd_reply s" "nd_udps s' = nd_udps s"
    "nd_global_port s' = nd_global_port s" "nd_global_addr s' = nd_global_addr s" "nd_registers s' = nd_registers s"
  using assms by (auto simp: join_dht_def split: option.splits Option.bind_splits)

lemma get_echo_spec:
  assumes p: "nat_pending s" "nd_state s = nat_undefined" and s': "get_echo s = Some (m, s')"
  shows "nat_pending s'" "nd_state s' = echo_wait1"
proof -
  have e: "nd_timers s = Map.empty" "nd_reply s = Map.empty" "nd_udps s = {}" using p pending_idle by simp_all
  obtain n rs where "s' = s\<lparr>nd_rnds := rs, nd_timers := (nd_timers s)(n \<mapsto> timer_echo_wait1), nd_state := echo_wait1\<rparr>"
    using s' by (auto simp: get_echo_def split: Option.bind_splits)
  then show "nat_pending s'" "nd_state s' = echo_wait1" using e by (auto intro: pending_wait1I)
qed

lemma pending_detect_nat:
  assumes p: "nat_pending s" and s': "detect_nat to s = Some s'"
  shows "nat_pending s'"
proof (cases "nd_state s = nat_undefined")
  case True
  then obtain m s1 where "get_echo s = Some (m, s1)" "s' = s1\<lparr>nd_out := nd_out s1 @ [(m, to)]\<rparr>"
    using s' by (auto simp: detect_nat_def split: Option.bind_splits)
  then show ?thesis using get_echo_spec [OF p True] by (auto intro: pending_frame)
qed (use assms in \<open>simp add: detect_nat_def\<close>)

lemma pending_detect:
  assumes p: "nat_pending s" and d: "domain \<noteq> domain_inet6" and s': "detect domain to s = Some s'"
  shows "nat_pending s'"
proof (cases "nd_state s = nat_undefined")
  case True
  let ?s = "s\<lparr>nd_timer_nat := False\<rparr>"
  obtain m s1 where e: "get_echo ?s = Some (m, s1)"
    and s1: "s' = (case to of None \<Rightarrow> s1 | Some a \<Rightarrow> s1\<lparr>nd_out := nd_out s1 @ [(m, a)]\<rparr>)\<lparr>nd_timer_nat := True\<rparr>"
    using s' d True by (auto simp: detect_def detect_nat_host_def split: Option.bind_splits)
  have "nat_pending s1" using get_echo_spec [OF _ _ e] pending_frame [OF p, of ?s] True by simp
  then show ?thesis unfolding s1 by (rule pending_frame) (simp_all split: option.splits)
next
  case False
  then have "s' = s \<or> s' = s\<lparr>nd_timer_nat := True\<rparr>" using s' d by (auto simp: detect_def detect_nat_host_def split: if_splits)
  then show ?thesis using pending_frame [OF p] by auto
qed

lemma pending_detect_nat_type:
  assumes p: "nat_pending s" and s': "detect_nat_type a b s = Some s'"
  shows "nat_pending s'"
proof (cases "nd_state s = nat_nat")
  case True
  then have e: "nd_timers s = Map.empty" "nd_reply s = Map.empty" "nd_udps s = {}" using p pending_idle by simp_all
  obtain n rs m where "s' = s\<lparr>nd_rnds := rs, nd_out := nd_out s @ [(m, a), (m, b)], nd_timers := (nd_timers s)(n \<mapsto> timer_echo_wait2),
      nd_reply := (nd_reply s)(n \<mapsto> 0), nd_state := echo_wait2\<rparr>"
    using s' True by (auto simp: detect_nat_type_def split: Option.bind_splits)
  then show ?thesis using e by (auto intro: pending_wait2I)
qed (use assms in \<open>simp add: detect_nat_type_def\<close>)

lemma pending_reply_wait1:
  assumes p: "nat_pending s" "nd_state s = echo_wait1" and s': "recv_echo_reply_wait1 msg from s = Some s'"
  shows "nat_pending s'" "nd_state s' \<noteq> echo_wait2"
proof -
  obtain n where n: "nd_timers s = [n \<mapsto> timer_echo_wait1]" "nd_reply s = Map.empty" "nd_udps s = {}" using pending_wait1E [OF p] .
  have "s' = s \<or> (\<exists>n2. nd_state s' = echo_redirect_wait \<and> nd_timers s' = Map.empty \<and> nd_reply s' = Map.empty \<and> nd_udps s' = {n2})"
    using s' n by (auto simp: recv_echo_reply_wait1_def Let_def split: if_splits Option.bind_splits list.splits)
  then show "nat_pending s'" "nd_state s' \<noteq> echo_wait2" using p by (auto intro: pending_redirectI)
qed

lemma pending_join:
  assumes "join_dht order ps s = Some s'" "nd_state s \<notin> waits" "nd_timers s = Map.empty" "nd_reply s = Map.empty" "nd_udps s = {}"
  shows "nat_pending s'"
  using join_dht_frame [OF assms(1)] assms(2-5) pending_idle [of s'] by simp

lemma pending_reply_wait2:
  assumes p: "nat_pending s" "nd_state s = echo_wait2" and s': "recv_echo_reply_wait2 order ps msg s = Some s'"
  shows "nat_pending s'"
proof -
  obtain n q where n: "nd_timers s = [n \<mapsto> timer_echo_wait2]" "nd_reply s = [n \<mapsto> q]" "nd_udps s = {}" using pending_wait2E [OF p] .
  let ?forget = "s\<lparr>nd_reply := Map.empty, nd_timers := Map.empty\<rparr>" and ?port = "u16_at 54 msg"
  have eq: "(if u32_at 48 msg \<noteq> n then Some s else if q = 0 then Some (s\<lparr>nd_reply := [n \<mapsto> ?port]\<rparr>)
      else if q = ?port then join_dht order ps (?forget\<lparr>nd_state := cone_nat\<rparr>)
      else Some (?forget\<lparr>nd_state := symmetric_nat, nd_registers := nd_registers s + 1\<rparr>)) = Some s'"
    using s' n by (cases "u32_at 48 msg = n") (auto simp: recv_echo_reply_wait2_def Let_def split: if_splits)
  consider "u32_at 48 msg \<noteq> n" | "u32_at 48 msg = n" "q = 0" | "u32_at 48 msg = n" "q \<noteq> 0" "q = ?port"
    | "u32_at 48 msg = n" "q \<noteq> 0" "q \<noteq> ?port" by blast
  then show ?thesis
  proof cases
    case 1
    then show ?thesis using eq p(1) by simp
  next
    case 2
    then have "s' = s\<lparr>nd_reply := [n \<mapsto> ?port]\<rparr>" using eq by simp
    then show ?thesis using n p(2) by (intro pending_wait2I [of _ n]) simp_all
  next
    case 3
    then have "join_dht order ps (?forget\<lparr>nd_state := cone_nat\<rparr>) = Some s'" using eq by simp
    then show ?thesis by (rule pending_join) (simp_all add: n(3))
  next
    case 4
    then have "s' = ?forget\<lparr>nd_state := symmetric_nat, nd_registers := nd_registers s + 1\<rparr>" using eq by simp
    then show ?thesis using n(3) by (simp add: pending_idle)
  qed
qed

lemma pending_reply:
  assumes p: "nat_pending s" and s': "recv_echo_reply order ps msg from s = Some s'"
  shows "nat_pending s'"
proof (cases "nd_state s = echo_wait1")
  case True
  then obtain s1 where s1: "recv_echo_reply_wait1 msg from s = Some s1" using s' by (auto simp: recv_echo_reply_def split: Option.bind_splits)
  then show ?thesis using pending_reply_wait1 [OF p True s1] s' True by (simp add: recv_echo_reply_def)
next
  case False
  then show ?thesis using s' pending_reply_wait2 [OF p] p by (cases "nd_state s = echo_wait2") (simp_all add: recv_echo_reply_def)
qed

lemma udps_redirect_wait:
  assumes p: "nat_pending s" and n: "n \<in> nd_udps s"
  shows "nd_state s = echo_redirect_wait \<and> nd_udps s = {n}"
proof -
  have "nd_state s = echo_redirect_wait"
    using p n by (cases "nd_state s") (auto simp: pending_idle elim: pending_wait1E pending_wait2E)
  moreover then obtain k where "nd_udps s \<subseteq> {k}" using p by (auto elim: pending_redirectE)
  ultimately show ?thesis using n by auto
qed

lemma pending_socket:
  assumes p: "nat_pending s" and n: "n \<in> nd_udps s" and s': "udp_receiver order ps n pbuf s = Some s'"
  shows "nat_pending s'"
proof -
  have w: "nd_state s = echo_redirect_wait" "nd_udps s = {n}" using udps_redirect_wait [OF p n] by auto
  then have e: "nd_timers s = Map.empty" "nd_reply s = Map.empty" using p pending_redirectE by blast+
  have answer: "nd_timers s1 = Map.empty \<and> nd_reply s1 = Map.empty \<and> nd_udps s1 = {n} \<and> nd_state s1 \<in> {nat_undefined, nat_global}"
    if "recv_echo_redirect_reply order ps msg s = Some s1" for msg s1
  proof (cases "u32_at 48 msg = n")
    case True
    then have "join_dht order ps (s\<lparr>nd_global_port := u16_at 54 msg, nd_global_addr := Some (take 16 (drop 56 msg)), nd_state := nat_global\<rparr>) = Some s1"
      using that w by (simp add: recv_echo_redirect_reply_def)
    from join_dht_frame [OF this] show ?thesis using w e by simp
  next
    case False
    then have "s\<lparr>nd_state := nat_undefined\<rparr> = s1" using that w by (simp add: recv_echo_redirect_reply_def)
    then show ?thesis using w e by (metis insertI1 natdetector.select_convs(2-5) natdetector.surjective natdetector.update_convs(2))
  qed
  obtain s1 where "s' = s1\<lparr>nd_udps := {}\<rparr>" "nd_timers s1 = Map.empty" "nd_reply s1 = Map.empty"
    "nd_state s1 \<in> {echo_redirect_wait, nat_nat, nat_undefined, nat_global}"
  proof (cases pbuf)
    case None
    then show ?thesis using s' w e that [of "s\<lparr>nd_state := nat_nat\<rparr>"] by (simp add: udp_receiver_def)
  next
    case (Some msg)
    consider (reply) s1 where "recv_echo_redirect_reply order ps msg s = Some s1" "s' = s1\<lparr>nd_udps := nd_udps s1 - {n}\<rparr>"
      | (other) "s' = s\<lparr>nd_udps := nd_udps s - {n}\<rparr>" | (short) "s' = s\<lparr>nd_state := nat_undefined, nd_udps := nd_udps s - {n}\<rparr>"
      using s' Some unfolding udp_receiver_def by (cases "length msg = echo_redirect_reply_size";
          cases "hd_type (hdr_at msg) = type_nat_echo_redirect_reply") (auto split: Option.bind_splits)
    then show ?thesis
    proof cases
      case (reply s1)
      then show ?thesis using that [of s1] answer [OF reply(1)] by auto
    next
      case other
      then show ?thesis using that [of s] w e by simp
    next
      case short
      then show ?thesis using that [of "s\<lparr>nd_state := nat_undefined\<rparr>"] w e by simp
    qed
  qed
  then show ?thesis by (auto simp: pending_idle intro: pending_redirectI)
qed

lemma pending_timer_echo:
  assumes p: "nat_pending s" and s': "timer_echo n s = Some s'"
  shows "nat_pending s'"
proof -
  obtain t where t: "nd_timers s n = Some t" using s' by (auto simp: timer_echo_def split: Option.bind_splits)
  have "nd_state s = echo_wait1 \<or> nd_state s = echo_wait2"
    using p t by (cases "nd_state s") (auto simp: pending_idle elim: pending_redirectE)
  then show ?thesis
  proof
    assume "nd_state s = echo_wait1"
    obtain k where "nd_timers s = [k \<mapsto> timer_echo_wait1]" "nd_reply s = Map.empty" "nd_udps s = {}"
      using pending_wait1E [OF p \<open>nd_state s = echo_wait1\<close>] .
    then show ?thesis using s' t by (auto simp: timer_echo_def pending_idle split: if_splits)
  next
    assume "nd_state s = echo_wait2"
    obtain k q where "nd_timers s = [k \<mapsto> timer_echo_wait2]" "nd_reply s = [k \<mapsto> q]" "nd_udps s = {}"
      using pending_wait2E [OF p \<open>nd_state s = echo_wait2\<close>] .
    then show ?thesis using s' t by (auto simp: timer_echo_def pending_idle split: if_splits)
  qed
qed

lemma pending_timer_nat:
  assumes p: "nat_pending s" and s': "timer_nat order ps s = Some s'"
  shows "nat_pending s'"
proof -
  have base: "nat_pending (s\<lparr>nd_timer_nat := b\<rparr>)" for b by (rule pending_frame [OF p]) simp_all
  show ?thesis
    using s' base pending_detect_nat [OF base] pending_detect_nat_type [OF base]
    by (auto simp: timer_nat_def Let_def split: if_splits option.splits Option.bind_splits)
qed

lemma pending_out: "nat_pending s \<Longrightarrow> nat_pending (s\<lparr>nd_out := out\<rparr>)"
  by (rule pending_frame) simp_all

lemma pending_known:
  assumes "nat_pending s" "nd_state s \<notin> waits" "f \<in> {set_state_global, set_state_nat, set_state_cone_nat, set_state_symmetric_nat}"
  shows "nat_pending (f s)"
  using assms by (auto simp: pending_idle set_state_global_def set_state_nat_def set_state_cone_nat_def set_state_symmetric_nat_def)

lemma nat_step_pending: "nat_step s s' \<Longrightarrow> nat_pending s \<Longrightarrow> nat_pending s'"
proof (induction rule: nat_step.induct)
  case (echo msg "from" s s')
  then show ?case by (auto simp: recv_echo_def intro: pending_out split: Option.bind_splits)
next
  case (redirect msg "from" s s')
  then show ?case by (auto simp: recv_echo_redirect_def intro: pending_out split: Option.bind_splits)
qed (blast intro: pending_detect pending_detect_nat pending_detect_nat_type pending_reply pending_socket pending_timer_echo
      pending_timer_nat pending_known)+

lemma nat_reach_pending: "nat_reach s \<Longrightarrow> nat_pending s"
  by (induction rule: nat_reach.induct) (auto intro: nat_step_pending, simp add: pending_idle natdetector_init_def)


subsection \<open>A detection that never ends\<close>

text \<open>With the second socket gone, nothing leaves \<open>echo_redirect_wait\<close>.\<close>

lemma redirect_wait_stuck_step:
  assumes "nat_step s s'" "nat_pending s" "nd_state s = echo_redirect_wait" "nd_udps s = {}"
  shows "nd_state s' = echo_redirect_wait \<and> nd_udps s' = {}"
proof -
  have t: "nd_timers s = Map.empty" using assms(2,3) by (auto elim: pending_redirectE)
  from assms(1) show ?thesis
    by (cases rule: nat_step.cases)
      (use assms(3,4) t in \<open>auto simp: detect_def detect_nat_host_def detect_nat_def detect_nat_type_def recv_echo_def
        recv_echo_redirect_def recv_echo_reply_def timer_echo_def timer_nat_def Let_def split: Option.bind_splits\<close>)
qed

lemma redirect_wait_stuck:
  assumes "nat_steps s s'" "nat_pending s" "nd_state s = echo_redirect_wait" "nd_udps s = {}"
  shows "nat_pending s' \<and> nd_state s' = echo_redirect_wait \<and> nd_udps s' = {}"
  using assms by (induction rule: nat_steps.induct) (auto dest: redirect_wait_stuck_step nat_step_pending)

text \<open>A datagram of the size of a redirect reply but of another type, such as an
  echo reply, that reaches the second socket closes it without leaving the state: from then
  on no message and no timer changes the state again, and the node never learns whether it is
  behind a NAT.\<close>

lemma detection_can_get_stuck:
  assumes reach: "nat_reach s" and n: "n \<in> nd_udps s"
    and msg: "length msg = echo_redirect_reply_size" "hd_type (hdr_at msg) \<noteq> type_nat_echo_redirect_reply"
  shows "\<exists>s1. udp_receiver order p n (Some msg) s = Some s1 \<and>
    (\<forall>s2. nat_steps s1 s2 \<longrightarrow> nd_state s2 = echo_redirect_wait \<and> get_state s2 = node_undefined)"
proof -
  have w: "nd_state s = echo_redirect_wait" "nd_udps s = {n}" using udps_redirect_wait [OF nat_reach_pending [OF reach] n] by auto
  let ?s1 = "s\<lparr>nd_udps := {}\<rparr>"
  have s1: "udp_receiver order p n (Some msg) s = Some ?s1" using msg w by (simp add: udp_receiver_def)
  have "nat_pending ?s1" by (rule pending_socket [OF nat_reach_pending [OF reach] n s1])
  then show ?thesis using s1 redirect_wait_stuck [of ?s1] w by (auto simp: get_state_def)
qed

subsection \<open>Two nodes and the network between them\<close>

text \<open>What the receiver reads from the messages.\<close>

lemma hdr_fields:
  assumes "length me = 5" "length dst = 5" "hdr_bytes (new_hdr ty n me dst) = Some h"
  shows "length h = 48" "hdr_at (h @ rest) = new_hdr ty n me dst" "hd_src (hdr_at (h @ rest)) = me" "hd_type (hdr_at (h @ rest)) = ty"
  using hdr_roundtrip [of "new_hdr ty n me dst" rest] assms by (auto simp: new_hdr_def hdr_size_def)

lemma hdr_total: "length me = 5 \<Longrightarrow> length dst = 5 \<Longrightarrow> \<exists>h. hdr_bytes (new_hdr ty n me dst) = Some h"
  by (simp add: hdr_bytes_def new_hdr_def id_bytes_eq)

lemma echo_fields:
  assumes "length me = 5"
  shows "\<exists>m. msg_nat_echo me nonce = Some m \<and> hd_src (hdr_at m) = me \<and> u32_at 48 m = nonce"
proof -
  obtain h where h: "hdr_bytes (new_hdr type_nat_echo echo_size me (replicate 5 0)) = Some h" using hdr_total [OF assms] by force
  note f = hdr_fields [OF assms _ h]
  show ?thesis using h f at_append(2) [of h 48] at_head(2) [of nonce "[]"] by (simp add: msg_nat_echo_def)
qed

lemma length_seen_addr:
  assumes "from = In a" shows "length (snd (snd (seen_addr from))) = 16"
  using assms by (simp add: seen_addr_def)

lemma reply_layout:
  assumes h: "length h = 48" and d: "length d = 2"
  shows "u32_at 48 (h @ htonl_bytes n @ d @ htons_bytes p @ addr) = n" "u16_at 54 (h @ htonl_bytes n @ d @ htons_bytes p @ addr) = p"
    "drop 56 (h @ htonl_bytes n @ d @ htons_bytes p @ addr) = addr"
  using h d at_append(2) [of h 48] at_append(1) [of h 54] at_append(1) [of "htonl_bytes n" 6] at_append(1) [of d 2]
    at_head(1) [of p addr] at_head(2) [of n "d @ htons_bytes p @ addr"]
  by simp_all

lemma echo_reply_fields:
  assumes "length me = 5" "length dst = 5"
  shows "\<exists>m. msg_nat_echo_reply me dst nonce (In a) = Some m \<and> hd_src (hdr_at m) = me \<and> u32_at 48 m = nonce \<and> u16_at 54 m = sin_port a"
proof -
  obtain h where h: "hdr_bytes (new_hdr type_nat_echo_reply echo_reply_size me dst) = Some h" using hdr_total [OF assms] by force
  note f = hdr_fields [OF assms h]
  show ?thesis
    using h f reply_layout [OF f(1), of "htons_bytes domain_inet" nonce "sin_port a" "htonl_bytes (sin_addr a) @ replicate 12 0"]
    by (simp add: msg_nat_echo_reply_def seen_addr_def del: replicate.simps)
qed

lemma redirect_reply_fields:
  assumes "length me = 5" "length dst = 5"
  shows "\<exists>m. msg_nat_echo_redirect_reply me dst nonce (In a) = Some m \<and> length m = echo_redirect_reply_size \<and>
    hd_type (hdr_at m) = type_nat_echo_redirect_reply \<and> u32_at 48 m = nonce \<and> u16_at 54 m = sin_port a \<and>
    take 16 (drop 56 m) = htonl_bytes (sin_addr a) @ replicate 12 0"
proof -
  obtain h where h: "hdr_bytes (new_hdr type_nat_echo_redirect_reply echo_redirect_reply_size me dst) = Some h" using hdr_total [OF assms] by force
  note f = hdr_fields [OF assms h]
  have l: "length (host_bytes domain_inet) = 2" by (simp add: host_bytes_def)
  show ?thesis
    using h f l reply_layout [OF f(1) l, of nonce "sin_port a" "htonl_bytes (sin_addr a) @ replicate 12 0"]
    by (simp add: msg_nat_echo_redirect_reply_def seen_addr_def echo_redirect_reply_size_def del: replicate.simps)
qed

lemma redirect_fields:
  assumes "length me = 5" "length dst = 5"
  shows "\<exists>m. msg_nat_echo_redirect me dst nonce port = Some m \<and> hd_src (hdr_at m) = me \<and> u32_at 48 m = nonce \<and> u16_at 52 m = port"
proof -
  obtain h where h: "hdr_bytes (new_hdr type_nat_echo_redirect echo_redirect_size me dst) = Some h" using hdr_total [OF assms] by force
  note f = hdr_fields [OF assms h]
  show ?thesis
    using h f at_append(2) [of h 48] at_append(1) [of h 52] at_append(1) [of "htonl_bytes nonce" 4]
      at_head(1) [of port "[0, 0]"] at_head(2) [of nonce "htons_bytes port @ [0, 0]"]
    by (simp add: msg_nat_echo_redirect_def)
qed

text \<open>The node asks \<open>b\<close> at \<open>to\<close>, which sees it at \<open>a\<close>, and gets its answer.\<close>

lemma echo_exchange:
  assumes reach: "nat_reach s" "nd_state s = nat_undefined" and ids: "length (nd_id s) = 5" "length (nd_id t) = 5"
    and rnd: "nd_rnds s = n1 # n2 # rs" "nd_ports s = q # ps"
  shows "\<exists>s1 m1 t1 m2 s2 m3. detect_nat to s = Some s1 \<and> nd_out s1 = nd_out s @ [(m1, to)] \<and>
    recv_echo m1 (In a) t = Some t1 \<and> nd_out t1 = nd_out t @ [(m2, In a)] \<and> nd_id t1 = nd_id t \<and>
    recv_echo_reply order p m2 to s1 = Some s2 \<and> nd_out s2 = nd_out s1 @ [(m3, to)] \<and>
    nd_state s2 = echo_redirect_wait \<and> nd_udps s2 = {n2} \<and> nd_timers s2 = Map.empty \<and>
    hd_src (hdr_at m3) = nd_id s \<and> u32_at 48 m3 = n2 \<and> u16_at 52 m3 = q"
proof -
  have e: "nd_timers s = Map.empty" "nd_reply s = Map.empty" "nd_udps s = {}"
    using nat_reach_pending [OF reach(1)] reach(2) pending_idle [of s] by simp_all
  obtain m1 where m1: "msg_nat_echo (nd_id s) n1 = Some m1" "hd_src (hdr_at m1) = nd_id s" "u32_at 48 m1 = n1" using echo_fields [OF ids(1)] by blast
  obtain m2 where m2: "msg_nat_echo_reply (nd_id t) (nd_id s) n1 (In a) = Some m2" "hd_src (hdr_at m2) = nd_id t" "u32_at 48 m2 = n1"
    using echo_reply_fields [OF ids(2,1)] by blast
  obtain m3 where m3: "msg_nat_echo_redirect (nd_id s) (nd_id t) n2 q = Some m3" "hd_src (hdr_at m3) = nd_id s" "u32_at 48 m3 = n2" "u16_at 52 m3 = q"
    using redirect_fields [OF ids] by blast
  have "detect_nat to s = Some (s\<lparr>nd_rnds := n2 # rs, nd_timers := [n1 \<mapsto> timer_echo_wait1], nd_state := echo_wait1, nd_out := nd_out s @ [(m1, to)]\<rparr>)"
    using reach(2) e rnd m1(1) by (simp add: detect_nat_def get_echo_def)
  moreover have "recv_echo m1 (In a) t = Some (t\<lparr>nd_out := nd_out t @ [(m2, In a)]\<rparr>)" using m1 m2(1) by (simp add: recv_echo_def)
  ultimately show ?thesis using e rnd m2 m3 by (simp add: recv_echo_reply_def recv_echo_reply_wait1_def Let_def)
qed

definition inet_peers :: "iteration \<Rightarrow> peers \<Rightarrow> bool" where
  "inet_peers order p \<longleftrightarrow> (\<forall>addr. get_first order p = Some addr \<longrightarrow> (\<exists>n. ca_saddr addr = In n))"

lemma join_dht_total: "inet_peers order p \<Longrightarrow> \<exists>s'. join_dht order p s = Some s'"
  by (auto simp: inet_peers_def join_dht_def split: option.splits)

text \<open>Property C27.  The detection of a NAT, played by two nodes: the echo, its reply, the
  redirected echo from the second port and its reply to that port.  If the last datagram
  arrives, the first node is global and knows the address under which the other one sees it;
  if the socket times out instead, it is behind a NAT.\<close>

theorem nat_detected_by_redirect:
  assumes reach: "nat_reach s" "nd_state s = nat_undefined" and ids: "length (nd_id s) = 5" "length (nd_id t) = 5"
    and rnd: "nd_rnds s = n1 # n2 # rs" "nd_ports s = q # ps" and peers: "inet_peers order p"
  shows "\<exists>s1 m1 t1 m2 s2 m3 t2 m4 s3 s4. detect_nat to s = Some s1 \<and> nd_out s1 = nd_out s @ [(m1, to)] \<and>
    recv_echo m1 (In a) t = Some t1 \<and> nd_out t1 = nd_out t @ [(m2, In a)] \<and>
    recv_echo_reply order p m2 to s1 = Some s2 \<and> nd_out s2 = nd_out s1 @ [(m3, to)] \<and>
    recv_echo_redirect m3 (In a) t1 = Some t2 \<and> nd_out t2 = nd_out t1 @ [(m4, In (a\<lparr>sin_port := q\<rparr>))] \<and>
    udp_receiver order p n2 (Some m4) s2 = Some s3 \<and> get_state s3 = node_global \<and> nd_global_port s3 = sin_port a \<and>
      nd_global_addr s3 = Some (htonl_bytes (sin_addr a) @ replicate 12 0) \<and>
    udp_receiver order p n2 None s2 = Some s4 \<and> get_state s4 = node_nat"
proof -
  obtain s1 m1 t1 m2 s2 m3 where x: "detect_nat to s = Some s1 \<and> nd_out s1 = nd_out s @ [(m1, to)] \<and>
    recv_echo m1 (In a) t = Some t1 \<and> nd_out t1 = nd_out t @ [(m2, In a)] \<and> nd_id t1 = nd_id t \<and>
    recv_echo_reply order p m2 to s1 = Some s2 \<and> nd_out s2 = nd_out s1 @ [(m3, to)] \<and>
    nd_state s2 = echo_redirect_wait \<and> nd_udps s2 = {n2} \<and> nd_timers s2 = Map.empty \<and>
    hd_src (hdr_at m3) = nd_id s \<and> u32_at 48 m3 = n2 \<and> u16_at 52 m3 = q"
    using echo_exchange [OF reach ids rnd, of to a order p] by metis
  obtain m4 where m4: "msg_nat_echo_redirect_reply (nd_id t) (nd_id s) n2 (In a) = Some m4" "length m4 = echo_redirect_reply_size"
    "hd_type (hdr_at m4) = type_nat_echo_redirect_reply" "u32_at 48 m4 = n2" "u16_at 54 m4 = sin_port a"
    "take 16 (drop 56 m4) = htonl_bytes (sin_addr a) @ replicate 12 0"
    using redirect_reply_fields [OF ids(2,1)] by blast
  obtain t2 where t2: "recv_echo_redirect m3 (In a) t1 = Some t2" "nd_out t2 = nd_out t1 @ [(m4, In (a\<lparr>sin_port := q\<rparr>))]"
    using x m4(1) by (simp add: recv_echo_redirect_def set_port_def)
  let ?g = "s2\<lparr>nd_global_port := sin_port a, nd_global_addr := Some (htonl_bytes (sin_addr a) @ replicate 12 0), nd_state := nat_global\<rparr>"
  obtain s3 where s3: "join_dht order p ?g = Some s3" using join_dht_total [OF peers] by blast
  have "udp_receiver order p n2 (Some m4) s2 = Some (s3\<lparr>nd_udps := nd_udps s3 - {n2}\<rparr>)"
    using s3 x m4 by (simp add: udp_receiver_def recv_echo_redirect_reply_def)
  moreover have "udp_receiver order p n2 None s2 = Some (s2\<lparr>nd_state := nat_nat, nd_udps := nd_udps s2 - {n2}\<rparr>)"
    by (simp add: udp_receiver_def)
  ultimately show ?thesis using x t2 join_dht_frame [OF s3] by (auto simp: get_state_def)
qed

text \<open>Property C28.  The detection of the kind of NAT, played by three nodes: the two peers
  answer with the port they see, and the node finds a cone NAT if the ports agree and a
  symmetric one, which it registers at a proxy for, if they do not.\<close>

theorem nat_type_by_ports:
  assumes reach: "nat_reach s" "nd_state s = nat_nat" and ids: "length (nd_id s) = 5" "length (nd_id t1) = 5" "length (nd_id t2) = 5"
    and rnd: "nd_rnds s = n # rs" and port: "sin_port a1 \<noteq> 0" and peers: "inet_peers order p"
  shows "\<exists>s1 m t1' m1 t2' m2 s2 s3. detect_nat_type to1 to2 s = Some s1 \<and> nd_out s1 = nd_out s @ [(m, to1), (m, to2)] \<and>
    recv_echo m (In a1) t1 = Some t1' \<and> nd_out t1' = nd_out t1 @ [(m1, In a1)] \<and>
    recv_echo m (In a2) t2 = Some t2' \<and> nd_out t2' = nd_out t2 @ [(m2, In a2)] \<and>
    recv_echo_reply order p m1 to1 s1 = Some s2 \<and> recv_echo_reply order p m2 to2 s2 = Some s3 \<and>
    get_state s3 = (if sin_port a1 = sin_port a2 then node_cone else node_symmetric) \<and>
    nd_registers s3 = nd_registers s + (if sin_port a1 = sin_port a2 then 0 else 1) \<and> nd_timers s3 = Map.empty"
proof -
  have e: "nd_timers s = Map.empty" "nd_reply s = Map.empty" "nd_udps s = {}"
    using nat_reach_pending [OF reach(1)] reach(2) pending_idle [of s] by simp_all
  obtain m where m: "msg_nat_echo (nd_id s) n = Some m" "hd_src (hdr_at m) = nd_id s" "u32_at 48 m = n" using echo_fields [OF ids(1)] by blast
  obtain m1 where m1: "msg_nat_echo_reply (nd_id t1) (nd_id s) n (In a1) = Some m1" "u32_at 48 m1 = n" "u16_at 54 m1 = sin_port a1"
    using echo_reply_fields [OF ids(2,1)] by blast
  obtain m2 where m2: "msg_nat_echo_reply (nd_id t2) (nd_id s) n (In a2) = Some m2" "u32_at 48 m2 = n" "u16_at 54 m2 = sin_port a2"
    using echo_reply_fields [OF ids(3,1)] by blast
  let ?s1 = "s\<lparr>nd_rnds := rs, nd_out := nd_out s @ [(m, to1), (m, to2)], nd_timers := [n \<mapsto> timer_echo_wait2], nd_reply := [n \<mapsto> 0], nd_state := echo_wait2\<rparr>"
  have s1: "detect_nat_type to1 to2 s = Some ?s1" using reach(2) e rnd m(1) by (simp add: detect_nat_type_def)
  have t: "recv_echo m (In a1) t1 = Some (t1\<lparr>nd_out := nd_out t1 @ [(m1, In a1)]\<rparr>)" "recv_echo m (In a2) t2 = Some (t2\<lparr>nd_out := nd_out t2 @ [(m2, In a2)]\<rparr>)"
    using m m1(1) m2(1) by (simp_all add: recv_echo_def)
  let ?s2 = "?s1\<lparr>nd_reply := [n \<mapsto> sin_port a1]\<rparr>"
  have s2: "recv_echo_reply order p m1 to1 ?s1 = Some ?s2" using m1(2,3) by (simp add: recv_echo_reply_def recv_echo_reply_wait2_def)
  let ?f = "?s2\<lparr>nd_reply := Map.empty, nd_timers := Map.empty\<rparr>"
  obtain s3 where s3: "join_dht order p (?f\<lparr>nd_state := cone_nat\<rparr>) = Some s3" using join_dht_total [OF peers] by blast
  have "recv_echo_reply order p m2 to2 ?s2 = Some (if sin_port a1 = sin_port a2 then s3 else ?f\<lparr>nd_state := symmetric_nat, nd_registers := nd_registers s + 1\<rparr>)"
    using m2(2,3) port s3 by (simp add: recv_echo_reply_def recv_echo_reply_wait2_def)
  then show ?thesis using s1 t s2 join_dht_frame [OF s3] by (simp add: get_state_def)
qed

subsection \<open>Sample runs\<close>

definition nat_node :: "u32 \<Rightarrow> natdetector" where
  "nat_node i = natdetector_init [0, 0, 0, 0, i] [1, 2, 3] [9]"

definition nat_addr :: "u16 \<Rightarrow> sockaddr_in" where
  "nat_addr port = \<lparr>sin_port = port, sin_addr = 7\<rparr>"

lemma nat_node_simps [simp]:
  "nat_reach (nat_node i)" "nd_state (nat_node i) = nat_undefined" "length (nd_id (nat_node i)) = 5"
  "nd_rnds (nat_node i) = [1, 2, 3]" "nd_ports (nat_node i) = [9]"
  unfolding nat_node_def by (rule nat_reach.start) (simp_all add: natdetector_init_def)

lemma no_peers: "inet_peers id empty_peers"
  by (simp add: inet_peers_def get_first_def empty_peers_def set_callback_def peers_init_def)

lemma redirected_reach:
  "\<exists>s. nat_reach s \<and> nd_state s = echo_redirect_wait \<and> nd_udps s = {2}"
proof -
  obtain s1 m1 t1 m2 s2 m3 where "detect_nat (In (nat_addr 5)) (nat_node 1) = Some s1" "recv_echo_reply id empty_peers m2 (In (nat_addr 5)) s1 = Some s2"
    "nd_state s2 = echo_redirect_wait" "nd_udps s2 = {2}"
    using echo_exchange [of "nat_node 1" "nat_node 2" 1 2 "[3]" 9 "[]" "In (nat_addr 5)" "nat_addr 6" id empty_peers] by auto
  then show ?thesis by (meson nat_node_simps(1) nat_reach.run nat_step.ask nat_step.reply)
qed


lemma detection_can_get_stuck_witness:
  "\<exists>s s1. nat_reach s \<and> udp_receiver id empty_peers 2 (Some (replicate 72 0)) s = Some s1 \<and> get_state s1 = node_undefined"
proof -
  obtain s where s: "nat_reach s" "2 \<in> nd_udps s" using redirected_reach by auto
  have "length (replicate 72 (0 :: u8)) = echo_redirect_reply_size" by (simp add: echo_redirect_reply_size_def)
  moreover have "hd_type (hdr_at (replicate 72 0)) \<noteq> type_nat_echo_redirect_reply"
    by (simp add: hdr_at_def u8_at_def type_nat_echo_redirect_reply_def)
  ultimately show ?thesis using detection_can_get_stuck [OF s, of _ id empty_peers] s(1) nat_steps.stay by blast
qed

theorem nat_detected_by_redirect_witness:
  "\<exists>s1 s2 m4 s3. detect_nat (In (nat_addr 5)) (nat_node 1) = Some s1 \<and> udp_receiver id empty_peers 2 (Some m4) s2 = Some s3 \<and>
     get_state s3 = node_global \<and> nd_global_port s3 = 6"
  using nat_detected_by_redirect [of "nat_node 1" "nat_node 2" 1 2 "[3]" 9 "[]" id empty_peers "In (nat_addr 5)" "nat_addr 6"] no_peers
  by (auto simp: nat_addr_def)

theorem nat_type_by_ports_witness:
  "\<exists>s1 s2 s3 m1 m2. detect_nat_type (In (nat_addr 5)) (In (nat_addr 6)) (set_state_nat (nat_node 1)) = Some s1 \<and>
     recv_echo_reply id empty_peers m1 (In (nat_addr 5)) s1 = Some s2 \<and>
     recv_echo_reply id empty_peers m2 (In (nat_addr 6)) s2 = Some s3 \<and> get_state s3 = node_symmetric"
proof -
  have "nat_step (nat_node 1) (set_state_nat (nat_node 1))" by (rule nat_step.known) simp_all
  then have "nat_reach (set_state_nat (nat_node 1))" by (rule nat_reach.run [OF nat_node_simps(1)])
  then show ?thesis
    using nat_type_by_ports [of "set_state_nat (nat_node 1)" "nat_node 2" "nat_node 3" 1 "[2, 3]" "nat_addr 11" id empty_peers
        "In (nat_addr 5)" "In (nat_addr 6)" "nat_addr 12"] no_peers
    by (auto simp: set_state_nat_def nat_addr_def)
qed

end
