(* ===== verification/Advertise.thy ===== *)
theory Advertise
  imports Natdetector_Props
begin

section \<open>Advertisement (advertise.hpp, advertise.cpp)\<close>

text \<open>
  A node tells another its address by an advertisement, which the other answers; each of
  them puts the sender of what it receives into its cache of peers, under the session number
  the message carries.  The cache is part of the state here, since both handlers change it.
  \<open>ad_session\<close> is what \<^verbatim>\<open>dtun::get_session\<close> returns, \<open>ad_out\<close> the datagrams sent; every nonce in
  \<open>ad_advertising\<close> has its timer set.
\<close>

definition advertise_ttl :: int where "advertise_ttl = 300"
definition advertise_timeout :: int where "advertise_timeout = 2"
definition refresh_interval :: int where "refresh_interval = 100"

record advertise =
  ad_id :: uint160
  ad_session :: u32
  ad_advertising :: "u32 set"
  ad_advertised :: "uint160 \<rightharpoonup> int"
  ad_rnds :: "u32 list"
  ad_peers :: peers
  ad_out :: sent
  ad_next_refresh :: int

definition advertise_init :: "uint160 \<Rightarrow> u32 \<Rightarrow> u32 list \<Rightarrow> peers \<Rightarrow> int \<Rightarrow> int \<Rightarrow> advertise" where
  "advertise_init i session rs p now jitter = \<lparr>ad_id = i, ad_session = session, ad_advertising = {}, ad_advertised = Map.empty,
     ad_rnds = rs, ad_peers = p, ad_out = [], ad_next_refresh = now + (jitter + refresh_interval)\<rparr>"

definition timer_advertise :: "u32 \<Rightarrow> advertise \<Rightarrow> advertise" where
  "timer_advertise nonce s = s\<lparr>ad_advertising := ad_advertising s - {nonce}\<rparr>"

definition advertise_size :: nat where "advertise_size = 56"

definition msg_advertise :: "u8 \<Rightarrow> uint160 \<Rightarrow> uint160 \<Rightarrow> u32 \<Rightarrow> u32 \<Rightarrow> u8 list option" where
  "msg_advertise ty src dst nonce session = do {
     h \<leftarrow> hdr_bytes (new_hdr ty advertise_size src dst);
     Some (h @ htonl_bytes nonce @ htonl_bytes session)
   }"

text \<open>
  \<open>addr\<close> are the bytes of the address, in network byte order.  The time of the last
  advertisement itself, not its age, is compared with half of the life time.
\<close>

definition advertise_to :: "int \<Rightarrow> uint160 \<Rightarrow> u16 \<Rightarrow> u16 \<Rightarrow> u8 list \<Rightarrow> advertise \<Rightarrow> advertise option" where
  "advertise_to now i domain port addr s =
     (if \<exists>t. ad_advertised s i = Some t \<and> t < advertise_ttl div 2 then Some s
      else do {
        let s = s\<lparr>ad_advertised := (ad_advertised s)(i \<mapsto> now)\<rparr>;
        (nonce, rs) \<leftarrow> fresh_nonce (\<lambda>r. r \<in> ad_advertising s) (ad_rnds s);
        let s = s\<lparr>ad_rnds := rs, ad_advertising := insert nonce (ad_advertising s)\<rparr>;
        m \<leftarrow> msg_advertise type_advertise (ad_id s) i nonce (ad_session s);
        Some (if domain = domain_inet then
                s\<lparr>ad_out := ad_out s @ [(m, In \<lparr>sin_port = port, sin_addr = ntohl_bytes (take 4 addr)\<rparr>)]\<rparr>
              else if domain = domain_inet6 then
                s\<lparr>ad_out := ad_out s @ [(m, In6 \<lparr>sin6_port = port, sin6_addr = take 16 addr\<rparr>)]\<rparr>
              else s)
      })"

definition recv_advertise :: "int \<Rightarrow> u8 list \<Rightarrow> saddr \<Rightarrow> advertise \<Rightarrow> advertise option" where
  "recv_advertise now msg from s =
     (if hd_dst (hdr_at msg) \<noteq> ad_id s then Some s
      else do {
        let session = u32_at 52 msg;
        addr \<leftarrow> new_cageaddr msg from;
        (added, p) \<leftarrow> add_node_session now addr session (ad_peers s);
        let s = s\<lparr>ad_peers := p\<rparr>;
        if \<not> added then Some s
        else do {
          out \<leftarrow> send_msg (htonl_bytes (u32_at 48 msg) @ htonl_bytes (ad_session s)) type_advertise_reply addr (ad_id s);
          Some (s\<lparr>ad_out := ad_out s @ out\<rparr>)
        }
      })"

definition recv_advertise_reply :: "int \<Rightarrow> u8 list \<Rightarrow> saddr \<Rightarrow> advertise \<Rightarrow> advertise option" where
  "recv_advertise_reply now msg from s =
     (if hd_dst (hdr_at msg) \<noteq> ad_id s then Some s
      else let nonce = u32_at 48 msg in
        if nonce \<notin> ad_advertising s then Some s
        else do {
          let s = s\<lparr>ad_advertising := ad_advertising s - {nonce}\<rparr>;
          let session = u32_at 52 msg;
          addr \<leftarrow> new_cageaddr msg from;
          (added, p) \<leftarrow> add_node_session now addr session (ad_peers s);
          Some (s\<lparr>ad_peers := p\<rparr>)
        })"

definition advertise_refresh :: "int \<Rightarrow> advertise \<Rightarrow> advertise" where
  "advertise_refresh now s = s\<lparr>ad_advertised :=
     (\<lambda>i. case ad_advertised s i of None \<Rightarrow> None | Some t \<Rightarrow> if now - t > advertise_ttl then None else Some t)\<rparr>"

definition timer_refresh :: "int \<Rightarrow> int \<Rightarrow> advertise \<Rightarrow> advertise" where
  "timer_refresh now jitter s = (advertise_refresh now s)\<lparr>ad_next_refresh := now + (jitter + refresh_interval)\<rparr>"

subsection \<open>Two nodes get to know each other\<close>

lemma advertise_fields:
  assumes "length src = 5" "length dst = 5"
  shows "\<exists>m. msg_advertise ty src dst nonce session = Some m \<and> hdr_at m = new_hdr ty advertise_size src dst \<and>
    u32_at 48 m = nonce \<and> u32_at 52 m = session"
proof -
  obtain h where h: "hdr_bytes (new_hdr ty advertise_size src dst) = Some h" using hdr_total [OF assms] by force
  note f = hdr_fields [OF assms h]
  show ?thesis
    using h f(1) f(2) [of "htonl_bytes nonce @ htonl_bytes session"] at_append(2) [of h 48] at_append(2) [of h 52]
      at_append(2) [of "htonl_bytes nonce" 4] at_head(2) [of nonce "htonl_bytes session"] at_head(2) [of session "[]"]
    by (simp add: msg_advertise_def)
qed

lemma send_msg_advertise:
  assumes "ca_domain dst = domain_inet" "ca_saddr dst = In a" "msg_advertise ty src (ca_id dst) nonce session = Some m"
  shows "send_msg (htonl_bytes nonce @ htonl_bytes session) ty dst src = Some [(m, In a)]"
  using assms by (auto simp: send_msg_def msg_advertise_def hdr_size_def advertise_size_def split: Option.bind_splits)

lemma new_cageaddr_in: "new_cageaddr m (In a) = Some (inet_node (hd_src (hdr_at m)) a)"
  by (simp add: new_cageaddr_def inet_node_def)

lemma add_inet_node_new:
  assumes "peers_inv s" "get_addr i s = None"
  shows "\<exists>s'. add_node_session now (inet_node i n) session s = Some (True, s') \<and> get_addr i s' = Some (inet_node i n)"
proof -
  have none: "left_find i (m_map s) = None" using assms(2) by (auto simp: get_addr_map)
  from add_inet_node [OF assms(1), of now i n session] obtain b m where
    add: "add_node_session now (inet_node i n) session s = Some (b, s\<lparr>m_map := m, called := called s @ (if b then [inet_node i n] else [])\<rparr>)"
    and m: "map_added now (inet_node i n) session (m_map s) b m" by blast
  from m none have "b" "m = m_map s @ [new_entry now (inet_node i n) session]" by (simp_all add: map_added_def)
  then show ?thesis
    using add none by (auto simp: get_addr_def left_find_append new_entry_def inet_node_def)
qed

text \<open>A node advertises to another one it does not know and that does not know it:
  the advertisement, seen by the other as coming from \<open>a\<close>, makes it known there under that
  address; the reply, coming from where the advertisement went, makes the other known here.\<close>

lemma advertisement_introduces_both:
  assumes ids: "length (ad_id s) = 5" "length (ad_id t) = 5" and peers: "peers_reach (ad_peers s)" "peers_reach (ad_peers t)"
    and unknown: "get_addr (ad_id t) (ad_peers s) = None" "get_addr (ad_id s) (ad_peers t) = None"
    and fresh: "ad_advertised s (ad_id t) = None" "ad_rnds s = nonce # rs" "nonce \<notin> ad_advertising s"
  shows "\<exists>s1 m t1 r s2. advertise_to now (ad_id t) domain_inet (sin_port b) (htonl_bytes (sin_addr b)) s = Some s1 \<and>
    ad_out s1 = ad_out s @ [(m, In b)] \<and>
    recv_advertise now m (In a) t = Some t1 \<and> ad_out t1 = ad_out t @ [(r, In a)] \<and>
    get_addr (ad_id s) (ad_peers t1) = Some (inet_node (ad_id s) a) \<and>
    recv_advertise_reply now r (In b) s1 = Some s2 \<and> get_addr (ad_id t) (ad_peers s2) = Some (inet_node (ad_id t) b) \<and>
    ad_advertising s2 = ad_advertising s"
proof -
  obtain m where m: "msg_advertise type_advertise (ad_id s) (ad_id t) nonce (ad_session s) = Some m"
    "hdr_at m = new_hdr type_advertise advertise_size (ad_id s) (ad_id t)" "u32_at 48 m = nonce" "u32_at 52 m = ad_session s"
    using advertise_fields [OF ids] by blast
  obtain r where r: "msg_advertise type_advertise_reply (ad_id t) (ad_id s) nonce (ad_session t) = Some r"
    "hdr_at r = new_hdr type_advertise_reply advertise_size (ad_id t) (ad_id s)" "u32_at 48 r = nonce" "u32_at 52 r = ad_session t"
    using advertise_fields [OF ids(2,1)] by blast
  have hdr: "hd_src (hdr_at m) = ad_id s" "hd_dst (hdr_at m) = ad_id t" "hd_src (hdr_at r) = ad_id t" "hd_dst (hdr_at r) = ad_id s"
    using m r by (simp_all add: new_hdr_def)
  let ?s1 = "s\<lparr>ad_advertised := (ad_advertised s)(ad_id t \<mapsto> now), ad_rnds := rs, ad_advertising := insert nonce (ad_advertising s),
    ad_out := ad_out s @ [(m, In b)]\<rparr>"
  have s1: "advertise_to now (ad_id t) domain_inet (sin_port b) (htonl_bytes (sin_addr b)) s = Some ?s1"
    using fresh m(1) by (simp add: advertise_to_def Let_def)
  obtain p where p: "add_node_session now (inet_node (ad_id s) a) (ad_session s) (ad_peers t) = Some (True, p)"
    "get_addr (ad_id s) p = Some (inet_node (ad_id s) a)"
    using add_inet_node_new [OF peers_reach_inv [OF peers(2)] unknown(2)] by blast
  have out: "send_msg (htonl_bytes nonce @ htonl_bytes (ad_session t)) type_advertise_reply (inet_node (ad_id s) a) (ad_id t) = Some [(r, In a)]"
    using r(1) by (intro send_msg_advertise) (simp_all)
  have t1: "recv_advertise now m (In a) t = Some (t\<lparr>ad_peers := p, ad_out := ad_out t @ [(r, In a)]\<rparr>)"
    using hdr m p(1) out by (simp add: recv_advertise_def Let_def new_cageaddr_in)
  obtain q where q: "add_node_session now (inet_node (ad_id t) b) (ad_session t) (ad_peers s) = Some (True, q)"
    "get_addr (ad_id t) q = Some (inet_node (ad_id t) b)"
    using add_inet_node_new [OF peers_reach_inv [OF peers(1)] unknown(1)] by blast
  have "recv_advertise_reply now r (In b) ?s1 = Some (?s1\<lparr>ad_advertising := ad_advertising s, ad_peers := q\<rparr>)"
    using hdr r q(1) fresh(3) by (simp add: recv_advertise_reply_def Let_def new_cageaddr_in)
  then show ?thesis using s1 t1 p(2) q(2) by simp
qed

definition adv_node :: "u32 \<Rightarrow> advertise" where
  "adv_node i = advertise_init [0, 0, 0, 0, i] i [5] empty_peers 1000 0"

lemma advertisement_introduces_both_witness:
  "\<exists>s1 m t1. advertise_to 1000 (ad_id (adv_node 2)) domain_inet (sin_port (nat_addr 8)) (htonl_bytes (sin_addr (nat_addr 8))) (adv_node 1) = Some s1 \<and>
    recv_advertise 1000 m (In (nat_addr 6)) (adv_node 2) = Some t1 \<and>
    get_addr (ad_id (adv_node 1)) (ad_peers t1) = Some (inet_node (ad_id (adv_node 1)) (nat_addr 6))"
proof -
  have "peers_reach empty_peers" unfolding empty_peers_def by (rule peers_reach.start)
  moreover have "get_addr i empty_peers = None" for i
    by (simp add: empty_peers_def get_addr_def left_find_def set_callback_def peers_init_def)
  ultimately show ?thesis
    using advertisement_introduces_both [of "adv_node 1" "adv_node 2" 5 "[]" 1000 "nat_addr 8" "nat_addr 6"]
    by (auto simp: adv_node_def advertise_init_def)
qed

subsection \<open>Repeated advertisements\<close>

text \<open>
  The test that should keep a node from advertising again too soon holds only for
  advertisements of the first 150 seconds of 1970.
\<close>

lemma advertised_again:
  assumes "ad_advertised s i = Some t" "150 \<le> t" "length (ad_id s) = 5" "length i = 5"
    "ad_rnds s = nonce # rs" "nonce \<notin> ad_advertising s"
  shows "\<exists>s1 m. advertise_to now i domain_inet port addr s = Some s1 \<and>
    ad_out s1 = ad_out s @ [(m, In \<lparr>sin_port = port, sin_addr = ntohl_bytes (take 4 addr)\<rparr>)]"
proof -
  obtain m where "msg_advertise type_advertise (ad_id s) i nonce (ad_session s) = Some m" using advertise_fields [OF assms(3,4)] by blast
  then show ?thesis using assms by (simp add: advertise_to_def advertise_ttl_def Let_def)
qed

end
