(* ===== verification/Dgram.thy ===== *)
theory Dgram
  imports Advertise Packetbuf
begin

section \<open>Datagrams between nodes (dgram.hpp, dgram.cpp)\<close>

text \<open>
  Datagrams are queued by the identifier of their destination.  If its address is known they
  are sent at once; if not, the address is requested, from the directory of tunnels or the
  DHT, and the queue is sent or dropped when the answer comes.

  \<open>dg_requests\<close> are the calls of \<^verbatim>\<open>dtun::request\<close> (\<open>True\<close>) and \<^verbatim>\<open>dht::find_node\<close> (\<open>False\<close>);
  their callbacks are the operations \<open>request_func\<close> and \<open>find_node_func\<close>.  \<open>dg_enabled\<close> is
  what \<^verbatim>\<open>dtun::is_enabled\<close> returns, \<open>dg_forwards\<close> are the calls of \<^verbatim>\<open>proxy::forward_msg\<close>,
  \<open>dg_delivered\<close> those of the application's callback and \<open>dg_rdp\<close> those of
  \<^verbatim>\<open>rdp::input_dgram\<close>.  Peers and advertisements are part of the state.
\<close>

record send_data =
  sd_pbuf :: packetbuf
  sd_src :: uint160
  sd_len :: int
  sd_type :: u8

record dgram =
  dg_id :: uint160
  dg_queue :: "uint160 \<rightharpoonup> send_data list"
  dg_pool :: "uint160 set"
  dg_requesting :: "uint160 set"
  dg_enabled :: bool
  dg_is_callback :: bool
  dg_adv :: advertise
  dg_out :: sent
  dg_requests :: "(bool \<times> uint160) list"
  dg_forwards :: "(u8 list \<times> int \<times> saddr) list"
  dg_delivered :: "(u8 list \<times> int \<times> uint160) list"
  dg_rdp :: "(uint160 \<times> packetbuf) list"

definition dgram_init :: "uint160 \<Rightarrow> bool \<Rightarrow> advertise \<Rightarrow> dgram" where
  "dgram_init i enabled adv = \<lparr>dg_id = i, dg_queue = Map.empty, dg_pool = {}, dg_requesting = {}, dg_enabled = enabled,
     dg_is_callback = False, dg_adv = adv, dg_out = [], dg_requests = [], dg_forwards = [], dg_delivered = [], dg_rdp = []\<rparr>"

definition dg_set_callback :: "dgram \<Rightarrow> dgram" where
  "dg_set_callback s = s\<lparr>dg_is_callback := True\<rparr>"

subsection \<open>Sending\<close>

definition push2queue :: "uint160 \<Rightarrow> packetbuf \<Rightarrow> uint160 \<Rightarrow> u8 \<Rightarrow> dgram \<Rightarrow> dgram" where
  "push2queue i pbuf src ty s =
     (let data = \<lparr>sd_pbuf = pbuf, sd_src = src, sd_len = get_len pbuf, sd_type = ty\<rparr>;
          q = (case dg_queue s i of None \<Rightarrow> [] | Some q \<Rightarrow> q) in
      s\<lparr>dg_pool := insert i (dg_pool s), dg_queue := (dg_queue s)(i \<mapsto> q @ [data])\<rparr>)"

text \<open>One buffer per 896 bytes of the message.\<close>

definition dmax :: nat where "dmax = nat (PBUF_SIZE - PBUF_DEFAULT_OFFSET)"

function push2queue_msg :: "uint160 \<Rightarrow> u8 list \<Rightarrow> uint160 \<Rightarrow> dgram \<Rightarrow> dgram option" where
  "push2queue_msg i msg src s =
     (if msg = [] then Some s
      else let plen = min (length msg) dmax in
        case append (int plen) pbuf_construct of
          (None, pbuf) \<Rightarrow> None
        | (Some off, pbuf) \<Rightarrow>
            push2queue_msg i (drop plen msg) src (push2queue i (pbuf_write off (take plen msg) pbuf) src type_dgram s))"
  by pat_completeness auto
termination by (relation "measure (\<lambda>(i, msg, src, s). length msg)") (auto simp: dmax_def pbuf_consts)

text \<open>
  The header goes in front of the data for the time of the \<^verbatim>\<open>sendto\<close>; \<open>None\<close> if the address
  is not of its domain.
\<close>

definition dg_send_msg :: "send_data \<Rightarrow> cageaddr \<Rightarrow> dgram \<Rightarrow> dgram option" where
  "dg_send_msg data dst s =
     (case prepend (int hdr_size) (sd_pbuf data) of
        (None, p) \<Rightarrow> Some s
      | (Some off, p) \<Rightarrow> do {
          let size = nat (sd_len data + int hdr_size);
          h \<leftarrow> hdr_bytes (new_hdr (sd_type data) size (sd_src data) (ca_id dst));
          let m = pbuf_read (pbuf_write off h p) off size;
          if ca_domain dst = domain_inet then do { a \<leftarrow> get_in (ca_saddr dst); Some (s\<lparr>dg_out := dg_out s @ [(m, In a)]\<rparr>) }
          else if ca_domain dst = domain_inet6 then do { a \<leftarrow> get_in6 (ca_saddr dst); Some (s\<lparr>dg_out := dg_out s @ [(m, In6 a)]\<rparr>) }
          else Some s
        })"

fun send_queue_loop :: "uint160 \<Rightarrow> cageaddr \<Rightarrow> send_data list \<Rightarrow> dgram \<Rightarrow> dgram option" where
  "send_queue_loop i addr [] s = Some s"
| "send_queue_loop i addr (data # q) s = do {
     s \<leftarrow> dg_send_msg data addr s;
     if i \<notin> dg_pool s then None
     else send_queue_loop i addr q (s\<lparr>dg_queue := (dg_queue s)(i \<mapsto> q)\<rparr>)
   }"

definition drop_queue :: "uint160 \<Rightarrow> dgram \<Rightarrow> dgram" where
  "drop_queue i s = s\<lparr>dg_queue := (dg_queue s)(i := None), dg_pool := dg_pool s - {i}\<rparr>"

definition send_queue :: "uint160 \<Rightarrow> dgram \<Rightarrow> dgram option" where
  "send_queue i s =
     (case get_addr i (ad_peers (dg_adv s)) of
        None \<Rightarrow> Some (drop_queue i s)
      | Some addr \<Rightarrow> (case dg_queue s i of None \<Rightarrow> Some s | Some q \<Rightarrow> send_queue_loop i addr q s))"

definition request :: "uint160 \<Rightarrow> dgram \<Rightarrow> dgram option" where
  "request i s =
     (if i \<in> dg_requesting s then Some s
      else case get_addr i (ad_peers (dg_adv s)) of
        Some addr \<Rightarrow> send_queue i s
      | None \<Rightarrow> Some (s\<lparr>dg_requesting := insert i (dg_requesting s), dg_requests := dg_requests s @ [(dg_enabled s, i)]\<rparr>))"

definition send_dgram_pbuf :: "packetbuf \<Rightarrow> uint160 \<Rightarrow> u8 \<Rightarrow> dgram \<Rightarrow> dgram option" where
  "send_dgram_pbuf pbuf i ty s = request i (push2queue i pbuf (dg_id s) ty s)"

definition send_dgram_src :: "u8 list \<Rightarrow> int \<Rightarrow> uint160 \<Rightarrow> uint160 \<Rightarrow> dgram \<Rightarrow> dgram option" where
  "send_dgram_src msg len i src s =
     (if len < 0 then Some s
      else do { s \<leftarrow> push2queue_msg i (take (nat len) msg) src s; request i s })"

definition send_dgram :: "u8 list \<Rightarrow> int \<Rightarrow> uint160 \<Rightarrow> dgram \<Rightarrow> dgram option" where
  "send_dgram msg len i s = send_dgram_src msg len i (dg_id s) s"

subsection \<open>Answers to requests\<close>

definition request_func :: "uint160 \<Rightarrow> bool \<Rightarrow> dgram \<Rightarrow> dgram option" where
  "request_func i result s = do {
     s \<leftarrow> (if result then send_queue i s else Some (drop_queue i s));
     Some (s\<lparr>dg_requesting := dg_requesting s - {i}\<rparr>)
   }"

definition find_node_func :: "uint160 \<Rightarrow> dgram \<Rightarrow> dgram option" where
  "find_node_func i s = do {
     s \<leftarrow> (case get_addr i (ad_peers (dg_adv s)) of Some addr \<Rightarrow> send_queue i s | None \<Rightarrow> Some (drop_queue i s));
     Some (s\<lparr>dg_requesting := dg_requesting s - {i}\<rparr>)
   }"

subsection \<open>Receiving\<close>

text \<open>The buffer the socket's callback fills with a datagram; the system cuts what does not fit.\<close>

definition udp_recv :: "u8 list \<Rightarrow> packetbuf" where
  "udp_recv bs =
     (let p = use_whole pbuf_construct; bs = take (nat (get_len p)) bs in
      set_len (int (length bs)) (pbuf_write (get_data p) bs p))"

definition dg_advertise :: "int \<Rightarrow> uint160 \<Rightarrow> saddr \<Rightarrow> advertise \<Rightarrow> advertise option" where
  "dg_advertise now i from adv =
     (case from of
        In a \<Rightarrow> advertise_to now i domain_inet (sin_port a) (htonl_bytes (sin_addr a)) adv
      | In6 a \<Rightarrow> advertise_to now i domain_inet6 (sin6_port a) (sin6_addr a) adv
      | NoAddr \<Rightarrow> Some adv)"

definition recv_dgram :: "int \<Rightarrow> packetbuf \<Rightarrow> saddr \<Rightarrow> dgram \<Rightarrow> dgram option" where
  "recv_dgram now pbuf from s =
     (let hdr = hdr_at (pbuf_read pbuf (get_data pbuf) hdr_size); size = uint (hd_len hdr) - int hdr_size;
          body = pbuf_read pbuf (get_data pbuf + int hdr_size) (nat size) in
      if uint (hd_len hdr) \<noteq> get_len pbuf then Some s
      else if hd_dst hdr \<noteq> dg_id s then Some (s\<lparr>dg_forwards := dg_forwards s @ [(body, size, from)]\<rparr>)
      else do {
        addr \<leftarrow> new_cageaddr (pbuf_read pbuf (get_data pbuf) hdr_size) from;
        p \<leftarrow> add_node now addr (ad_peers (dg_adv s));
        let adv = (dg_adv s)\<lparr>ad_peers := p\<rparr>;
        adv \<leftarrow> (if dg_enabled s then dg_advertise now (ca_id addr) from adv else Some adv);
        let s = s\<lparr>dg_adv := adv\<rparr>;
        Some (if hd_type hdr = type_dgram \<and> dg_is_callback s then
                s\<lparr>dg_delivered := dg_delivered s @ [(body, size, hd_src hdr)]\<rparr>
              else if hd_type hdr = type_rdp then s\<lparr>dg_rdp := dg_rdp s @ [(ca_id addr, rm_head (int hdr_size) pbuf)]\<rparr>
              else s)
      })"

end
