(* ===== verification/Dgram_Props.thy ===== *)
theory Dgram_Props
  imports Dgram
begin

section \<open>Datagrams arrive whole and in order\<close>

text \<open>
  A message is cut into pieces that fit a buffer; the frames of the pieces are sent in order
  and the receiver hands the pieces to its application.  Messages for a node whose address is
  not known wait for the answer of one request.
\<close>

function chunks :: "u8 list \<Rightarrow> u8 list list" where
  "chunks msg = (if msg = [] then [] else take dmax msg # chunks (drop dmax msg))"
  by pat_completeness auto
termination by (relation "measure length") (auto simp: dmax_def pbuf_consts)

declare chunks.simps [simp del] push2queue_msg.simps [simp del]

lemma dmax_eq: "dmax = 896"
  by (simp add: dmax_def pbuf_consts)

lemma chunks_concat: "concat (chunks msg) = msg"
  by (induction msg rule: chunks.induct) (subst chunks.simps, simp)

lemma chunks_small: "bs \<in> set (chunks msg) \<Longrightarrow> length bs \<le> 896"
proof (induction msg rule: chunks.induct)
  case (1 msg)
  then show ?case by (subst (asm) (2) chunks.simps) (auto simp: dmax_eq split: if_splits)
qed

definition piece :: "uint160 \<Rightarrow> u8 list \<Rightarrow> send_data" where
  "piece src bs = \<lparr>sd_pbuf = pbuf_write 128 bs (pbuf_construct\<lparr>m_len := int (length bs)\<rparr>), sd_src = src, sd_len = int (length bs), sd_type = type_dgram\<rparr>"

definition queue_of :: "uint160 \<Rightarrow> dgram \<Rightarrow> send_data list" where
  "queue_of i s = (case dg_queue s i of None \<Rightarrow> [] | Some q \<Rightarrow> q)"

definition queued :: "uint160 \<Rightarrow> send_data list \<Rightarrow> dgram \<Rightarrow> dgram" where
  "queued i q s = s\<lparr>dg_pool := insert i (dg_pool s), dg_queue := (dg_queue s)(i \<mapsto> queue_of i s @ q)\<rparr>"

lemma append_piece: "length bs \<le> 896 \<Longrightarrow> append (int (length bs)) pbuf_construct = (Some 128, pbuf_construct\<lparr>m_len := int (length bs)\<rparr>)"
  by (simp add: append_def pbuf_consts)

lemma queued_queued: "queued i q' (queued i q s) = queued i (q @ q') s"
  by (simp add: queued_def queue_of_def)

lemma push2queue_msg_spec: "msg \<noteq> [] \<Longrightarrow> push2queue_msg i msg src s = Some (queued i (map (piece src) (chunks msg)) s)"
proof (induction i msg src s rule: push2queue_msg.induct)
  case (1 i msg src s)
  let ?n = "min (length msg) dmax" and ?bs = "take dmax msg"
  have take: "take ?n msg = ?bs" "drop ?n msg = drop dmax msg" "length ?bs = ?n" by (simp_all add: min_def)
  have app: "append (int ?n) pbuf_construct = (Some 128, pbuf_construct\<lparr>m_len := int ?n\<rparr>)"
    using append_piece [of ?bs] take(3) by (simp add: dmax_eq)
  let ?s = "push2queue i (pbuf_write 128 ?bs (pbuf_construct\<lparr>m_len := int ?n\<rparr>)) src type_dgram s"
  have s: "?s = queued i [piece src ?bs] s"
    using take(3) by (simp add: push2queue_def queued_def piece_def queue_of_def get_len_def min.commute)
  have step: "push2queue_msg i msg src s = push2queue_msg i (drop dmax msg) src ?s"
    using 1(2) app take by (subst push2queue_msg.simps) (simp add: Let_def)
  show ?case
  proof (cases "drop dmax msg = []")
    case True
    have "push2queue_msg i [] src ?s = Some ?s" by (subst push2queue_msg.simps) simp
    moreover have "chunks [] = []" by (subst chunks.simps) simp
    ultimately show ?thesis using step s True 1(2) by (subst chunks.simps) simp
  next
    case False
    have "push2queue_msg i (drop dmax msg) src ?s = Some (queued i (map (piece src) (chunks (drop dmax msg))) ?s)"
      using 1(1) [OF 1(2) refl app [symmetric] refl] False take by simp
    then show ?thesis using step s 1(2) by (subst chunks.simps) (simp add: queued_queued)
  qed
qed

subsection \<open>Frames\<close>

definition frame :: "u8 \<Rightarrow> uint160 \<Rightarrow> uint160 \<Rightarrow> u8 list \<Rightarrow> u8 list" where
  "frame ty src dst bs = (case hdr_bytes (new_hdr ty (hdr_size + length bs) src dst) of None \<Rightarrow> [] | Some h \<Rightarrow> h @ bs)"

definition sd_ok :: "send_data \<Rightarrow> bool" where
  "sd_ok d \<longleftrightarrow> 48 \<le> m_head (sd_pbuf d) \<and> 0 \<le> m_len (sd_pbuf d) \<and> sd_len d = m_len (sd_pbuf d) \<and> length (sd_src d) = 5"

definition frame_of :: "uint160 \<Rightarrow> send_data \<Rightarrow> u8 list" where
  "frame_of i d = frame (sd_type d) (sd_src d) i (pbuf_bytes (sd_pbuf d))"

lemma sd_ok_piece: "length src = 5 \<Longrightarrow> sd_ok (piece src bs)"
  by (simp add: sd_ok_def piece_def)

lemma frame_of_piece: "frame_of i (piece src bs) = frame type_dgram src i bs"
  using pbuf_read_write_same [of bs "length bs" 128] by (simp add: frame_of_def piece_def pbuf_bytes_def)

lemma dg_send_msg_spec:
  assumes d: "sd_ok d" and i: "length i = 5"
  shows "dg_send_msg d (inet_node i b) s = Some (s\<lparr>dg_out := dg_out s @ [(frame_of i d, In b)]\<rparr>)"
proof -
  let ?p = "sd_pbuf d" and ?n = "nat (m_len (sd_pbuf d))"
  have ok: "48 \<le> m_head ?p" "0 \<le> m_len ?p" "sd_len d = m_len ?p" "length (sd_src d) = 5" using d by (simp_all add: sd_ok_def)
  obtain h where h: "hdr_bytes (new_hdr (sd_type d) (48 + ?n) (sd_src d) i) = Some h" using hdr_total [OF ok(4) i] by blast
  have l: "length h = 48" by (rule hdr_fields(1) [OF ok(4) i h])
  let ?q = "?p\<lparr>m_len := m_len ?p + 48, m_head := m_head ?p - 48\<rparr>" and ?off = "m_head ?p - 48"
  have "pbuf_read (pbuf_write ?off h ?q) ?off (48 + ?n) = h @ pbuf_read (pbuf_write ?off h ?q) (?off + 48) ?n"
    using pbuf_read_append [of "pbuf_write ?off h ?q" ?off 48 ?n] pbuf_read_write_same [of h 48 ?off ?q] l by simp
  also have "pbuf_read (pbuf_write ?off h ?q) (?off + 48) ?n = pbuf_bytes ?p"
    using pbuf_read_write_other [of ?off ?n "?off" h ?q] l
    by (subst pbuf_read_write_other) (simp_all add: pbuf_bytes_def pbuf_read_def)
  finally have "pbuf_read (pbuf_write ?off h ?q) ?off (48 + ?n) = frame_of i d" using h by (simp add: frame_of_def frame_def hdr_size_def)
  moreover have "nat (m_len ?p + 48) = 48 + ?n" using ok(2) by simp
  ultimately show ?thesis using h ok by (simp add: dg_send_msg_def prepend_def hdr_size_def Let_def)
qed

lemma send_queue_loop_spec:
  assumes "\<forall>d \<in> set q. sd_ok d" "length i = 5" "i \<in> dg_pool s" "dg_queue s i = Some q"
  shows "send_queue_loop i (inet_node i b) q s =
    Some (s\<lparr>dg_out := dg_out s @ map (\<lambda>d. (frame_of i d, In b)) q, dg_queue := (dg_queue s)(i \<mapsto> [])\<rparr>)"
  using assms
proof (induction q arbitrary: s)
  case Nil
  then have "(dg_queue s)(i \<mapsto> []) = dg_queue s" by (simp add: map_upd_triv)
  then show ?case by simp
next
  case (Cons d q)
  let ?s = "s\<lparr>dg_out := dg_out s @ [(frame_of i d, In b)], dg_queue := (dg_queue s)(i \<mapsto> q)\<rparr>"
  have "send_queue_loop i (inet_node i b) q ?s =
      Some (?s\<lparr>dg_out := dg_out ?s @ map (\<lambda>d. (frame_of i d, In b)) q, dg_queue := (dg_queue ?s)(i \<mapsto> [])\<rparr>)"
    using Cons.prems by (intro Cons.IH) simp_all
  then show ?case using dg_send_msg_spec [of d i b s] Cons.prems by (simp add: fun_upd_def cong: if_cong)
qed

lemma send_queue_spec:
  assumes "get_addr i (ad_peers (dg_adv s)) = Some (inet_node i b)" "\<forall>d \<in> set q. sd_ok d" "length i = 5" "i \<in> dg_pool s" "dg_queue s i = Some q"
  shows "send_queue i s = Some (s\<lparr>dg_out := dg_out s @ map (\<lambda>d. (frame_of i d, In b)) q, dg_queue := (dg_queue s)(i \<mapsto> [])\<rparr>)"
  using assms send_queue_loop_spec [of q i s b] by (simp add: send_queue_def)

lemma queued_simps [simp]:
  "dg_queue (queued i q s) i = Some (queue_of i s @ q)" "i \<in> dg_pool (queued i q s)" "dg_adv (queued i q s) = dg_adv s"
  "dg_requesting (queued i q s) = dg_requesting s" "dg_out (queued i q s) = dg_out s" "dg_requests (queued i q s) = dg_requests s"
  "dg_enabled (queued i q s) = dg_enabled s" "dg_id (queued i q s) = dg_id s"
  by (simp_all add: queued_def)

lemma map_frames: "map (\<lambda>d. (frame_of i d, In b)) (map (piece src) bss) = map (\<lambda>bs. (frame type_dgram src i bs, In b)) bss"
  by (simp add: frame_of_piece)

subsection \<open>Receiving\<close>

lemma udp_recv_small: "length m \<le> 1024 \<Longrightarrow> udp_recv m = set_len (int (length m)) (pbuf_write 0 m (use_whole pbuf_construct))"
  by (simp add: udp_recv_def Let_def get_data_def get_len_def use_whole_def pbuf_consts)

lemma udp_recv_simps: "length m \<le> 1024 \<Longrightarrow> get_data (udp_recv m) = 0" "length m \<le> 1024 \<Longrightarrow> get_len (udp_recv m) = int (length m)"
  by (simp_all add: udp_recv_small get_data_def get_len_def set_len_def use_whole_def)

lemma udp_recv_read:
  assumes "length (h @ bs) \<le> 1024"
  shows "pbuf_read (udp_recv (h @ bs)) 0 (length h) = h" "pbuf_read (udp_recv (h @ bs)) (int (length h)) (length bs) = bs"
proof -
  have "pbuf_read (udp_recv (h @ bs)) 0 (length h + length bs) = h @ bs"
    using pbuf_read_write_same [of "h @ bs" "length h + length bs" 0 "use_whole pbuf_construct"]
    by (simp add: udp_recv_small [OF assms] set_len_def pbuf_read_def)
  then have "pbuf_read (udp_recv (h @ bs)) 0 (length h) @ pbuf_read (udp_recv (h @ bs)) (int (length h)) (length bs) = h @ bs"
    by (simp add: pbuf_read_append)
  then show "pbuf_read (udp_recv (h @ bs)) 0 (length h) = h" "pbuf_read (udp_recv (h @ bs)) (int (length h)) (length bs) = bs"
    by (simp_all add: append_eq_append_conv)
qed

definition receiver :: "uint160 \<Rightarrow> dgram \<Rightarrow> bool" where
  "receiver i t \<longleftrightarrow> dg_id t = i \<and> dg_is_callback t \<and> \<not> dg_enabled t \<and> peers_inv (ad_peers (dg_adv t))"

lemma recv_frame:
  assumes t: "receiver i t" and ids: "length src = 5" "length i = 5" and bs: "length bs \<le> 896"
  shows "\<exists>t'. recv_dgram now (udp_recv (frame type_dgram src i bs)) (In a) t = Some t' \<and> receiver i t' \<and>
    dg_delivered t' = dg_delivered t @ [(bs, int (length bs), src)]"
proof -
  obtain h where h: "hdr_bytes (new_hdr type_dgram (48 + length bs) src i) = Some h" using hdr_total [OF ids] by blast
  note f = hdr_fields [OF ids h]
  have frame: "frame type_dgram src i bs = h @ bs" using h by (simp add: frame_def hdr_size_def)
  have hdr: "hdr_at h = new_hdr type_dgram (48 + length bs) src i" using f(2) [of "[]"] by simp
  have len: "uint (word_of_nat (48 + length bs) :: u16) = 48 + int (length bs)"
  proof -
    have "unat (word_of_nat (48 + length bs) :: u16) = 48 + length bs" by (subst unat_of_nat) (use bs in simp)
    then show ?thesis unfolding uint_nat by simp
  qed
  have read: "pbuf_read (udp_recv (h @ bs)) 0 48 = h" "pbuf_read (udp_recv (h @ bs)) 48 (length bs) = bs"
    using udp_recv_read [of h bs] f(1) bs by simp_all
  have inv0: "peers_inv (ad_peers (dg_adv t))" using t by (simp add: receiver_def)
  obtain b m where
    add: "add_node_session now (inet_node src a) 0 (ad_peers (dg_adv t)) =
      Some (b, (ad_peers (dg_adv t))\<lparr>m_map := m, called := called (ad_peers (dg_adv t)) @ (if b then [inet_node src a] else [])\<rparr>)"
    using add_inet_node [OF inv0, of now src a 0] by blast
  have inv: "peers_inv ((ad_peers (dg_adv t))\<lparr>m_map := m, called := called (ad_peers (dg_adv t)) @ (if b then [inet_node src a] else [])\<rparr>)"
    by (rule peers_inv_add [OF inv0 _ add]) (simp add: addr_ok_def)
  let ?p = "(ad_peers (dg_adv t))\<lparr>m_map := m, called := called (ad_peers (dg_adv t)) @ (if b then [inet_node src a] else [])\<rparr>"
  let ?t = "t\<lparr>dg_adv := (dg_adv t)\<lparr>ad_peers := ?p\<rparr>, dg_delivered := dg_delivered t @ [(bs, int (length bs), src)]\<rparr>"
  have "recv_dgram now (udp_recv (h @ bs)) (In a) t = Some ?t"
    using t f(1) read hdr len add bs
    by (simp add: recv_dgram_def Let_def udp_recv_simps hdr_size_def new_hdr_def receiver_def new_cageaddr_in add_node_def)
  then show ?thesis using t inv frame by (simp add: receiver_def)
qed

fun recv_all :: "int \<Rightarrow> sockaddr_in \<Rightarrow> u8 list list \<Rightarrow> dgram \<Rightarrow> dgram option" where
  "recv_all now a [] t = Some t"
| "recv_all now a (m # ms) t = do { t \<leftarrow> recv_dgram now (udp_recv m) (In a) t; recv_all now a ms t }"

lemma recv_all_frames:
  assumes "receiver i t" "length src = 5" "length i = 5" "\<forall>bs \<in> set bss. length bs \<le> 896"
  shows "\<exists>t'. recv_all now a (map (frame type_dgram src i) bss) t = Some t' \<and>
    dg_delivered t' = dg_delivered t @ map (\<lambda>bs. (bs, int (length bs), src)) bss"
  using assms
proof (induction bss arbitrary: t)
  case (Cons bs bss)
  obtain t1 where t1: "recv_dgram now (udp_recv (frame type_dgram src i bs)) (In a) t = Some t1" "receiver i t1"
    "dg_delivered t1 = dg_delivered t @ [(bs, int (length bs), src)]"
    using recv_frame [OF Cons.prems(1-3), of bs now a] Cons.prems(4) by auto
  then show ?case using Cons.IH [OF t1(2) Cons.prems(2,3)] Cons.prems(4) by auto
qed simp

subsection \<open>Properties\<close>


definition dg_node :: "u32 \<Rightarrow> peers \<Rightarrow> dgram" where
  "dg_node i p = dg_set_callback (dgram_init [0, 0, 0, 0, i] False (advertise_init [0, 0, 0, 0, i] i [] p 1000 0))"

lemma dg_node_simps [simp]:
  "dg_id (dg_node i p) = [0, 0, 0, 0, i]" "dg_is_callback (dg_node i p)" "\<not> dg_enabled (dg_node i p)" "ad_peers (dg_adv (dg_node i p)) = p"
  "dg_queue (dg_node i p) = Map.empty" "dg_requesting (dg_node i p) = {}"
  by (simp_all add: dg_node_def dg_set_callback_def dgram_init_def advertise_init_def)

lemma one_peer_addr: "get_addr [0, 0, 0, 0, 1] one_peer = Some (inet_node [0, 0, 0, 0, 1] \<lparr>sin_port = 1, sin_addr = 7\<rparr>)"
  by (simp add: one_peer_def get_addr_def left_find_def inet_node_def)

lemma empty_peers_reach: "peers_reach empty_peers" and empty_peers_addr: "get_addr i empty_peers = None"
  unfolding empty_peers_def by (rule peers_reach.start) (simp add: get_addr_def left_find_def set_callback_def peers_init_def)


fun send_all :: "u8 list list \<Rightarrow> uint160 \<Rightarrow> dgram \<Rightarrow> dgram option" where
  "send_all [] i s = Some s"
| "send_all (msg # msgs) i s = do { s \<leftarrow> send_dgram msg (int (length msg)) i s; send_all msgs i s }"

lemma send_all_waiting:
  assumes "i \<in> dg_requesting s" "[] \<notin> set msgs" "i \<in> dg_pool s"
  shows "send_all msgs i s = Some (if msgs = [] then s else queued i (map (piece (dg_id s)) (concat (map chunks msgs))) s)"
  using assms
proof (induction msgs arbitrary: s)
  case (Cons msg msgs)
  let ?s = "queued i (map (piece (dg_id s)) (chunks msg)) s"
  have "push2queue_msg i msg (dg_id s) s = Some ?s" using Cons.prems by (intro push2queue_msg_spec) auto
  then have "send_dgram msg (int (length msg)) i s = Some ?s" using Cons.prems(1) by (simp add: send_dgram_def send_dgram_src_def request_def)
  then show ?case using Cons.IH [of ?s] Cons.prems by (simp add: queued_queued)
qed simp

text \<open>Property C16.  Messages to a node whose address is not known wait: nothing is sent, and one
  request is made for all of them.  When it succeeds and the address is known, all the
  pieces of all the messages leave in order; when it fails, they are dropped.\<close>

theorem unresolved_messages_wait:
  assumes unknown: "get_addr i (ad_peers (dg_adv s)) = None" and idle: "dg_queue s i = None" "i \<notin> dg_requesting s"
    and ids: "length i = 5" "length (dg_id s) = 5" and msgs: "msgs \<noteq> []" "[] \<notin> set msgs"
    and found: "get_addr i (ad_peers adv) = Some (inet_node i b)"
  shows "\<exists>s1 s2 s3. send_all msgs i s = Some s1 \<and> dg_out s1 = dg_out s \<and> dg_requests s1 = dg_requests s @ [(dg_enabled s, i)] \<and>
    request_func i True (s1\<lparr>dg_adv := adv\<rparr>) = Some s2 \<and> i \<notin> dg_requesting s2 \<and>
    dg_out s2 = dg_out s @ map (\<lambda>bs. (frame type_dgram (dg_id s) i bs, In b)) (concat (map chunks msgs)) \<and>
    request_func i False s1 = Some s3 \<and> dg_out s3 = dg_out s \<and> dg_queue s3 i = None"
proof -
  obtain msg rest where m: "msgs = msg # rest" using msgs by (cases msgs) auto
  let ?q = "map (piece (dg_id s)) (chunks msg)"
  let ?s0 = "(queued i ?q s)\<lparr>dg_requesting := insert i (dg_requesting s), dg_requests := dg_requests s @ [(dg_enabled s, i)]\<rparr>"
  have "push2queue_msg i msg (dg_id s) s = Some (queued i ?q s)" using msgs m by (intro push2queue_msg_spec) auto
  then have s0: "send_dgram msg (int (length msg)) i s = Some ?s0"
    using unknown idle by (simp add: send_dgram_def send_dgram_src_def request_def)
  let ?all = "map (piece (dg_id s)) (concat (map chunks msgs))"
  have first: "dg_queue ?s0 i = Some ?q" using idle by (simp add: queue_of_def)
  obtain s1 where s1: "send_all msgs i s = Some s1" "dg_queue s1 i = Some ?all" "i \<in> dg_pool s1" "dg_out s1 = dg_out s"
    "dg_requests s1 = dg_requests s @ [(dg_enabled s, i)]"
    using send_all_waiting [of i ?s0 rest] s0 m msgs first by (cases "rest = []") (auto simp: queued_def queue_of_def)
  have "\<forall>d \<in> set ?all. sd_ok d" using sd_ok_piece [OF ids(2)] by auto
  then have "send_queue i (s1\<lparr>dg_adv := adv\<rparr>) = Some (s1\<lparr>dg_adv := adv, dg_out := dg_out s1 @ map (\<lambda>d. (frame_of i d, In b)) ?all,
      dg_queue := (dg_queue s1)(i \<mapsto> [])\<rparr>)"
    using send_queue_spec [of i "s1\<lparr>dg_adv := adv\<rparr>" b ?all] found ids(1) s1 by simp
  then show ?thesis using s1 by (simp add: request_func_def drop_queue_def frame_of_piece comp_def)
qed

theorem unresolved_messages_wait_witness:
  "\<exists>s1 s2. send_all [[1, 2], [3]] [0, 0, 0, 0, 1] (dg_node 3 empty_peers) = Some s1 \<and> dg_out s1 = dg_out (dg_node 3 empty_peers) \<and>
     request_func [0, 0, 0, 0, 1] True (s1\<lparr>dg_adv := dg_adv (dg_node 3 one_peer)\<rparr>) = Some s2"
proof -
  have "get_addr [0, 0, 0, 0, 1] (ad_peers (dg_adv (dg_node 3 one_peer))) = Some (inet_node [0, 0, 0, 0, 1] \<lparr>sin_port = 1, sin_addr = 7\<rparr>)"
    using one_peer_addr by simp
  from unresolved_messages_wait [OF _ _ _ _ _ _ _ this, of "dg_node 3 empty_peers" "[[1, 2], [3]]"]
  show ?thesis using empty_peers_addr by auto
qed

end
