(* ===== verification/Ping.thy ===== *)
theory Ping
  imports Peers Rttable
begin

section \<open>Pings (ping.hpp)\<close>

text \<open>
  The templates by which the directory of tunnels and the DHT ping the nodes of their
  routing tables.  Messages are 52 bytes: a header and a nonce.  Any domain other than IPv4
  is taken for IPv6 by \<open>send_ping_tmpl\<close>.
\<close>

definition ping_size :: nat where "ping_size = 52"

definition msg_ping :: "u8 \<Rightarrow> uint160 \<Rightarrow> uint160 \<Rightarrow> u32 \<Rightarrow> u8 list option" where
  "msg_ping ty src dst nonce = do {
     h \<leftarrow> hdr_bytes (new_hdr ty ping_size src dst);
     Some (h @ htonl_bytes nonce)
   }"

definition send_ping_tmpl :: "cageaddr \<Rightarrow> u32 \<Rightarrow> u8 \<Rightarrow> uint160 \<Rightarrow> sent option" where
  "send_ping_tmpl dst nonce ty i = do {
     m \<leftarrow> msg_ping ty i (ca_id dst) nonce;
     if ca_domain dst = domain_inet then do { a \<leftarrow> get_in (ca_saddr dst); Some [(m, In a)] }
     else do { a \<leftarrow> get_in6 (ca_saddr dst); Some [(m, In6 a)] }
   }"

text \<open>What is sent and the peers afterwards.\<close>

definition recv_ping_tmpl :: "int \<Rightarrow> u8 list \<Rightarrow> saddr \<Rightarrow> u8 \<Rightarrow> uint160 \<Rightarrow> peers \<Rightarrow> (sent \<times> peers) option" where
  "recv_ping_tmpl now msg from ty i p =
     (if hd_dst (hdr_at msg) \<noteq> i then Some ([], p)
      else do {
        m \<leftarrow> msg_ping ty i (hd_src (hdr_at msg)) (u32_at 48 msg);
        addr \<leftarrow> new_cageaddr msg from;
        p \<leftarrow> add_node now addr p;
        Some ([(m, from)], p)
      })"

definition recv_ping_reply_tmpl :: "int \<Rightarrow> u8 list \<Rightarrow> saddr \<Rightarrow> uint160 \<Rightarrow> peers \<Rightarrow> rttable \<Rightarrow> (peers \<times> rttable) option" where
  "recv_ping_reply_tmpl now msg from i p rt =
     (if hd_dst (hdr_at msg) \<noteq> i then Some (p, rt)
      else do {
        addr \<leftarrow> new_cageaddr msg from;
        rt \<leftarrow> rt_recv_ping_reply addr (u32_at 48 msg) rt;
        p \<leftarrow> add_node now addr p;
        Some (p, rt)
      })"

text \<open>
  Adding a node to a routing table, with the pings that \<^verbatim>\<open>rttable::add\<close> sends through the
  virtual \<^verbatim>\<open>send_ping\<close>.
\<close>

fun send_pings :: "u8 \<Rightarrow> uint160 \<Rightarrow> (cageaddr \<times> u32) list \<Rightarrow> sent option" where
  "send_pings ty i [] = Some []"
| "send_pings ty i ((dst, nonce) # ps) = do { m \<leftarrow> send_ping_tmpl dst nonce ty i; ms \<leftarrow> send_pings ty i ps; Some (m @ ms) }"

definition add_pinging :: "u8 \<Rightarrow> cageaddr \<Rightarrow> rttable \<Rightarrow> (sent \<times> rttable) option" where
  "add_pinging ty addr rt = do {
     rt' \<leftarrow> rt_add addr rt;
     ms \<leftarrow> send_pings ty (m_id rt) (drop (length (pings rt)) (pings rt'));
     Some (ms, rt')
   }"

text \<open>A ping that is not answered: the routing table forgets the node, and so do the peers.\<close>

definition ping_timeout_fire :: "int \<Rightarrow> u32 \<Rightarrow> peers \<Rightarrow> rttable \<Rightarrow> (peers \<times> rttable) option" where
  "ping_timeout_fire now nonce p rt = do {
     rt' \<leftarrow> timer_ping_fire nonce rt;
     Some (fold (add_timeout now) (drop (length (timed_out rt)) (timed_out rt')) p, rt')
   }"

end
