(* ===== verification/Dtun.thy ===== *)
theory Dtun
  imports Ping
begin

section \<open>The directory of tunnels (dtun.hpp, dtun.cpp)\<close>

text \<open>
  Nodes behind a NAT register with the global nodes closest to their identifier.  A node that
  wants to reach another asks its way, query by query, to such a node (\<open>dt_find_value\<close>) and
  requests through it that the wanted node sends it a message.

  \<open>dt_rt\<close> is the base class, whose supply of random numbers is shared; \<open>m_id (dt_rt s)\<close> is the
  own identifier.  \<open>dt_nat\<close> is what \<^verbatim>\<open>natdetector::get_state\<close> returns, \<open>dt_domain\<close> what
  \<^verbatim>\<open>udphandler::get_domain\<close> does, \<open>dt_proxied\<close> the nodes for which \<^verbatim>\<open>proxy::is_registered\<close>
  holds.  A query's timers are those in \<open>q_timers\<close>, a request's timer is set when \<open>rq_timer\<close>
  is.  \<open>dt_junk\<close> is what the field \<^verbatim>\<open>reserved\<close> of a header holds that is not cleared,
  \<open>dt_out\<close> the datagrams sent, \<open>dt_results\<close> the calls of callbacks other components passed;
  the callbacks of this component itself are run.  \<open>dt_next_refresh\<close> is when the refresh timer
  fires.  Results are \<open>None\<close> where the code throws or dereferences a null pointer, and where the
  random numbers run out.
\<close>

definition num_find_node :: int where "num_find_node = 10"
definition max_query :: int where "max_query = 6"
definition query_timeout :: int where "query_timeout = 2"
definition request_retry :: int where "request_retry = 2"
definition request_timeout :: int where "request_timeout = 2"
definition registered_ttl :: int where "registered_ttl = 300"
definition dt_timer_interval :: int where "dt_timer_interval = 30"
definition maintain_interval :: int where "maintain_interval = 120"

lemmas dtun_consts = num_find_node_def max_query_def query_timeout_def request_retry_def request_timeout_def
  registered_ttl_def dt_timer_interval_def maintain_interval_def

datatype callback_find_node = no_action | register_callback uint160 u32 | NodesTo nat

datatype callback_find_value = request_find_value u32 | ValueTo nat

datatype callback_func = FindNode callback_find_node | FindValue callback_find_value

datatype dt_result = NodesFound nat "cageaddr list" | ValueFound nat "(cageaddr \<times> cageaddr) option" | Requested nat "cageaddr option"

record query =
  q_nodes :: "cageaddr list"
  q_timers :: "uint160 set"
  q_sent :: "uint160 set"
  q_dst :: uint160
  q_num :: int
  q_is_value :: bool
  q_func :: callback_func

record registered =
  rg_addr :: cageaddr
  rg_session :: u32
  rg_t :: int

record request_query =
  rq_func :: nat
  rq_timer :: bool
  rq_dst :: uint160
  rq_finished :: bool
  rq_retry :: int

record dtun =
  dt_rt :: rttable
  dt_peers :: peers
  dt_nat :: node_state
  dt_domain :: u16
  dt_proxied :: "uint160 set"
  dt_query :: "u32 \<rightharpoonup> query"
  dt_registering :: bool
  dt_session :: u32
  dt_registered :: "uint160 \<rightharpoonup> registered"
  dt_request :: "u32 \<rightharpoonup> request_query"
  dt_enabled :: bool
  dt_mask_bit :: int
  dt_last_maintain :: int
  dt_next_refresh :: "int option"
  dt_junk :: u16
  dt_out :: sent
  dt_results :: "dt_result list"

abbreviation dt_id :: "dtun \<Rightarrow> uint160" where
  "dt_id s \<equiv> m_id (dt_rt s)"

abbreviation zero_id :: uint160 where
  "zero_id \<equiv> bn_fill_zero 5"

text \<open>\<open>session\<close> is what \<^verbatim>\<open>RAND_pseudo_bytes\<close> delivers.\<close>

definition dtun_init :: "uint160 \<Rightarrow> u32 list \<Rightarrow> peers \<Rightarrow> node_state \<Rightarrow> u16 \<Rightarrow> u32 \<Rightarrow> u16 \<Rightarrow> int \<Rightarrow> int \<Rightarrow> dtun" where
  "dtun_init i rs p nst domain session junk now jitter = \<lparr>dt_rt = rttable_init i rs, dt_peers = p, dt_nat = nst, dt_domain = domain,
     dt_proxied = {}, dt_query = Map.empty, dt_registering = False, dt_session = session, dt_registered = Map.empty,
     dt_request = Map.empty, dt_enabled = True, dt_mask_bit = 1, dt_last_maintain = 0,
     dt_next_refresh = Some (now + (jitter + dt_timer_interval)), dt_junk = junk, dt_out = [], dt_results = []\<rparr>"

definition dt_send :: "sent \<Rightarrow> dtun \<Rightarrow> dtun" where
  "dt_send ms s = s\<lparr>dt_out := dt_out s @ ms\<rparr>"

definition dt_called :: "dt_result \<Rightarrow> dtun \<Rightarrow> dtun" where
  "dt_called r s = s\<lparr>dt_results := dt_results s @ [r]\<rparr>"

definition dt_add_peer :: "int \<Rightarrow> cageaddr \<Rightarrow> dtun \<Rightarrow> dtun option" where
  "dt_add_peer now addr s = do { p \<leftarrow> add_node now addr (dt_peers s); Some (s\<lparr>dt_peers := p\<rparr>) }"

definition dt_add :: "cageaddr \<Rightarrow> dtun \<Rightarrow> dtun option" where
  "dt_add addr s = do {
     (ms, rt) \<leftarrow> add_pinging type_dtun_ping addr (dt_rt s);
     Some (dt_send ms (s\<lparr>dt_rt := rt\<rparr>))
   }"

definition set_query :: "u32 \<Rightarrow> query \<Rightarrow> dtun \<Rightarrow> dtun" where
  "set_query nonce q s = s\<lparr>dt_query := (dt_query s)(nonce \<mapsto> q)\<rparr>"

definition erase_query :: "u32 \<Rightarrow> dtun \<Rightarrow> dtun" where
  "erase_query nonce s = s\<lparr>dt_query := (dt_query s)(nonce := None)\<rparr>"

definition set_request :: "u32 \<Rightarrow> request_query option \<Rightarrow> dtun \<Rightarrow> dtun" where
  "set_request nonce q s = s\<lparr>dt_request := (dt_request s)(nonce := q)\<rparr>"

lemmas dt_upd = dt_send_def dt_called_def set_query_def erase_query_def set_request_def

subsection \<open>Pings\<close>

definition dt_timer_ping :: "int \<Rightarrow> u32 \<Rightarrow> dtun \<Rightarrow> dtun option" where
  "dt_timer_ping now nonce s = do {
     (p, rt) \<leftarrow> ping_timeout_fire now nonce (dt_peers s) (dt_rt s);
     Some (s\<lparr>dt_peers := p, dt_rt := rt\<rparr>)
   }"

definition dt_recv_ping :: "int \<Rightarrow> u8 list \<Rightarrow> saddr \<Rightarrow> dtun \<Rightarrow> dtun option" where
  "dt_recv_ping now msg from s =
     (if dt_nat s \<noteq> node_global then Some s
      else do {
        (ms, p) \<leftarrow> recv_ping_tmpl now msg from type_dtun_ping_reply (dt_id s) (dt_peers s);
        Some (dt_send ms (s\<lparr>dt_peers := p\<rparr>))
      })"

definition dt_recv_ping_reply :: "int \<Rightarrow> u8 list \<Rightarrow> saddr \<Rightarrow> dtun \<Rightarrow> dtun option" where
  "dt_recv_ping_reply now msg from s = do {
     (p, rt) \<leftarrow> recv_ping_reply_tmpl now msg from (dt_id s) (dt_peers s) (dt_rt s);
     Some (s\<lparr>dt_peers := p, dt_rt := rt\<rparr>)
   }"

subsection \<open>Callbacks of node queries\<close>

definition msg_dtun_register :: "uint160 \<Rightarrow> uint160 \<Rightarrow> u32 \<Rightarrow> u8 list option" where
  "msg_dtun_register src dst session = do {
     h \<leftarrow> hdr_bytes (new_hdr type_dtun_register 52 src dst);
     Some (h @ htonl_bytes session)
   }"

fun send_registers :: "uint160 \<Rightarrow> uint160 \<Rightarrow> u32 \<Rightarrow> cageaddr list \<Rightarrow> sent option" where
  "send_registers me src session [] = Some []"
| "send_registers me src session (addr # nodes) =
     (if ca_id addr = me then send_registers me src session nodes
      else do {
        m \<leftarrow> msg_dtun_register src (ca_id addr) session;
        m \<leftarrow> send_to m addr;
        ms \<leftarrow> send_registers me src session nodes;
        Some (m @ ms)
      })"

fun nodes_callback :: "callback_find_node \<Rightarrow> cageaddr list \<Rightarrow> dtun \<Rightarrow> dtun option" where
  "nodes_callback no_action nodes s = Some s"
| "nodes_callback (NodesTo tag) nodes s = Some (dt_called (NodesFound tag nodes) s)"
| "nodes_callback (register_callback src session) nodes s = do {
     ms \<leftarrow> send_registers (dt_id s) src session nodes;
     Some (dt_send ms (s\<lparr>dt_registering := False\<rparr>))
   }"

subsection \<open>Queries\<close>

text \<open>
  \<open>send_find\<close> and \<open>find_nv\<close> call the callback of a value query that finds nothing, which may
  start the next query of a request; the argument \<open>failed\<close> stands for that callback.  The
  message of a query is the same for both kinds, but for its type.
\<close>

definition msg_dtun_find :: "u8 \<Rightarrow> uint160 \<Rightarrow> uint160 \<Rightarrow> u32 \<Rightarrow> uint160 \<Rightarrow> u16 \<Rightarrow> node_state \<Rightarrow> u8 list option" where
  "msg_dtun_find ty src dst nonce i domain state = do {
     h \<leftarrow> hdr_bytes (new_hdr ty 76 src dst);
     i \<leftarrow> id_bytes i;
     Some (h @ htonl_bytes nonce @ i @ htons_bytes domain @ htons_bytes (if state = node_global then state_global else state_nat))
   }"

definition send_find_nv :: "u8 \<Rightarrow> cageaddr \<Rightarrow> u32 \<Rightarrow> query \<Rightarrow> dtun \<Rightarrow> sent option" where
  "send_find_nv ty dst nonce q s = do {
     m \<leftarrow> msg_dtun_find ty (dt_id s) (ca_id dst) nonce (q_dst q) (dt_domain s) (dt_nat s);
     send_to m dst
   }"

definition send_find_node :: "cageaddr \<Rightarrow> u32 \<Rightarrow> query \<Rightarrow> dtun \<Rightarrow> sent option" where
  "send_find_node = send_find_nv type_dtun_find_node"

definition send_find_value :: "cageaddr \<Rightarrow> u32 \<Rightarrow> query \<Rightarrow> dtun \<Rightarrow> sent option" where
  "send_find_value = send_find_nv type_dtun_find_value"

definition query_asked :: "uint160 \<Rightarrow> query \<Rightarrow> query" where
  "query_asked i q = q\<lparr>q_timers := insert i (q_timers q), q_sent := insert i (q_sent q), q_num := q_num q + 1\<rparr>"

fun send_find_loop :: "u32 \<Rightarrow> dtun \<Rightarrow> cageaddr list \<Rightarrow> query \<Rightarrow> (query \<times> sent) option" where
  "send_find_loop nonce s [] q = Some (q, [])"
| "send_find_loop nonce s (addr # nodes) q =
     (if q_num q \<ge> max_query then Some (q, [])
      else if ca_id addr \<in> q_sent q then send_find_loop nonce s nodes q
      else do {
        m \<leftarrow> (if q_is_value q then send_find_value addr nonce q s else send_find_node addr nonce q s);
        (q, ms) \<leftarrow> send_find_loop nonce s nodes (query_asked (ca_id addr) q);
        Some (q, m @ ms)
      })"

fun query_callback :: "(callback_find_value \<Rightarrow> dtun \<Rightarrow> dtun option) \<Rightarrow> bool \<Rightarrow> callback_func \<Rightarrow> cageaddr list \<Rightarrow> dtun \<Rightarrow> dtun option" where
  "query_callback failed True (FindValue f) nodes s = failed f s"
| "query_callback failed False (FindNode f) nodes s = nodes_callback f nodes s"
| "query_callback failed _ _ nodes s = None"

definition send_find :: "(callback_find_value \<Rightarrow> dtun \<Rightarrow> dtun option) \<Rightarrow> u32 \<Rightarrow> dtun \<Rightarrow> dtun option" where
  "send_find failed nonce s = do {
     q \<leftarrow> dt_query s nonce;
     (q, ms) \<leftarrow> send_find_loop nonce s (q_nodes q) q;
     let s = dt_send ms (set_query nonce q s);
     if q_num q = 0 then do {
       s \<leftarrow> query_callback failed (q_is_value q) (q_func q) (q_nodes q) s;
       Some (erase_query nonce s)
     }
     else Some s
   }"

definition new_query :: "uint160 \<Rightarrow> cageaddr list \<Rightarrow> uint160 \<Rightarrow> callback_func \<Rightarrow> bool \<Rightarrow> query" where
  "new_query me nodes dst func is_find_value = \<lparr>q_nodes = nodes, q_timers = {}, q_sent = {me}, q_dst = dst, q_num = 0,
     q_is_value = is_find_value, q_func = func\<rparr>"

definition query_nonce :: "dtun \<Rightarrow> (u32 \<times> dtun) option" where
  "query_nonce s = do {
     (nonce, rs) \<leftarrow> fresh_nonce (\<lambda>r. dt_query s r \<noteq> None) (rt_rnds (dt_rt s));
     Some (nonce, s\<lparr>dt_rt := (dt_rt s)\<lparr>rt_rnds := rs\<rparr>\<rparr>)
   }"

definition find_nv :: "(callback_find_value \<Rightarrow> dtun \<Rightarrow> dtun option) \<Rightarrow> uint160 \<Rightarrow> callback_func \<Rightarrow> bool \<Rightarrow> dtun \<Rightarrow> dtun option" where
  "find_nv failed dst func is_find_value s = do {
     nodes \<leftarrow> rt_lookup dst num_find_node (dt_rt s);
     if length nodes = 1 then query_callback failed is_find_value func nodes s
     else do {
       (nonce, s) \<leftarrow> query_nonce s;
       send_find failed nonce (set_query nonce (new_query (dt_id s) nodes dst func is_find_value) s)
     }
   }"

text \<open>
  The callback of a value query that found nothing: a request tries again until its retries
  are used up.  The fuel is one more than the retries left.
\<close>

fun value_failed :: "nat \<Rightarrow> callback_find_value \<Rightarrow> dtun \<Rightarrow> dtun option" where
  "value_failed 0 f s = None"
| "value_failed (Suc n) (ValueTo tag) s = Some (dt_called (ValueFound tag None) s)"
| "value_failed (Suc n) (request_find_value nonce) s = do {
     q \<leftarrow> dt_request s nonce;
     let q = q\<lparr>rq_retry := rq_retry q - 1\<rparr>;
     let s = set_request nonce (Some q) s;
     if rq_retry q > 0 then
       (if \<not> dt_enabled s then Some s else find_nv (value_failed n) (rq_dst q) (FindValue (request_find_value nonce)) True s)
     else Some (set_request nonce None (dt_called (Requested (rq_func q) None) s))
   }"

definition retries_left :: "callback_find_value \<Rightarrow> dtun \<Rightarrow> nat" where
  "retries_left f s =
     (case f of ValueTo tag \<Rightarrow> 0
      | request_find_value nonce \<Rightarrow> (case dt_request s nonce of None \<Rightarrow> 0 | Some q \<Rightarrow> nat (rq_retry q)))"

definition call_failed :: "callback_find_value \<Rightarrow> dtun \<Rightarrow> dtun option" where
  "call_failed f s = value_failed (Suc (retries_left f s)) f s"

definition dt_find_node :: "uint160 \<Rightarrow> callback_find_node \<Rightarrow> dtun \<Rightarrow> dtun option" where
  "dt_find_node dst func s = (if \<not> dt_enabled s then Some s else find_nv call_failed dst (FindNode func) False s)"

definition dt_find_value :: "uint160 \<Rightarrow> callback_find_value \<Rightarrow> dtun \<Rightarrow> dtun option" where
  "dt_find_value dst func s = (if \<not> dt_enabled s then Some s else find_nv call_failed dst (FindValue func) True s)"

text \<open>
  The first query of a node, sent to an address whose identifier is not known yet.  The
  address is of the domain of the socket, else a structure of another family is copied.
\<close>

definition sockaddr_of :: "u16 \<Rightarrow> saddr \<Rightarrow> saddr option" where
  "sockaddr_of domain sa =
     (if domain = domain_inet then do { a \<leftarrow> get_in sa; Some (In a) }
      else if domain = domain_inet6 then do { a \<leftarrow> get_in6 sa; Some (In6 a) }
      else Some NoAddr)"

definition dt_find_node_addr :: "saddr \<Rightarrow> callback_find_node \<Rightarrow> dtun \<Rightarrow> dtun option" where
  "dt_find_node_addr sa func s =
     (if \<not> dt_enabled s then Some s
      else do {
        (nonce, s) \<leftarrow> query_nonce s;
        let q = (new_query (dt_id s) [] (dt_id s) (FindNode func) False)\<lparr>q_num := 1, q_timers := {zero_id}\<rparr>;
        sa \<leftarrow> sockaddr_of (dt_domain s) sa;
        m \<leftarrow> send_find_node \<lparr>ca_id = zero_id, ca_domain = dt_domain s, ca_saddr = sa\<rparr> nonce q s;
        Some (dt_send m (set_query nonce q s))
      })"

text \<open>\<open>sa\<close> is what the host name resolves to.\<close>

definition dt_find_node_host :: "saddr option \<Rightarrow> callback_find_node \<Rightarrow> dtun \<Rightarrow> dtun option" where
  "dt_find_node_host sa func s =
     (if \<not> dt_enabled s then Some s else case sa of None \<Rightarrow> Some s | Some sa \<Rightarrow> dt_find_node_addr sa func s)"

definition dt_timer_query :: "int \<Rightarrow> u32 \<Rightarrow> uint160 \<Rightarrow> dtun \<Rightarrow> dtun option" where
  "dt_timer_query now nonce i s = do {
     q \<leftarrow> dt_query s nonce;
     let q = q\<lparr>q_sent := insert i (q_sent q), q_num := q_num q - 1, q_timers := q_timers q - {i}\<rparr>;
     s \<leftarrow> (if i \<noteq> zero_id then do {
             let q = q\<lparr>q_nodes := filter (\<lambda>c. ca_id c \<noteq> i) (q_nodes q)\<rparr>;
             rt \<leftarrow> rt_remove i (dt_rt s);
             Some (set_query nonce q (s\<lparr>dt_peers := add_timeout now i (dt_peers s), dt_rt := rt\<rparr>))
           }
           else Some (set_query nonce q s));
     send_find call_failed nonce s
   }"

subsection \<open>Answering queries\<close>

definition write_nodes :: "u16 \<Rightarrow> cageaddr list \<Rightarrow> u8 list option" where
  "write_nodes domain nodes = (if domain = domain_inet then write_nodes_inet nodes else write_nodes_inet6 nodes)"

definition msg_dtun_reply :: "u8 \<Rightarrow> uint160 \<Rightarrow> u8 list \<Rightarrow> u8 \<Rightarrow> u8 \<Rightarrow> u8 list \<Rightarrow> u8 list option" where
  "msg_dtun_reply ty me msg num flag addrs = do {
     h \<leftarrow> hdr_bytes (new_hdr ty (76 + length addrs) me (hd_src (hdr_at msg)));
     Some (h @ take 26 (drop 48 msg) @ [num, flag] @ addrs)
   }"

definition dt_recv_find_node :: "int \<Rightarrow> u8 list \<Rightarrow> saddr \<Rightarrow> dtun \<Rightarrow> dtun option" where
  "dt_recv_find_node now msg from s =
     (let dst = hd_dst (hdr_at msg) in
      if dt_nat s \<noteq> node_global \<or> dst \<noteq> dt_id s \<and> \<not> bn_is_zero dst \<or> u16_at 72 msg \<noteq> dt_domain s then Some s
      else do {
        nodes \<leftarrow> rt_lookup (id_at 52 msg) num_find_node (dt_rt s);
        if dt_domain s \<noteq> domain_inet \<and> dt_domain s \<noteq> domain_inet6 then Some s
        else do {
          addrs \<leftarrow> write_nodes (dt_domain s) nodes;
          m \<leftarrow> msg_dtun_reply type_dtun_find_node_reply (dt_id s) msg (of_nat (length nodes)) 0 addrs;
          caddr \<leftarrow> new_cageaddr msg from;
          let s = dt_send [(m, from)] s;
          s \<leftarrow> (if u16_at 74 msg = state_global then dt_add caddr s else Some s);
          dt_add_peer now caddr s
        }
      })"

text \<open>
  A registered node is answered with its address alone, in the format of its own domain, and
  the flag set.  The state of the asking node is compared without \<^verbatim>\<open>ntohs\<close>.
\<close>

definition write_registered :: "registered \<Rightarrow> u8 list option" where
  "write_registered r =
     (if ca_domain (rg_addr r) = domain_inet then write_node_inet (rg_addr r) else write_node_inet6 (rg_addr r))"

definition reply_registered :: "u8 list \<Rightarrow> registered \<Rightarrow> dtun \<Rightarrow> u8 list option" where
  "reply_registered msg r s = do {
     addrs \<leftarrow> write_registered r;
     msg_dtun_reply type_dtun_find_value_reply (dt_id s) msg 1 1 addrs
   }"

definition reply_nodes :: "u8 list \<Rightarrow> saddr \<Rightarrow> u8 \<Rightarrow> dtun \<Rightarrow> dtun option" where
  "reply_nodes msg from flag s =
     (let domain = u16_at 72 msg in
      do {
        nodes \<leftarrow> rt_lookup (id_at 52 msg) num_find_node (dt_rt s);
        if domain \<noteq> domain_inet \<and> domain \<noteq> domain_inet6 then Some s
        else do {
          addrs \<leftarrow> write_nodes domain nodes;
          m \<leftarrow> msg_dtun_reply type_dtun_find_value_reply (dt_id s) msg (of_nat (length nodes)) flag addrs;
          Some (dt_send [(m, from)] s)
        }
      })"

definition dt_recv_find_value :: "int \<Rightarrow> u8 list \<Rightarrow> saddr \<Rightarrow> dtun \<Rightarrow> dtun option" where
  "dt_recv_find_value now msg from s =
     (if dt_nat s \<noteq> node_global \<or> hd_dst (hdr_at msg) \<noteq> dt_id s \<or> u16_at 72 msg \<noteq> dt_domain s then Some s
      else do {
        caddr \<leftarrow> new_cageaddr msg from;
        s \<leftarrow> (if u16_raw_at 74 msg = state_global then dt_add caddr s else Some s);
        s \<leftarrow> dt_add_peer now caddr s;
        case dt_registered s (id_at 52 msg) of
          None \<Rightarrow> reply_nodes msg from 0 s
        | Some r \<Rightarrow>
            if ca_domain (rg_addr r) = domain_inet \<or> ca_domain (rg_addr r) = domain_inet6 then do {
              m \<leftarrow> reply_registered msg r s;
              Some (dt_send [(m, from)] s)
            }
            else reply_nodes msg from 1 s
      })"

subsection \<open>Answers to queries\<close>

text \<open>
  \<open>reply_timer\<close> is the timer an answer to a node query stops: that of its sender, or that of
  the first query, whose destination had no identifier.  A datagram is as long as its list.
\<close>

definition read_nodes :: "u8 list \<Rightarrow> nat \<Rightarrow> saddr \<Rightarrow> peers \<Rightarrow> cageaddr list option" where
  "read_nodes msg num from p =
     (if u16_at 72 msg = domain_inet then read_nodes_inet (drop 76 msg) num from (\<lambda>i. is_timeout i p)
      else read_nodes_inet6 (drop 76 msg) num from (\<lambda>i. is_timeout i p))"

definition nodes_fit :: "u8 list \<Rightarrow> bool" where
  "nodes_fit msg \<longleftrightarrow>
     (if u16_at 72 msg = domain_inet then length msg = 76 + 28 * unat (u8_at 74 msg)
      else length msg = 76 + 40 * unat (u8_at 74 msg))"

definition stop_timer :: "uint160 \<Rightarrow> query \<Rightarrow> query" where
  "stop_timer i q = q\<lparr>q_timers := q_timers q - {i}\<rparr>"

definition reply_timer :: "uint160 \<Rightarrow> query \<Rightarrow> uint160 option" where
  "reply_timer i q = (if i \<in> q_timers q then Some i else if zero_id \<in> q_timers q then Some zero_id else None)"

definition query_answered :: "uint160 \<Rightarrow> query \<Rightarrow> query" where
  "query_answered i q = q\<lparr>q_sent := insert i (q_sent q), q_num := q_num q - 1\<rparr>"

definition merge_answer :: "cageaddr list \<Rightarrow> query \<Rightarrow> query" where
  "merge_answer nodes q = q\<lparr>q_nodes := merge_nodes (q_dst q) (q_nodes q) (sort_key (xor_dist (q_dst q)) nodes) num_find_node\<rparr>"

definition dt_recv_find_node_reply :: "int \<Rightarrow> u8 list \<Rightarrow> saddr \<Rightarrow> dtun \<Rightarrow> dtun option" where
  "dt_recv_find_node_reply now msg from s =
     (let nonce = u32_at 48 msg; src = hd_src (hdr_at msg) in
      case dt_query s nonce of
        None \<Rightarrow> Some s
      | Some q \<Rightarrow>
          if hd_dst (hdr_at msg) \<noteq> dt_id s \<or> q_dst q \<noteq> id_at 52 msg \<or> q_is_value q then Some s
          else case reply_timer src q of
            None \<Rightarrow> Some s
          | Some i \<Rightarrow>
              let q = stop_timer i q; s = set_query nonce q s in
              if u16_at 72 msg \<noteq> domain_inet \<and> u16_at 72 msg \<noteq> domain_inet6 \<or> \<not> nodes_fit msg then Some s
              else do {
                nodes \<leftarrow> read_nodes msg (unat (u8_at 74 msg)) from (dt_peers s);
                caddr \<leftarrow> new_cageaddr msg from;
                let s = set_query nonce (query_answered src q) s;
                s \<leftarrow> dt_add caddr s;
                s \<leftarrow> dt_add_peer now caddr s;
                send_find call_failed nonce (set_query nonce (merge_answer nodes (query_answered src q)) s)
              })"

subsection \<open>Requests\<close>

definition msg_dtun_request :: "uint160 \<Rightarrow> uint160 \<Rightarrow> u32 \<Rightarrow> uint160 \<Rightarrow> u8 list option" where
  "msg_dtun_request src dst nonce i = do {
     h \<leftarrow> hdr_bytes (new_hdr type_dtun_request 72 src dst);
     i \<leftarrow> id_bytes i;
     Some (h @ htonl_bytes nonce @ i)
   }"

text \<open>The bare header sent to the wanted node opens the own NAT for its answer.\<close>

definition msg_undefined :: "uint160 \<Rightarrow> uint160 \<Rightarrow> u16 \<Rightarrow> u8 list option" where
  "msg_undefined src dst junk = hdr_bytes ((new_hdr type_undefined 48 src dst)\<lparr>hd_reserved := junk\<rparr>)"

fun value_found :: "callback_find_value \<Rightarrow> cageaddr \<Rightarrow> cageaddr \<Rightarrow> dtun \<Rightarrow> dtun option" where
  "value_found (ValueTo tag) addr from s = Some (dt_called (ValueFound tag (Some (addr, from))) s)"
| "value_found (request_find_value nonce) addr from s = do {
     q \<leftarrow> dt_request s nonce;
     let s = set_request nonce (Some (q\<lparr>rq_finished := True, rq_timer := True\<rparr>)) s;
     m \<leftarrow> msg_undefined (dt_id s) (ca_id addr) (dt_junk s);
     m1 \<leftarrow> send_to m addr;
     m \<leftarrow> msg_dtun_request (dt_id s) (ca_id from) nonce (ca_id addr);
     m2 \<leftarrow> send_to m from;
     Some (dt_send (m1 @ m2) s)
   }"

text \<open>
  An answer to a value query is taken even if its sender was not asked, or has answered
  before; a domain that is neither gives no nodes.
\<close>

definition dt_recv_find_value_reply :: "int \<Rightarrow> u8 list \<Rightarrow> saddr \<Rightarrow> dtun \<Rightarrow> dtun option" where
  "dt_recv_find_value_reply now msg from s =
     (let nonce = u32_at 48 msg; src = hd_src (hdr_at msg);
          known = (u16_at 72 msg = domain_inet \<or> u16_at 72 msg = domain_inet6) in
      case dt_query s nonce of
        None \<Rightarrow> Some s
      | Some q \<Rightarrow>
          if hd_dst (hdr_at msg) \<noteq> dt_id s \<or> q_dst q \<noteq> id_at 52 msg \<or> \<not> q_is_value q then Some s
          else
            let q = stop_timer src q; s = set_query nonce q s in
            if known \<and> \<not> nodes_fit msg then Some s
            else do {
              nodes \<leftarrow> (if known then read_nodes msg (unat (u8_at 74 msg)) from (dt_peers s) else Some []);
              caddr \<leftarrow> new_cageaddr msg from;
              let q = query_answered src q;
              let s = set_query nonce q s;
              s \<leftarrow> dt_add caddr s;
              s \<leftarrow> dt_add_peer now caddr s;
              if u8_at 75 msg = 1 \<and> nodes \<noteq> [] then do {
                s \<leftarrow> (case q_func q of FindNode f \<Rightarrow> None | FindValue f \<Rightarrow> value_found f (hd nodes) caddr s);
                Some (erase_query nonce s)
              }
              else send_find call_failed nonce (set_query nonce (merge_answer nodes q) s)
            })"

definition dt_timer_request :: "u32 \<Rightarrow> dtun \<Rightarrow> dtun option" where
  "dt_timer_request nonce s = do {
     q \<leftarrow> dt_request s nonce;
     Some (set_request nonce None (dt_called (Requested (rq_func q) None) s))
   }"

definition dt_request_node :: "uint160 \<Rightarrow> nat \<Rightarrow> dtun \<Rightarrow> dtun option" where
  "dt_request_node dst func s = do {
     (nonce, rs) \<leftarrow> fresh_nonce (\<lambda>r. dt_request s r \<noteq> None) (rt_rnds (dt_rt s));
     let q = \<lparr>rq_func = func, rq_timer = False, rq_dst = dst, rq_finished = False, rq_retry = request_retry\<rparr>;
     let s = set_request nonce (Some q) (s\<lparr>dt_rt := (dt_rt s)\<lparr>rt_rnds := rs\<rparr>\<rparr>);
     dt_find_value dst (request_find_value nonce) s
   }"

definition msg_dtun_request_reply :: "uint160 \<Rightarrow> uint160 \<Rightarrow> u32 \<Rightarrow> u16 \<Rightarrow> u8 list option" where
  "msg_dtun_request_reply src dst nonce junk = do {
     h \<leftarrow> hdr_bytes ((new_hdr type_dtun_request_reply 52 src dst)\<lparr>hd_reserved := junk\<rparr>);
     Some (h @ htonl_bytes nonce)
   }"

text \<open>The address of the asking node is that of its datagram, passed on to the wanted node.\<close>

definition msg_dtun_request_by :: "uint160 \<Rightarrow> uint160 \<Rightarrow> u32 \<Rightarrow> cageaddr \<Rightarrow> u8 list option" where
  "msg_dtun_request_by src dst nonce addr = do {
     a \<leftarrow> (if ca_domain addr = domain_inet then write_node_inet addr else write_node_inet6 addr);
     h \<leftarrow> hdr_bytes (new_hdr type_dtun_request_by (56 + length a) src dst);
     Some (h @ htonl_bytes nonce @ htons_bytes (ca_domain addr) @ [0, 0] @ a)
   }"

definition dt_recv_request :: "int \<Rightarrow> u8 list \<Rightarrow> saddr \<Rightarrow> dtun \<Rightarrow> dtun option" where
  "dt_recv_request now msg from s =
     (if dt_nat s \<noteq> node_global \<or> hd_dst (hdr_at msg) \<noteq> dt_id s then Some s
      else do {
        addr \<leftarrow> new_cageaddr msg from;
        s \<leftarrow> dt_add_peer now addr s;
        if id_at 52 msg = dt_id s then do {
          m \<leftarrow> msg_dtun_request_reply (dt_id s) (hd_src (hdr_at msg)) (u32_at 48 msg) (dt_junk s);
          Some (dt_send [(m, from)] s)
        }
        else case dt_registered s (id_at 52 msg) of
          None \<Rightarrow> Some s
        | Some reg \<Rightarrow>
            if ca_domain (rg_addr reg) \<noteq> ca_domain addr then Some s
            else do {
              m \<leftarrow> msg_dtun_request_by (dt_id s) (ca_id (rg_addr reg)) (u32_at 48 msg) addr;
              ms \<leftarrow> send_to m (rg_addr reg);
              Some (dt_send ms s)
            }
      })"

definition dt_recv_request_by :: "u8 list \<Rightarrow> saddr \<Rightarrow> dtun \<Rightarrow> dtun option" where
  "dt_recv_request_by msg from s =
     (let dst = hd_dst (hdr_at msg); domain = u16_at 52 msg in
      if dst \<noteq> dt_id s \<and> dst \<notin> dt_proxied s then Some s
      else if domain = domain_inet then
        (if length msg \<noteq> 56 + 28 then Some s
         else do {
           m \<leftarrow> msg_dtun_request_reply dst (id_at 64 msg) (u32_at 48 msg) (dt_junk s);
           Some (dt_send [(m, In \<lparr>sin_port = u16_at 56 msg, sin_addr = u32_at 60 msg\<rparr>)] s)
         })
      else if domain = domain_inet6 then
        (if length msg \<noteq> 56 + 40 then Some s
         else do {
           m \<leftarrow> msg_dtun_request_reply dst (id_at 76 msg) (u32_at 48 msg) (dt_junk s);
           Some (dt_send [(m, In6 \<lparr>sin6_port = u16_at 56 msg, sin6_addr = take 16 (drop 60 msg)\<rparr>)] s)
         })
      else Some s)"

definition dt_recv_request_reply :: "int \<Rightarrow> u8 list \<Rightarrow> saddr \<Rightarrow> dtun \<Rightarrow> dtun option" where
  "dt_recv_request_reply now msg from s =
     (let nonce = u32_at 48 msg in
      if hd_dst (hdr_at msg) \<noteq> dt_id s then Some s
      else case dt_request s nonce of
        None \<Rightarrow> Some s
      | Some q \<Rightarrow> do {
          addr \<leftarrow> new_cageaddr msg from;
          if rq_dst q \<noteq> ca_id addr then Some s
          else do {
            s \<leftarrow> dt_add_peer now addr (set_request nonce None s);
            Some (dt_called (Requested (rq_func q) (Some addr)) s)
          }
        })"

subsection \<open>Registration\<close>

definition dt_register_node :: "uint160 \<Rightarrow> u32 \<Rightarrow> dtun \<Rightarrow> dtun option" where
  "dt_register_node src session s =
     (if \<not> dt_enabled s then Some s
      else dt_find_node src (register_callback src session) (s\<lparr>dt_registering := True\<rparr>))"

definition dt_register_self :: "dtun \<Rightarrow> dtun option" where
  "dt_register_self s = (if dt_registering s then Some s else dt_register_node (dt_id s) (dt_session s) s)"

text \<open>\<^verbatim>\<open>registered::operator==\<close>; \<open>None\<close> where it throws.\<close>

definition registered_eq :: "registered \<Rightarrow> registered \<Rightarrow> bool option" where
  "registered_eq r1 r2 =
     (let a = rg_addr r1; b = rg_addr r2 in
      if ca_id a \<noteq> ca_id b then Some False
      else if ca_domain a \<noteq> ca_domain b then Some False
      else if ca_domain a = domain_inet then do {
        in1 \<leftarrow> get_in (ca_saddr a);
        in2 \<leftarrow> get_in (ca_saddr b);
        Some (sin_port in1 = sin_port in2 \<and> sin_addr in1 = sin_addr in2)
      }
      else if ca_domain a = domain_inet6 then do {
        in1 \<leftarrow> get_in6 (ca_saddr a);
        in2 \<leftarrow> get_in6 (ca_saddr b);
        Some (sin6_port in1 = sin6_port in2 \<and> \<not> memcmp_differs 16 (sin6_addr in1) (sin6_addr in2))
      }
      else None)"

definition dt_recv_register :: "int \<Rightarrow> u8 list \<Rightarrow> saddr \<Rightarrow> dtun \<Rightarrow> dtun option" where
  "dt_recv_register now msg from s =
     (if hd_dst (hdr_at msg) \<noteq> dt_id s then Some s
      else do {
        addr \<leftarrow> new_cageaddr msg from;
        let r = \<lparr>rg_addr = addr, rg_session = u32_at 48 msg, rg_t = now\<rparr>;
        let i = ca_id addr;
        s \<leftarrow> (case dt_registered s i of
               None \<Rightarrow> Some (s\<lparr>dt_registered := (dt_registered s)(i \<mapsto> r)\<rparr>)
             | Some old \<Rightarrow>
                 if rg_session old = rg_session r then Some (s\<lparr>dt_registered := (dt_registered s)(i \<mapsto> r)\<rparr>)
                 else do {
                   same \<leftarrow> registered_eq old r;
                   Some (if same then s\<lparr>dt_registered := (dt_registered s)(i \<mapsto> old\<lparr>rg_t := rg_t r\<rparr>)\<rparr> else s)
                 });
        (b, p) \<leftarrow> add_node_session now addr (rg_session r) (dt_peers s);
        Some (s\<lparr>dt_peers := p\<rparr>)
      })"

subsection \<open>Maintenance\<close>

definition dt_refresh :: "int \<Rightarrow> dtun \<Rightarrow> dtun" where
  "dt_refresh now s = s\<lparr>dt_registered :=
     (\<lambda>i. case dt_registered s i of None \<Rightarrow> None | Some r \<Rightarrow> if now - rg_t r > registered_ttl then None else Some r)\<rparr>"

definition maintain :: "int \<Rightarrow> dtun \<Rightarrow> dtun option" where
  "maintain now s =
     (if now - dt_last_maintain s < maintain_interval then Some s
      else do {
        bit1 \<leftarrow> shift_left (160 - dt_mask_bit s) (bn_assign_T 5 1);
        bit2 \<leftarrow> shift_left (160 - dt_mask_bit s - 1) (bn_assign_T 5 1);
        s \<leftarrow> dt_find_node (bn_and (dt_id s) (bn_not bit1)) no_action s;
        s \<leftarrow> dt_find_node (bn_and (dt_id s) (bn_not bit2)) no_action s;
        let b = dt_mask_bit s + 2;
        Some (s\<lparr>dt_mask_bit := (if b > 20 then 1 else b), dt_last_maintain := now\<rparr>)
      })"

text \<open>
  The refresh timer is not set again while the node is disabled.  \<open>order\<close> is the order in
  which the peers are iterated, \<open>jitter\<close> is \<open>30\<close> times a random number of the unit interval.
\<close>

definition dt_timer_refresh :: "iteration \<Rightarrow> int \<Rightarrow> int \<Rightarrow> dtun \<Rightarrow> dtun option" where
  "dt_timer_refresh order now jitter s =
     (if \<not> dt_enabled s then Some (s\<lparr>dt_next_refresh := None\<rparr>)
      else do {
        s \<leftarrow> dt_register_self (dt_refresh now s);
        s \<leftarrow> maintain now s;
        s \<leftarrow> (if rt_is_zero (dt_rt s) then
               case get_first order (dt_peers s) of
                 None \<Rightarrow> Some s
               | Some addr \<Rightarrow>
                   if ca_domain addr = domain_inet then do { a \<leftarrow> get_in (ca_saddr addr); dt_find_node_addr (In a) no_action s }
                   else if ca_domain addr = domain_inet6 then do { a \<leftarrow> get_in6 (ca_saddr addr); dt_find_node_addr (In6 a) no_action s }
                   else Some s
             else Some s);
        Some (s\<lparr>dt_next_refresh := Some (now + (jitter + dt_timer_interval))\<rparr>)
      })"

definition set_enabled :: "bool \<Rightarrow> dtun \<Rightarrow> dtun" where
  "set_enabled enabled s = s\<lparr>dt_enabled := enabled\<rparr>"

end
