(* ===== verification/Dtun_Query.thy ===== *)
theory Dtun_Query
  imports Dtun Peers_Props Rttable_Inv
begin

section \<open>Queries of the directory of tunnels\<close>

subsection \<open>What a query asks\<close>

text \<open>
  \<open>fresh_nodes\<close> are the nodes not yet asked, each once; \<open>send_find\<close> asks as many of
  them as keep at most six answers outstanding.
\<close>

fun fresh_nodes :: "uint160 set \<Rightarrow> cageaddr list \<Rightarrow> cageaddr list" where
  "fresh_nodes sent [] = []"
| "fresh_nodes sent (c # nodes) =
     (if ca_id c \<in> sent then fresh_nodes sent nodes else c # fresh_nodes (insert (ca_id c) sent) nodes)"

definition to_ask :: "query \<Rightarrow> cageaddr list" where
  "to_ask q = take (nat (max_query - q_num q)) (fresh_nodes (q_sent q) (q_nodes q))"

definition asked :: "cageaddr list \<Rightarrow> query \<Rightarrow> query" where
  "asked cs q = q\<lparr>q_timers := ca_id ` set cs \<union> q_timers q, q_sent := ca_id ` set cs \<union> q_sent q, q_num := q_num q + int (length cs)\<rparr>"

fun ask_all :: "u32 \<Rightarrow> dtun \<Rightarrow> query \<Rightarrow> cageaddr list \<Rightarrow> sent option" where
  "ask_all nonce s q [] = Some []"
| "ask_all nonce s q (c # cs) = do {
     m \<leftarrow> (if q_is_value q then send_find_value c nonce q s else send_find_node c nonce q s);
     ms \<leftarrow> ask_all nonce s q cs;
     Some (m @ ms)
   }"

lemma asked_simps [simp]:
  "q_nodes (asked cs q) = q_nodes q" "q_dst (asked cs q) = q_dst q" "q_is_value (asked cs q) = q_is_value q" "q_func (asked cs q) = q_func q"
  "q_timers (asked cs q) = ca_id ` set cs \<union> q_timers q" "q_sent (asked cs q) = ca_id ` set cs \<union> q_sent q" "q_num (asked cs q) = q_num q + int (length cs)"
  by (simp_all add: asked_def)

lemma fresh_nodes_ids: "ca_id ` set (fresh_nodes sent nodes) = ca_id ` set nodes - sent"
  by (induction sent nodes rule: fresh_nodes.induct) auto

lemma fresh_nodes_distinct: "distinct (map ca_id (fresh_nodes sent nodes))"
  using fresh_nodes_ids by (induction sent nodes rule: fresh_nodes.induct) auto

lemma set_fresh_nodes: "set (fresh_nodes sent nodes) \<subseteq> set nodes"
  by (induction sent nodes rule: fresh_nodes.induct) auto

lemma send_find_same: "q_dst q' = q_dst q \<Longrightarrow> send_find_nv ty c nonce q' s = send_find_nv ty c nonce q s"
  by (simp add: send_find_nv_def)

lemma ask_all_asked: "q_dst q' = q_dst q \<Longrightarrow> q_is_value q' = q_is_value q \<Longrightarrow> ask_all nonce s q' cs = ask_all nonce s q cs"
  by (induction cs) (auto simp: send_find_value_def send_find_node_def send_find_same [of q' q])

lemma query_asked_simps [simp]:
  "q_num (query_asked i q) = q_num q + 1" "q_sent (query_asked i q) = insert i (q_sent q)"
  by (simp_all add: query_asked_def)

lemma asked_Cons: "asked cs (query_asked (ca_id c) q) = asked (c # cs) q"
  by (simp add: asked_def query_asked_def)

lemma send_find_loop_eq:
  "send_find_loop nonce s nodes q =
     (let cs = take (nat (max_query - q_num q)) (fresh_nodes (q_sent q) nodes) in
      do { ms \<leftarrow> ask_all nonce s q cs; Some (asked cs q, ms) })"
proof (induction nodes arbitrary: q)
  case Nil
  then show ?case by (cases q) (simp add: asked_def)
next
  case (Cons c nodes)
  show ?case
  proof (cases "q_num q \<ge> max_query")
    case True
    then show ?thesis by (cases q) (simp add: asked_def)
  next
    case False
    then have n: "nat (max_query - q_num q) = Suc (nat (max_query - (q_num q + 1)))" by simp
    have "ask_all nonce s (query_asked (ca_id c) q) cs = ask_all nonce s q cs" for cs
      by (rule ask_all_asked) (simp_all add: query_asked_def)
    then show ?thesis
      using False Cons.IH [of q] Cons.IH [of "query_asked (ca_id c) q"]
      by (cases "ca_id c \<in> q_sent q") (auto simp: n asked_Cons Let_def)
  qed
qed

lemma send_find_eq:
  "send_find failed nonce s = do {
     q \<leftarrow> dt_query s nonce;
     ms \<leftarrow> ask_all nonce s q (to_ask q);
     let s = dt_send ms (set_query nonce (asked (to_ask q) q) s);
     if q_num q + int (length (to_ask q)) = 0 then do {
       s \<leftarrow> query_callback failed (q_is_value q) (q_func q) (q_nodes q) s;
       Some (erase_query nonce s)
     }
     else Some s
   }"
  by (cases "dt_query s nonce")
    (auto simp: send_find_def send_find_loop_eq to_ask_def [symmetric] Let_def split: Option.bind_splits)


subsection \<open>Failing value queries\<close>

lemma dt_upd_simps [simp]:
  "dt_request (dt_send ms s) = dt_request s" "dt_request (set_query nonce q s) = dt_request s" "dt_request (erase_query nonce s) = dt_request s"
  "dt_query (dt_send ms s) = dt_query s" "dt_query (set_query nonce q s) = (dt_query s)(nonce \<mapsto> q)" "dt_query (set_request nonce r s) = dt_query s"
  "dt_query (erase_query nonce s) = (dt_query s)(nonce := None)" "dt_rt (dt_send ms s) = dt_rt s" "dt_rt (set_query nonce q s) = dt_rt s"
  "dt_rt (set_request nonce r s) = dt_rt s" "dt_rt (erase_query nonce s) = dt_rt s" "dt_rt (dt_called res s) = dt_rt s" "dt_query (dt_called res s) = dt_query s"
  "dt_results (dt_send ms s) = dt_results s" "dt_results (set_query nonce q s) = dt_results s" "dt_results (set_request nonce r s) = dt_results s"
  "dt_results (erase_query nonce s) = dt_results s" "dt_results (dt_called res s) = dt_results s @ [res]" "dt_request (dt_called res s) = dt_request s"
  "dt_request (set_request nonce r s) = (dt_request s)(nonce := r)" "dt_peers (dt_send ms s) = dt_peers s" "dt_peers (set_query nonce q s) = dt_peers s"
  "dt_peers (set_request nonce r s) = dt_peers s" "dt_peers (erase_query nonce s) = dt_peers s" "dt_peers (dt_called res s) = dt_peers s"
  "dt_enabled (dt_send ms s) = dt_enabled s" "dt_enabled (set_query nonce q s) = dt_enabled s" "dt_enabled (set_request nonce r s) = dt_enabled s"
  "dt_out (dt_send ms s) = dt_out s @ ms" "dt_out (set_query nonce q s) = dt_out s" "dt_out (set_request nonce r s) = dt_out s"
  "dt_out (erase_query nonce s) = dt_out s" "dt_out (dt_called res s) = dt_out s"
  "dt_registered (dt_send ms s) = dt_registered s" "dt_registered (set_query nonce q s) = dt_registered s"
  "dt_registered (set_request nonce r s) = dt_registered s" "dt_registered (erase_query nonce s) = dt_registered s" "dt_registered (dt_called res s) = dt_registered s"
  "dt_enabled (erase_query nonce s) = dt_enabled s" "dt_enabled (dt_called res s) = dt_enabled s" "dt_proxied (dt_send ms s) = dt_proxied s"
  "dt_domain (dt_send ms s) = dt_domain s" "dt_domain (set_query nonce q s) = dt_domain s" "dt_domain (set_request nonce r s) = dt_domain s"
  "dt_nat (dt_send ms s) = dt_nat s" "dt_nat (set_query nonce q s) = dt_nat s" "dt_nat (set_request nonce r s) = dt_nat s"
  "dt_junk (dt_send ms s) = dt_junk s" "dt_junk (set_query nonce q s) = dt_junk s" "dt_junk (set_request nonce r s) = dt_junk s"
  by (simp_all add: dt_upd)

text \<open>A value query calls its own callback only, in a state with the same requests.\<close>

lemma send_find_cong:
  assumes "\<And>s'. dt_request s' = dt_request s \<Longrightarrow> F f s' = G f s'" "dt_query s nonce = Some q" "q_func q = FindValue f" "q_is_value q"
  shows "send_find F nonce s = send_find G nonce s"
  using assms by (auto simp: send_find_eq Let_def intro!: Option.bind_cong)

lemma find_nv_cong:
  assumes "\<And>s'. dt_request s' = dt_request s \<Longrightarrow> F f s' = G f s'"
  shows "find_nv F dst (FindValue f) True s = find_nv G dst (FindValue f) True s"
proof -
  have "send_find F nonce (set_query nonce (new_query me nodes dst (FindValue f) True) s1) =
      send_find G nonce (set_query nonce (new_query me nodes dst (FindValue f) True) s1)" if "dt_request s1 = dt_request s" for nonce me nodes s1
    using that assms by (intro send_find_cong) (auto simp: new_query_def)
  then show ?thesis using assms by (auto simp: find_nv_def query_nonce_def intro!: Option.bind_cong split: option.splits)
qed

lemma retries_left_request: "retries_left (request_find_value nonce) s = (case dt_request s nonce of None \<Rightarrow> 0 | Some q \<Rightarrow> nat (rq_retry q))"
  by (simp add: retries_left_def)

lemma value_failed_fuel:
  "retries_left f s < n \<Longrightarrow> retries_left f s < m \<Longrightarrow> value_failed n f s = value_failed m f s"
proof (induction n arbitrary: m f s)
  case (Suc n)
  then obtain m' where m: "m = Suc m'" by (cases m) auto
  show ?case
  proof (cases f)
    case (request_find_value nonce)
    show ?thesis
    proof (cases "dt_request s nonce")
      case (Some q)
      let ?q = "q\<lparr>rq_retry := rq_retry q - 1\<rparr>"
      have "find_nv (value_failed n) (rq_dst q) (FindValue f) True (set_request nonce (Some ?q) s) =
          find_nv (value_failed m') (rq_dst q) (FindValue f) True (set_request nonce (Some ?q) s)" if "1 < rq_retry q"
        using that Suc.prems m Some
        by (intro find_nv_cong Suc.IH) (auto simp: request_find_value retries_left_request)
      then show ?thesis using Some request_find_value m by (simp add: Let_def)
    qed (simp add: m request_find_value)
  qed (simp add: m)
qed simp

text \<open>Property C24.  The callback of a value query that found nothing, which the model
  runs on fuel, is the function the code defines by its recursion through \<^verbatim>\<open>find_value\<close>: each
  call uses up one retry, a request that has one left starts the next query, and the last
  failure calls the requester back and forgets the request.\<close>

theorem request_retries_end:
  "call_failed (request_find_value nonce) s = do {
     q \<leftarrow> dt_request s nonce;
     let q = q\<lparr>rq_retry := rq_retry q - 1\<rparr>;
     let s = set_request nonce (Some q) s;
     if rq_retry q > 0 then dt_find_value (rq_dst q) (request_find_value nonce) s
     else Some (set_request nonce None (dt_called (Requested (rq_func q) None) s))
   }"
proof (cases "dt_request s nonce")
  case (Some q)
  let ?s = "set_request nonce (Some (q\<lparr>rq_retry := rq_retry q - 1\<rparr>)) s"
  have "find_nv (value_failed (nat (rq_retry q))) (rq_dst q) (FindValue (request_find_value nonce)) True ?s =
      find_nv call_failed (rq_dst q) (FindValue (request_find_value nonce)) True ?s" if "1 < rq_retry q"
    using that by (intro find_nv_cong) (auto simp: call_failed_def retries_left_request simp del: value_failed.simps intro!: value_failed_fuel)
  then show ?thesis using Some by (simp add: call_failed_def retries_left_request dt_find_value_def Let_def)
qed (simp add: call_failed_def)

end
