(* ===== verification/Dtun_Inv.thy ===== *)
theory Dtun_Inv
  imports Dtun_Query
begin

section \<open>Invariants of the directory of tunnels\<close>

text \<open>
  Every query that is stored waits for between one and six answers and has asked itself never
  and nobody twice; the timers of a node query are at most as many as the answers it waits for.
  Registered nodes are stored under their identifier with a proper address, and the cache of
  peers stays well formed.
\<close>

definition query_pre :: "uint160 \<Rightarrow> query \<Rightarrow> bool" where
  "query_pre me q \<longleftrightarrow> 0 \<le> q_num q \<and> q_num q \<le> max_query \<and> me \<in> q_sent q \<and> finite (q_timers q) \<and> q_timers q \<subseteq> insert zero_id (q_sent q) \<and>
     (q_is_value q \<longleftrightarrow> (\<exists>f. q_func q = FindValue f)) \<and> (\<not> q_is_value q \<longrightarrow> int (card (q_timers q)) \<le> q_num q)"

definition query_inv :: "uint160 \<Rightarrow> query \<Rightarrow> bool" where
  "query_inv me q \<longleftrightarrow> query_pre me q \<and> 1 \<le> q_num q"

lemma asked_pre:
  assumes "query_pre me q"
  shows "query_pre me (asked (to_ask q) q)"
proof -
  have len: "int (length (to_ask q)) \<le> max_query - q_num q" using assms by (auto simp: to_ask_def query_pre_def min_def)
  have "card (ca_id ` set (to_ask q) \<union> q_timers q) \<le> card (ca_id ` set (to_ask q)) + card (q_timers q)" by (rule card_Un_le)
  moreover have "card (ca_id ` set (to_ask q)) \<le> length (to_ask q)" by (metis card_image_le card_length finite_set le_trans)
  ultimately have "int (card (ca_id ` set (to_ask q) \<union> q_timers q)) \<le> int (card (q_timers q)) + int (length (to_ask q))" by simp
  then show ?thesis using assms len by (auto simp: query_pre_def)
qed

subsection \<open>What callbacks leave alone\<close>

text \<open>
  A callback may start queries, but it changes none of those there are; \<open>send_find\<close> on a
  query changes that query and may start others.
\<close>

definition grows :: "uint160 \<Rightarrow> (u32 \<rightharpoonup> query) \<Rightarrow> (u32 \<rightharpoonup> query) \<Rightarrow> bool" where
  "grows me m m' \<longleftrightarrow> (\<forall>n q. m n = Some q \<longrightarrow> m' n = Some q) \<and> (\<forall>n q. m n = None \<longrightarrow> m' n = Some q \<longrightarrow> query_inv me q)"

definition unchanged :: "dtun \<Rightarrow> dtun \<Rightarrow> bool" where
  "unchanged s s' \<longleftrightarrow> dt_id s' = dt_id s \<and> dt_peers s' = dt_peers s \<and> dt_registered s' = dt_registered s"

definition calls :: "dtun \<Rightarrow> dtun \<Rightarrow> bool" where
  "calls s s' \<longleftrightarrow> unchanged s s' \<and> grows (dt_id s) (dt_query s) (dt_query s')"

definition updates :: "u32 \<Rightarrow> dtun \<Rightarrow> dtun \<Rightarrow> bool" where
  "updates nonce s s' \<longleftrightarrow> unchanged s s' \<and> grows (dt_id s) ((dt_query s)(nonce := None)) (dt_query s')"

lemma grows_refl: "grows me m m"
  by (simp add: grows_def)

lemma grows_trans: "grows me m m1 \<Longrightarrow> grows me m1 m2 \<Longrightarrow> grows me m m2"
  unfolding grows_def by (metis option.exhaust)

lemma calls_same: "dt_query s' = dt_query s \<Longrightarrow> unchanged s s' \<Longrightarrow> calls s s'"
  by (simp add: calls_def grows_refl)

lemma calls_trans: "calls s s1 \<Longrightarrow> calls s1 s2 \<Longrightarrow> calls s s2"
  unfolding calls_def unchanged_def using grows_trans by metis

lemma nodes_callback_calls: "nodes_callback f nodes s = Some s' \<Longrightarrow> calls s s'"
  by (cases f) (auto intro!: calls_same simp: unchanged_def dt_upd split: Option.bind_splits)

lemma query_callback_calls:
  assumes F: "\<And>g s s'. F g s = Some s' \<Longrightarrow> calls s s'" and "query_callback F v f nodes s = Some s'"
  shows "calls s s'"
  using assms(2) by (cases "(F, v, f, nodes, s)" rule: query_callback.cases) (auto intro: F nodes_callback_calls)

lemma send_find_updates:
  assumes F: "\<And>g s s'. F g s = Some s' \<Longrightarrow> calls s s'"
    and q: "dt_query s nonce = Some q" "query_pre (dt_id s) q" and s': "send_find F nonce s = Some s'"
  shows "updates nonce s s'"
proof -
  obtain ms where ms: "ask_all nonce s q (to_ask q) = Some ms" using s' q(1) by (auto simp: send_find_eq split: Option.bind_splits)
  let ?s = "dt_send ms (set_query nonce (asked (to_ask q) q) s)"
  note pre = asked_pre [OF q(2)]
  show ?thesis
  proof (cases "q_num q + int (length (to_ask q)) = 0")
    case True
    then obtain s1 where s1: "query_callback F (q_is_value q) (q_func q) (q_nodes q) ?s = Some s1" "s' = erase_query nonce s1"
      using s' q(1) ms by (auto simp: send_find_eq Let_def split: Option.bind_splits)
    have "calls ?s s1" by (rule query_callback_calls [OF F s1(1)])
    then show ?thesis
      by (auto simp: calls_def updates_def unchanged_def grows_def s1(2) erase_query_def dt_send_def set_query_def split: if_splits)
  next
    case False
    then have "s' = ?s" using s' q(1) ms by (auto simp: send_find_eq Let_def)
    moreover have "query_inv (dt_id s) (asked (to_ask q) q)" using pre False q(2) by (auto simp: query_inv_def query_pre_def)
    ultimately show ?thesis by (auto simp: updates_def unchanged_def grows_def dt_upd)
  qed
qed

lemma fresh_nonce_unused: "fresh_nonce used rs = Some (nonce, rs') \<Longrightarrow> \<not> used nonce"
  by (induction used rs rule: fresh_nonce.induct) (auto split: if_splits)

lemma query_nonce_fresh:
  assumes "query_nonce s = Some (nonce, s1)"
  shows "dt_query s nonce = None \<and> unchanged s s1 \<and> dt_query s1 = dt_query s"
  using assms fresh_nonce_unused by (fastforce simp: query_nonce_def unchanged_def split: Option.bind_splits)

lemma find_nv_calls:
  assumes F: "\<And>g s s'. F g s = Some s' \<Longrightarrow> calls s s'" and s': "find_nv F dst f v s = Some s'" and f: "v \<longleftrightarrow> (\<exists>g. f = FindValue g)"
  shows "calls s s'"
proof -
  obtain nodes where nodes: "rt_lookup dst num_find_node (dt_rt s) = Some nodes" using s' by (auto simp: find_nv_def split: Option.bind_splits)
  show ?thesis
  proof (cases "length nodes = 1")
    case True
    then have c: "query_callback F v f nodes s = Some s'" using s' nodes by (simp add: find_nv_def)
    show ?thesis by (rule query_callback_calls [OF F c])
  next
    case False
    then obtain nonce s1 where n: "query_nonce s = Some (nonce, s1)"
      and send: "send_find F nonce (set_query nonce (new_query (dt_id s1) nodes dst f v) s1) = Some s'"
      using s' nodes by (auto simp: find_nv_def split: Option.bind_splits)
    note fresh = query_nonce_fresh [OF n]
    have "query_pre (dt_id s1) (new_query (dt_id s1) nodes dst f v)" using f by (simp add: query_pre_def new_query_def max_query_def)
    then have "updates nonce (set_query nonce (new_query (dt_id s1) nodes dst f v) s1) s'"
      using send_find_updates [OF F _ _ send] by simp
    moreover have "(dt_query s)(nonce := None) = dt_query s" using fresh by (simp add: fun_upd_idem)
    ultimately show ?thesis using fresh by (simp add: updates_def calls_def unchanged_def)
  qed
qed

lemma value_failed_calls: "value_failed n f s = Some s' \<Longrightarrow> calls s s'"
proof (induction n arbitrary: f s s')
  case (Suc n)
  show ?case
  proof (cases f)
    case (request_find_value nonce)
    then obtain q where q: "dt_request s nonce = Some q" using Suc.prems by (auto split: Option.bind_splits)
    let ?s = "set_request nonce (Some (q\<lparr>rq_retry := rq_retry q - 1\<rparr>)) s"
    have s: "calls s ?s" by (rule calls_same) (simp_all add: unchanged_def dt_upd)
    have "calls ?s s'"
    proof (cases "1 < rq_retry q \<and> dt_enabled s")
      case True
      then have nv: "find_nv (value_failed n) (rq_dst q) (FindValue f) True ?s = Some s'"
        using Suc.prems q request_find_value by (simp add: Let_def)
      show ?thesis by (rule find_nv_calls [OF Suc.IH nv]) auto
    next
      case False
      then show ?thesis using Suc.prems q request_find_value by (intro calls_same) (auto simp: unchanged_def dt_upd Let_def split: if_splits)
    qed
    then show ?thesis using s calls_trans by blast
  qed (use Suc.prems in \<open>auto intro!: calls_same simp: unchanged_def dt_upd\<close>)
qed simp

lemma call_failed_calls: "call_failed f s = Some s' \<Longrightarrow> calls s s'"
  unfolding call_failed_def by (rule value_failed_calls)


subsection \<open>The invariant\<close>

definition reg_ok :: "uint160 \<Rightarrow> registered \<Rightarrow> bool" where
  "reg_ok i r \<longleftrightarrow> ca_id (rg_addr r) = i \<and> addr_ok (ca_domain (rg_addr r), ca_saddr (rg_addr r))"

definition rest_inv :: "dtun \<Rightarrow> bool" where
  "rest_inv s \<longleftrightarrow> peers_inv (dt_peers s) \<and> (\<forall>i r. dt_registered s i = Some r \<longrightarrow> reg_ok i r)"

definition queries_inv :: "uint160 \<Rightarrow> (u32 \<rightharpoonup> query) \<Rightarrow> bool" where
  "queries_inv me m \<longleftrightarrow> (\<forall>n q. m n = Some q \<longrightarrow> query_inv me q)"

definition dt_inv :: "dtun \<Rightarrow> bool" where
  "dt_inv s \<longleftrightarrow> queries_inv (dt_id s) (dt_query s) \<and> rest_inv s"

lemma grows_inv: "grows me m m' \<Longrightarrow> queries_inv me m \<Longrightarrow> queries_inv me m'"
  unfolding grows_def queries_inv_def by (metis option.exhaust option.inject)

lemma unchanged_rest: "unchanged s s' \<Longrightarrow> rest_inv s \<Longrightarrow> rest_inv s'"
  by (simp add: unchanged_def rest_inv_def)

lemma calls_inv: "calls s s' \<Longrightarrow> dt_inv s \<Longrightarrow> dt_inv s'"
  using grows_inv unchanged_rest unfolding calls_def dt_inv_def unchanged_def by metis

lemma queries_inv_del: "queries_inv me m \<Longrightarrow> queries_inv me (m(n := None))"
  by (auto simp: queries_inv_def)

lemma queries_inv_upd: "queries_inv me (m(n := None)) \<Longrightarrow> query_inv me q \<Longrightarrow> queries_inv me (m(n \<mapsto> q))"
  by (auto simp: queries_inv_def split: if_splits)

lemma updates_inv: "updates nonce s s' \<Longrightarrow> queries_inv (dt_id s) ((dt_query s)(nonce := None)) \<Longrightarrow> rest_inv s \<Longrightarrow> dt_inv s'"
  using grows_inv unchanged_rest unfolding updates_def dt_inv_def unchanged_def by metis

lemma send_find_inv:
  assumes "send_find call_failed nonce (set_query nonce q s) = Some s'" "query_pre (dt_id s) q"
    "queries_inv (dt_id s) ((dt_query s)(nonce := None))" "rest_inv s"
  shows "dt_inv s'"
proof -
  have "updates nonce (set_query nonce q s) s'"
    by (rule send_find_updates [OF call_failed_calls _ _ assms(1), where q = q]) (simp_all add: assms(2))
  then show ?thesis using assms(3,4) updates_inv [of nonce "set_query nonce q s" s'] by (simp add: rest_inv_def)
qed

lemma rt_add_id: "rt_add c s = Some s' \<Longrightarrow> m_id s' = m_id s"
  by (auto simp: rt_add_def start_ping_def Let_def split: option.splits if_splits Option.bind_splits list.splits)

lemma rt_remove_id: "rt_remove i s = Some s' \<Longrightarrow> m_id s' = m_id s"
  by (auto simp: rt_remove_def Let_def split: if_splits Option.bind_splits)

lemma rt_reply_id: "rt_recv_ping_reply c n s = Some s' \<Longrightarrow> m_id s' = m_id s"
  by (auto simp: rt_recv_ping_reply_def ping_answered_def dest!: rotate_row_id split: option.splits if_splits Option.bind_splits)

lemma rt_timer_id: "timer_ping_fire n s = Some s' \<Longrightarrow> m_id s' = m_id s"
  by (auto simp: timer_ping_fire_def dest!: rotate_row_id split: Option.bind_splits)

lemma dt_add_eq:
  assumes "dt_add c s = Some s'"
  shows "\<exists>ms rt. s' = s\<lparr>dt_rt := rt, dt_out := dt_out s @ ms\<rparr> \<and> m_id rt = dt_id s"
  using assms by (auto simp: dt_add_def add_pinging_def dt_upd dest!: rt_add_id split: Option.bind_splits)

lemma new_cageaddr_ok:
  "new_cageaddr msg from = Some c \<Longrightarrow> addr_ok (ca_domain c, ca_saddr c) \<and> ca_id c = hd_src (hdr_at msg)"
  by (auto simp: new_cageaddr_def addr_ok_def split: saddr.splits)

lemma dt_add_peer_eq:
  assumes "dt_add_peer now c s = Some s'" "addr_ok (ca_domain c, ca_saddr c)" "peers_inv (dt_peers s)"
  shows "\<exists>p. s' = s\<lparr>dt_peers := p\<rparr> \<and> peers_inv p"
  using assms peers_inv_add by (auto simp: dt_add_peer_def add_node_def split: Option.bind_splits)

subsection \<open>Every operation keeps it\<close>

lemma query_answered_pre:
  assumes "query_inv me q" "reply_timer src q = Some i \<or> q_is_value q \<and> i = src"
  shows "query_pre me (merge_answer nodes (query_answered src (stop_timer i q)))"
proof -
  have "int (card (q_timers q - {i})) \<le> q_num q - 1" if "\<not> q_is_value q"
    using assms that card_gt_0_iff [of "q_timers q"]
    by (auto simp: query_inv_def query_pre_def reply_timer_def card_Diff_singleton of_nat_diff split: if_splits)
  then show ?thesis
    using assms(1) by (auto simp: query_inv_def query_pre_def merge_answer_def query_answered_def stop_timer_def)
qed

lemma stop_timer_inv:
  assumes "query_inv me q"
  shows "query_inv me (stop_timer i q)"
proof -
  have "card (q_timers q - {i}) \<le> card (q_timers q)" using assms by (intro card_mono) (auto simp: query_inv_def query_pre_def)
  then show ?thesis using assms by (auto simp: query_inv_def query_pre_def stop_timer_def)
qed

lemma set_query_inv: "dt_inv s \<Longrightarrow> query_inv (dt_id s) q \<Longrightarrow> dt_inv (set_query nonce q s)"
  by (auto simp: dt_inv_def queries_inv_def rest_inv_def dt_upd)

lemma same_inv: "dt_inv s \<Longrightarrow> dt_query s' = dt_query s \<Longrightarrow> unchanged s s' \<Longrightarrow> dt_inv s'"
  using calls_inv calls_same by blast

lemma erase_query_inv: "dt_inv s \<Longrightarrow> dt_inv (erase_query nonce s)"
  by (auto simp: dt_inv_def queries_inv_def rest_inv_def dt_upd)

lemma added_rest:
  assumes inv: "rest_inv s" and c: "new_cageaddr msg from = Some c" and add: "dt_add c s = Some s1" and peer: "dt_add_peer now c s1 = Some s2"
  shows "rest_inv s2 \<and> dt_query s2 = dt_query s \<and> dt_id s2 = dt_id s"
proof -
  obtain ms rt where s1: "s1 = s\<lparr>dt_rt := rt, dt_out := dt_out s @ ms\<rparr>" "m_id rt = dt_id s" using dt_add_eq [OF add] by blast
  moreover have "peers_inv (dt_peers s1)" using inv s1 by (simp add: rest_inv_def)
  moreover obtain p where "s2 = s1\<lparr>dt_peers := p\<rparr>" "peers_inv p"
    using dt_add_peer_eq [OF peer] new_cageaddr_ok [OF c] calculation(3) by blast
  ultimately show ?thesis using inv by (simp add: rest_inv_def)
qed

lemma peer_rest:
  assumes inv: "rest_inv s" and c: "new_cageaddr msg from = Some c" and peer: "dt_add_peer now c s = Some s2"
  shows "rest_inv s2 \<and> dt_query s2 = dt_query s \<and> dt_id s2 = dt_id s"
proof -
  obtain p where "s2 = s\<lparr>dt_peers := p\<rparr>" "peers_inv p"
    using dt_add_peer_eq [OF peer] new_cageaddr_ok [OF c] inv by (auto simp: rest_inv_def)
  then show ?thesis using inv by (simp add: rest_inv_def)
qed

text \<open>The common end of both kinds of answers.\<close>

lemma answer_inv:
  assumes inv: "dt_inv s" and q: "query_pre (dt_id s) q'" and c: "new_cageaddr msg from = Some c"
    and s1: "dt_add c (set_query n q1 (set_query n q0 s)) = Some s1" and s2: "dt_add_peer now c s1 = Some s2"
  shows "send_find call_failed n (set_query n q' s2) = Some s' \<Longrightarrow> dt_inv s'"
    "calls s2 s3 \<Longrightarrow> s' = erase_query n s3 \<Longrightarrow> dt_inv s'"
proof -
  have rest: "rest_inv (set_query n q1 (set_query n q0 s))" using inv by (simp add: dt_inv_def rest_inv_def dt_upd)
  have s2': "rest_inv s2" "dt_id s2 = dt_id s" "(dt_query s2)(n := None) = (dt_query s)(n := None)"
    using added_rest [OF rest c s1 s2] by simp_all
  have del: "queries_inv (dt_id s) ((dt_query s)(n := None))" using inv by (simp add: dt_inv_def queries_inv_del)
  show "dt_inv s'" if "send_find call_failed n (set_query n q' s2) = Some s'"
    using send_find_inv [OF that] q del s2' by simp
  show "dt_inv s'" if "calls s2 s3" "s' = erase_query n s3"
  proof -
    have "grows (dt_id s) ((dt_query s2)(n := None)) ((dt_query s3)(n := None))"
      using that(1) s2'(2) by (auto simp: calls_def grows_def)
    then have "queries_inv (dt_id s) ((dt_query s3)(n := None))" using del s2'(3) grows_inv by metis
    then show ?thesis using that s2' unchanged_rest [of s2 s3] by (auto simp: dt_inv_def calls_def unchanged_def rest_inv_def)
  qed
qed

text \<open>What an answer can do: nothing, stop a timer only, or be merged into its query.\<close>

lemma find_node_reply_cases:
  assumes s': "dt_recv_find_node_reply now msg from s = Some s'" and n: "n = u32_at 48 msg" and src: "src = hd_src (hdr_at msg)"
  shows "s' = s \<or> (\<exists>q i. dt_query s n = Some q \<and> \<not> q_is_value q \<and> reply_timer src q = Some i \<and>
    (s' = set_query n (stop_timer i q) s \<or>
     (\<exists>nodes c s1 s2. new_cageaddr msg from = Some c \<and>
        dt_add c (set_query n (query_answered src (stop_timer i q)) (set_query n (stop_timer i q) s)) = Some s1 \<and> dt_add_peer now c s1 = Some s2 \<and>
        send_find call_failed n (set_query n (merge_answer nodes (query_answered src (stop_timer i q))) s2) = Some s')))"
proof (cases "dt_query s n")
  case (Some q)
  show ?thesis
  proof (cases "hd_dst (hdr_at msg) \<noteq> dt_id s \<or> q_dst q \<noteq> id_at 52 msg \<or> q_is_value q \<or> reply_timer src q = None")
    case True
    then show ?thesis using s' Some by (auto simp: dt_recv_find_node_reply_def n src Let_def split: if_splits)
  next
    case False
    then obtain i where i: "reply_timer src q = Some i" by blast
    show ?thesis
    proof (cases "u16_at 72 msg \<noteq> domain_inet \<and> u16_at 72 msg \<noteq> domain_inet6 \<or> \<not> nodes_fit msg")
      case True
      then have "s' = set_query n (stop_timer i q) s" using s' Some i False by (auto simp: dt_recv_find_node_reply_def n src Let_def)
      then show ?thesis using Some i False by blast
    next
      case ok: False
      then have "\<exists>nodes c s1 s2. new_cageaddr msg from = Some c \<and>
          dt_add c (set_query n (query_answered src (stop_timer i q)) (set_query n (stop_timer i q) s)) = Some s1 \<and> dt_add_peer now c s1 = Some s2 \<and>
          send_find call_failed n (set_query n (merge_answer nodes (query_answered src (stop_timer i q))) s2) = Some s'"
        using s' Some i False by (auto simp: dt_recv_find_node_reply_def n src Let_def split: Option.bind_splits)
      then show ?thesis using Some i False by blast
    qed
  qed
qed (use s' in \<open>simp add: dt_recv_find_node_reply_def n\<close>)

lemma find_value_reply_cases:
  assumes s': "dt_recv_find_value_reply now msg from s = Some s'" and n: "n = u32_at 48 msg" and src: "src = hd_src (hdr_at msg)"
  shows "s' = s \<or> (\<exists>q. dt_query s n = Some q \<and> q_is_value q \<and>
    (s' = set_query n (stop_timer src q) s \<or>
     (\<exists>nodes c s1 s2. new_cageaddr msg from = Some c \<and>
        dt_add c (set_query n (query_answered src (stop_timer src q)) (set_query n (stop_timer src q) s)) = Some s1 \<and> dt_add_peer now c s1 = Some s2 \<and>
        ((\<exists>f s3. value_found f (hd nodes) c s2 = Some s3 \<and> s' = erase_query n s3) \<or>
         send_find call_failed n (set_query n (merge_answer nodes (query_answered src (stop_timer src q))) s2) = Some s'))))"
proof (cases "dt_query s n")
  case (Some q)
  let ?known = "u16_at 72 msg = domain_inet \<or> u16_at 72 msg = domain_inet6"
  let ?q = "query_answered src (stop_timer src q)"
  show ?thesis
  proof (cases "hd_dst (hdr_at msg) \<noteq> dt_id s \<or> q_dst q \<noteq> id_at 52 msg \<or> \<not> q_is_value q")
    case True
    then show ?thesis using s' Some by (auto simp: dt_recv_find_value_reply_def n Let_def)
  next
    case valid: False
    show ?thesis
    proof (cases "?known \<and> \<not> nodes_fit msg")
      case True
      then have "s' = set_query n (stop_timer src q) s" using s' Some valid by (auto simp: dt_recv_find_value_reply_def n src Let_def)
      then show ?thesis using Some valid by blast
    next
      case False
      obtain nodes where nodes: "(if ?known then read_nodes msg (unat (u8_at 74 msg)) from (dt_peers s) else Some []) = Some nodes"
        using s' Some valid False by (simp add: dt_recv_find_value_reply_def n Let_def split: Option.bind_splits if_splits)
      obtain c s1 s2 where c: "new_cageaddr msg from = Some c" "dt_add c (set_query n ?q (set_query n (stop_timer src q) s)) = Some s1"
        "dt_add_peer now c s1 = Some s2"
        and rest: "(if u8_at 75 msg = 1 \<and> nodes \<noteq> [] then do {
                s \<leftarrow> (case q_func ?q of FindNode f \<Rightarrow> None | FindValue f \<Rightarrow> value_found f (hd nodes) c s2);
                Some (erase_query n s)
              } else send_find call_failed n (set_query n (merge_answer nodes ?q) s2)) = Some s'"
        using s' Some valid False nodes by (auto simp: dt_recv_find_value_reply_def n src Let_def cong: if_cong split: Option.bind_splits)
      have "(\<exists>f s3. value_found f (hd nodes) c s2 = Some s3 \<and> s' = erase_query n s3) \<or>
          send_find call_failed n (set_query n (merge_answer nodes ?q) s2) = Some s'"
        using rest by (auto split: if_splits callback_func.splits Option.bind_splits)
      then show ?thesis using Some valid c by blast
    qed
  qed
qed (use s' in \<open>simp add: dt_recv_find_value_reply_def n\<close>)

lemma value_found_calls: "value_found f addr from s = Some s' \<Longrightarrow> calls s s'"
  by (cases f) (auto intro!: calls_same simp: unchanged_def dt_upd split: Option.bind_splits)

lemma find_node_reply_inv:
  assumes inv: "dt_inv s" and s': "dt_recv_find_node_reply now msg from s = Some s'"
  shows "dt_inv s'"
  using find_node_reply_cases [OF s' refl refl]
proof (elim disjE exE conjE)
  fix q i assume q: "dt_query s (u32_at 48 msg) = Some q" "reply_timer (hd_src (hdr_at msg)) q = Some i"
  then have qi: "query_inv (dt_id s) q" using inv by (auto simp: dt_inv_def queries_inv_def)
  show "dt_inv s'" if "s' = set_query (u32_at 48 msg) (stop_timer i q) s"
    using set_query_inv [OF inv stop_timer_inv [OF qi]] that by simp
  show "dt_inv s'" if "new_cageaddr msg from = Some c"
    "dt_add c (set_query (u32_at 48 msg) (query_answered (hd_src (hdr_at msg)) (stop_timer i q)) (set_query (u32_at 48 msg) (stop_timer i q) s)) = Some s1"
    "dt_add_peer now c s1 = Some s2"
    "send_find call_failed (u32_at 48 msg) (set_query (u32_at 48 msg) (merge_answer nodes (query_answered (hd_src (hdr_at msg)) (stop_timer i q))) s2) = Some s'"
    for nodes c s1 s2
    by (rule answer_inv(1) [OF inv query_answered_pre [OF qi disjI1 [OF q(2)]] that])
qed (use inv in simp)

lemma find_value_reply_inv:
  assumes inv: "dt_inv s" and s': "dt_recv_find_value_reply now msg from s = Some s'"
  shows "dt_inv s'"
  using find_value_reply_cases [OF s' refl refl]
proof (elim disjE exE conjE)
  fix q assume q: "dt_query s (u32_at 48 msg) = Some q" "q_is_value q"
  then have qi: "query_inv (dt_id s) q" using inv by (auto simp: dt_inv_def queries_inv_def)
  have ans: "query_pre (dt_id s) (merge_answer ns (query_answered (hd_src (hdr_at msg)) (stop_timer (hd_src (hdr_at msg)) q)))" for ns
    using query_answered_pre [OF qi] q(2) by blast
  show "dt_inv s'" if "s' = set_query (u32_at 48 msg) (stop_timer (hd_src (hdr_at msg)) q) s"
    using set_query_inv [OF inv stop_timer_inv [OF qi]] that by simp
  fix nodes c s1 s2
  assume c: "new_cageaddr msg from = Some c"
    "dt_add c (set_query (u32_at 48 msg) (query_answered (hd_src (hdr_at msg)) (stop_timer (hd_src (hdr_at msg)) q))
      (set_query (u32_at 48 msg) (stop_timer (hd_src (hdr_at msg)) q) s)) = Some s1"
    "dt_add_peer now c s1 = Some s2"
  show "dt_inv s'" if "value_found f (hd nodes) c s2 = Some s3" "s' = erase_query (u32_at 48 msg) s3" for f s3
    by (rule answer_inv(2) [OF inv ans c value_found_calls [OF that(1)] that(2)])
  show "dt_inv s'" if "send_find call_failed (u32_at 48 msg) (set_query (u32_at 48 msg)
      (merge_answer nodes (query_answered (hd_src (hdr_at msg)) (stop_timer (hd_src (hdr_at msg)) q))) s2) = Some s'"
    by (rule answer_inv(1) [OF inv ans c that])
qed (use inv in simp)

lemma timer_fired_pre:
  assumes qi: "query_inv me q" and i: "i \<in> q_timers q"
  shows "query_pre me (q\<lparr>q_sent := insert i (q_sent q), q_num := q_num q - 1, q_timers := q_timers q - {i}\<rparr>)"
    "query_pre me (q\<lparr>q_sent := insert i (q_sent q), q_num := q_num q - 1, q_timers := q_timers q - {i}, q_nodes := ns\<rparr>)"
proof -
  have "int (card (q_timers q - {i})) \<le> q_num q - 1" if "\<not> q_is_value q"
    using that qi i card_gt_0_iff [of "q_timers q"] by (auto simp: query_inv_def query_pre_def of_nat_diff)
  then show "query_pre me (q\<lparr>q_sent := insert i (q_sent q), q_num := q_num q - 1, q_timers := q_timers q - {i}\<rparr>)"
    "query_pre me (q\<lparr>q_sent := insert i (q_sent q), q_num := q_num q - 1, q_timers := q_timers q - {i}, q_nodes := ns\<rparr>)"
    using qi by (auto simp: query_inv_def query_pre_def)
qed

lemma timer_query_inv:
  assumes inv: "dt_inv s" and q: "dt_query s nonce = Some q" "i \<in> q_timers q" and s': "dt_timer_query now nonce i s = Some s'"
  shows "dt_inv s'"
proof -
  have qi: "query_inv (dt_id s) q" using inv q(1) by (auto simp: dt_inv_def queries_inv_def)
  let ?q1 = "q\<lparr>q_sent := insert i (q_sent q), q_num := q_num q - 1, q_timers := q_timers q - {i}\<rparr>"
  have pre: "query_pre (dt_id s) ?q1" "query_pre (dt_id s) (?q1\<lparr>q_nodes := ns\<rparr>)" for ns
    using timer_fired_pre [OF qi q(2)] by simp_all
  have del: "queries_inv (dt_id s) ((dt_query s)(nonce := None))" and rest: "rest_inv s" using inv by (simp_all add: dt_inv_def queries_inv_del)
  show ?thesis
  proof (cases "i = zero_id")
    case True
    then show ?thesis using s' q(1) send_find_inv [of nonce ?q1 s s'] pre(1) del rest by (simp add: dt_timer_query_def Let_def)
  next
    case False
    let ?q2 = "?q1\<lparr>q_nodes := filter (\<lambda>c. ca_id c \<noteq> i) (q_nodes q)\<rparr>"
    obtain rt where rt: "rt_remove i (dt_rt s) = Some rt"
      and send: "send_find call_failed nonce (set_query nonce ?q2 (s\<lparr>dt_peers := add_timeout now i (dt_peers s), dt_rt := rt\<rparr>)) = Some s'"
      using False s' q(1) by (auto simp: dt_timer_query_def Let_def split: Option.bind_splits)
    show ?thesis
      using send_find_inv [OF send] rt_remove_id [OF rt] pre(2) del rest by (simp add: rest_inv_def peers_inv_time_out)
  qed
qed

lemma calls_refl: "calls s s"
  by (rule calls_same) (simp_all add: unchanged_def)

lemma find_nv_call_failed:
  "find_nv call_failed dst (FindNode f) False s = Some s' \<Longrightarrow> calls s s'" "find_nv call_failed dst (FindValue g) True s = Some s' \<Longrightarrow> calls s s'"
  by (rule find_nv_calls [of call_failed], erule call_failed_calls, assumption, simp)+

lemma find_calls:
  "dt_find_node dst f s = Some s' \<Longrightarrow> calls s s'" "dt_find_value dst g s = Some s' \<Longrightarrow> calls s s'"
  by (auto simp: dt_find_node_def dt_find_value_def calls_refl split: if_splits intro: find_nv_call_failed)

lemma find_addr_inv:
  assumes inv: "dt_inv s" and s': "dt_find_node_addr sa f s = Some s'"
  shows "dt_inv s'"
proof (cases "dt_enabled s")
  case True
  then obtain nonce s1 m where n: "query_nonce s = Some (nonce, s1)"
    and s'_eq: "s' = dt_send m (set_query nonce ((new_query (dt_id s1) [] (dt_id s1) (FindNode f) False)\<lparr>q_num := 1, q_timers := {zero_id}\<rparr>) s1)"
    using s' by (auto simp: dt_find_node_addr_def Let_def split: Option.bind_splits)
  have "dt_inv s1" using query_nonce_fresh [OF n] inv same_inv by blast
  then have "dt_inv (set_query nonce ((new_query (dt_id s1) [] (dt_id s1) (FindNode f) False)\<lparr>q_num := 1, q_timers := {zero_id}\<rparr>) s1)"
    by (rule set_query_inv) (simp add: query_inv_def query_pre_def new_query_def max_query_def)
  then show ?thesis unfolding s'_eq by (rule same_inv) (simp_all add: unchanged_def)
qed (use s' inv in \<open>simp add: dt_find_node_addr_def\<close>)

lemma rest_same_inv: "dt_inv s \<Longrightarrow> rest_inv s' \<Longrightarrow> dt_query s' = dt_query s \<Longrightarrow> dt_id s' = dt_id s \<Longrightarrow> dt_inv s'"
  by (simp add: dt_inv_def)

lemma find_node_inv:
  assumes inv: "dt_inv s" and s': "dt_recv_find_node now msg from s = Some s'"
  shows "dt_inv s'"
proof (cases "s' = s")
  case False
  then obtain m c s1 where c: "new_cageaddr msg from = Some c"
    and s1: "(if u16_at 74 msg = state_global then dt_add c (dt_send m s) else Some (dt_send m s)) = Some s1" and s2: "dt_add_peer now c s1 = Some s'"
    using s' by (auto simp: dt_recv_find_node_def Let_def simp del: split_paired_Ex split: Option.bind_splits if_splits)
  have rest: "rest_inv (dt_send m s)" using inv by (simp add: dt_inv_def rest_inv_def)
  have "rest_inv s' \<and> dt_query s' = dt_query s \<and> dt_id s' = dt_id s"
    using added_rest [OF rest c _ s2] peer_rest [OF rest c] s1 s2 by (auto split: if_splits)
  then show ?thesis using rest_same_inv [OF inv] by blast
qed (use inv in simp)

lemma reply_nodes_keeps: "reply_nodes msg from flag s = Some s' \<Longrightarrow> dt_query s' = dt_query s \<and> unchanged s s'"
  by (auto simp: reply_nodes_def Let_def unchanged_def split: Option.bind_splits if_splits)

lemma find_value_inv:
  assumes inv: "dt_inv s" and s': "dt_recv_find_value now msg from s = Some s'"
  shows "dt_inv s'"
proof (cases "dt_nat s \<noteq> node_global \<or> hd_dst (hdr_at msg) \<noteq> dt_id s \<or> u16_at 72 msg \<noteq> dt_domain s")
  case False
  then obtain c s1 s2 where c: "new_cageaddr msg from = Some c"
    and s1: "(if u16_raw_at 74 msg = state_global then dt_add c s else Some s) = Some s1" and s2: "dt_add_peer now c s1 = Some s2"
    and s3: "(case dt_registered s2 (id_at 52 msg) of
          None \<Rightarrow> reply_nodes msg from 0 s2
        | Some r \<Rightarrow>
            if ca_domain (rg_addr r) = domain_inet \<or> ca_domain (rg_addr r) = domain_inet6 then do {
              m \<leftarrow> reply_registered msg r s2;
              Some (dt_send [(m, from)] s2)
            }
            else reply_nodes msg from 1 s2) = Some s'"
    using s' by (auto simp: dt_recv_find_value_def cong: if_cong split: Option.bind_splits)
  have rest: "rest_inv s" using inv by (simp add: dt_inv_def)
  have "rest_inv s2 \<and> dt_query s2 = dt_query s \<and> dt_id s2 = dt_id s"
    using added_rest [OF rest c _ s2] peer_rest [OF rest c] s1 s2 by (auto split: if_splits)
  then have "dt_inv s2" using rest_same_inv [OF inv] by blast
  moreover have "dt_query s' = dt_query s2 \<and> unchanged s2 s'"
    using s3 reply_nodes_keeps by (auto simp: unchanged_def split: option.splits if_splits Option.bind_splits)
  ultimately show ?thesis using same_inv by blast
qed (use s' inv in \<open>auto simp: dt_recv_find_value_def split: if_splits\<close>)


lemma request_inv:
  assumes inv: "dt_inv s" and s': "dt_request_node dst tag s = Some s'"
  shows "dt_inv s'"
proof -
  obtain nonce rs where "fresh_nonce (\<lambda>r. dt_request s r \<noteq> None) (rt_rnds (dt_rt s)) = Some (nonce, rs)"
    "dt_find_value dst (request_find_value nonce)
       (set_request nonce (Some \<lparr>rq_func = tag, rq_timer = False, rq_dst = dst, rq_finished = False, rq_retry = request_retry\<rparr>)
         (s\<lparr>dt_rt := (dt_rt s)\<lparr>rt_rnds := rs\<rparr>\<rparr>)) = Some s'"
    using s' by (auto simp: dt_request_node_def split: Option.bind_splits)
  moreover have "dt_inv (set_request nonce q (s\<lparr>dt_rt := (dt_rt s)\<lparr>rt_rnds := rs\<rparr>\<rparr>))" for q
    using inv by (rule same_inv) (simp_all add: unchanged_def)
  ultimately show ?thesis using find_calls(2) calls_inv by blast
qed

lemma recv_request_inv:
  assumes inv: "dt_inv s" and s': "dt_recv_request now msg from s = Some s'"
  shows "dt_inv s'"
proof (cases "dt_nat s \<noteq> node_global \<or> hd_dst (hdr_at msg) \<noteq> dt_id s")
  case False
  then obtain c s1 where c: "new_cageaddr msg from = Some c" and s1: "dt_add_peer now c s = Some s1"
    and s2: "dt_query s' = dt_query s1 \<and> unchanged s1 s'"
    using s' by (auto simp: dt_recv_request_def unchanged_def split: Option.bind_splits if_splits option.splits)
  have "rest_inv s1 \<and> dt_query s1 = dt_query s \<and> dt_id s1 = dt_id s" using peer_rest [OF _ c s1] inv by (simp add: dt_inv_def)
  then show ?thesis using rest_same_inv [OF inv] same_inv s2 by blast
qed (use s' inv in \<open>auto simp: dt_recv_request_def split: if_splits\<close>)

lemma recv_request_by_inv: "dt_inv s \<Longrightarrow> dt_recv_request_by msg from s = Some s' \<Longrightarrow> dt_inv s'"
  by (rule same_inv, assumption) (auto simp: dt_recv_request_by_def Let_def unchanged_def split: Option.bind_splits if_splits)

lemma recv_request_reply_inv:
  assumes inv: "dt_inv s" and s': "dt_recv_request_reply now msg from s = Some s'"
  shows "dt_inv s'"
proof (cases "s' = s")
  case False
  then obtain tag c s1 where c: "new_cageaddr msg from = Some c" and s1: "dt_add_peer now c (set_request (u32_at 48 msg) None s) = Some s1"
    and s2: "s' = dt_called (Requested tag (Some c)) s1"
    using s' by (auto simp: dt_recv_request_reply_def Let_def split: Option.bind_splits if_splits option.splits)
  have "rest_inv (set_request (u32_at 48 msg) None s)" using inv by (simp add: dt_inv_def rest_inv_def)
  then have "rest_inv s1 \<and> dt_query s1 = dt_query s \<and> dt_id s1 = dt_id s" using peer_rest [OF _ c s1] by simp
  then show ?thesis using rest_same_inv [OF inv, of s'] s2 by (simp add: rest_inv_def)
qed (use inv in simp)

lemma recv_register_inv:
  assumes inv: "dt_inv s" and s': "dt_recv_register now msg from s = Some s'"
  shows "dt_inv s'"
proof (cases "hd_dst (hdr_at msg) \<noteq> dt_id s")
  case False
  then obtain c s1 b p where c: "new_cageaddr msg from = Some c" and s'_eq: "s' = s1\<lparr>dt_peers := p\<rparr>"
    and p: "add_node_session now c (u32_at 48 msg) (dt_peers s) = Some (b, p)"
    and s1: "s1 = s \<or> s1 = s\<lparr>dt_registered := (dt_registered s)(ca_id c \<mapsto> \<lparr>rg_addr = c, rg_session = u32_at 48 msg, rg_t = now\<rparr>)\<rparr> \<or>
      (\<exists>old. dt_registered s (ca_id c) = Some old \<and> s1 = s\<lparr>dt_registered := (dt_registered s)(ca_id c \<mapsto> old\<lparr>rg_t := now\<rparr>)\<rparr>)"
    using s' by (auto simp: dt_recv_register_def Let_def split: Option.bind_splits if_splits option.splits)
  have "addr_ok (ca_domain c, ca_saddr c)" using new_cageaddr_ok [OF c] by blast
  moreover have "peers_inv p" using peers_inv_add [OF _ calculation p] inv by (simp add: dt_inv_def rest_inv_def)
  ultimately show ?thesis using s1 inv by (auto simp: s'_eq dt_inv_def rest_inv_def reg_ok_def split: if_splits)
qed (use s' inv in \<open>auto simp: dt_recv_register_def split: if_splits\<close>)

lemma register_inv:
  assumes inv: "dt_inv s" and s': "dt_register_node src session s = Some s'"
  shows "dt_inv s'"
proof -
  have "dt_inv (s\<lparr>dt_registering := True\<rparr>)" using inv by (rule same_inv) (simp_all add: unchanged_def)
  then show ?thesis using s' inv find_calls(1) calls_inv unfolding dt_register_node_def by (metis option.inject)
qed

lemma maintain_inv:
  assumes inv: "dt_inv s" and s': "maintain now s = Some s'"
  shows "dt_inv s'"
proof (cases "now - dt_last_maintain s < maintain_interval")
  case False
  then obtain d1 d2 s1 s2 where "dt_find_node d1 no_action s = Some s1" "dt_find_node d2 no_action s1 = Some s2"
    and s'_eq: "dt_query s' = dt_query s2" "unchanged s2 s'"
    using s' by (auto simp: maintain_def Let_def unchanged_def split: Option.bind_splits)
  then have "dt_inv s2" using find_calls(1) calls_inv inv by blast
  then show ?thesis using same_inv s'_eq by blast
qed (use s' inv in \<open>simp add: maintain_def\<close>)

lemma timer_refresh_inv:
  assumes inv: "dt_inv s" and s': "dt_timer_refresh order now jitter s = Some s'"
  shows "dt_inv s'"
proof (cases "dt_enabled s")
  case True
  then obtain s1 s2 s3 where s1: "dt_register_self (dt_refresh now s) = Some s1" and s2: "maintain now s1 = Some s2"
    and look: "(if rt_is_zero (dt_rt s2) then
               case get_first order (dt_peers s2) of
                 None \<Rightarrow> Some s2
               | Some addr \<Rightarrow>
                   if ca_domain addr = domain_inet then do { a \<leftarrow> get_in (ca_saddr addr); dt_find_node_addr (In a) no_action s2 }
                   else if ca_domain addr = domain_inet6 then do { a \<leftarrow> get_in6 (ca_saddr addr); dt_find_node_addr (In6 a) no_action s2 }
                   else Some s2
             else Some s2) = Some s3"
    and s'_eq: "s' = s3\<lparr>dt_next_refresh := Some (now + (jitter + dt_timer_interval))\<rparr>"
    using s' by (auto simp: dt_timer_refresh_def cong: if_cong split: Option.bind_splits)
  have s3: "s3 = s2 \<or> (\<exists>sa. dt_find_node_addr sa no_action s2 = Some s3)"
    using look by (auto split: Option.bind_splits if_splits option.splits)
  have "dt_inv (dt_refresh now s)" using inv by (auto simp: dt_inv_def rest_inv_def dt_refresh_def split: option.splits if_splits)
  then have "dt_inv s1" using s1 register_inv by (auto simp: dt_register_self_def split: if_splits)
  then have "dt_inv s2" using s2 maintain_inv by blast
  then have "dt_inv s3" using s3 find_addr_inv by blast
  then show ?thesis by (rule same_inv) (simp_all add: s'_eq unchanged_def)
next
  case False
  then show ?thesis using s' inv by (auto simp: dt_timer_refresh_def unchanged_def intro: same_inv)
qed


subsection \<open>Reachable states\<close>

text \<open>
  The steps are the public operations, with any arguments, and the timers that are set.
  Messages come from an address.  What the other components are asked for, NAT state, domain
  and proxied nodes, may change at any time.
\<close>

inductive dt_step :: "dtun \<Rightarrow> dtun \<Rightarrow> bool" where
  ping_timer: "nonce \<in> armed (dt_rt s) \<Longrightarrow> dt_timer_ping now nonce s = Some s' \<Longrightarrow> dt_step s s'"
| recv_ping: "dt_recv_ping now msg from s = Some s' \<Longrightarrow> dt_step s s'"
| recv_ping_reply: "dt_recv_ping_reply now msg from s = Some s' \<Longrightarrow> dt_step s s'"
| find_node: "dt_find_node dst f s = Some s' \<Longrightarrow> dt_step s s'"
| find_node_addr: "dt_find_node_addr sa f s = Some s' \<Longrightarrow> dt_step s s'"
| find_node_host: "dt_find_node_host sa' f s = Some s' \<Longrightarrow> dt_step s s'"
| find_value: "dt_find_value dst (ValueTo tag) s = Some s' \<Longrightarrow> dt_step s s'"
| query_timer: "dt_query s nonce = Some q \<Longrightarrow> i \<in> q_timers q \<Longrightarrow> dt_timer_query now nonce i s = Some s' \<Longrightarrow> dt_step s s'"
| recv_find_node: "dt_recv_find_node now msg from s = Some s' \<Longrightarrow> dt_step s s'"
| recv_find_value: "dt_recv_find_value now msg from s = Some s' \<Longrightarrow> dt_step s s'"
| recv_find_node_reply: "dt_recv_find_node_reply now msg from s = Some s' \<Longrightarrow> dt_step s s'"
| recv_find_value_reply: "dt_recv_find_value_reply now msg from s = Some s' \<Longrightarrow> dt_step s s'"
| request: "dt_request_node dst tag s = Some s' \<Longrightarrow> dt_step s s'"
| request_timer: "dt_request s nonce = Some r \<Longrightarrow> rq_timer r \<Longrightarrow> dt_timer_request nonce s = Some s' \<Longrightarrow> dt_step s s'"
| recv_request: "dt_recv_request now msg from s = Some s' \<Longrightarrow> dt_step s s'"
| recv_request_by: "dt_recv_request_by msg from s = Some s' \<Longrightarrow> dt_step s s'"
| recv_request_reply: "dt_recv_request_reply now msg from s = Some s' \<Longrightarrow> dt_step s s'"
| register: "dt_register_node src session s = Some s' \<Longrightarrow> dt_step s s'"
| register_self: "dt_register_self s = Some s' \<Longrightarrow> dt_step s s'"
| recv_register: "dt_recv_register now msg from s = Some s' \<Longrightarrow> dt_step s s'"
| refresh_timer: "dt_timer_refresh order now jitter s = Some s' \<Longrightarrow> dt_step s s'"
| enable: "dt_step s (set_enabled b s)"
| environment: "dt_step s (s\<lparr>dt_nat := st, dt_domain := dm, dt_proxied := ids\<rparr>)"

inductive_cases dt_stepE: "dt_step s s'"

inductive dt_steps :: "dtun \<Rightarrow> dtun \<Rightarrow> bool" where
  stay: "dt_steps s s"
| move: "dt_steps s s1 \<Longrightarrow> dt_step s1 s2 \<Longrightarrow> dt_steps s s2"

lemma ping_timer_inv:
  assumes inv: "dt_inv s" and s': "dt_timer_ping now nonce s = Some s'"
  shows "dt_inv s'"
proof -
  have "fold (add_timeout now) is p = p" if "peers_inv p" for "is" p
    using that by (induction "is") (simp_all add: peers_inv_time_out)
  then show ?thesis
    using s' inv by (auto simp: dt_timer_ping_def ping_timeout_fire_def dt_inv_def rest_inv_def dest!: rt_timer_id split: Option.bind_splits)
qed

lemma recv_ping_inv:
  assumes inv: "dt_inv s"
  shows "dt_recv_ping now msg from s = Some s' \<Longrightarrow> dt_inv s'" "dt_recv_ping_reply now msg from s = Some s' \<Longrightarrow> dt_inv s'"
proof -
  have peer: "peers_inv p" if "new_cageaddr msg from = Some c" "add_node now c (dt_peers s) = Some p" for c p
    using that peers_inv_add [of "dt_peers s" c] new_cageaddr_ok [OF that(1)] inv
    by (auto simp: add_node_def dt_inv_def rest_inv_def split: Option.bind_splits)
  show "dt_inv s'" if "dt_recv_ping now msg from s = Some s'"
    using that inv peer by (auto simp: dt_recv_ping_def recv_ping_tmpl_def dt_inv_def rest_inv_def split: Option.bind_splits if_splits)
  show "dt_inv s'" if "dt_recv_ping_reply now msg from s = Some s'"
    using that inv peer
    by (auto simp: dt_recv_ping_reply_def recv_ping_reply_tmpl_def dt_inv_def rest_inv_def dest!: rt_reply_id split: Option.bind_splits if_splits)
qed

lemma register_self_inv: "dt_inv s \<Longrightarrow> dt_register_self s = Some s' \<Longrightarrow> dt_inv s'"
  using register_inv by (auto simp: dt_register_self_def split: if_splits)

lemma small_steps_inv:
  "dt_inv s \<Longrightarrow> dt_timer_request nonce s = Some s' \<Longrightarrow> dt_inv s'" "dt_inv s \<Longrightarrow> dt_inv (set_enabled b s)"
  "dt_inv s \<Longrightarrow> dt_inv (s\<lparr>dt_nat := st, dt_domain := dm, dt_proxied := ids\<rparr>)"
  by (auto simp: dt_timer_request_def set_enabled_def dt_inv_def rest_inv_def split: Option.bind_splits)

lemma find_host_inv: "dt_inv s \<Longrightarrow> dt_find_node_host sa f s = Some s' \<Longrightarrow> dt_inv s'"
  using find_addr_inv by (auto simp: dt_find_node_host_def split: if_splits option.splits)

lemma dt_step_inv: "dt_step s s' \<Longrightarrow> dt_inv s \<Longrightarrow> dt_inv s'"
  by (erule dt_stepE)
    (blast intro: ping_timer_inv recv_ping_inv calls_inv find_calls find_addr_inv find_host_inv timer_query_inv find_node_inv find_value_inv
      find_node_reply_inv find_value_reply_inv request_inv small_steps_inv recv_request_inv recv_request_by_inv recv_request_reply_inv
      register_inv register_self_inv recv_register_inv timer_refresh_inv)+

lemma dt_steps_inv: "dt_steps s s' \<Longrightarrow> dt_inv s \<Longrightarrow> dt_inv s'"
  by (induction rule: dt_steps.induct) (auto intro: dt_step_inv)

lemma dtun_init_inv: "peers_inv p \<Longrightarrow> dt_inv (dtun_init i rs p st dm session junk now jitter)"
  by (simp add: dt_inv_def queries_inv_def rest_inv_def dtun_init_def)

end
