(* ===== verification/Dtun_Live.thy ===== *)
theory Dtun_Live
  imports Dtun_Query Rttable_Props
begin

section \<open>Queries nobody answers\<close>

text \<open>
  A node query that gets no answer at all asks every node it knows of, waits for each, and
  calls back.  \<open>waiting\<close> is what is left to wait for: answers outstanding and nodes to ask.
\<close>

definition sendable :: "cageaddr \<Rightarrow> bool" where
  "sendable c \<longleftrightarrow> length (ca_id c) = 5 \<and> (ca_domain c = domain_inet \<longrightarrow> (\<exists>a. ca_saddr c = In a)) \<and>
     (ca_domain c = domain_inet6 \<longrightarrow> (\<exists>a. ca_saddr c = In6 a))"

definition ids_ok :: "dtun \<Rightarrow> bool" where
  "ids_ok s \<longleftrightarrow> length (dt_id s) = 5 \<and> (\<forall>i \<in> m_nodes (dt_rt s). length i = 5)"

definition query_ok :: "query \<Rightarrow> bool" where
  "query_ok q \<longleftrightarrow> finite (q_timers q) \<and> q_num q = int (card (q_timers q)) \<and> q_num q \<le> max_query \<and>
     (q_nodes q \<noteq> [] \<longrightarrow> q_timers q \<subseteq> q_sent q) \<and> (\<forall>c \<in> set (q_nodes q). sendable c) \<and> length (q_dst q) = 5 \<and> \<not> q_is_value q"

definition waiting :: "query \<Rightarrow> nat" where
  "waiting q = card (q_timers q) + card (ca_id ` set (q_nodes q) - q_sent q)"

lemma send_to_sendable: "sendable c \<Longrightarrow> \<exists>ms. send_to m c = Some ms"
  by (auto simp: sendable_def send_to_def)

lemma msg_dtun_find_total:
  assumes "length src = 5" "length dst = 5" "length i = 5"
  shows "\<exists>m. msg_dtun_find ty src dst nonce i domain state = Some m"
  using assms by (auto simp: msg_dtun_find_def hdr_bytes_def new_hdr_def id_bytes_eq)

lemma ask_all_total:
  assumes "\<forall>c \<in> set cs. sendable c" "length (q_dst q) = 5" "length (dt_id s) = 5"
  shows "\<exists>ms. ask_all nonce s q cs = Some ms"
  using assms
proof (induction cs)
  case (Cons c cs)
  have "\<exists>ms. send_find_nv ty c nonce q s = Some ms" for ty
    using msg_dtun_find_total [of "dt_id s" "ca_id c" "q_dst q" ty nonce "dt_domain s" "dt_nat s"] Cons.prems send_to_sendable [of c]
    by (auto simp: send_find_nv_def sendable_def)
  then obtain m1 m2 where "send_find_value c nonce q s = Some m1" "send_find_node c nonce q s = Some m2"
    by (simp add: send_find_value_def send_find_node_def) blast
  then show ?case using Cons by auto
qed simp

lemma set_to_ask: "set (to_ask q) \<subseteq> set (q_nodes q)"
  using set_take_subset set_fresh_nodes by (fastforce simp: to_ask_def)

lemma to_ask_ids:
  "distinct (map ca_id (to_ask q))" "ca_id ` set (to_ask q) \<subseteq> ca_id ` set (q_nodes q) - q_sent q"
  using fresh_nodes_distinct [of "q_sent q" "q_nodes q"]
    image_mono [OF set_take_subset, of ca_id "nat (max_query - q_num q)" "fresh_nodes (q_sent q) (q_nodes q)"]
  by (simp_all add: to_ask_def take_map [symmetric] fresh_nodes_ids)

lemma length_to_ask: "length (to_ask q) = card (ca_id ` set (to_ask q))"
  using to_ask_ids(1) [of q] distinct_card by fastforce

lemma asked_ok:
  assumes "query_ok q"
  shows "query_ok (asked (to_ask q) q)" "waiting (asked (to_ask q) q) = waiting q"
proof -
  let ?A = "ca_id ` set (to_ask q)" and ?I = "ca_id ` set (q_nodes q) - q_sent q"
  have sub: "?A \<subseteq> ?I" by (rule to_ask_ids)
  have fin: "finite (q_timers q)" "q_num q = int (card (q_timers q))" "q_num q \<le> max_query" using assms by (simp_all add: query_ok_def)
  have disj: "?A \<inter> q_timers q = {}"
    using sub assms by (cases "q_nodes q = []") (auto simp: query_ok_def)
  have card: "card (?A \<union> q_timers q) = length (to_ask q) + card (q_timers q)"
    using disj fin(1) by (simp add: card_Un_disjoint length_to_ask)
  have "int (length (to_ask q)) \<le> max_query - q_num q" using fin by (simp add: to_ask_def)
  then show "query_ok (asked (to_ask q) q)"
    using assms card by (auto simp: query_ok_def)
  have "card (?I - ?A) = card ?I - length (to_ask q)" using sub by (simp add: card_Diff_subset length_to_ask)
  moreover have "ca_id ` set (q_nodes q) - (?A \<union> q_sent q) = ?I - ?A" by auto
  moreover have "length (to_ask q) \<le> card ?I" using sub by (simp add: length_to_ask card_mono)
  ultimately show "waiting (asked (to_ask q) q) = waiting q" using card by (simp add: waiting_def)
qed

text \<open>After \<open>send_find\<close> a query is finished, or an answer is awaited.\<close>

definition continues :: "u32 \<Rightarrow> nat \<Rightarrow> nat \<Rightarrow> dt_result list \<Rightarrow> dtun \<Rightarrow> bool" where
  "continues nonce tag n rs s \<longleftrightarrow> ids_ok s \<and>
     (case dt_query s nonce of
        None \<Rightarrow> \<exists>nodes. dt_results s = rs @ [NodesFound tag nodes]
      | Some q \<Rightarrow> query_ok q \<and> q_func q = FindNode (NodesTo tag) \<and> q_timers q \<noteq> {} \<and> waiting q \<le> n \<and> dt_results s = rs)"

lemma send_find_continues:
  assumes q: "dt_query s nonce = Some q" "query_ok q" "q_func q = FindNode (NodesTo tag)" and ids: "ids_ok s" and n: "waiting q \<le> n"
  shows "\<exists>s'. send_find call_failed nonce s = Some s' \<and> continues nonce tag n (dt_results s) s'"
proof -
  have "\<forall>c \<in> set (to_ask q). sendable c" using q(2) set_to_ask by (auto simp: query_ok_def)
  then obtain ms where ms: "ask_all nonce s q (to_ask q) = Some ms"
    using ask_all_total [of "to_ask q" q s nonce] q(2) ids unfolding query_ok_def ids_ok_def by blast
  note ok = asked_ok [OF q(2)]
  have num: "q_num q + int (length (to_ask q)) = int (card (q_timers (asked (to_ask q) q)))" "finite (q_timers (asked (to_ask q) q))"
    using ok(1) by (simp_all only: query_ok_def asked_simps)
  have val: "\<not> q_is_value q" using q(2) by (simp add: query_ok_def)
  show ?thesis
  proof (cases "q_num q + int (length (to_ask q)) = 0")
    case True
    then show ?thesis using q ms ids val by (auto simp: send_find_eq continues_def ids_ok_def Let_def)
  next
    case False
    then have "q_timers (asked (to_ask q) q) \<noteq> {}" using num by (metis card_gt_0_iff of_nat_eq_0_iff neq0_conv)
    then show ?thesis
      using False q ms ids ok n by (auto simp: send_find_eq continues_def ids_ok_def Let_def)
  qed
qed

lemma rt_remove_total:
  assumes "length (m_id rt) = 5" "\<forall>i \<in> m_nodes rt. length i = 5"
  shows "\<exists>rt'. rt_remove i rt = Some rt' \<and> m_id rt' = m_id rt \<and> m_nodes rt' \<subseteq> m_nodes rt"
proof (cases "i \<in> m_nodes rt")
  case True
  then have "id2i (m_id rt) i = Some (hbit (bn_val (m_id rt) XOR bn_val i))" using assms by (intro id2i_spec) auto
  then show ?thesis using True by (auto simp: rt_remove_def Let_def)
qed (simp add: rt_remove_def)


lemma timer_query_continues:
  assumes q: "dt_query s nonce = Some q" "query_ok q" "q_func q = FindNode (NodesTo tag)" and ids: "ids_ok s" and i: "i \<in> q_timers q"
  shows "\<exists>s'. dt_timer_query now nonce i s = Some s' \<and> continues nonce tag (waiting q - 1) (dt_results s) s' \<and> 0 < waiting q"
proof -
  let ?q1 = "q\<lparr>q_sent := insert i (q_sent q), q_num := q_num q - 1, q_timers := q_timers q - {i}\<rparr>"
  let ?q2 = "?q1\<lparr>q_nodes := filter (\<lambda>c. ca_id c \<noteq> i) (q_nodes q)\<rparr>"
  have fin: "finite (q_timers q)" using q(2) by (simp add: query_ok_def)
  then have card: "card (q_timers q) = Suc (card (q_timers q - {i}))" using i by (metis card.remove)
  have ok: "query_ok ?q1" "query_ok ?q2" using q(2) card by (auto simp: query_ok_def)
  have less: "card (ca_id ` set (q_nodes q) - insert i (q_sent q)) \<le> card (ca_id ` set (q_nodes q) - q_sent q)" by (intro card_mono) auto
  have "ca_id ` {c \<in> set (q_nodes q). ca_id c \<noteq> i} - insert i (q_sent q) = ca_id ` set (q_nodes q) - insert i (q_sent q)" by auto
  then have wait: "waiting ?q1 \<le> waiting q - 1" "waiting ?q2 \<le> waiting q - 1" "0 < waiting q"
    using card less by (simp_all add: waiting_def)
  show ?thesis
  proof (cases "i = zero_id")
    case True
    obtain s' where "send_find call_failed nonce (set_query nonce ?q1 s) = Some s' \<and> continues nonce tag (waiting q - 1) (dt_results s) s'"
      using send_find_continues [of "set_query nonce ?q1 s" nonce ?q1 tag "waiting q - 1"] ok(1) wait(1) q(3) ids by (auto simp: ids_ok_def)
    then show ?thesis using True q(1) wait(3) by (simp add: dt_timer_query_def Let_def)
  next
    case False
    obtain rt' where rt': "rt_remove i (dt_rt s) = Some rt'" "m_id rt' = dt_id s" "m_nodes rt' \<subseteq> m_nodes (dt_rt s)"
      using rt_remove_total ids unfolding ids_ok_def by blast
    let ?s = "set_query nonce ?q2 (s\<lparr>dt_peers := add_timeout now i (dt_peers s), dt_rt := rt'\<rparr>)"
    obtain s' where "send_find call_failed nonce ?s = Some s' \<and> continues nonce tag (waiting q - 1) (dt_results s) s'"
      using send_find_continues [of ?s nonce ?q2 tag "waiting q - 1"] ok(2) wait(2) q(3) ids rt' by (auto simp: ids_ok_def)
    then show ?thesis using False q(1) rt'(1) wait(3) by (simp add: dt_timer_query_def Let_def)
  qed
qed

subsection \<open>Runs of time-outs\<close>

text \<open>\<open>n\<close> timers of a query fire one after the other, in any order and at any times.\<close>

inductive timeouts :: "u32 \<Rightarrow> dtun \<Rightarrow> nat \<Rightarrow> dtun \<Rightarrow> bool" for nonce where
  nothing: "timeouts nonce s 0 s"
| fires: "timeouts nonce s n s1 \<Longrightarrow> dt_query s1 nonce = Some q \<Longrightarrow> i \<in> q_timers q \<Longrightarrow> dt_timer_query now nonce i s1 = Some s2 \<Longrightarrow>
    timeouts nonce s (Suc n) s2"

lemma timeouts_continue:
  assumes "timeouts nonce s1 n s2" "continues nonce tag m rs s1"
  shows "n \<le> m \<and> continues nonce tag (m - n) rs s2"
  using assms
proof (induction rule: timeouts.induct)
  case (fires s n s1 q i now s2)
  then have c: "n \<le> m" "query_ok q" "q_func q = FindNode (NodesTo tag)" "waiting q \<le> m - n" "dt_results s1 = rs" "ids_ok s1"
    by (auto simp: continues_def)
  with timer_query_continues [OF fires.hyps(2) c(2,3,6) fires.hyps(3), of now] fires.hyps(4)
  have "continues nonce tag (waiting q - 1) rs s2" "0 < waiting q" by auto
  then show ?case using c(1,4) by (auto simp: continues_def split: option.splits)
qed simp

lemma timeouts_progress:
  assumes "continues nonce tag m rs s" "dt_query s nonce \<noteq> None"
  shows "\<exists>n s'. timeouts nonce s n s' \<and> dt_query s' nonce = None"
proof -
  have "\<exists>n s'. timeouts nonce s0 n s' \<and> dt_query s' nonce = None" if "timeouts nonce s0 k s" "continues nonce tag m rs s" for s0 k s m
    using that
  proof (induction m arbitrary: k s)
    case (0 k s)
    then show ?case
      by (auto simp: continues_def waiting_def query_ok_def split: option.splits)
  next
    case (Suc m k s)
    show ?case
    proof (cases "dt_query s nonce")
      case (Some q)
      then have c: "query_ok q" "q_func q = FindNode (NodesTo tag)" "q_timers q \<noteq> {}" "waiting q \<le> Suc m" "dt_results s = rs" "ids_ok s"
        using Suc.prems by (auto simp: continues_def)
      then obtain i where i: "i \<in> q_timers q" by blast
      from timer_query_continues [OF Some c(1,2,6) i, of 0] obtain s' where
        s': "dt_timer_query 0 nonce i s = Some s'" "continues nonce tag (waiting q - 1) rs s'" using c(5) by auto
      then have "continues nonce tag m rs s'" using c(4) by (auto simp: continues_def split: option.splits)
      then show ?thesis using Suc.IH timeouts.fires [OF Suc.prems(1) Some i s'(1)] by blast
    qed (use Suc.prems in blast)
  qed
  then show ?thesis using assms timeouts.nothing by blast
qed


subsection \<open>From the start of the query\<close>

lemma started_continues:
  assumes s: "dt_enabled s" "rt_inv (dt_rt s)" "\<forall>c \<in> set (concat (map snd (m_table (dt_rt s)))). sendable c"
    and dst: "length dst = 5" and nonce: "rt_rnds (dt_rt s) = nonce # rs" "dt_query s nonce = None"
  shows "\<exists>s1. dt_find_node dst (NodesTo tag) s = Some s1 \<and> continues nonce tag 10 (dt_results s) s1"
proof -
  have id5: "length (dt_id s) = 5" and ids: "ids_ok s"
    using s(2) by (auto simp: rt_inv_def ids_ok_def table_ids_def row_ok_def)
  define nodes where "nodes = take 10 (sort_key (xor_dist dst) (all_nodes (dt_rt s)))"
  have look: "rt_lookup dst num_find_node (dt_rt s) = Some nodes"
    using lookup_closest [OF rt_inv_rows [OF s(2)] dst, of 10] by (simp add: num_find_node_def nodes_def)
  have "sendable c" if "c \<in> set nodes" for c
  proof -
    have "c \<in> set (all_nodes (dt_rt s))" using that by (auto simp: nodes_def dest: in_set_takeD)
    then show ?thesis using s(3) id5 by (auto simp: all_nodes_def self_addr_def sendable_def domain_defs)
  qed
  then have nodes: "\<forall>c \<in> set nodes. sendable c" "length nodes \<le> 10" by (auto simp: nodes_def)
  show ?thesis
  proof (cases "length nodes = 1")
    case True
    then show ?thesis using s(1) look nonce(2) ids by (simp add: dt_find_node_def find_nv_def continues_def ids_ok_def)
  next
    case False
    let ?s = "s\<lparr>dt_rt := (dt_rt s)\<lparr>rt_rnds := rs\<rparr>\<rparr>"
    let ?q = "new_query (dt_id s) nodes dst (FindNode (NodesTo tag)) False"
    have q: "query_ok ?q" using nodes dst by (simp add: query_ok_def new_query_def max_query_def)
    have "card (ca_id ` set nodes - {dt_id s}) \<le> card (ca_id ` set nodes)" by (intro card_mono) auto
    also have "\<dots> \<le> 10" using card_image_le [of "set nodes" ca_id] card_length [of nodes] nodes(2) by simp
    finally have "waiting ?q \<le> 10" by (simp add: waiting_def new_query_def)
    then obtain s1 where "send_find call_failed nonce (set_query nonce ?q ?s) = Some s1" "continues nonce tag 10 (dt_results s) s1"
      using send_find_continues [of "set_query nonce ?q ?s" nonce ?q tag 10] q ids by (auto simp: ids_ok_def new_query_def)
    then show ?thesis
      using s(1) look nonce False by (simp add: dt_find_node_def find_nv_def query_nonce_def)
  qed
qed

text \<open>Property C20.  A node query that nobody answers ends.  As its timers fire, in any order and at
  any time, at most ten do; until the last one the callback is not called, and then it is
  called once and the query is gone.  There is always such an end to go to, and no step fails.\<close>

theorem unanswered_query_ends:
  assumes "dt_enabled s" "rt_inv (dt_rt s)" "\<forall>c \<in> set (concat (map snd (m_table (dt_rt s)))). sendable c"
    and "length dst = 5" "rt_rnds (dt_rt s) = nonce # rs" "dt_query s nonce = None"
  shows "\<exists>s1. dt_find_node dst (NodesTo tag) s = Some s1 \<and>
    (\<exists>n s'. timeouts nonce s1 n s' \<and> dt_query s' nonce = None) \<and>
    (\<forall>n s'. timeouts nonce s1 n s' \<longrightarrow> n \<le> 10 \<and>
      (if dt_query s' nonce = None then \<exists>nodes. dt_results s' = dt_results s @ [NodesFound tag nodes]
       else dt_results s' = dt_results s \<and> (\<forall>q i now. dt_query s' nonce = Some q \<and> i \<in> q_timers q \<longrightarrow> dt_timer_query now nonce i s' \<noteq> None)))"
proof -
  obtain s1 where s1: "dt_find_node dst (NodesTo tag) s = Some s1" "continues nonce tag 10 (dt_results s) s1"
    using started_continues [OF assms] by blast
  have "\<exists>n s'. timeouts nonce s1 n s' \<and> dt_query s' nonce = None"
    using timeouts_progress [OF s1(2)] timeouts.nothing [of nonce s1] by (cases "dt_query s1 nonce = None") blast+
  moreover have "n \<le> 10 \<and> (if dt_query s' nonce = None then \<exists>nodes. dt_results s' = dt_results s @ [NodesFound tag nodes]
       else dt_results s' = dt_results s \<and> (\<forall>q i now. dt_query s' nonce = Some q \<and> i \<in> q_timers q \<longrightarrow> dt_timer_query now nonce i s' \<noteq> None))"
    if "timeouts nonce s1 n s'" for n s'
  proof -
    have c: "n \<le> 10" "continues nonce tag (10 - n) (dt_results s) s'" using timeouts_continue [OF that s1(2)] by simp_all
    have "dt_timer_query now nonce i s' \<noteq> None" if "dt_query s' nonce = Some q" "i \<in> q_timers q" for q i now
      using timer_query_continues [of s' nonce q tag i now] c(2) that by (auto simp: continues_def)
    then show ?thesis using c by (auto simp: continues_def split: option.splits)
  qed
  ultimately show ?thesis using s1(1) by blast
qed

definition dt_sample :: dtun where
  "dt_sample = (dtun_init me0 [] empty_peers node_global domain_inet 5 0 1000 0)\<lparr>dt_rt := filled [7] 20\<rparr>"

theorem unanswered_query_ends_witness:
  "\<exists>s1. dt_find_node (node_id 3) (NodesTo 1) dt_sample = Some s1 \<and> (\<exists>n s'. timeouts 7 s1 n s' \<and> dt_query s' 7 = None)"
proof -
  have "rt_inv (dt_rt dt_sample)" using rt_reach_inv [OF filled_reach] by (simp add: dt_sample_def)
  moreover have "\<forall>c \<in> set (concat (map snd (m_table (dt_rt dt_sample)))). sendable c"
    by (simp add: dt_sample_def filled_def node_at_def node_id_def sendable_def domain_defs)
  moreover have "rt_rnds (dt_rt dt_sample) = 7 # []" by (simp add: dt_sample_def filled_def rttable_init_def)
  ultimately show ?thesis
    using unanswered_query_ends [of dt_sample "node_id 3" 7 "[]" 1]
    by (auto simp: dt_sample_def dtun_init_def node_id_def)
qed

end
