(* ===== verification/Dtun_Msgs.thy ===== *)
theory Dtun_Msgs
  imports Dtun_Query Dgram_Props
begin

section \<open>Messages of the directory of tunnels\<close>

text \<open>The fields a receiver reads are those the sender wrote.\<close>

lemma u16_raw_at_append: "length pre \<le> off \<Longrightarrow> u16_raw_at off (pre @ bs) = u16_raw_at (off - length pre) bs"
  by (simp add: u16_raw_at_def)

text \<open>No state a node writes is \<open>state_global\<close> when it is read in the order of the machine.\<close>

lemma raw_state: "u16_raw_at 0 (htons_bytes (if g then state_global else state_nat)) \<noteq> state_global"
  by (simp add: u16_raw_at_def htons_bytes_def state_global_def state_nat_def)

definition find_msg :: "u8 list \<Rightarrow> u8 \<Rightarrow> uint160 \<Rightarrow> uint160 \<Rightarrow> u32 \<Rightarrow> uint160 \<Rightarrow> u16 \<Rightarrow> bool" where
  "find_msg m ty src dst nonce i domain \<longleftrightarrow> length m = 76 \<and> hdr_at m = new_hdr ty 76 src dst \<and> u32_at 48 m = nonce \<and> id_at 52 m = i \<and>
     u16_at 72 m = domain \<and> u16_raw_at 74 m \<noteq> state_global"

lemma find_fields:
  assumes "length src = 5" "length dst = 5" "length i = 5"
  shows "\<exists>m. msg_dtun_find ty src dst nonce i domain st = Some m \<and> find_msg m ty src dst nonce i domain \<and>
    u16_at 74 m = (if st = node_global then state_global else state_nat)"
proof -
  obtain h where h: "hdr_bytes (new_hdr ty 76 src dst) = Some h" using hdr_total [OF assms(1,2)] by force
  obtain b where b: "id_bytes i = Some b" using assms(3) by (simp add: id_bytes_eq)
  note l = hdr_fields(1) [OF assms(1,2) h] length_id_bytes [OF assms(3) b]
  let ?st = "if st = node_global then state_global else state_nat"
  let ?m = "h @ htonl_bytes nonce @ b @ htons_bytes domain @ htons_bytes ?st"
  have "id_at 52 ?m = i" using l id_at_bytes [OF assms(3) b] by (simp add: at_append)
  moreover have "u16_raw_at 74 ?m \<noteq> state_global" using l raw_state [of "st = node_global"] by (simp add: u16_raw_at_append)
  moreover have "u16_at 74 ?m = ?st" using l at_head(1) [of ?st "[]"] by (simp add: at_append)
  ultimately show ?thesis
    using h b l hdr_fields(2) [OF assms(1,2) h] by (simp add: msg_dtun_find_def find_msg_def at_append)
qed


lemma at_take:
  "off + 4 \<le> n \<Longrightarrow> n \<le> length bs \<Longrightarrow> u32_at off (take n bs @ rest) = u32_at off bs"
  "off + 2 \<le> n \<Longrightarrow> n \<le> length bs \<Longrightarrow> u16_at off (take n bs @ rest) = u16_at off bs"
  "off + 20 \<le> n \<Longrightarrow> n \<le> length bs \<Longrightarrow> id_at off (take n bs @ rest) = id_at off bs"
  by (auto simp: u32_at_def u16_at_def id_at_def drop_take min_def)

lemma at_drop:
  "u32_at off (drop k bs) = u32_at (off + k) bs" "u16_at off (drop k bs) = u16_at (off + k) bs" "id_at off (drop k bs) = id_at (off + k) bs"
  by (simp_all add: u32_at_def u16_at_def id_at_def)

definition reply_msg :: "u8 list \<Rightarrow> u8 \<Rightarrow> uint160 \<Rightarrow> uint160 \<Rightarrow> u32 \<Rightarrow> uint160 \<Rightarrow> u16 \<Rightarrow> u8 \<Rightarrow> u8 \<Rightarrow> u8 list \<Rightarrow> bool" where
  "reply_msg m ty src dst nonce i domain num flag addrs \<longleftrightarrow> length m = 76 + length addrs \<and> hdr_at m = new_hdr ty (76 + length addrs) src dst \<and>
     u32_at 48 m = nonce \<and> id_at 52 m = i \<and> u16_at 72 m = domain \<and> u8_at 74 m = num \<and> u8_at 75 m = flag \<and> drop 76 m = addrs"

lemma reply_fields:
  assumes "find_msg msg t src dst nonce i domain" "length me = 5" "length src = 5"
  shows "\<exists>m. msg_dtun_reply ty me msg num flag addrs = Some m \<and> reply_msg m ty me src nonce i domain num flag addrs"
proof -
  have msg: "length msg = 76" "hd_src (hdr_at msg) = src" "u32_at 48 msg = nonce" "id_at 52 msg = i" "u16_at 72 msg = domain"
    using assms(1) by (simp_all add: find_msg_def new_hdr_def)
  obtain h where h: "hdr_bytes (new_hdr ty (76 + length addrs) me src) = Some h" using hdr_total [OF assms(2,3)] by force
  note l = hdr_fields(1) [OF assms(2,3) h]
  let ?b = "take 26 (drop 48 msg)"
  have b: "length ?b = 26" using msg(1) by simp
  have "u32_at 0 (?b @ r) = nonce" "id_at 4 (?b @ r) = i" "u16_at 24 (?b @ r) = domain" for r
    using msg by (simp_all add: at_take at_drop)
  then show ?thesis
    using h l b msg hdr_fields(2) [OF assms(2,3) h] by (simp add: msg_dtun_reply_def reply_msg_def at_append at_Cons numeral_eq_Suc)
qed

definition nonce_msg :: "u8 list \<Rightarrow> u8 \<Rightarrow> uint160 \<Rightarrow> uint160 \<Rightarrow> u32 \<Rightarrow> bool" where
  "nonce_msg m ty src dst nonce \<longleftrightarrow> hd_type (hdr_at m) = ty \<and> hd_src (hdr_at m) = src \<and> hd_dst (hdr_at m) = dst \<and> u32_at 48 m = nonce"

lemma hdr_junk_fields:
  assumes "length src = 5" "length dst = 5"
  shows "\<exists>h. hdr_bytes ((new_hdr ty n src dst)\<lparr>hd_reserved := junk\<rparr>) = Some h \<and> length h = 48 \<and>
    (\<forall>rest. hdr_at (h @ rest) = (new_hdr ty n src dst)\<lparr>hd_reserved := junk\<rparr>)"
proof -
  let ?h = "(new_hdr ty n src dst)\<lparr>hd_reserved := junk\<rparr>"
  have l: "length (hd_src ?h) = 5" "length (hd_dst ?h) = 5" using assms by (simp_all add: new_hdr_def)
  obtain h where "hdr_bytes ?h = Some h" using hdr_roundtrip [OF l] by blast
  then show ?thesis using hdr_roundtrip [OF l] by (auto simp: hdr_size_def)
qed

lemma register_fields:
  assumes "length src = 5" "length dst = 5"
  shows "\<exists>m. msg_dtun_register src dst session = Some m \<and> nonce_msg m type_dtun_register src dst session"
proof -
  obtain h where h: "hdr_bytes (new_hdr type_dtun_register 52 src dst) = Some h" using hdr_total [OF assms] by force
  show ?thesis
    using h hdr_fields(1,2) [OF assms h] at_head(2) [of session "[]"]
    by (simp add: msg_dtun_register_def nonce_msg_def new_hdr_def at_append)
qed

lemma request_reply_fields:
  assumes "length src = 5" "length dst = 5"
  shows "\<exists>m. msg_dtun_request_reply src dst nonce junk = Some m \<and> nonce_msg m type_dtun_request_reply src dst nonce"
proof -
  obtain h where h: "hdr_bytes ((new_hdr type_dtun_request_reply 52 src dst)\<lparr>hd_reserved := junk\<rparr>) = Some h" "length h = 48"
    "\<forall>rest. hdr_at (h @ rest) = (new_hdr type_dtun_request_reply 52 src dst)\<lparr>hd_reserved := junk\<rparr>"
    using hdr_junk_fields [OF assms] by blast
  then show ?thesis
    using at_head(2) [of nonce "[]"] by (simp add: msg_dtun_request_reply_def nonce_msg_def new_hdr_def at_append)
qed

lemma request_fields:
  assumes "length src = 5" "length dst = 5" "length i = 5"
  shows "\<exists>m. msg_dtun_request src dst nonce i = Some m \<and> nonce_msg m type_dtun_request src dst nonce \<and> id_at 52 m = i"
proof -
  obtain h where h: "hdr_bytes (new_hdr type_dtun_request 72 src dst) = Some h" using hdr_total [OF assms(1,2)] by force
  obtain b where b: "id_bytes i = Some b" using assms(3) by (simp add: id_bytes_eq)
  show ?thesis
    using h b hdr_fields(1,2) [OF assms(1,2) h] id_at_bytes [OF assms(3) b, of "[]"]
    by (simp add: msg_dtun_request_def nonce_msg_def new_hdr_def at_append)
qed

lemma request_by_fields:
  assumes "length src = 5" "length dst = 5" "length i = 5"
  shows "\<exists>m. msg_dtun_request_by src dst nonce (inet_node i a) = Some m \<and> nonce_msg m type_dtun_request_by src dst nonce \<and> length m = 84 \<and>
    u16_at 52 m = domain_inet \<and> u16_at 56 m = sin_port a \<and> u32_at 60 m = sin_addr a \<and> id_at 64 m = i"
proof -
  obtain b where b: "id_bytes i = Some b" using assms(3) by (simp add: id_bytes_eq)
  let ?a = "htons_bytes (sin_port a) @ [0, 0] @ htonl_bytes (sin_addr a) @ b"
  have a: "write_node_inet (inet_node i a) = Some ?a" using b by (simp add: write_node_inet_def domain_defs inet_node_def)
  have lb: "length b = 20" by (rule length_id_bytes [OF assms(3) b])
  obtain h where h: "hdr_bytes (new_hdr type_dtun_request_by (56 + length ?a) src dst) = Some h" using hdr_total [OF assms(1,2)] by force
  show ?thesis
    using h a lb hdr_fields(1,2) [OF assms(1,2) h] id_at_bytes [OF assms(3) b, of "[]"]
    by (simp add: msg_dtun_request_by_def nonce_msg_def new_hdr_def at_append at_Cons numeral_eq_Suc)
qed

end
