(* ===== verification/Dtun_Props.thy ===== *)
theory Dtun_Props
  imports Dtun_Inv Dtun_Live Dtun_Msgs
begin

section \<open>What the directory of tunnels promises\<close>

subsection \<open>The closest nodes of two sets\<close>

lemma take_insort_greater:
  assumes "sorted xs" "n \<le> length (filter (\<lambda>x. x < r) xs)"
  shows "take n (insort (r :: nat) xs) = take n xs"
  using assms
proof (induction xs arbitrary: n)
  case (Cons x xs)
  show ?case
  proof (cases "x < r")
    case True
    then show ?thesis using Cons by (cases n) auto
  next
    case False
    then have "filter (\<lambda>x. x < r) (x # xs) = []" using Cons.prems(1) by (auto simp: filter_empty_conv)
    then show ?thesis using Cons.prems(2) by simp
  qed
qed simp

lemma take_sorted_insert_greater:
  assumes "finite S" "n \<le> card {x \<in> S. x < r}" "r \<notin> S"
  shows "take n (sorted_list_of_set (insert (r :: nat) S)) = take n (sorted_list_of_set S)"
proof -
  have "length (filter (\<lambda>x. x < r) (sorted_list_of_set S)) = card {x \<in> S. x < r}"
    using assms(1) distinct_card [of "filter (\<lambda>x. x < r) (sorted_list_of_set S)"] by simp
  then show ?thesis using assms take_insort_greater [of "sorted_list_of_set S" n r] by (simp add: sorted_list_of_set_insert)
qed

lemma take_sorted_union_greater:
  assumes "finite R" "finite S" "R \<inter> S = {}" "T \<subseteq> S" "n \<le> card T" "\<forall>r \<in> R. \<forall>t \<in> T. t < (r :: nat)"
  shows "take n (sorted_list_of_set (S \<union> R)) = take n (sorted_list_of_set S)"
  using assms
proof (induction R rule: finite_induct)
  case (insert r R)
  have "T \<subseteq> {x \<in> S \<union> R. x < r}" using insert.prems by auto
  then have "n \<le> card {x \<in> S \<union> R. x < r}" using insert.prems(1,4) insert.hyps(1) card_mono [of "{x \<in> S \<union> R. x < r}" T] by auto
  then have "take n (sorted_list_of_set (insert r (S \<union> R))) = take n (sorted_list_of_set (S \<union> R))"
    using insert by (intro take_sorted_insert_greater) auto
  then show ?case using insert by simp
qed simp

lemma take_sorted_union:
  assumes X: "finite X" and Y: "finite Y"
  shows "take n (sorted_list_of_set (X \<union> set (take n (sorted_list_of_set Y)))) = take n (sorted_list_of_set (X \<union> (Y :: nat set)))"
proof (cases "card Y \<le> n")
  case True
  then show ?thesis using Y by simp
next
  case False
  let ?l = "sorted_list_of_set Y"
  let ?T = "set (take n ?l)" and ?R = "set (drop n ?l) - X"
  have less: "\<forall>t \<in> ?T. \<forall>r \<in> set (drop n ?l). t < r"
  proof -
    have "sorted_wrt (<) (take n ?l @ drop n ?l)" by simp
    then show ?thesis unfolding sorted_wrt_append by blast
  qed
  have card: "card ?T = n" using False distinct_card [of "take n ?l"] by simp
  have un: "X \<union> Y = (X \<union> ?T) \<union> ?R" using set_append [of "take n ?l" "drop n ?l"] Y by auto
  have "take n (sorted_list_of_set ((X \<union> ?T) \<union> ?R)) = take n (sorted_list_of_set (X \<union> ?T))"
    using X less card by (intro take_sorted_union_greater [where T = ?T]) auto
  then show ?thesis unfolding un by simp
qed

lemma lookup_dists:
  assumes "rows_ok rt" "length i = 5" "\<forall>c \<in> set (concat (map snd (m_table rt))). ca_id c \<noteq> m_id rt"
  shows "map (xor_dist i) (take n (sort_key (xor_dist i) (all_nodes rt))) = take n (sorted_list_of_set (xor_dist i ` set (all_nodes rt)))"
proof -
  have ids: "\<forall>c \<in> set (all_nodes rt). length (ca_id c) = 5" "distinct (map ca_id (all_nodes rt))"
    using assms(1,3) by (fastforce simp: rows_ok_def all_nodes_def self_addr_def)+
  have "inj_on (xor_dist i) (set (all_nodes rt))"
  proof (rule inj_onI)
    fix c d assume cd: "c \<in> set (all_nodes rt)" "d \<in> set (all_nodes rt)" "xor_dist i c = xor_dist i d"
    then have "ca_id c = ca_id d" using xor_dist_eq [OF assms(2)] ids(1) by blast
    then show "c = d" using cd ids(2) by (simp add: distinct_map inj_on_def)
  qed
  then have "distinct (map (xor_dist i) (all_nodes rt))" using ids(2) by (simp add: distinct_map)
  then have "sorted_list_of_set (set (map (xor_dist i) (all_nodes rt))) = sort (map (xor_dist i) (all_nodes rt))"
    by (simp only: sorted_list_of_set_sort_remdups distinct_remdups_id)
  moreover have "map (xor_dist i) (sort_key (xor_dist i) xs) = sort (map (xor_dist i) xs)" for xs
    by (rule properties_for_sort [symmetric]) simp_all
  ultimately show ?thesis by (simp add: take_map [symmetric])
qed


subsection \<open>One question and its answer\<close>

lemma dt_add_peer_inet:
  assumes "peers_inv (dt_peers s)"
  shows "\<exists>p. dt_add_peer now (inet_node i a) s = Some (s\<lparr>dt_peers := p\<rparr>) \<and> peers_inv p \<and>
    (get_addr i (dt_peers s) = None \<longrightarrow> get_addr i p = Some (inet_node i a))"
proof -
  obtain b p where p: "add_node_session now (inet_node i a) 0 (dt_peers s) = Some (b, p)"
    using add_inet_node [OF assms] by blast
  have "peers_inv p" using peers_inv_add [OF assms _ p] by (simp add: addr_ok_def)
  moreover have "get_addr i p = Some (inet_node i a)" if "get_addr i (dt_peers s) = None"
    using add_inet_node_new [OF assms that, of now a 0] p by auto
  ultimately show ?thesis using p by (intro exI [of _ p]) (simp add: dt_add_peer_def add_node_def)
qed

lemma dt_add_known:
  assumes "length (dt_id s) = 5" "length (ca_id c) = 5" "ca_id c \<in> m_nodes (dt_rt s) \<or> ca_id c = dt_id s"
  shows "dt_add c s = Some s"
  using assms id2i_spec [OF assms(1,2)] by (auto simp: dt_add_def add_pinging_def rt_add_def dt_send_def)

lemma read_reply:
  assumes r: "reply_msg r ty src dst nonce i domain_inet num flag addrs" and w: "write_nodes_inet nodes = Some addrs"
    and ok: "\<forall>c \<in> set nodes. node_inet_ok c" "num = of_nat (length nodes)" "length nodes < 256" and p: "peers_inv p"
  shows "nodes_fit r \<and> read_nodes r (unat (u8_at 74 r)) (In b) p = Some (map (seen_from domain_inet (In b)) nodes)"
proof -
  have n: "unat (u8_at 74 r) = length nodes" using r ok by (simp add: reply_msg_def unat_of_nat)
  obtain bs where bs: "write_nodes_inet nodes = Some bs" "length bs = 28 * length nodes"
    "read_nodes_inet (bs @ []) (length nodes) (In b) (\<lambda>i. is_timeout i p) =
      Some (map (seen_from domain_inet (In b)) (filter (\<lambda>c. \<not> is_timeout (ca_id c) p) nodes))"
    using nodes_inet_list [OF ok(1)] by blast
  have "bs = addrs" using bs(1) w by simp
  moreover have "\<not> is_timeout j p" for j using p by (simp add: is_timeout_def peers_inv_def)
  ultimately show ?thesis using r n bs by (simp add: nodes_fit_def read_nodes_def reply_msg_def)
qed

lemma seen_from_dist [simp]: "xor_dist i (seen_from d a c) = xor_dist i c" "ca_id (seen_from d a c) = ca_id c"
  by (simp_all add: seen_from_def xor_dist_def)

lemma write_nodes_total:
  assumes "\<forall>c \<in> set nodes. node_inet_ok c"
  shows "\<exists>bs. write_nodes_inet nodes = Some bs"
  using nodes_inet_list [OF assms] by blast

text \<open>What a node that can answer offers: a global node whose table holds IPv4 nodes.\<close>

definition answers :: "dtun \<Rightarrow> bool" where
  "answers s \<longleftrightarrow> dt_nat s = node_global \<and> dt_domain s = domain_inet \<and> rt_inv (dt_rt s) \<and> peers_inv (dt_peers s) \<and>
     (\<forall>c \<in> set (concat (map snd (m_table (dt_rt s)))). node_inet_ok c \<and> ca_id c \<noteq> dt_id s)"

lemma answers_lookup:
  assumes "answers s" "length i = 5"
  shows "\<exists>nodes. rt_lookup i num_find_node (dt_rt s) = Some nodes \<and> length nodes \<le> 10 \<and> (\<forall>c \<in> set nodes. node_inet_ok c) \<and>
    map (xor_dist i) nodes = take 10 (sorted_list_of_set (xor_dist i ` set (all_nodes (dt_rt s))))"
proof -
  have rows: "rows_ok (dt_rt s)" using assms(1) rt_inv_rows by (simp add: answers_def)
  let ?nodes = "take 10 (sort_key (xor_dist i) (all_nodes (dt_rt s)))"
  have "rt_lookup i num_find_node (dt_rt s) = Some ?nodes" using lookup_closest [OF rows assms(2), of 10] by (simp add: num_find_node_def)
  moreover have "node_inet_ok c" if "c \<in> set ?nodes" for c
  proof -
    have "c \<in> set (all_nodes (dt_rt s))" using in_set_takeD [OF that] by simp
    then show ?thesis using assms(1) rows by (auto simp: answers_def all_nodes_def self_addr_def node_inet_ok_def rows_ok_def)
  qed
  moreover have "map (xor_dist i) ?nodes = take 10 (sorted_list_of_set (xor_dist i ` set (all_nodes (dt_rt s))))"
    using lookup_dists [OF rows assms(2)] assms(1) by (simp add: answers_def)
  ultimately show ?thesis by (intro exI [of _ ?nodes]) simp
qed

lemma find_node_answered:
  assumes B: "answers B" and me: "length me = 5" and i: "length i = 5"
    and m: "find_msg m type_dtun_find_node me (dt_id B) nonce i domain_inet" "u16_at 74 m = state_global \<longrightarrow> me \<in> m_nodes (dt_rt B)"
  shows "\<exists>B' r nodes addrs. dt_recv_find_node now m (In a) B = Some B' \<and> dt_out B' = dt_out B @ [(r, In a)] \<and>
    reply_msg r type_dtun_find_node_reply (dt_id B) me nonce i domain_inet (of_nat (length nodes)) 0 addrs \<and> write_nodes_inet nodes = Some addrs \<and>
    length nodes \<le> 10 \<and> (\<forall>c \<in> set nodes. node_inet_ok c) \<and>
    map (xor_dist i) nodes = take 10 (sorted_list_of_set (xor_dist i ` set (all_nodes (dt_rt B))))"
proof -
  have idB: "length (dt_id B) = 5" using B by (simp add: answers_def rt_inv_def)
  obtain nodes where nodes: "rt_lookup i num_find_node (dt_rt B) = Some nodes" "length nodes \<le> 10" "\<forall>c \<in> set nodes. node_inet_ok c"
    "map (xor_dist i) nodes = take 10 (sorted_list_of_set (xor_dist i ` set (all_nodes (dt_rt B))))"
    using answers_lookup [OF B i] by blast
  obtain addrs where addrs: "write_nodes_inet nodes = Some addrs" using write_nodes_total [OF nodes(3)] by blast
  obtain r where r: "msg_dtun_reply type_dtun_find_node_reply (dt_id B) m (of_nat (length nodes)) 0 addrs = Some r"
    "reply_msg r type_dtun_find_node_reply (dt_id B) me nonce i domain_inet (of_nat (length nodes)) 0 addrs"
    using reply_fields [OF m(1) idB me] by blast
  have hdr: "hd_dst (hdr_at m) = dt_id B" "new_cageaddr m (In a) = Some (inet_node me a)" "id_at 52 m = i" "u16_at 72 m = domain_inet"
    using m(1) by (simp_all add: find_msg_def new_hdr_def new_cageaddr_in)
  let ?s = "dt_send [(r, In a)] B"
  have "dt_add (inet_node me a) ?s = Some ?s" if "u16_at 74 m = state_global" using that m(2) idB me by (intro dt_add_known) auto
  moreover obtain p where "dt_add_peer now (inet_node me a) ?s = Some (?s\<lparr>dt_peers := p\<rparr>)"
    using dt_add_peer_inet [of ?s now me a] B by (auto simp: answers_def)
  ultimately have "dt_recv_find_node now m (In a) B = Some (?s\<lparr>dt_peers := p\<rparr>)"
    using B hdr nodes(1) addrs r(1) by (simp add: dt_recv_find_node_def answers_def write_nodes_def Let_def)
  then show ?thesis using nodes addrs r(2) by (intro exI [of _ "?s\<lparr>dt_peers := p\<rparr>"] exI [of _ r] exI [of _ nodes] exI [of _ addrs]) simp
qed


lemma merged_dists:
  assumes q: "length dst = 5" "sorted_wrt (<) (map (xor_dist dst) ns)" "\<forall>c \<in> set ns. length (ca_id c) = 5"
    and nodes: "map (xor_dist dst) nodes = take 10 (sorted_list_of_set D)" "\<forall>c \<in> set nodes. length (ca_id c) = 5" "finite D"
  shows "map (xor_dist dst) (merge_nodes dst ns (sort_key (xor_dist dst) nodes) num_find_node) =
    take 10 (sorted_list_of_set (xor_dist dst ` set ns \<union> D))"
proof -
  have "sorted_wrt (<) (map (xor_dist dst) nodes)" unfolding nodes(1) by (simp add: sorted_wrt_take)
  moreover from this have "sort_key (xor_dist dst) nodes = nodes"
    by (intro sort_key_id_if_sorted) (simp add: strict_sorted_imp_sorted)
  moreover have "xor_dist dst ` set nodes = set (take 10 (sorted_list_of_set D))" using nodes(1) by (metis set_map)
  ultimately show ?thesis
    using merge_loop_spec [of dst ns nodes "{}" 10 "[]"] q nodes(2) take_sorted_union [of "xor_dist dst ` set ns" D 10] nodes(3)
    by (simp add: merge_nodes_def by_dist_def dists_def image_Un num_find_node_def)
qed

text \<open>Property C21.  A node asks another during a node query: the answer makes the query hold the ten
  closest nodes to its target of those it had and all those the other knows, itself
  included, although the answer carries ten only; the answer is no longer awaited, and
  the query goes on.\<close>

theorem find_node_answer_merged:
  assumes B: "answers B" and A: "length (dt_id A) = 5" "peers_inv (dt_peers A)" "dt_id B \<in> m_nodes (dt_rt A)"
    and global: "dt_nat A = node_global \<longrightarrow> dt_id A \<in> m_nodes (dt_rt B)"
    and q: "dt_query A nonce = Some q" "dt_id B \<in> q_timers q" "\<not> q_is_value q" "length (q_dst q) = 5"
    and sorted: "sorted_wrt (<) (map (xor_dist (q_dst q)) (q_nodes q))" "\<forall>c \<in> set (q_nodes q). length (ca_id c) = 5"
  shows "\<exists>m B' r A1 q'. msg_dtun_find type_dtun_find_node (dt_id A) (dt_id B) nonce (q_dst q) domain_inet (dt_nat A) = Some m \<and>
    dt_recv_find_node now m (In a) B = Some B' \<and> dt_out B' = dt_out B @ [(r, In a)] \<and>
    dt_recv_find_node_reply now r (In b) A = send_find call_failed nonce A1 \<and> dt_query A1 nonce = Some q' \<and>
    q_timers q' = q_timers q - {dt_id B} \<and> q_num q' = q_num q - 1 \<and> dt_id B \<in> q_sent q' \<and>
    map (xor_dist (q_dst q)) (q_nodes q') =
      take 10 (sorted_list_of_set (xor_dist (q_dst q) ` (set (q_nodes q) \<union> set (all_nodes (dt_rt B)))))"
proof -
  have idB: "length (dt_id B) = 5" using B by (simp add: answers_def rt_inv_def)
  obtain m where m: "msg_dtun_find type_dtun_find_node (dt_id A) (dt_id B) nonce (q_dst q) domain_inet (dt_nat A) = Some m"
    "find_msg m type_dtun_find_node (dt_id A) (dt_id B) nonce (q_dst q) domain_inet" "u16_at 74 m = state_global \<longrightarrow> dt_id A \<in> m_nodes (dt_rt B)"
    using find_fields [OF A(1) idB q(4)] global by (fastforce simp: state_global_def state_nat_def)
  obtain B' r nodes addrs where B': "dt_recv_find_node now m (In a) B = Some B'" "dt_out B' = dt_out B @ [(r, In a)]"
    and r: "reply_msg r type_dtun_find_node_reply (dt_id B) (dt_id A) nonce (q_dst q) domain_inet (of_nat (length nodes)) 0 addrs"
      "write_nodes_inet nodes = Some addrs" "length nodes \<le> 10" "\<forall>c \<in> set nodes. node_inet_ok c"
    and dists: "map (xor_dist (q_dst q)) nodes = take 10 (sorted_list_of_set (xor_dist (q_dst q) ` set (all_nodes (dt_rt B))))"
    using find_node_answered [OF B A(1) q(4) m(2,3), of now a] by blast
  have rd: "nodes_fit r" "read_nodes r (unat (u8_at 74 r)) (In b) (dt_peers A) = Some (map (seen_from domain_inet (In b)) nodes)"
    using read_reply [OF r(1,2,4) refl _ A(2), of b] r(3) by simp_all
  have hdr: "u32_at 48 r = nonce" "hd_src (hdr_at r) = dt_id B" "hd_dst (hdr_at r) = dt_id A" "id_at 52 r = q_dst q" "u16_at 72 r = domain_inet"
    "new_cageaddr r (In b) = Some (inet_node (dt_id B) b)"
    using r(1) by (simp_all add: reply_msg_def new_hdr_def new_cageaddr_in)
  have timer: "reply_timer (dt_id B) q = Some (dt_id B)" using q(2) by (simp add: reply_timer_def)
  let ?q1 = "query_answered (dt_id B) (stop_timer (dt_id B) q)"
  let ?q' = "merge_answer (map (seen_from domain_inet (In b)) nodes) ?q1"
  let ?A = "set_query nonce ?q1 (set_query nonce (stop_timer (dt_id B) q) A)"
  have add: "dt_add (inet_node (dt_id B) b) ?A = Some ?A" using A idB by (intro dt_add_known) simp_all
  obtain p where p: "dt_add_peer now (inet_node (dt_id B) b) ?A = Some (?A\<lparr>dt_peers := p\<rparr>)"
    using dt_add_peer_inet [of ?A now "dt_id B" b] A(2) by auto
  have "dt_recv_find_node_reply now r (In b) A = send_find call_failed nonce (set_query nonce ?q' (?A\<lparr>dt_peers := p\<rparr>))"
    using hdr q timer rd add p by (simp add: dt_recv_find_node_reply_def Let_def)
  moreover have "map (xor_dist (q_dst q)) (q_nodes ?q') =
      take 10 (sorted_list_of_set (xor_dist (q_dst q) ` (set (q_nodes q) \<union> set (all_nodes (dt_rt B)))))"
    using merged_dists [OF q(4) sorted, of "map (seen_from domain_inet (In b)) nodes"] dists r(4)
    by (simp add: merge_answer_def query_answered_def stop_timer_def image_Un comp_def node_inet_ok_def)
  ultimately show ?thesis
    using m(1) B' by (intro exI [of _ m] exI [of _ B'] exI [of _ r] exI [of _ "set_query nonce ?q' (?A\<lparr>dt_peers := p\<rparr>)"] exI [of _ ?q'])
      (simp add: merge_answer_def query_answered_def stop_timer_def)
qed

definition dt_node :: "uint160 \<Rightarrow> dtun" where
  "dt_node i = dtun_init i [] empty_peers node_global domain_inet 5 0 1000 0"

lemma empty_peers_inv: "peers_inv empty_peers"
  by (rule peers_reach_inv [OF empty_peers_reach])

definition dt_answerer :: dtun where
  "dt_answerer = (dt_node me0)\<lparr>dt_rt := filled [] 20\<rparr>"

definition dt_querying :: dtun where
  "dt_querying = (dt_node (node_id 50))\<lparr>dt_nat := node_nat, dt_rt := (rttable_init (node_id 50) [])\<lparr>m_nodes := {me0}\<rparr>,
     dt_query := [3 \<mapsto> \<lparr>q_nodes = [node_at 1], q_timers = {me0}, q_sent = {node_id 50, me0}, q_dst = node_id 1, q_num = 1,
       q_is_value = False, q_func = FindNode no_action\<rparr>]\<rparr>"

lemma answerer_ok: "answers dt_answerer"
proof -
  have "rt_inv (filled [] 20)" using rt_reach_inv [OF filled_reach] by blast
  moreover have "node_inet_ok (node_at k) \<and> node_id k \<noteq> me0" for k
    by (simp add: node_inet_ok_def node_at_def node_id_def me0_def)
  ultimately show ?thesis
    using empty_peers_inv
    by (auto simp: answers_def dt_answerer_def dt_node_def dtun_init_def filled_def rttable_init_def node_at_def simp del: upt_rec_numeral)
qed

theorem find_node_answer_merged_witness:
  "\<exists>m B' r A1 q'. dt_recv_find_node 1000 m (In (nat_addr 6)) dt_answerer = Some B' \<and>
    dt_recv_find_node_reply 1000 r (In (nat_addr 8)) dt_querying = send_find call_failed 3 A1 \<and> dt_query A1 3 = Some q' \<and> q_num q' = 0"
proof -
  have "length (node_id k) = 5" "length me0 = 5" for k by (simp_all add: node_id_def me0_def)
  then show ?thesis
    using find_node_answer_merged [OF answerer_ok, of dt_querying 3 _ 1000 "nat_addr 6" "nat_addr 8"] empty_peers_inv
    by (simp add: dt_querying_def dt_answerer_def dt_node_def dtun_init_def rttable_init_def filled_def node_at_def) blast
qed

end
