(* ===== verification/Dtun_Request.thy ===== *)
theory Dtun_Request
  imports Dtun_Props
begin

section \<open>Reaching a registered node\<close>

text \<open>
  The five messages of a request, one lemma for each of them: the query for the value, its
  answer, the request to the node that answered, what that one passes on to the wanted
  node, and the reply of the wanted node.
\<close>

definition inet_at :: "cageaddr \<Rightarrow> uint160 \<Rightarrow> sockaddr_in \<Rightarrow> bool" where
  "inet_at c i a \<longleftrightarrow> c = inet_node i a \<and> length i = 5 \<and> \<not> (sin_port a = 0 \<and> sin_addr a = 0)"

lemma send_to_inet [simp]: "send_to m (inet_node i a) = Some [(m, In a)]"
  by (simp add: send_to_def)

lemma ask_all_member:
  assumes "ask_all nonce s q cs = Some ms" "inet_node i a \<in> set cs" "q_is_value q"
  shows "\<exists>m. msg_dtun_find type_dtun_find_value (dt_id s) i nonce (q_dst q) (dt_domain s) (dt_nat s) = Some m \<and> (m, In a) \<in> set ms"
  using assms
proof (induction cs arbitrary: ms)
  case (Cons c cs)
  then show ?case
    by (auto simp: send_find_value_def send_find_nv_def split: Option.bind_splits)
qed simp

text \<open>Lookups do not depend on the supply of random numbers.\<close>

lemma id2i4lookup_loop_rnds: "id2i4lookup_loop n (rt\<lparr>rt_rnds := x\<rparr>) mx i k is = id2i4lookup_loop n rt mx i k is"
  by (induction n arbitrary: i k "is") (simp_all add: Let_def cong: if_cong)

lemma rt_lookup_rnds: "rt_lookup i num (rt\<lparr>rt_rnds := x\<rparr>) = rt_lookup i num rt"
proof -
  have "bucket (rt\<lparr>rt_rnds := x\<rparr>) = bucket rt" by (rule ext) (simp add: bucket_def self_addr_def)
  moreover have "id2i4lookupR i mx is (rt\<lparr>rt_rnds := x\<rparr>) = id2i4lookupR i mx is rt" for mx "is" by (simp add: id2i4lookupR_def)
  ultimately show ?thesis unfolding rt_lookup_def id2i4lookup_def id2i4lookup_loop_rnds by presburger
qed

definition value_query :: "uint160 \<Rightarrow> u32 \<Rightarrow> query \<Rightarrow> bool" where
  "value_query dst n q \<longleftrightarrow> q_dst q = dst \<and> q_is_value q \<and> q_func q = FindValue (request_find_value n)"

lemma request_starts:
  assumes A: "dt_enabled A" "length (dt_id A) = 5" "dt_domain A = domain_inet" and dst: "length dst = 5"
    and nodes: "rt_lookup dst num_find_node (dt_rt A) = Some nodes" "length nodes \<noteq> 1" "\<forall>c \<in> set nodes. sendable c"
    and B: "inet_node i b \<in> set (take 6 (fresh_nodes {dt_id A} nodes))"
    and rnds: "rt_rnds (dt_rt A) = n1 # n2 # rs" "dt_request A n1 = None" "dt_query A n2 = None"
  shows "\<exists>A1 m q r. dt_request_node dst tag A = Some A1 \<and> (m, In b) \<in> set (dt_out A1) \<and>
    msg_dtun_find type_dtun_find_value (dt_id A) i n2 dst domain_inet (dt_nat A) = Some m \<and>
    dt_query A1 n2 = Some q \<and> value_query dst n1 q \<and> dt_request A1 n1 = Some r \<and> rq_dst r = dst \<and> rq_func r = tag \<and>
    m_nodes (dt_rt A1) = m_nodes (dt_rt A) \<and> dt_id A1 = dt_id A \<and> dt_peers A1 = dt_peers A \<and> dt_results A1 = dt_results A"
proof -
  let ?f = "FindValue (request_find_value n1)"
  let ?r = "\<lparr>rq_func = tag, rq_timer = False, rq_dst = dst, rq_finished = False, rq_retry = request_retry\<rparr>"
  let ?q = "new_query (dt_id A) nodes dst ?f True"
  let ?A = "set_request n1 (Some ?r) (A\<lparr>dt_rt := (dt_rt A)\<lparr>rt_rnds := n2 # rs\<rparr>\<rparr>)"
  let ?A' = "?A\<lparr>dt_rt := (dt_rt A)\<lparr>rt_rnds := rs\<rparr>\<rparr>"
  have look: "rt_lookup dst num_find_node ((dt_rt A)\<lparr>rt_rnds := x\<rparr>) = Some nodes" for x
    using nodes(1) by (simp add: rt_lookup_rnds)
  have ask: "to_ask ?q = take 6 (fresh_nodes {dt_id A} nodes)" by (simp add: to_ask_def new_query_def max_query_def)
  have "\<forall>c \<in> set (to_ask ?q). sendable c" using nodes(3) set_to_ask [of ?q] by (auto simp: new_query_def)
  then obtain ms where ms: "ask_all n2 (set_query n2 ?q ?A') ?q (to_ask ?q) = Some ms"
    using ask_all_total [of "to_ask ?q" ?q "set_query n2 ?q ?A'" n2] A(2) dst by (auto simp: new_query_def)
  obtain m where m: "msg_dtun_find type_dtun_find_value (dt_id A) i n2 dst domain_inet (dt_nat A) = Some m" "(m, In b) \<in> set ms"
    using ask_all_member [OF ms B [folded ask]] A(3) by (auto simp: new_query_def)
  have num: "q_num ?q + int (length (to_ask ?q)) \<noteq> 0" using B [folded ask] by (cases "to_ask ?q") (auto simp: new_query_def)
  have "find_nv call_failed dst ?f True ?A = send_find call_failed n2 (set_query n2 ?q ?A')"
    using look nodes(2) rnds(3) by (simp add: find_nv_def query_nonce_def)
  also have "\<dots> = Some (dt_send ms (set_query n2 (asked (to_ask ?q) ?q) (set_query n2 ?q ?A')))"
    using ms num by (simp add: send_find_eq Let_def)
  finally have req: "dt_request_node dst tag A = Some (dt_send ms (set_query n2 (asked (to_ask ?q) ?q) (set_query n2 ?q ?A')))"
    using A(1) rnds(1,2) by (simp add: dt_request_node_def dt_find_value_def Let_def)
  show ?thesis
    by (rule exI, rule exI [of _ m], rule exI [of _ "asked (to_ask ?q) ?q"], rule exI [of _ ?r], rule conjI, rule req) (simp add: m value_query_def new_query_def)
qed


text \<open>The node that registered \<open>i\<close> answers with its address, and does not add the asking node to its table.\<close>

lemma find_value_registered:
  assumes B: "dt_nat B = node_global" "dt_domain B = domain_inet" "peers_inv (dt_peers B)" "length (dt_id B) = 5" and me: "length me = 5"
    and reg: "dt_registered B i = Some r" "inet_at (rg_addr r) i d" and m: "find_msg m type_dtun_find_value me (dt_id B) nonce i domain_inet"
  shows "\<exists>B' r p addrs. dt_recv_find_value now m (In a) B = Some B' \<and> B' = B\<lparr>dt_peers := p, dt_out := dt_out B @ [(r, In a)]\<rparr> \<and> peers_inv p \<and>
    reply_msg r type_dtun_find_value_reply (dt_id B) me nonce i domain_inet 1 1 addrs \<and> write_nodes_inet [inet_node i d] = Some addrs"
proof -
  have hdr: "hd_dst (hdr_at m) = dt_id B" "new_cageaddr m (In a) = Some (inet_node me a)" "id_at 52 m = i" "u16_at 72 m = domain_inet"
    "u16_raw_at 74 m \<noteq> state_global"
    using m by (simp_all add: find_msg_def new_hdr_def new_cageaddr_in)
  obtain addrs where addrs: "write_node_inet (inet_node i d) = Some addrs"
    using reg(2) by (auto simp: inet_at_def write_node_inet_def id_bytes_eq domain_defs inet_node_def)
  obtain p where p: "dt_add_peer now (inet_node me a) B = Some (B\<lparr>dt_peers := p\<rparr>)" "peers_inv p"
    using dt_add_peer_inet [OF B(3), of now me a] by blast
  obtain rp where rp: "msg_dtun_reply type_dtun_find_value_reply (dt_id B) m 1 1 addrs = Some rp"
    "reply_msg rp type_dtun_find_value_reply (dt_id B) me nonce i domain_inet 1 1 addrs"
    using reply_fields [OF m B(4) me] by blast
  have "dt_recv_find_value now m (In a) B = Some (B\<lparr>dt_peers := p, dt_out := dt_out B @ [(rp, In a)]\<rparr>)"
    using B hdr p(1) reg addrs rp(1) by (simp add: dt_recv_find_value_def reply_registered_def write_registered_def inet_at_def dt_send_def)
  then show ?thesis using p(2) rp(2) addrs by auto
qed

lemma add_peer_other:
  assumes "peers_inv (dt_peers s)" "i \<noteq> j" "dt_add_peer now (inet_node i a) s = Some s'"
  shows "get_addr j (dt_peers s') = get_addr j (dt_peers s)"
proof -
  obtain b p where p: "add_node_session now (inet_node i a) 0 (dt_peers s) = Some (b, p)" using add_inet_node [OF assms(1)] by blast
  have "map_option snd (left_find j (m_map p)) = map_option snd (left_find j (m_map (dt_peers s)))"
    using book.lookup_add [OF assms(1), where e = "(now, 0, a)" and k = i and s' = p and j = j] p assms(2) by simp
  then show ?thesis using p assms(3) by (auto simp: dt_add_peer_def add_node_def get_addr_map)
qed

text \<open>The answer makes the asking node send the request, and wait.\<close>

lemma value_reply_requests:
  assumes A: "length (dt_id A) = 5" "peers_inv (dt_peers A)" "src \<in> m_nodes (dt_rt A)" "length src = 5" "src \<noteq> i"
    and q: "dt_query A nonce = Some q" "value_query i n1 q" "dt_request A n1 = Some r"
    and m: "reply_msg m type_dtun_find_value_reply src (dt_id A) nonce i domain_inet 1 1 addrs" "write_nodes_inet [inet_node i d] = Some addrs"
    and d: "inet_at (inet_node i d) i d"
  shows "\<exists>A' m0 m3 p. dt_recv_find_value_reply now m (In b) A = Some A' \<and> dt_out A' = dt_out A @ [(m0, In d), (m3, In b)] \<and>
    msg_dtun_request (dt_id A) src n1 i = Some m3 \<and> dt_request A' n1 = Some (r\<lparr>rq_finished := True, rq_timer := True\<rparr>) \<and>
    dt_query A' nonce = None \<and> dt_id A' = dt_id A \<and> dt_results A' = dt_results A \<and> peers_inv (dt_peers A') \<and>
    get_addr i (dt_peers A') = get_addr i (dt_peers A)"
proof -
  have i: "length i = 5" using d by (simp add: inet_at_def)
  have ok: "\<forall>c \<in> set [inet_node i d]. node_inet_ok c" using d by (auto simp: inet_at_def node_inet_ok_def)
  have rd: "nodes_fit m" "read_nodes m (unat (u8_at 74 m)) (In b) (dt_peers A) = Some [inet_node i d]"
    using read_reply [OF m ok _ _ A(2), of b] by (simp_all add: seen_from_def inet_node_def domain_defs)
  have hdr: "u32_at 48 m = nonce" "hd_src (hdr_at m) = src" "hd_dst (hdr_at m) = dt_id A" "id_at 52 m = i" "u16_at 72 m = domain_inet"
    "new_cageaddr m (In b) = Some (inet_node src b)" "u8_at 75 m = 1"
    using m(1) by (simp_all add: reply_msg_def new_hdr_def new_cageaddr_in)
  let ?q1 = "query_answered src (stop_timer src q)"
  let ?A = "set_query nonce ?q1 (set_query nonce (stop_timer src q) A)"
  have add: "dt_add (inet_node src b) ?A = Some ?A" using A by (intro dt_add_known) simp_all
  obtain p where p: "dt_add_peer now (inet_node src b) ?A = Some (?A\<lparr>dt_peers := p\<rparr>)" "peers_inv p"
    using dt_add_peer_inet [of ?A now src b] A(2) by auto
  obtain m0 where m0: "msg_undefined (dt_id A) i (dt_junk A) = Some m0"
    using hdr_junk_fields [OF A(1) i] unfolding msg_undefined_def by blast
  obtain m3 where m3: "msg_dtun_request (dt_id A) src n1 i = Some m3" using request_fields [OF A(1,4) i] by blast
  have f: "q_func ?q1 = FindValue (request_find_value n1)" "q_is_value q" "q_dst q = i"
    using q(2) by (simp_all add: value_query_def query_answered_def stop_timer_def)
  let ?A' = "erase_query nonce (dt_send [(m0, In d), (m3, In b)] (set_request n1 (Some (r\<lparr>rq_finished := True, rq_timer := True\<rparr>)) (?A\<lparr>dt_peers := p\<rparr>)))"
  have "dt_recv_find_value_reply now m (In b) A = Some ?A'"
    using hdr q(1,3) f rd add p(1) m0 m3 by (simp add: dt_recv_find_value_reply_def Let_def)
  moreover have "get_addr i p = get_addr i (dt_peers A)" using add_peer_other [OF _ A(5) p(1)] A(2) by simp
  ultimately show ?thesis using m3 p(2) by simp
qed


text \<open>The node that answered passes the request on, with the address it came from.\<close>

lemma request_passed_on:
  assumes B: "dt_nat B = node_global" "peers_inv (dt_peers B)" "length (dt_id B) = 5" "dt_id B \<noteq> i" and me: "length me = 5"
    and reg: "dt_registered B i = Some r" "inet_at (rg_addr r) i d"
    and m: "nonce_msg m type_dtun_request me (dt_id B) nonce" "id_at 52 m = i"
  shows "\<exists>B' m4. dt_recv_request now m (In a) B = Some B' \<and> dt_out B' = dt_out B @ [(m4, In d)] \<and>
    msg_dtun_request_by (dt_id B) i nonce (inet_node me a) = Some m4"
proof -
  have hdr: "hd_dst (hdr_at m) = dt_id B" "u32_at 48 m = nonce" "new_cageaddr m (In a) = Some (inet_node me a)"
    using m(1) by (simp_all add: nonce_msg_def new_cageaddr_in)
  obtain p where p: "dt_add_peer now (inet_node me a) B = Some (B\<lparr>dt_peers := p\<rparr>)" using dt_add_peer_inet [OF B(2), of now me a] by blast
  have "length i = 5" using reg(2) by (simp add: inet_at_def)
  then obtain m4 where m4: "msg_dtun_request_by (dt_id B) i nonce (inet_node me a) = Some m4" using request_by_fields [OF B(3) _ me] by blast
  have "dt_recv_request now m (In a) B = Some (dt_send [(m4, In d)] (B\<lparr>dt_peers := p\<rparr>))"
    using B hdr p m4 m(2) reg by (auto simp: dt_recv_request_def inet_at_def)
  then show ?thesis using m4 by simp
qed

text \<open>The wanted node answers to that address, and is known where the request came from.\<close>

lemma request_by_answered:
  assumes D: "length (dt_id D) = 5" "length src = 5" "length me = 5"
    and m: "msg_dtun_request_by src (dt_id D) nonce (inet_node me a) = Some m"
  shows "\<exists>D' m5. dt_recv_request_by m from D = Some D' \<and> dt_out D' = dt_out D @ [(m5, In a)] \<and>
    nonce_msg m5 type_dtun_request_reply (dt_id D) me nonce"
proof -
  have f: "nonce_msg m type_dtun_request_by src (dt_id D) nonce" "length m = 84" "u16_at 52 m = domain_inet" "u16_at 56 m = sin_port a"
    "u32_at 60 m = sin_addr a" "id_at 64 m = me"
    using request_by_fields [OF D(2,1,3), of nonce a] m by auto
  obtain m5 where m5: "msg_dtun_request_reply (dt_id D) me nonce (dt_junk D) = Some m5" "nonce_msg m5 type_dtun_request_reply (dt_id D) me nonce"
    using request_reply_fields [OF D(1,3)] by blast
  have "dt_recv_request_by m from D = Some (dt_send [(m5, In a)] D)"
    using f m5(1) by (cases a) (simp add: dt_recv_request_by_def nonce_msg_def Let_def)
  then show ?thesis using m5(2) by simp
qed

lemma request_completed:
  assumes A: "peers_inv (dt_peers A)" "dt_request A nonce = Some r" "rq_dst r = i" and new: "get_addr i (dt_peers A) = None"
    and m: "nonce_msg m type_dtun_request_reply i (dt_id A) nonce"
  shows "\<exists>A'. dt_recv_request_reply now m (In d) A = Some A' \<and> dt_results A' = dt_results A @ [Requested (rq_func r) (Some (inet_node i d))] \<and>
    dt_request A' nonce = None \<and> get_addr i (dt_peers A') = Some (inet_node i d)"
proof -
  have hdr: "hd_dst (hdr_at m) = dt_id A" "u32_at 48 m = nonce" "new_cageaddr m (In d) = Some (inet_node i d)"
    using m by (simp_all add: nonce_msg_def new_cageaddr_in)
  let ?A = "set_request nonce None A"
  obtain p where p: "dt_add_peer now (inet_node i d) ?A = Some (?A\<lparr>dt_peers := p\<rparr>)" "get_addr i p = Some (inet_node i d)"
    using dt_add_peer_inet [of ?A now i d] A(1) new by auto
  have "dt_recv_request_reply now m (In d) A = Some (dt_called (Requested (rq_func r) (Some (inet_node i d))) (?A\<lparr>dt_peers := p\<rparr>))"
    using hdr A(2,3) p(1) by (simp add: dt_recv_request_reply_def Let_def)
  then show ?thesis using p(2) by simp
qed

text \<open>Property C19.  A node \<open>A\<close> requests \<open>D\<close>, which is registered with \<open>B\<close>, one of the six closest nodes to
  \<open>D\<close> that \<open>A\<close> knows.  The five messages that follow, each delivered to where it was
  sent, end with \<open>D\<close> answering \<open>A\<close>: the requester's callback is told \<open>D\<close>'s address, \<open>D\<close> is
  among the peers of \<open>A\<close>, and the request is done.  \<open>a\<close>, \<open>b\<close> and \<open>d\<close> are the addresses the
  three are seen at.\<close>

theorem request_reaches_registered_node:
  assumes A: "dt_enabled A" "length (dt_id A) = 5" "dt_domain A = domain_inet" "peers_inv (dt_peers A)" "get_addr (dt_id D) (dt_peers A) = None"
    and nodes: "rt_lookup (dt_id D) num_find_node (dt_rt A) = Some nodes" "length nodes \<noteq> 1" "\<forall>c \<in> set nodes. sendable c"
      "inet_node (dt_id B) b \<in> set (take 6 (fresh_nodes {dt_id A} nodes))" "dt_id B \<in> m_nodes (dt_rt A)"
    and rnds: "rt_rnds (dt_rt A) = n1 # n2 # rs" "dt_request A n1 = None" "dt_query A n2 = None"
    and B: "dt_nat B = node_global" "dt_domain B = domain_inet" "peers_inv (dt_peers B)" "length (dt_id B) = 5" "dt_id B \<noteq> dt_id D"
    and reg: "dt_registered B (dt_id D) = Some r" "inet_at (rg_addr r) (dt_id D) d"
  shows "\<exists>A1 m1 B1 m2 A2 m0 m3 B2 m4 D1 m5 A3.
    dt_request_node (dt_id D) tag A = Some A1 \<and> (m1, In b) \<in> set (dt_out A1) \<and>
    dt_recv_find_value now m1 (In a) B = Some B1 \<and> dt_out B1 = dt_out B @ [(m2, In a)] \<and>
    dt_recv_find_value_reply now m2 (In b) A1 = Some A2 \<and> dt_out A2 = dt_out A1 @ [(m0, In d), (m3, In b)] \<and>
    dt_recv_request now m3 (In a) B1 = Some B2 \<and> dt_out B2 = dt_out B1 @ [(m4, In d)] \<and>
    dt_recv_request_by m4 (In b) D = Some D1 \<and> dt_out D1 = dt_out D @ [(m5, In a)] \<and>
    dt_recv_request_reply now m5 (In d) A2 = Some A3 \<and>
    dt_results A3 = dt_results A @ [Requested tag (Some (inet_node (dt_id D) d))] \<and> dt_request A3 n1 = None \<and>
    get_addr (dt_id D) (dt_peers A3) = Some (inet_node (dt_id D) d)"
proof -
  have D: "length (dt_id D) = 5" using reg(2) by (simp add: inet_at_def)
  obtain A1 m1 q rq where A1: "dt_request_node (dt_id D) tag A = Some A1" "(m1, In b) \<in> set (dt_out A1)"
    "msg_dtun_find type_dtun_find_value (dt_id A) (dt_id B) n2 (dt_id D) domain_inet (dt_nat A) = Some m1"
    "dt_query A1 n2 = Some q" "value_query (dt_id D) n1 q" "dt_request A1 n1 = Some rq" "rq_dst rq = dt_id D" "rq_func rq = tag"
    "m_nodes (dt_rt A1) = m_nodes (dt_rt A)" "dt_id A1 = dt_id A" "dt_peers A1 = dt_peers A" "dt_results A1 = dt_results A"
    using request_starts [OF A(1-3) D nodes(1-4) rnds, of tag] by blast
  have m1: "find_msg m1 type_dtun_find_value (dt_id A) (dt_id B) n2 (dt_id D) domain_inet"
    using find_fields [OF A(2) B(4) D, of type_dtun_find_value n2 domain_inet "dt_nat A"] A1(3) by auto
  obtain B1 m2 p addrs where B1: "dt_recv_find_value now m1 (In a) B = Some B1" "B1 = B\<lparr>dt_peers := p, dt_out := dt_out B @ [(m2, In a)]\<rparr>" "peers_inv p"
    "reply_msg m2 type_dtun_find_value_reply (dt_id B) (dt_id A) n2 (dt_id D) domain_inet 1 1 addrs" "write_nodes_inet [inet_node (dt_id D) d] = Some addrs"
    using find_value_registered [OF B(1-4) A(2) reg m1, of now a] by blast
  have at_d: "inet_at (inet_node (dt_id D) d) (dt_id D) d" using reg(2) by (simp add: inet_at_def)
  obtain A2 m0 m3 where A2: "dt_recv_find_value_reply now m2 (In b) A1 = Some A2" "dt_out A2 = dt_out A1 @ [(m0, In d), (m3, In b)]"
    "msg_dtun_request (dt_id A) (dt_id B) n1 (dt_id D) = Some m3" "dt_request A2 n1 = Some (rq\<lparr>rq_finished := True, rq_timer := True\<rparr>)"
    "dt_id A2 = dt_id A" "dt_results A2 = dt_results A" "peers_inv (dt_peers A2)" "get_addr (dt_id D) (dt_peers A2) = None"
    using value_reply_requests [of A1 "dt_id B" "dt_id D" n2 q n1 rq m2 addrs d now b] A A1 B B1(4,5) nodes(5) at_d by auto
  have m3: "nonce_msg m3 type_dtun_request (dt_id A) (dt_id B) n1" "id_at 52 m3 = dt_id D" using request_fields [OF A(2) B(4) D, of n1] A2(3) by auto
  obtain B2 m4 where B2: "dt_recv_request now m3 (In a) B1 = Some B2" "dt_out B2 = dt_out B1 @ [(m4, In d)]"
    "msg_dtun_request_by (dt_id B) (dt_id D) n1 (inet_node (dt_id A) a) = Some m4"
    using request_passed_on [of B1 "dt_id D" "dt_id A" r d m3 n1 now a] A(2) B B1(2,3) reg m3 by auto
  obtain D1 m5 where D1: "dt_recv_request_by m4 (In b) D = Some D1" "dt_out D1 = dt_out D @ [(m5, In a)]"
    "nonce_msg m5 type_dtun_request_reply (dt_id D) (dt_id A) n1"
    using request_by_answered [OF D B(4) A(2) B2(3)] by blast
  obtain A3 where "dt_recv_request_reply now m5 (In d) A2 = Some A3" "dt_results A3 = dt_results A @ [Requested tag (Some (inet_node (dt_id D) d))]"
    "dt_request A3 n1 = None" "get_addr (dt_id D) (dt_peers A3) = Some (inet_node (dt_id D) d)"
    using request_completed [OF A2(7,4) _ A2(8), of m5 now d] A1(7,8) A2(5,6) D1(3) by auto
  moreover have "dt_out B1 = dt_out B @ [(m2, In a)]" using B1(2) by simp
  ultimately show ?thesis using A1(1,2) B1(1) A2(1,2) B2(1,2) D1(1,2) by blast
qed


text \<open>Three nodes: \<open>dt_asker\<close> knows \<open>dt_keeper\<close> only, with which \<open>dt_wanted\<close> is registered.\<close>

definition dt_asker :: dtun where
  "dt_asker = (dt_node me0)\<lparr>dt_rt := filled [5, 6] 1\<rparr>"

definition wanted_addr :: sockaddr_in where
  "wanted_addr = \<lparr>sin_port = 77, sin_addr = 88\<rparr>"

definition dt_keeper :: dtun where
  "dt_keeper = (dt_node (node_id 0))\<lparr>dt_registered := [node_id 9 \<mapsto> \<lparr>rg_addr = inet_node (node_id 9) wanted_addr, rg_session = 3, rg_t = 1000\<rparr>]\<rparr>"

lemma asker_lookup:
  "\<exists>nodes. rt_lookup (node_id 9) num_find_node (filled rs 1) = Some nodes \<and> length nodes = 2 \<and> set nodes = {self_addr (filled rs 1), node_at 0} \<and>
    node_at 0 \<in> set (take 6 (fresh_nodes {me0} nodes))"
proof -
  have reach: "rt_reach me0 (filled rs 1)"
    by (rule rt_reach_adds [OF rt_reach.start _ filled_adds]) (auto simp: me0_def node_at_def node_id_def)
  have "length (node_id 9) = 5" by (simp add: node_id_def)
  then have look: "rt_lookup (node_id 9) num_find_node (filled rs 1) =
      Some (take 10 (sort_key (xor_dist (node_id 9)) [self_addr (filled rs 1), node_at 0]))"
    using lookup_closest [OF rt_inv_rows, of "filled rs 1" "node_id 9" 10] rt_reach_inv [OF reach]
    by (simp add: num_find_node_def all_nodes_def filled_def)
  have ids: "ca_id (self_addr (filled rs 1)) = me0" "ca_id (node_at 0) = node_id 0" "node_id 0 \<noteq> me0"
    by (simp_all add: self_addr_def filled_def rttable_init_def node_at_def node_id_def me0_def)
  show ?thesis unfolding look using ids by auto
qed

theorem request_reaches_registered_node_witness:
  "\<exists>A1 m2 A2 m5 A3. dt_request_node (node_id 9) 1 dt_asker = Some A1 \<and>
    dt_recv_find_value_reply 1000 m2 (In \<lparr>sin_port = 0, sin_addr = 7\<rparr>) A1 = Some A2 \<and>
    dt_recv_request_reply 1000 m5 (In wanted_addr) A2 = Some A3 \<and> dt_results A3 = [Requested 1 (Some (inet_node (node_id 9) wanted_addr))]"
proof -
  obtain nodes where nodes: "rt_lookup (node_id 9) num_find_node (filled [5, 6] 1) = Some nodes" "length nodes = 2"
    "set nodes = {self_addr (filled [5, 6] 1), node_at 0}" "node_at 0 \<in> set (take 6 (fresh_nodes {me0} nodes))"
    using asker_lookup by blast
  have send: "\<forall>c \<in> set nodes. sendable c"
    by (simp add: nodes(3) sendable_def self_addr_def filled_def rttable_init_def node_at_def node_id_def me0_def domain_defs)
  have B: "node_at 0 = inet_node (node_id 0) \<lparr>sin_port = 0, sin_addr = 7\<rparr>" by (simp add: node_at_def inet_node_def)
  have at_d: "inet_at (inet_node (node_id 9) wanted_addr) (node_id 9) wanted_addr" by (simp add: inet_at_def node_id_def wanted_addr_def)
  have ids: "length me0 = 5" "length (node_id k) = 5" "node_id 0 \<noteq> node_id 9" for k by (simp_all add: me0_def node_id_def)
  show ?thesis
    using request_reaches_registered_node [of dt_asker "dt_node (node_id 9)" nodes dt_keeper "\<lparr>sin_port = 0, sin_addr = 7\<rparr>" 5 6 "[]" _ wanted_addr 1 1000 "nat_addr 6"]
      nodes(1,2,4) send B at_d ids empty_peers_inv empty_peers_addr
    by (simp add: dt_asker_def dt_keeper_def dt_node_def dtun_init_def filled_def rttable_init_def) blast
qed

end
