(* ===== verification/Dtun_Safety.thy ===== *)
theory Dtun_Safety
  imports Dtun_Request
begin

section \<open>Limits of queries, and a query that never ends\<close>

subsection \<open>Limits\<close>


definition dt_joining :: "u32 list \<Rightarrow> dtun" where
  "dt_joining rs = dtun_init (node_id 1) rs empty_peers node_global domain_inet 5 0 1000 0"

definition first_query :: query where
  "first_query = \<lparr>q_nodes = [], q_timers = {zero_id}, q_sent = {node_id 1}, q_dst = node_id 1, q_num = 1, q_is_value = False,
     q_func = FindNode no_action\<rparr>"

lemma joining_query:
  "\<exists>m. dt_find_node_addr (In a) no_action (dt_joining [7]) = Some (dt_send m (set_query 7 first_query (dt_joining [])))"
proof -
  have "length (node_id 1) = 5" "length zero_id = 5" by (simp_all add: node_id_def bn_fill_zero_def)
  then obtain m where "msg_dtun_find type_dtun_find_node (node_id 1) zero_id 7 (node_id 1) domain_inet node_global = Some m"
    using msg_dtun_find_total by blast
  then show ?thesis
    by (intro exI [of _ "[(m, In a)]"]) (simp add: dt_find_node_addr_def dt_joining_def first_query_def dtun_init_def rttable_init_def query_nonce_def
        new_query_def sockaddr_of_def send_find_node_def send_find_nv_def send_to_def Let_def)
qed



subsection \<open>Queries without timers\<close>

lemma dt_add_query: "dt_add c s = Some s' \<Longrightarrow> dt_query s' = dt_query s"
  using dt_add_eq by fastforce

lemma dt_add_peer_query: "dt_add_peer now c s = Some s' \<Longrightarrow> dt_query s' = dt_query s"
  by (auto simp: dt_add_peer_def split: Option.bind_splits)

lemmas added_query = dt_add_query dt_add_peer_query

lemma same_query:
  "dt_timer_ping now nonce s = Some s' \<Longrightarrow> dt_query s' = dt_query s"
  "dt_recv_ping now msg from s = Some s' \<Longrightarrow> dt_query s' = dt_query s"
  "dt_recv_ping_reply now msg from s = Some s' \<Longrightarrow> dt_query s' = dt_query s"
  "dt_recv_find_node now msg from s = Some s' \<Longrightarrow> dt_query s' = dt_query s"
  "dt_timer_request nonce s = Some s' \<Longrightarrow> dt_query s' = dt_query s"
  "dt_recv_request now msg from s = Some s' \<Longrightarrow> dt_query s' = dt_query s"
  "dt_recv_request_by msg from s = Some s' \<Longrightarrow> dt_query s' = dt_query s"
  "dt_recv_request_reply now msg from s = Some s' \<Longrightarrow> dt_query s' = dt_query s"
  "dt_recv_register now msg from s = Some s' \<Longrightarrow> dt_query s' = dt_query s"
  by (auto simp: dt_timer_ping_def dt_recv_ping_def dt_recv_ping_reply_def dt_recv_find_node_def dt_timer_request_def dt_recv_request_def
      dt_recv_request_by_def dt_recv_request_reply_def dt_recv_register_def Let_def dest!: added_query
      split: Option.bind_splits if_splits option.splits)

lemma recv_find_value_query: "dt_recv_find_value now msg from s = Some s' \<Longrightarrow> dt_query s' = dt_query s"
  by (auto simp: dt_recv_find_value_def dest!: added_query dest: reply_nodes_keeps split: Option.bind_splits if_splits option.splits)


definition retains :: "u32 \<Rightarrow> query \<Rightarrow> dtun \<Rightarrow> dtun \<Rightarrow> bool" where
  "retains k q s s' \<longleftrightarrow> (dt_query s k = Some q \<longrightarrow> dt_query s' k = Some q)"

lemma retains_same: "dt_query s' = dt_query s \<Longrightarrow> retains k q s s'"
  by (simp add: retains_def)

lemma retains_calls: "calls s s' \<Longrightarrow> retains k q s s'"
  by (simp add: retains_def calls_def grows_def)

lemma retains_trans: "retains k q s s1 \<Longrightarrow> retains k q s1 s2 \<Longrightarrow> retains k q s s2"
  by (simp add: retains_def)

lemma send_find_keeps:
  assumes "send_find call_failed n (set_query n q' s) = Some s'" "query_pre (dt_id s) q'" "n \<noteq> k"
  shows "retains k q s s'"
proof -
  have "updates n (set_query n q' s) s'"
    by (rule send_find_updates [OF call_failed_calls _ _ assms(1), where q = q']) (simp_all add: assms(2))
  then show ?thesis using assms(3) by (auto simp: retains_def updates_def grows_def)
qed

lemma find_addr_keeps:
  assumes "dt_find_node_addr sa f s = Some s'"
  shows "retains k q s s'"
proof (cases "dt_enabled s")
  case True
  then obtain nonce s1 m q' where n: "query_nonce s = Some (nonce, s1)" and s': "s' = dt_send m (set_query nonce q' s1)"
    using assms by (auto simp: dt_find_node_addr_def Let_def split: Option.bind_splits)
  show ?thesis using query_nonce_fresh [OF n] by (auto simp: s' retains_def)
qed (use assms in \<open>simp add: dt_find_node_addr_def retains_same\<close>)

lemma find_node_keeps: "dt_find_node dst f s = Some s' \<Longrightarrow> retains k q s s'"
  by (rule retains_calls [OF find_calls(1)])

lemma register_keeps: "dt_register_node src session s = Some s' \<Longrightarrow> retains k q s s'"
  using find_node_keeps [of src "register_callback src session" "s\<lparr>dt_registering := True\<rparr>" s'] by (auto simp: dt_register_node_def retains_def split: if_splits)

lemma register_self_keeps: "dt_register_self s = Some s' \<Longrightarrow> retains k q s s'"
  using register_keeps by (auto simp: dt_register_self_def retains_same split: if_splits)

lemma maintain_keeps:
  assumes "maintain now s = Some s'"
  shows "retains k q s s'"
proof (cases "now - dt_last_maintain s < maintain_interval")
  case False
  then obtain d1 d2 s1 s2 where "dt_find_node d1 no_action s = Some s1" "dt_find_node d2 no_action s1 = Some s2" "dt_query s' = dt_query s2"
    using assms by (auto simp: maintain_def Let_def split: Option.bind_splits)
  then show ?thesis using retains_trans find_node_keeps retains_same by metis
qed (use assms in \<open>simp add: maintain_def retains_same\<close>)

lemma timer_refresh_keeps:
  assumes s': "dt_timer_refresh order now jitter s = Some s'"
  shows "retains k q s s'"
proof (cases "dt_enabled s")
  case True
  then obtain s1 s2 s3 where s1: "dt_register_self (dt_refresh now s) = Some s1" and s2: "maintain now s1 = Some s2"
    and look: "(if rt_is_zero (dt_rt s2) then
               case get_first order (dt_peers s2) of
                 None \<Rightarrow> Some s2
               | Some addr \<Rightarrow>
                   if ca_domain addr = domain_inet then do { a \<leftarrow> get_in (ca_saddr addr); dt_find_node_addr (In a) no_action s2 }
                   else if ca_domain addr = domain_inet6 then do { a \<leftarrow> get_in6 (ca_saddr addr); dt_find_node_addr (In6 a) no_action s2 }
                   else Some s2
             else Some s2) = Some s3" and s'_eq: "dt_query s' = dt_query s3"
    using s' by (auto simp: dt_timer_refresh_def cong: if_cong split: Option.bind_splits)
  have "retains k q s2 s3" using look find_addr_keeps by (auto simp: retains_same split: Option.bind_splits if_splits option.splits)
  moreover have "retains k q s (dt_refresh now s)" by (rule retains_same) (simp add: dt_refresh_def)
  ultimately show ?thesis using retains_trans register_self_keeps [OF s1] maintain_keeps [OF s2] retains_same [OF s'_eq] by metis
qed (use s' in \<open>auto simp: dt_timer_refresh_def intro: retains_same\<close>)

lemma request_keeps:
  assumes "dt_request_node dst tag s = Some s'"
  shows "retains k q s s'"
proof -
  obtain r s1 where "dt_find_value dst r s1 = Some s'" "dt_query s1 = dt_query s"
    using assms by (auto simp: dt_request_node_def split: Option.bind_splits)
  then show ?thesis using retains_calls [OF find_calls(2)] retains_same retains_trans by metis
qed

lemma timer_query_keeps:
  assumes inv: "dt_inv s" and q': "dt_query s n = Some q'" "i \<in> q_timers q'" and s': "dt_timer_query now n i s = Some s'" and n: "n \<noteq> k"
  shows "retains k q s s'"
proof -
  have qi: "query_inv (dt_id s) q'" using inv q'(1) by (auto simp: dt_inv_def queries_inv_def)
  let ?q1 = "q'\<lparr>q_sent := insert i (q_sent q'), q_num := q_num q' - 1, q_timers := q_timers q' - {i}\<rparr>"
  have pre: "query_pre (dt_id s) ?q1" "query_pre (dt_id s) (?q1\<lparr>q_nodes := ns\<rparr>)" for ns
    using timer_fired_pre [OF qi q'(2)] by simp_all
  show ?thesis
  proof (cases "i = zero_id")
    case True
    then show ?thesis using s' q'(1) send_find_keeps [of n ?q1 s s' k q] pre(1) n by (simp add: dt_timer_query_def Let_def)
  next
    case False
    let ?q2 = "?q1\<lparr>q_nodes := filter (\<lambda>c. ca_id c \<noteq> i) (q_nodes q')\<rparr>"
    obtain rt where rt: "rt_remove i (dt_rt s) = Some rt"
      and send: "send_find call_failed n (set_query n ?q2 (s\<lparr>dt_peers := add_timeout now i (dt_peers s), dt_rt := rt\<rparr>)) = Some s'"
      using False s' q'(1) by (auto simp: dt_timer_query_def Let_def split: Option.bind_splits)
    have "retains k q (s\<lparr>dt_peers := add_timeout now i (dt_peers s), dt_rt := rt\<rparr>) s'"
      using send_find_keeps [OF send] rt_remove_id [OF rt] pre(2) n by simp
    then show ?thesis by (simp add: retains_def)
  qed
qed


lemma answer_query:
  assumes "dt_add c (set_query n q1 (set_query n q0 s)) = Some s1" "dt_add_peer now c s1 = Some s2"
  shows "dt_query s2 = (dt_query s)(n \<mapsto> q1) \<and> dt_id s2 = dt_id s"
proof -
  have "dt_query s1 = (dt_query s)(n \<mapsto> q1) \<and> dt_id s1 = dt_id s" using dt_add_eq [OF assms(1)] by auto
  then show ?thesis using assms(2) by (auto simp: dt_add_peer_def split: Option.bind_splits)
qed

lemma find_node_reply_keeps:
  assumes inv: "dt_inv s" and s': "dt_recv_find_node_reply now msg from s = Some s'" and q: "q_timers q = {}"
  shows "retains k q s s'"
  using find_node_reply_cases [OF s' refl refl]
proof (elim disjE exE conjE)
  let ?n = "u32_at 48 msg"
  fix q' i assume q': "dt_query s ?n = Some q'" "reply_timer (hd_src (hdr_at msg)) q' = Some i"
  then have qi: "query_inv (dt_id s) q'" using inv by (auto simp: dt_inv_def queries_inv_def)
  have own: "retains k q s s'" if "?n = k" using q' q that by (auto simp: retains_def reply_timer_def)
  show "retains k q s s'" if "s' = set_query ?n (stop_timer i q') s" using own that by (cases "?n = k") (auto simp: retains_def)
  show "retains k q s s'" if c: "dt_add c (set_query ?n (query_answered (hd_src (hdr_at msg)) (stop_timer i q')) (set_query ?n (stop_timer i q') s)) = Some s1"
    "dt_add_peer now c s1 = Some s2"
    "send_find call_failed ?n (set_query ?n (merge_answer nodes (query_answered (hd_src (hdr_at msg)) (stop_timer i q'))) s2) = Some s'"
    for nodes c s1 s2
  proof (cases "?n = k")
    case False
    then show ?thesis
      using send_find_keeps [OF c(3), of k q] query_answered_pre [OF qi disjI1 [OF q'(2)]] answer_query [OF c(1,2)] by (simp add: retains_def)
  qed (rule own)
qed (simp add: retains_def)

lemma find_value_reply_keeps:
  assumes inv: "dt_inv s" and s': "dt_recv_find_value_reply now msg from s = Some s'" and q: "\<not> q_is_value q"
  shows "retains k q s s'"
  using find_value_reply_cases [OF s' refl refl]
proof (elim disjE exE conjE)
  let ?n = "u32_at 48 msg" and ?src = "hd_src (hdr_at msg)"
  fix q' assume q': "dt_query s ?n = Some q'" "q_is_value q'"
  then have qi: "query_inv (dt_id s) q'" using inv by (auto simp: dt_inv_def queries_inv_def)
  have own: "retains k q s s'" if "?n = k" using q' q that by (auto simp: retains_def)
  show "retains k q s s'" if "s' = set_query ?n (stop_timer ?src q') s" using own that by (cases "?n = k") (auto simp: retains_def)
  fix nodes c s1 s2
  assume c: "dt_add c (set_query ?n (query_answered ?src (stop_timer ?src q')) (set_query ?n (stop_timer ?src q') s)) = Some s1"
    "dt_add_peer now c s1 = Some s2"
  note s2 = answer_query [OF c]
  show "retains k q s s'" if "value_found f (hd nodes) c s2 = Some s3" "s' = erase_query ?n s3" for f s3
    using own retains_calls [OF value_found_calls [OF that(1)], of k q] s2 that(2) by (cases "?n = k") (auto simp: retains_def)
  show "retains k q s s'" if send: "send_find call_failed ?n (set_query ?n (merge_answer nodes (query_answered ?src (stop_timer ?src q'))) s2) = Some s'"
  proof (cases "?n = k")
    case False
    moreover have "query_pre (dt_id s) (merge_answer nodes (query_answered ?src (stop_timer ?src q')))"
      using query_answered_pre [OF qi] q'(2) by blast
    ultimately show ?thesis using send_find_keeps [OF send, of k q] s2 by (simp add: retains_def)
  qed (rule own)
qed (simp add: retains_def)

lemma find_host_keeps: "dt_find_node_host sa f s = Some s' \<Longrightarrow> retains k q s s'"
  using find_addr_keeps by (auto simp: dt_find_node_host_def retains_same split: if_splits option.splits)

lemma find_value_keeps: "dt_find_value dst f s = Some s' \<Longrightarrow> retains k q s s'"
  by (rule retains_calls [OF find_calls(2)])

lemma dt_step_keeps:
  assumes "dt_step s s'" "dt_inv s" "dt_query s k = Some q" "q_timers q = {}" "\<not> q_is_value q"
  shows "dt_query s' k = Some q"
proof -
  have "retains k q s s'"
    using assms(1)
  proof cases
    case (query_timer n q' i now)
    then show ?thesis using timer_query_keeps [OF assms(2), of n q' i now s' k q] assms(3,4) by (cases "n = k") auto
  qed (use assms(2,4,5) same_query recv_find_value_query in \<open>blast intro: retains_same find_node_keeps find_addr_keeps find_host_keeps find_value_keeps
      find_node_reply_keeps find_value_reply_keeps request_keeps register_keeps register_self_keeps timer_refresh_keeps | simp add: retains_def set_enabled_def\<close>)+
  then show ?thesis using assms(3) by (simp add: retains_def)
qed

lemma dt_steps_keeps:
  "dt_steps s s' \<Longrightarrow> dt_inv s \<Longrightarrow> dt_query s k = Some q \<Longrightarrow> q_timers q = {} \<Longrightarrow> \<not> q_is_value q \<Longrightarrow> dt_query s' k = Some q"
  by (induction rule: dt_steps.induct) (auto intro: dt_step_keeps dt_steps_inv)

text \<open>An answer to a node query whose length does not fit the number of nodes it
  announces stops the timer of its sender without counting as an answer.  If it was the only one awaited, the query
  is never finished: whatever operations follow, it stays as it is, and its callback is not
  called.\<close>

lemma malformed_answer_blocks_query:
  assumes "peers_reach p" "dt_steps (dtun_init i rs p st dm session junk now jitter) s"
    and q: "dt_query s (u32_at 48 msg) = Some q" "\<not> q_is_value q" "q_timers q = {j}" "reply_timer (hd_src (hdr_at msg)) q = Some j"
    and msg: "hd_dst (hdr_at msg) = dt_id s" "id_at 52 msg = q_dst q" "\<not> nodes_fit msg"
  shows "\<exists>s1. dt_recv_find_node_reply now' msg from s = Some s1 \<and>
    (\<forall>s2. dt_steps s1 s2 \<longrightarrow> dt_query s2 (u32_at 48 msg) = Some (q\<lparr>q_timers := {}\<rparr>))"
proof -
  have inv: "dt_inv s" using dt_steps_inv [OF assms(2)] dtun_init_inv [OF peers_reach_inv [OF assms(1)]] by blast
  let ?s1 = "set_query (u32_at 48 msg) (stop_timer j q) s"
  have s1: "dt_recv_find_node_reply now' msg from s = Some ?s1"
    using q msg by (simp add: dt_recv_find_node_reply_def Let_def)
  have "dt_inv ?s1" by (rule find_node_reply_inv [OF inv s1])
  then have "dt_query s2 (u32_at 48 msg) = Some (stop_timer j q)" if "dt_steps ?s1 s2" for s2
    using dt_steps_keeps [OF that] q(2,3) by (simp add: stop_timer_def)
  then show ?thesis using s1 q(3) by (simp add: stop_timer_def)
qed


lemma malformed_answer_blocks_query_witness:
  "\<exists>s msg s1. dt_steps (dt_joining [7]) s \<and> dt_recv_find_node_reply 1001 msg (In (nat_addr 6)) s = Some s1 \<and>
    (\<forall>s2. dt_steps s1 s2 \<longrightarrow> dt_query s2 7 = Some (first_query\<lparr>q_timers := {}\<rparr>))"
proof -
  obtain s where s: "dt_find_node_addr (In (nat_addr 6)) no_action (dt_joining [7]) = Some s" "dt_query s 7 = Some first_query" "dt_id s = node_id 1"
    using joining_query [of "nat_addr 6"] by (auto simp: dt_joining_def dtun_init_def rttable_init_def)
  have steps: "dt_steps (dt_joining [7]) s" by (rule dt_steps.move [OF dt_steps.stay dt_step.find_node_addr [OF s(1)]])
  have l: "length (node_id 1) = 5" "length me0 = 5" "length zero_id = 5" by (simp_all add: node_id_def me0_def bn_fill_zero_def)
  obtain m where m: "find_msg m type_dtun_find_node (node_id 1) zero_id 7 (node_id 1) domain_inet"
    using find_fields [OF l(1,3,1)] by blast
  obtain msg where "reply_msg msg type_dtun_find_node_reply me0 (node_id 1) 7 (node_id 1) domain_inet 1 0 []"
    using reply_fields [OF m l(2,1)] by blast
  then have msg: "u32_at 48 msg = 7" "hd_dst (hdr_at msg) = node_id 1" "id_at 52 msg = node_id 1" "\<not> nodes_fit msg"
    by (simp_all add: reply_msg_def new_hdr_def nodes_fit_def)
  have "reply_timer src first_query = Some zero_id" for src by (simp add: reply_timer_def first_query_def)
  then show ?thesis
    using malformed_answer_blocks_query [OF empty_peers_reach steps [unfolded dt_joining_def], of msg first_query zero_id 1001 "In (nat_addr 6)"]
      steps s msg by (auto simp: first_query_def)
qed

subsection \<open>Registrations\<close>

lemma registered_eq_total:
  assumes "reg_ok i r1" "reg_ok i r2"
  shows "\<exists>b. registered_eq r1 r2 = Some b"
  using assms by (auto simp: reg_ok_def addr_ok_def registered_eq_def domain_defs Let_def)

lemma add_node_session_total:
  assumes "peers_inv p" "new_cageaddr msg from = Some c"
  shows "\<exists>b p'. add_node_session now c session p = Some (b, p')"
proof (cases "from")
  case (In a)
  then have "c = inet_node (hd_src (hdr_at msg)) a" using assms(2) by (simp add: new_cageaddr_in)
  then show ?thesis using add_inet_node [OF assms(1)] by blast
qed (use assms(2) in \<open>auto simp: new_cageaddr_def add_node_session_def domain_defs\<close>)

lemma register_other_session:
  assumes inv: "dt_inv s" and r: "dt_registered s i = Some r" and addr: "from \<noteq> NoAddr" and session: "u32_at 48 msg \<noteq> rg_session r"
  shows "\<exists>s' t. dt_recv_register now msg from s = Some s' \<and> dt_registered s' i = Some (r\<lparr>rg_t := t\<rparr>)"
proof (cases "hd_dst (hdr_at msg) = dt_id s")
  case True
  obtain c where c: "new_cageaddr msg from = Some c" using addr by (cases "from") (auto simp: new_cageaddr_def)
  let ?r = "\<lparr>rg_addr = c, rg_session = u32_at 48 msg, rg_t = now\<rparr>"
  have regs: "\<forall>j r. dt_registered s j = Some r \<longrightarrow> reg_ok j r" and peers: "peers_inv (dt_peers s)" using inv by (simp_all add: dt_inv_def rest_inv_def)
  obtain b p where p: "add_node_session now c (u32_at 48 msg) (dt_peers s) = Some (b, p)"
    using add_node_session_total [OF peers c] by blast
  have r_id: "r\<lparr>rg_t := rg_t r\<rparr> = r" by simp
  have new: "reg_ok (ca_id c) ?r" using new_cageaddr_ok [OF c] by (simp add: reg_ok_def)
  show ?thesis
  proof (cases "dt_registered s (ca_id c)")
    case None
    then show ?thesis using True c p r by (intro exI [of _ "s\<lparr>dt_registered := (dt_registered s)(ca_id c \<mapsto> ?r), dt_peers := p\<rparr>"] exI [of _ "rg_t r"])
      (auto simp: dt_recv_register_def Let_def)
  next
    case (Some old)
    obtain same where same: "registered_eq old ?r = Some same" using registered_eq_total [OF _ new] regs Some by blast
    show ?thesis
    proof (cases "rg_session old = u32_at 48 msg")
      case eq: True
      then have "i \<noteq> ca_id c" using Some r session by auto
      then show ?thesis using True c p r eq Some
        by (intro exI [of _ "s\<lparr>dt_registered := (dt_registered s)(ca_id c \<mapsto> ?r), dt_peers := p\<rparr>"] exI [of _ "rg_t r"])
          (auto simp: dt_recv_register_def Let_def)
    next
      case False
      let ?reg = "if same then (dt_registered s)(ca_id c \<mapsto> old\<lparr>rg_t := now\<rparr>) else dt_registered s"
      have "dt_recv_register now msg from s = Some (s\<lparr>dt_registered := ?reg, dt_peers := p\<rparr>)"
        using True c p Some False same by (auto simp: dt_recv_register_def Let_def)
      moreover have "?reg i = Some (r\<lparr>rg_t := if i = ca_id c \<and> same then now else rg_t r\<rparr>)" using r Some by auto
      ultimately show ?thesis by (intro exI conjI) (assumption, simp)
    qed
  qed
next
  case False
  then show ?thesis using r by (intro exI [of _ s] exI [of _ "rg_t r"]) (simp add: dt_recv_register_def)
qed

text \<open>Property C23.  A registration keeps its address: however many registrations with other sessions
  arrive, for that identifier or others and from any address, the entry still has its
  address and session; at most its time changes.\<close>

theorem registration_protected:
  assumes "peers_reach p" "dt_steps (dtun_init me rs p st dm session junk now jitter) s" "dt_registered s i = Some r"
    and "\<forall>(now, msg, from) \<in> set ms. from \<noteq> NoAddr \<and> u32_at 48 msg \<noteq> rg_session r"
  shows "\<exists>s' t. run_steps (\<lambda>(now, msg, from). dt_recv_register now msg from) ms s = Some s' \<and> dt_registered s' i = Some (r\<lparr>rg_t := t\<rparr>)"
proof -
  have inv: "dt_inv s" using dt_steps_inv [OF assms(2)] dtun_init_inv [OF peers_reach_inv [OF assms(1)]] by blast
  let ?I = "\<lambda>s. dt_inv s \<and> (\<exists>t. dt_registered s i = Some (r\<lparr>rg_t := t\<rparr>))"
  have "\<exists>s'. run_steps (\<lambda>(now, msg, from). dt_recv_register now msg from) ms s = Some s' \<and> ?I s'"
  proof (rule run_steps_invariant)
    have "r\<lparr>rg_t := rg_t r\<rparr> = r" by simp
    then show "?I s" using inv assms(3) by metis
  next
    fix m s assume m: "m \<in> set ms" and I: "?I s"
    obtain now msg "from" where m': "m = (now, msg, from)" by (cases m) auto
    obtain s1 t where s1: "dt_recv_register now msg from s = Some s1" "dt_registered s1 i = Some (r\<lparr>rg_t := t\<rparr>)"
      using register_other_session [of s i _ "from" msg now] I m m' assms(4) by fastforce
    then show "\<exists>s'. (\<lambda>(now, msg, from). dt_recv_register now msg from) m s = Some s' \<and> ?I s'"
      using recv_register_inv [of s now msg "from" s1] I m' by auto
  qed
  then show ?thesis by blast
qed


theorem registration_protected_witness:
  "\<exists>m m' s s' t. dt_recv_register 1000 m (In (nat_addr 6)) (dt_joining []) = Some s \<and>
    run_steps (\<lambda>(now, msg, from). dt_recv_register now msg from) [(1001, m', In (nat_addr 8))] s = Some s' \<and>
    dt_registered s' (node_id 2) = Some \<lparr>rg_addr = inet_node (node_id 2) (nat_addr 6), rg_session = 3, rg_t = t\<rparr>"
proof -
  have l: "length (node_id 1) = 5" "length (node_id 2) = 5" by (simp_all add: node_id_def)
  obtain m m' where m: "nonce_msg m type_dtun_register (node_id 2) (node_id 1) 3" "nonce_msg m' type_dtun_register (node_id 2) (node_id 1) 4"
    using register_fields [OF l(2,1)] by blast
  let ?r = "\<lparr>rg_addr = inet_node (node_id 2) (nat_addr 6), rg_session = 3, rg_t = 1000\<rparr>"
  obtain b p where "add_node_session 1000 (inet_node (node_id 2) (nat_addr 6)) 3 empty_peers = Some (b, p)"
    using add_inet_node [OF empty_peers_inv] by blast
  then obtain s where s: "dt_recv_register 1000 m (In (nat_addr 6)) (dt_joining []) = Some s" "dt_registered s (node_id 2) = Some ?r"
    using m(1) by (auto simp: dt_recv_register_def nonce_msg_def new_cageaddr_in dt_joining_def dtun_init_def rttable_init_def)
  have steps: "dt_steps (dt_joining []) s" by (rule dt_steps.move [OF dt_steps.stay dt_step.recv_register [OF s(1)]])
  have "\<forall>(now, msg, from) \<in> set [(1001 :: int, m', In (nat_addr 8))]. from \<noteq> NoAddr \<and> u32_at 48 msg \<noteq> rg_session ?r"
    using m(2) by (simp add: nonce_msg_def)
  from registration_protected [OF empty_peers_reach steps [unfolded dt_joining_def] s(2) this] obtain s' t where
    "run_steps (\<lambda>(now, msg, from). dt_recv_register now msg from) [(1001, m', In (nat_addr 8))] s = Some s'"
    "dt_registered s' (node_id 2) = Some (?r\<lparr>rg_t := t\<rparr>)" by blast
  then show ?thesis using s(1) by (intro exI [of _ m] exI [of _ m'] exI [of _ s] exI [of _ s'] exI [of _ t]) simp
qed

end
