(* ===== verification/Dht_Store.thy ===== *)
theory Dht_Store
  imports Cagetypes Ordmap "HOL-Library.AList"
begin

section \<open>The data a node of the DHT stores (dht.hpp, dht.cpp)\<close>

text \<open>
  \<^verbatim>\<open>m_stored\<close> maps an identifier to a map from keys to sets of values.  The hash tables are
  association lists and the set a list of \<open>stored_data\<close> with distinct values, since
  \<^verbatim>\<open>stored_data::operator==\<close> compares values only; the order in which a table is iterated is
  up to its hash function and a parameter where it matters.  A buffer and its length are one
  list of bytes.  \<open>junk\<close> stands for members that are read without having been set.
\<close>

definition original_put_num :: int where "original_put_num = 3"

record stored_data =
  se_key :: "u8 list"
  se_value :: "u8 list"
  se_id :: uint160
  se_src :: uint160
  se_unique :: bool
  se_recvd :: "uint160 set"
  se_time :: int
  se_original :: int
  se_ttl :: u16

type_synonym sdata_set = "stored_data list"
type_synonym sdata_map = "(u8 list \<times> sdata_set) list"
type_synonym stored = "(uint160 \<times> sdata_map) list"

text \<open>\<^verbatim>\<open>value_t::operator<\<close>, by which sets of found values are ordered.\<close>

definition bytes_less :: "u8 list \<Rightarrow> u8 list \<Rightarrow> bool" where
  "bytes_less v w =
     (let n = min (length v) (length w) in
      case filter (\<lambda>(x, y). x \<noteq> y) (zip (take n v) (take n w)) of
        (x, y) # _ \<Rightarrow> x < y
      | [] \<Rightarrow> length v < length w)"

subsection \<open>Sets and maps\<close>

definition se_find :: "u8 list \<Rightarrow> sdata_set \<Rightarrow> stored_data option" where
  "se_find v ds = List.find (\<lambda>d. se_value d = v) ds"

definition se_insert :: "stored_data \<Rightarrow> sdata_set \<Rightarrow> sdata_set" where
  "se_insert d ds = (if se_find (se_value d) ds \<noteq> None then ds else ds @ [d])"

definition se_update :: "u8 list \<Rightarrow> (stored_data \<Rightarrow> stored_data) \<Rightarrow> sdata_set \<Rightarrow> sdata_set" where
  "se_update v f ds = map (\<lambda>d. if se_value d = v then f d else d) ds"

definition se_erase :: "u8 list \<Rightarrow> sdata_set \<Rightarrow> sdata_set" where
  "se_erase v ds = filter (\<lambda>d. se_value d \<noteq> v) ds"

definition stored_map :: "stored \<Rightarrow> uint160 \<Rightarrow> sdata_map" where
  "stored_map st i = (case map_of st i of None \<Rightarrow> [] | Some m \<Rightarrow> m)"

definition stored_set :: "stored \<Rightarrow> uint160 \<Rightarrow> u8 list \<Rightarrow> sdata_set option" where
  "stored_set st i k = map_of (stored_map st i) k"

definition put_set :: "uint160 \<Rightarrow> u8 list \<Rightarrow> sdata_set \<Rightarrow> stored \<Rightarrow> stored" where
  "put_set i k ds st = AList.update i (AList.update k ds (stored_map st i)) st"

text \<open>A set that becomes empty is erased, and so is a map that does.\<close>

definition keep_set :: "uint160 \<Rightarrow> u8 list \<Rightarrow> sdata_set \<Rightarrow> stored \<Rightarrow> stored" where
  "keep_set i k ds st =
     (if ds \<noteq> [] then put_set i k ds st
      else let m = AList.delete k (stored_map st i) in
        if m = [] then AList.delete i st else AList.update i m st)"

subsection \<open>Operations\<close>

definition renew_sdata :: "stored_data \<Rightarrow> bool \<Rightarrow> stored_data \<Rightarrow> stored_data" where
  "renew_sdata d is_origin e =
     e\<lparr>se_ttl := se_ttl d, se_time := se_time d, se_original := (if is_origin then se_original d else se_original e)\<rparr>"

definition add_sdata :: "stored_data \<Rightarrow> bool \<Rightarrow> stored \<Rightarrow> stored" where
  "add_sdata d is_origin st =
     (let i = se_id d; k = se_key d in
      case stored_set st i k of
        None \<Rightarrow> put_set i k (se_insert d []) st
      | Some ds \<Rightarrow>
          if se_unique d then
            (case ds of
               [] \<Rightarrow> put_set i k (se_insert d ds) st
             | [e] \<Rightarrow>
                 if se_src e = se_src d \<and> se_unique e then
                   (if se_value e = se_value d then put_set i k [renew_sdata d True e] st
                    else put_set i k [d] st)
                 else st
             | _ \<Rightarrow> st)
          else if length ds = 1 \<and> se_unique (hd ds) then st
          else case se_find (se_value d) ds of
            None \<Rightarrow> put_set i k (se_insert d ds) st
          | Some e \<Rightarrow>
              if se_src e \<noteq> se_src d then st
              else put_set i k (se_update (se_value d) (renew_sdata d is_origin) ds) st)"

text \<open>\<open>None\<close> is the dereference of \<^verbatim>\<open>end()\<close>: the key is stored, the value is not.\<close>

definition erase_sdata :: "stored_data \<Rightarrow> stored \<Rightarrow> stored option" where
  "erase_sdata d st =
     (case stored_set st (se_id d) (se_key d) of
        None \<Rightarrow> Some st
      | Some ds \<Rightarrow> do {
          e \<leftarrow> se_find (se_value d) ds;
          Some (if se_src e \<noteq> se_src d then st else keep_set (se_id d) (se_key d) (se_erase (se_value d) ds) st)
        })"

definition insert2recvd_sdata :: "stored_data \<Rightarrow> uint160 \<Rightarrow> stored \<Rightarrow> stored" where
  "insert2recvd_sdata d src st =
     (case stored_set st (se_id d) (se_key d) of
        None \<Rightarrow> st
      | Some ds \<Rightarrow>
          if se_find (se_value d) ds = None then st
          else put_set (se_id d) (se_key d) (se_update (se_value d) (\<lambda>e. e\<lparr>se_recvd := insert src (se_recvd e)\<rparr>) ds) st)"

definition dec_original :: "stored_data \<Rightarrow> stored_data" where
  "dec_original e = (if se_original e > 0 then e\<lparr>se_original := se_original e - 1\<rparr> else e)"

definition dec_origin_sdata :: "stored_data \<Rightarrow> stored \<Rightarrow> int \<times> stored" where
  "dec_origin_sdata d st =
     (case stored_set st (se_id d) (se_key d) of
        None \<Rightarrow> (-1, put_set (se_id d) (se_key d) (se_insert d []) st)
      | Some ds \<Rightarrow>
          (case se_find (se_value d) ds of
             None \<Rightarrow> (-1, put_set (se_id d) (se_key d) (se_insert d ds) st)
           | Some e \<Rightarrow> (se_original (dec_original e), put_set (se_id d) (se_key d) (se_update (se_value d) dec_original ds) st)))"

definition expired :: "int \<Rightarrow> stored_data \<Rightarrow> bool" where
  "expired now d \<longleftrightarrow> now - se_time d > uint (se_ttl d)"

definition fresh_set :: "int \<Rightarrow> sdata_set \<Rightarrow> sdata_set" where
  "fresh_set now ds = filter (\<lambda>d. \<not> expired now d) ds"

definition refresh_map :: "int \<Rightarrow> sdata_map \<Rightarrow> sdata_map" where
  "refresh_map now m = filter (\<lambda>(k, ds). ds \<noteq> []) (map (\<lambda>(k, ds). (k, fresh_set now ds)) m)"

definition refresh_stored :: "int \<Rightarrow> stored \<Rightarrow> stored" where
  "refresh_stored now st = filter (\<lambda>(i, m). m \<noteq> []) (map (\<lambda>(i, m). (i, refresh_map now m)) st)"

subsection \<open>Well-formed tables\<close>

text \<open>The entry for a value, which is what all the operations are about.\<close>

definition stored_at :: "stored \<Rightarrow> uint160 \<Rightarrow> u8 list \<Rightarrow> u8 list \<Rightarrow> stored_data option" where
  "stored_at st i k v = Option.bind (stored_set st i k) (se_find v)"

definition set_wf :: "uint160 \<Rightarrow> u8 list \<Rightarrow> sdata_set \<Rightarrow> bool" where
  "set_wf i k ds \<longleftrightarrow> distinct (map se_value ds) \<and> (\<forall>d \<in> set ds. se_id d = i \<and> se_key d = k)"

definition map_wf :: "uint160 \<Rightarrow> sdata_map \<Rightarrow> bool" where
  "map_wf i m \<longleftrightarrow> distinct (map fst m) \<and> (\<forall>(k, ds) \<in> set m. ds \<noteq> [] \<and> set_wf i k ds)"

definition stored_wf :: "stored \<Rightarrow> bool" where
  "stored_wf st \<longleftrightarrow> distinct (map fst st) \<and> (\<forall>(i, m) \<in> set st. m \<noteq> [] \<and> map_wf i m)"

end
