(* ===== verification/Dht.thy ===== *)
theory Dht
  imports Dht_Store Dtun Rdp
begin

section \<open>The distributed hash table (dht.hpp, dht.cpp)\<close>

text \<open>
  A node stores values for the identifiers it is close to.  Values are stored at and fetched
  from the closest nodes, which queries find step by step, by single datagrams or, by
  default, over connections of the reliable datagram protocol.

  \<open>d_rt\<close> is the base class, \<open>d_dtun\<close> the directory of tunnels and through it what both
  share: \<^verbatim>\<open>m_peers\<close>, the state of the NAT detection, the domain of the socket and the datagrams
  sent.  \<open>d_rdp\<close> is the protocol machine.  Query objects live in \<open>d_heap\<close>, since callbacks
  hold pointers to them that outlive their entry in \<open>d_query\<close>; a query's timers are those in
  \<open>dq_timers\<close>.  Callbacks passed to \<open>d_rdp\<close> and \<open>d_dtun\<close> are numbered: the number is the
  position in \<open>d_funcs\<close> or \<open>d_reqs\<close>; \<open>RdpOther\<close> stands for a callback of another
  component.  \<open>d_results\<close> holds the calls of callbacks that other components passed.  \<open>d_order\<close> gives the sequences in which the hash tables are iterated,
  \<open>d_junk\<close> an entry whose members stand for those that are used without having been set.
  \<open>d_slow\<close>, \<open>d_fast\<close> and \<open>d_join\<close> are when the timers fire; \<open>t\<close> is what \<^verbatim>\<open>time(NULL)\<close>
  returns.  Results are \<open>None\<close> where the code has no defined behaviour or throws, and where
  the random numbers run out.
\<close>

definition dht_num_find_node :: int where "dht_num_find_node = 10"
definition dht_max_query :: int where "dht_max_query = 6"
definition dht_query_timeout :: int where "dht_query_timeout = 3"
definition restore_interval :: int where "restore_interval = 120"
definition slow_timer_interval :: int where "slow_timer_interval = 600"
definition fast_timer_interval :: int where "fast_timer_interval = 60"
definition rdp_store_port :: u16 where "rdp_store_port = 100"
definition rdp_get_port :: u16 where "rdp_get_port = 101"
definition dht_rdp_timeout :: int where "dht_rdp_timeout = 30"

lemmas dht_consts = dht_num_find_node_def dht_max_query_def dht_query_timeout_def restore_interval_def slow_timer_interval_def
  fast_timer_interval_def rdp_store_port_def rdp_get_port_def dht_rdp_timeout_def original_put_num_def

definition data_are_nodes :: u8 where "data_are_nodes = 0xa0"
definition data_are_values :: u8 where "data_are_values = 0xa1"
definition data_are_nul :: u8 where "data_are_nul = 0xa2"
definition get_by_udp :: u8 where "get_by_udp = 0xb0"
definition get_by_rdp :: u8 where "get_by_rdp = 0xb1"
definition dht_flag_unique :: u8 where "dht_flag_unique = 0x01"
definition dht_get_next :: u8 where "dht_get_next = 0xc0"

lemmas dht_flags = data_are_nodes_def data_are_values_def data_are_nul_def get_by_udp_def get_by_rdp_def dht_flag_unique_def dht_get_next_def

text \<open>The size of the buffers messages are composed in.\<close>

definition dht_buf_size :: nat where "dht_buf_size = 2048"

record store_func =
  sf_key :: "u8 list"
  sf_value :: "u8 list"
  sf_ttl :: u16
  sf_id :: uint160
  sf_from :: uint160
  sf_unique :: bool

datatype nodes_func = dht_no_action | StoreFunc store_func | RestoreFunc | DhtNodesTo nat

datatype dht_callback = NodesFunc nodes_func | ValueFunc nat

datatype dht_result = DhtNodes nat "cageaddr list" | DhtValues nat "u8 list set option"

datatype rdp_func = RdpRecvStore | RdpRecvGet | RdpStore store_func | RdpGet nat | RdpOther nat

datatype req_func = PingFunc u32 | FindNodeFunc uint160 u32 | FindValueFunc "u8 list" uint160 u32

record val_info =
  vi_indeces :: "u16 set"
  vi_values :: "u8 list set"
  vi_num :: u16

datatype query_state = QUERY_HDR | QUERY_VAL

record dht_query =
  dq_nodes :: "cageaddr list"
  dq_timers :: "uint160 set"
  dq_sent :: "uint160 set"
  dq_dst :: uint160
  dq_nonce :: u32
  dq_num :: int
  dq_is_value :: bool
  dq_key :: "u8 list"
  dq_valinfo :: "(uint160 \<times> val_info) list"
  dq_vset :: "u8 list set"
  dq_ids :: "uint160 list"
  dq_rdp_con :: bool
  dq_desc :: int
  dq_time :: int
  dq_state :: query_state
  dq_vallen :: u16
  dq_val :: "u8 list"
  dq_recvd_timer :: "int option"
  dq_func :: dht_callback

record recv_store =
  rs_key :: "u8 list"
  rs_value :: "u8 list"
  rs_keylen :: u16
  rs_valuelen :: u16
  rs_ttl :: u16
  rs_id :: uint160
  rs_src :: uint160
  rs_last :: int
  rs_hdr_read :: bool
  rs_unique :: bool

datatype rget_state = RGET_HDR | RGET_KEY | RGET_VAL | RGET_END

record recv_get =
  gt_time :: int
  gt_state :: rget_state
  gt_id :: uint160
  gt_keylen :: u16
  gt_key :: "u8 list"
  gt_data :: "u8 list list"

record hash_order =
  ho_ids :: "uint160 list \<Rightarrow> uint160 list"
  ho_keys :: "u8 list list \<Rightarrow> u8 list list"
  ho_values :: "u8 list list \<Rightarrow> u8 list list"

record dht =
  d_rt :: rttable
  d_dtun :: dtun
  d_rdp :: rdp
  d_is_dtun :: bool
  d_use_rdp :: bool
  d_last_restore :: int
  d_mask_bit :: int
  d_stored :: stored
  d_heap :: "nat \<Rightarrow> dht_query"
  d_next :: nat
  d_query :: "(u32 \<times> nat) list"
  d_recv_store :: "(int \<times> recv_store) list"
  d_rdp_store :: "(int \<times> int) list"
  d_recv_get :: "(int \<times> recv_get) list"
  d_recv_listen :: int
  d_get_listen :: int
  d_funcs :: "rdp_func list"
  d_reqs :: "req_func list"
  d_order :: hash_order
  d_junk :: stored_data
  d_slow :: int
  d_fast :: int
  d_join :: int
  d_results :: "dht_result list"

abbreviation d_id :: "dht \<Rightarrow> uint160" where
  "d_id s \<equiv> m_id (d_rt s)"

abbreviation d_peers :: "dht \<Rightarrow> peers" where
  "d_peers s \<equiv> dt_peers (d_dtun s)"

definition d_send :: "sent \<Rightarrow> dht \<Rightarrow> dht" where
  "d_send ms s = s\<lparr>d_dtun := dt_send ms (d_dtun s)\<rparr>"

definition d_called :: "dht_result \<Rightarrow> dht \<Rightarrow> dht" where
  "d_called r s = s\<lparr>d_results := d_results s @ [r]\<rparr>"

definition put_q :: "nat \<Rightarrow> dht_query \<Rightarrow> dht \<Rightarrow> dht" where
  "put_q p q s = s\<lparr>d_heap := (d_heap s)(p := q)\<rparr>"

definition d_set_stored :: "stored \<Rightarrow> dht \<Rightarrow> dht" where
  "d_set_stored st s = s\<lparr>d_stored := st\<rparr>"

lemmas d_upd = d_send_def d_called_def put_q_def d_set_stored_def

text \<open>The guard of the operations that need a reachable node.\<close>

definition not_reachable :: "dht \<Rightarrow> bool" where
  "not_reachable s \<longleftrightarrow> dt_nat (d_dtun s) \<in> {node_symmetric, node_undefined, node_nat}"

subsection \<open>Calls of other components\<close>

definition d_connect :: "u16 \<Rightarrow> uint160 \<Rightarrow> u16 \<Rightarrow> rdp_func \<Rightarrow> dht \<Rightarrow> (int \<times> dht) option" where
  "d_connect sp dst dp f s = do {
     (d, r) \<leftarrow> connect sp dst dp (length (d_funcs s)) (d_rdp s);
     Some (d, s\<lparr>d_rdp := r, d_funcs := d_funcs s @ [f]\<rparr>)
   }"

definition d_close :: "int \<Rightarrow> dht \<Rightarrow> dht option" where
  "d_close d s = do { r \<leftarrow> close d (d_rdp s); Some (s\<lparr>d_rdp := r\<rparr>) }"

definition d_rdp_send :: "int \<Rightarrow> u8 list \<Rightarrow> dht \<Rightarrow> dht option" where
  "d_rdp_send d buf s = do { (n, r) \<leftarrow> send d buf (d_rdp s); Some (s\<lparr>d_rdp := r\<rparr>) }"

definition d_receive :: "int \<Rightarrow> int \<Rightarrow> dht \<Rightarrow> u8 list \<times> dht" where
  "d_receive d n s = (let (bs, r) = receive d n (d_rdp s) in (bs, s\<lparr>d_rdp := r\<rparr>))"

definition d_request :: "uint160 \<Rightarrow> req_func \<Rightarrow> dht \<Rightarrow> dht option" where
  "d_request dst f s = do {
     dt \<leftarrow> dt_request_node dst (length (d_reqs s)) (d_dtun s);
     Some (s\<lparr>d_dtun := dt, d_reqs := d_reqs s @ [f]\<rparr>)
   }"

subsection \<open>Pings and the routing table\<close>

definition d_send_ping :: "cageaddr \<Rightarrow> u32 \<Rightarrow> dht \<Rightarrow> dht option" where
  "d_send_ping dst nonce s =
     (if d_is_dtun s \<and> not_reachable s then Some s
      else if d_is_dtun s \<and> get_addr (ca_id dst) (d_peers s) = None then d_request (ca_id dst) (PingFunc nonce) s
      else do { ms \<leftarrow> send_ping_tmpl dst nonce type_dht_ping (d_id s); Some (d_send ms s) })"

fun d_send_pings :: "(cageaddr \<times> u32) list \<Rightarrow> dht \<Rightarrow> dht option" where
  "d_send_pings [] s = Some s"
| "d_send_pings ((dst, nonce) # ps) s = do { s \<leftarrow> d_send_ping dst nonce s; d_send_pings ps s }"

definition d_add :: "cageaddr \<Rightarrow> dht \<Rightarrow> dht option" where
  "d_add c s = do {
     rt \<leftarrow> rt_add c (d_rt s);
     d_send_pings (drop (length (pings (d_rt s))) (pings rt)) (s\<lparr>d_rt := rt\<rparr>)
   }"

text \<open>The callback of \<^verbatim>\<open>m_peers\<close>, called for every address a peer is seen at.\<close>

definition sync_node :: "cageaddr \<Rightarrow> dht \<Rightarrow> dht option" where
  "sync_node c s = (if has_id (ca_id c) (d_rt s) then Some s else d_add c s)"

definition d_set_peers :: "peers \<Rightarrow> dht \<Rightarrow> dht option" where
  "d_set_peers p s = run_steps sync_node (drop (length (called (d_peers s))) (called p)) (s\<lparr>d_dtun := (d_dtun s)\<lparr>dt_peers := p\<rparr>\<rparr>)"

definition d_add_peer :: "int \<Rightarrow> cageaddr \<Rightarrow> dht \<Rightarrow> dht option" where
  "d_add_peer t c s = do { p \<leftarrow> add_node t c (d_peers s); d_set_peers p s }"

definition d_timer_ping :: "int \<Rightarrow> u32 \<Rightarrow> dht \<Rightarrow> dht option" where
  "d_timer_ping t nonce s = do {
     (p, rt) \<leftarrow> ping_timeout_fire t nonce (d_peers s) (d_rt s);
     Some (s\<lparr>d_rt := rt, d_dtun := (d_dtun s)\<lparr>dt_peers := p\<rparr>\<rparr>)
   }"

definition d_recv_ping :: "int \<Rightarrow> u8 list \<Rightarrow> saddr \<Rightarrow> dht \<Rightarrow> dht option" where
  "d_recv_ping t msg from s = do {
     (ms, p) \<leftarrow> recv_ping_tmpl t msg from type_dht_ping_reply (d_id s) (d_peers s);
     d_set_peers p (d_send ms s)
   }"

definition d_recv_ping_reply :: "int \<Rightarrow> u8 list \<Rightarrow> saddr \<Rightarrow> dht \<Rightarrow> dht option" where
  "d_recv_ping_reply t msg from s = do {
     (p, rt) \<leftarrow> recv_ping_reply_tmpl t msg from (d_id s) (d_peers s) (d_rt s);
     d_set_peers p (s\<lparr>d_rt := rt\<rparr>)
   }"

subsection \<open>Storing at the nodes found\<close>

text \<open>
  The callback of the node query that \<open>d_store\<close> starts.  By datagram the values go out under
  the own identifier whatever \<open>sf_from\<close> is.  The result tells whether the node itself is
  among the nodes; it is \<open>False\<close> for a value too long for a datagram.
\<close>

definition store_flags :: "bool \<Rightarrow> u8" where
  "store_flags unique = (if unique then dht_flag_unique else 0)"

definition rdp_store_hdr :: "store_func \<Rightarrow> uint160 \<Rightarrow> u8 list option" where
  "rdp_store_hdr f from = do {
     i \<leftarrow> id_bytes (sf_id f);
     src \<leftarrow> id_bytes from;
     Some (i @ src @ htons_bytes (of_nat (length (sf_key f))) @ htons_bytes (of_nat (length (sf_value f))) @ htons_bytes (sf_ttl f) @
       [store_flags (sf_unique f), 0])
   }"

definition msg_dht_store :: "store_func \<Rightarrow> uint160 \<Rightarrow> u8 list option" where
  "msg_dht_store f from = do { h \<leftarrow> rdp_store_hdr f from; Some (h @ sf_key f @ sf_value f) }"

definition store_fits :: "store_func \<Rightarrow> bool" where
  "store_fits f \<longleftrightarrow> 96 + length (sf_key f) + length (sf_value f) \<le> dht_buf_size"

fun send_store :: "u8 list \<Rightarrow> cageaddr list \<Rightarrow> dht \<Rightarrow> dht option" where
  "send_store body [] s = Some s"
| "send_store body (c # nodes) s =
     (if ca_id c = d_id s then send_store body nodes s
      else do { ms \<leftarrow> send_msg body type_dht_store c (d_id s); send_store body nodes (d_send ms s) })"

definition has_me :: "cageaddr list \<Rightarrow> dht \<Rightarrow> bool" where
  "has_me nodes s \<longleftrightarrow> d_id s \<in> ca_id ` set nodes"

definition store_by_udp :: "store_func \<Rightarrow> cageaddr list \<Rightarrow> dht \<Rightarrow> (bool \<times> dht) option" where
  "store_by_udp f nodes s =
     (if \<not> store_fits f then Some (False, s)
      else do {
        b \<leftarrow> msg_dht_store f (d_id s);
        s' \<leftarrow> send_store b nodes s;
        Some (has_me nodes s, s')
      })"

definition connect_store :: "int \<Rightarrow> store_func \<Rightarrow> uint160 \<Rightarrow> dht \<Rightarrow> dht option" where
  "connect_store t f i s = do {
     (d, s) \<leftarrow> d_connect 0 i rdp_store_port (RdpStore f) s;
     Some (if d \<le> 0 then s else s\<lparr>d_rdp_store := ord_ins d t (d_rdp_store s)\<rparr>)
   }"

fun connect_stores :: "int \<Rightarrow> store_func \<Rightarrow> cageaddr list \<Rightarrow> dht \<Rightarrow> dht option" where
  "connect_stores t f [] s = Some s"
| "connect_stores t f (c # nodes) s =
     (if ca_id c = d_id s then connect_stores t f nodes s
      else do { s \<leftarrow> connect_store t f (ca_id c) s; connect_stores t f nodes s })"

definition store_by_rdp :: "int \<Rightarrow> store_func \<Rightarrow> cageaddr list \<Rightarrow> dht \<Rightarrow> (bool \<times> dht) option" where
  "store_by_rdp t f nodes s = do { s' \<leftarrow> connect_stores t f nodes s; Some (has_me nodes s, s') }"

text \<open>The entry a \<^verbatim>\<open>store_func\<close> looks for; the members it does not set are those of \<open>junk\<close>.\<close>

definition store_sdata :: "store_func \<Rightarrow> stored_data \<Rightarrow> stored_data" where
  "store_sdata f junk = junk\<lparr>se_key := sf_key f, se_value := sf_value f, se_id := sf_id f, se_src := sf_from f, se_unique := sf_unique f, se_recvd := {}\<rparr>"

definition stored_func :: "int \<Rightarrow> store_func \<Rightarrow> cageaddr list \<Rightarrow> dht \<Rightarrow> dht option" where
  "stored_func t f nodes s = do {
     (me, s) \<leftarrow> (if d_use_rdp s then store_by_rdp t f nodes s else store_by_udp f nodes s);
     if int (length nodes) \<ge> dht_num_find_node then do {
       let d = store_sdata f (d_junk s);
       let (origin, st) = dec_origin_sdata d (d_stored s);
       st \<leftarrow> (if origin = 0 \<and> \<not> me then erase_sdata d st else Some st);
       Some (d_set_stored st s)
     }
     else Some s
   }"

subsection \<open>Queries\<close>

text \<open>
  \<open>restored\<close> is what the callback \<^verbatim>\<open>restore_func\<close> does; it starts queries itself, but none
  with that callback.
\<close>

definition dht_find_node_body :: "uint160 \<Rightarrow> u32 \<Rightarrow> u16 \<Rightarrow> u8 list option" where
  "dht_find_node_body dst nonce domain = do {
     i \<leftarrow> id_bytes dst;
     Some (htonl_bytes nonce @ i @ htons_bytes domain @ [0, 0])
   }"

definition send_dht_find_node :: "uint160 \<Rightarrow> u32 \<Rightarrow> cageaddr \<Rightarrow> dht \<Rightarrow> dht option" where
  "send_dht_find_node dst nonce c s = do {
     b \<leftarrow> dht_find_node_body dst nonce (ca_domain c);
     ms \<leftarrow> send_msg b type_dht_find_node c (d_id s);
     Some (d_send ms s)
   }"

definition dht_find_value_body :: "bool \<Rightarrow> u8 list \<Rightarrow> uint160 \<Rightarrow> u32 \<Rightarrow> u16 \<Rightarrow> u8 list option" where
  "dht_find_value_body use_rdp key dst nonce domain = do {
     i \<leftarrow> id_bytes dst;
     Some (htonl_bytes nonce @ i @ htons_bytes domain @
       (if use_rdp then [0, 0, get_by_rdp, 0, 0, 0] else htons_bytes (of_nat (length key)) @ [get_by_udp, 0, 0, 0] @ key))
   }"

definition send_dht_find_value :: "u8 list \<Rightarrow> uint160 \<Rightarrow> u32 \<Rightarrow> cageaddr \<Rightarrow> dht \<Rightarrow> dht option" where
  "send_dht_find_value key dst nonce c s =
     (if 80 + (if d_use_rdp s then 0 else length key) > dht_buf_size then Some s
      else do {
        b \<leftarrow> dht_find_value_body (d_use_rdp s) key dst nonce (ca_domain c);
        ms \<leftarrow> send_msg b type_dht_find_value c (d_id s);
        Some (d_send ms s)
      })"

text \<open>A node whose address is not known is requested through the directory of tunnels.\<close>

definition unknown_peer :: "cageaddr \<Rightarrow> dht \<Rightarrow> bool" where
  "unknown_peer c s \<longleftrightarrow> d_is_dtun s \<and> \<not> bn_is_zero (ca_id c) \<and> get_addr (ca_id c) (d_peers s) = None"

definition d_send_find_node :: "cageaddr \<Rightarrow> nat \<Rightarrow> dht \<Rightarrow> dht option" where
  "d_send_find_node c p s =
     (let q = d_heap s p in
      if unknown_peer c s then d_request (ca_id c) (FindNodeFunc (dq_dst q) (dq_nonce q)) s
      else send_dht_find_node (dq_dst q) (dq_nonce q) c s)"

definition d_send_find_value :: "cageaddr \<Rightarrow> nat \<Rightarrow> dht \<Rightarrow> dht option" where
  "d_send_find_value c p s =
     (let q = d_heap s p in
      if unknown_peer c s then d_request (ca_id c) (FindValueFunc (dq_key q) (dq_dst q) (dq_nonce q)) s
      else send_dht_find_value (dq_key q) (dq_dst q) (dq_nonce q) c s)"

text \<open>The requested node is reached, at \<open>c\<close>.\<close>

fun req_func_called :: "req_func \<Rightarrow> cageaddr \<Rightarrow> dht \<Rightarrow> dht option" where
  "req_func_called (PingFunc nonce) c s = do { ms \<leftarrow> send_ping_tmpl c nonce type_dht_ping (d_id s); Some (d_send ms s) }"
| "req_func_called (FindNodeFunc dst nonce) c s = send_dht_find_node dst nonce c s"
| "req_func_called (FindValueFunc key dst nonce) c s = send_dht_find_value key dst nonce c s"

definition d_requested :: "nat \<Rightarrow> cageaddr option \<Rightarrow> dht \<Rightarrow> dht option" where
  "d_requested tag res s =
     (case res of
        None \<Rightarrow> Some s
      | Some c \<Rightarrow> if tag < length (d_reqs s) then req_func_called (d_reqs s ! tag) c s else Some s)"

fun nodes_func_called :: "(dht \<Rightarrow> dht option) \<Rightarrow> int \<Rightarrow> nodes_func \<Rightarrow> cageaddr list \<Rightarrow> dht \<Rightarrow> dht option" where
  "nodes_func_called restored t dht_no_action nodes s = Some s"
| "nodes_func_called restored t (StoreFunc f) nodes s = stored_func t f nodes s"
| "nodes_func_called restored t RestoreFunc nodes s = restored s"
| "nodes_func_called restored t (DhtNodesTo tag) nodes s = Some (d_called (DhtNodes tag nodes) s)"

text \<open>A query ends without a value; \<open>None\<close> is the exception of \<^verbatim>\<open>boost::get\<close>.\<close>

fun query_ended :: "(dht \<Rightarrow> dht option) \<Rightarrow> int \<Rightarrow> bool \<Rightarrow> dht_callback \<Rightarrow> cageaddr list \<Rightarrow> dht \<Rightarrow> dht option" where
  "query_ended restored t True (ValueFunc tag) nodes s = Some (d_called (DhtValues tag None) s)"
| "query_ended restored t False (NodesFunc f) nodes s = nodes_func_called restored t f nodes s"
| "query_ended restored t _ _ nodes s = None"

definition remove_query :: "nat \<Rightarrow> dht \<Rightarrow> dht" where
  "remove_query p s =
     (let q = d_heap s p in (put_q p (q\<lparr>dq_timers := {}, dq_recvd_timer := None\<rparr>) s)\<lparr>d_query := ord_del (dq_nonce q) (d_query s)\<rparr>)"

definition dq_start :: "uint160 \<Rightarrow> dht_query \<Rightarrow> dht_query" where
  "dq_start i q = q\<lparr>dq_timers := insert i (dq_timers q), dq_sent := insert i (dq_sent q)\<rparr>"

definition dq_count :: "int \<Rightarrow> dht_query \<Rightarrow> dht_query" where
  "dq_count n q = q\<lparr>dq_num := dq_num q + n\<rparr>"

definition upd_q :: "nat \<Rightarrow> (dht_query \<Rightarrow> dht_query) \<Rightarrow> dht \<Rightarrow> dht" where
  "upd_q p f s = put_q p (f (d_heap s p)) s"

fun d_send_find_loop :: "nat \<Rightarrow> cageaddr list \<Rightarrow> dht \<Rightarrow> dht option" where
  "d_send_find_loop p [] s = Some s"
| "d_send_find_loop p (c # nodes) s =
     (let q = d_heap s p in
      if dq_num q \<ge> dht_max_query then Some s
      else if ca_id c \<in> dq_sent q then d_send_find_loop p nodes s
      else do {
        let s = upd_q p (dq_start (ca_id c)) s;
        s \<leftarrow> (if dq_is_value q then d_send_find_value c p s else d_send_find_node c p s);
        d_send_find_loop p nodes (upd_q p (dq_count 1) s)
      })"

definition d_send_find :: "(dht \<Rightarrow> dht option) \<Rightarrow> int \<Rightarrow> nat \<Rightarrow> dht \<Rightarrow> dht option" where
  "d_send_find restored t p s =
     (let q = d_heap s p in
      if d_use_rdp s \<and> dq_is_value q \<and> dq_rdp_con q then Some s
      else do {
        s \<leftarrow> d_send_find_loop p (dq_nodes q) s;
        let q = d_heap s p;
        if dq_num q = 0 then do {
          s \<leftarrow> query_ended restored t (dq_is_value q) (dq_func q) (dq_nodes q) s;
          Some (remove_query p s)
        }
        else Some s
      })"

definition new_dht_query :: "uint160 \<Rightarrow> cageaddr list \<Rightarrow> uint160 \<Rightarrow> u32 \<Rightarrow> dht_callback \<Rightarrow> bool \<Rightarrow> u8 list \<Rightarrow> dht_query" where
  "new_dht_query me nodes dst nonce func is_find_value key = \<lparr>dq_nodes = nodes, dq_timers = {}, dq_sent = {me}, dq_dst = dst, dq_nonce = nonce,
     dq_num = 0, dq_is_value = is_find_value, dq_key = key, dq_valinfo = [], dq_vset = {}, dq_ids = [], dq_rdp_con = False, dq_desc = 0, dq_time = 0,
     dq_state = QUERY_HDR, dq_vallen = 0, dq_val = [], dq_recvd_timer = None, dq_func = func\<rparr>"

text \<open>A query object and its entry under a fresh nonce.\<close>

definition alloc_query :: "(u32 \<Rightarrow> dht_query) \<Rightarrow> dht \<Rightarrow> (nat \<times> dht) option" where
  "alloc_query mk s = do {
     (nonce, rs) \<leftarrow> fresh_nonce (\<lambda>r. ord_find (d_query s) r \<noteq> None) (rt_rnds (d_rt s));
     let p = d_next s;
     Some (p, (put_q p (mk nonce) s)\<lparr>d_next := p + 1, d_query := ord_ins nonce p (d_query s), d_rt := (d_rt s)\<lparr>rt_rnds := rs\<rparr>\<rparr>)
   }"

definition d_find_nv :: "(dht \<Rightarrow> dht option) \<Rightarrow> int \<Rightarrow> uint160 \<Rightarrow> dht_callback \<Rightarrow> bool \<Rightarrow> u8 list \<Rightarrow> dht \<Rightarrow> dht option" where
  "d_find_nv restored t dst func is_find_value key s = do {
     nodes \<leftarrow> rt_lookup dst dht_num_find_node (d_rt s);
     if nodes = [] then query_ended restored t is_find_value func [] s
     else do {
       (p, s) \<leftarrow> alloc_query (\<lambda>nonce. new_dht_query (d_id s) nodes dst nonce func is_find_value key) s;
       d_send_find restored t p s
     }
   }"

definition d_find_node_with :: "(dht \<Rightarrow> dht option) \<Rightarrow> int \<Rightarrow> uint160 \<Rightarrow> nodes_func \<Rightarrow> dht \<Rightarrow> dht option" where
  "d_find_node_with restored t dst f s =
     (if not_reachable s then nodes_func_called restored t f [] s
      else d_find_nv restored t dst (NodesFunc f) False [] s)"

subsection \<open>Restoring\<close>

text \<open>
  The values are offered to the nodes that are now the closest.  If this node is not one of
  them the value is erased here, as is one that has expired or, when datagrams are used, is too
  long.  Over RDP the whole time to live is passed on, not what is left of it.
\<close>

definition restore_store :: "stored_data \<Rightarrow> u16 \<Rightarrow> store_func" where
  "restore_store e ttl = \<lparr>sf_key = se_key e, sf_value = se_value e, sf_ttl = ttl, sf_id = se_id e, sf_from = se_src e, sf_unique = se_unique e\<rparr>"

definition ttl_left :: "int \<Rightarrow> stored_data \<Rightarrow> u16" where
  "ttl_left t e = se_ttl e - of_int (t - se_time e)"

fun restore_send :: "u8 list \<Rightarrow> cageaddr list \<Rightarrow> uint160 set \<Rightarrow> dht \<Rightarrow> (uint160 set \<times> dht) option" where
  "restore_send body [] rc s = Some (rc, s)"
| "restore_send body (c # nodes) rc s =
     (if ca_id c = d_id s \<or> ca_id c \<in> rc then restore_send body nodes rc s
      else do {
        ms \<leftarrow> send_msg body type_dht_store c (d_id s);
        restore_send body nodes (insert (ca_id c) rc) (d_send ms s)
      })"

definition upd_entry :: "stored_data \<Rightarrow> (stored_data \<Rightarrow> stored_data) \<Rightarrow> stored \<Rightarrow> stored" where
  "upd_entry e f st =
     (case stored_set st (se_id e) (se_key e) of
        None \<Rightarrow> st
      | Some ds \<Rightarrow> put_set (se_id e) (se_key e) (se_update (se_value e) f ds) st)"

definition restore_by_udp :: "int \<Rightarrow> cageaddr list \<Rightarrow> stored_data \<Rightarrow> dht \<Rightarrow> (bool \<times> dht) option" where
  "restore_by_udp t nodes e s =
     (let f = restore_store e (ttl_left t e) in
      if se_original e > 0 then Some (True, s)
      else if \<not> store_fits f \<or> t - se_time e \<ge> uint (se_ttl e) then Some (False, s)
      else do {
        b \<leftarrow> msg_dht_store f (se_src e);
        (rc, s) \<leftarrow> restore_send b nodes (se_recvd e) s;
        Some (has_me nodes s, d_set_stored (upd_entry e (\<lambda>e. e\<lparr>se_recvd := rc\<rparr>) (d_stored s)) s)
      })"

fun restore_connect :: "int \<Rightarrow> store_func \<Rightarrow> uint160 set \<Rightarrow> cageaddr list \<Rightarrow> dht \<Rightarrow> dht option" where
  "restore_connect t f rc [] s = Some s"
| "restore_connect t f rc (c # nodes) s =
     (if ca_id c = d_id s \<or> ca_id c \<in> rc then restore_connect t f rc nodes s
      else do { s \<leftarrow> connect_store t f (ca_id c) s; restore_connect t f rc nodes s })"

definition restore_by_rdp :: "int \<Rightarrow> cageaddr list \<Rightarrow> stored_data \<Rightarrow> dht \<Rightarrow> (bool \<times> dht) option" where
  "restore_by_rdp t nodes e s =
     (if t - se_time e \<ge> uint (se_ttl e) then Some (False, s)
      else if se_original e > 0 then do {
        s \<leftarrow> d_find_node_with (\<lambda>_. None) t (se_id e) (StoreFunc (restore_store e (ttl_left t e))) s;
        Some (True, s)
      }
      else do {
        s' \<leftarrow> restore_connect t (restore_store e (se_ttl e)) (se_recvd e) nodes s;
        Some (has_me nodes s, s')
      })"

definition drop_entry :: "stored_data \<Rightarrow> stored \<Rightarrow> stored" where
  "drop_entry e st =
     (case stored_set st (se_id e) (se_key e) of
        None \<Rightarrow> st
      | Some ds \<Rightarrow> keep_set (se_id e) (se_key e) (se_erase (se_value e) ds) st)"

definition restore_value :: "int \<Rightarrow> cageaddr list \<Rightarrow> uint160 \<Rightarrow> u8 list \<Rightarrow> u8 list \<Rightarrow> dht \<Rightarrow> dht option" where
  "restore_value t nodes i k v s = do {
     e \<leftarrow> stored_at (d_stored s) i k v;
     (me, s) \<leftarrow> (if d_use_rdp s then restore_by_rdp t nodes e s else restore_by_udp t nodes e s);
     Some (if me then s else d_set_stored (drop_entry e (d_stored s)) s)
   }"

definition restore_key :: "int \<Rightarrow> cageaddr list \<Rightarrow> uint160 \<Rightarrow> u8 list \<Rightarrow> dht \<Rightarrow> dht option" where
  "restore_key t nodes i k s = do {
     ds \<leftarrow> stored_set (d_stored s) i k;
     run_steps (restore_value t nodes i k) (ho_values (d_order s) (map se_value ds)) s
   }"

definition restore_id :: "int \<Rightarrow> uint160 \<Rightarrow> dht \<Rightarrow> dht option" where
  "restore_id t i s = do {
     nodes \<leftarrow> rt_lookup i dht_num_find_node (d_rt s);
     if nodes = [] then Some s
     else run_steps (restore_key t nodes i) (ho_keys (d_order s) (map fst (stored_map (d_stored s) i))) s
   }"

definition restored_func :: "int \<Rightarrow> dht \<Rightarrow> dht option" where
  "restored_func t s = run_steps (restore_id t) (ho_ids (d_order s) (map fst (d_stored s))) s"

subsection \<open>Interface\<close>

definition d_find_node :: "int \<Rightarrow> uint160 \<Rightarrow> nodes_func \<Rightarrow> dht \<Rightarrow> dht option" where
  "d_find_node t = d_find_node_with (restored_func t) t"

definition d_find_value :: "int \<Rightarrow> uint160 \<Rightarrow> u8 list \<Rightarrow> nat \<Rightarrow> dht \<Rightarrow> dht option" where
  "d_find_value t dst key tag s =
     (if not_reachable s then Some (d_called (DhtValues tag None) s)
      else d_find_nv (restored_func t) t dst (ValueFunc tag) True key s)"

text \<open>The first query, sent to an address whose identifier is not known yet.\<close>

definition d_find_node_addr :: "saddr \<Rightarrow> nodes_func \<Rightarrow> dht \<Rightarrow> dht option" where
  "d_find_node_addr sa f s =
     (if not_reachable s then Some s
      else do {
        (p, s) \<leftarrow> alloc_query (\<lambda>nonce. (new_dht_query (d_id s) [] (d_id s) nonce (NodesFunc f) False [])\<lparr>dq_num := 1, dq_timers := {zero_id}\<rparr>) s;
        sa \<leftarrow> sockaddr_of (dt_domain (d_dtun s)) sa;
        d_send_find_node \<lparr>ca_id = zero_id, ca_domain = dt_domain (d_dtun s), ca_saddr = sa\<rparr> p s
      })"

definition d_find_node_host :: "saddr option \<Rightarrow> nodes_func \<Rightarrow> dht \<Rightarrow> dht option" where
  "d_find_node_host sa f s =
     (if not_reachable s then Some s else case sa of None \<Rightarrow> Some s | Some sa \<Rightarrow> d_find_node_addr sa f s)"

definition d_store_from :: "int \<Rightarrow> uint160 \<Rightarrow> u8 list \<Rightarrow> u8 list \<Rightarrow> u16 \<Rightarrow> uint160 \<Rightarrow> bool \<Rightarrow> dht \<Rightarrow> dht option" where
  "d_store_from t i key val ttl from unique s = do {
     let f = \<lparr>sf_key = key, sf_value = val, sf_ttl = ttl, sf_id = i, sf_from = from, sf_unique = unique\<rparr>;
     s \<leftarrow> d_find_node t i (StoreFunc f) s;
     let d = \<lparr>se_key = key, se_value = val, se_id = i, se_src = from, se_unique = unique, se_recvd = {}, se_time = t,
              se_original = original_put_num, se_ttl = ttl\<rparr>;
     st \<leftarrow> (if ttl = 0 then erase_sdata d (d_stored s) else Some (add_sdata d True (d_stored s)));
     Some (d_set_stored st s)
   }"

definition d_store :: "int \<Rightarrow> uint160 \<Rightarrow> u8 list \<Rightarrow> u8 list \<Rightarrow> u16 \<Rightarrow> bool \<Rightarrow> dht \<Rightarrow> dht option" where
  "d_store t i key val ttl unique s = d_store_from t i key val ttl (d_id s) unique s"

definition set_enabled_dtun :: "bool \<Rightarrow> dht \<Rightarrow> dht" where
  "set_enabled_dtun flag s = s\<lparr>d_is_dtun := flag\<rparr>"

definition set_enabled_rdp :: "bool \<Rightarrow> dht \<Rightarrow> dht" where
  "set_enabled_rdp flag s = s\<lparr>d_use_rdp := flag\<rparr>"

subsection \<open>Node queries\<close>

definition d_timer_query :: "int \<Rightarrow> u32 \<Rightarrow> uint160 \<Rightarrow> dht \<Rightarrow> dht option" where
  "d_timer_query t nonce i s = do {
     p \<leftarrow> ord_find (d_query s) nonce;
     let s = upd_q p (\<lambda>q. q\<lparr>dq_sent := insert i (dq_sent q), dq_num := dq_num q - 1, dq_timers := dq_timers q - {i}\<rparr>) s;
     s \<leftarrow> (if i \<noteq> zero_id then do {
             let s = upd_q p (\<lambda>q. q\<lparr>dq_nodes := filter (\<lambda>c. ca_id c \<noteq> i) (dq_nodes q)\<rparr>) s;
             rt \<leftarrow> rt_remove i (d_rt s);
             Some (s\<lparr>d_rt := rt, d_dtun := (d_dtun s)\<lparr>dt_peers := add_timeout t i (d_peers s)\<rparr>\<rparr>)
           }
           else Some s);
     d_send_find (restored_func t) t p s
   }"

definition d_recv_find_node :: "int \<Rightarrow> u8 list \<Rightarrow> saddr \<Rightarrow> dht \<Rightarrow> dht option" where
  "d_recv_find_node t msg from s =
     (let dst = hd_dst (hdr_at msg); domain = u16_at 72 msg in
      if dst \<noteq> d_id s \<and> \<not> bn_is_zero dst \<or> domain \<noteq> dt_domain (d_dtun s) then Some s
      else do {
        c \<leftarrow> new_cageaddr msg from;
        s \<leftarrow> d_add_peer t c s;
        s \<leftarrow> d_add c s;
        nodes \<leftarrow> rt_lookup (id_at 52 msg) dht_num_find_node (d_rt s);
        if domain \<noteq> domain_inet \<and> domain \<noteq> domain_inet6 then Some s
        else do {
          addrs \<leftarrow> write_nodes domain nodes;
          ms \<leftarrow> send_msg (take 26 (drop 48 msg) @ [of_nat (length nodes), 0] @ addrs) type_dht_find_node_reply c (d_id s);
          Some (d_send ms s)
        }
      })"

definition dq_reply_timer :: "uint160 \<Rightarrow> dht_query \<Rightarrow> uint160 option" where
  "dq_reply_timer i q = (if i \<in> dq_timers q then Some i else if zero_id \<in> dq_timers q then Some zero_id else None)"

definition dq_answered :: "uint160 \<Rightarrow> dht_query \<Rightarrow> dht_query" where
  "dq_answered i q = q\<lparr>dq_sent := insert i (dq_sent q), dq_num := dq_num q - 1\<rparr>"

definition dq_merge :: "uint160 \<Rightarrow> cageaddr list \<Rightarrow> dht_query \<Rightarrow> dht_query" where
  "dq_merge i nodes q = q\<lparr>dq_nodes := merge_nodes i (dq_nodes q) (sort_key (xor_dist i) nodes) dht_num_find_node\<rparr>"

text \<open>The nodes of a reply, at \<open>off\<close>, if the datagram has the length their number asks for.\<close>

definition nodes_of_reply :: "nat \<Rightarrow> u16 \<Rightarrow> nat \<Rightarrow> u8 list \<Rightarrow> saddr \<Rightarrow> peers \<Rightarrow> cageaddr list option option" where
  "nodes_of_reply off domain num msg from p =
     (if domain = domain_inet then
        (if length msg \<noteq> off + 28 * num then Some None
         else map_option Some (read_nodes_inet (drop off msg) num from (\<lambda>i. is_timeout i p)))
      else if domain = domain_inet6 then
        (if length msg \<noteq> off + 40 * num then Some None
         else map_option Some (read_nodes_inet6 (drop off msg) num from (\<lambda>i. is_timeout i p)))
      else Some None)"

definition d_recv_find_node_reply :: "int \<Rightarrow> u8 list \<Rightarrow> saddr \<Rightarrow> dht \<Rightarrow> dht option" where
  "d_recv_find_node_reply t msg from s =
     (case ord_find (d_query s) (u32_at 48 msg) of
        None \<Rightarrow> Some s
      | Some p \<Rightarrow>
          let i = id_at 52 msg; src = hd_src (hdr_at msg) in
          if hd_dst (hdr_at msg) \<noteq> d_id s \<or> dq_dst (d_heap s p) \<noteq> i \<or> dq_is_value (d_heap s p) then Some s
          else do {
            c \<leftarrow> new_cageaddr msg from;
            s \<leftarrow> d_add_peer t c s;
            s \<leftarrow> d_add c s;
            case dq_reply_timer src (d_heap s p) of
              None \<Rightarrow> Some s
            | Some j \<Rightarrow> do {
                let s = upd_q p (\<lambda>q. q\<lparr>dq_timers := dq_timers q - {j}\<rparr>) s;
                nodes \<leftarrow> nodes_of_reply 76 (u16_at 72 msg) (unat (u8_at 74 msg)) msg from (d_peers s);
                case nodes of
                  None \<Rightarrow> Some s
                | Some nodes \<Rightarrow> d_send_find (restored_func t) t p (upd_q p (dq_merge i nodes \<circ> dq_answered src) s)
              }
          })"

subsection \<open>Storing on behalf of others\<close>

text \<open>\<open>unique_of\<close>: the member keeps what it held when the flag is not set.\<close>

definition unique_of :: "u8 \<Rightarrow> bool \<Rightarrow> bool" where
  "unique_of flags junk \<longleftrightarrow> flags AND dht_flag_unique \<noteq> 0 \<or> junk"

definition put_sdata :: "stored_data \<Rightarrow> uint160 \<Rightarrow> stored \<Rightarrow> stored option" where
  "put_sdata d src st =
     (if se_ttl d = 0 then erase_sdata d st else Some (insert2recvd_sdata d src (add_sdata d False st)))"

definition d_recv_store_msg :: "int \<Rightarrow> u8 list \<Rightarrow> saddr \<Rightarrow> dht \<Rightarrow> dht option" where
  "d_recv_store_msg t msg from s =
     (let keylen = unat (u16_at 88 msg); valuelen = unat (u16_at 90 msg) in
      if hd_dst (hdr_at msg) \<noteq> d_id s \<or> length msg \<noteq> 96 + keylen + valuelen then Some s
      else do {
        c \<leftarrow> new_cageaddr msg from;
        s \<leftarrow> d_add c s;
        s \<leftarrow> d_add_peer t c s;
        let d = \<lparr>se_key = take keylen (drop 96 msg), se_value = take valuelen (drop (96 + keylen) msg), se_id = id_at 48 msg,
                 se_src = id_at 68 msg, se_unique = unique_of (u8_at 94 msg) (se_unique (d_junk s)), se_recvd = {}, se_time = t,
                 se_original = 0, se_ttl = u16_at 92 msg\<rparr>;
        st \<leftarrow> put_sdata d (ca_id c) (d_stored s);
        Some (d_set_stored st s)
      })"

subsection \<open>Value queries\<close>

text \<open>
  One datagram per value, each with the index 1.  A value longer than the buffer in which
  the datagram is composed is written over its end.
\<close>

definition find_value_reply_body :: "u8 list \<Rightarrow> u16 \<Rightarrow> u16 \<Rightarrow> u8 \<Rightarrow> u8 list \<Rightarrow> u8 list" where
  "find_value_reply_body msg index tot flag data = take 24 (drop 48 msg) @ htons_bytes index @ htons_bytes tot @ [flag, 0, 0, 0] @ data"

definition msg_data :: "u8 list \<Rightarrow> u8 list \<Rightarrow> u8 list" where
  "msg_data key val = htons_bytes (of_nat (length key)) @ htons_bytes (of_nat (length val)) @ key @ val"

definition reply_value :: "u8 list \<Rightarrow> cageaddr \<Rightarrow> u8 list \<Rightarrow> nat \<Rightarrow> u8 list \<Rightarrow> dht \<Rightarrow> dht option" where
  "reply_value msg c key tot val s =
     (if 84 + length key + length val > dht_buf_size then None
      else do {
        ms \<leftarrow> send_msg (find_value_reply_body msg 1 (of_nat tot) data_are_values (msg_data key val)) type_dht_find_value_reply c (d_id s);
        Some (d_send ms s)
      })"

definition d_reply_nodes :: "u8 list \<Rightarrow> cageaddr \<Rightarrow> dht \<Rightarrow> dht option" where
  "d_reply_nodes msg c s =
     (let domain = u16_at 72 msg in
      do {
        nodes \<leftarrow> rt_lookup (id_at 52 msg) dht_num_find_node (d_rt s);
        if domain \<noteq> domain_inet \<and> domain \<noteq> domain_inet6 then Some s
        else do {
          addrs \<leftarrow> write_nodes domain nodes;
          ms \<leftarrow> send_msg (find_value_reply_body msg 0 0 data_are_nodes (take 2 (drop 72 msg) @ [of_nat (length nodes), 0] @ addrs))
                 type_dht_find_value_reply c (d_id s);
          Some (d_send ms s)
        }
      })"

definition d_recv_find_value :: "int \<Rightarrow> u8 list \<Rightarrow> saddr \<Rightarrow> dht \<Rightarrow> dht option" where
  "d_recv_find_value t msg from s =
     (let keylen = u16_at 74 msg; i = id_at 52 msg; flag = u8_at 76 msg in
      if hd_dst (hdr_at msg) \<noteq> d_id s \<or> unat (80 + keylen) \<noteq> length msg then Some s
      else do {
        c \<leftarrow> new_cageaddr msg from;
        s \<leftarrow> d_add c s;
        s \<leftarrow> d_add_peer t c s;
        if flag = get_by_rdp then
          (if map_of (d_stored s) i \<noteq> None then do {
             ms \<leftarrow> send_msg (find_value_reply_body msg 0 0 data_are_nul []) type_dht_find_value_reply c (d_id s);
             Some (d_send ms s)
           }
           else d_reply_nodes msg c s)
        else if flag = get_by_udp then
          (let key = take (unat keylen) (drop 80 msg) in
           case stored_set (d_stored s) i key of
             Some ds \<Rightarrow> run_steps (reply_value msg c key (length ds)) (ho_values (d_order s) (map se_value ds)) s
           | None \<Rightarrow> d_reply_nodes msg c s)
        else Some s
      })"

definition recvd_value :: "nat \<Rightarrow> dht \<Rightarrow> dht option" where
  "recvd_value p s =
     (case dq_func (d_heap s p) of
        NodesFunc f \<Rightarrow> None
      | ValueFunc tag \<Rightarrow> Some (remove_query p (d_called (DhtValues tag (Some (dq_vset (d_heap s p)))) s)))"

text \<open>
  A reply of a node that was asked ends the wait for it; what a reply carries is taken from any
  node.  Values wait until every node that sent some has sent as many as it announced, for five
  seconds at most.  A query for nodes has no key: its length is read without having been set.
\<close>

definition recv_nul :: "int \<Rightarrow> uint160 \<Rightarrow> nat \<Rightarrow> dht \<Rightarrow> dht option" where
  "recv_nul t src p s =
     (if dq_rdp_con (d_heap s p) then Some (upd_q p (\<lambda>q. q\<lparr>dq_ids := dq_ids q @ [src]\<rparr>) s)
      else do {
        (d, s) \<leftarrow> d_connect 0 src rdp_get_port (RdpGet p) (upd_q p (\<lambda>q. q\<lparr>dq_rdp_con := True, dq_time := t\<rparr>) s);
        Some (upd_q p (\<lambda>q. q\<lparr>dq_desc := d\<rparr>) s)
      })"

definition new_val_info :: "u16 \<Rightarrow> val_info" where
  "new_val_info tot = \<lparr>vi_indeces = {}, vi_values = {}, vi_num = tot\<rparr>"

definition dq_add_value :: "int \<Rightarrow> uint160 \<Rightarrow> u16 \<Rightarrow> val_info \<Rightarrow> u8 list \<Rightarrow> dht_query \<Rightarrow> dht_query" where
  "dq_add_value t src index vi v q =
     q\<lparr>dq_vset := insert v (dq_vset q),
       dq_valinfo := AList.update src (vi\<lparr>vi_values := insert v (vi_values vi), vi_indeces := insert index (vi_indeces vi)\<rparr>) (dq_valinfo q),
       dq_recvd_timer := (if dq_recvd_timer q = None then Some (t + 5) else dq_recvd_timer q)\<rparr>"

definition all_received :: "dht_query \<Rightarrow> bool" where
  "all_received q \<longleftrightarrow> list_all (\<lambda>(i, vi). \<not> unat (vi_num vi) > card (vi_values vi)) (dq_valinfo q)"

definition recv_values :: "int \<Rightarrow> u8 list \<Rightarrow> uint160 \<Rightarrow> nat \<Rightarrow> dht \<Rightarrow> dht option" where
  "recv_values t msg src p s =
     (let q = d_heap s p; keylen = unat (u16_at 80 msg); valuelen = unat (u16_at 82 msg); tot = u16_at 74 msg in
      if length msg < 84 \<or> length msg \<noteq> 84 + keylen + valuelen then Some s
      else if \<not> dq_is_value q then None
      else if keylen \<noteq> length (dq_key q) \<or> take keylen (drop 84 msg) \<noteq> dq_key q then Some s
      else
        let vi = (case map_of (dq_valinfo q) src of None \<Rightarrow> new_val_info tot | Some vi \<Rightarrow> vi) in
        if vi_num vi \<noteq> tot then Some s
        else
          let q = dq_add_value t src (u16_at 72 msg) vi (take valuelen (drop (84 + keylen) msg)) q in
          if all_received q then recvd_value p (put_q p q s) else Some (put_q p q s))"

definition recv_nodes :: "int \<Rightarrow> u8 list \<Rightarrow> saddr \<Rightarrow> nat \<Rightarrow> dht \<Rightarrow> dht option" where
  "recv_nodes t msg from p s =
     (if length msg < 84 then Some s
      else do {
        nodes \<leftarrow> nodes_of_reply 84 (u16_at 80 msg) (unat (u8_at 82 msg)) msg from (d_peers s);
        case nodes of
          None \<Rightarrow> Some s
        | Some nodes \<Rightarrow> d_send_find (restored_func t) t p (upd_q p (dq_merge (id_at 52 msg) nodes) s)
      })"

definition d_recv_find_value_reply :: "int \<Rightarrow> u8 list \<Rightarrow> saddr \<Rightarrow> dht \<Rightarrow> dht option" where
  "d_recv_find_value_reply t msg from s =
     (let src = hd_src (hdr_at msg); flag = u8_at 76 msg in
      case ord_find (d_query s) (u32_at 48 msg) of
        None \<Rightarrow> Some s
      | Some p \<Rightarrow>
          if hd_dst (hdr_at msg) \<noteq> d_id s \<or> id_at 52 msg \<noteq> dq_dst (d_heap s p) then Some s
          else do {
            c \<leftarrow> new_cageaddr msg from;
            let was_asked = src \<in> dq_timers (d_heap s p);
            if was_asked \<and> \<not> dq_is_value (d_heap s p) then Some s
            else do {
              s \<leftarrow> (if was_asked then do {
                      s \<leftarrow> d_add c (upd_q p (\<lambda>q. q\<lparr>dq_timers := dq_timers q - {src}\<rparr>) s);
                      s \<leftarrow> d_add_peer t c s;
                      Some (upd_q p (dq_answered src) s)
                    }
                    else Some s);
              if flag = data_are_nul \<and> d_use_rdp s then recv_nul t src p s
              else if flag = data_are_values \<and> \<not> d_use_rdp s then recv_values t msg src p s
              else if flag = data_are_nodes then recv_nodes t msg from p s
              else Some s
            }
          })"

text \<open>The timer \<^verbatim>\<open>timer_recvd_value\<close> holds a pointer to its query.\<close>

definition d_timer_recvd :: "nat \<Rightarrow> dht \<Rightarrow> dht option" where
  "d_timer_recvd = recvd_value"

subsection \<open>Fetching values over RDP\<close>

text \<open>
  A loop of the code that reads from a connection as long as a step says so.  Every step that
  goes on has read at least one byte, so one more than the bytes queued is enough fuel.
\<close>

fun read_loop :: "nat \<Rightarrow> ('s \<Rightarrow> (bool \<times> 's) option) \<Rightarrow> 's \<Rightarrow> 's option" where
  "read_loop 0 step s = None"
| "read_loop (Suc n) step s = do { (more, s) \<leftarrow> step s; if more then read_loop n step s else Some s }"

definition queued_bytes :: "int \<Rightarrow> rdp \<Rightarrow> nat" where
  "queued_bytes d r = (case ord_find (m_desc2conn r) d of None \<Rightarrow> 0 | Some p \<Rightarrow> length (concat (map pbuf_bytes (rqueue (heap r p)))))"

text \<open>
  The side that asks.  When a source is exhausted the next is connected to with the ports the
  wrong way round.
\<close>

definition get_next_source :: "int \<Rightarrow> nat \<Rightarrow> dht \<Rightarrow> dht option" where
  "get_next_source t p s =
     (case dq_ids (d_heap s p) of
        i # ids \<Rightarrow> do {
          (d, s) \<leftarrow> d_connect rdp_get_port i 0 (RdpGet p) (upd_q p (\<lambda>q. q\<lparr>dq_ids := ids, dq_time := t\<rparr>) s);
          Some (upd_q p (\<lambda>q. q\<lparr>dq_desc := d\<rparr>) s)
        }
      | [] \<Rightarrow> d_send_find (restored_func t) t p (upd_q p (\<lambda>q. q\<lparr>dq_rdp_con := False\<rparr>) s))"

definition get_close_rdp :: "int \<Rightarrow> nat \<Rightarrow> int \<Rightarrow> dht \<Rightarrow> dht option" where
  "get_close_rdp t p d s = do {
     s \<leftarrow> d_close d s;
     if dq_vset (d_heap s p) \<noteq> {} then recvd_value p s else get_next_source t p s
   }"

definition get_read_hdr :: "int \<Rightarrow> nat \<Rightarrow> int \<Rightarrow> dht \<Rightarrow> (bool \<times> dht) option" where
  "get_read_hdr t p d s =
     (let (bs, s) = d_receive d 4 s in
      if bs = [] then Some (False, s)
      else if length bs \<noteq> 4 then do { s \<leftarrow> get_close_rdp t p d s; Some (False, s) }
      else
        let s = upd_q p (\<lambda>q. q\<lparr>dq_state := QUERY_VAL, dq_time := t, dq_vallen := u16_at 0 bs, dq_val := []\<rparr>) s in
        if u16_at 0 bs = 0 then do { s \<leftarrow> get_close_rdp t p d s; Some (False, s) }
        else Some (True, s))"

definition get_read_val :: "int \<Rightarrow> nat \<Rightarrow> int \<Rightarrow> dht \<Rightarrow> (bool \<times> dht) option" where
  "get_read_val t p d s =
     (let q = d_heap s p; (bs, s) = d_receive d (int (unat (dq_vallen q)) - int (length (dq_val q))) s in
      if bs = [] then Some (False, s)
      else
        let v = dq_val q @ bs; s = upd_q p (\<lambda>q. q\<lparr>dq_val := v, dq_time := t\<rparr>) s in
        if length v = unat (dq_vallen q) then do {
          s \<leftarrow> d_rdp_send d [dht_get_next] (upd_q p (\<lambda>q. q\<lparr>dq_vset := insert v (dq_vset q), dq_state := QUERY_HDR\<rparr>) s);
          Some (True, s)
        }
        else Some (True, s))"

definition get_step :: "int \<Rightarrow> nat \<Rightarrow> int \<Rightarrow> dht \<Rightarrow> (bool \<times> dht) option" where
  "get_step t p d s = (case dq_state (d_heap s p) of QUERY_HDR \<Rightarrow> get_read_hdr t p d s | QUERY_VAL \<Rightarrow> get_read_val t p d s)"

definition msg_rdp_get :: "dht_query \<Rightarrow> u8 list option" where
  "msg_rdp_get q = do { i \<leftarrow> id_bytes (dq_dst q); Some (i @ htons_bytes (of_nat (length (dq_key q))) @ [0, 0]) }"

definition get_connected :: "int \<Rightarrow> nat \<Rightarrow> int \<Rightarrow> dht \<Rightarrow> dht option" where
  "get_connected t p d s = do {
     let s = upd_q p (\<lambda>q. q\<lparr>dq_rdp_con := True, dq_desc := d, dq_time := t, dq_state := QUERY_HDR\<rparr>) s;
     m \<leftarrow> msg_rdp_get (d_heap s p);
     s \<leftarrow> d_rdp_send d m s;
     s \<leftarrow> d_rdp_send d (dq_key (d_heap s p)) s;
     d_rdp_send d [dht_get_next] s
   }"

definition rdp_get_event :: "int \<Rightarrow> nat \<Rightarrow> int \<Rightarrow> rdp_event \<Rightarrow> dht \<Rightarrow> dht option" where
  "rdp_get_event t p d ev s =
     (case ev of
        CONNECTED \<Rightarrow> get_connected t p d s
      | READY2READ \<Rightarrow> read_loop (Suc (queued_bytes d (d_rdp s))) (get_step t p d) s
      | _ \<Rightarrow> get_close_rdp t p d s)"

text \<open>The side that is asked.\<close>

definition erase_recv_get :: "int \<Rightarrow> dht \<Rightarrow> dht option" where
  "erase_recv_get d s = do { s \<leftarrow> d_close d s; Some (s\<lparr>d_recv_get := ord_del d (d_recv_get s)\<rparr>) }"

definition put_recv_get :: "int \<Rightarrow> recv_get \<Rightarrow> dht \<Rightarrow> dht" where
  "put_recv_get d g s = s\<lparr>d_recv_get := ord_ins d g (d_recv_get s)\<rparr>"

definition rget_read_hdr :: "int \<Rightarrow> int \<Rightarrow> recv_get \<Rightarrow> dht \<Rightarrow> (bool \<times> dht) option" where
  "rget_read_hdr t d g s =
     (let (bs, s) = d_receive d 24 s in
      if length bs \<noteq> 24 then do { s \<leftarrow> erase_recv_get d s; Some (False, s) }
      else Some (True, put_recv_get d (g\<lparr>gt_time := t, gt_state := RGET_KEY, gt_id := id_at 0 bs, gt_keylen := u16_at 20 bs\<rparr>) s))"

text \<open>Expired values are erased; the others are queued.\<close>

definition rget_read_val :: "int \<Rightarrow> recv_get \<Rightarrow> dht \<Rightarrow> recv_get \<times> dht" where
  "rget_read_val t g s =
     (case stored_set (d_stored s) (gt_id g) (gt_key g) of
        None \<Rightarrow> (g, s)
      | Some ds \<Rightarrow>
          let vs = filter (\<lambda>v. v \<in> se_value ` set (fresh_set t ds)) (ho_values (d_order s) (map se_value ds)) in
          (g\<lparr>gt_data := gt_data g @ vs\<rparr>, d_set_stored (keep_set (gt_id g) (gt_key g) (fresh_set t ds) (d_stored s)) s))"

text \<open>One turn of the loop in \<^verbatim>\<open>read_key\<close>, which the loop around it continues.\<close>

definition rget_read_key :: "int \<Rightarrow> int \<Rightarrow> recv_get \<Rightarrow> dht \<Rightarrow> (bool \<times> dht) option" where
  "rget_read_key t d g s =
     (let (bs, s) = d_receive d (int (unat (gt_keylen g)) - int (length (gt_key g))) s in
      if bs = [] then Some (False, s)
      else
        let g = g\<lparr>gt_key := gt_key g @ bs\<rparr> in
        if length (gt_key g) = unat (gt_keylen g) then
          (let (g, s) = rget_read_val t (g\<lparr>gt_state := RGET_VAL\<rparr>) s in Some (True, put_recv_get d g s))
        else Some (True, put_recv_get d g s))"

text \<open>
  Each turn of \<^verbatim>\<open>read_op\<close> answers one request for the next value, with an empty header when there
  is none left.
\<close>

definition rget_read_op :: "int \<Rightarrow> int \<Rightarrow> dht \<Rightarrow> (bool \<times> dht) option" where
  "rget_read_op t d s =
     (let (bs, s) = d_receive d 1 s in
      case bs of
        [] \<Rightarrow> Some (False, s)
      | op # _ \<Rightarrow>
          if op \<noteq> dht_get_next then do { s \<leftarrow> erase_recv_get d s; Some (False, s) }
          else do {
            g \<leftarrow> ord_find (d_recv_get s) d;
            case gt_data g of
              [] \<Rightarrow> do {
                s \<leftarrow> d_rdp_send d [0, 0, 0, 0] s;
                Some (True, put_recv_get d (g\<lparr>gt_time := t, gt_state := RGET_END\<rparr>) s)
              }
            | v # vs \<Rightarrow> do {
                s \<leftarrow> d_rdp_send d (htons_bytes (of_nat (length v)) @ [0, 0]) s;
                s \<leftarrow> d_rdp_send d v s;
                Some (True, put_recv_get d (g\<lparr>gt_time := t, gt_data := vs\<rparr>) s)
              }
          })"

definition rget_step :: "int \<Rightarrow> int \<Rightarrow> dht \<Rightarrow> (bool \<times> dht) option" where
  "rget_step t d s = do {
     g \<leftarrow> ord_find (d_recv_get s) d;
     case gt_state g of
       RGET_HDR \<Rightarrow> rget_read_hdr t d g s
     | RGET_KEY \<Rightarrow> rget_read_key t d g s
     | RGET_VAL \<Rightarrow> do { s \<leftarrow> read_loop (Suc (queued_bytes d (d_rdp s))) (rget_read_op t d) s; Some (False, s) }
     | RGET_END \<Rightarrow> do { s \<leftarrow> erase_recv_get d s; Some (False, s) }
   }"

definition new_recv_get :: "int \<Rightarrow> recv_get" where
  "new_recv_get t = \<lparr>gt_time = t, gt_state = RGET_HDR, gt_id = zero_id, gt_keylen = 0, gt_key = [], gt_data = []\<rparr>"

definition rdp_recv_get_event :: "int \<Rightarrow> int \<Rightarrow> rdp_event \<Rightarrow> dht \<Rightarrow> dht option" where
  "rdp_recv_get_event t d ev s =
     (case ev of
        ACCEPTED \<Rightarrow> Some (put_recv_get d (new_recv_get t) s)
      | READY2READ \<Rightarrow> read_loop (Suc (queued_bytes d (d_rdp s))) (rget_step t d) s
      | _ \<Rightarrow> erase_recv_get d s)"

subsection \<open>Storing over RDP\<close>

definition rdp_store_event :: "store_func \<Rightarrow> int \<Rightarrow> rdp_addr \<Rightarrow> rdp_event \<Rightarrow> dht \<Rightarrow> dht option" where
  "rdp_store_event f d a ev s =
     (case ev of
        CONNECTED \<Rightarrow> do {
          h \<leftarrow> rdp_store_hdr f (sf_from f);
          s \<leftarrow> d_rdp_send d h s;
          s \<leftarrow> d_rdp_send d (sf_key f) s;
          d_rdp_send d (sf_value f) s
        }
      | RESET \<Rightarrow> do {
          let s = d_set_stored (insert2recvd_sdata (store_sdata f (d_junk s)) (did a) (d_stored s)) s;
          d_close d (s\<lparr>d_rdp_store := ord_del d (d_rdp_store s)\<rparr>)
        }
      | _ \<Rightarrow> d_close d (s\<lparr>d_rdp_store := ord_del d (d_rdp_store s)\<rparr>))"

text \<open>
  A header of the wrong size ends in \<^verbatim>\<open>return -1\<close>, which is \<open>True\<close>: the loop goes on with the
  object it has just erased.
\<close>

definition erase_recv_store :: "int \<Rightarrow> dht \<Rightarrow> dht option" where
  "erase_recv_store d s = d_close d (s\<lparr>d_recv_store := ord_del d (d_recv_store s)\<rparr>)"

definition put_recv_store :: "int \<Rightarrow> recv_store \<Rightarrow> dht \<Rightarrow> dht" where
  "put_recv_store d r s = s\<lparr>d_recv_store := ord_ins d r (d_recv_store s)\<rparr>"

definition rs_read_hdr :: "int \<Rightarrow> int \<Rightarrow> recv_store \<Rightarrow> dht \<Rightarrow> (bool \<times> dht) option" where
  "rs_read_hdr t d r s =
     (let (bs, s) = d_receive d 48 s in
      if length bs \<noteq> 48 then None
      else if u16_at 40 bs = 0 \<or> u16_at 42 bs = 0 then do { s \<leftarrow> erase_recv_store d s; Some (False, s) }
      else Some (True, put_recv_store d (r\<lparr>rs_keylen := u16_at 40 bs, rs_valuelen := u16_at 42 bs, rs_ttl := u16_at 44 bs, rs_id := id_at 0 bs,
                   rs_src := id_at 20 bs, rs_last := t, rs_hdr_read := True, rs_unique := unique_of (u8_at 46 bs) (rs_unique r)\<rparr>) s))"

definition store2local :: "int \<Rightarrow> recv_store \<Rightarrow> stored \<Rightarrow> stored option" where
  "store2local t r st = put_sdata \<lparr>se_key = rs_key r, se_value = rs_value r, se_id = rs_id r, se_src = rs_src r, se_unique = rs_unique r,
     se_recvd = {}, se_time = t, se_original = 0, se_ttl = rs_ttl r\<rparr> (rs_src r) st"

definition rs_read_body :: "int \<Rightarrow> int \<Rightarrow> recv_store \<Rightarrow> dht \<Rightarrow> (bool \<times> dht) option" where
  "rs_read_body t d r s =
     (if length (rs_key r) < unat (rs_keylen r) then
        (let (bs, s) = d_receive d (int (unat (rs_keylen r)) - int (length (rs_key r))) s in
         if bs = [] then Some (False, s)
         else Some (True, put_recv_store d (r\<lparr>rs_key := rs_key r @ bs, rs_last := t\<rparr>) s))
      else
        (let (bs, s) = d_receive d (int (unat (rs_valuelen r)) - int (length (rs_value r))) s; r' = r\<lparr>rs_value := rs_value r @ bs, rs_last := t\<rparr> in
         if bs = [] then Some (False, s)
         else if length (rs_value r') = unat (rs_valuelen r) then do {
           st \<leftarrow> store2local t r' (d_stored s);
           s \<leftarrow> erase_recv_store d (d_set_stored st s);
           Some (False, s)
         }
         else Some (True, put_recv_store d r' s)))"

definition rs_step :: "int \<Rightarrow> int \<Rightarrow> dht \<Rightarrow> (bool \<times> dht) option" where
  "rs_step t d s = do {
     r \<leftarrow> ord_find (d_recv_store s) d;
     if rs_hdr_read r then rs_read_body t d r s else rs_read_hdr t d r s
   }"

definition new_recv_store :: "int \<Rightarrow> uint160 \<Rightarrow> bool \<Rightarrow> recv_store" where
  "new_recv_store t from junk = \<lparr>rs_key = [], rs_value = [], rs_keylen = 0, rs_valuelen = 0, rs_ttl = 0, rs_id = zero_id, rs_src = from,
     rs_last = t, rs_hdr_read = False, rs_unique = junk\<rparr>"

definition rdp_recv_store_event :: "int \<Rightarrow> int \<Rightarrow> rdp_addr \<Rightarrow> rdp_event \<Rightarrow> dht \<Rightarrow> dht option" where
  "rdp_recv_store_event t d a ev s =
     (case ev of
        ACCEPTED \<Rightarrow> Some (put_recv_store d (new_recv_store t (did a) (se_unique (d_junk s))) s)
      | READY2READ \<Rightarrow>
          (if ord_find (d_recv_store s) d = None then Some s
           else read_loop (Suc (queued_bytes d (d_rdp s))) (rs_step t d) s)
      | _ \<Rightarrow> erase_recv_store d s)"

text \<open>An event of the protocol machine, for the callback with the number \<open>tag\<close>.\<close>

definition d_rdp_event :: "int \<Rightarrow> nat \<Rightarrow> int \<Rightarrow> rdp_addr \<Rightarrow> rdp_event \<Rightarrow> dht \<Rightarrow> dht option" where
  "d_rdp_event t tag d a ev s =
     (if tag < length (d_funcs s) then
        (case d_funcs s ! tag of
           RdpRecvStore \<Rightarrow> rdp_recv_store_event t d a ev s
         | RdpRecvGet \<Rightarrow> rdp_recv_get_event t d ev s
         | RdpStore f \<Rightarrow> rdp_store_event f d a ev s
         | RdpGet p \<Rightarrow> rdp_get_event t p d ev s
         | RdpOther n \<Rightarrow> Some s)
      else Some s)"

subsection \<open>Maintenance\<close>

definition d_refresh :: "int \<Rightarrow> dht \<Rightarrow> dht" where
  "d_refresh t s = d_set_stored (refresh_stored t (d_stored s)) s"

text \<open>Connections without progress for more than 30 seconds are closed.\<close>

fun close_all :: "int list \<Rightarrow> dht \<Rightarrow> dht option" where
  "close_all [] s = Some s"
| "close_all (d # ds) s = do { s \<leftarrow> d_close d s; close_all ds s }"

definition overdue :: "int \<Rightarrow> ('a \<Rightarrow> int) \<Rightarrow> (int \<times> 'a) list \<Rightarrow> (int \<times> 'a) list" where
  "overdue t time m = filter (\<lambda>(d, x). t - time x > dht_rdp_timeout) m"

definition not_overdue :: "int \<Rightarrow> ('a \<Rightarrow> int) \<Rightarrow> (int \<times> 'a) list \<Rightarrow> (int \<times> 'a) list" where
  "not_overdue t time m = filter (\<lambda>(d, x). \<not> t - time x > dht_rdp_timeout) m"

text \<open>
  \<^verbatim>\<open>send_find\<close> may remove the query; the loop then increments an iterator that is no longer valid.
\<close>

definition sweep_query :: "int \<Rightarrow> u32 \<times> nat \<Rightarrow> dht \<Rightarrow> dht option" where
  "sweep_query t e s =
     (let p = snd e; q = d_heap s p in
      if dq_rdp_con q \<and> t - dq_time q > dht_rdp_timeout then do {
        s \<leftarrow> d_close (dq_desc q) s;
        if dq_vset q \<noteq> {} then recvd_value p s
        else do {
          s \<leftarrow> get_next_source t p s;
          if ord_find (d_query s) (fst e) = None then None else Some s
        }
      }
      else Some s)"

definition sweep_rdp :: "int \<Rightarrow> dht \<Rightarrow> dht option" where
  "sweep_rdp t s = do {
     s \<leftarrow> close_all (map fst (overdue t rs_last (d_recv_store s))) s;
     let s = s\<lparr>d_recv_store := not_overdue t rs_last (d_recv_store s)\<rparr>;
     s \<leftarrow> close_all (map fst (overdue t id (d_rdp_store s))) s;
     let s = s\<lparr>d_rdp_store := not_overdue t id (d_rdp_store s)\<rparr>;
     s \<leftarrow> close_all (map fst (overdue t gt_time (d_recv_get s))) s;
     let s = s\<lparr>d_recv_get := not_overdue t gt_time (d_recv_get s)\<rparr>;
     run_steps (sweep_query t) (d_query s) s
   }"

definition d_restore :: "int \<Rightarrow> dht \<Rightarrow> dht option" where
  "d_restore t s =
     (if not_reachable s then Some s
      else if t - d_last_restore s \<ge> restore_interval then d_find_node t (d_id s) RestoreFunc (s\<lparr>d_last_restore := t\<rparr>)
      else Some s)"

definition d_maintain :: "int \<Rightarrow> dht \<Rightarrow> dht option" where
  "d_maintain t s = do {
     bit1 \<leftarrow> shift_left (160 - d_mask_bit s) (bn_assign_T 5 1);
     bit2 \<leftarrow> shift_left (160 - d_mask_bit s - 1) (bn_assign_T 5 1);
     s \<leftarrow> d_find_node t (bn_and (d_id s) (bn_not bit1)) dht_no_action s;
     s \<leftarrow> d_find_node t (bn_and (d_id s) (bn_not bit2)) dht_no_action s;
     let b = d_mask_bit s + 2;
     Some (s\<lparr>d_mask_bit := (if b > 20 then 1 else b)\<rparr>)
   }"

text \<open>\<open>jitter\<close> is the interval times a random number of the unit interval, rounded down.\<close>

definition fast_timer_dht :: "int \<Rightarrow> int \<Rightarrow> dht \<Rightarrow> dht option" where
  "fast_timer_dht t jitter s = do {
     s \<leftarrow> sweep_rdp t (d_refresh t s);
     Some (s\<lparr>d_fast := t + (jitter + fast_timer_interval)\<rparr>)
   }"

definition slow_timer_dht :: "int \<Rightarrow> int \<Rightarrow> dht \<Rightarrow> dht option" where
  "slow_timer_dht t jitter s = do {
     s \<leftarrow> d_restore t s;
     s \<leftarrow> d_maintain t s;
     Some (s\<lparr>d_slow := t + (jitter + slow_timer_interval)\<rparr>)
   }"

definition dht_join :: "iteration \<Rightarrow> int \<Rightarrow> dht \<Rightarrow> dht option" where
  "dht_join order t s =
     (if int (get_size (d_rt s)) < dht_num_find_node then do {
        s \<leftarrow> (if dt_nat (d_dtun s) = node_global \<or> dt_nat (d_dtun s) = node_cone then
               case get_first order (d_peers s) of
                 None \<Rightarrow> Some s
               | Some c \<Rightarrow>
                   if ca_domain c = domain_inet then do { a \<leftarrow> get_in (ca_saddr c); d_find_node_addr (In a) dht_no_action s }
                   else if ca_domain c = domain_inet6 then do { a \<leftarrow> get_in6 (ca_saddr c); d_find_node_addr (In6 a) dht_no_action s }
                   else Some s
             else Some s);
        Some (s\<lparr>d_join := t + (if rt_is_zero (d_rt s) then 3 else 30)\<rparr>)
      }
      else Some (s\<lparr>d_join := t + 137\<rparr>))"

subsection \<open>Constructor and destructor\<close>

definition dht_init :: "uint160 \<Rightarrow> u32 list \<Rightarrow> dtun \<Rightarrow> rdp \<Rightarrow> hash_order \<Rightarrow> stored_data \<Rightarrow> (nat \<Rightarrow> dht_query) \<Rightarrow> int \<Rightarrow> int \<Rightarrow> int \<Rightarrow> dht option" where
  "dht_init i rs dt r order junk hp t slow fast = do {
     (d1, r) \<leftarrow> listen rdp_store_port 0 r;
     (d2, r) \<leftarrow> listen rdp_get_port 1 r;
     Some \<lparr>d_rt = rttable_init i rs, d_dtun = dt\<lparr>dt_peers := set_callback (dt_peers dt)\<rparr>, d_rdp = r, d_is_dtun = True, d_use_rdp = True,
       d_last_restore = 0, d_mask_bit = 1, d_stored = [], d_heap = hp, d_next = 0, d_query = [], d_recv_store = [], d_rdp_store = [],
       d_recv_get = [], d_recv_listen = d1, d_get_listen = d2, d_funcs = [RdpRecvStore, RdpRecvGet], d_reqs = [], d_order = order, d_junk = junk,
       d_slow = t + (slow + slow_timer_interval), d_fast = t + (fast + fast_timer_interval), d_join = t + 3, d_results = []\<rparr>
   }"

definition dht_destroy :: "dht \<Rightarrow> dht option" where
  "dht_destroy s = close_all (map fst (d_recv_store s) @ map fst (d_rdp_store s) @ [d_recv_listen s, d_get_listen s]) s"

end
