(* ===== verification/Dht_Stored.thy ===== *)
theory Dht_Stored
  imports Dht_Store
begin

section \<open>What is stored, and for how long\<close>

text \<open>
  The nested tables behave as one finite map from pairs of an identifier and a key to sets of
  values; every operation keeps them well-formed.
\<close>

subsection \<open>Tables as finite maps\<close>

interpretation al: finite_map map_of AList.update AList.delete "\<lambda>m. distinct (map fst m)" "[]"
  by unfold_locales (simp_all add: update_conv' delete_conv' distinct_update distinct_delete)

definition pair_find :: "stored \<Rightarrow> uint160 \<times> u8 list \<Rightarrow> sdata_set option" where
  "pair_find st ik = stored_set st (fst ik) (snd ik)"

definition pair_put :: "uint160 \<times> u8 list \<Rightarrow> sdata_set \<Rightarrow> stored \<Rightarrow> stored" where
  "pair_put ik ds st = put_set (fst ik) (snd ik) ds st"

definition pair_del :: "uint160 \<times> u8 list \<Rightarrow> stored \<Rightarrow> stored" where
  "pair_del ik st = keep_set (fst ik) (snd ik) [] st"

definition keys_distinct :: "stored \<Rightarrow> bool" where
  "keys_distinct st \<longleftrightarrow> distinct (map fst st) \<and> (\<forall>(i, m) \<in> set st. distinct (map fst m))"

lemma stored_map_update: "stored_map (AList.update i m st) j = (if j = i then m else stored_map st j)"
  by (simp add: stored_map_def update_conv')

lemma stored_map_delete: "stored_map (AList.delete i st) j = (if j = i then [] else stored_map st j)"
  by (simp add: stored_map_def delete_conv')

lemma stored_set_put: "stored_set (put_set i k ds st) j l = (if j = i \<and> l = k then Some ds else stored_set st j l)"
  by (simp add: stored_set_def put_set_def stored_map_update update_conv')

lemma stored_set_keep:
  "stored_set (keep_set i k ds st) j l = (if j = i \<and> l = k then (if ds = [] then None else Some ds) else stored_set st j l)"
proof -
  have "map_of (AList.delete k m) l = None" if "AList.delete k m = []" for m :: sdata_map and l using that by simp
  then have "map_of m l = None" if "AList.delete k m = []" "l \<noteq> k" for m :: sdata_map and l
    using that by (metis delete_conv fun_upd_other)
  then show ?thesis
    by (auto simp: keep_set_def stored_set_put Let_def)
      (auto simp: stored_set_def stored_map_update stored_map_delete delete_conv')
qed

lemma in_update: "(a, b) \<in> set (AList.update k v m) \<Longrightarrow> a = k \<and> b = v \<or> (a, b) \<in> set m"
  by (induction m) (auto split: if_splits)

lemma in_update_key: "(k, b) \<in> set (AList.update k v m) \<Longrightarrow> distinct (map fst m) \<Longrightarrow> b = v"
  by (metis distinct_update map_of_is_SomeI option.inject update_Some_unfold)

lemma in_delete: "(a, b) \<in> set (AList.delete k m) \<longleftrightarrow> (a, b) \<in> set m \<and> a \<noteq> k"
  by (auto simp: AList.delete_eq)

lemma stored_map_in: "stored_map st i \<noteq> [] \<Longrightarrow> (i, stored_map st i) \<in> set st"
  by (auto simp: stored_map_def split: option.splits dest: map_of_SomeD)

lemma keys_distinct_map: "keys_distinct st \<Longrightarrow> distinct (map fst (stored_map st i))"
  using stored_map_in [of st i] by (cases "stored_map st i = []") (auto simp: keys_distinct_def)

lemma keys_distinct_update: "keys_distinct st \<Longrightarrow> distinct (map fst m) \<Longrightarrow> keys_distinct (AList.update i m st)"
  unfolding keys_distinct_def by (auto simp: distinct_update dest!: in_update)

lemma keys_distinct_delete: "keys_distinct st \<Longrightarrow> keys_distinct (AList.delete i st)"
  unfolding keys_distinct_def by (auto simp: distinct_delete in_delete)

lemma keys_distinct_put: "keys_distinct st \<Longrightarrow> keys_distinct (put_set i k ds st)"
  unfolding put_set_def by (intro keys_distinct_update) (simp_all add: distinct_update keys_distinct_map)

lemma keys_distinct_keep: "keys_distinct st \<Longrightarrow> keys_distinct (keep_set i k ds st)"
  by (simp add: keep_set_def keys_distinct_put Let_def keys_distinct_delete keys_distinct_update distinct_delete keys_distinct_map)

interpretation st: finite_map pair_find pair_put pair_del keys_distinct "[]"
proof unfold_locales
  fix st :: stored and ik jl :: "uint160 \<times> u8 list" and ds :: sdata_set
  show "pair_find [] ik = None" by (simp add: pair_find_def stored_set_def stored_map_def)
  show "keys_distinct ([] :: stored)" by (simp add: keys_distinct_def)
  show "pair_find (pair_put ik ds st) jl = (if jl = ik then Some ds else pair_find st jl)" if "keys_distinct st"
    by (auto simp: pair_find_def pair_put_def stored_set_put prod_eq_iff)
  show "pair_find (pair_del ik st) jl = (if jl = ik then None else pair_find st jl)" if "keys_distinct st"
    by (auto simp: pair_find_def pair_del_def stored_set_keep prod_eq_iff)
  show "keys_distinct (pair_put ik ds st)" "keys_distinct (pair_del ik st)" if "keys_distinct st"
    using that by (simp_all add: pair_put_def pair_del_def keys_distinct_put keys_distinct_keep)
qed

subsection \<open>Sets\<close>

lemma se_find_Some: "se_find v ds = Some e \<Longrightarrow> e \<in> set ds \<and> se_value e = v"
  by (auto simp: se_find_def find_Some_iff)

lemma se_find_None: "se_find v ds = None \<longleftrightarrow> v \<notin> se_value ` set ds"
  by (auto simp: se_find_def find_None_iff)

lemma se_find_distinct: "distinct (map se_value ds) \<Longrightarrow> d \<in> set ds \<Longrightarrow> se_find (se_value d) ds = Some d"
  by (induction ds) (auto simp: se_find_def)

lemma se_find_insert: "se_find v (se_insert d ds) = (if v = se_value d \<and> se_find v ds = None then Some d else se_find v ds)"
  by (induction ds) (auto simp: se_insert_def se_find_def)

lemma se_find_update:
  "(\<And>d. se_value (f d) = se_value d) \<Longrightarrow> se_find v (se_update w f ds) = (if v = w then map_option f (se_find v ds) else se_find v ds)"
  by (induction ds) (auto simp: se_update_def se_find_def)

lemma se_find_erase: "se_find v (se_erase w ds) = (if v = w then None else se_find v ds)"
  by (induction ds) (auto simp: se_erase_def se_find_def)

lemma se_find_fresh:
  "distinct (map se_value ds) \<Longrightarrow> se_find v (fresh_set t ds) = (case se_find v ds of None \<Rightarrow> None | Some e \<Rightarrow> if expired t e then None else Some e)"
proof (induction ds)
  case (Cons d ds)
  have "se_find v (fresh_set t ds) = None" if "se_value d = v"
    using Cons.prems that by (auto simp: se_find_None fresh_set_def)
  then show ?case using Cons by (auto simp: se_find_def fresh_set_def)
qed (simp add: se_find_def fresh_set_def)

lemma set_wf_insert: "set_wf i k ds \<Longrightarrow> se_id d = i \<Longrightarrow> se_key d = k \<Longrightarrow> set_wf i k (se_insert d ds)"
  by (auto simp: set_wf_def se_insert_def se_find_None)

lemma set_wf_update:
  assumes "set_wf i k ds" "\<And>d. se_value (f d) = se_value d" "\<And>d. se_id (f d) = se_id d" "\<And>d. se_key (f d) = se_key d"
  shows "set_wf i k (se_update v f ds)"
proof -
  have "map se_value (se_update v f ds) = map se_value ds" using assms(2) by (simp add: se_update_def)
  moreover have "\<forall>d \<in> set (se_update v f ds). se_id d = i \<and> se_key d = k"
    using assms by (auto simp: set_wf_def se_update_def)
  ultimately show ?thesis using assms(1) by (simp add: set_wf_def)
qed

lemma set_wf_filter: "set_wf i k ds \<Longrightarrow> set_wf i k (filter P ds)"
  by (auto simp: set_wf_def distinct_map_filter)

lemma set_wf_Nil [simp]: "set_wf i k []"
  by (simp add: set_wf_def)

lemma se_update_Nil [simp]: "se_update v f ds = [] \<longleftrightarrow> ds = []"
  by (simp add: se_update_def)

lemma se_insert_nonempty [simp]: "se_insert d ds \<noteq> []"
  by (auto simp: se_insert_def se_find_def)

lemma renew_simps [simp]:
  "se_value (renew_sdata d b e) = se_value e" "se_id (renew_sdata d b e) = se_id e" "se_key (renew_sdata d b e) = se_key e"
  "se_src (renew_sdata d b e) = se_src e" "se_unique (renew_sdata d b e) = se_unique e"
  by (simp_all add: renew_sdata_def)

lemma dec_original_simps [simp]:
  "se_value (dec_original e) = se_value e" "se_id (dec_original e) = se_id e" "se_key (dec_original e) = se_key e"
  by (simp_all add: dec_original_def)

subsection \<open>Well-formedness\<close>

lemma stored_wf_map: "stored_wf st \<Longrightarrow> map_wf i (stored_map st i)"
  using stored_map_in [of st i] by (cases "stored_map st i = []") (auto simp: stored_wf_def map_wf_def)

lemma stored_wf_set: "stored_wf st \<Longrightarrow> stored_set st i k = Some ds \<Longrightarrow> ds \<noteq> [] \<and> set_wf i k ds"
  using stored_wf_map [of st i] by (auto simp: map_wf_def stored_set_def dest!: map_of_SomeD)

lemma map_wf_update: "map_wf i m \<Longrightarrow> ds \<noteq> [] \<Longrightarrow> set_wf i k ds \<Longrightarrow> map_wf i (AList.update k ds m)"
  unfolding map_wf_def by (auto simp: distinct_update dest!: in_update)

lemma map_wf_delete: "map_wf i m \<Longrightarrow> map_wf i (AList.delete k m)"
  unfolding map_wf_def by (auto simp: distinct_delete in_delete)

lemma stored_wf_update: "stored_wf st \<Longrightarrow> m \<noteq> [] \<Longrightarrow> map_wf i m \<Longrightarrow> stored_wf (AList.update i m st)"
  unfolding stored_wf_def by (auto simp: distinct_update dest!: in_update)

lemma stored_wf_delete: "stored_wf st \<Longrightarrow> stored_wf (AList.delete i st)"
  unfolding stored_wf_def by (auto simp: distinct_delete in_delete)

lemma update_nonempty [simp]: "AList.update k v m \<noteq> []"
  by (cases m) auto

lemma stored_wf_put: "stored_wf st \<Longrightarrow> ds \<noteq> [] \<Longrightarrow> set_wf i k ds \<Longrightarrow> stored_wf (put_set i k ds st)"
  by (simp add: put_set_def stored_wf_update map_wf_update stored_wf_map)

lemma stored_wf_keep: "stored_wf st \<Longrightarrow> set_wf i k ds \<Longrightarrow> stored_wf (keep_set i k ds st)"
  by (simp add: keep_set_def stored_wf_put Let_def stored_wf_update stored_wf_delete map_wf_delete stored_wf_map)

lemma stored_wf_keys: "stored_wf st \<Longrightarrow> keys_distinct st"
  by (auto simp: stored_wf_def keys_distinct_def map_wf_def)

lemma add_sdata_wf:
  assumes "stored_wf st"
  shows "stored_wf (add_sdata d b st)"
proof (cases "stored_set st (se_id d) (se_key d)")
  case None
  then show ?thesis using assms by (simp add: add_sdata_def stored_wf_put set_wf_insert)
next
  case (Some ds)
  have ds: "ds \<noteq> []" "set_wf (se_id d) (se_key d) ds" using stored_wf_set [OF assms Some] by auto
  have up: "set_wf (se_id d) (se_key d) (se_update (se_value d) (renew_sdata d b) ds)" using ds(2) by (rule set_wf_update) simp_all
  have one: "set_wf (se_id d) (se_key d) [d]" "set_wf (se_id d) (se_key d) [e] \<Longrightarrow> set_wf (se_id d) (se_key d) [renew_sdata d True e]" for e
    by (simp_all add: set_wf_def)
  show ?thesis
    using assms Some ds up one stored_wf_put [OF assms]
    by (auto simp: add_sdata_def Let_def set_wf_insert split: list.split option.split)
qed

lemma erase_sdata_wf: "stored_wf st \<Longrightarrow> erase_sdata d st = Some st' \<Longrightarrow> stored_wf st'"
  by (auto simp: erase_sdata_def se_erase_def split: option.splits Option.bind_splits if_splits
      intro!: stored_wf_keep set_wf_filter dest: stored_wf_set)

lemma update_entry_wf:
  assumes "stored_wf st" "stored_set st i k = Some ds"
    and "\<And>d. se_value (f d) = se_value d" "\<And>d. se_id (f d) = se_id d" "\<And>d. se_key (f d) = se_key d"
  shows "stored_wf (put_set i k (se_update v f ds) st)"
  using stored_wf_set [OF assms(1,2)] assms by (intro stored_wf_put set_wf_update) auto

lemma insert2recvd_wf: "stored_wf st \<Longrightarrow> stored_wf (insert2recvd_sdata d src st)"
  by (auto simp: insert2recvd_sdata_def split: option.split intro!: update_entry_wf)

lemma dec_origin_wf:
  assumes "stored_wf st"
  shows "stored_wf (snd (dec_origin_sdata d st))"
proof (cases "stored_set st (se_id d) (se_key d)")
  case (Some ds)
  then show ?thesis
    using assms stored_wf_set [OF assms Some]
    by (auto simp: dec_origin_sdata_def set_wf_insert split: option.split intro!: set_wf_update stored_wf_put)
qed (simp add: assms dec_origin_sdata_def stored_wf_put set_wf_insert)

lemma map_wf_refresh: "map_wf i m \<Longrightarrow> map_wf i (refresh_map t m)"
  by (auto simp: map_wf_def refresh_map_def fresh_set_def set_wf_filter comp_def case_prod_unfold intro!: distinct_map_filter)

lemma refresh_stored_wf: "stored_wf st \<Longrightarrow> stored_wf (refresh_stored t st)"
  by (auto simp: stored_wf_def refresh_stored_def comp_def case_prod_unfold map_wf_refresh intro!: distinct_map_filter)

subsection \<open>Expiry\<close>

lemma map_of_map_filter:
  "distinct (map fst m) \<Longrightarrow>
   map_of (filter (\<lambda>(k, x). P x) (map (\<lambda>(k, x). (k, f x)) m)) k = Option.bind (map_of m k) (\<lambda>x. if P (f x) then Some (f x) else None)"
proof (induction m)
  case (Cons a m)
  have "map_of m (fst a) = None" using Cons.prems by (simp add: map_of_eq_None_iff)
  then show ?case using Cons by (cases a) auto
qed simp

lemma stored_at_refresh:
  assumes "stored_wf st"
  shows "stored_at (refresh_stored t st) i k v = (case stored_at st i k v of None \<Rightarrow> None | Some e \<Rightarrow> if expired t e then None else Some e)"
proof -
  have "map_of (refresh_stored t st) i = Option.bind (map_of st i) (\<lambda>m. if refresh_map t m \<noteq> [] then Some (refresh_map t m) else None)"
    unfolding refresh_stored_def using assms by (intro map_of_map_filter) (simp add: stored_wf_def)
  then have "stored_map (refresh_stored t st) i = refresh_map t (stored_map st i)"
    by (auto simp: stored_map_def refresh_map_def split: option.splits Option.bind_splits)
  moreover have "distinct (map fst (stored_map st i))" using stored_wf_map [OF assms] by (simp add: map_wf_def)
  ultimately have "stored_set (refresh_stored t st) i k =
      Option.bind (stored_set st i k) (\<lambda>ds. if fresh_set t ds \<noteq> [] then Some (fresh_set t ds) else None)"
    unfolding stored_set_def refresh_map_def by (simp add: map_of_map_filter)
  moreover have "se_find v (fresh_set t ds) = (case se_find v ds of None \<Rightarrow> None | Some e \<Rightarrow> if expired t e then None else Some e)"
    if "stored_set st i k = Some ds" for ds using stored_wf_set [OF assms that] by (intro se_find_fresh) (simp add: set_wf_def)
  moreover have "se_find v [] = None" by (simp add: se_find_def)
  ultimately show ?thesis by (auto simp: stored_at_def split: option.splits Option.bind_splits if_splits)
qed

end
