(* ===== verification/Dht_Table.thy ===== *)
theory Dht_Table
  imports Dht Dht_Stored
begin

section \<open>How the stored values of a node change\<close>

text \<open>
  \<open>table_step\<close> lists what the code does to \<^verbatim>\<open>m_stored\<close>.  The locale \<open>table_invariant\<close> carries
  a property that these changes keep through every operation of the node.
\<close>

inductive table_step :: "stored \<Rightarrow> stored \<Rightarrow> bool" where
  add: "table_step st (add_sdata d b st)"
| erase: "erase_sdata d st = Some st' \<Longrightarrow> table_step st st'"
| received: "table_step st (insert2recvd_sdata d src st)"
| dec_origin: "table_step st (snd (dec_origin_sdata d st))"
| refresh: "table_step st (refresh_stored t st)"
| fetch: "stored_set st i k = Some ds \<Longrightarrow> table_step st (keep_set i k (fresh_set t ds) st)"
| offered: "table_step st (upd_entry e (\<lambda>e. e\<lparr>se_recvd := rc\<rparr>) st)"
| dropped: "table_step st (drop_entry e st)"

lemma table_step_wf: "table_step st st' \<Longrightarrow> stored_wf st \<Longrightarrow> stored_wf st'"
proof (induction rule: table_step.induct)
  case (fetch st i k ds t)
  then show ?case using stored_wf_set [of st i k ds] by (simp add: stored_wf_keep fresh_set_def set_wf_filter)
next
  case (offered st e rc)
  then show ?case by (auto simp: upd_entry_def split: option.split intro!: update_entry_wf)
next
  case (dropped st e)
  then show ?case by (auto simp: drop_entry_def se_erase_def split: option.split intro!: stored_wf_keep set_wf_filter dest: stored_wf_set)
qed (simp_all add: add_sdata_wf erase_sdata_wf insert2recvd_wf dec_origin_wf refresh_stored_wf)

subsection \<open>Operations that leave the table alone\<close>

lemma d_stored_simps [simp]:
  "d_stored (d_send ms s) = d_stored s" "d_stored (d_called res s) = d_stored s" "d_stored (put_q p q s) = d_stored s"
  "d_stored (d_set_stored st s) = st" "d_stored (upd_q p f s) = d_stored s" "d_stored (remove_query p s) = d_stored s"
  "d_stored (put_recv_get d g s) = d_stored s" "d_stored (put_recv_store d r s) = d_stored s"
  by (simp_all add: d_upd upd_q_def remove_query_def put_recv_get_def put_recv_store_def Let_def)

lemma d_connect_stored: "d_connect sp i dp f s = Some (d, s') \<Longrightarrow> d_stored s' = d_stored s"
  by (auto simp: d_connect_def split: Option.bind_splits)

lemma d_close_stored: "d_close d s = Some s' \<Longrightarrow> d_stored s' = d_stored s"
  by (auto simp: d_close_def split: Option.bind_splits)

lemma d_rdp_send_stored: "d_rdp_send d b s = Some s' \<Longrightarrow> d_stored s' = d_stored s"
  by (auto simp: d_rdp_send_def split: Option.bind_splits)

lemma d_receive_stored: "d_receive d n s = (bs, s') \<Longrightarrow> d_stored s' = d_stored s"
  by (auto simp: d_receive_def Let_def split: prod.splits)

lemma d_request_stored: "d_request i f s = Some s' \<Longrightarrow> d_stored s' = d_stored s"
  by (auto simp: d_request_def split: Option.bind_splits)

lemma d_send_ping_stored: "d_send_ping c n s = Some s' \<Longrightarrow> d_stored s' = d_stored s"
  by (auto simp: d_send_ping_def split: Option.bind_splits if_splits dest: d_request_stored)

lemma d_send_pings_stored: "d_send_pings ps s = Some s' \<Longrightarrow> d_stored s' = d_stored s"
  by (induction ps s rule: d_send_pings.induct) (auto split: Option.bind_splits dest: d_send_ping_stored)

lemma d_add_stored: "d_add c s = Some s' \<Longrightarrow> d_stored s' = d_stored s"
  by (auto simp: d_add_def split: Option.bind_splits dest: d_send_pings_stored)

lemma sync_node_stored: "sync_node c s = Some s' \<Longrightarrow> d_stored s' = d_stored s"
  by (auto simp: sync_node_def split: if_splits dest: d_add_stored)

lemma run_steps_stored: "(\<And>a s s'. step a s = Some s' \<Longrightarrow> d_stored s' = d_stored s) \<Longrightarrow> run_steps step as s = Some s' \<Longrightarrow> d_stored s' = d_stored s"
  by (induction as arbitrary: s) (fastforce split: option.splits)+

lemma d_set_peers_stored: "d_set_peers p s = Some s' \<Longrightarrow> d_stored s' = d_stored s"
  unfolding d_set_peers_def by (drule run_steps_stored [rotated]) (auto dest: sync_node_stored)

lemma d_add_peer_stored: "d_add_peer t c s = Some s' \<Longrightarrow> d_stored s' = d_stored s"
  by (auto simp: d_add_peer_def split: Option.bind_splits dest: d_set_peers_stored)

lemma send_find_stored:
  "send_dht_find_node i n c s = Some s' \<Longrightarrow> d_stored s' = d_stored s" "send_dht_find_value k i n c s = Some s' \<Longrightarrow> d_stored s' = d_stored s"
  by (auto simp: send_dht_find_node_def send_dht_find_value_def split: Option.bind_splits if_splits)

lemma d_send_find_nv_stored:
  "d_send_find_node c p s = Some s' \<Longrightarrow> d_stored s' = d_stored s" "d_send_find_value c p s = Some s' \<Longrightarrow> d_stored s' = d_stored s"
  by (auto simp: d_send_find_node_def d_send_find_value_def Let_def split: if_splits dest: d_request_stored send_find_stored)

lemma d_send_find_loop_stored: "d_send_find_loop p nodes s = Some s' \<Longrightarrow> d_stored s' = d_stored s"
  by (induction p nodes s rule: d_send_find_loop.induct)
    (auto simp: Let_def split: Option.bind_splits if_splits dest: d_send_find_nv_stored)

lemma req_func_stored: "req_func_called f c s = Some s' \<Longrightarrow> d_stored s' = d_stored s"
  by (cases f) (auto split: Option.bind_splits dest: send_find_stored)

lemma send_store_stored: "send_store b nodes s = Some s' \<Longrightarrow> d_stored s' = d_stored s"
  by (induction b nodes s rule: send_store.induct) (auto split: Option.bind_splits if_splits)

lemma connect_store_stored: "connect_store t f i s = Some s' \<Longrightarrow> d_stored s' = d_stored s"
  by (auto simp: connect_store_def split: Option.bind_splits if_splits dest: d_connect_stored)

lemma connect_stores_stored: "connect_stores t f nodes s = Some s' \<Longrightarrow> d_stored s' = d_stored s"
  by (induction t f nodes s rule: connect_stores.induct) (auto split: Option.bind_splits if_splits dest: connect_store_stored)

lemma store_by_stored:
  "store_by_udp f nodes s = Some (me, s') \<Longrightarrow> d_stored s' = d_stored s" "store_by_rdp t f nodes s = Some (me, s') \<Longrightarrow> d_stored s' = d_stored s"
  by (auto simp: store_by_udp_def store_by_rdp_def split: Option.bind_splits if_splits dest: send_store_stored connect_stores_stored)

lemma restore_send_stored: "restore_send b nodes rc s = Some (rc', s') \<Longrightarrow> d_stored s' = d_stored s"
  by (induction b nodes rc s rule: restore_send.induct) (auto split: Option.bind_splits if_splits)

lemma restore_connect_stored: "restore_connect t f rc nodes s = Some s' \<Longrightarrow> d_stored s' = d_stored s"
  by (induction t f rc nodes s rule: restore_connect.induct) (auto split: Option.bind_splits if_splits dest: connect_store_stored)

lemma alloc_query_stored: "alloc_query mk s = Some (p, s') \<Longrightarrow> d_stored s' = d_stored s"
  by (auto simp: alloc_query_def Let_def split: Option.bind_splits)

lemma d_find_node_addr_stored: "d_find_node_addr sa f s = Some s' \<Longrightarrow> d_stored s' = d_stored s"
  by (auto simp: d_find_node_addr_def split: Option.bind_splits if_splits dest!: alloc_query_stored d_send_find_nv_stored)

lemma close_all_stored: "close_all ds s = Some s' \<Longrightarrow> d_stored s' = d_stored s"
  by (induction ds s rule: close_all.induct) (auto split: Option.bind_splits dest: d_close_stored)

lemma recvd_value_stored: "recvd_value p s = Some s' \<Longrightarrow> d_stored s' = d_stored s"
  by (auto simp: recvd_value_def split: dht_callback.splits)

lemma recv_nul_stored: "recv_nul t i p s = Some s' \<Longrightarrow> d_stored s' = d_stored s"
  by (auto simp: recv_nul_def split: Option.bind_splits if_splits dest: d_connect_stored)

lemma recv_values_stored: "recv_values t msg i p s = Some s' \<Longrightarrow> d_stored s' = d_stored s"
  by (auto simp: recv_values_def Let_def split: if_splits option.splits dest: recvd_value_stored)

lemma reply_value_stored: "reply_value msg c k n v s = Some s' \<Longrightarrow> d_stored s' = d_stored s"
  by (auto simp: reply_value_def split: Option.bind_splits if_splits)

lemma d_reply_nodes_stored: "d_reply_nodes msg c s = Some s' \<Longrightarrow> d_stored s' = d_stored s"
  by (auto simp: d_reply_nodes_def Let_def split: Option.bind_splits if_splits)

lemma erase_recv_stored:
  "erase_recv_get d s = Some s' \<Longrightarrow> d_stored s' = d_stored s" "erase_recv_store d s = Some s' \<Longrightarrow> d_stored s' = d_stored s"
  by (auto simp: erase_recv_get_def erase_recv_store_def split: Option.bind_splits dest: d_close_stored)

lemma get_connected_stored: "get_connected t p d s = Some s' \<Longrightarrow> d_stored s' = d_stored s"
  by (auto simp: get_connected_def Let_def split: Option.bind_splits dest!: d_rdp_send_stored)

lemma rget_read_op_stored: "rget_read_op t d s = Some (b, s') \<Longrightarrow> d_stored s' = d_stored s"
  by (auto simp: rget_read_op_def Let_def split: prod.splits list.splits if_splits Option.bind_splits
      dest!: d_receive_stored erase_recv_stored d_rdp_send_stored)

lemma rget_read_hdr_stored: "rget_read_hdr t d g s = Some (b, s') \<Longrightarrow> d_stored s' = d_stored s"
  by (auto simp: rget_read_hdr_def Let_def split: prod.splits if_splits Option.bind_splits dest!: d_receive_stored erase_recv_stored)

lemma rs_read_hdr_stored: "rs_read_hdr t d r s = Some (b, s') \<Longrightarrow> d_stored s' = d_stored s"
  by (auto simp: rs_read_hdr_def Let_def split: prod.splits if_splits Option.bind_splits dest!: d_receive_stored erase_recv_stored)

lemmas stored_same = d_connect_stored d_close_stored d_rdp_send_stored d_receive_stored d_request_stored d_add_stored d_add_peer_stored
  d_set_peers_stored d_send_find_nv_stored d_send_find_loop_stored alloc_query_stored recvd_value_stored erase_recv_stored

subsection \<open>Invariants of the table\<close>

locale table_invariant =
  fixes I :: "stored \<Rightarrow> bool"
  assumes closed: "table_step st st' \<Longrightarrow> I st \<Longrightarrow> I st'"
begin

lemma add_inv: "I st \<Longrightarrow> I (add_sdata d b st)"
  by (rule closed [OF table_step.add])

lemma erase_inv: "erase_sdata d st = Some st' \<Longrightarrow> I st \<longrightarrow> I st'"
  using closed [OF table_step.erase] by blast

lemma put_sdata_inv: "put_sdata d src st = Some st' \<Longrightarrow> I st \<longrightarrow> I st'"
  by (auto simp: put_sdata_def add_inv closed [OF table_step.received] split: if_splits dest: erase_inv)

lemma stored_func_inv: "stored_func t f nodes s = Some s' \<Longrightarrow> I (d_stored s) \<longrightarrow> I (d_stored s')"
  using closed [OF table_step.dec_origin]
  by (auto simp: stored_func_def Let_def case_prod_unfold split: Option.bind_splits if_splits dest!: store_by_stored erase_inv)

text \<open>\<open>restored\<close> is a callback that keeps the invariant.\<close>

definition safe :: "(dht \<Rightarrow> dht option) \<Rightarrow> bool" where
  "safe restored \<longleftrightarrow> (\<forall>s s'. restored s = Some s' \<longrightarrow> I (d_stored s) \<longrightarrow> I (d_stored s'))"

lemma nodes_func_inv: "nodes_func_called restored t f nodes s = Some s' \<Longrightarrow> safe restored \<Longrightarrow> I (d_stored s) \<longrightarrow> I (d_stored s')"
  by (cases f) (auto simp: safe_def dest: stored_func_inv)

lemma query_ended_inv: "query_ended restored t b f nodes s = Some s' \<Longrightarrow> safe restored \<Longrightarrow> I (d_stored s) \<longrightarrow> I (d_stored s')"
  by (cases b; cases f) (auto dest: nodes_func_inv)

lemma d_send_find_inv: "d_send_find restored t p s = Some s' \<Longrightarrow> safe restored \<Longrightarrow> I (d_stored s) \<longrightarrow> I (d_stored s')"
  by (auto simp: d_send_find_def Let_def split: Option.bind_splits if_splits dest!: d_send_find_loop_stored query_ended_inv)

lemma d_find_nv_inv: "d_find_nv restored t dst f b k s = Some s' \<Longrightarrow> safe restored \<Longrightarrow> I (d_stored s) \<longrightarrow> I (d_stored s')"
  by (auto simp: d_find_nv_def split: Option.bind_splits if_splits dest!: alloc_query_stored d_send_find_inv query_ended_inv)

lemma d_find_node_with_inv: "d_find_node_with restored t dst f s = Some s' \<Longrightarrow> safe restored \<Longrightarrow> I (d_stored s) \<longrightarrow> I (d_stored s')"
  by (auto simp: d_find_node_with_def split: if_splits dest!: d_find_nv_inv nodes_func_inv)

lemma restore_by_inv:
  "restore_by_udp t nodes e s = Some (me, s') \<Longrightarrow> I (d_stored s) \<longrightarrow> I (d_stored s')"
  "restore_by_rdp t nodes e s = Some (me, s') \<Longrightarrow> I (d_stored s) \<longrightarrow> I (d_stored s')"
  using closed [OF table_step.offered]
  by (auto simp: restore_by_udp_def restore_by_rdp_def Let_def safe_def split: Option.bind_splits if_splits
      dest!: restore_send_stored restore_connect_stored d_find_node_with_inv)

lemma restore_value_inv: "restore_value t nodes i k v s = Some s' \<Longrightarrow> I (d_stored s) \<longrightarrow> I (d_stored s')"
  using closed [OF table_step.dropped]
  by (auto simp: restore_value_def split: Option.bind_splits if_splits dest!: restore_by_inv)

lemma run_steps_inv:
  "(\<And>a s s'. step a s = Some s' \<Longrightarrow> I (d_stored s) \<longrightarrow> I (d_stored s')) \<Longrightarrow> run_steps step as s = Some s' \<Longrightarrow> I (d_stored s) \<longrightarrow> I (d_stored s')"
  by (induction as arbitrary: s) (fastforce split: option.splits)+

lemma restore_key_inv: "restore_key t nodes i k s = Some s' \<Longrightarrow> I (d_stored s) \<longrightarrow> I (d_stored s')"
  using run_steps_inv [of "restore_value t nodes i k", OF restore_value_inv] by (auto simp: restore_key_def split: Option.bind_splits)

lemma restore_keys_inv: "run_steps (restore_key t nodes i) ks s = Some s' \<Longrightarrow> I (d_stored s) \<longrightarrow> I (d_stored s')"
  by (erule run_steps_inv [rotated]) (rule restore_key_inv)

lemma restore_id_inv: "restore_id t i s = Some s' \<Longrightarrow> I (d_stored s) \<longrightarrow> I (d_stored s')"
  by (auto simp: restore_id_def split: Option.bind_splits if_splits dest!: restore_keys_inv)

lemma safe_restored_func: "safe (restored_func t)"
  using run_steps_inv [of "restore_id t", OF restore_id_inv] by (auto simp: safe_def restored_func_def)

lemmas restored_invs = d_send_find_inv [OF _ safe_restored_func] d_find_node_with_inv [OF _ safe_restored_func]
  d_find_nv_inv [OF _ safe_restored_func]

lemma d_find_node_inv: "d_find_node t i f s = Some s' \<Longrightarrow> I (d_stored s) \<longrightarrow> I (d_stored s')"
  unfolding d_find_node_def by (rule restored_invs)

lemma d_find_value_inv: "d_find_value t i k tag s = Some s' \<Longrightarrow> I (d_stored s) \<longrightarrow> I (d_stored s')"
  by (auto simp: d_find_value_def split: if_splits dest: restored_invs)

lemma d_store_from_inv: "d_store_from t i k v ttl from u s = Some s' \<Longrightarrow> I (d_stored s) \<longrightarrow> I (d_stored s')"
  by (auto simp: d_store_from_def Let_def split: Option.bind_splits if_splits intro!: add_inv dest!: d_find_node_inv erase_inv)

lemma d_timer_query_inv: "d_timer_query t n i s = Some s' \<Longrightarrow> I (d_stored s) \<longrightarrow> I (d_stored s')"
  by (auto simp: d_timer_query_def Let_def split: Option.bind_splits if_splits dest!: restored_invs)

lemma d_recv_find_node_inv: "d_recv_find_node t msg from s = Some s' \<Longrightarrow> I (d_stored s) \<longrightarrow> I (d_stored s')"
  by (auto simp: d_recv_find_node_def Let_def split: Option.bind_splits if_splits dest!: stored_same)

lemma d_recv_find_node_reply_inv: "d_recv_find_node_reply t msg from s = Some s' \<Longrightarrow> I (d_stored s) \<longrightarrow> I (d_stored s')"
  by (auto simp: d_recv_find_node_reply_def Let_def split: Option.bind_splits if_splits option.splits dest!: stored_same restored_invs)

lemma d_recv_store_msg_inv: "d_recv_store_msg t msg from s = Some s' \<Longrightarrow> I (d_stored s) \<longrightarrow> I (d_stored s')"
  by (auto simp: d_recv_store_msg_def Let_def split: Option.bind_splits if_splits dest!: stored_same put_sdata_inv)

lemma d_recv_find_value_inv: "d_recv_find_value t msg from s = Some s' \<Longrightarrow> I (d_stored s) \<longrightarrow> I (d_stored s')"
  by (auto simp: d_recv_find_value_def Let_def split: Option.bind_splits if_splits option.splits
      dest!: stored_same d_reply_nodes_stored run_steps_stored [OF reply_value_stored, rotated])

lemma recv_nodes_inv: "recv_nodes t msg from p s = Some s' \<Longrightarrow> I (d_stored s) \<longrightarrow> I (d_stored s')"
  by (auto simp: recv_nodes_def split: Option.bind_splits if_splits option.splits dest!: restored_invs)

lemma d_recv_find_value_reply_inv: "d_recv_find_value_reply t msg from s = Some s' \<Longrightarrow> I (d_stored s) \<longrightarrow> I (d_stored s')"
  by (auto simp: d_recv_find_value_reply_def Let_def split: Option.bind_splits if_splits option.splits
      dest!: stored_same recv_nul_stored recv_values_stored recv_nodes_inv)

lemma get_close_inv: "get_next_source t p s = Some s' \<Longrightarrow> I (d_stored s) \<longrightarrow> I (d_stored s')"
    "get_close_rdp t p d s = Some s' \<Longrightarrow> I (d_stored s) \<longrightarrow> I (d_stored s')"
  by (auto simp: get_close_rdp_def get_next_source_def split: Option.bind_splits if_splits list.splits dest!: stored_same restored_invs)

lemma get_step_inv: "get_step t p d s = Some (b, s') \<Longrightarrow> I (d_stored s) \<longrightarrow> I (d_stored s')"
  by (auto simp: get_step_def get_read_hdr_def get_read_val_def Let_def
      split: query_state.splits prod.splits if_splits Option.bind_splits dest!: stored_same get_close_inv)

lemma rget_read_val_inv: "rget_read_val t g s = (g', s') \<Longrightarrow> I (d_stored s) \<longrightarrow> I (d_stored s')"
  using closed [OF table_step.fetch] by (auto simp: rget_read_val_def Let_def split: option.splits)

lemma rget_read_key_inv: "rget_read_key t d g s = Some (b, s') \<Longrightarrow> I (d_stored s) \<longrightarrow> I (d_stored s')"
  by (auto simp: rget_read_key_def Let_def split: prod.splits if_splits dest!: stored_same rget_read_val_inv)

lemma read_loop_inv:
  "(\<And>s b s'. step s = Some (b, s') \<Longrightarrow> I (d_stored s) \<longrightarrow> I (d_stored s')) \<Longrightarrow> read_loop n step s = Some s' \<Longrightarrow> I (d_stored s) \<longrightarrow> I (d_stored s')"
  by (induction n step s rule: read_loop.induct) (fastforce split: Option.bind_splits if_splits)+

lemma rget_ops_inv: "read_loop n (rget_read_op t d) s = Some s' \<Longrightarrow> I (d_stored s) \<longrightarrow> I (d_stored s')"
  by (erule read_loop_inv [rotated]) (auto dest: rget_read_op_stored)

lemma rget_step_inv: "rget_step t d s = Some (b, s') \<Longrightarrow> I (d_stored s) \<longrightarrow> I (d_stored s')"
  by (auto simp: rget_step_def simp del: read_loop.simps split: Option.bind_splits rget_state.splits
      dest!: stored_same rget_read_hdr_stored rget_read_key_inv rget_ops_inv)

lemma rs_step_inv: "rs_step t d s = Some (b, s') \<Longrightarrow> I (d_stored s) \<longrightarrow> I (d_stored s')"
  by (auto simp: rs_step_def rs_read_body_def store2local_def Let_def split: Option.bind_splits prod.splits if_splits
      dest!: stored_same rs_read_hdr_stored put_sdata_inv)

lemma rdp_store_event_inv: "rdp_store_event f d a ev s = Some s' \<Longrightarrow> I (d_stored s) \<longrightarrow> I (d_stored s')"
  using closed [OF table_step.received]
  by (auto simp: rdp_store_event_def Let_def split: rdp_event.splits Option.bind_splits dest!: stored_same)

lemma read_loops_inv:
  "read_loop n (get_step t p d) s = Some s' \<Longrightarrow> I (d_stored s) \<longrightarrow> I (d_stored s')"
  "read_loop n (rget_step t d) s = Some s' \<Longrightarrow> I (d_stored s) \<longrightarrow> I (d_stored s')"
  "read_loop n (rs_step t d) s = Some s' \<Longrightarrow> I (d_stored s) \<longrightarrow> I (d_stored s')"
  by (erule read_loop_inv [rotated], erule get_step_inv rget_step_inv rs_step_inv)+

lemma d_rdp_event_inv: "d_rdp_event t tag d a ev s = Some s' \<Longrightarrow> I (d_stored s) \<longrightarrow> I (d_stored s')"
  by (auto simp: d_rdp_event_def rdp_get_event_def rdp_recv_get_event_def rdp_recv_store_event_def simp del: read_loop.simps
      split: if_splits rdp_func.splits rdp_event.splits
      dest!: rdp_store_event_inv stored_same get_close_inv get_connected_stored read_loops_inv)

lemma sweep_query_inv: "sweep_query t e s = Some s' \<Longrightarrow> I (d_stored s) \<longrightarrow> I (d_stored s')"
  by (auto simp: sweep_query_def Let_def split: Option.bind_splits if_splits dest!: stored_same get_close_inv)

lemma sweep_queries_inv: "run_steps (sweep_query t) es s = Some s' \<Longrightarrow> I (d_stored s) \<longrightarrow> I (d_stored s')"
  by (erule run_steps_inv [rotated]) (rule sweep_query_inv)

lemma sweep_rdp_inv: "sweep_rdp t s = Some s' \<Longrightarrow> I (d_stored s) \<longrightarrow> I (d_stored s')"
  by (auto simp: sweep_rdp_def Let_def split: Option.bind_splits dest!: close_all_stored sweep_queries_inv)

lemma timers_inv:
  "fast_timer_dht t j s = Some s' \<Longrightarrow> I (d_stored s) \<longrightarrow> I (d_stored s')"
  "slow_timer_dht t j s = Some s' \<Longrightarrow> I (d_stored s) \<longrightarrow> I (d_stored s')"
  "dht_join order t s = Some s' \<Longrightarrow> I (d_stored s) \<longrightarrow> I (d_stored s')"
  using closed [OF table_step.refresh]
  by (auto simp: fast_timer_dht_def slow_timer_dht_def dht_join_def d_refresh_def d_restore_def d_maintain_def Let_def
      split: Option.bind_splits if_splits option.splits dest!: sweep_rdp_inv d_find_node_inv d_find_node_addr_stored)

lemma peer_handlers_inv:
  "d_timer_ping t n s = Some s' \<Longrightarrow> I (d_stored s) \<longrightarrow> I (d_stored s')"
  "d_recv_ping t msg from s = Some s' \<Longrightarrow> I (d_stored s) \<longrightarrow> I (d_stored s')"
  "d_recv_ping_reply t msg from s = Some s' \<Longrightarrow> I (d_stored s) \<longrightarrow> I (d_stored s')"
  "sync_node c s = Some s' \<Longrightarrow> I (d_stored s) \<longrightarrow> I (d_stored s')"
  "d_requested tag res s = Some s' \<Longrightarrow> I (d_stored s) \<longrightarrow> I (d_stored s')"
  "d_find_node_host h f s = Some s' \<Longrightarrow> I (d_stored s) \<longrightarrow> I (d_stored s')"
  by (auto simp: d_timer_ping_def d_recv_ping_def d_recv_ping_reply_def d_requested_def d_find_node_host_def
      split: Option.bind_splits option.splits if_splits
      dest!: d_set_peers_stored sync_node_stored req_func_stored d_find_node_addr_stored)

end

subsection \<open>Steps of a node\<close>

text \<open>
  \<open>other\<close> is what other components do in between: to the directory, the protocol machine
  and the switches.
\<close>

inductive dht_step :: "dht \<Rightarrow> dht \<Rightarrow> bool" where
  timer_ping: "d_timer_ping t n s = Some s' \<Longrightarrow> dht_step s s'"
| recv_ping: "d_recv_ping t msg from s = Some s' \<Longrightarrow> dht_step s s'"
| recv_ping_reply: "d_recv_ping_reply t msg from s = Some s' \<Longrightarrow> dht_step s s'"
| peer_seen: "sync_node c s = Some s' \<Longrightarrow> dht_step s s'"
| requested: "d_requested tag res s = Some s' \<Longrightarrow> dht_step s s'"
| find_node: "d_find_node t i f s = Some s' \<Longrightarrow> dht_step s s'"
| find_node_host: "d_find_node_host h f s = Some s' \<Longrightarrow> dht_step s s'"
| find_value: "d_find_value t i k tag s = Some s' \<Longrightarrow> dht_step s s'"
| store: "d_store_from t i k v ttl from u s = Some s' \<Longrightarrow> dht_step s s'"
| timer_query: "d_timer_query t n i s = Some s' \<Longrightarrow> dht_step s s'"
| timer_recvd: "d_timer_recvd p s = Some s' \<Longrightarrow> dht_step s s'"
| recv_find_node: "d_recv_find_node t msg from s = Some s' \<Longrightarrow> dht_step s s'"
| recv_find_node_reply: "d_recv_find_node_reply t msg from s = Some s' \<Longrightarrow> dht_step s s'"
| recv_store: "d_recv_store_msg t msg from s = Some s' \<Longrightarrow> dht_step s s'"
| recv_find_value: "d_recv_find_value t msg from s = Some s' \<Longrightarrow> dht_step s s'"
| recv_find_value_reply: "d_recv_find_value_reply t msg from s = Some s' \<Longrightarrow> dht_step s s'"
| rdp_event: "d_rdp_event t tag d a ev s = Some s' \<Longrightarrow> dht_step s s'"
| fast_timer: "fast_timer_dht t j s = Some s' \<Longrightarrow> dht_step s s'"
| slow_timer: "slow_timer_dht t j s = Some s' \<Longrightarrow> dht_step s s'"
| join: "dht_join order t s = Some s' \<Longrightarrow> dht_step s s'"
| other: "dht_step s (s\<lparr>d_dtun := dt, d_rdp := r, d_is_dtun := b, d_use_rdp := b'\<rparr>)"

context table_invariant
begin

lemma dht_step_inv: "dht_step s s' \<Longrightarrow> I (d_stored s) \<Longrightarrow> I (d_stored s')"
proof (induction rule: dht_step.induct)
  case (timer_recvd p s s')
  then show ?case by (auto simp: d_timer_recvd_def dest: recvd_value_stored)
qed (auto dest: peer_handlers_inv d_find_node_inv d_find_value_inv d_store_from_inv d_timer_query_inv d_recv_find_node_inv
    d_recv_find_node_reply_inv d_recv_store_msg_inv d_recv_find_value_inv d_recv_find_value_reply_inv d_rdp_event_inv timers_inv)

lemma dht_steps_inv: "dht_step\<^sup>*\<^sup>* s s' \<Longrightarrow> I (d_stored s) \<Longrightarrow> I (d_stored s')"
  by (induction rule: rtranclp_induct) (auto dest: dht_step_inv)

end

interpretation wf: table_invariant stored_wf
  by unfold_locales (rule table_step_wf)

interpretation reached: table_invariant "table_step\<^sup>*\<^sup>* st" for st
  by unfold_locales (rule rtranclp.rtrancl_into_rtrancl)

end
