(* ===== verification/Dht_Rdp.thy ===== *)
theory Dht_Rdp
  imports Dht_Table Rdp_Inv
begin

section \<open>Values that arrive over RDP\<close>

text \<open>
  A store request is a header, the key and the value, each sent in segments of at most the size
  the connection allows.  The segments arrive in order but in any number of batches, with one
  event per batch.
\<close>

subsection \<open>Reading from a connection\<close>

abbreviation bytes_of :: "packetbuf list \<Rightarrow> u8 list" where
  "bytes_of q \<equiv> concat (map pbuf_bytes q)"

definition queue :: "int \<Rightarrow> dht \<Rightarrow> packetbuf list" where
  "queue d s = (case ord_find (m_desc2conn (d_rdp s)) d of None \<Rightarrow> [] | Some p \<Rightarrow> rqueue (heap (d_rdp s) p))"

definition set_queue :: "int \<Rightarrow> packetbuf list \<Rightarrow> dht \<Rightarrow> dht" where
  "set_queue d q s =
     (case ord_find (m_desc2conn (d_rdp s)) d of None \<Rightarrow> s | Some p \<Rightarrow> s\<lparr>d_rdp := upd_con p (\<lambda>c. c\<lparr>rqueue := q\<rparr>) (d_rdp s)\<rparr>)"

definition has_con :: "int \<Rightarrow> dht \<Rightarrow> bool" where
  "has_con d s \<longleftrightarrow> ord_find (m_desc2conn (d_rdp s)) d \<noteq> None"

lemma d_receive_eq: "d_receive d n s = (let (bs, q) = receive_loop (queue d s) n [] in (bs, set_queue d q s))"
  by (auto simp: d_receive_def receive_def queue_def set_queue_def split: option.split prod.split)

lemma queue_set [simp]: "has_con d s \<Longrightarrow> queue d (set_queue d q s) = q"
  by (auto simp: has_con_def queue_def set_queue_def upd_con_def)

lemma has_con_set [simp]: "has_con d (set_queue d q s) = has_con d s"
  by (auto simp: has_con_def set_queue_def upd_con_def split: option.split)

lemma set_queue_twice [simp]: "set_queue d q (set_queue d q' s) = set_queue d q s"
  by (auto simp: set_queue_def upd_con_def split: option.split)

lemma set_queue_simps [simp]:
  "d_stored (set_queue d q s) = d_stored s" "d_recv_store (set_queue d q s) = d_recv_store s" "d_funcs (set_queue d q s) = d_funcs s"
  "d_junk (set_queue d q s) = d_junk s"
  by (simp_all add: set_queue_def split: option.split)

lemma receive_loop_split:
  "\<lbrakk>\<forall>p \<in> set (xs @ ys). nonempty p; length acc + length (bytes_of xs) \<le> n; ys = [] \<or> length acc + length (bytes_of xs) = n\<rbrakk> \<Longrightarrow>
   receive_loop (xs @ ys) (int n) acc = (acc @ bytes_of xs, ys)"
proof (induction xs arbitrary: acc)
  case Nil
  then show ?case by (cases ys) (auto simp: nonempty_def)
next
  case (Cons x xs)
  have "receive_loop (xs @ ys) (int n) (acc @ pbuf_bytes x) = ((acc @ pbuf_bytes x) @ bytes_of xs, ys)"
    using Cons.prems by (intro Cons.IH) auto
  moreover have "int (length acc) + m_len x \<le> int n" using Cons.prems by (auto simp: nonempty_def)
  ultimately show ?case by simp
qed

lemma d_receive_split:
  assumes "queue d s = xs @ ys" "\<forall>p \<in> set (xs @ ys). nonempty p" "length (bytes_of xs) \<le> n" "ys = [] \<or> length (bytes_of xs) = n"
  shows "d_receive d (int n) s = (bytes_of xs, set_queue d ys s)"
  using receive_loop_split [of xs ys "[]" n] assms by (simp add: d_receive_eq)

lemma bytes_of_nonempty: "\<forall>p \<in> set xs. nonempty p \<Longrightarrow> xs \<noteq> [] \<Longrightarrow> bytes_of xs \<noteq> []"
  by (cases xs) (auto simp: nonempty_bytes)

lemma queued_bytes_eq: "queued_bytes d (d_rdp s) = length (bytes_of (queue d s))"
  by (simp add: queued_bytes_def queue_def split: option.split)

subsection \<open>Receiving a store request\<close>

text \<open>The node while a request is being read: its object and its unread segments.\<close>

definition reading :: "int \<Rightarrow> recv_store \<Rightarrow> packetbuf list \<Rightarrow> dht \<Rightarrow> dht" where
  "reading d r q s = put_recv_store d r (set_queue d q s)"

lemma ord_ins_twice [simp]: "ord_ins k v (ord_ins k w m) = ord_ins k v m"
  by (induction k w m rule: ord_ins.induct) auto

lemma put_recv_store_queue [simp]:
  "queue d (put_recv_store e r s) = queue d s" "has_con d (put_recv_store e r s) = has_con d s"
  "set_queue d q (put_recv_store e r s) = put_recv_store e r (set_queue d q s)"
  by (simp_all add: queue_def set_queue_def has_con_def put_recv_store_def split: option.split)

lemma reading_simps [simp]:
  "ord_find (d_recv_store (reading d r q s)) d = Some r" "put_recv_store d r' (reading d r q s) = reading d r' q s"
  "set_queue d q' (reading d r q s) = reading d r q' s" "d_stored (reading d r q s) = d_stored s"
  "has_con d s \<Longrightarrow> queue d (reading d r q s) = q"
  by (simp_all add: reading_def ord_find_ins) (simp_all add: put_recv_store_def ord_find_ins)

lemma read_reading:
  assumes "has_con d s" "q = xs @ ys" "\<forall>p \<in> set q. nonempty p" "length (bytes_of xs) \<le> n" "ys = [] \<or> length (bytes_of xs) = n"
  shows "d_receive d (int n) (reading d r q s) = (bytes_of xs, reading d r ys s)"
  using d_receive_split [of d "reading d r q s" xs ys n] assms by simp

text \<open>What is known once \<open>x\<close>, a part of key and value, has been read.\<close>

definition read_so_far :: "int \<Rightarrow> recv_store \<Rightarrow> u8 list \<Rightarrow> recv_store" where
  "read_so_far t r x = r\<lparr>rs_key := take (unat (rs_keylen r)) x, rs_value := drop (unat (rs_keylen r)) x, rs_last := t\<rparr>"

lemma read_so_far_simps [simp]:
  "rs_keylen (read_so_far t r x) = rs_keylen r" "rs_valuelen (read_so_far t r x) = rs_valuelen r" "rs_hdr_read (read_so_far t r x) = rs_hdr_read r"
  "rs_key (read_so_far t r x) = take (unat (rs_keylen r)) x" "rs_value (read_so_far t r x) = drop (unat (rs_keylen r)) x"
  "read_so_far t (read_so_far t' r y) x = read_so_far t r x"
  by (simp_all add: read_so_far_def)

text \<open>The whole request: closing the connection after storing.\<close>

definition request_stored :: "int \<Rightarrow> int \<Rightarrow> recv_store \<Rightarrow> dht \<Rightarrow> dht option" where
  "request_stored t d r s = do {
     st \<leftarrow> store2local t r (d_stored s);
     erase_recv_store d (d_set_stored st s)
   }"

lemma key_step:
  assumes "has_con d s" "rs_hdr_read r" "length x + length (bytes_of xs) \<le> unat (rs_keylen r)"
    and "\<forall>p \<in> set (xs @ ys). nonempty p" "xs \<noteq> []" "ys = [] \<or> length x + length (bytes_of xs) = unat (rs_keylen r)"
  shows "rs_step t d (reading d (read_so_far t' r x) (xs @ ys) s) = Some (True, reading d (read_so_far t r (x @ bytes_of xs)) ys s)"
proof -
  have ne: "bytes_of xs \<noteq> []" using bytes_of_nonempty [of xs] assms(4,5) by simp
  then have len: "length x < unat (rs_keylen r)" using assms(3) by (cases "bytes_of xs") auto
  have "d_receive d (int (unat (rs_keylen r) - length x)) (reading d (read_so_far t' r x) (xs @ ys) s) = (bytes_of xs, reading d (read_so_far t' r x) ys s)"
    using assms len by (intro read_reading) auto
  then have rd: "d_receive d (int (unat (rs_keylen r)) - int (length x)) (reading d (read_so_far t' r x) (xs @ ys) s) = (bytes_of xs, reading d (read_so_far t' r x) ys s)"
    using len by (simp add: of_nat_diff)
  have "read_so_far t r (x @ bytes_of xs) = (read_so_far t' r x)\<lparr>rs_key := x @ bytes_of xs, rs_last := t\<rparr>"
    using assms(3) len by (simp add: read_so_far_def)
  then show ?thesis using rd ne len assms(2) by (simp add: rs_step_def rs_read_body_def Let_def)
qed

lemma value_step:
  assumes "has_con d s" "rs_hdr_read r" "unat (rs_keylen r) \<le> length x" "length x + length (bytes_of xs) \<le> unat (rs_keylen r) + unat (rs_valuelen r)"
    and "\<forall>p \<in> set xs. nonempty p" "xs \<noteq> []"
  shows "rs_step t d (reading d (read_so_far t' r x) xs s) =
    (if length x + length (bytes_of xs) = unat (rs_keylen r) + unat (rs_valuelen r)
     then map_option (Pair False) (request_stored t d (read_so_far t r (x @ bytes_of xs)) (reading d (read_so_far t' r x) [] s))
     else Some (True, reading d (read_so_far t r (x @ bytes_of xs)) [] s))"
proof -
  have ne: "bytes_of xs \<noteq> []" using bytes_of_nonempty [of xs] assms(5,6) by simp
  let ?n = "unat (rs_valuelen r) - (length x - unat (rs_keylen r))"
  have "d_receive d (int ?n) (reading d (read_so_far t' r x) (xs @ []) s) = (bytes_of xs, reading d (read_so_far t' r x) [] s)"
    using assms by (intro read_reading) auto
  moreover have "int ?n = int (unat (rs_valuelen r)) - int (length x - unat (rs_keylen r))" using assms(3,4) by (simp add: of_nat_diff)
  ultimately have rd: "d_receive d (int (unat (rs_valuelen r)) - int (length x - unat (rs_keylen r))) (reading d (read_so_far t' r x) xs s) =
      (bytes_of xs, reading d (read_so_far t' r x) [] s)" by simp
  have "read_so_far t r (x @ bytes_of xs) = (read_so_far t' r x)\<lparr>rs_value := drop (unat (rs_keylen r)) x @ bytes_of xs, rs_last := t\<rparr>"
    using assms(3) by (simp add: read_so_far_def)
  moreover have "length (drop (unat (rs_keylen r)) x @ bytes_of xs) = unat (rs_valuelen r) \<longleftrightarrow>
      length x + length (bytes_of xs) = unat (rs_keylen r) + unat (rs_valuelen r)" using assms(3) by auto
  moreover have "\<not> length (take (unat (rs_keylen r)) x) < unat (rs_keylen r)" using assms(3) by simp
  ultimately show ?thesis
    using rd ne assms(2) by (cases "length x + length (bytes_of xs) = unat (rs_keylen r) + unat (rs_valuelen r)")
      (auto simp: rs_step_def rs_read_body_def Let_def request_stored_def split: Option.bind_splits)
qed

lemma idle_step: "has_con d s \<Longrightarrow> rs_hdr_read r \<Longrightarrow> rs_step t d (reading d r [] s) = Some (False, reading d r [] s)"
  by (simp add: rs_step_def rs_read_body_def d_receive_eq)

text \<open>Key and value are in separate segments.\<close>

definition aligned :: "nat \<Rightarrow> u8 list \<Rightarrow> packetbuf list \<Rightarrow> bool" where
  "aligned k x rest \<longleftrightarrow> (length x < k \<longrightarrow> (\<exists>ks vs. rest = ks @ vs \<and> length x + length (bytes_of ks) = k))"

lemma aligned_append: "aligned k x (b @ rest) \<Longrightarrow> aligned k (x @ bytes_of b) rest"
proof (cases "length (x @ bytes_of b) < k")
  case True
  assume "aligned k x (b @ rest)"
  then obtain ks vs where "b @ rest = ks @ vs" "length x + length (bytes_of ks) = k" using True by (auto simp: aligned_def)
  then show ?thesis using True by (auto simp: aligned_def append_eq_append_conv2)
qed (simp add: aligned_def)

lemma aligned_split:
  assumes "aligned k x (b @ rest)" "length x < k"
  obtains ks vs where "b = ks @ vs" "length x + length (bytes_of ks) \<le> k" "vs = [] \<or> length x + length (bytes_of ks) = k"
proof -
  obtain ks vs where "b @ rest = ks @ vs" "length x + length (bytes_of ks) = k" using assms by (auto simp: aligned_def)
  then show thesis using that [of ks] that [of b "[]"] by (auto simp: append_eq_append_conv2)
qed

definition batch_read :: "int \<Rightarrow> int \<Rightarrow> recv_store \<Rightarrow> u8 list \<Rightarrow> dht \<Rightarrow> dht option" where
  "batch_read t d r x s =
     (if length x = unat (rs_keylen r) + unat (rs_valuelen r) then request_stored t d (read_so_far t r x) (set_queue d [] s)
      else Some (reading d (read_so_far t r x) [] s))"

lemma ord_del_absent: "k \<notin> fst ` set m \<Longrightarrow> ord_del k m = m"
  by (induction k m rule: ord_del.induct) auto

lemma ord_del_ins: "ord_wf m \<Longrightarrow> ord_del k (ord_ins k v m) = ord_del k m"
proof (induction k v m rule: ord_ins.induct)
  case (2 k v k' v' m)
  then have "k < k' \<Longrightarrow> k \<notin> fst ` set m" by (force simp: ord_wf_Cons)
  then show ?case using 2 by (auto simp: ord_wf_Cons ord_del_absent)
qed simp

lemma request_stored_reading: "ord_wf (d_recv_store s) \<Longrightarrow> request_stored t d r (reading d r' q s) = request_stored t d r (set_queue d q s)"
proof -
  assume wf: "ord_wf (d_recv_store s)"
  have "erase_recv_store d (d_set_stored st (put_recv_store d r' s)) = erase_recv_store d (d_set_stored st s)" if "ord_wf (d_recv_store s)" for st s
    using that by (simp add: erase_recv_store_def put_recv_store_def d_set_stored_def ord_del_ins)
  then show ?thesis using wf by (simp add: request_stored_def reading_def)
qed

lemma value_batch:
  assumes "has_con d s" "rs_hdr_read r" "unat (rs_keylen r) \<le> length x" "length x + length (bytes_of b) \<le> unat (rs_keylen r) + unat (rs_valuelen r)"
    and "\<forall>p \<in> set b. nonempty p" "b \<noteq> []" "length (bytes_of b) \<le> n" "ord_wf (d_recv_store s)"
  shows "read_loop (Suc n) (rs_step t d) (reading d (read_so_far t' r x) b s) = batch_read t d r (x @ bytes_of b) s"
proof -
  have "0 < length (bytes_of b)" using bytes_of_nonempty [of b] assms(5,6) by simp
  then obtain m where m: "n = Suc m" using assms(7) by (cases n) auto
  have idle: "rs_step t d (reading d (read_so_far t r y) [] s) = Some (False, reading d (read_so_far t r y) [] s)" for y
    using assms(1,2) by (intro idle_step) simp_all
  show ?thesis
    using value_step [OF assms(1-6), of t t'] idle request_stored_reading [OF assms(8)]
    by (cases "request_stored t d (read_so_far t r (x @ bytes_of b)) (set_queue d [] s)") (auto simp: m batch_read_def)
qed

lemma body_batch:
  assumes "has_con d s" "rs_hdr_read r" "aligned (unat (rs_keylen r)) x (b @ rest)"
    and len: "length x + length (bytes_of b) \<le> unat (rs_keylen r) + unat (rs_valuelen r)" and valuelen: "rs_valuelen r \<noteq> 0"
    and ne: "\<forall>p \<in> set b. nonempty p" "b \<noteq> []" and fuel: "length (bytes_of b) \<le> n" and wf: "ord_wf (d_recv_store s)"
  shows "read_loop (Suc n) (rs_step t d) (reading d (read_so_far t' r x) b s) = batch_read t d r (x @ bytes_of b) s"
proof (cases "length x < unat (rs_keylen r)")
  case False
  then show ?thesis using value_batch [of d s r x b n t t'] assms by simp
next
  case True
  then obtain ks vs where ks: "b = ks @ vs" "length x + length (bytes_of ks) \<le> unat (rs_keylen r)" "vs = [] \<or> length x + length (bytes_of ks) = unat (rs_keylen r)"
    using aligned_split [OF assms(3)] by metis
  have "ks \<noteq> []" using ks True ne(2) by auto
  then have pos: "0 < length (bytes_of ks)" using bytes_of_nonempty [of ks] ne(1) ks(1) by simp
  then obtain m where m: "n = Suc m" using fuel ks(1) by (cases n) auto
  have step: "rs_step t d (reading d (read_so_far t' r x) b s) = Some (True, reading d (read_so_far t r (x @ bytes_of ks)) vs s)"
    unfolding ks(1) using assms(1,2) ks ne(1) \<open>ks \<noteq> []\<close> by (intro key_step) auto
  show ?thesis
  proof (cases "vs = []")
    case True
    have "0 < unat (rs_valuelen r)" using valuelen by (simp add: unat_gt_0)
    then have "length x + length (bytes_of ks) < unat (rs_keylen r) + unat (rs_valuelen r)" using ks(2) by linarith
    then show ?thesis using True step ks(1) assms(1,2) idle_step [of d s "read_so_far t r (x @ bytes_of ks)" t] by (simp add: m batch_read_def)
  next
    case False
    have "length (bytes_of b) = length (bytes_of ks) + length (bytes_of vs)" by (simp add: ks(1))
    then have "length (bytes_of vs) \<le> m" using fuel pos m by linarith
    then have "read_loop (Suc m) (rs_step t d) (reading d (read_so_far t r (x @ bytes_of ks)) vs s) = batch_read t d r ((x @ bytes_of ks) @ bytes_of vs) s"
      using assms(1,2) ks len ne(1) False wf by (intro value_batch) auto
    then show ?thesis using step ks(1) by (simp add: m)
  qed
qed

subsection \<open>From header to table\<close>

text \<open>The fields of the header, which a store datagram has behind its own.\<close>

lemma rdp_store_hdr_fields:
  assumes "length (sf_id f) = 5" "length i = 5"
  shows "\<exists>h. rdp_store_hdr f i = Some h \<and> length h = 48 \<and> id_at 0 (h @ rest) = sf_id f \<and> id_at 20 (h @ rest) = i \<and>
    u16_at 40 (h @ rest) = of_nat (length (sf_key f)) \<and> u16_at 42 (h @ rest) = of_nat (length (sf_value f)) \<and>
    u16_at 44 (h @ rest) = sf_ttl f \<and> u8_at 46 (h @ rest) = store_flags (sf_unique f)"
proof -
  obtain x y where xy: "id_bytes (sf_id f) = Some x" "id_bytes i = Some y" using assms by (simp add: id_bytes_eq)
  have l: "length x = 20" "length y = 20" using xy assms length_id_bytes by blast+
  have a: "id_at 0 (x @ r) = sf_id f" "id_at 0 (y @ r) = i" for r using xy assms id_at_bytes by blast+
  show ?thesis using xy l a by (simp add: rdp_store_hdr_def at_simps numeral_eq_Suc)
qed

lemma unique_of_flags: "unique_of (store_flags u) junk \<longleftrightarrow> u \<or> junk"
  by (simp add: unique_of_def store_flags_def dht_flag_unique_def)

definition hdr_taken :: "int \<Rightarrow> store_func \<Rightarrow> recv_store \<Rightarrow> recv_store" where
  "hdr_taken t f r = r\<lparr>rs_keylen := of_nat (length (sf_key f)), rs_valuelen := of_nat (length (sf_value f)), rs_ttl := sf_ttl f, rs_id := sf_id f,
     rs_src := sf_from f, rs_last := t, rs_hdr_read := True, rs_unique := (sf_unique f \<or> rs_unique r)\<rparr>"

definition rdp_sendable :: "store_func \<Rightarrow> bool" where
  "rdp_sendable f \<longleftrightarrow> length (sf_id f) = 5 \<and> length (sf_from f) = 5 \<and> 0 < length (sf_key f) \<and> length (sf_key f) < 2 ^ 16 \<and>
     0 < length (sf_value f) \<and> length (sf_value f) < 2 ^ 16"

lemma rdp_sendable_lengths:
  assumes "rdp_sendable f"
  shows "unat (of_nat (length (sf_key f)) :: u16) = length (sf_key f)" "unat (of_nat (length (sf_value f)) :: u16) = length (sf_value f)"
  using assms by (simp_all add: rdp_sendable_def unat_of_nat)

lemma header_step:
  assumes "has_con d s" "rdp_sendable f" "rdp_store_hdr f (sf_from f) = Some (pbuf_bytes hseg)" "\<not> rs_hdr_read r" "rs_key r = []" "rs_value r = []"
    and "\<forall>p \<in> set b. nonempty p"
  shows "rs_step t d (reading d r (hseg # b) s) = Some (True, reading d (read_so_far t (hdr_taken t f r) []) b s)"
proof -
  let ?h = "pbuf_bytes hseg"
  have h: "length ?h = 48" "id_at 0 ?h = sf_id f" "id_at 20 ?h = sf_from f" "u16_at 40 ?h = of_nat (length (sf_key f))"
    "u16_at 42 ?h = of_nat (length (sf_value f))" "u16_at 44 ?h = sf_ttl f" "u8_at 46 ?h = store_flags (sf_unique f)"
    using rdp_store_hdr_fields [of f "sf_from f" "[]"] assms(2,3) by (auto simp: rdp_sendable_def)
  have "nonempty hseg" using h(1) by (auto simp: nonempty_def)
  then have "d_receive d (int 48) (reading d r ([hseg] @ b) s) = (bytes_of [hseg], reading d r b s)"
    using assms(1,7) h(1) by (intro read_reading) auto
  then have rd: "d_receive d 48 (reading d r (hseg # b) s) = (?h, reading d r b s)" by simp
  have nz: "(of_nat (length (sf_key f)) :: u16) \<noteq> 0" "(of_nat (length (sf_value f)) :: u16) \<noteq> 0"
    using rdp_sendable_lengths [OF assms(2)] assms(2) by (auto simp: rdp_sendable_def simp flip: unat_0_iff)
  have "read_so_far t (hdr_taken t f r) [] = r\<lparr>rs_keylen := of_nat (length (sf_key f)), rs_valuelen := of_nat (length (sf_value f)), rs_ttl := sf_ttl f,
      rs_id := sf_id f, rs_src := sf_from f, rs_last := t, rs_hdr_read := True, rs_unique := (sf_unique f \<or> rs_unique r)\<rparr>"
    using assms(5,6) by (simp add: read_so_far_def hdr_taken_def)
  then show ?thesis using rd h nz assms(4) by (simp add: rs_step_def rs_read_hdr_def unique_of_flags)
qed

text \<open>A batch of segments arrives and the callback is told so.\<close>

definition arrive :: "int \<Rightarrow> rdp_addr \<Rightarrow> int \<times> packetbuf list \<Rightarrow> dht \<Rightarrow> dht option" where
  "arrive d a b s = rdp_recv_store_event (fst b) d a READY2READ (set_queue d (queue d s @ snd b) s)"

lemma arrive_reading:
  "has_con d s \<Longrightarrow> arrive d a (t, b) (reading d r [] s) = read_loop (Suc (length (bytes_of b))) (rs_step t d) (reading d r b s)"
  by (simp add: arrive_def rdp_recv_store_event_def queued_bytes_eq del: read_loop.simps)

lemma body_batches:
  assumes "has_con d s" "rs_hdr_read r" "rs_valuelen r \<noteq> 0" "ord_wf (d_recv_store s)"
    and "bs \<noteq> []" "\<forall>b \<in> set bs. snd b \<noteq> []" "\<forall>p \<in> set (concat (map snd bs)). nonempty p"
    and "aligned (unat (rs_keylen r)) x (concat (map snd bs))"
    and "length x + length (bytes_of (concat (map snd bs))) = unat (rs_keylen r) + unat (rs_valuelen r)"
  shows "run_steps (arrive d a) bs (reading d (read_so_far t' r x) [] s) =
    request_stored (fst (last bs)) d (read_so_far (fst (last bs)) r (x @ bytes_of (concat (map snd bs)))) (set_queue d [] s)"
  using assms(5-9)
proof (induction bs arbitrary: x t')
  case (Cons tb bs)
  obtain t b where tb: "tb = (t, b)" by (cases tb)
  let ?rest = "concat (map snd bs)"
  have one: "arrive d a tb (reading d (read_so_far t' r x) [] s) = batch_read t d r (x @ bytes_of b) s"
    unfolding tb arrive_reading [OF assms(1)] using assms(1-4) Cons.prems tb
    by (intro body_batch [where rest = "?rest"]) auto
  show ?case
  proof (cases "bs = []")
    case True
    then show ?thesis using one Cons.prems(5) by (simp add: tb batch_read_def split: option.split)
  next
    case False
    have "?rest \<noteq> []" using False Cons.prems(2) by (cases bs) auto
    then have "0 < length (bytes_of ?rest)" unfolding length_greater_0_conv using Cons.prems(3) by (intro bytes_of_nonempty) auto
    moreover have "length (bytes_of (concat (map snd (tb # bs)))) = length (bytes_of b) + length (bytes_of ?rest)" by (simp add: tb)
    ultimately have "length (x @ bytes_of b) \<noteq> unat (rs_keylen r) + unat (rs_valuelen r)" using Cons.prems(5) unfolding length_append by linarith
    then have "arrive d a tb (reading d (read_so_far t' r x) [] s) = Some (reading d (read_so_far t r (x @ bytes_of b)) [] s)"
      using one by (simp add: batch_read_def)
    moreover have "run_steps (arrive d a) bs (reading d (read_so_far t r (x @ bytes_of b)) [] s) =
        request_stored (fst (last bs)) d (read_so_far (fst (last bs)) r ((x @ bytes_of b) @ bytes_of ?rest)) (set_queue d [] s)"
      using Cons.prems False aligned_append [of _ x b ?rest] by (intro Cons.IH) (auto simp: tb)
    ultimately show ?thesis using False by (simp add: tb)
  qed
qed simp

text \<open>What the receiver makes of a request; \<open>junk\<close> is what its object held as \<^verbatim>\<open>is_unique\<close>.\<close>

definition received :: "int \<Rightarrow> store_func \<Rightarrow> bool \<Rightarrow> stored_data" where
  "received t f junk = \<lparr>se_key = sf_key f, se_value = sf_value f, se_id = sf_id f, se_src = sf_from f, se_unique = (sf_unique f \<or> junk),
     se_recvd = {}, se_time = t, se_original = 0, se_ttl = sf_ttl f\<rparr>"

lemma close_total:
  assumes "\<And>p. ord_find (m_desc2conn r) d = Some p \<Longrightarrow> rwnd_inv (heap r p)"
  shows "close d r \<noteq> None"
proof (cases "ord_find (m_desc2conn r) d")
  case (Some p)
  obtain c' os where "delayed_ack (clock r) (heap r p) = Some (c', os)" using delayed_ack_total [OF assms [OF Some]] by blast
  then show ?thesis using Some by (auto simp: close_def on_con_def Let_def split: rdp_state.split)
qed (simp add: close_def)

lemma request_stored_total:
  assumes "store2local t r (d_stored s) = Some st" "ord_find (m_desc2conn (d_rdp s)) d = Some p" "rwnd_inv (heap (d_rdp s) p)" "ord_wf (d_recv_store s)"
  shows "\<exists>s'. request_stored t d r (set_queue d q s) = Some s' \<and> d_stored s' = st \<and> ord_find (d_recv_store s') d = None"
proof -
  let ?r = "upd_con p (\<lambda>c. c\<lparr>rqueue := q\<rparr>) (d_rdp s)"
  have "rwnd_inv (c\<lparr>rqueue := q\<rparr>) = rwnd_inv c" for c by (simp add: rwnd_inv_def rwnd_ok_def rview_def)
  then have "close d ?r \<noteq> None" using assms(2,3) by (intro close_total) (simp add: upd_con_def)
  then obtain r' where "close d ?r = Some r'" by blast
  then show ?thesis
    using assms by (simp add: request_stored_def set_queue_def erase_recv_store_def d_close_def d_set_stored_def ord_find_del)
qed

lemma hdr_taken_lens:
  assumes "rdp_sendable f"
  shows "unat (rs_keylen (hdr_taken t f r)) = length (sf_key f)" "unat (rs_valuelen (hdr_taken t f r)) = length (sf_value f)"
    "rs_hdr_read (hdr_taken t f r)" "rs_valuelen (hdr_taken t f r) \<noteq> 0"
  using rdp_sendable_lengths [OF assms] assms by (auto simp: hdr_taken_def rdp_sendable_def)

text \<open>The batch that brings the header, with segments behind it or without.\<close>

lemma header_batch:
  assumes f: "rdp_sendable f" "rdp_store_hdr f (sf_from f) = Some (pbuf_bytes hseg)" and ne: "\<forall>p \<in> set b. nonempty p"
    and s: "has_con d s" "ord_wf (d_recv_store s)" and r: "\<not> rs_hdr_read r" "rs_key r = []" "rs_value r = []"
    and al: "aligned (length (sf_key f)) [] (b @ rest)" and len: "length (bytes_of b) \<le> length (sf_key f) + length (sf_value f)"
  shows "arrive d a (t, hseg # b) (reading d r [] s) = batch_read t d (hdr_taken t f r) (bytes_of b) s"
proof -
  let ?r = "hdr_taken t f r" and ?n = "nat (m_len hseg) - 1 + length (bytes_of b)"
  note lens = hdr_taken_lens [OF f(1), of t r]
  have "nonempty hseg" using f(1,2) rdp_store_hdr_fields [of f "sf_from f" "[]"] by (auto simp: rdp_sendable_def nonempty_def)
  then have fuel: "length (bytes_of (hseg # b)) = Suc ?n" by (simp add: nonempty_def)
  have first: "arrive d a (t, hseg # b) (reading d r [] s) = read_loop (Suc ?n) (rs_step t d) (reading d (read_so_far t ?r []) b s)"
    unfolding arrive_reading [OF s(1)] fuel read_loop.simps(2) [of "Suc ?n"] header_step [OF s(1) f r ne] by simp
  show ?thesis
  proof (cases "b = []")
    case True
    then show ?thesis using first idle_step [OF s(1), of "read_so_far t ?r []" t] lens f(1) by (auto simp: batch_read_def rdp_sendable_def)
  next
    case False
    then show ?thesis
      unfolding first using s lens ne al len body_batch [of d s ?r "[]" b rest ?n t t] by simp
  qed
qed

lemma request_read:
  assumes f: "rdp_sendable f" "rdp_store_hdr f (sf_from f) = Some (pbuf_bytes hseg)" "bytes_of ks = sf_key f" "bytes_of vs = sf_value f"
    and ne: "\<forall>p \<in> set (ks @ vs). nonempty p" and bs: "concat (map snd bs) = hseg # ks @ vs" "\<forall>b \<in> set bs. snd b \<noteq> []"
    and s: "has_con d s" "ord_wf (d_recv_store s)" and r: "\<not> rs_hdr_read r" "rs_key r = []" "rs_value r = []"
  shows "run_steps (arrive d a) bs (reading d r [] s) = request_stored (fst (last bs)) d
    (read_so_far (fst (last bs)) (hdr_taken (fst (hd bs)) f r) (sf_key f @ sf_value f)) (set_queue d [] s)"
proof -
  obtain t b0 bs' where b0: "bs = (t, b0) # bs'" using bs(1) by (cases bs) auto
  moreover have "b0 \<noteq> []" using bs(2) b0 by simp
  ultimately obtain b where b: "bs = (t, hseg # b) # bs'" "b @ concat (map snd bs') = ks @ vs" using bs(1) by (cases b0) auto
  let ?r = "hdr_taken t f r" and ?rest = "concat (map snd bs')"
  note lens = hdr_taken_lens [OF f(1), of t r]
  have al: "aligned (length (sf_key f)) [] (b @ ?rest)" using f(3) unfolding b(2) aligned_def by auto
  have all: "bytes_of b @ bytes_of ?rest = sf_key f @ sf_value f"
    using arg_cong [OF b(2), of bytes_of] f(3,4) by simp
  note total = arg_cong [OF all, of length, unfolded length_append]
  have ne': "\<forall>p \<in> set b. nonempty p" "\<forall>p \<in> set ?rest. nonempty p" using ne arg_cong [OF b(2), of set] by auto
  have "arrive d a (t, hseg # b) (reading d r [] s) = batch_read t d ?r (bytes_of b) s"
    using total by (intro header_batch [OF f(1,2) ne'(1) s r al]) linarith
  moreover have ?thesis if "bs' = []" "arrive d a (t, hseg # b) (reading d r [] s) = batch_read t d ?r (bytes_of b) s"
    using that all total lens by (simp add: b(1) batch_read_def split: option.split)
  moreover have ?thesis if "bs' \<noteq> []" "arrive d a (t, hseg # b) (reading d r [] s) = batch_read t d ?r (bytes_of b) s"
  proof -
    have "?rest \<noteq> []" using that(1) bs(2) b(1) by (cases bs') auto
    then have "0 < length (bytes_of ?rest)" unfolding length_greater_0_conv using ne'(2) by (intro bytes_of_nonempty)
    then have "length (bytes_of b) \<noteq> length (sf_key f) + length (sf_value f)" using total by linarith
    then have "arrive d a (t, hseg # b) (reading d r [] s) = Some (reading d (read_so_far t ?r (bytes_of b)) [] s)"
      using that(2) lens by (simp add: batch_read_def)
    moreover have "run_steps (arrive d a) bs' (reading d (read_so_far t ?r (bytes_of b)) [] s) =
        request_stored (fst (last bs')) d (read_so_far (fst (last bs')) ?r (bytes_of b @ bytes_of ?rest)) (set_queue d [] s)"
      using s lens bs(2) ne'(2) that(1) b(1) aligned_append [OF al] total by (intro body_batches) auto
    ultimately show ?thesis using that(1) all by (simp add: b(1))
  qed
  ultimately show ?thesis by blast
qed

end
