(* ===== verification/Dht_Value.thy ===== *)
theory Dht_Value
  imports Dht_Rdp Dtun_Request
begin

section \<open>Storing and finding a value by datagrams\<close>

text \<open>
  The messages of a store and of a value query that is answered, one lemma for each of them.
  The nodes know each other: their identifiers are in the routing tables.
\<close>

subsection \<open>Known senders\<close>

definition knows :: "dht \<Rightarrow> uint160 \<Rightarrow> bool" where
  "knows s i \<longleftrightarrow> length (d_id s) = 5 \<and> length i = 5 \<and> i \<in> m_nodes (d_rt s) \<and> peers_inv (d_peers s)"

definition d_with_peers :: "peers \<Rightarrow> dht \<Rightarrow> dht" where
  "d_with_peers p s = s\<lparr>d_dtun := (d_dtun s)\<lparr>dt_peers := p\<rparr>\<rparr>"

lemma d_add_known: "knows s (ca_id c) \<Longrightarrow> d_add c s = Some s"
  using id2i_spec [of "d_id s" "ca_id c"] by (auto simp: d_add_def rt_add_def knows_def)

lemma add_node_called: "add_node t c p = Some p' \<Longrightarrow> called p' = called p \<or> called p' = called p @ [c]"
  by (auto simp: add_node_def add_node_session_def accept_node_def call_back_def Let_def split: Option.bind_splits option.splits if_splits)

lemma d_add_peer_known:
  assumes "knows s i"
  shows "\<exists>p. d_add_peer t (inet_node i a) s = Some (d_with_peers p s) \<and> peers_inv p"
proof -
  obtain p where p: "add_node t (inet_node i a) (d_peers s) = Some p" "peers_inv p"
    using dt_add_peer_inet [of "d_dtun s" t i a] assms by (auto simp: knows_def dt_add_peer_def split: Option.bind_splits dest: arg_cong [where f = dt_peers])
  have "run_steps sync_node [inet_node i a] x = Some x" if "d_rt x = d_rt s" for x
    using that assms by (simp add: sync_node_def has_id_def knows_def inet_node_def)
  then have "d_set_peers p s = Some (d_with_peers p s)"
    using add_node_called [OF p(1)] by (auto simp: d_set_peers_def d_with_peers_def)
  then show ?thesis using p by (intro exI [of _ p]) (simp add: d_add_peer_def)
qed

lemma d_with_peers_simps [simp]:
  "d_rt (d_with_peers p s) = d_rt s" "d_stored (d_with_peers p s) = d_stored s" "d_peers (d_with_peers p s) = p" "d_junk (d_with_peers p s) = d_junk s"
  "d_order (d_with_peers p s) = d_order s" "d_heap (d_with_peers p s) = d_heap s" "d_query (d_with_peers p s) = d_query s"
  "d_use_rdp (d_with_peers p s) = d_use_rdp s" "d_results (d_with_peers p s) = d_results s"
  "dt_out (d_dtun (d_with_peers p s)) = dt_out (d_dtun s)"
  by (simp_all add: d_with_peers_def)

lemma knows_with_peers: "knows s j \<Longrightarrow> peers_inv p \<Longrightarrow> knows (d_with_peers p s) j"
  by (simp add: knows_def)

subsection \<open>Messages\<close>

definition dht_msg :: "u8 list \<Rightarrow> u8 \<Rightarrow> uint160 \<Rightarrow> uint160 \<Rightarrow> u8 list \<Rightarrow> bool" where
  "dht_msg m ty src dst body \<longleftrightarrow> hdr_at m = new_hdr ty (48 + length body) src dst \<and> drop 48 m = body \<and> length m = 48 + length body"

lemma send_msg_inet:
  assumes "length src = 5" "length i = 5"
  shows "\<exists>m. send_msg body ty (inet_node i a) src = Some [(m, In a)] \<and> dht_msg m ty src i body"
proof -
  obtain h where h: "hdr_bytes (new_hdr ty (48 + length body) src i) = Some h" using hdr_total [OF assms] by force
  then show ?thesis
    using hdr_fields [OF assms h] by (simp add: send_msg_def dht_msg_def hdr_size_def inet_node_def)
qed

lemma dht_msg_at:
  assumes "dht_msg m ty src dst body" "48 \<le> off"
  shows "u32_at off m = u32_at (off - 48) body" "u16_at off m = u16_at (off - 48) body" "id_at off m = id_at (off - 48) body" "drop off m = drop (off - 48) body"
  using assms at_drop [of "off - 48" 48 m] by (simp_all add: dht_msg_def) (metis drop_drop le_add_diff_inverse2)

lemma dht_msg_u8: "dht_msg m ty src dst body \<Longrightarrow> 48 \<le> off \<Longrightarrow> off < 48 + length body \<Longrightarrow> u8_at off m = u8_at (off - 48) body"
  using nth_drop [of 48 m "off - 48"] by (simp add: dht_msg_def u8_at_def)

lemma dht_msg_hdr:
  assumes "dht_msg m ty src dst body"
  shows "hd_src (hdr_at m) = src" "hd_dst (hdr_at m) = dst" "new_cageaddr m (In a) = Some (inet_node src a)"
  using assms by (simp_all add: dht_msg_def new_hdr_def new_cageaddr_in)

lemma store_msg_fields:
  assumes m: "dht_msg m ty src dst body" "msg_dht_store f i = Some body" and len: "length (sf_id f) = 5" "length i = 5"
    and short: "length (sf_key f) < 2 ^ 16" "length (sf_value f) < 2 ^ 16"
  shows "unat (u16_at 88 m) = length (sf_key f)" "unat (u16_at 90 m) = length (sf_value f)" "length m = 96 + length (sf_key f) + length (sf_value f)"
    "id_at 48 m = sf_id f" "id_at 68 m = i" "u16_at 92 m = sf_ttl f" "u8_at 94 m = store_flags (sf_unique f)"
    "drop 96 m = sf_key f @ sf_value f"
proof -
  obtain h where h: "rdp_store_hdr f i = Some h" "length h = 48" using rdp_store_hdr_fields [OF len] by blast
  have at: "id_at 0 (h @ r) = sf_id f" "id_at 20 (h @ r) = i" "u16_at 40 (h @ r) = of_nat (length (sf_key f))"
    "u16_at 42 (h @ r) = of_nat (length (sf_value f))" "u16_at 44 (h @ r) = sf_ttl f" "u8_at 46 (h @ r) = store_flags (sf_unique f)" for r
    using rdp_store_hdr_fields [OF len, of r] h(1) by simp_all
  have body: "body = h @ sf_key f @ sf_value f" using m(2) h(1) by (simp add: msg_dht_store_def)
  then have l: "length body = 48 + length (sf_key f) + length (sf_value f)" using h(2) by simp
  note f = dht_msg_at [OF m(1)] dht_msg_u8 [OF m(1)]
  show "unat (u16_at 88 m) = length (sf_key f)" "unat (u16_at 90 m) = length (sf_value f)"
    using short at by (simp_all add: f body unat_of_nat)
  show "length m = 96 + length (sf_key f) + length (sf_value f)" using m(1) l by (simp add: dht_msg_def)
  show "id_at 48 m = sf_id f" "id_at 68 m = i" "u16_at 92 m = sf_ttl f" using at by (simp_all add: f body)
  show "u8_at 94 m = store_flags (sf_unique f)" using f(5) [of 94] l at by (simp add: body)
  show "drop 96 m = sf_key f @ sf_value f" using h(2) by (simp add: f body)
qed

text \<open>The receiver of a store message puts exactly what the sender stored, as coming from it.\<close>

lemma recv_store_msg:
  assumes m: "dht_msg m type_dht_store src (d_id s) body" "msg_dht_store f src = Some body" and len: "length (sf_id f) = 5" "knows s src"
    and short: "length (sf_key f) < 2 ^ 16" "length (sf_value f) < 2 ^ 16"
  shows "\<exists>p. peers_inv p \<and> d_recv_store_msg t m (In a) s =
    map_option (\<lambda>st. d_set_stored st (d_with_peers p s)) (put_sdata (received t (f\<lparr>sf_from := src\<rparr>) (se_unique (d_junk s))) src (d_stored s))"
proof -
  have src: "length src = 5" using len(2) by (simp add: knows_def)
  note f = store_msg_fields [OF m len(1) src short]
  obtain p where p: "d_add_peer t (inet_node src a) s = Some (d_with_peers p s)" "peers_inv p" using d_add_peer_known [OF len(2)] by blast
  have "d_add (inet_node src a) s = Some s" using len(2) by (intro d_add_known) (simp add: inet_node_def)
  moreover have "drop (96 + k) m = drop k (sf_key f @ sf_value f)" for k using f(8) by (simp add: add.commute flip: drop_drop)
  moreover have "ca_id (inet_node src a) = src" by (simp add: inet_node_def)
  ultimately show ?thesis
    using dht_msg_hdr [OF m(1)] p f
    by (intro exI [of _ p]) (simp add: d_recv_store_msg_def Let_def received_def unique_of_flags map_conv_bind_option comp_def)
qed

definition find_value_msg :: "u8 list \<Rightarrow> uint160 \<Rightarrow> uint160 \<Rightarrow> u8 list \<Rightarrow> uint160 \<Rightarrow> u32 \<Rightarrow> bool" where
  "find_value_msg m src dst key i nonce \<longleftrightarrow>
     (\<exists>body. dht_msg m type_dht_find_value src dst body \<and> dht_find_value_body False key i nonce domain_inet = Some body)"

lemma find_value_fields:
  assumes "find_value_msg m src dst key i nonce" "length i = 5" "80 + length key \<le> dht_buf_size"
  shows "u32_at 48 m = nonce" "id_at 52 m = i" "unat (80 + u16_at 74 m) = length m" "u8_at 76 m = get_by_udp"
    "take (unat (u16_at 74 m)) (drop 80 m) = key" "length m = 80 + length key" "hd_src (hdr_at m) = src" "hd_dst (hdr_at m) = dst"
    "new_cageaddr m (In a) = Some (inet_node src a)"
proof -
  obtain body where m: "dht_msg m type_dht_find_value src dst body" "dht_find_value_body False key i nonce domain_inet = Some body"
    using assms(1) by (auto simp: find_value_msg_def)
  obtain b where b: "id_bytes i = Some b" using assms(2) by (simp add: id_bytes_eq)
  have lb: "length b = 20" by (rule length_id_bytes [OF assms(2) b])
  have body: "body = htonl_bytes nonce @ b @ htons_bytes domain_inet @ htons_bytes (of_nat (length key)) @ [get_by_udp, 0, 0, 0] @ key"
    using m(2) b by (simp add: dht_find_value_body_def)
  have l: "length body = 32 + length key" using lb by (simp add: body)
  have short: "length key < 2 ^ 16" using assms(3) by (simp add: dht_buf_size_def)
  note f = dht_msg_at [OF m(1)] dht_msg_u8 [OF m(1)]
  have k: "u16_at 74 m = of_nat (length key)" using lb by (simp add: f body at_append)
  show "u32_at 48 m = nonce" by (simp add: f body)
  show "id_at 52 m = i" using id_at_bytes [OF assms(2) b] by (simp add: f body at_append)
  show len: "length m = 80 + length key" using m(1) l by (simp add: dht_msg_def)
  show "unat (80 + u16_at 74 m) = length m" 
  proof -
    have "80 + u16_at 74 m = of_nat (80 + length key)" by (simp add: k)
    then show ?thesis using assms(3) len by (simp only: unat_of_nat) (simp add: dht_buf_size_def)
  qed
  show "u8_at 76 m = get_by_udp" using f(5) [of 76] l lb by (simp add: body at_append)
  show "take (unat (u16_at 74 m)) (drop 80 m) = key" using lb short by (simp add: k f body unat_of_nat)
  show "hd_src (hdr_at m) = src" "hd_dst (hdr_at m) = dst" "new_cageaddr m (In a) = Some (inet_node src a)" using dht_msg_hdr [OF m(1)] by simp_all
qed

subsection \<open>Answering with values\<close>

definition value_reply :: "u8 list \<Rightarrow> uint160 \<Rightarrow> uint160 \<Rightarrow> u32 \<Rightarrow> uint160 \<Rightarrow> nat \<Rightarrow> u8 list \<Rightarrow> u8 list \<Rightarrow> bool" where
  "value_reply r src dst nonce i n key v \<longleftrightarrow> hd_src (hdr_at r) = src \<and> hd_dst (hdr_at r) = dst \<and> u32_at 48 r = nonce \<and> id_at 52 r = i \<and>
     u16_at 72 r = 1 \<and> u16_at 74 r = of_nat n \<and> u8_at 76 r = data_are_values \<and> unat (u16_at 80 r) = length key \<and> unat (u16_at 82 r) = length v \<and>
     drop 84 r = key @ v \<and> length r = 84 + length key + length v"

lemma reply_value_fields:
  assumes r: "dht_msg r type_dht_find_value_reply src me (find_value_reply_body m 1 (of_nat n) data_are_values (msg_data key v))"
    and m: "u32_at 48 m = nonce" "id_at 52 m = i" "72 \<le> length m" and fits: "84 + length key + length v \<le> dht_buf_size"
  shows "value_reply r src me nonce i n key v"
proof -
  let ?b = "take 24 (drop 48 m)" and ?body = "find_value_reply_body m 1 (of_nat n) data_are_values (msg_data key v)"
  have b: "length ?b = 24" "u32_at 0 (?b @ x) = nonce" "id_at 4 (?b @ x) = i" for x using m by (simp_all add: at_take at_drop)
  have l: "length ?body = 36 + length key + length v" using m(3) by (simp add: find_value_reply_body_def msg_data_def)
  note f = dht_msg_at [OF r] dht_msg_u8 [OF r, unfolded l]
  have "u32_at 48 r = nonce" "id_at 52 r = i" "u16_at 72 r = 1" "u16_at 74 r = of_nat n"
    using b by (simp_all add: f find_value_reply_body_def at_append)
  moreover have "u8_at 76 r = data_are_values" using b(1) by (simp add: f find_value_reply_body_def at_append)
  moreover have "u16_at 80 r = of_nat (length key)" "u16_at 82 r = of_nat (length v)"
    using b(1) by (simp_all add: f find_value_reply_body_def msg_data_def at_append at_Cons numeral_eq_Suc)
  moreover have "drop 84 r = key @ v" using b(1) by (simp add: f find_value_reply_body_def msg_data_def)
  moreover have "length r = 84 + length key + length v" using r l by (simp add: dht_msg_def)
  ultimately show ?thesis using dht_msg_hdr [OF r] fits by (simp add: value_reply_def unat_of_nat dht_buf_size_def)
qed

lemma replies_sent:
  assumes m: "u32_at 48 m = nonce" "id_at 52 m = i" "72 \<le> length m" and len: "length (d_id s) = 5" "length me = 5"
    and fits: "\<forall>v \<in> set vs. 84 + length key + length v \<le> dht_buf_size"
  shows "\<exists>s' rs. run_steps (reply_value m (inet_node me a) key n) vs s = Some s' \<and> dt_out (d_dtun s') = dt_out (d_dtun s) @ map (\<lambda>r. (r, In a)) rs \<and>
    list_all2 (\<lambda>v r. value_reply r (d_id s) me nonce i n key v) vs rs \<and> d_stored s' = d_stored s"
  using len fits
proof (induction vs arbitrary: s)
  case (Cons v vs)
  obtain r where r: "send_msg (find_value_reply_body m 1 (of_nat n) data_are_values (msg_data key v)) type_dht_find_value_reply (inet_node me a) (d_id s) = Some [(r, In a)]"
    "dht_msg r type_dht_find_value_reply (d_id s) me (find_value_reply_body m 1 (of_nat n) data_are_values (msg_data key v))"
    using send_msg_inet [OF Cons.prems(1,2)] by blast
  have vr: "value_reply r (d_id s) me nonce i n key v" using Cons.prems(3) by (intro reply_value_fields [OF r(2) m]) simp
  let ?s = "d_send [(r, In a)] s"
  obtain s' rs where IH: "run_steps (reply_value m (inet_node me a) key n) vs ?s = Some s'" "dt_out (d_dtun s') = dt_out (d_dtun ?s) @ map (\<lambda>r. (r, In a)) rs"
    "list_all2 (\<lambda>v r. value_reply r (d_id ?s) me nonce i n key v) vs rs" "d_stored s' = d_stored ?s"
    using Cons.IH [of ?s] Cons.prems by (auto simp: d_send_def)
  have "reply_value m (inet_node me a) key n v s = Some ?s" using r(1) Cons.prems(3) by (simp add: reply_value_def)
  then show ?case using IH vr by (intro exI [of _ s'] exI [of _ "r # rs"]) (simp add: d_send_def)
qed simp

lemma find_value_answered:
  assumes m: "find_value_msg m me (d_id s) key i nonce" and len: "length i = 5" "knows s me"
    and st: "stored_set (d_stored s) i key = Some ds" and fits: "\<forall>d \<in> set ds. 84 + length key + length (se_value d) \<le> dht_buf_size"
    and "ds \<noteq> []" and perm: "set (ho_values (d_order s) (map se_value ds)) = se_value ` set ds"
  shows "\<exists>s' rs. d_recv_find_value t m (In a) s = Some s' \<and> dt_out (d_dtun s') = dt_out (d_dtun s) @ map (\<lambda>r. (r, In a)) rs \<and>
    list_all2 (\<lambda>v r. value_reply r (d_id s) me nonce i (length ds) key v) (ho_values (d_order s) (map se_value ds)) rs \<and> d_stored s' = d_stored s"
proof -
  have "80 + length key \<le> dht_buf_size" using fits \<open>ds \<noteq> []\<close> by (cases ds) auto
  note f = find_value_fields [OF m len(1) this]
  obtain p where p: "d_add_peer t (inet_node me a) s = Some (d_with_peers p s)" using d_add_peer_known [OF len(2)] by blast
  have "d_add (inet_node me a) s = Some s" using len(2) by (intro d_add_known) (simp add: inet_node_def)
  then have "d_recv_find_value t m (In a) s =
      run_steps (reply_value m (inet_node me a) key (length ds)) (ho_values (d_order s) (map se_value ds)) (d_with_peers p s)"
    using f p st by (simp add: d_recv_find_value_def Let_def dht_flags)
  moreover have "\<forall>v \<in> set (ho_values (d_order s) (map se_value ds)). 84 + length key + length v \<le> dht_buf_size" using fits perm by auto
  ultimately show ?thesis
    using replies_sent [of m nonce i "d_with_peers p s" me _ key a "length ds"] f(1,2,6) len(2) by (auto simp: knows_def)
qed

subsection \<open>Collecting values\<close>

text \<open>The query for \<open>key\<close> has received the values \<open>V\<close> of the \<open>n\<close> that \<open>src\<close> announced.\<close>

definition got_values :: "uint160 \<Rightarrow> nat \<Rightarrow> u8 list set \<Rightarrow> (uint160 \<times> val_info) list" where
  "got_values src n V = (if V = {} then [] else [(src, \<lparr>vi_indeces = {1}, vi_values = V, vi_num = of_nat n\<rparr>)])"

definition collecting :: "dht \<Rightarrow> nat \<Rightarrow> u32 \<Rightarrow> uint160 \<Rightarrow> u8 list \<Rightarrow> nat \<Rightarrow> uint160 \<Rightarrow> nat \<Rightarrow> u8 list set \<Rightarrow> bool" where
  "collecting s p nonce i key tag src n V \<longleftrightarrow> ord_find (d_query s) nonce = Some p \<and> ord_wf (d_query s) \<and> \<not> d_use_rdp s \<and> knows s src \<and>
     dq_nonce (d_heap s p) = nonce \<and> dq_dst (d_heap s p) = i \<and> dq_is_value (d_heap s p) \<and> dq_key (d_heap s p) = key \<and>
     dq_func (d_heap s p) = ValueFunc tag \<and> dq_vset (d_heap s p) = V \<and> dq_valinfo (d_heap s p) = got_values src n V"

lemma upd_q_simps [simp]:
  "d_heap (upd_q p f s) p = f (d_heap s p)" "d_rt (upd_q p f s) = d_rt s" "d_peers (upd_q p f s) = d_peers s" "d_query (upd_q p f s) = d_query s"
  "d_use_rdp (upd_q p f s) = d_use_rdp s" "d_results (upd_q p f s) = d_results s"
  by (simp_all add: upd_q_def put_q_def)

lemma put_q_simps [simp]:
  "d_heap (put_q p q s) p = q" "d_rt (put_q p q s) = d_rt s" "d_peers (put_q p q s) = d_peers s" "d_query (put_q p q s) = d_query s"
  "d_use_rdp (put_q p q s) = d_use_rdp s" "d_results (put_q p q s) = d_results s"
  by (simp_all add: put_q_def)

text \<open>A reply of a node that was asked stops its timer and changes nothing else here.\<close>

definition reply_noted :: "int \<Rightarrow> cageaddr \<Rightarrow> uint160 \<Rightarrow> nat \<Rightarrow> dht \<Rightarrow> dht option" where
  "reply_noted t c src p s =
     (if src \<in> dq_timers (d_heap s p) then do {
        s \<leftarrow> d_add c (upd_q p (\<lambda>q. q\<lparr>dq_timers := dq_timers q - {src}\<rparr>) s);
        s \<leftarrow> d_add_peer t c s;
        Some (upd_q p (dq_answered src) s)
      }
      else Some s)"

lemma reply_noted_collecting:
  assumes "collecting s p nonce i key tag src n V"
  shows "\<exists>s'. reply_noted t (inet_node src b) src p s = Some s' \<and> collecting s' p nonce i key tag src n V \<and> d_results s' = d_results s \<and> d_id s' = d_id s"
proof -
  let ?s = "upd_q p (\<lambda>q. q\<lparr>dq_timers := dq_timers q - {src}\<rparr>) s"
  have k: "knows ?s src" using assms by (simp add: collecting_def knows_def)
  obtain p' where p': "d_add_peer t (inet_node src b) ?s = Some (d_with_peers p' ?s)" "peers_inv p'" using d_add_peer_known [OF k] by blast
  have "d_add (inet_node src b) ?s = Some ?s" using k by (intro d_add_known) (simp add: inet_node_def)
  then show ?thesis
    using p' assms by (cases "src \<in> dq_timers (d_heap s p)") (auto simp: reply_noted_def collecting_def knows_def dq_answered_def)
qed

lemma recv_values_collecting:
  assumes c: "collecting s p nonce i key tag src n V" and r: "value_reply r src (d_id s) nonce i n key v"
    and v: "v \<notin> V" "finite V" "card V < n" "n < 2 ^ 16"
  shows "\<exists>s'. recv_values t r src p s = Some s' \<and> (if Suc (card V) = n
    then d_results s' = d_results s @ [DhtValues tag (Some (insert v V))] \<and> ord_find (d_query s') nonce = None
    else collecting s' p nonce i key tag src n (insert v V) \<and> d_results s' = d_results s \<and> d_id s' = d_id s)"
proof -
  let ?q = "d_heap s p"
  have len: "unat (u16_at 80 r) = length key" "unat (u16_at 82 r) = length v" "length r = 84 + length key + length v" "u16_at 74 r = of_nat n" "u16_at 72 r = 1"
    and data: "take (length key) (drop 84 r) = key" "take (length v) (drop (84 + length key) r) = v"
    using r drop_drop [of "length key" 84 r] by (simp_all add: value_reply_def add.commute)
  let ?vi = "case map_of (got_values src n V) src of None \<Rightarrow> new_val_info (of_nat n) | Some vi \<Rightarrow> vi"
  let ?q' = "dq_add_value t src 1 ?vi v ?q"
  have vi: "vi_num ?vi = of_nat n" "vi_values ?vi = V" "insert 1 (vi_indeces ?vi) = {1}" by (auto simp: got_values_def new_val_info_def)
  have info: "dq_valinfo ?q' = got_values src n (insert v V)"
    using c vi by (auto simp: dq_add_value_def collecting_def got_values_def)
  have "all_received ?q' \<longleftrightarrow> Suc (card V) = n"
    unfolding all_received_def info using v by (auto simp: got_values_def unat_of_nat)
  then have "recv_values t r src p s = (if Suc (card V) = n then recvd_value p (put_q p ?q' s) else Some (put_q p ?q' s))"
    using c len data vi(1) by (simp add: recv_values_def collecting_def Let_def)
  then show ?thesis
    using c info
    by (auto simp: recvd_value_def remove_query_def collecting_def knows_def dq_add_value_def d_called_def Let_def ord_find_del)
qed

lemma value_reply_taken:
  assumes c: "collecting s p nonce i key tag src n V" and r: "value_reply r src (d_id s) nonce i n key v"
    and v: "v \<notin> V" "finite V" "card V < n" "n < 2 ^ 16"
  shows "\<exists>s'. d_recv_find_value_reply t r (In b) s = Some s' \<and> (if Suc (card V) = n
    then d_results s' = d_results s @ [DhtValues tag (Some (insert v V))] \<and> ord_find (d_query s') nonce = None
    else collecting s' p nonce i key tag src n (insert v V) \<and> d_results s' = d_results s \<and> d_id s' = d_id s)"
proof -
  obtain s1 where s1: "reply_noted t (inet_node src b) src p s = Some s1" "collecting s1 p nonce i key tag src n V" "d_results s1 = d_results s" "d_id s1 = d_id s"
    using reply_noted_collecting [OF c] by blast
  have "d_recv_find_value_reply t r (In b) s = recv_values t r src p s1"
    using s1 c r by (simp add: d_recv_find_value_reply_def value_reply_def new_cageaddr_in collecting_def reply_noted_def dht_flags Let_def)
  then show ?thesis using recv_values_collecting [OF s1(2) _ v, of r t] r s1(3,4) by fastforce
qed

lemma value_replies_taken:
  assumes "list_all2 (\<lambda>v r. value_reply r src me nonce i n key v) vs rs" "distinct vs" "vs \<noteq> []" "n < 2 ^ 16"
    and "collecting s p nonce i key tag src n V" "V \<inter> set vs = {}" "finite V" "card V + length vs = n" "d_id s = me"
  shows "\<exists>s'. run_steps (\<lambda>r. d_recv_find_value_reply t r (In b)) rs s = Some s' \<and>
    d_results s' = d_results s @ [DhtValues tag (Some (V \<union> set vs))] \<and> ord_find (d_query s') nonce = None"
  using assms
proof (induction vs rs arbitrary: s V rule: list_all2_induct)
  case (Cons v vs r rs)
  obtain s1 where s1: "d_recv_find_value_reply t r (In b) s = Some s1" "if Suc (card V) = n
      then d_results s1 = d_results s @ [DhtValues tag (Some (insert v V))] \<and> ord_find (d_query s1) nonce = None
      else collecting s1 p nonce i key tag src n (insert v V) \<and> d_results s1 = d_results s \<and> d_id s1 = d_id s"
    using value_reply_taken [OF Cons.prems(4), of r v t b] Cons by auto
  show ?case
  proof (cases "vs = []")
    case True
    then show ?thesis using s1 Cons by simp
  next
    case False
    then have "Suc (card V) \<noteq> n" using Cons.prems(7) by auto
    then obtain s' where "run_steps (\<lambda>r. d_recv_find_value_reply t r (In b)) rs s1 = Some s'"
      "d_results s' = d_results s1 @ [DhtValues tag (Some (insert v V \<union> set vs))]" "ord_find (d_query s') nonce = None" "d_results s1 = d_results s"
      using Cons.IH [of s1 "insert v V"] s1(2) Cons.prems False by auto
    then show ?thesis using s1(1) by simp
  qed
qed simp

end
