(* ===== verification/Dht_Props.thy ===== *)
theory Dht_Props
  imports Dht_Value
begin

section \<open>Properties of the DHT\<close>

text \<open>
  Requests against the table of stored values: who may change an entry, which tables are reached,
  what the refresh forgets, and what becomes of a request that arrives over RDP.
\<close>

subsection \<open>Requests and the table\<close>

lemma stored_set_add_other: "se_id d \<noteq> i \<or> se_key d \<noteq> k \<Longrightarrow> stored_set (add_sdata d b st) i k = stored_set st i k"
  by (auto simp: add_sdata_def Let_def stored_set_put split: option.split list.split)

lemma stored_set_received_other: "se_id d \<noteq> i \<or> se_key d \<noteq> k \<Longrightarrow> stored_set (insert2recvd_sdata d src st) i k = stored_set st i k"
  by (auto simp: insert2recvd_sdata_def stored_set_put split: option.split)

lemma put_sdata_other:
  "put_sdata d src st = Some st' \<Longrightarrow> se_id d \<noteq> i \<or> se_key d \<noteq> k \<Longrightarrow> stored_set st' i k = stored_set st i k"
  by (auto simp: put_sdata_def erase_sdata_def stored_set_keep stored_set_add_other stored_set_received_other
      split: if_splits option.splits Option.bind_splits)

lemma put_sdata_faults:
  "put_sdata d src st = None \<longleftrightarrow> se_ttl d = 0 \<and> (\<exists>ds. stored_set st (se_id d) (se_key d) = Some ds \<and> se_find (se_value d) ds = None)"
  by (auto simp: put_sdata_def erase_sdata_def split: option.splits Option.bind_splits)

text \<open>The entry of a unique key, but for the nodes known to have it.\<close>

lemma put_sdata_unique:
  assumes e: "stored_set st i k = Some [e]" "se_unique e" and d: "se_src d \<noteq> se_src e" "put_sdata d src st = Some st'"
  shows "\<exists>rc. se_recvd e \<subseteq> rc \<and> stored_set st' i k = Some [e\<lparr>se_recvd := rc\<rparr>]"
proof (cases "se_id d = i \<and> se_key d = k")
  case False
  then have "stored_set st' i k = Some [e\<lparr>se_recvd := se_recvd e\<rparr>]" using put_sdata_other [OF d(2), of i k] e by auto
  then show ?thesis by blast
next
  case True
  have same: "add_sdata d False st = st" using e d(1) True by (auto simp: add_sdata_def Let_def)
  have up: "se_update v f [e] = [if se_value e = v then f e else e]" for v f by (simp add: se_update_def)
  have keep: "[e] = [e\<lparr>se_recvd := se_recvd e\<rparr>]" by simp
  show ?thesis
  proof (cases "se_ttl d = 0")
    case True
    then have "st' = st" using d e(1) \<open>se_id d = i \<and> se_key d = k\<close>
      by (auto simp: put_sdata_def erase_sdata_def se_find_def split: if_splits)
    then show ?thesis using e(1) keep by (metis subset_refl)
  next
    case ttl: False
    then have st': "st' = insert2recvd_sdata d src st" using d(2) same by (simp add: put_sdata_def)
    show ?thesis
    proof (cases "se_value e = se_value d")
      case True
      then have "stored_set st' i k = Some [e\<lparr>se_recvd := insert src (se_recvd e)\<rparr>]"
        using e(1) \<open>se_id d = i \<and> se_key d = k\<close> by (simp add: st' insert2recvd_sdata_def stored_set_put up se_find_def)
      then show ?thesis by blast
    next
      case False
      then have "st' = st" using e(1) \<open>se_id d = i \<and> se_key d = k\<close> by (simp add: st' insert2recvd_sdata_def se_find_def)
      then show ?thesis using e(1) keep by (metis subset_refl)
    qed
  qed
qed

lemma put_sdata_owner:
  assumes e: "stored_set st i k = Some [e]" "se_unique e" and d: "se_src d = se_src e" "se_unique d" "se_ttl d \<noteq> 0" "se_id d = i" "se_key d = k"
  shows "\<exists>st' e'. put_sdata d src st = Some st' \<and> stored_set st' i k = Some [e'] \<and> se_value e' = se_value d \<and> se_ttl e' = se_ttl d \<and>
    se_time e' = se_time d \<and> se_unique e'"
proof -
  let ?e = "if se_value e = se_value d then renew_sdata d True e else d"
  have "stored_set (add_sdata d False st) i k = Some [?e]" using e d by (simp add: add_sdata_def Let_def stored_set_put)
  moreover have "se_find (se_value d) [?e] = Some ?e" by (simp add: se_find_def)
  ultimately have "stored_set (insert2recvd_sdata d src (add_sdata d False st)) i k = Some [?e\<lparr>se_recvd := insert src (se_recvd ?e)\<rparr>]"
    using d by (simp add: insert2recvd_sdata_def stored_set_put se_update_def)
  then show ?thesis using d e(2) by (auto simp: put_sdata_def renew_sdata_def)
qed

definition put_request :: "stored_data \<times> uint160 \<Rightarrow> stored \<Rightarrow> stored option" where
  "put_request r st = put_sdata (fst r) (snd r) st"

text \<open>
  Property C10.  The entry of a unique key belongs to the node that stored it.  Any sequence of
  store and withdrawal requests, received by datagram or over RDP (\<open>put_sdata\<close>), that name other
  sources leaves the value, its source, its time to live and its age as they are, and no other
  value is stored under the key; only the set of nodes known to have the value grows.  A
  request of the owner then replaces the value.
\<close>

theorem unique_entry_protected:
  assumes "stored_set st i k = Some [e]" "se_unique e" "\<forall>r \<in> set reqs. se_src (fst r) \<noteq> se_src e" "run_steps put_request reqs st = Some st1"
    and "se_src d = se_src e" "se_unique d" "se_ttl d \<noteq> 0" "se_id d = i" "se_key d = k"
  shows "\<exists>rc st2 e2. se_recvd e \<subseteq> rc \<and> stored_set st1 i k = Some [e\<lparr>se_recvd := rc\<rparr>] \<and>
    put_request (d, src) st1 = Some st2 \<and> stored_set st2 i k = Some [e2] \<and> se_value e2 = se_value d \<and> se_ttl e2 = se_ttl d"
proof -
  have "\<exists>rc. se_recvd e \<subseteq> rc \<and> stored_set st1 i k = Some [e\<lparr>se_recvd := rc\<rparr>]"
    using assms(1-4)
  proof (induction reqs arbitrary: st e)
    case Nil
    then have "stored_set st1 i k = Some [e\<lparr>se_recvd := se_recvd e\<rparr>]" by simp
    then show ?case by blast
  next
    case (Cons r reqs)
    then obtain st' where st': "put_request r st = Some st'" "run_steps put_request reqs st' = Some st1"
      by (auto split: option.splits)
    obtain rc where rc: "se_recvd e \<subseteq> rc" "stored_set st' i k = Some [e\<lparr>se_recvd := rc\<rparr>]"
      using put_sdata_unique [OF Cons.prems(1,2) _ st'(1) [unfolded put_request_def]] Cons.prems(3) by auto
    have "\<exists>rc'. rc \<subseteq> rc' \<and> stored_set st1 i k = Some [e\<lparr>se_recvd := rc'\<rparr>]" using Cons.IH [OF rc(2)] Cons.prems(2,3) st'(2) by simp
    then show ?case using rc(1) by (meson order_trans)
  qed
  then obtain rc where rc: "se_recvd e \<subseteq> rc" "stored_set st1 i k = Some [e\<lparr>se_recvd := rc\<rparr>]" by blast
  moreover have "\<exists>st2 e2. put_request (d, src) st1 = Some st2 \<and> stored_set st2 i k = Some [e2] \<and> se_value e2 = se_value d \<and> se_ttl e2 = se_ttl d"
    using put_sdata_owner [OF rc(2), of d src] assms(2,5-9) unfolding put_request_def by auto
  ultimately show ?thesis by blast
qed

lemma dht_init_fields:
  assumes "dht_init i rs dt r order junk hp t slow fast = Some s"
  shows "d_stored s = []" "d_rt s = rttable_init i rs" "d_recv_store s = []" "d_query s = []" "d_order s = order" "d_junk s = junk"
    "d_dtun s = dt\<lparr>dt_peers := set_callback (dt_peers dt)\<rparr>" "d_heap s = hp"
  using assms by (auto simp: dht_init_def split: Option.bind_splits)

definition sample_entry :: "u8 list \<Rightarrow> uint160 \<Rightarrow> u16 \<Rightarrow> bool \<Rightarrow> stored_data" where
  "sample_entry v src ttl u = \<lparr>se_key = [7], se_value = v, se_id = [0, 0, 0, 0, 1], se_src = src, se_unique = u, se_recvd = {}, se_time = 100,
     se_original = 0, se_ttl = ttl\<rparr>"

theorem unique_entry_protected_witness:
  "\<exists>st1 st2 e2 rc. run_steps put_request [(sample_entry [2] [0, 0, 0, 0, 6] 60 True, [0, 0, 0, 0, 6]), (sample_entry [1] [0, 0, 0, 0, 6] 0 False, [0, 0, 0, 0, 6])]
      [([0, 0, 0, 0, 1], [([7], [sample_entry [1] [0, 0, 0, 0, 5] 60 True])])] = Some st1 \<and>
    stored_set st1 [0, 0, 0, 0, 1] [7] = Some [(sample_entry [1] [0, 0, 0, 0, 5] 60 True)\<lparr>se_recvd := rc\<rparr>] \<and>
    put_request (sample_entry [3] [0, 0, 0, 0, 5] 90 True, [0, 0, 0, 0, 5]) st1 = Some st2 \<and>
    stored_set st2 [0, 0, 0, 0, 1] [7] = Some [e2] \<and> se_value e2 = [3] \<and> se_ttl e2 = 90"
proof -
  let ?e = "sample_entry [1] [0, 0, 0, 0, 5] 60 True" and ?d = "sample_entry [3] [0, 0, 0, 0, 5] 90 True"
  let ?reqs = "[(sample_entry [2] [0, 0, 0, 0, 6] 60 True, [0, 0, 0, 0, 6]), (sample_entry [1] [0, 0, 0, 0, 6] 0 False, [0, 0, 0, 0, 6])]"
  let ?st = "[([0, 0, 0, 0, 1], [([7], [?e])])]"
  have "stored_set ?st [0, 0, 0, 0, 1] [7] = Some [?e]" by (simp add: stored_set_def stored_map_def)
  moreover have "run_steps put_request ?reqs ?st = Some ?st"
    by (simp add: put_request_def put_sdata_def add_sdata_def insert2recvd_sdata_def erase_sdata_def stored_set_def stored_map_def se_find_def sample_entry_def Let_def)
  ultimately show ?thesis
    using unique_entry_protected [of ?st "[0, 0, 0, 0, 1]" "[7]" ?e ?reqs ?st ?d "[0, 0, 0, 0, 5]"] by (simp add: sample_entry_def)
qed

text \<open>
  Property C18.  Every table a node can reach is well-formed, whatever messages, events, timers and
  calls it handles: identifiers and keys occur once, no set or map is empty, a set has each value
  once, and every entry is filed under its own identifier and key.  The table is reached by
  the eight kinds of changes of \<open>table_step\<close> alone.
\<close>

theorem stored_table_invariant:
  assumes "dht_init i rs dt r order junk hp t slow fast = Some s0" "dht_step\<^sup>*\<^sup>* s0 s"
  shows "stored_wf (d_stored s) \<and> table_step\<^sup>*\<^sup>* [] (d_stored s)"
proof -
  have "d_stored s0 = []" by (rule dht_init_fields [OF assms(1)])
  then show ?thesis
    using wf.dht_steps_inv [OF assms(2)] reached.dht_steps_inv [OF assms(2), of "[]"] by (simp add: stored_wf_def)
qed

text \<open>
  The refresh of the fast timer forgets exactly the values whose age exceeds their
  time to live: every other entry of the table is found unchanged, under the same identifier,
  key and value, and nothing is found that was not stored.
\<close>

lemma refresh_forgets_expired:
  assumes "stored_wf (d_stored s)"
  shows "stored_at (d_stored (d_refresh t s)) i k v =
    (case stored_at (d_stored s) i k v of None \<Rightarrow> None | Some e \<Rightarrow> if t - se_time e > uint (se_ttl e) then None else Some e)"
  using stored_at_refresh [OF assms, of t i k v] by (simp add: d_refresh_def expired_def split: option.split)


subsection \<open>Finding what was stored\<close>

lemma send_store_grows: "send_store body nodes s = Some s' \<Longrightarrow> set (dt_out (d_dtun s)) \<subseteq> set (dt_out (d_dtun s'))"
  by (induction body nodes s rule: send_store.induct) (auto simp: d_send_def dt_send_def split: if_splits Option.bind_splits)

lemma send_store_sent:
  assumes "send_store body nodes s = Some s'" "inet_node i a \<in> set nodes" "i \<noteq> d_id s" "length (d_id s) = 5" "length i = 5"
  shows "\<exists>m. (m, In a) \<in> set (dt_out (d_dtun s')) \<and> dht_msg m type_dht_store (d_id s) i body"
  using assms
proof (induction body nodes s rule: send_store.induct)
  case (2 body c nodes s)
  show ?case
  proof (cases "c = inet_node i a")
    case True
    then obtain m where m: "send_msg body type_dht_store c (d_id s) = Some [(m, In a)]" "dht_msg m type_dht_store (d_id s) i body"
      using send_msg_inet [OF 2(6,7)] by blast
    then have "send_store body nodes (d_send [(m, In a)] s) = Some s'" using 2(3,5) True by (simp add: inet_node_def split: if_splits)
    then have "set (dt_out (d_dtun (d_send [(m, In a)] s))) \<subseteq> set (dt_out (d_dtun s'))" by (rule send_store_grows)
    then show ?thesis using m(2) by (auto simp: d_send_def)
  next
    case False
    then show ?thesis using 2 by (auto simp: d_send_def split: if_splits Option.bind_splits)
  qed
qed simp

lemma se_update_values:
  assumes "\<And>d. se_value (f d) = se_value d"
  shows "se_value ` set (se_update v f ds) = se_value ` set ds"
proof -
  have "map se_value (se_update v f ds) = map se_value ds" using assms by (simp add: se_update_def)
  then show ?thesis by (metis list.set_map)
qed

lemma put_sdata_found:
  assumes wf: "stored_wf st" and d: "se_ttl d \<noteq> 0" "\<not> se_unique d"
    and "\<And>ds e. stored_set st (se_id d) (se_key d) = Some ds \<Longrightarrow> e \<in> set ds \<Longrightarrow> \<not> se_unique e"
  shows "\<exists>st' ds. put_sdata d src st = Some st' \<and> stored_set st' (se_id d) (se_key d) = Some ds \<and> ds \<noteq> [] \<and> distinct (map se_value ds) \<and>
    se_value ` set ds = insert (se_value d) (\<Union>x \<in> set_option (stored_set st (se_id d) (se_key d)). se_value ` set x)"
proof -
  let ?st = "add_sdata d False st" and ?old = "\<Union>x \<in> set_option (stored_set st (se_id d) (se_key d)). se_value ` set x"
  obtain ds where ds: "stored_set ?st (se_id d) (se_key d) = Some ds" "se_value ` set ds = insert (se_value d) ?old"
  proof (cases "stored_set st (se_id d) (se_key d)")
    case None
    then show thesis using that [of "[d]"] by (simp add: add_sdata_def stored_set_put se_insert_def se_find_def)
  next
    case (Some ds)
    have "ds \<noteq> []" "\<not> (length ds = 1 \<and> se_unique (hd ds))" using stored_wf_set [OF wf Some] assms(4) [OF Some] by (auto simp: hd_in_set)
    then have add: "?st = (case se_find (se_value d) ds of None \<Rightarrow> put_set (se_id d) (se_key d) (se_insert d ds) st
        | Some e \<Rightarrow> if se_src e \<noteq> se_src d then st else put_set (se_id d) (se_key d) (se_update (se_value d) (renew_sdata d False) ds) st)"
      using d Some by (auto simp: add_sdata_def Let_def split: option.split)
    show thesis
    proof (cases "se_find (se_value d) ds")
      case None
      then show ?thesis using that [of "ds @ [d]"] Some add by (simp add: stored_set_put se_insert_def)
    next
      case found: (Some e)
      then have e: "se_value d \<in> se_value ` set ds" using se_find_None [of "se_value d" ds] by auto
      show ?thesis
      proof (cases "se_src e = se_src d")
        case True
        then show ?thesis using that [of "se_update (se_value d) (renew_sdata d False) ds"] Some found e add
          by (simp add: stored_set_put se_update_values insert_absorb)
      next
        case False
        then show ?thesis using that [of ds] Some found e add by (simp add: insert_absorb)
      qed
    qed
  qed
  have wf': "stored_wf (insert2recvd_sdata d src ?st)" by (intro insert2recvd_wf add_sdata_wf wf)
  let ?ds = "se_update (se_value d) (\<lambda>e. e\<lparr>se_recvd := insert src (se_recvd e)\<rparr>) ds"
  have "se_find (se_value d) ds \<noteq> None" using ds(2) by (simp add: se_find_None)
  then have "stored_set (insert2recvd_sdata d src ?st) (se_id d) (se_key d) = Some ?ds"
    using ds(1) by (auto simp: insert2recvd_sdata_def stored_set_put)
  then show ?thesis
    using d(1) ds(2) se_update_values stored_wf_set [OF wf'] by (auto simp: put_sdata_def set_wf_def)
qed

subsection \<open>A sample node\<close>

definition sample_order :: hash_order where
  "sample_order = \<lparr>ho_ids = id, ho_keys = id, ho_values = id\<rparr>"

definition sample_init :: "uint160 \<Rightarrow> dht option" where
  "sample_init i = dht_init i [] (dt_node i) (rdp_init [5, 6] 0) sample_order (sample_entry [] zero_id 0 False)
     (\<lambda>_. new_dht_query i [] i 0 (ValueFunc 0) True []) 0 0 0"

definition sample_dht :: "uint160 \<Rightarrow> dht" where
  "sample_dht i = the (sample_init i)"

lemma sample_init_Some: "sample_init i = Some (sample_dht i)"
  by (simp add: sample_dht_def sample_init_def dht_init_def listen_def generate_desc_def rdp_init_def listen_left_def listen_insert_def listen_right_def rdp_store_port_def rdp_get_port_def)

lemma sample_dht_simps [simp]:
  "d_stored (sample_dht i) = []" "d_rt (sample_dht i) = rttable_init i []" "d_recv_store (sample_dht i) = []" "d_query (sample_dht i) = []"
  "d_order (sample_dht i) = sample_order" "d_junk (sample_dht i) = sample_entry [] zero_id 0 False"
  "d_dtun (sample_dht i) = (dt_node i)\<lparr>dt_peers := set_callback (dt_peers (dt_node i))\<rparr>"
  using dht_init_fields [OF sample_init_Some [of i, unfolded sample_init_def]] by simp_all

theorem stored_table_invariant_witness:
  "dht_step\<^sup>*\<^sup>* (sample_dht [0, 0, 0, 0, 9]) (set_enabled_rdp False (sample_dht [0, 0, 0, 0, 9])) \<and>
   stored_wf (d_stored (set_enabled_rdp False (sample_dht [0, 0, 0, 0, 9])))"
proof -
  let ?s = "sample_dht [0, 0, 0, 0, 9]"
  have "?s\<lparr>d_dtun := d_dtun ?s, d_rdp := d_rdp ?s, d_is_dtun := d_is_dtun ?s, d_use_rdp := False\<rparr> = set_enabled_rdp False ?s"
    by (simp add: set_enabled_rdp_def)
  then have step: "dht_step\<^sup>*\<^sup>* ?s (set_enabled_rdp False ?s)" by (metis dht_step.other r_into_rtranclp)
  then show ?thesis using stored_table_invariant [OF sample_init_Some [of "[0, 0, 0, 0, 9]", unfolded sample_init_def] step] by simp
qed

lemma refresh_forgets_expired_witness:
  "stored_at (d_stored (d_refresh 200 ((sample_dht [0, 0, 0, 0, 9])\<lparr>d_stored := [([0, 0, 0, 0, 1], [([7], [sample_entry [1] [0, 0, 0, 0, 5] 60 False,
       sample_entry [2] [0, 0, 0, 0, 5] 600 False])])]\<rparr>))) [0, 0, 0, 0, 1] [7] [1] = None \<and>
   stored_at (d_stored (d_refresh 200 ((sample_dht [0, 0, 0, 0, 9])\<lparr>d_stored := [([0, 0, 0, 0, 1], [([7], [sample_entry [1] [0, 0, 0, 0, 5] 60 False,
       sample_entry [2] [0, 0, 0, 0, 5] 600 False])])]\<rparr>))) [0, 0, 0, 0, 1] [7] [2] = Some (sample_entry [2] [0, 0, 0, 0, 5] 600 False)"
proof -
  let ?s = "(sample_dht [0, 0, 0, 0, 9])\<lparr>d_stored := [([0, 0, 0, 0, 1], [([7], [sample_entry [1] [0, 0, 0, 0, 5] 60 False,
       sample_entry [2] [0, 0, 0, 0, 5] 600 False])])]\<rparr>"
  have "stored_wf (d_stored ?s)" by (simp add: stored_wf_def map_wf_def set_wf_def sample_entry_def)
  note r = refresh_forgets_expired [OF this, of 200 "[0, 0, 0, 0, 1]" "[7]"]
  show ?thesis unfolding r by (simp add: stored_at_def stored_set_def stored_map_def se_find_def sample_entry_def)
qed

text \<open>A segment with given bytes, and a connection that is open.\<close>

definition sample_seg :: "u8 list \<Rightarrow> packetbuf" where
  "sample_seg bs = pbuf_write 128 bs (pbuf_construct\<lparr>m_len := int (length bs)\<rparr>)"

lemma sample_seg_bytes [simp]: "pbuf_bytes (sample_seg bs) = bs"
  using pbuf_read_write_same [of bs "length bs" 128] by (simp add: sample_seg_def pbuf_bytes_def)

definition sample_rdp :: rdp where
  "sample_rdp = (rdp_init [] 0)\<lparr>m_desc2conn := [(7, 0)], heap := (\<lambda>_. init_rwnd (rdp_con_new\<lparr>rcv_max := rcv_max_default\<rparr>))\<rparr>"

definition sample_store :: store_func where
  "sample_store = \<lparr>sf_key = [7], sf_value = [1, 2, 3], sf_ttl = 60, sf_id = [0, 0, 0, 0, 1], sf_from = [0, 0, 0, 0, 5], sf_unique = False\<rparr>"

definition sample_from :: rdp_addr where
  "sample_from = \<lparr>did = [0, 0, 0, 0, 5], dport = 100, sport = 60000\<rparr>"


end
