(* ===== verification/Dht_Loops.thy ===== *)
theory Dht_Loops
  imports Dht_Rdp
begin

section \<open>The reading loops end\<close>

text \<open>
  The callbacks of the connections read in loops, which the model runs with one unit of fuel more
  than bytes are queued.  The locale \<open>reader\<close> states what makes that enough: a step that
  asks for another one has taken bytes from the queue.  It is interpreted on the four steps of
  the code.
\<close>

locale reader =
  fixes step :: "'s \<Rightarrow> (bool \<times> 's) option" and left :: "'s \<Rightarrow> nat"
  assumes progress: "step s = Some (True, s') \<Longrightarrow> left s' < left s"
begin

lemma enough_fuel: "left s < n \<Longrightarrow> left s < m \<Longrightarrow> read_loop n step s = read_loop m step s"
proof (induction n arbitrary: m s)
  case (Suc n)
  then obtain k where m: "m = Suc k" by (cases m) auto
  show ?case
  proof (cases "step s")
    case (Some r)
    moreover have "read_loop n step (snd r) = read_loop k step (snd r)" if "fst r"
      using Suc.IH [of "snd r" k] Suc.prems progress [of s "snd r"] Some that m by (cases r) auto
    ultimately show ?thesis by (simp add: m split_beta)
  qed (simp add: m)
qed simp

lemma loop_cases:
  "read_loop (Suc (left s)) step s =
     (case step s of None \<Rightarrow> None | Some (goes_on, s') \<Rightarrow> if goes_on then read_loop (Suc (left s')) step s' else Some s')"
proof (cases "step s")
  case (Some r)
  moreover have "read_loop (left s) step (snd r) = read_loop (Suc (left (snd r))) step (snd r)" if "fst r"
    using progress [of s "snd r"] Some that by (intro enough_fuel) (cases r; simp)+
  ultimately show ?thesis by (simp add: split_beta)
qed simp

end

subsection \<open>Bytes queued\<close>

abbreviation d_left :: "int \<Rightarrow> dht \<Rightarrow> nat" where
  "d_left d s \<equiv> queued_bytes d (d_rdp s)"

lemma receive_loop_left:
  "receive_loop q n acc = (bs, q') \<Longrightarrow> length bs + length (bytes_of q') = length acc + length (bytes_of q)"
  by (induction q n acc rule: receive_loop.induct) (auto split: if_splits)

lemma d_receive_left:
  assumes "d_receive d n s = (bs, s')"
  shows "length bs + d_left d s' = d_left d s"
proof (cases "ord_find (m_desc2conn (d_rdp s)) d")
  case (Some p)
  then obtain q' where "receive_loop (rqueue (heap (d_rdp s) p)) n [] = (bs, q')" "d_rdp s' = upd_con p (\<lambda>c. c\<lparr>rqueue := q'\<rparr>) (d_rdp s)"
    using assms by (auto simp: d_receive_def receive_def Let_def split: prod.splits)
  then show ?thesis using receive_loop_left [of "rqueue (heap (d_rdp s) p)" n "[]" bs q'] Some by (simp add: queued_bytes_def upd_con_def)
qed (use assms in \<open>auto simp: d_receive_def receive_def queued_bytes_def\<close>)

lemma send_ostand_queue: "send_ostand_loop n t i e c os = Some (j, c', os') \<Longrightarrow> rqueue c' = rqueue c"
  by (induction n t i e c os rule: send_ostand_loop.induct) (auto simp: Let_def split: if_splits Option.bind_splits prod.splits)

lemma send_ostand_swnd_queue: "send_ostand_swnd t c = Some (c', os) \<Longrightarrow> rqueue c' = rqueue c"
  by (auto simp: send_ostand_swnd_def Let_def simp del: send_ostand_loop.simps split: if_splits Option.bind_splits dest!: send_ostand_queue)

lemma enqueue_queue: "enqueue_swnd t pb c = Some (ok, c', os) \<Longrightarrow> rqueue c' = rqueue c"
  by (auto simp: enqueue_swnd_def Let_def split: if_splits Option.bind_splits dest!: send_ostand_swnd_queue)

lemma send_loop_queue:
  "send_loop n p buf k s = Some (m, s') \<Longrightarrow> m_desc2conn s' = m_desc2conn s \<and> rqueue (heap s' j) = rqueue (heap s j)"
proof (induction n p buf k s rule: send_loop.induct)
  case (2 n p buf k s)
  have put: "m_desc2conn (put_con p c os s) = m_desc2conn s \<and> rqueue (heap (put_con p c os s) j) = rqueue (heap s j)"
    if "enqueue_swnd t pb (heap s p) = Some (ok, c, os)" for t pb ok c os
    using enqueue_queue [OF that] by (simp add: put_con_def)
  show ?case using 2 put by (fastforce simp: Let_def split: if_splits Option.bind_splits prod.splits)
qed simp

lemma send_left:
  assumes "send e buf r = Some (n, r')"
  shows "queued_bytes d r' = queued_bytes d r"
proof (cases "ord_find (m_desc2conn r) e")
  case (Some p)
  then have "r' = r \<or> (\<exists>m. send_loop m p buf 0 r = Some (n, r'))"
    using assms by (auto simp: send_def simp del: send_loop.simps split: if_splits)
  then have "m_desc2conn r' = m_desc2conn r \<and> rqueue (heap r' j) = rqueue (heap r j)" for j using send_loop_queue by blast
  then show ?thesis by (simp add: queued_bytes_def split: option.split)
qed (use assms in \<open>simp add: send_def\<close>)

lemma d_rdp_send_left: "d_rdp_send e buf s = Some s' \<Longrightarrow> d_left d s' = d_left d s"
  by (auto simp: d_rdp_send_def split: Option.bind_splits dest!: send_left [where d = d])

lemma d_left_simps [simp]:
  "d_left d (upd_q p f s) = d_left d s" "d_left d (put_recv_get e g s) = d_left d s" "d_left d (put_recv_store e r s) = d_left d s"
  "d_left d (d_set_stored st s) = d_left d s"
  by (simp_all add: upd_q_def put_q_def put_recv_get_def put_recv_store_def d_set_stored_def)

lemma received_some: "d_receive d n s = (bs, s') \<Longrightarrow> bs \<noteq> [] \<Longrightarrow> d_left d s' < d_left d s"
  using d_receive_left [of d n s bs s'] by (cases bs) auto

lemma received_length: "d_receive d n s = (bs, s') \<Longrightarrow> length bs = numeral k \<Longrightarrow> d_left d s' < d_left d s"
  by (erule received_some) auto

subsection \<open>The four loops\<close>

lemma rs_step_progress: "rs_step t d s = Some (True, s') \<Longrightarrow> d_left d s' < d_left d s"
  by (auto simp: rs_step_def rs_read_hdr_def rs_read_body_def Let_def split: Option.bind_splits prod.splits if_splits intro: received_some received_length)

lemma get_step_progress: "get_step t p d s = Some (True, s') \<Longrightarrow> d_left d s' < d_left d s"
  by (auto simp: get_step_def get_read_hdr_def get_read_val_def Let_def split: query_state.splits Option.bind_splits prod.splits if_splits
      intro: received_some dest!: d_rdp_send_left [where d = d])

lemma rget_op_progress: "rget_read_op t d s = Some (True, s') \<Longrightarrow> d_left d s' < d_left d s"
  by (auto simp: rget_read_op_def Let_def split: list.splits Option.bind_splits prod.splits if_splits
      intro: received_some dest!: d_rdp_send_left [where d = d])

lemma rget_read_val_left: "rget_read_val t g s = (g', s') \<Longrightarrow> d_left d s' = d_left d s"
  by (auto simp: rget_read_val_def Let_def split: option.splits)

lemma rget_step_progress: "rget_step t d s = Some (True, s') \<Longrightarrow> d_left d s' < d_left d s"
  by (auto simp: rget_step_def rget_read_hdr_def rget_read_key_def Let_def split: rget_state.splits Option.bind_splits prod.splits if_splits
      intro: received_some received_length dest!: rget_read_val_left [where d = d])

interpretation storing: reader "rs_step t d" "d_left d" for t d
  by unfold_locales (rule rs_step_progress)

interpretation getting: reader "get_step t p d" "d_left d" for t p d
  by unfold_locales (rule get_step_progress)

interpretation serving: reader "rget_step t d" "d_left d" for t d
  by unfold_locales (rule rget_step_progress)

interpretation answering: reader "rget_read_op t d" "d_left d" for t d
  by unfold_locales (rule rget_op_progress)

end
