(* ===== verification/Dht_Find.thy ===== *)
theory Dht_Find
  imports Dht_Props Dht_Loops
begin

section \<open>Values between nodes\<close>

text \<open>
  A value stored by one node and found by another, by the datagrams of \<open>Dht_Value\<close>; requests that
  make a node fault; the time to live that is passed on when values are restored.
\<close>

subsection \<open>Finding what was stored\<close>

definition values_at :: "stored \<Rightarrow> uint160 \<Rightarrow> u8 list \<Rightarrow> u8 list set" where
  "values_at st i k = (case stored_set st i k of None \<Rightarrow> {} | Some ds \<Rightarrow> se_value ` set ds)"

definition shared_key :: "stored \<Rightarrow> uint160 \<Rightarrow> u8 list \<Rightarrow> bool" where
  "shared_key st i k = (case stored_set st i k of None \<Rightarrow> True | Some ds \<Rightarrow> list_all (\<lambda>e. \<not> se_unique e) ds)"

lemma finite_values_at [simp]: "finite (values_at st i k)"
  by (simp add: values_at_def split: option.split)

lemma put_shared:
  assumes "stored_wf st" "se_ttl d \<noteq> 0" "\<not> se_unique d" "shared_key st (se_id d) (se_key d)"
  obtains st' ds where "put_sdata d src st = Some st'" "stored_set st' (se_id d) (se_key d) = Some ds" "ds \<noteq> []" "distinct (map se_value ds)"
    "se_value ` set ds = insert (se_value d) (values_at st (se_id d) (se_key d))"
  using put_sdata_found [OF assms(1-3), of src] assms(4) by (auto simp: shared_key_def values_at_def list_all_iff split: option.splits)

lemma store_by_udp_sent:
  assumes "store_by_udp f nodes s = Some (me, s')" "store_fits f" "inet_node i a \<in> set nodes" "i \<noteq> d_id s" "length (d_id s) = 5" "length i = 5"
  obtains m body where "(m, In a) \<in> set (dt_out (d_dtun s'))" "dht_msg m type_dht_store (d_id s) i body" "msg_dht_store f (d_id s) = Some body"
  using assms send_store_sent by (fastforce simp: store_by_udp_def split: Option.bind_splits)

lemma send_find_value_sent:
  assumes "length i = 5" "length (d_id s) = 5" "length j = 5" "\<not> d_use_rdp s" "80 + length key \<le> dht_buf_size"
  shows "\<exists>m. send_dht_find_value key i nonce (inet_node j a) s = Some (d_send [(m, In a)] s) \<and> find_value_msg m (d_id s) j key i nonce"
proof -
  obtain body where body: "dht_find_value_body False key i nonce domain_inet = Some body"
    using assms(1) by (auto simp: dht_find_value_body_def id_bytes_eq)
  obtain m where "send_msg body type_dht_find_value (inet_node j a) (d_id s) = Some [(m, In a)]" "dht_msg m type_dht_find_value (d_id s) j body"
    using send_msg_inet [OF assms(2,3)] by blast
  then show ?thesis using assms body
    by (intro exI [of _ m]) (auto simp: send_dht_find_value_def find_value_msg_def inet_node_def)
qed

lemma collecting_send: "collecting (d_send ms s) p nonce i key tag src n V = collecting s p nonce i key tag src n V"
  by (simp add: collecting_def knows_def d_send_def)

lemma collecting_start: "collecting s p nonce i key tag src n {} \<Longrightarrow> collecting s p nonce i key tag src n' {}"
  by (simp add: collecting_def got_values_def)

text \<open>The part of the node that stores: the store message, then the value message and its answers.\<close>

lemma stored_and_answered:
  assumes m1: "dht_msg m1 type_dht_store ida (d_id s) body" "msg_dht_store f ida = Some body" and f: "store_fits f" "sf_ttl f \<noteq> 0" "\<not> sf_unique f" "length (sf_id f) = 5"
    and m2: "find_value_msg m2 idc (d_id s) (sf_key f) (sf_id f) nonce"
    and s: "knows s ida" "knows s idc" "stored_wf (d_stored s)" "\<not> se_unique (d_junk s)" "shared_key (d_stored s) (sf_id f) (sf_key f)"
    and order: "\<And>vs. mset (ho_values (d_order s) vs) = mset vs"
    and fits: "\<forall>v \<in> insert (sf_value f) (values_at (d_stored s) (sf_id f) (sf_key f)). 84 + length (sf_key f) + length v \<le> dht_buf_size"
  shows "\<exists>s1 s2 vs rs. d_recv_store_msg t1 m1 (In a) s = Some s1 \<and> d_recv_find_value t2 m2 (In c) s1 = Some s2 \<and>
    dt_out (d_dtun s2) = dt_out (d_dtun s) @ map (\<lambda>r. (r, In c)) rs \<and> distinct vs \<and>
    set vs = insert (sf_value f) (values_at (d_stored s) (sf_id f) (sf_key f)) \<and>
    list_all2 (\<lambda>v r. value_reply r (d_id s) idc nonce (sf_id f) (length vs) (sf_key f) v) vs rs"
proof -
  let ?d = "received t1 (f\<lparr>sf_from := ida\<rparr>) (se_unique (d_junk s))"
  have d: "se_id ?d = sf_id f" "se_key ?d = sf_key f" "se_value ?d = sf_value f" "se_ttl ?d = sf_ttl f" "\<not> se_unique ?d"
    using f s(4) by (simp_all add: received_def)
  obtain st ds where put: "put_sdata ?d ida (d_stored s) = Some st" "stored_set st (sf_id f) (sf_key f) = Some ds" "ds \<noteq> []" "distinct (map se_value ds)"
    "se_value ` set ds = insert (sf_value f) (values_at (d_stored s) (sf_id f) (sf_key f))"
    using put_shared [of "d_stored s" ?d ida] s(3,5) f(2) d by auto
  have "length (sf_key f) < 2 ^ 16" "length (sf_value f) < 2 ^ 16" using f(1) by (simp_all add: store_fits_def dht_buf_size_def)
  then obtain p where p: "peers_inv p" "d_recv_store_msg t1 m1 (In a) s = Some (d_set_stored st (d_with_peers p s))"
    using recv_store_msg [OF m1 f(4) s(1), of t1 a] put(1) by auto
  let ?s1 = "d_set_stored st (d_with_peers p s)" and ?vs = "ho_values (d_order s) (map se_value ds)"
  have same: "d_id ?s1 = d_id s" "d_order ?s1 = d_order s" "d_stored ?s1 = st" "dt_out (d_dtun ?s1) = dt_out (d_dtun s)"
    by (simp_all add: d_set_stored_def)
  have vs: "set ?vs = se_value ` set ds" "distinct ?vs" "length ?vs = length ds"
    using order [of "map se_value ds"] put(4) by (metis set_mset_mset list.set_map, metis mset_eq_imp_distinct_iff, metis size_mset length_map)
  have "knows ?s1 idc" using s(2) p(1) by (simp add: knows_def d_set_stored_def)
  moreover have "\<forall>d \<in> set ds. 84 + length (sf_key f) + length (se_value d) \<le> dht_buf_size" using fits put(5) by blast
  ultimately obtain s2 rs where "d_recv_find_value t2 m2 (In c) ?s1 = Some s2" "dt_out (d_dtun s2) = dt_out (d_dtun ?s1) @ map (\<lambda>r. (r, In c)) rs"
    "list_all2 (\<lambda>v r. value_reply r (d_id s) idc nonce (sf_id f) (length ds) (sf_key f) v) ?vs rs"
    using find_value_answered [of m2 idc ?s1 "sf_key f" "sf_id f" nonce ds t2 c] m2 f(4) put(2,3) vs(1) unfolding same by blast
  then show ?thesis using p(2) vs put(5) same(4) by (intro exI [of _ ?s1] exI [of _ s2] exI [of _ ?vs] exI [of _ rs]) simp
qed


text \<open>Two nodes that know each other, and a query one of them has started.\<close>

definition sample_peer :: "uint160 \<Rightarrow> uint160 list \<Rightarrow> dht" where
  "sample_peer i js = (sample_dht i)\<lparr>d_rt := (rttable_init i [])\<lparr>m_nodes := set js\<rparr>, d_use_rdp := False\<rparr>"

definition sample_at :: "u16 \<Rightarrow> sockaddr_in" where
  "sample_at n = \<lparr>sin_port = n, sin_addr = 1\<rparr>"

definition sample_asker :: dht where
  "sample_asker = (sample_peer [0, 0, 0, 0, 3] [[0, 0, 0, 0, 2]])\<lparr>d_query := [(42, 0)],
     d_heap := (\<lambda>_. new_dht_query [0, 0, 0, 0, 3] [] [0, 0, 0, 0, 1] 42 (ValueFunc 3) True [7])\<rparr>"

lemma sample_peer_knows: "length i = 5 \<Longrightarrow> length j = 5 \<Longrightarrow> j \<in> set js \<Longrightarrow> knows (sample_peer i js) j"
  using empty_peers_inv by (simp add: knows_def sample_peer_def rttable_init_def dt_node_def dtun_init_def set_callback_def peers_inv_def)

lemma sample_peer_simps [simp]:
  "d_id (sample_peer i js) = i" "d_stored (sample_peer i js) = []" "d_junk (sample_peer i js) = sample_entry [] zero_id 0 False"
  "d_order (sample_peer i js) = sample_order" "\<not> d_use_rdp (sample_peer i js)" "d_results (sample_peer i js) = d_results (sample_dht i)"
  by (simp_all add: sample_peer_def rttable_init_def)


subsection \<open>Requests that fault\<close>

text \<open>
  Property C33.  A store message makes its receiver fault exactly if it withdraws (its time to live
  is 0) a value that is not stored under a key for which other values are: the code then
  dereferences the end of the set.  Any node can send such a message.
\<close>

theorem withdrawal_fault:
  assumes "dht_msg m type_dht_store src (d_id s) body" "msg_dht_store f src = Some body" "length (sf_id f) = 5" "knows s src"
    and "length (sf_key f) < 2 ^ 16" "length (sf_value f) < 2 ^ 16"
  shows "d_recv_store_msg t m (In a) s = None \<longleftrightarrow>
    sf_ttl f = 0 \<and> (\<exists>ds. stored_set (d_stored s) (sf_id f) (sf_key f) = Some ds \<and> sf_value f \<notin> se_value ` set ds)"
  using recv_store_msg [OF assms, of t a] by (auto simp: put_sdata_faults se_find_None received_def)

text \<open>
  A value message for a stored key makes its receiver fault exactly if one of the
  values, with the key and the header, is longer than the buffer of 2048 bytes in which the answers
  are composed.  Such values are stored over RDP, which does not bound them.
\<close>

lemma long_value_fault:
  assumes "find_value_msg m me (d_id s) key i nonce" "length i = 5" "knows s me" "80 + length key \<le> dht_buf_size"
    and "stored_set (d_stored s) i key = Some ds" "set (ho_values (d_order s) (map se_value ds)) = se_value ` set ds"
  shows "d_recv_find_value t m (In a) s = None \<longleftrightarrow> (\<exists>d \<in> set ds. dht_buf_size < 84 + length key + length (se_value d))"
proof -
  note f = find_value_fields [OF assms(1,2,4)]
  obtain p where p: "d_add_peer t (inet_node me a) s = Some (d_with_peers p s)" using d_add_peer_known [OF assms(3)] by blast
  have "d_add (inet_node me a) s = Some s" using assms(3) by (intro d_add_known) (simp add: inet_node_def)
  then have run: "d_recv_find_value t m (In a) s =
      run_steps (reply_value m (inet_node me a) key (length ds)) (ho_values (d_order s) (map se_value ds)) (d_with_peers p s)"
    using f p assms(5) by (simp add: d_recv_find_value_def Let_def dht_flags)
  have none: "run_steps (reply_value m c key n) vs x = None" if "\<exists>v \<in> set vs. dht_buf_size < 84 + length key + length v" for c n vs x
    using that by (induction vs arbitrary: x) (auto simp: reply_value_def split: option.split)
  show ?thesis
  proof (cases "\<exists>d \<in> set ds. dht_buf_size < 84 + length key + length (se_value d)")
    case True
    then show ?thesis using run none assms(6) by auto
  next
    case False
    then have "\<forall>v \<in> set (ho_values (d_order s) (map se_value ds)). 84 + length key + length v \<le> dht_buf_size" using assms(6) by (auto simp: not_less)
    then show ?thesis
      using False run replies_sent [of m nonce i "d_with_peers p s" me "ho_values (d_order s) (map se_value ds)" key a "length ds"] f(1,2,6) assms(3)
      by (auto simp: knows_def)
  qed
qed

text \<open>The samples: a key with one value, and messages to the node that stores it.\<close>

definition sample_owner :: "stored_data list \<Rightarrow> dht" where
  "sample_owner ds = (sample_peer [0, 0, 0, 0, 2] [[0, 0, 0, 0, 5]])\<lparr>d_stored := [([0, 0, 0, 0, 1], [([7], ds)])]\<rparr>"

lemma sample_owner_knows: "knows (sample_owner ds) [0, 0, 0, 0, 5]"
  using sample_peer_knows [of "[0, 0, 0, 0, 2]" "[0, 0, 0, 0, 5]" "[[0, 0, 0, 0, 5]]"] by (simp add: sample_owner_def knows_def)

lemma sample_owner_simps [simp]:
  "d_id (sample_owner ds) = [0, 0, 0, 0, 2]" "stored_set (d_stored (sample_owner ds)) [0, 0, 0, 0, 1] [7] = Some ds"
  "d_order (sample_owner ds) = sample_order"
  by (simp_all add: sample_owner_def stored_set_def stored_map_def)

theorem withdrawal_fault_witness:
  "\<exists>m body. dht_msg m type_dht_store [0, 0, 0, 0, 5] [0, 0, 0, 0, 2] body \<and> msg_dht_store (sample_store\<lparr>sf_ttl := 0\<rparr>) [0, 0, 0, 0, 5] = Some body \<and>
    d_recv_store_msg 100 m (In (sample_at 9)) (sample_owner [sample_entry [1] [0, 0, 0, 0, 6] 60 False]) = None"
proof -
  let ?f = "sample_store\<lparr>sf_ttl := 0\<rparr>" and ?s = "sample_owner [sample_entry [1] [0, 0, 0, 0, 6] 60 False]"
  obtain h where "rdp_store_hdr ?f [0, 0, 0, 0, 5] = Some h"
    using rdp_store_hdr_fields [of ?f "[0, 0, 0, 0, 5]"] by (auto simp: sample_store_def)
  then have body: "msg_dht_store ?f [0, 0, 0, 0, 5] = Some (h @ [7, 1, 2, 3])" by (simp add: msg_dht_store_def sample_store_def)
  obtain m where "dht_msg m type_dht_store [0, 0, 0, 0, 5] [0, 0, 0, 0, 2] (h @ [7, 1, 2, 3])"
    using send_msg_inet [of "[0, 0, 0, 0, 5]" "[0, 0, 0, 0, 2]" "h @ [7, 1, 2, 3]" type_dht_store] by auto
  then show ?thesis
    using withdrawal_fault [OF _ body _ sample_owner_knows, of m "[sample_entry [1] [0, 0, 0, 0, 6] 60 False]" 100 "sample_at 9"] body
    by (auto simp: sample_store_def sample_entry_def)
qed

lemma long_value_fault_witness:
  "\<exists>m. find_value_msg m [0, 0, 0, 0, 5] [0, 0, 0, 0, 2] [7] [0, 0, 0, 0, 1] 42 \<and>
    d_recv_find_value 100 m (In (sample_at 9)) (sample_owner [sample_entry (replicate 2000 1) [0, 0, 0, 0, 6] 60 False]) = None"
proof -
  let ?s = "sample_owner [sample_entry (replicate 2000 1) [0, 0, 0, 0, 6] 60 False]"
  obtain m where m: "find_value_msg m [0, 0, 0, 0, 5] (d_id ?s) [7] [0, 0, 0, 0, 1] 42"
    using send_find_value_sent [of "[0, 0, 0, 0, 1]" "sample_peer [0, 0, 0, 0, 5] []" "[0, 0, 0, 0, 2]" "[7]" 42] by (auto simp: dht_buf_size_def)
  then show ?thesis
    using long_value_fault [OF m _ sample_owner_knows, of "[sample_entry (replicate 2000 1) [0, 0, 0, 0, 6] 60 False]" 100 "sample_at 9"]
    by (auto simp: sample_entry_def sample_order_def dht_buf_size_def)
qed

subsection \<open>What restoring passes on\<close>

lemma restore_connect_funcs:
  "restore_connect t f rc nodes s = Some s' \<Longrightarrow>
   d_funcs s' = d_funcs s @ replicate (length (filter (\<lambda>c. ca_id c \<noteq> d_id s \<and> ca_id c \<notin> rc) nodes)) (RdpStore f)"
proof (induction t f rc nodes s rule: restore_connect.induct)
  case (2 t f rc c nodes s)
  have "d_funcs x = d_funcs s @ [RdpStore f] \<and> d_rt x = d_rt s" if "connect_store t f i s = Some x" for i x
    using that by (auto simp: connect_store_def d_connect_def split: Option.bind_splits if_splits)
  then show ?case using 2 by (fastforce split: if_splits Option.bind_splits)
qed simp

lemma restore_send_grows: "restore_send body nodes rc s = Some (rc', s') \<Longrightarrow> set (dt_out (d_dtun s)) \<subseteq> set (dt_out (d_dtun s'))"
  by (induction body nodes rc s rule: restore_send.induct) (auto simp: d_send_def dt_send_def split: if_splits Option.bind_splits)

lemma restore_send_sent:
  assumes "restore_send body nodes rc s = Some (rc', s')" "inet_node i a \<in> set nodes" "i \<noteq> d_id s" "i \<notin> rc" "distinct (map ca_id nodes)"
    and "length (d_id s) = 5" "length i = 5"
  shows "\<exists>m. (m, In a) \<in> set (dt_out (d_dtun s')) \<and> dht_msg m type_dht_store (d_id s) i body"
  using assms
proof (induction body nodes rc s rule: restore_send.induct)
  case (2 body c nodes rc s)
  show ?case
  proof (cases "c = inet_node i a")
    case True
    then obtain m where m: "send_msg body type_dht_store c (d_id s) = Some [(m, In a)]" "dht_msg m type_dht_store (d_id s) i body"
      using send_msg_inet [OF 2(8,9)] by blast
    then have "restore_send body nodes (insert i rc) (d_send [(m, In a)] s) = Some (rc', s')" using 2(3,5,6) True by (simp add: inet_node_def)
    then have "set (dt_out (d_dtun (d_send [(m, In a)] s))) \<subseteq> set (dt_out (d_dtun s'))" by (rule restore_send_grows)
    then show ?thesis using m(2) by (auto simp: d_send_def)
  next
    case False
    then have "inet_node i a \<in> set nodes" "ca_id c \<noteq> i" using 2(4,7) by (auto simp: inet_node_def image_iff)
    then show ?thesis using 2 by (auto simp: d_send_def split: if_splits Option.bind_splits)
  qed
qed simp

lemma ttl_left_age:
  assumes "se_time e \<le> t" "t - se_time e < uint (se_ttl e)"
  shows "uint (ttl_left t e) = uint (se_ttl e) - (t - se_time e)"
proof -
  define x where "x = uint (se_ttl e) - (t - se_time e)"
  have "0 \<le> x" "x < 2 ^ 16" using assms uint_lt2p [of "se_ttl e"] by (simp_all add: x_def)
  then have "uint (of_int x :: u16) = x" by (simp add: uint_word_of_int)
  moreover have "ttl_left t e = of_int x" by (simp add: ttl_left_def x_def)
  ultimately show ?thesis by (simp add: x_def)
qed

text \<open>
  A value that is restored keeps its age by datagram but not over RDP.  The store
  message to a new node carries what is left of the time to live; the closures that store
  the value over RDP, one for each new node, carry the whole of it, so that a value handed on
  within every interval never expires.
\<close>

lemma restored_ttl:
  assumes "se_time e \<le> t" "t - se_time e < uint (se_ttl e)" "se_original e \<le> 0" "length (se_id e) = 5" "length (se_src e) = 5"
    and "store_fits (restore_store e (ttl_left t e))" "restore_by_udp t nodes e s = Some (me, s1)" "restore_by_rdp t nodes e s = Some (me', s2)"
    and "inet_node i a \<in> set nodes" "i \<noteq> d_id s" "i \<notin> se_recvd e" "distinct (map ca_id nodes)" "length (d_id s) = 5" "length i = 5"
  shows "(\<exists>m. (m, In a) \<in> set (dt_out (d_dtun s1)) \<and> id_at 48 m = se_id e \<and> id_at 68 m = se_src e \<and> uint (u16_at 92 m) = uint (se_ttl e) - (t - se_time e)) \<and>
    (\<exists>n > 0. d_funcs s2 = d_funcs s @ replicate n (RdpStore (restore_store e (se_ttl e))))"
proof
  let ?f = "restore_store e (ttl_left t e)"
  have short: "length (sf_key ?f) < 2 ^ 16" "length (sf_value ?f) < 2 ^ 16" using assms(6) by (simp_all add: store_fits_def dht_buf_size_def)
  obtain b rc x where b: "msg_dht_store ?f (se_src e) = Some b" "restore_send b nodes (se_recvd e) s = Some (rc, x)" "dt_out (d_dtun s1) = dt_out (d_dtun x)"
    using assms(2,3,6,7) by (auto simp: restore_by_udp_def d_set_stored_def Let_def split: Option.bind_splits if_splits)
  obtain m where m: "(m, In a) \<in> set (dt_out (d_dtun s1))" "dht_msg m type_dht_store (d_id s) i b"
    using restore_send_sent [OF b(2) assms(9-14)] b(3) by auto
  have "id_at 48 m = se_id e" "id_at 68 m = se_src e" "u16_at 92 m = ttl_left t e"
    using store_msg_fields [OF m(2) b(1) _ assms(5) short] assms(4) by (simp_all add: restore_store_def)
  then show "\<exists>m. (m, In a) \<in> set (dt_out (d_dtun s1)) \<and> id_at 48 m = se_id e \<and> id_at 68 m = se_src e \<and> uint (u16_at 92 m) = uint (se_ttl e) - (t - se_time e)"
    using m(1) ttl_left_age [OF assms(1,2)] by auto
next
  let ?n = "length (filter (\<lambda>c. ca_id c \<noteq> d_id s \<and> ca_id c \<notin> se_recvd e) nodes)"
  have "inet_node i a \<in> set (filter (\<lambda>c. ca_id c \<noteq> d_id s \<and> ca_id c \<notin> se_recvd e) nodes)" using assms(9-11) by (simp add: inet_node_def)
  then have "?n > 0" by (rule length_pos_if_in_set)
  moreover have "d_funcs s2 = d_funcs s @ replicate ?n (RdpStore (restore_store e (se_ttl e)))"
    using assms(2,3,8) by (auto simp: restore_by_rdp_def split: Option.bind_splits if_splits dest!: restore_connect_funcs)
  ultimately show "\<exists>n > 0. d_funcs s2 = d_funcs s @ replicate n (RdpStore (restore_store e (se_ttl e)))" by blast
qed

lemma restored_ttl_witness:
  "\<exists>m. uint (u16_at 92 m) = (20::int) \<and>
    (\<exists>me s1. restore_by_udp 140 [inet_node [0, 0, 0, 0, 5] (sample_at 9)] (sample_entry [1] [0, 0, 0, 0, 6] 60 False)
       ((sample_peer [0, 0, 0, 0, 2] [])\<lparr>d_rdp := rdp_init [60000, 1, 7] 0\<rparr>) = Some (me, s1) \<and> (m, In (sample_at 9)) \<in> set (dt_out (d_dtun s1)))"
proof -
  let ?e = "sample_entry [1] [0, 0, 0, 0, 6] 60 False" and ?s = "(sample_peer [0, 0, 0, 0, 2] [])\<lparr>d_rdp := rdp_init [60000, 1, 7] 0\<rparr>"
  let ?n = "[inet_node [0, 0, 0, 0, 5] (sample_at 9)]" and ?f = "restore_store ?e (ttl_left 140 ?e)"
  have e: "se_time ?e = 100" "se_ttl ?e = 60" "se_original ?e = 0" "se_id ?e = [0, 0, 0, 0, 1]" "se_src ?e = [0, 0, 0, 0, 6]" "se_recvd ?e = {}"
    "se_key ?e = [7]" "se_value ?e = [1]"
    by (simp_all add: sample_entry_def)
  have fits: "store_fits ?f" by (simp add: store_fits_def restore_store_def e dht_buf_size_def)
  obtain h where "rdp_store_hdr ?f (se_src ?e) = Some h"
    using rdp_store_hdr_fields [of ?f "se_src ?e"] by (auto simp: restore_store_def e)
  then have b: "msg_dht_store ?f (se_src ?e) = Some (h @ [7, 1])" by (simp add: msg_dht_store_def restore_store_def e)
  obtain m where "send_msg (h @ [7, 1]) type_dht_store (inet_node [0, 0, 0, 0, 5] (sample_at 9)) (d_id ?s) = Some [(m, In (sample_at 9))]"
    using send_msg_inet [of "d_id ?s" "[0, 0, 0, 0, 5]" "h @ [7, 1]" type_dht_store "sample_at 9"] by auto
  then obtain s1 where udp: "restore_by_udp 140 ?n ?e ?s = Some (False, s1)"
    using b fits by (auto simp: restore_by_udp_def e has_me_def inet_node_def d_send_def Let_def)
  have "restore_by_rdp 140 ?n ?e ?s \<noteq> None"
    by (simp add: restore_by_rdp_def e inet_node_def connect_store_def d_connect_def connect_def m_rnd_def generate_desc_def rdp_init_def Let_def)
  then obtain me' s2 where rdp: "restore_by_rdp 140 ?n ?e ?s = Some (me', s2)" by fastforce
  show ?thesis
    using restored_ttl [OF _ _ _ _ _ fits udp rdp, of "[0, 0, 0, 0, 5]" "sample_at 9"] udp by (auto simp: e inet_node_def)
qed

end
