(* ===== verification/Proxy.thy ===== *)
theory Proxy
  imports Dht "HOL-Library.List_Lexorder"
begin

section \<open>The proxy (proxy.hpp, proxy.cpp)\<close>

text \<open>
  A node behind a symmetric NAT registers with another node, which stores and fetches values for
  it and forwards datagrams to it; every node plays both parts.

  \<open>px_dht\<close> is the DHT, and through it the directory of tunnels, the peers, the state of the
  NAT detection, the datagrams sent and RDP.  The objects of \<^verbatim>\<open>class getdata\<close> are shared by
  \<^verbatim>\<open>m_getdata\<close> and \<^verbatim>\<open>m_rdp_get\<close> and live in \<open>px_heap\<close>.  \<open>px_funcs\<close> are the callbacks passed to
  RDP, which the DHT's list names by \<open>RdpOther\<close> and their position, those of the
  application (\<open>PxApp\<close>) among them; \<open>px_gets\<close> are those passed
  to \<^verbatim>\<open>dht::find_value\<close>, by whose position the DHT's log names them.  \<open>px_calls\<close> logs the
  calls of the datagram, advertisement and RDP components and of the application's callback
  for datagrams, \<open>px_results\<close> those of the callbacks for values.  \<open>px_junk\<close> is what memory holds
  that is read without having been set.  A null \<^verbatim>\<open>m_server.id\<close> is \<open>None\<close>.  A set of values is
  iterated in the order of \<^verbatim>\<open>value_t::operator<\<close>, which is the lexicographic one.
\<close>

definition register_timeout :: int where "register_timeout = 2"
definition register_ttl :: int where "register_ttl = 300"
definition get_timeout :: int where "get_timeout = 10"
definition proxy_timer_interval :: int where "proxy_timer_interval = 30"
definition proxy_rdp_timeout :: int where "proxy_rdp_timeout = 30"
definition proxy_store_port :: u16 where "proxy_store_port = 200"
definition proxy_get_port :: u16 where "proxy_get_port = 201"
definition proxy_get_reply_port :: u16 where "proxy_get_reply_port = 202"

definition proxy_get_success :: u8 where "proxy_get_success = 0xd0"
definition proxy_get_fail :: u8 where "proxy_get_fail = 0xd1"
definition proxy_get_next :: u8 where "proxy_get_next = 0xd2"

text \<open>The buffers of 4096 bytes.\<close>

definition px_buf_size :: nat where "px_buf_size = 4096"

record reg_addr =
  ra_session :: u32
  ra_addr :: cageaddr
  ra_time :: int

record getdata =
  gd_key :: "u8 list"
  gd_func :: nat
  gd_vset :: "u8 list set"
  gd_indeces :: "u16 set"
  gd_total :: int
  gd_desc :: int
  gd_is_rdp :: bool
  gd_timer :: bool

record rdp_get =
  pg_id :: uint160
  pg_func :: nat
  pg_key :: "u8 list"
  pg_time :: int
  pg_nonce :: u32
  pg_data :: nat

datatype recv_store_state = RS_HDR | RS_KEY | RS_VAL

record px_recv_store =
  xs_state :: recv_store_state
  xs_key :: "u8 list"
  xs_val :: "u8 list"
  xs_keylen :: u16
  xs_valuelen :: u16
  xs_ttl :: u16
  xs_unique :: bool
  xs_id :: uint160
  xs_src :: uint160
  xs_time :: int

datatype recv_get_state = RG_HDR | RG_KEY

record px_recv_get =
  xg_id :: uint160
  xg_src :: uint160
  xg_key :: "u8 list"
  xg_keylen :: u16
  xg_nonce :: u32
  xg_time :: int
  xg_state :: recv_get_state

datatype recv_get_reply_state = RGR_HDR | RGR_VAL_HDR | RGR_VAL

record px_recv_reply =
  xr_val :: "u8 list"
  xr_valuelen :: u16
  xr_read :: u16
  xr_state :: recv_get_reply_state
  xr_nonce :: u32
  xr_time :: int

record get_reply_func =
  gf_id :: uint160
  gf_src :: uint160
  gf_nonce :: u32
  gf_is_rdp :: bool

record rdp_get_reply_func =
  rf_result :: bool
  rf_vset :: "u8 list set"
  rf_nonce :: u32
  rf_id :: uint160

datatype px_rdp_func = PxRecvStore | PxRecvGet | PxRecvGetReply | PxStore store_func | PxGet | PxGetReply rdp_get_reply_func | PxApp nat

datatype get_caller = ReplyTo get_reply_func | AppGet nat

datatype proxy_call =
    CallSendDgram packetbuf uint160 u8
  | CallAdvertiseTo uint160 u16 u16 "u8 list"
  | CallDgramFunc "u8 list" uint160
  | CallInputDgram uint160 packetbuf

record proxy =
  px_dht :: dht
  px_rnds :: "u32 list"
  px_server :: "cageaddr option"
  px_is_registered :: bool
  px_is_registering :: bool
  px_nonce :: u32
  px_timer_register :: bool
  px_timer :: int
  px_is_callback :: bool
  px_registered :: "uint160 \<rightharpoonup> reg_addr"
  px_getdata :: "(u32 \<times> nat) list"
  px_heap :: "nat \<Rightarrow> getdata"
  px_next :: nat
  px_store_data :: "store_func list"
  px_store_desc :: int
  px_get_desc :: int
  px_reply_desc :: int
  px_rdp_store :: "(int \<times> int) list"
  px_rdp_get :: "(int \<times> rdp_get) list"
  px_recv_stores :: "(int \<times> px_recv_store) list"
  px_recv_gets :: "(int \<times> px_recv_get) list"
  px_rdp_reply :: "(int \<times> int) list"
  px_recv_replies :: "(int \<times> px_recv_reply) list"
  px_funcs :: "px_rdp_func list"
  px_gets :: "get_caller list"
  px_junk :: u8
  px_junk_unique :: bool
  px_calls :: "proxy_call list"
  px_results :: "(nat \<times> u8 list set option) list"

abbreviation px_id :: "proxy \<Rightarrow> uint160" where
  "px_id s \<equiv> d_id (px_dht s)"

abbreviation px_dtun :: "proxy \<Rightarrow> dtun" where
  "px_dtun s \<equiv> d_dtun (px_dht s)"

abbreviation px_nat :: "proxy \<Rightarrow> node_state" where
  "px_nat s \<equiv> dt_nat (px_dtun s)"

subsection \<open>Calls of other components\<close>

definition px_set_dht :: "dht \<Rightarrow> proxy \<Rightarrow> proxy" where
  "px_set_dht dh s = s\<lparr>px_dht := dh\<rparr>"

definition px_set_dtun :: "dtun \<Rightarrow> proxy \<Rightarrow> proxy" where
  "px_set_dtun dt s = px_set_dht ((px_dht s)\<lparr>d_dtun := dt\<rparr>) s"

definition px_send :: "sent \<Rightarrow> proxy \<Rightarrow> proxy" where
  "px_send ms s = px_set_dht (d_send ms (px_dht s)) s"

definition px_called :: "nat \<Rightarrow> u8 list set option \<Rightarrow> proxy \<Rightarrow> proxy" where
  "px_called tag res s = s\<lparr>px_results := px_results s @ [(tag, res)]\<rparr>"

definition px_call :: "proxy_call \<Rightarrow> proxy \<Rightarrow> proxy" where
  "px_call c s = s\<lparr>px_calls := px_calls s @ [c]\<rparr>"

definition px_put :: "nat \<Rightarrow> getdata \<Rightarrow> proxy \<Rightarrow> proxy" where
  "px_put p g s = s\<lparr>px_heap := (px_heap s)(p := g)\<rparr>"

lemmas px_upd = px_set_dht_def px_set_dtun_def px_send_def px_called_def px_call_def px_put_def

definition px_connect :: "u16 \<Rightarrow> uint160 \<Rightarrow> u16 \<Rightarrow> px_rdp_func \<Rightarrow> proxy \<Rightarrow> (int \<times> proxy) option" where
  "px_connect sp dst dp f s = do {
     (d, dh) \<leftarrow> d_connect sp dst dp (RdpOther (length (px_funcs s))) (px_dht s);
     Some (d, (px_set_dht dh s)\<lparr>px_funcs := px_funcs s @ [f]\<rparr>)
   }"

definition px_listen :: "u16 \<Rightarrow> px_rdp_func \<Rightarrow> proxy \<Rightarrow> (int \<times> proxy) option" where
  "px_listen port f s = do {
     let dh = px_dht s;
     (d, r) \<leftarrow> listen port (length (d_funcs dh)) (d_rdp dh);
     Some (d, (px_set_dht (dh\<lparr>d_rdp := r, d_funcs := d_funcs dh @ [RdpOther (length (px_funcs s))]\<rparr>) s)\<lparr>px_funcs := px_funcs s @ [f]\<rparr>)
   }"

definition px_close :: "int \<Rightarrow> proxy \<Rightarrow> proxy option" where
  "px_close d s = do { dh \<leftarrow> d_close d (px_dht s); Some (px_set_dht dh s) }"

definition px_rdp_send :: "int \<Rightarrow> u8 list \<Rightarrow> proxy \<Rightarrow> proxy option" where
  "px_rdp_send d buf s = do { dh \<leftarrow> d_rdp_send d buf (px_dht s); Some (px_set_dht dh s) }"

definition px_receive :: "int \<Rightarrow> int \<Rightarrow> proxy \<Rightarrow> u8 list \<times> proxy" where
  "px_receive d n s = (let (bs, dh) = d_receive d n (px_dht s) in (bs, px_set_dht dh s))"

definition px_find_value :: "int \<Rightarrow> uint160 \<Rightarrow> u8 list \<Rightarrow> get_caller \<Rightarrow> proxy \<Rightarrow> proxy option" where
  "px_find_value t i key f s = do {
     dh \<leftarrow> d_find_value t i key (length (px_gets s)) (px_dht s);
     Some ((px_set_dht dh s)\<lparr>px_gets := px_gets s @ [f]\<rparr>)
   }"

definition px_dht_store :: "int \<Rightarrow> uint160 \<Rightarrow> u8 list \<Rightarrow> u8 list \<Rightarrow> u16 \<Rightarrow> uint160 \<Rightarrow> bool \<Rightarrow> proxy \<Rightarrow> proxy option" where
  "px_dht_store t i key val ttl src unique s = do {
     dh \<leftarrow> d_store_from t i key val ttl src unique (px_dht s);
     Some (px_set_dht dh s)
   }"

subsection \<open>Registration\<close>

text \<open>
  \<^verbatim>\<open>dtun\<close> asks the proxy whether a node is registered; its \<open>dt_proxied\<close> is kept equal to the
  domain of the table.
\<close>

definition px_set_registered :: "(uint160 \<rightharpoonup> reg_addr) \<Rightarrow> proxy \<Rightarrow> proxy" where
  "px_set_registered m s = px_set_dtun ((px_dtun s)\<lparr>dt_proxied := dom m\<rparr>) (s\<lparr>px_registered := m\<rparr>)"

definition px_has_registered :: "uint160 \<Rightarrow> proxy \<Rightarrow> bool" where
  "px_has_registered i s \<longleftrightarrow> px_registered s i \<noteq> None"

definition px_register_node :: "proxy \<Rightarrow> proxy option" where
  "px_register_node s =
     (if px_is_registering s then Some s
      else do {
        dt \<leftarrow> dt_find_node (px_id s) (NodesTo 0) (px_dtun s);
        Some (px_set_dtun dt (s\<lparr>px_is_registering := True\<rparr>))
      })"

text \<open>\<^verbatim>\<open>register_func\<close>: the answer to the query \<open>px_register_node\<close> starts.\<close>

definition px_register_found :: "cageaddr list \<Rightarrow> proxy \<Rightarrow> proxy option" where
  "px_register_found nodes s =
     (case find (\<lambda>c. ca_id c \<noteq> px_id s) nodes of
        None \<Rightarrow> Some s
      | Some c \<Rightarrow> do {
          (nonce, rs) \<leftarrow> fresh_nonce (\<lambda>_. False) (px_rnds s);
          let s = s\<lparr>px_rnds := rs, px_nonce := nonce, px_timer_register := True\<rparr>;
          ms \<leftarrow> send_msg (htonl_bytes (dt_session (px_dtun s)) @ htonl_bytes nonce) type_proxy_register c (px_id s);
          Some (px_send ms s)
        })"

definition px_timer_register_fire :: "proxy \<Rightarrow> proxy" where
  "px_timer_register_fire s = s\<lparr>px_is_registering := False, px_timer_register := False\<rparr>"

definition px_recv_register_reply :: "u8 list \<Rightarrow> saddr \<Rightarrow> proxy \<Rightarrow> proxy option" where
  "px_recv_register_reply msg from s =
     (if \<not> px_is_registering s \<or> hd_dst (hdr_at msg) \<noteq> px_id s \<or> px_nonce s \<noteq> u32_at 48 msg then Some s
      else do {
        c \<leftarrow> new_cageaddr msg from;
        Some (s\<lparr>px_server := Some c, px_is_registered := True, px_is_registering := False, px_timer_register := False\<rparr>)
      })"

definition px_recv_register :: "int \<Rightarrow> u8 list \<Rightarrow> saddr \<Rightarrow> proxy \<Rightarrow> proxy option" where
  "px_recv_register t msg from s =
     (if hd_dst (hdr_at msg) \<noteq> px_id s then Some s
      else do {
        c \<leftarrow> new_cageaddr msg from;
        let a = \<lparr>ra_session = u32_at 48 msg, ra_addr = c, ra_time = t\<rparr>;
        let s' = px_set_registered ((px_registered s)(ca_id c \<mapsto> a)) s;
        s' \<leftarrow> (case px_registered s (ca_id c) of
                None \<Rightarrow> do { dt \<leftarrow> dt_register_node (ca_id c) (ra_session a) (px_dtun s'); Some (Some (px_set_dtun dt s')) }
              | Some old \<Rightarrow> Some (if ra_session old = ra_session a then Some s' else None));
        case s' of
          None \<Rightarrow> Some s
        | Some s' \<Rightarrow> do {
            ms \<leftarrow> send_msg (take 4 (drop 52 msg)) type_proxy_register_reply c (px_id s');
            Some (px_send ms s')
          }
      })"

definition px_refresh :: "int \<Rightarrow> proxy \<Rightarrow> proxy" where
  "px_refresh t s =
     px_set_registered (\<lambda>i. case px_registered s i of None \<Rightarrow> None | Some a \<Rightarrow> if t - ra_time a > register_ttl then None else Some a) s"

subsection \<open>Storing by datagram and its retries\<close>

definition create_store_func :: "uint160 \<Rightarrow> u8 list \<Rightarrow> u8 list \<Rightarrow> u16 \<Rightarrow> bool \<Rightarrow> store_func" where
  "create_store_func i key val ttl unique =
     \<lparr>sf_key = key, sf_value = val, sf_ttl = ttl, sf_id = i, sf_from = zero_id, sf_unique = unique\<rparr>"

definition px_connect_store :: "int \<Rightarrow> store_func \<Rightarrow> proxy \<Rightarrow> proxy option" where
  "px_connect_store t f s = do {
     c \<leftarrow> px_server s;
     (d, s) \<leftarrow> px_connect 0 (ca_id c) proxy_store_port (PxStore f) s;
     Some (s\<lparr>px_rdp_store := ord_ins d t (px_rdp_store s)\<rparr>)
   }"

definition px_store_by_rdp :: "int \<Rightarrow> uint160 \<Rightarrow> u8 list \<Rightarrow> u8 list \<Rightarrow> u16 \<Rightarrow> bool \<Rightarrow> proxy \<Rightarrow> proxy option" where
  "px_store_by_rdp t i key val ttl unique s = px_connect_store t (create_store_func i key val ttl unique) s"

definition msg_proxy_store :: "uint160 \<Rightarrow> u8 list \<Rightarrow> u8 list \<Rightarrow> u16 \<Rightarrow> bool \<Rightarrow> u8 list option" where
  "msg_proxy_store i key val ttl unique = do {
     b \<leftarrow> id_bytes i;
     Some (b @ htons_bytes (of_nat (length key)) @ htons_bytes (of_nat (length val)) @ htons_bytes ttl @ [store_flags unique, 0] @ key @ val)
   }"

definition px_store :: "int \<Rightarrow> uint160 \<Rightarrow> u8 list \<Rightarrow> u8 list \<Rightarrow> u16 \<Rightarrow> bool \<Rightarrow> proxy \<Rightarrow> proxy option" where
  "px_store t i key val ttl unique s =
     (if \<not> px_is_registered s then
        (if px_nat s = node_symmetric then do {
           s \<leftarrow> px_register_node s;
           Some (if d_use_rdp (px_dht s) then s\<lparr>px_store_data := px_store_data s @ [create_store_func i key val ttl unique]\<rparr> else s)
         }
         else Some s)
      else if d_use_rdp (px_dht s) then px_store_by_rdp t i key val ttl unique s
      else if 76 + length key + length val > px_buf_size then Some s
      else do {
        b \<leftarrow> msg_proxy_store i key val ttl unique;
        c \<leftarrow> px_server s;
        ms \<leftarrow> send_msg b type_proxy_store c (px_id s);
        Some (px_send ms s)
      })"

text \<open>
  The value is copied from \<^verbatim>\<open>&store->data[keylen]\<close>, where \<^verbatim>\<open>data\<close> is an array of 32-bit words: four
  times the length of the key behind the header.  \<open>rest\<close> are the bytes of the packet
  buffer behind the datagram; what lies behind the buffer is not the code's to read.
\<close>

definition px_recv_store_msg :: "int \<Rightarrow> u8 list \<Rightarrow> u8 list \<Rightarrow> proxy \<Rightarrow> proxy option" where
  "px_recv_store_msg t msg rest s =
     (let keylen = unat (u16_at 68 msg); valuelen = unat (u16_at 70 msg); src = hd_src (hdr_at msg) in
      if length msg \<noteq> 76 + keylen + valuelen \<or> hd_dst (hdr_at msg) \<noteq> px_id s \<or> \<not> px_has_registered src s then Some s
      else if length (msg @ rest) < 76 + 4 * keylen + valuelen then None
      else px_dht_store t (id_at 48 msg) (take keylen (drop 76 msg)) (take valuelen (drop (76 + 4 * keylen) (msg @ rest))) (u16_at 72 msg) src
             (u8_at 74 msg AND dht_flag_unique \<noteq> 0) s)"

text \<open>The test should be a disjunction: without a server the null identifier is dereferenced.\<close>

definition px_retry_storing :: "int \<Rightarrow> proxy \<Rightarrow> proxy option" where
  "px_retry_storing t s =
     (if \<not> px_is_registered s \<and> px_nat s \<noteq> node_symmetric then Some s
      else do {
        s \<leftarrow> run_steps (px_connect_store t) (px_store_data s) s;
        Some (s\<lparr>px_store_data := []\<rparr>)
      })"

subsection \<open>Fetching by datagram\<close>

definition new_getdata :: "u8 list \<Rightarrow> nat \<Rightarrow> getdata" where
  "new_getdata key tag = \<lparr>gd_key = key, gd_func = tag, gd_vset = {}, gd_indeces = {}, gd_total = 0, gd_desc = 0, gd_is_rdp = False, gd_timer = True\<rparr>"

definition px_alloc :: "u32 \<Rightarrow> getdata \<Rightarrow> proxy \<Rightarrow> proxy" where
  "px_alloc nonce g s =
     (let p = px_next s in (px_put p g s)\<lparr>px_next := p + 1, px_getdata := ord_ins nonce p (px_getdata s)\<rparr>)"

definition px_erase_get :: "u32 \<Rightarrow> nat \<Rightarrow> proxy \<Rightarrow> proxy" where
  "px_erase_get nonce p s = (px_put p ((px_heap s p)\<lparr>gd_timer := False\<rparr>) s)\<lparr>px_getdata := ord_del nonce (px_getdata s)\<rparr>"

definition px_get_nonce :: "proxy \<Rightarrow> (u32 \<times> proxy) option" where
  "px_get_nonce s = do {
     (nonce, rs) \<leftarrow> fresh_nonce (\<lambda>r. ord_find (px_getdata s) r \<noteq> None) (px_rnds s);
     Some (nonce, s\<lparr>px_rnds := rs\<rparr>)
   }"

definition px_get_by_rdp :: "int \<Rightarrow> uint160 \<Rightarrow> u8 list \<Rightarrow> nat \<Rightarrow> proxy \<Rightarrow> proxy option" where
  "px_get_by_rdp t i key tag s = do {
     (nonce, s) \<leftarrow> px_get_nonce s;
     c \<leftarrow> px_server s;
     (d, s) \<leftarrow> px_connect 0 (ca_id c) proxy_get_port PxGet s;
     let p = px_next s;
     let s = px_alloc nonce ((new_getdata key tag)\<lparr>gd_is_rdp := True, gd_desc := d\<rparr>) s;
     Some (s\<lparr>px_rdp_get := ord_ins d \<lparr>pg_id = i, pg_func = tag, pg_key = key, pg_time = t, pg_nonce = nonce, pg_data = p\<rparr> (px_rdp_get s)\<rparr>)
   }"

definition msg_proxy_get :: "uint160 \<Rightarrow> u8 list \<Rightarrow> u32 \<Rightarrow> u8 list option" where
  "msg_proxy_get i key nonce = do {
     b \<leftarrow> id_bytes i;
     Some (htonl_bytes nonce @ b @ htons_bytes (of_nat (length key)) @ [0, 0] @ key)
   }"

definition px_get :: "int \<Rightarrow> uint160 \<Rightarrow> u8 list \<Rightarrow> nat \<Rightarrow> proxy \<Rightarrow> proxy option" where
  "px_get t i key tag s =
     (if \<not> px_is_registered s then do {
        s \<leftarrow> (if px_nat s = node_symmetric then px_register_node s else Some s);
        Some (px_called tag None s)
      }
      else if d_use_rdp (px_dht s) then px_get_by_rdp t i key tag s
      else if 76 + length key > px_buf_size then Some (px_called tag None s)
      else do {
        (nonce, s) \<leftarrow> px_get_nonce s;
        let s = px_alloc nonce (new_getdata key tag) s;
        b \<leftarrow> msg_proxy_get i key nonce;
        c \<leftarrow> px_server s;
        ms \<leftarrow> send_msg b type_proxy_get c (px_id s);
        Some (px_send ms s)
      })"

definition px_recv_get_msg :: "int \<Rightarrow> u8 list \<Rightarrow> proxy \<Rightarrow> proxy option" where
  "px_recv_get_msg t msg s =
     (let src = hd_src (hdr_at msg); keylen = unat (u16_at 72 msg) in
      if \<not> px_has_registered src s \<or> length msg \<noteq> 76 + keylen then Some s
      else px_find_value t (id_at 52 msg) (take keylen (drop 76 msg))
             (ReplyTo \<lparr>gf_id = id_at 52 msg, gf_src = src, gf_nonce = u32_at 48 msg, gf_is_rdp = False\<rparr>) s)"

definition get_reply_body :: "get_reply_func \<Rightarrow> u16 \<Rightarrow> u16 \<Rightarrow> u8 \<Rightarrow> u8 list \<Rightarrow> u8 list option" where
  "get_reply_body f index tot flag val = do {
     b \<leftarrow> id_bytes (gf_id f);
     Some (htonl_bytes (gf_nonce f) @ b @ htons_bytes index @ htons_bytes tot @ [flag, 0, 0, 0] @ val)
   }"

text \<open>A value longer than the buffer in which the datagram is composed is written over its end.\<close>

fun px_send_values :: "get_reply_func \<Rightarrow> cageaddr \<Rightarrow> u16 \<Rightarrow> u16 \<Rightarrow> u8 list list \<Rightarrow> proxy \<Rightarrow> proxy option" where
  "px_send_values f c tot index [] s = Some s"
| "px_send_values f c tot index (v # vs) s =
     (if 80 + length v > px_buf_size then None
      else do {
        b \<leftarrow> get_reply_body f index tot 1 v;
        ms \<leftarrow> send_msg b type_proxy_get_reply c (px_id s);
        px_send_values f c tot (index + 1) vs (px_send ms s)
      })"

definition px_send_reply :: "get_reply_func \<Rightarrow> u8 list set option \<Rightarrow> proxy \<Rightarrow> proxy option" where
  "px_send_reply f res s =
     (case px_registered s (gf_src f) of
        None \<Rightarrow> Some s
      | Some a \<Rightarrow>
          (case res of
             Some vset \<Rightarrow> px_send_values f (ra_addr a) (of_nat (card vset)) 1 (sorted_list_of_set vset) s
           | None \<Rightarrow> do {
               b \<leftarrow> get_reply_body f 0 0 0 [];
               ms \<leftarrow> send_msg b type_proxy_get_reply (ra_addr a) (px_id s);
               Some (px_send ms s)
             }))"

definition px_send_reply_by_rdp :: "int \<Rightarrow> get_reply_func \<Rightarrow> u8 list set option \<Rightarrow> proxy \<Rightarrow> proxy option" where
  "px_send_reply_by_rdp t f res s = do {
     let r = \<lparr>rf_result = (res \<noteq> None), rf_vset = (case res of None \<Rightarrow> {} | Some vset \<Rightarrow> vset), rf_nonce = gf_nonce f, rf_id = gf_id f\<rparr>;
     (d, s) \<leftarrow> px_connect 0 (gf_src f) proxy_get_reply_port (PxGetReply r) s;
     Some (s\<lparr>px_rdp_reply := ord_ins d t (px_rdp_reply s)\<rparr>)
   }"

text \<open>A callback passed to \<^verbatim>\<open>dht::find_value\<close> is called.\<close>

definition px_dht_values :: "int \<Rightarrow> nat \<Rightarrow> u8 list set option \<Rightarrow> proxy \<Rightarrow> proxy option" where
  "px_dht_values t tag res s =
     (if tag < length (px_gets s) then
        (case px_gets s ! tag of
           AppGet n \<Rightarrow> Some (px_called n res s)
         | ReplyTo f \<Rightarrow> if gf_is_rdp f then px_send_reply_by_rdp t f res s else px_send_reply f res s)
      else Some s)"

definition gd_add_value :: "u16 \<Rightarrow> u16 \<Rightarrow> u8 list \<Rightarrow> getdata \<Rightarrow> getdata" where
  "gd_add_value index tot v g =
     g\<lparr>gd_vset := insert v (gd_vset g), gd_indeces := insert index (gd_indeces g),
       gd_total := (if gd_total g = 0 then uint tot else gd_total g)\<rparr>"

definition px_recv_get_reply_msg :: "u8 list \<Rightarrow> proxy \<Rightarrow> proxy option" where
  "px_recv_get_reply_msg msg s =
     (let nonce = u32_at 48 msg in
      if hd_dst (hdr_at msg) \<noteq> px_id s \<or> length msg < 80 then Some s
      else case ord_find (px_getdata s) nonce of
        None \<Rightarrow> Some s
      | Some p \<Rightarrow>
          if u8_at 76 msg > 0 then
            let g = gd_add_value (u16_at 72 msg) (u16_at 74 msg) (drop 80 msg) (px_heap s p); s = px_put p g s in
            Some (if gd_total g \<le> int (card (gd_vset g)) then px_erase_get nonce p (px_called (gd_func g) (Some (gd_vset g)) s) else s)
          else Some (px_erase_get nonce p (px_called (gd_func (px_heap s p)) None s)))"

text \<open>The timer of a fetch; without its entry it dereferences \<^verbatim>\<open>end()\<close>.\<close>

definition px_timer_get :: "u32 \<Rightarrow> proxy \<Rightarrow> proxy option" where
  "px_timer_get nonce s = do {
     p \<leftarrow> ord_find (px_getdata s) nonce;
     let g = px_heap s p;
     let s = px_called (gd_func g) (if gd_vset g \<noteq> {} then Some (gd_vset g) else None) s;
     s \<leftarrow> (if gd_is_rdp g \<and> gd_desc g \<noteq> 0 then do {
             s \<leftarrow> px_close (gd_desc g) s;
             Some (s\<lparr>px_rdp_get := ord_del (gd_desc g) (px_rdp_get s)\<rparr>)
           }
           else Some s);
     Some (px_erase_get nonce p s)
   }"

subsection \<open>Datagrams\<close>

text \<open>
  Where a datagram for \<open>i\<close> goes: to the address of the peer, else to the server, with the header
  naming \<open>i\<close> either way.
\<close>

definition px_route :: "uint160 \<Rightarrow> proxy \<Rightarrow> cageaddr option" where
  "px_route i s =
     (case get_addr i (d_peers (px_dht s)) of
        Some c \<Rightarrow> Some (c\<lparr>ca_id := i\<rparr>)
      | None \<Rightarrow> if px_is_registered s then map_option (\<lambda>c. c\<lparr>ca_id := i\<rparr>) (px_server s) else None)"

definition px_send_hdr :: "u8 list \<Rightarrow> u16 \<Rightarrow> u8 \<Rightarrow> cageaddr \<Rightarrow> proxy \<Rightarrow> proxy option" where
  "px_send_hdr body junk ty c s = do {
     h \<leftarrow> hdr_bytes ((new_hdr ty (hdr_size + length body) (px_id s) (ca_id c))\<lparr>hd_reserved := junk\<rparr>);
     ms \<leftarrow> send_to (h @ body) c;
     Some (px_send ms s)
   }"

text \<open>\<^verbatim>\<open>reserved\<close> is not cleared here; in a packet buffer it holds what is in front of the window.\<close>

definition px_send_dgram :: "u8 list \<Rightarrow> uint160 \<Rightarrow> proxy \<Rightarrow> proxy option" where
  "px_send_dgram msg i s =
     (case px_route i s of
        None \<Rightarrow> if px_nat s = node_symmetric then px_register_node s else Some s
      | Some c \<Rightarrow>
          if 48 + length msg > 1024 then Some s
          else px_send_hdr msg (ntohs_bytes [px_junk s, px_junk s]) type_proxy_dgram c s)"

definition px_send_dgram_pbuf :: "packetbuf \<Rightarrow> uint160 \<Rightarrow> u8 \<Rightarrow> proxy \<Rightarrow> proxy option" where
  "px_send_dgram_pbuf pb i ty s =
     (case px_route i s of
        None \<Rightarrow> if px_nat s = node_symmetric then px_register_node s else Some s
      | Some c \<Rightarrow>
          (case prepend 48 pb of
             (None, _) \<Rightarrow> Some s
           | (Some off, _) \<Rightarrow> px_send_hdr (pbuf_bytes pb) (ntohs_bytes (pbuf_read pb (off + 6) 2)) ty c s))"

text \<open>
  A datagram of a registered node is handed on as it is: with the header of the proxy's message
  and under its type.
\<close>

definition px_recv_dgram :: "packetbuf \<Rightarrow> proxy \<Rightarrow> proxy" where
  "px_recv_dgram pb s =
     (let h = hdr_at (pbuf_bytes pb) in
      if px_has_registered (hd_src h) s then px_call (CallSendDgram pb (hd_dst h) (hd_type h)) s else s)"

definition msg_forwarded :: "u8 list \<Rightarrow> saddr \<Rightarrow> u8 list option" where
  "msg_forwarded body from =
     (case from of
        In a \<Rightarrow> Some (htons_bytes domain_inet @ htons_bytes (sin_port a) @ htonl_bytes (sin_addr a) @ replicate 12 0 @ body)
      | In6 a \<Rightarrow> Some (htons_bytes domain_inet6 @ htons_bytes (sin6_port a) @ take 16 (sin6_addr a) @ body)
      | NoAddr \<Rightarrow> None)"

definition px_forward_msg :: "u8 list \<Rightarrow> saddr \<Rightarrow> proxy \<Rightarrow> proxy option" where
  "px_forward_msg msg from s =
     (let h = hdr_at msg in
      case px_registered s (hd_dst h) of
        None \<Rightarrow> Some s
      | Some a \<Rightarrow>
          if length msg - 48 + 68 > px_buf_size then Some s
          else case msg_forwarded (drop 48 msg) from of
            None \<Rightarrow> Some s
          | Some b \<Rightarrow>
              if hd_type h = type_dgram then do {
                ms \<leftarrow> send_msg b type_proxy_dgram_forwarded (ra_addr a) (hd_src h);
                Some (px_send ms s)
              }
              else if hd_type h = type_rdp then do {
                ms \<leftarrow> send_msg b type_proxy_rdp_forwarded (ra_addr a) (hd_src h);
                Some (px_send ms s)
              }
              else Some s)"

text \<open>A forwarded segment is passed to RDP with the headers it came with.\<close>

definition px_recv_forwarded :: "packetbuf \<Rightarrow> proxy \<Rightarrow> proxy" where
  "px_recv_forwarded pb s =
     (let msg = pbuf_bytes pb; h = hdr_at msg in
      if get_len pb - 68 \<le> 0 then s
      else
        let s = (if hd_type h = type_proxy_dgram_forwarded then
                   (if px_is_callback s then px_call (CallDgramFunc (drop 68 msg) (hd_src h)) s else s)
                 else if hd_type h = type_proxy_rdp_forwarded then px_call (CallInputDgram (hd_src h) pb) s
                 else s)
        in px_call (CallAdvertiseTo (hd_src h) (u16_at 48 msg) (u16_at 50 msg) (take 16 (drop 52 msg))) s)"

definition px_set_callback :: "proxy \<Rightarrow> proxy" where
  "px_set_callback s = s\<lparr>px_is_callback := True\<rparr>"

subsection \<open>Fetching over RDP, the side that asks\<close>

definition msg_proxy_rdp_get :: "rdp_get \<Rightarrow> u8 list option" where
  "msg_proxy_rdp_get g = do {
     b \<leftarrow> id_bytes (pg_id g);
     Some (htonl_bytes (pg_nonce g) @ b @ htons_bytes (of_nat (length (pg_key g))) @ [0, 0])
   }"

definition px_erase_rdp_get :: "int \<Rightarrow> proxy \<Rightarrow> proxy" where
  "px_erase_rdp_get d s = s\<lparr>px_rdp_get := ord_del d (px_rdp_get s)\<rparr>"

definition px_get_event :: "int \<Rightarrow> rdp_event \<Rightarrow> proxy \<Rightarrow> proxy option" where
  "px_get_event d ev s =
     (case ord_find (px_rdp_get s) d of
        None \<Rightarrow> do { s \<leftarrow> px_close d s; if ev = CONNECTED \<or> ev = RESET then Some s else px_close d s }
      | Some g \<Rightarrow>
          (case ev of
             CONNECTED \<Rightarrow> do {
               m \<leftarrow> msg_proxy_rdp_get g;
               s \<leftarrow> px_rdp_send d m s;
               px_rdp_send d (pg_key g) s
             }
           | RESET \<Rightarrow> do {
               s \<leftarrow> px_close d (px_put (pg_data g) ((px_heap s (pg_data g))\<lparr>gd_desc := 0\<rparr>) s);
               Some (px_erase_rdp_get d s)
             }
           | _ \<Rightarrow> do {
               s \<leftarrow> px_close d s;
               let s = (case ord_find (px_getdata s) (pg_nonce g) of None \<Rightarrow> s | Some p \<Rightarrow> px_erase_get (pg_nonce g) p s);
               Some (px_erase_rdp_get d (px_called (pg_func g) None s))
             }))"

definition px_erase_reply :: "int \<Rightarrow> proxy \<Rightarrow> proxy option" where
  "px_erase_reply d s = do { s \<leftarrow> px_close d s; Some (s\<lparr>px_recv_replies := ord_del d (px_recv_replies s)\<rparr>) }"

definition px_put_reply :: "int \<Rightarrow> px_recv_reply \<Rightarrow> proxy \<Rightarrow> proxy" where
  "px_put_reply d r s = s\<lparr>px_recv_replies := ord_ins d r (px_recv_replies s)\<rparr>"

definition px_reply_close :: "int \<Rightarrow> px_recv_reply \<Rightarrow> proxy \<Rightarrow> proxy option" where
  "px_reply_close d r s =
     (let s = (case ord_find (px_getdata s) (xr_nonce r) of
                 None \<Rightarrow> s
               | Some p \<Rightarrow>
                   let g = px_heap s p in
                   px_erase_get (xr_nonce r) p (px_called (gd_func g) (if gd_vset g \<noteq> {} then Some (gd_vset g) else None) s))
      in px_erase_reply d s)"

text \<open>A struct that a receive fills in part keeps what it held.\<close>

definition px_filled :: "nat \<Rightarrow> u8 list \<Rightarrow> proxy \<Rightarrow> u8 list" where
  "px_filled n bs s = bs @ replicate (n - length bs) (px_junk s)"

definition rgr_read_hdr :: "int \<Rightarrow> int \<Rightarrow> px_recv_reply \<Rightarrow> proxy \<Rightarrow> (bool \<times> proxy) option" where
  "rgr_read_hdr t d r s =
     (let (bs, s) = px_receive d 28 s in
      if bs = [] then Some (False, s)
      else
        let m = px_filled 28 bs s; nonce = u32_at 0 m in
        case ord_find (px_getdata s) nonce of
          None \<Rightarrow> do { s \<leftarrow> px_erase_reply d s; Some (False, s) }
        | Some p \<Rightarrow>
            let r = r\<lparr>xr_nonce := nonce, xr_time := t, xr_state := RGR_VAL_HDR\<rparr>; s = px_put_reply d r s in
            if u8_at 24 m = proxy_get_fail then do { s \<leftarrow> px_reply_close d r s; Some (False, s) }
            else do { s \<leftarrow> px_rdp_send d [proxy_get_next] s; Some (True, s) })"

definition rgr_read_val_hdr :: "int \<Rightarrow> int \<Rightarrow> px_recv_reply \<Rightarrow> proxy \<Rightarrow> (bool \<times> proxy) option" where
  "rgr_read_val_hdr t d r s =
     (case ord_find (px_getdata s) (xr_nonce r) of
        None \<Rightarrow> do { s \<leftarrow> px_erase_reply d s; Some (False, s) }
      | Some p \<Rightarrow>
          let (bs, s) = px_receive d 4 s in
          if bs = [] then Some (False, s)
          else
            let n = u16_at 0 (px_filled 4 bs s) in
            Some (True, px_put_reply d (r\<lparr>xr_valuelen := n, xr_read := 0, xr_state := RGR_VAL, xr_time := t, xr_val := replicate (unat n) (px_junk s)\<rparr>) s))"

text \<open>
  The test whether the value is complete is \<^verbatim>\<open>+=\<close>, not \<^verbatim>\<open>==\<close>: it adds the length and holds unless
  the sum is 0.
\<close>

definition rgr_read_val :: "int \<Rightarrow> int \<Rightarrow> px_recv_reply \<Rightarrow> proxy \<Rightarrow> (bool \<times> proxy) option" where
  "rgr_read_val t d r s =
     (case ord_find (px_getdata s) (xr_nonce r) of
        None \<Rightarrow> do { s \<leftarrow> px_erase_reply d s; Some (False, s) }
      | Some p \<Rightarrow>
          let off = unat (xr_read r); (bs, s) = px_receive d (int (unat (xr_valuelen r)) - int off) s in
          if bs = [] then Some (False, s)
          else
            let val = take off (xr_val r) @ bs @ drop (off + length bs) (xr_val r);
                n = xr_read r + of_nat (length bs) + xr_valuelen r;
                r = r\<lparr>xr_val := val, xr_read := n, xr_time := t\<rparr> in
            if n \<noteq> 0 then do {
              let s = px_put p ((px_heap s p)\<lparr>gd_vset := insert val (gd_vset (px_heap s p))\<rparr>) s;
              s \<leftarrow> px_rdp_send d [proxy_get_next] (px_put_reply d (r\<lparr>xr_read := 0, xr_val := [], xr_state := RGR_VAL_HDR\<rparr>) s);
              Some (True, s)
            }
            else Some (True, px_put_reply d r s))"

definition rgr_step :: "int \<Rightarrow> int \<Rightarrow> proxy \<Rightarrow> (bool \<times> proxy) option" where
  "rgr_step t d s = do {
     r \<leftarrow> ord_find (px_recv_replies s) d;
     case xr_state r of
       RGR_HDR \<Rightarrow> rgr_read_hdr t d r s
     | RGR_VAL_HDR \<Rightarrow> rgr_read_val_hdr t d r s
     | RGR_VAL \<Rightarrow> rgr_read_val t d r s
   }"

definition new_recv_reply :: "int \<Rightarrow> u8 \<Rightarrow> px_recv_reply" where
  "new_recv_reply t junk = \<lparr>xr_val = [], xr_valuelen = 0, xr_read = 0, xr_state = RGR_HDR, xr_nonce = ntohl_bytes [junk, junk, junk, junk], xr_time = t\<rparr>"

abbreviation px_left :: "int \<Rightarrow> proxy \<Rightarrow> nat" where
  "px_left d s \<equiv> queued_bytes d (d_rdp (px_dht s))"

definition px_recv_reply_event :: "int \<Rightarrow> int \<Rightarrow> rdp_event \<Rightarrow> proxy \<Rightarrow> proxy option" where
  "px_recv_reply_event t d ev s =
     (case ev of
        ACCEPTED \<Rightarrow> Some (px_put_reply d (new_recv_reply t (px_junk s)) s)
      | READY2READ \<Rightarrow>
          (if ord_find (px_recv_replies s) d = None then px_close d s else read_loop (Suc (px_left d s)) (rgr_step t d) s)
      | _ \<Rightarrow> (case ord_find (px_recv_replies s) d of None \<Rightarrow> px_close d s | Some r \<Rightarrow> px_reply_close d r s))"

subsection \<open>Fetching over RDP, the side that is asked\<close>

definition px_erase_recv_get :: "int \<Rightarrow> proxy \<Rightarrow> proxy option" where
  "px_erase_recv_get d s = do { s \<leftarrow> px_close d s; Some (s\<lparr>px_recv_gets := ord_del d (px_recv_gets s)\<rparr>) }"

definition px_put_recv_get :: "int \<Rightarrow> px_recv_get \<Rightarrow> proxy \<Rightarrow> proxy" where
  "px_put_recv_get d g s = s\<lparr>px_recv_gets := ord_ins d g (px_recv_gets s)\<rparr>"

definition rg_read_hdr :: "int \<Rightarrow> int \<Rightarrow> px_recv_get \<Rightarrow> proxy \<Rightarrow> (bool \<times> proxy) option" where
  "rg_read_hdr t d g s =
     (let (bs, s) = px_receive d 28 s in
      if length bs \<noteq> 28 then do { s \<leftarrow> px_erase_recv_get d s; Some (False, s) }
      else Some (True, px_put_recv_get d (g\<lparr>xg_keylen := u16_at 24 bs, xg_nonce := u32_at 0 bs, xg_time := t, xg_state := RG_KEY, xg_id := id_at 4 bs\<rparr>) s))"

text \<open>One turn of the loop in \<^verbatim>\<open>read_key\<close>.\<close>

definition rg_read_key :: "int \<Rightarrow> int \<Rightarrow> px_recv_get \<Rightarrow> proxy \<Rightarrow> (bool \<times> proxy) option" where
  "rg_read_key t d g s =
     (let (bs, s) = px_receive d (int (unat (xg_keylen g)) - int (length (xg_key g))) s; g = g\<lparr>xg_key := xg_key g @ bs\<rparr> in
      if bs = [] then Some (False, s)
      else if length (xg_key g) = unat (xg_keylen g) then do {
        s \<leftarrow> px_find_value t (xg_id g) (xg_key g) (ReplyTo \<lparr>gf_id = xg_id g, gf_src = xg_src g, gf_nonce = xg_nonce g, gf_is_rdp = True\<rparr>) s;
        s \<leftarrow> px_erase_recv_get d s;
        Some (False, s)
      }
      else Some (True, px_put_recv_get d g s))"

definition rg_step :: "int \<Rightarrow> int \<Rightarrow> proxy \<Rightarrow> (bool \<times> proxy) option" where
  "rg_step t d s = do {
     g \<leftarrow> ord_find (px_recv_gets s) d;
     case xg_state g of RG_HDR \<Rightarrow> rg_read_hdr t d g s | RG_KEY \<Rightarrow> rg_read_key t d g s
   }"

definition px_new_recv_get :: "int \<Rightarrow> uint160 \<Rightarrow> px_recv_get" where
  "px_new_recv_get t src = \<lparr>xg_id = zero_id, xg_src = src, xg_key = [], xg_keylen = 0, xg_nonce = 0, xg_time = t, xg_state = RG_HDR\<rparr>"

definition px_recv_get_event :: "int \<Rightarrow> int \<Rightarrow> rdp_addr \<Rightarrow> rdp_event \<Rightarrow> proxy \<Rightarrow> proxy option" where
  "px_recv_get_event t d a ev s =
     (case ev of
        ACCEPTED \<Rightarrow> if px_has_registered (did a) s then Some (px_put_recv_get d (px_new_recv_get t (did a)) s) else px_close d s
      | READY2READ \<Rightarrow>
          (if ord_find (px_recv_gets s) d = None then px_close d s else read_loop (Suc (px_left d s)) (rg_step t d) s)
      | _ \<Rightarrow> px_erase_recv_get d s)"

definition px_erase_rdp_reply :: "int \<Rightarrow> proxy \<Rightarrow> proxy option" where
  "px_erase_rdp_reply d s = do { s \<leftarrow> px_close d s; Some (s\<lparr>px_rdp_reply := ord_del d (px_rdp_reply s)\<rparr>) }"

definition msg_proxy_rdp_get_reply :: "rdp_get_reply_func \<Rightarrow> u8 list option" where
  "msg_proxy_rdp_get_reply r = do {
     b \<leftarrow> id_bytes (rf_id r);
     Some (htonl_bytes (rf_nonce r) @ b @ [if rf_result r then proxy_get_success else proxy_get_fail, 0, 0, 0])
   }"

text \<open>One turn of \<^verbatim>\<open>read_op\<close>; \<open>tag\<close> is the position of the callback, whose set of values shrinks.\<close>

definition gr_read_op :: "nat \<Rightarrow> int \<Rightarrow> proxy \<Rightarrow> (bool \<times> proxy) option" where
  "gr_read_op tag d s =
     (case px_funcs s ! tag of
        PxGetReply r \<Rightarrow>
          if rf_vset r = {} then do { s \<leftarrow> px_erase_rdp_reply d s; Some (False, s) }
          else
            let (bs, s) = px_receive d 1 s in
            (case bs of
               [] \<Rightarrow> Some (False, s)
             | op # _ \<Rightarrow>
                 if op \<noteq> proxy_get_next then do { s \<leftarrow> px_erase_rdp_reply d s; Some (False, s) }
                 else do {
                   let v = hd (sorted_list_of_set (rf_vset r));
                   s \<leftarrow> px_rdp_send d (htons_bytes (of_nat (length v)) @ [0, 0]) s;
                   s \<leftarrow> px_rdp_send d v s;
                   Some (True, s\<lparr>px_funcs := (px_funcs s)[tag := PxGetReply (r\<lparr>rf_vset := rf_vset r - {v}\<rparr>)]\<rparr>)
                 })
      | _ \<Rightarrow> None)"

definition px_get_reply_event :: "int \<Rightarrow> nat \<Rightarrow> rdp_get_reply_func \<Rightarrow> int \<Rightarrow> rdp_event \<Rightarrow> proxy \<Rightarrow> proxy option" where
  "px_get_reply_event t tag r d ev s =
     (case ev of
        CONNECTED \<Rightarrow> do {
          m \<leftarrow> msg_proxy_rdp_get_reply r;
          s \<leftarrow> px_rdp_send d m s;
          Some (s\<lparr>px_rdp_reply := ord_ins d t (px_rdp_reply s)\<rparr>)
        }
      | READY2READ \<Rightarrow>
          (if \<not> rf_result r then px_erase_rdp_reply d s else read_loop (Suc (px_left d s)) (gr_read_op tag d) s)
      | _ \<Rightarrow> px_erase_rdp_reply d s)"

subsection \<open>Storing over RDP\<close>

definition px_store_event :: "store_func \<Rightarrow> int \<Rightarrow> rdp_event \<Rightarrow> proxy \<Rightarrow> proxy option" where
  "px_store_event f d ev s =
     (case ev of
        CONNECTED \<Rightarrow> do {
          h \<leftarrow> rdp_store_hdr f zero_id;
          s \<leftarrow> px_rdp_send d h s;
          s \<leftarrow> px_rdp_send d (sf_key f) s;
          px_rdp_send d (sf_value f) s
        }
      | _ \<Rightarrow> do { s \<leftarrow> px_close d s; Some (s\<lparr>px_rdp_store := ord_del d (px_rdp_store s)\<rparr>) })"

definition px_erase_recv_store :: "int \<Rightarrow> proxy \<Rightarrow> proxy option" where
  "px_erase_recv_store d s = do { s \<leftarrow> px_close d s; Some (s\<lparr>px_recv_stores := ord_del d (px_recv_stores s)\<rparr>) }"

definition px_put_recv_store :: "int \<Rightarrow> px_recv_store \<Rightarrow> proxy \<Rightarrow> proxy" where
  "px_put_recv_store d r s = s\<lparr>px_recv_stores := ord_ins d r (px_recv_stores s)\<rparr>"

definition xs_read_hdr :: "int \<Rightarrow> int \<Rightarrow> px_recv_store \<Rightarrow> proxy \<Rightarrow> (bool \<times> proxy) option" where
  "xs_read_hdr t d r s =
     (let (bs, s) = px_receive d 48 s in
      if length bs \<noteq> 48 then do { s \<leftarrow> px_erase_recv_store d s; Some (False, s) }
      else Some (True, px_put_recv_store d (r\<lparr>xs_keylen := u16_at 40 bs, xs_valuelen := u16_at 42 bs, xs_ttl := u16_at 44 bs, xs_id := id_at 0 bs,
                   xs_time := t, xs_state := RS_KEY, xs_unique := unique_of (u8_at 46 bs) (xs_unique r)\<rparr>) s))"

definition xs_read_key :: "int \<Rightarrow> int \<Rightarrow> px_recv_store \<Rightarrow> proxy \<Rightarrow> (bool \<times> proxy) option" where
  "xs_read_key t d r s =
     (let (bs, s) = px_receive d (int (unat (xs_keylen r)) - int (length (xs_key r))) s; r = r\<lparr>xs_key := xs_key r @ bs, xs_time := t\<rparr> in
      if bs = [] then Some (False, s)
      else Some (True, px_put_recv_store d (if length (xs_key r) = unat (xs_keylen r) then r\<lparr>xs_state := RS_VAL\<rparr> else r) s))"

definition xs_read_val :: "int \<Rightarrow> int \<Rightarrow> px_recv_store \<Rightarrow> proxy \<Rightarrow> (bool \<times> proxy) option" where
  "xs_read_val t d r s =
     (let (bs, s) = px_receive d (int (unat (xs_valuelen r)) - int (length (xs_val r))) s; r = r\<lparr>xs_val := xs_val r @ bs, xs_time := t\<rparr> in
      if bs = [] then Some (False, s)
      else if length (xs_val r) = unat (xs_valuelen r) then do {
        s \<leftarrow> px_close d s;
        s \<leftarrow> px_dht_store t (xs_id r) (xs_key r) (xs_val r) (xs_ttl r) (xs_src r) (xs_unique r) s;
        Some (False, s\<lparr>px_recv_stores := ord_del d (px_recv_stores s)\<rparr>)
      }
      else Some (True, px_put_recv_store d r s))"

definition xs_step :: "int \<Rightarrow> int \<Rightarrow> proxy \<Rightarrow> (bool \<times> proxy) option" where
  "xs_step t d s = do {
     r \<leftarrow> ord_find (px_recv_stores s) d;
     case xs_state r of RS_HDR \<Rightarrow> xs_read_hdr t d r s | RS_KEY \<Rightarrow> xs_read_key t d r s | RS_VAL \<Rightarrow> xs_read_val t d r s
   }"

definition px_new_recv_store :: "int \<Rightarrow> uint160 \<Rightarrow> bool \<Rightarrow> px_recv_store" where
  "px_new_recv_store t src junk = \<lparr>xs_state = RS_HDR, xs_key = [], xs_val = [], xs_keylen = 0, xs_valuelen = 0, xs_ttl = 0, xs_unique = junk,
     xs_id = zero_id, xs_src = src, xs_time = t\<rparr>"

definition px_recv_store_event :: "int \<Rightarrow> int \<Rightarrow> rdp_addr \<Rightarrow> rdp_event \<Rightarrow> proxy \<Rightarrow> proxy option" where
  "px_recv_store_event t d a ev s =
     (case ev of
        ACCEPTED \<Rightarrow>
          (if px_has_registered (did a) s then Some (px_put_recv_store d (px_new_recv_store t (did a) (px_junk_unique s)) s) else px_close d s)
      | READY2READ \<Rightarrow>
          (if ord_find (px_recv_stores s) d = None then px_close d s else read_loop (Suc (px_left d s)) (xs_step t d) s)
      | _ \<Rightarrow> px_erase_recv_store d s)"

text \<open>An event of the protocol machine, for the callback with the number \<open>tag\<close> of \<open>RdpOther\<close>.\<close>

definition px_rdp_event :: "int \<Rightarrow> nat \<Rightarrow> int \<Rightarrow> rdp_addr \<Rightarrow> rdp_event \<Rightarrow> proxy \<Rightarrow> proxy option" where
  "px_rdp_event t tag d a ev s =
     (if tag < length (px_funcs s) then
        (case px_funcs s ! tag of
           PxRecvStore \<Rightarrow> px_recv_store_event t d a ev s
         | PxRecvGet \<Rightarrow> px_recv_get_event t d a ev s
         | PxRecvGetReply \<Rightarrow> px_recv_reply_event t d ev s
         | PxStore f \<Rightarrow> px_store_event f d ev s
         | PxGet \<Rightarrow> px_get_event d ev s
         | PxGetReply r \<Rightarrow> px_get_reply_event t tag r d ev s
         | PxApp n \<Rightarrow> Some s)
      else Some s)"

subsection \<open>Maintenance\<close>

fun px_close_all :: "int list \<Rightarrow> proxy \<Rightarrow> proxy option" where
  "px_close_all [] s = Some s"
| "px_close_all (d # ds) s = do { s \<leftarrow> px_close d s; px_close_all ds s }"

definition px_overdue :: "int \<Rightarrow> ('a \<Rightarrow> int) \<Rightarrow> (int \<times> 'a) list \<Rightarrow> int list" where
  "px_overdue t time m = map fst (filter (\<lambda>(d, x). t - time x > proxy_rdp_timeout) m)"

definition px_kept :: "int \<Rightarrow> ('a \<Rightarrow> int) \<Rightarrow> (int \<times> 'a) list \<Rightarrow> (int \<times> 'a) list" where
  "px_kept t time m = filter (\<lambda>(d, x). \<not> t - time x > proxy_rdp_timeout) m"

text \<open>
  The time of the last progress, not its age, is compared with the time-out, and the entry of the
  fetch is used exactly if there is none.
\<close>

definition px_sweep_reply :: "int \<times> px_recv_reply \<Rightarrow> proxy \<Rightarrow> proxy option" where
  "px_sweep_reply e s =
     (let (d, r) = e in
      if xr_time r > proxy_rdp_timeout then do {
        s \<leftarrow> px_close d s;
        if xr_state r \<noteq> RGR_HDR \<and> ord_find (px_getdata s) (xr_nonce r) = None then None
        else Some (s\<lparr>px_recv_replies := ord_del d (px_recv_replies s)\<rparr>)
      }
      else Some s)"

definition px_sweep_rdp :: "int \<Rightarrow> proxy \<Rightarrow> proxy option" where
  "px_sweep_rdp t s = do {
     s \<leftarrow> px_close_all (px_overdue t id (px_rdp_store s)) s;
     let s = s\<lparr>px_rdp_store := px_kept t id (px_rdp_store s)\<rparr>;
     s \<leftarrow> px_close_all (px_overdue t xs_time (px_recv_stores s)) s;
     let s = s\<lparr>px_recv_stores := px_kept t xs_time (px_recv_stores s)\<rparr>;
     s \<leftarrow> px_close_all (px_overdue t xg_time (px_recv_gets s)) s;
     let s = s\<lparr>px_recv_gets := px_kept t xg_time (px_recv_gets s)\<rparr>;
     s \<leftarrow> px_close_all (px_overdue t id (px_rdp_reply s)) s;
     let s = s\<lparr>px_rdp_reply := px_kept t id (px_rdp_reply s)\<rparr>;
     run_steps px_sweep_reply (px_recv_replies s) s
   }"

definition px_timer_proxy :: "int \<Rightarrow> proxy \<Rightarrow> proxy option" where
  "px_timer_proxy t s = do {
     let s = px_refresh t s;
     s \<leftarrow> (if px_nat s = node_symmetric then do {
             s \<leftarrow> px_register_node s;
             s \<leftarrow> px_sweep_rdp t s;
             px_retry_storing t s
           }
           else Some s);
     Some (s\<lparr>px_timer := t + proxy_timer_interval\<rparr>)
   }"

subsection \<open>Constructor and destructor\<close>

definition new_proxy :: "dht \<Rightarrow> u32 list \<Rightarrow> u32 \<Rightarrow> (nat \<Rightarrow> getdata) \<Rightarrow> u8 \<Rightarrow> bool \<Rightarrow> int \<Rightarrow> int \<Rightarrow> proxy" where
  "new_proxy dh rs nonce hp junk junk_unique t jitter =
     \<lparr>px_dht = dh, px_rnds = rs, px_server = None, px_is_registered = False, px_is_registering = False, px_nonce = nonce,
      px_timer_register = False, px_timer = t + (jitter + proxy_timer_interval), px_is_callback = False, px_registered = Map.empty,
      px_getdata = [], px_heap = hp, px_next = 0, px_store_data = [], px_store_desc = 0, px_get_desc = 0, px_reply_desc = 0,
      px_rdp_store = [], px_rdp_get = [], px_recv_stores = [], px_recv_gets = [], px_rdp_reply = [], px_recv_replies = [],
      px_funcs = [], px_gets = [], px_junk = junk, px_junk_unique = junk_unique, px_calls = [], px_results = []\<rparr>"

definition proxy_init :: "dht \<Rightarrow> u32 list \<Rightarrow> u32 \<Rightarrow> (nat \<Rightarrow> getdata) \<Rightarrow> u8 \<Rightarrow> bool \<Rightarrow> int \<Rightarrow> int \<Rightarrow> proxy option" where
  "proxy_init dh rs nonce hp junk junk_unique t jitter = do {
     let s = new_proxy dh rs nonce hp junk junk_unique t jitter;
     (d1, s) \<leftarrow> px_listen proxy_store_port PxRecvStore s;
     (d2, s) \<leftarrow> px_listen proxy_get_port PxRecvGet s;
     (d3, s) \<leftarrow> px_listen proxy_get_reply_port PxRecvGetReply s;
     Some (px_set_registered Map.empty (s\<lparr>px_store_desc := d1, px_get_desc := d2, px_reply_desc := d3\<rparr>))
   }"

definition proxy_destroy :: "proxy \<Rightarrow> proxy option" where
  "proxy_destroy s =
     px_close_all ([px_store_desc s, px_get_desc s, px_reply_desc s] @ map fst (px_rdp_store s) @ map fst (px_recv_stores s) @ map fst (px_rdp_get s) @
       map fst (px_recv_gets s) @ map fst (px_recv_replies s) @ map fst (px_rdp_reply s)) s"

end
