(* ===== verification/Cage.thy ===== *)
theory Cage
  imports Proxy Natdetector Dgram
begin

section \<open>The node (cage.hpp, cage.cpp)\<close>

text \<open>
  \<^verbatim>\<open>class cage\<close> owns the components, gives what its socket receives to their handlers, and chooses for
  the application between the proxy and the other components.

  \<open>cg_proxy\<close> holds the proxy and, inside it, the DHT, RDP, the directory of tunnels and the peers;
  \<open>cg_dgram\<close> the datagrams and the advertisements.  What several components refer to has one
  place: the peers are those of the directory, the state of the node is that of the NAT
  detection, whether the directory is enabled is its own; \<open>cg_proxy_view\<close> and \<open>cg_dgram_view\<close>
  show them to the components.  The calls that the NAT detection, the datagrams and the proxy
  log are carried out when their handler is done.  Segments for RDP and requests for
  addresses stay in the logs of the datagrams: RDP calls back into the components, and its steps
  and theirs are operations of their own.  \<open>sha1\<close> is the digest of OpenSSL.
\<close>

datatype cage_handler =
    Nat_recv_echo | Nat_recv_echo_reply | Nat_recv_echo_redirect
  | Dtun_recv_ping | Dtun_recv_ping_reply | Dtun_recv_find_node | Dtun_recv_find_node_reply | Dtun_recv_register
  | Dtun_recv_find_value | Dtun_recv_find_value_reply | Dtun_recv_request | Dtun_recv_request_by | Dtun_recv_request_reply
  | Dht_recv_find_node | Dht_recv_find_node_reply | Dht_recv_store | Dht_recv_find_value | Dht_recv_find_value_reply
  | Dgram_recv_dgram
  | Proxy_recv_register | Proxy_recv_register_reply | Proxy_recv_store | Proxy_recv_get | Proxy_recv_get_reply | Proxy_recv_dgram | Proxy_recv_forwarded
  | Advertise_recv_advertise | Advertise_recv_advertise_reply

record cage =
  cg_proxy :: proxy
  cg_nat :: natdetector
  cg_dgram :: dgram
  cg_is_dtun :: bool
  cg_joined :: "bool list"

subsection \<open>Which handler\<close>

text \<open>
  The switch of \<^verbatim>\<open>udp_receiver\<close>, with the sizes of the structs: exact ones for messages of a fixed
  size, for the others that of the part in front of the data.  There is no case for the pings of
  the DHT, and a forwarded message is compared with the size of \<^verbatim>\<open>msg_proxy_get\<close>.
\<close>

definition exactly :: "nat \<Rightarrow> nat \<Rightarrow> cage_handler \<Rightarrow> cage_handler option" where
  "exactly n len h = (if len = n then Some h else None)"

definition at_least :: "nat \<Rightarrow> nat \<Rightarrow> cage_handler \<Rightarrow> cage_handler option" where
  "at_least n len h = (if len \<ge> n then Some h else None)"

definition cage_switch :: "u8 \<Rightarrow> nat \<Rightarrow> cage_handler option" where
  "cage_switch ty len =
     (if ty = type_nat_echo then exactly 52 len Nat_recv_echo
      else if ty = type_nat_echo_reply then exactly 72 len Nat_recv_echo_reply
      else if ty = type_nat_echo_redirect then exactly 56 len Nat_recv_echo_redirect
      else if ty = type_dtun_ping then exactly 52 len Dtun_recv_ping
      else if ty = type_dtun_ping_reply then exactly 52 len Dtun_recv_ping_reply
      else if ty = type_dtun_find_node then exactly 76 len Dtun_recv_find_node
      else if ty = type_dtun_find_node_reply then at_least 76 len Dtun_recv_find_node_reply
      else if ty = type_dtun_register then exactly 52 len Dtun_recv_register
      else if ty = type_dtun_find_value then exactly 76 len Dtun_recv_find_value
      else if ty = type_dtun_find_value_reply then at_least 76 len Dtun_recv_find_value_reply
      else if ty = type_dtun_request then exactly 72 len Dtun_recv_request
      else if ty = type_dtun_request_by then at_least 68 len Dtun_recv_request_by
      else if ty = type_dtun_request_reply then exactly 52 len Dtun_recv_request_reply
      else if ty = type_dht_find_node then exactly 76 len Dht_recv_find_node
      else if ty = type_dht_find_node_reply then at_least 76 len Dht_recv_find_node_reply
      else if ty = type_dht_store then at_least 96 len Dht_recv_store
      else if ty = type_dht_find_value then at_least 80 len Dht_recv_find_value
      else if ty = type_dht_find_value_reply then at_least 80 len Dht_recv_find_value_reply
      else if ty = type_rdp \<or> ty = type_dgram then at_least 48 len Dgram_recv_dgram
      else if ty = type_proxy_register then exactly 56 len Proxy_recv_register
      else if ty = type_proxy_register_reply then exactly 52 len Proxy_recv_register_reply
      else if ty = type_proxy_store then at_least 76 len Proxy_recv_store
      else if ty = type_proxy_get then at_least 76 len Proxy_recv_get
      else if ty = type_proxy_get_reply then at_least 76 len Proxy_recv_get_reply
      else if ty = type_proxy_rdp \<or> ty = type_proxy_dgram then at_least 48 len Proxy_recv_dgram
      else if ty = type_proxy_rdp_forwarded \<or> ty = type_proxy_dgram_forwarded then at_least 76 len Proxy_recv_forwarded
      else if ty = type_advertise then exactly 56 len Advertise_recv_advertise
      else if ty = type_advertise_reply then exactly 56 len Advertise_recv_advertise_reply
      else None)"

definition cage_dispatch :: "u8 list \<Rightarrow> cage_handler option" where
  "cage_dispatch msg =
     (let h = hdr_at msg in
      if length msg < hdr_size \<or> hd_magic h \<noteq> MAGIC_NUMBER \<or> hd_ver h \<noteq> CAGE_VERSION then None
      else cage_switch (hd_type h) (length msg))"

subsection \<open>Running a component\<close>

definition cg_state :: "cage \<Rightarrow> node_state" where
  "cg_state s = get_state (cg_nat s)"

definition cg_proxy_view :: "cage \<Rightarrow> proxy" where
  "cg_proxy_view s = px_set_dtun ((px_dtun (cg_proxy s))\<lparr>dt_nat := cg_state s\<rparr>) (cg_proxy s)"

definition cg_dgram_view :: "cage \<Rightarrow> dgram" where
  "cg_dgram_view s =
     (let g = cg_dgram s; dt = px_dtun (cg_proxy s) in
      g\<lparr>dg_enabled := dt_enabled dt, dg_adv := (dg_adv g)\<lparr>ad_peers := dt_peers dt, ad_session := dt_session dt\<rparr>\<rparr>)"

definition cg_run_dgram :: "(dgram \<Rightarrow> dgram option) \<Rightarrow> cage \<Rightarrow> cage option" where
  "cg_run_dgram f s = do {
     g \<leftarrow> f (cg_dgram_view s);
     dh \<leftarrow> d_set_peers (ad_peers (dg_adv g)) (px_dht (cg_proxy s));
     Some (s\<lparr>cg_dgram := g, cg_proxy := px_set_dht dh (cg_proxy s)\<rparr>)
   }"

definition cg_run_adv :: "(advertise \<Rightarrow> advertise option) \<Rightarrow> cage \<Rightarrow> cage option" where
  "cg_run_adv f = cg_run_dgram (\<lambda>g. do { adv \<leftarrow> f (dg_adv g); Some (g\<lparr>dg_adv := adv\<rparr>) })"

text \<open>A call the proxy has made.\<close>

fun cg_call :: "int \<Rightarrow> proxy_call \<Rightarrow> cage \<Rightarrow> cage option" where
  "cg_call t (CallSendDgram pb i ty) s = cg_run_dgram (send_dgram_pbuf pb i ty) s"
| "cg_call t (CallAdvertiseTo i domain port a) s = cg_run_adv (advertise_to t i domain port a) s"
| "cg_call t (CallInputDgram i pb) s = Some (s\<lparr>cg_dgram := (cg_dgram s)\<lparr>dg_rdp := dg_rdp (cg_dgram s) @ [(i, pb)]\<rparr>\<rparr>)"
| "cg_call t (CallDgramFunc bs i) s = Some s"

definition cg_run_proxy :: "int \<Rightarrow> (proxy \<Rightarrow> proxy option) \<Rightarrow> cage \<Rightarrow> cage option" where
  "cg_run_proxy t f s = do {
     p \<leftarrow> f (cg_proxy_view s);
     run_steps (cg_call t) (drop (length (px_calls (cg_proxy s))) (px_calls p)) (s\<lparr>cg_proxy := p\<rparr>)
   }"

definition cg_run_dht :: "int \<Rightarrow> (dht \<Rightarrow> dht option) \<Rightarrow> cage \<Rightarrow> cage option" where
  "cg_run_dht t f = cg_run_proxy t (\<lambda>p. do { dh \<leftarrow> f (px_dht p); Some (px_set_dht dh p) })"

text \<open>The peers an operation of the directory adds are made known to the DHT.\<close>

definition cg_run_dtun :: "int \<Rightarrow> (dtun \<Rightarrow> dtun option) \<Rightarrow> cage \<Rightarrow> cage option" where
  "cg_run_dtun t f = cg_run_dht t (\<lambda>dh. do { dt \<leftarrow> f (d_dtun dh); d_set_peers (dt_peers dt) (dh\<lparr>d_dtun := dt\<lparr>dt_peers := d_peers dh\<rparr>\<rparr>) })"

definition cg_run_nat :: "int \<Rightarrow> (natdetector \<Rightarrow> natdetector option) \<Rightarrow> cage \<Rightarrow> cage option" where
  "cg_run_nat t f s = do {
     n \<leftarrow> f (cg_nat s);
     let s' = s\<lparr>cg_nat := n\<rparr>;
     s' \<leftarrow> (if nd_registers n > nd_registers (cg_nat s) then cg_run_proxy t px_register_node s' else Some s');
     run_steps (\<lambda>sa. cg_run_dht t (d_find_node_addr sa dht_no_action)) (drop (length (nd_joins (cg_nat s))) (nd_joins n)) s'
   }"

subsection \<open>Receiving\<close>

text \<open>A datagram for another node is passed to the proxy.\<close>

definition cg_recv_dgram :: "int \<Rightarrow> packetbuf \<Rightarrow> saddr \<Rightarrow> cage \<Rightarrow> cage option" where
  "cg_recv_dgram t pb from s = do {
     s' \<leftarrow> cg_run_dgram (recv_dgram t pb from) s;
     if length (dg_forwards (cg_dgram s')) > length (dg_forwards (cg_dgram s)) then cg_run_proxy t (px_forward_msg (pbuf_bytes pb) from) s'
     else Some s'
   }"

definition behind :: "packetbuf \<Rightarrow> u8 list" where
  "behind pb = pbuf_read pb (get_data pb + get_len pb) (nat (PBUF_SIZE - get_data pb - get_len pb))"

fun cage_handle :: "cage_handler \<Rightarrow> iteration \<Rightarrow> int \<Rightarrow> packetbuf \<Rightarrow> u8 list \<Rightarrow> saddr \<Rightarrow> cage \<Rightarrow> cage option" where
  "cage_handle Nat_recv_echo order t pb msg from s = cg_run_nat t (recv_echo msg from) s"
| "cage_handle Nat_recv_echo_reply order t pb msg from s = cg_run_nat t (recv_echo_reply order (d_peers (px_dht (cg_proxy s))) msg from) s"
| "cage_handle Nat_recv_echo_redirect order t pb msg from s = cg_run_nat t (recv_echo_redirect msg from) s"
| "cage_handle Dtun_recv_ping order t pb msg from s = cg_run_dtun t (dt_recv_ping t msg from) s"
| "cage_handle Dtun_recv_ping_reply order t pb msg from s = cg_run_dtun t (dt_recv_ping_reply t msg from) s"
| "cage_handle Dtun_recv_find_node order t pb msg from s = cg_run_dtun t (dt_recv_find_node t msg from) s"
| "cage_handle Dtun_recv_find_node_reply order t pb msg from s = cg_run_dtun t (dt_recv_find_node_reply t msg from) s"
| "cage_handle Dtun_recv_register order t pb msg from s = cg_run_dtun t (dt_recv_register t msg from) s"
| "cage_handle Dtun_recv_find_value order t pb msg from s = cg_run_dtun t (dt_recv_find_value t msg from) s"
| "cage_handle Dtun_recv_find_value_reply order t pb msg from s = cg_run_dtun t (dt_recv_find_value_reply t msg from) s"
| "cage_handle Dtun_recv_request order t pb msg from s = cg_run_dtun t (dt_recv_request t msg from) s"
| "cage_handle Dtun_recv_request_by order t pb msg from s = cg_run_dtun t (dt_recv_request_by msg from) s"
| "cage_handle Dtun_recv_request_reply order t pb msg from s = cg_run_dtun t (dt_recv_request_reply t msg from) s"
| "cage_handle Dht_recv_find_node order t pb msg from s = cg_run_dht t (d_recv_find_node t msg from) s"
| "cage_handle Dht_recv_find_node_reply order t pb msg from s = cg_run_dht t (d_recv_find_node_reply t msg from) s"
| "cage_handle Dht_recv_store order t pb msg from s = cg_run_dht t (d_recv_store_msg t msg from) s"
| "cage_handle Dht_recv_find_value order t pb msg from s = cg_run_dht t (d_recv_find_value t msg from) s"
| "cage_handle Dht_recv_find_value_reply order t pb msg from s = cg_run_dht t (d_recv_find_value_reply t msg from) s"
| "cage_handle Dgram_recv_dgram order t pb msg from s = cg_recv_dgram t pb from s"
| "cage_handle Proxy_recv_register order t pb msg from s = cg_run_proxy t (px_recv_register t msg from) s"
| "cage_handle Proxy_recv_register_reply order t pb msg from s = cg_run_proxy t (px_recv_register_reply msg from) s"
| "cage_handle Proxy_recv_store order t pb msg from s = cg_run_proxy t (px_recv_store_msg t msg (behind pb)) s"
| "cage_handle Proxy_recv_get order t pb msg from s = cg_run_proxy t (px_recv_get_msg t msg) s"
| "cage_handle Proxy_recv_get_reply order t pb msg from s = cg_run_proxy t (px_recv_get_reply_msg msg) s"
| "cage_handle Proxy_recv_dgram order t pb msg from s = cg_run_proxy t (\<lambda>p. Some (px_recv_dgram pb p)) s"
| "cage_handle Proxy_recv_forwarded order t pb msg from s = cg_run_proxy t (\<lambda>p. Some (px_recv_forwarded pb p)) s"
| "cage_handle Advertise_recv_advertise order t pb msg from s = cg_run_adv (recv_advertise t msg from) s"
| "cage_handle Advertise_recv_advertise_reply order t pb msg from s = cg_run_adv (recv_advertise_reply t msg from) s"

definition cage_receive :: "iteration \<Rightarrow> int \<Rightarrow> packetbuf \<Rightarrow> saddr \<Rightarrow> cage \<Rightarrow> cage option" where
  "cage_receive order t pb from s =
     (case cage_dispatch (pbuf_bytes pb) of None \<Rightarrow> Some s | Some h \<Rightarrow> cage_handle h order t pb (pbuf_bytes pb) from s)"

subsection \<open>The interface\<close>

definition cage_send_dgram :: "int \<Rightarrow> u8 list \<Rightarrow> u8 list \<Rightarrow> cage \<Rightarrow> cage option" where
  "cage_send_dgram t msg dst s =
     (let i = id_at 0 dst in
      if cg_state s = node_symmetric then cg_run_proxy t (px_send_dgram msg i) s
      else cg_run_dgram (send_dgram msg (int (length msg)) i) s)"

definition cage_rdp_output :: "int \<Rightarrow> uint160 \<Rightarrow> packetbuf \<Rightarrow> cage \<Rightarrow> cage option" where
  "cage_rdp_output t i pb s =
     (if cg_state s = node_symmetric then cg_run_proxy t (px_send_dgram_pbuf pb i type_rdp) s
      else cg_run_dgram (send_dgram_pbuf pb i type_rdp) s)"

definition cage_put :: "(u8 list \<Rightarrow> u8 list) \<Rightarrow> int \<Rightarrow> u8 list \<Rightarrow> u8 list \<Rightarrow> u16 \<Rightarrow> bool \<Rightarrow> cage \<Rightarrow> cage option" where
  "cage_put sha1 t key val ttl unique s =
     (let i = id_at 0 (sha1 key) in
      if cg_state s = node_symmetric then cg_run_proxy t (px_store t i key val ttl unique) s
      else cg_run_dht t (d_store t i key val ttl unique) s)"

text \<open>The callback of the application is a number; the DHT gets it as one of the proxy's callers.\<close>

definition cage_get :: "(u8 list \<Rightarrow> u8 list) \<Rightarrow> int \<Rightarrow> u8 list \<Rightarrow> nat \<Rightarrow> cage \<Rightarrow> cage option" where
  "cage_get sha1 t key tag s =
     (let i = id_at 0 (sha1 key) in
      if cg_state s = node_symmetric then cg_run_proxy t (px_get t i key tag) s
      else cg_run_proxy t (px_find_value t i key (AppGet tag)) s)"

definition cage_set_dgram_callback :: "cage \<Rightarrow> cage" where
  "cage_set_dgram_callback s = s\<lparr>cg_dgram := dg_set_callback (cg_dgram s), cg_proxy := px_set_callback (cg_proxy s)\<rparr>"

text \<open>\<open>ok\<close> tells whether the socket could be opened; a directory is used with IPv4 only.\<close>

definition cage_open :: "bool \<Rightarrow> u16 \<Rightarrow> bool \<Rightarrow> cage \<Rightarrow> bool \<times> cage" where
  "cage_open ok domain is_dtun s =
     (if \<not> ok then (False, s)
      else
        let use = (domain \<noteq> domain_inet6 \<and> is_dtun);
            dh = set_enabled_dtun use ((px_dht (cg_proxy s))\<lparr>d_dtun := (set_enabled use (px_dtun (cg_proxy s)))\<lparr>dt_domain := domain\<rparr>\<rparr>) in
        (True, s\<lparr>cg_proxy := px_set_dht dh (cg_proxy s), cg_is_dtun := use, cg_nat := (if use then cg_nat s else set_state_global (cg_nat s))\<rparr>))"

definition cage_join :: "int \<Rightarrow> saddr option \<Rightarrow> cage \<Rightarrow> cage option" where
  "cage_join t host s =
     (if cg_is_dtun s then do {
        s \<leftarrow> cg_run_nat t (detect (dt_domain (px_dtun (cg_proxy s))) host) s;
        s \<leftarrow> cg_run_dtun t (dt_find_node_host host (NodesTo 1)) s;
        cg_run_dht t (d_find_node_host host dht_no_action) s
      }
      else cg_run_dht t (d_find_node_host host (DhtNodesTo 1)) s)"

definition cage_join_func :: "int \<Rightarrow> cageaddr list \<Rightarrow> cage \<Rightarrow> cage option" where
  "cage_join_func t nodes s =
     (if nodes \<noteq> [] then do {
        s \<leftarrow> cg_run_dtun t dt_register_self s;
        Some (s\<lparr>cg_joined := cg_joined s @ [True]\<rparr>)
      }
      else Some (s\<lparr>cg_joined := cg_joined s @ [False]\<rparr>))"

text \<open>All components refer to the one identifier.\<close>

definition cage_set_id :: "(u8 list \<Rightarrow> u8 list) \<Rightarrow> u8 list \<Rightarrow> cage \<Rightarrow> cage" where
  "cage_set_id sha1 buf s =
     (let i = id_at 0 (sha1 buf); p = cg_proxy s; dh = px_dht p; dt = d_dtun dh; g = cg_dgram s in
      s\<lparr>cg_proxy := px_set_dht (dh\<lparr>d_rt := (d_rt dh)\<lparr>m_id := i\<rparr>, d_dtun := dt\<lparr>dt_rt := (dt_rt dt)\<lparr>m_id := i\<rparr>\<rparr>\<rparr>) p,
        cg_nat := (cg_nat s)\<lparr>nd_id := i\<rparr>, cg_dgram := g\<lparr>dg_id := i, dg_adv := (dg_adv g)\<lparr>ad_id := i\<rparr>\<rparr>\<rparr>)"

text \<open>The connections of the application, whose callbacks are numbers.\<close>

definition cage_rdp_listen :: "u16 \<Rightarrow> nat \<Rightarrow> cage \<Rightarrow> (int \<times> cage) option" where
  "cage_rdp_listen port tag s = do { (d, p) \<leftarrow> px_listen port (PxApp tag) (cg_proxy s); Some (d, s\<lparr>cg_proxy := p\<rparr>) }"

definition cage_rdp_connect :: "u16 \<Rightarrow> uint160 \<Rightarrow> u16 \<Rightarrow> nat \<Rightarrow> cage \<Rightarrow> (int \<times> cage) option" where
  "cage_rdp_connect sp i dp tag s = do { (d, p) \<leftarrow> px_connect sp i dp (PxApp tag) (cg_proxy s); Some (d, s\<lparr>cg_proxy := p\<rparr>) }"

definition cage_rdp_close :: "int \<Rightarrow> cage \<Rightarrow> cage option" where
  "cage_rdp_close d s = do { p \<leftarrow> px_close d (cg_proxy s); Some (s\<lparr>cg_proxy := p\<rparr>) }"

definition cage_rdp_send :: "int \<Rightarrow> u8 list \<Rightarrow> cage \<Rightarrow> (int \<times> cage) option" where
  "cage_rdp_send d buf s = do {
     let dh = px_dht (cg_proxy s);
     (n, r) \<leftarrow> send d buf (d_rdp dh);
     Some (n, s\<lparr>cg_proxy := px_set_dht (dh\<lparr>d_rdp := r\<rparr>) (cg_proxy s)\<rparr>)
   }"

definition cage_rdp_receive :: "int \<Rightarrow> int \<Rightarrow> cage \<Rightarrow> u8 list \<times> cage" where
  "cage_rdp_receive d n s = (let (bs, p) = px_receive d n (cg_proxy s) in (bs, s\<lparr>cg_proxy := p\<rparr>))"

definition cage_rdp_get_desc_state :: "int \<Rightarrow> cage \<Rightarrow> rdp_state" where
  "cage_rdp_get_desc_state d s = get_desc_state d (d_rdp (px_dht (cg_proxy s)))"

text \<open>The components are built by their constructors; \<open>junk\<close> is what \<^verbatim>\<open>m_is_dtun\<close> holds before the node is opened.\<close>

definition cage_init :: "uint160 \<Rightarrow> proxy \<Rightarrow> u32 list \<Rightarrow> u16 list \<Rightarrow> advertise \<Rightarrow> bool \<Rightarrow> cage" where
  "cage_init i p rs ps adv junk =
     \<lparr>cg_proxy = p, cg_nat = natdetector_init i rs ps, cg_dgram = dgram_init i (dt_enabled (px_dtun p)) adv, cg_is_dtun = junk, cg_joined = []\<rparr>"

end
