(* ===== verification/Proxy_Props.thy ===== *)
theory Proxy_Props
  imports Proxy Dht_Find Dgram_Props
begin

section \<open>Properties of the proxy\<close>

text \<open>
  The reading loops end; a node registers with another one, which then serves its fetches and
  forwards to it; and the requests that do not do what they mean to.
\<close>

subsection \<open>The reading loops\<close>

lemma px_receive_left: "px_receive d n s = (bs, s') \<Longrightarrow> bs \<noteq> [] \<Longrightarrow> px_left d s' < px_left d s"
  by (auto simp: px_receive_def px_set_dht_def split: prod.splits dest: received_some)

lemma px_receive_length: "px_receive d n s = (bs, s') \<Longrightarrow> length bs = numeral k \<Longrightarrow> px_left d s' < px_left d s"
  by (erule px_receive_left) auto

lemma px_rdp_send_left: "px_rdp_send e buf s = Some s' \<Longrightarrow> px_left d s' = px_left d s"
  by (auto simp: px_rdp_send_def px_set_dht_def split: Option.bind_splits dest: d_rdp_send_left)

lemma px_left_simps [simp]:
  "px_left d (px_put_reply e r s) = px_left d s" "px_left d (px_put_recv_get e g s) = px_left d s" "px_left d (px_put_recv_store e x s) = px_left d s"
  "px_left d (px_put p o' s) = px_left d s"
  by (simp_all add: px_put_reply_def px_put_recv_get_def px_put_recv_store_def px_put_def)

lemma xs_step_progress: "xs_step t d s = Some (True, s') \<Longrightarrow> px_left d s' < px_left d s"
  by (auto simp: xs_step_def xs_read_hdr_def xs_read_key_def xs_read_val_def Let_def split: recv_store_state.splits Option.bind_splits prod.splits if_splits
      intro: px_receive_left px_receive_length)

lemma rg_step_progress: "rg_step t d s = Some (True, s') \<Longrightarrow> px_left d s' < px_left d s"
  by (auto simp: rg_step_def rg_read_hdr_def rg_read_key_def Let_def split: recv_get_state.splits Option.bind_splits prod.splits if_splits
      intro: px_receive_left px_receive_length)

lemma rgr_step_progress: "rgr_step t d s = Some (True, s') \<Longrightarrow> px_left d s' < px_left d s"
  by (auto simp: rgr_step_def rgr_read_hdr_def rgr_read_val_hdr_def rgr_read_val_def Let_def
      split: recv_get_reply_state.splits option.splits Option.bind_splits prod.splits if_splits
      intro: px_receive_left dest!: px_rdp_send_left [where d = d])

lemma gr_op_progress: "gr_read_op tag d s = Some (True, s') \<Longrightarrow> px_left d s' < px_left d s"
  by (auto simp: gr_read_op_def Let_def split: px_rdp_func.splits list.splits Option.bind_splits prod.splits if_splits
      intro: px_receive_left dest!: px_rdp_send_left [where d = d])

interpretation proxy_storing: reader "xs_step t d" "px_left d" for t d
  by unfold_locales (rule xs_step_progress)

interpretation proxy_serving: reader "rg_step t d" "px_left d" for t d
  by unfold_locales (rule rg_step_progress)

interpretation proxy_fetching: reader "rgr_step t d" "px_left d" for t d
  by unfold_locales (rule rgr_step_progress)

interpretation proxy_answering: reader "gr_read_op tag d" "px_left d" for tag d
  by unfold_locales (rule gr_op_progress)

subsection \<open>Registration\<close>

abbreviation px_out :: "proxy \<Rightarrow> sent" where
  "px_out s \<equiv> dt_out (px_dtun s)"

lemma px_upd_simps [simp]:
  "px_out (px_send ms s) = px_out s @ ms" "px_id (px_send ms s) = px_id s" "px_registered (px_send ms s) = px_registered s"
  "px_getdata (px_send ms s) = px_getdata s" "px_heap (px_send ms s) = px_heap s" "px_results (px_send ms s) = px_results s"
  "px_id (px_set_dtun dt s) = px_id s" "px_registered (px_set_dtun dt s) = px_registered s"
  "px_id (px_set_registered m s) = px_id s" "px_registered (px_set_registered m s) = m"
  by (simp_all add: px_upd px_set_registered_def d_send_def dt_send_def)

text \<open>\<open>B\<close> takes \<open>A\<close>: it does not have it yet and can start to announce it, or has it for the same session.\<close>

definition takes_node :: "uint160 \<Rightarrow> u32 \<Rightarrow> proxy \<Rightarrow> bool" where
  "takes_node i session s \<longleftrightarrow>
     (case px_registered s i of
        None \<Rightarrow> dt_register_node i session ((px_dtun s)\<lparr>dt_proxied := insert i (dom (px_registered s))\<rparr>) \<noteq> None
      | Some a \<Rightarrow> ra_session a = session)"

lemma recv_register_taken:
  assumes m: "dht_msg m type_proxy_register i (px_id s) (htonl_bytes session @ htonl_bytes nonce)" and len: "length i = 5" "length (px_id s) = 5"
    and ok: "takes_node i session s"
  shows "\<exists>s' r. px_recv_register t m (In a) s = Some s' \<and> last (px_out s') = (r, In a) \<and>
    dht_msg r type_proxy_register_reply (px_id s) i (htonl_bytes nonce) \<and>
    px_registered s' = (px_registered s)(i \<mapsto> \<lparr>ra_session = session, ra_addr = inet_node i a, ra_time = t\<rparr>)"
proof -
  have f: "u32_at 48 m = session" "take 4 (drop 52 m) = htonl_bytes nonce" using m by (simp_all add: dht_msg_at dht_msg_at(4) [OF m])
  have i: "ca_id (inet_node i a) = i" by (simp add: inet_node_def)
  obtain r where r: "send_msg (htonl_bytes nonce) type_proxy_register_reply (inet_node i a) (px_id s) = Some [(r, In a)]"
    "dht_msg r type_proxy_register_reply (px_id s) i (htonl_bytes nonce)"
    using send_msg_inet [OF len(2,1)] by blast
  let ?m = "(px_registered s)(i \<mapsto> \<lparr>ra_session = session, ra_addr = inet_node i a, ra_time = t\<rparr>)"
  show ?thesis
  proof (cases "px_registered s i")
    case None
    then obtain dt where "dt_register_node i session (px_dtun (px_set_registered ?m s)) = Some dt"
      using ok by (auto simp: takes_node_def px_set_registered_def px_upd)
    then show ?thesis using r f i None dht_msg_hdr [OF m] 
      by (intro exI [of _ "px_send [(r, In a)] (px_set_dtun dt (px_set_registered ?m s))"] exI [of _ r]) (simp add: px_recv_register_def Let_def)
  next
    case (Some old)
    then have "ra_session old = session" using ok by (simp add: takes_node_def)
    then show ?thesis using r f i Some dht_msg_hdr [OF m]
      by (intro exI [of _ "px_send [(r, In a)] (px_set_registered ?m s)"] exI [of _ r]) (simp add: px_recv_register_def Let_def)
  qed
qed

text \<open>
  Property C6.  Registration.  The nodes found for \<open>A\<close> name \<open>B\<close> as the first other one.  Then \<open>A\<close>
  sends \<open>B\<close> a message, and if \<open>B\<close> takes it, \<open>B\<close> has \<open>A\<close> registered for its session, at the address
  the message came from, and answers there; the answer makes \<open>A\<close> registered with \<open>B\<close> as its
  server, no longer registering, and its timer is stopped.  No other registration of \<open>B\<close> changes.
\<close>

theorem registration:
  assumes "find (\<lambda>c. ca_id c \<noteq> px_id sa) nodes = Some (inet_node (px_id sb) b)" "px_is_registering sa" "px_rnds sa = nonce # rs"
    and "length (px_id sa) = 5" "length (px_id sb) = 5" "takes_node (px_id sa) (dt_session (px_dtun sa)) sb"
  shows "\<exists>m sa1 sb1 r sa2. px_register_found nodes sa = Some sa1 \<and> px_out sa1 = px_out sa @ [(m, In b)] \<and>
    px_recv_register t m (In a) sb = Some sb1 \<and> last (px_out sb1) = (r, In a) \<and> px_recv_register_reply r (In b) sa1 = Some sa2 \<and>
    px_registered sb1 = (px_registered sb)(px_id sa \<mapsto> \<lparr>ra_session = dt_session (px_dtun sa), ra_addr = inet_node (px_id sa) a, ra_time = t\<rparr>) \<and>
    px_server sa2 = Some (inet_node (px_id sb) b) \<and> px_is_registered sa2 \<and> \<not> px_is_registering sa2 \<and> \<not> px_timer_register sa2"
proof -
  let ?body = "htonl_bytes (dt_session (px_dtun sa)) @ htonl_bytes nonce"
  obtain m where m: "send_msg ?body type_proxy_register (inet_node (px_id sb) b) (px_id sa) = Some [(m, In b)]"
    "dht_msg m type_proxy_register (px_id sa) (px_id sb) ?body"
    using send_msg_inet [OF assms(4,5)] by blast
  let ?s = "px_send [(m, In b)] (sa\<lparr>px_rnds := rs, px_nonce := nonce, px_timer_register := True\<rparr>)"
  have sa1: "px_register_found nodes sa = Some ?s" using assms(1,3) m(1) by (simp add: px_register_found_def)
  obtain sb1 r where b: "px_recv_register t m (In a) sb = Some sb1" "last (px_out sb1) = (r, In a)"
    "dht_msg r type_proxy_register_reply (px_id sb) (px_id sa) (htonl_bytes nonce)"
    "px_registered sb1 = (px_registered sb)(px_id sa \<mapsto> \<lparr>ra_session = dt_session (px_dtun sa), ra_addr = inet_node (px_id sa) a, ra_time = t\<rparr>)"
    using recv_register_taken [OF m(2) assms(4-6)] by blast
  have "u32_at 48 r = nonce" using b(3) at_head(2) [of nonce "[]"] by (simp add: dht_msg_at)
  moreover have "px_is_registering ?s" "px_nonce ?s = nonce" "px_id ?s = px_id sa" "px_out ?s = px_out sa @ [(m, In b)]"
    using assms(2) by (simp_all add: px_upd d_send_def dt_send_def)
  ultimately obtain sa2 where "px_recv_register_reply r (In b) ?s = Some sa2" "px_server sa2 = Some (inet_node (px_id sb) b)" "px_is_registered sa2"
    "\<not> px_is_registering sa2" "\<not> px_timer_register sa2"
    using dht_msg_hdr [OF b(3)] by (simp add: px_recv_register_reply_def)
  then show ?thesis using sa1 b \<open>px_out ?s = px_out sa @ [(m, In b)]\<close> by blast
qed

lemma rttable_init_simps [simp]: "m_id (rttable_init me rs) = me" "rt_rnds (rttable_init me rs) = rs"
  by (simp_all add: rttable_init_def)

definition sample_proxy :: "uint160 \<Rightarrow> proxy" where
  "sample_proxy i = new_proxy ((sample_peer i [])\<lparr>d_rt := rttable_init i [7, 8]\<rparr>) [42] 0 (\<lambda>_. new_getdata [] 0) 0 False 0 0"

lemma sample_proxy_simps [simp]:
  "px_dht (sample_proxy i) = (sample_peer i [])\<lparr>d_rt := rttable_init i [7, 8]\<rparr>" "px_rnds (sample_proxy i) = [42]" "px_registered (sample_proxy i) = Map.empty"
  "px_getdata (sample_proxy i) = []" "px_gets (sample_proxy i) = []" "px_results (sample_proxy i) = []" "px_calls (sample_proxy i) = []"
  "px_is_registered (sample_proxy i) = False" "px_is_registering (sample_proxy i) = False" "px_server (sample_proxy i) = None"
  "px_timer_register (sample_proxy i) = False"
  by (simp_all add: sample_proxy_def new_proxy_def)

lemma sample_peer_dtun [simp]: "d_dtun (sample_peer i js) = (dt_node i)\<lparr>dt_peers := set_callback (dt_peers (dt_node i))\<rparr>"
  by (simp add: sample_peer_def)

lemma lookup_alone:
  assumes "length me = 5" "length i = 5"
  shows "rt_lookup i num_find_node (rttable_init me rs) = Some [self_addr (rttable_init me rs)]"
  using lookup_closest [of "rttable_init me rs" i num_find_node] assms
  by (simp add: rows_ok_def all_nodes_def rttable_init_def num_find_node_def ord_wf_def)

theorem registration_witness:
  "\<exists>m sa1 sb1 r sa2. px_register_found [inet_node [0, 0, 0, 0, 5] (sample_at 8), inet_node [0, 0, 0, 0, 2] (sample_at 9)]
      ((sample_proxy [0, 0, 0, 0, 5])\<lparr>px_is_registering := True\<rparr>) = Some sa1 \<and>
    px_out sa1 = [(m, In (sample_at 9))] \<and> px_recv_register 100 m (In (sample_at 8)) (sample_proxy [0, 0, 0, 0, 2]) = Some sb1 \<and>
    px_registered sb1 [0, 0, 0, 0, 5] = Some \<lparr>ra_session = dt_session (dt_node [0, 0, 0, 0, 5]), ra_addr = inet_node [0, 0, 0, 0, 5] (sample_at 8), ra_time = 100\<rparr> \<and>
    px_recv_register_reply r (In (sample_at 9)) sa1 = Some sa2 \<and> px_server sa2 = Some (inet_node [0, 0, 0, 0, 2] (sample_at 9)) \<and> px_is_registered sa2"
proof -
  let ?a = "(sample_proxy [0, 0, 0, 0, 5])\<lparr>px_is_registering := True\<rparr>" and ?b = "sample_proxy [0, 0, 0, 0, 2]"
  let ?nodes = "[inet_node [0, 0, 0, 0, 5] (sample_at 8), inet_node [0, 0, 0, 0, 2] (sample_at 9)]"
  have "find (\<lambda>c. ca_id c \<noteq> px_id ?a) ?nodes = Some (inet_node (px_id ?b) (sample_at 9))" by (simp add: inet_node_def)
  moreover have "takes_node (px_id ?a) (dt_session (px_dtun ?a)) ?b"
    by (simp add: takes_node_def dt_register_node_def dt_find_node_def find_nv_def dt_node_def dtun_init_def lookup_alone self_addr_def)
  moreover have "px_is_registering ?a" "px_rnds ?a = [42]" "length (px_id ?a) = 5" "length (px_id ?b) = 5" by simp_all
  ultimately show ?thesis using registration [of ?a ?nodes ?b "sample_at 9" 42 "[]" 100 "sample_at 8"]
    by (simp add: dt_node_def dtun_init_def) fastforce
qed

subsection \<open>Fetching by datagram\<close>

lemma get_msg_fields:
  assumes m: "dht_msg m type_proxy_get src dst body" "msg_proxy_get i key nonce = Some body" and len: "length i = 5" "76 + length key \<le> px_buf_size"
  shows "u32_at 48 m = nonce" "id_at 52 m = i" "unat (u16_at 72 m) = length key" "take (length key) (drop 76 m) = key" "length m = 76 + length key"
proof -
  obtain b where b: "id_bytes i = Some b" using len(1) by (simp add: id_bytes_eq)
  have lb: "length b = 20" by (rule length_id_bytes [OF len(1) b])
  have body: "body = htonl_bytes nonce @ b @ htons_bytes (of_nat (length key)) @ [0, 0] @ key" using m(2) b by (simp add: msg_proxy_get_def)
  note f = dht_msg_at [OF m(1)]
  show "u32_at 48 m = nonce" by (simp add: f body)
  show "id_at 52 m = i" using id_at_bytes [OF len(1) b] by (simp add: f body at_append)
  show "unat (u16_at 72 m) = length key" using lb len(2) by (simp add: f body at_append unat_of_nat px_buf_size_def)
  show "take (length key) (drop 76 m) = key" using lb by (simp add: f body)
  show "length m = 76 + length key" using m(1) lb by (simp add: dht_msg_def body)
qed

definition get_reply :: "u8 list \<Rightarrow> uint160 \<Rightarrow> u32 \<Rightarrow> u16 \<Rightarrow> u8 list \<Rightarrow> bool" where
  "get_reply r dst nonce tot v \<longleftrightarrow> hd_dst (hdr_at r) = dst \<and> 80 \<le> length r \<and> u32_at 48 r = nonce \<and> u16_at 74 r = tot \<and> u8_at 76 r = 1 \<and> drop 80 r = v"

lemma get_reply_fields:
  assumes r: "dht_msg r ty src dst body" "get_reply_body f index tot 1 v = Some body" and i: "length (gf_id f) = 5"
  shows "get_reply r dst (gf_nonce f) tot v"
proof -
  obtain b where b: "id_bytes (gf_id f) = Some b" using i by (simp add: id_bytes_eq)
  have lb: "length b = 20" by (rule length_id_bytes [OF i b])
  have body: "body = htonl_bytes (gf_nonce f) @ b @ htons_bytes index @ htons_bytes tot @ [1, 0, 0, 0] @ v" using r(2) b by (simp add: get_reply_body_def)
  have "length body = 32 + length v" using lb by (simp add: body)
  note f = dht_msg_at [OF r(1)] dht_msg_u8 [OF r(1), unfolded this]
  have "u32_at 48 r = gf_nonce f" "u16_at 74 r = tot" "u8_at 76 r = 1" "drop 80 r = v" using lb by (simp_all add: f body at_append)
  then show ?thesis using dht_msg_hdr [OF r(1)] r(1) \<open>length body = 32 + length v\<close> by (simp add: get_reply_def dht_msg_def)
qed

lemma send_values_sent:
  assumes "length (gf_id f) = 5" "length me = 5" "length (px_id s) = 5" "\<forall>v \<in> set vs. 80 + length v \<le> px_buf_size"
  shows "\<exists>s' rs. px_send_values f (inet_node me a) tot index vs s = Some s' \<and> px_out s' = px_out s @ map (\<lambda>r. (r, In a)) rs \<and>
    list_all2 (\<lambda>v r. get_reply r me (gf_nonce f) tot v) vs rs"
  using assms(3,4)
proof (induction vs arbitrary: index s)
  case (Cons v vs)
  obtain body where body: "get_reply_body f index tot 1 v = Some body" using assms(1) by (auto simp: get_reply_body_def id_bytes_eq)
  obtain r where r: "send_msg body type_proxy_get_reply (inet_node me a) (px_id s) = Some [(r, In a)]" "dht_msg r type_proxy_get_reply (px_id s) me body"
    using send_msg_inet [OF Cons.prems(1) assms(2)] by blast
  let ?s = "px_send [(r, In a)] s"
  have "\<exists>s' rs. px_send_values f (inet_node me a) tot (index + 1) vs ?s = Some s' \<and> px_out s' = px_out ?s @ map (\<lambda>r. (r, In a)) rs \<and>
      list_all2 (\<lambda>v r. get_reply r me (gf_nonce f) tot v) vs rs"
    by (rule Cons.IH) (use Cons.prems in simp_all)
  then obtain s' rs where IH: "px_send_values f (inet_node me a) tot (index + 1) vs ?s = Some s'" "px_out s' = px_out ?s @ map (\<lambda>r. (r, In a)) rs"
    "list_all2 (\<lambda>v r. get_reply r me (gf_nonce f) tot v) vs rs"
    by blast
  have "get_reply r me (gf_nonce f) tot v" by (rule get_reply_fields [OF r(2) body assms(1)])
  then show ?case using IH body r(1) Cons.prems by (intro exI [of _ s'] exI [of _ "r # rs"]) simp
qed simp

text \<open>The fetch has received the values \<open>V\<close> of \<open>n\<close>.\<close>

definition fetching :: "proxy \<Rightarrow> u32 \<Rightarrow> nat \<Rightarrow> nat \<Rightarrow> u8 list set \<Rightarrow> bool" where
  "fetching s nonce tag n V \<longleftrightarrow> ord_wf (px_getdata s) \<and>
     (\<exists>p. ord_find (px_getdata s) nonce = Some p \<and> gd_func (px_heap s p) = tag \<and> gd_vset (px_heap s p) = V \<and>
          gd_total (px_heap s p) = (if V = {} then 0 else int n))"

lemma get_reply_taken:
  assumes "fetching s nonce tag n V" "get_reply r (px_id s) nonce (of_nat n) v" "finite V" "v \<notin> V" "n < 2 ^ 16"
  shows "\<exists>s'. px_recv_get_reply_msg r s = Some s' \<and> px_id s' = px_id s \<and>
    (if n \<le> Suc (card V) then px_results s' = px_results s @ [(tag, Some (insert v V))] \<and> ord_find (px_getdata s') nonce = None
     else px_results s' = px_results s \<and> fetching s' nonce tag n (insert v V))"
proof -
  obtain p where p: "ord_wf (px_getdata s)" "ord_find (px_getdata s) nonce = Some p" "gd_func (px_heap s p) = tag" "gd_vset (px_heap s p) = V"
    "gd_total (px_heap s p) = (if V = {} then 0 else int n)"
    using assms(1) by (auto simp: fetching_def)
  let ?g = "gd_add_value (u16_at 72 r) (of_nat n) v (px_heap s p)"
  have n: "uint (of_nat n :: u16) = int n" using assms(5) by (simp add: uint_nat unat_of_nat)
  have "V \<noteq> {} \<longrightarrow> n \<noteq> 0 \<or> gd_total ?g = 0" using p(5) by (simp add: gd_add_value_def)
  then have g: "gd_func ?g = tag" "gd_vset ?g = insert v V" "gd_total ?g = int n" using p n by (auto simp: gd_add_value_def)
  have c: "card (insert v V) = Suc (card V)" using assms(3,4) by simp
  show ?thesis
    using assms(2) p(1,2) g c by (auto simp: px_recv_get_reply_msg_def get_reply_def Let_def px_erase_get_def px_upd ord_find_del fetching_def)
qed

lemma get_replies_taken:
  assumes "list_all2 (\<lambda>v r. get_reply r me nonce (of_nat n) v) vs rs" "distinct vs" "vs \<noteq> []" "px_id s = me" "fetching s nonce tag n V"
    and "finite V" "set vs \<inter> V = {}" "card V + length vs = n" "n < 2 ^ 16"
  shows "\<exists>s'. run_steps px_recv_get_reply_msg rs s = Some s' \<and> px_results s' = px_results s @ [(tag, Some (V \<union> set vs))] \<and>
    ord_find (px_getdata s') nonce = None"
  using assms
proof (induction vs rs arbitrary: s V rule: list_all2_induct)
  case (Cons v vs r rs)
  obtain s1 where s1: "px_recv_get_reply_msg r s = Some s1" "px_id s1 = me"
    "if n \<le> Suc (card V) then px_results s1 = px_results s @ [(tag, Some (insert v V))] \<and> ord_find (px_getdata s1) nonce = None
     else px_results s1 = px_results s \<and> fetching s1 nonce tag n (insert v V)"
    using get_reply_taken [of s nonce tag n V r v] Cons by auto
  show ?case
  proof (cases "vs = []")
    case True
    then have "rs = []" "n = Suc (card V)" using Cons by simp_all
    then show ?thesis using s1 True by simp
  next
    case False
    then have "\<not> n \<le> Suc (card V)" using Cons.prems by (cases vs) auto
    then have f: "px_results s1 = px_results s" "fetching s1 nonce tag n (insert v V)" using s1(3) by simp_all
    have "\<exists>s'. run_steps px_recv_get_reply_msg rs s1 = Some s' \<and> px_results s' = px_results s1 @ [(tag, Some (insert v V \<union> set vs))] \<and>
        ord_find (px_getdata s') nonce = None"
      by (rule Cons.IH) (use Cons.prems False s1 f in \<open>auto\<close>)
    then show ?thesis using s1(1) f(1) by auto
  qed
qed simp

lemma px_get_sent:
  assumes "px_is_registered s" "\<not> d_use_rdp (px_dht s)" "px_server s = Some (inet_node j b)" "px_rnds s = nonce # rs" "ord_find (px_getdata s) nonce = None"
    and "ord_wf (px_getdata s)" "length (px_id s) = 5" "length j = 5" "length i = 5" "76 + length key \<le> px_buf_size"
  shows "\<exists>s' m body. px_get t i key tag s = Some s' \<and> px_out s' = px_out s @ [(m, In b)] \<and> dht_msg m type_proxy_get (px_id s) j body \<and>
    msg_proxy_get i key nonce = Some body \<and> fetching s' nonce tag n {} \<and> px_id s' = px_id s \<and> px_results s' = px_results s"
proof -
  obtain body where body: "msg_proxy_get i key nonce = Some body" using assms(9) by (auto simp: msg_proxy_get_def id_bytes_eq)
  obtain m where m: "send_msg body type_proxy_get (inet_node j b) (px_id s) = Some [(m, In b)]" "dht_msg m type_proxy_get (px_id s) j body"
    using send_msg_inet [OF assms(7,8)] by blast
  let ?s = "px_alloc nonce (new_getdata key tag) (s\<lparr>px_rnds := rs\<rparr>)"
  have same: "px_server ?s = px_server s" "px_dht ?s = px_dht s" "px_results ?s = px_results s" by (simp_all add: px_alloc_def px_put_def Let_def)
  have "px_get t i key tag s = Some (px_send [(m, In b)] ?s)"
    using assms body m(1) same by (simp add: px_get_def px_get_nonce_def Let_def)
  moreover have "fetching (px_send [(m, In b)] ?s) nonce tag n {}"
    using assms(6) by (simp add: fetching_def px_alloc_def px_put_def Let_def new_getdata_def ord_find_ins ord_wf_ins)
  ultimately show ?thesis using m(2) body same by (intro exI [of _ "px_send [(m, In b)] ?s"] exI [of _ m] exI [of _ body]) simp
qed

lemma values_answered:
  assumes "tag < length (px_gets s)" "px_gets s ! tag = ReplyTo \<lparr>gf_id = i, gf_src = me, gf_nonce = nonce, gf_is_rdp = False\<rparr>"
    and "px_registered s me = Some reg" "ra_addr reg = inet_node me a" "length i = 5" "length me = 5" "length (px_id s) = 5"
    and "finite V" "\<forall>v \<in> V. 80 + length v \<le> px_buf_size"
  shows "\<exists>s' rs. px_dht_values t tag (Some V) s = Some s' \<and> px_out s' = px_out s @ map (\<lambda>r. (r, In a)) rs \<and>
    list_all2 (\<lambda>v r. get_reply r me nonce (of_nat (card V)) v) (sorted_list_of_set V) rs"
proof -
  let ?f = "\<lparr>gf_id = i, gf_src = me, gf_nonce = nonce, gf_is_rdp = False\<rparr>"
  have "\<exists>s' rs. px_send_values ?f (inet_node me a) (of_nat (card V)) 1 (sorted_list_of_set V) s = Some s' \<and> px_out s' = px_out s @ map (\<lambda>r. (r, In a)) rs \<and>
      list_all2 (\<lambda>v r. get_reply r me (gf_nonce ?f) (of_nat (card V)) v) (sorted_list_of_set V) rs"
    by (rule send_values_sent) (use assms(5-9) in simp_all)
  then show ?thesis using assms(1-4) by (simp add: px_dht_values_def px_send_reply_def)
qed

text \<open>The replies complete the fetch in any sequence.\<close>

lemma replies_complete:
  assumes "list_all2 (\<lambda>v r. get_reply r me nonce (of_nat (card V)) v) (sorted_list_of_set V) rs" "mset rs' = mset rs"
    and "finite V" "V \<noteq> {}" "card V < 2 ^ 16" "px_id s = me" "fetching s nonce tag (card V) {}"
  shows "\<exists>s'. run_steps px_recv_get_reply_msg rs' s = Some s' \<and> px_results s' = px_results s @ [(tag, Some V)] \<and> ord_find (px_getdata s') nonce = None"
proof -
  have "list_all2 (\<lambda>r v. get_reply r me nonce (of_nat (card V)) v) rs (sorted_list_of_set V)" using assms(1) by (auto simp: list_all2_conv_all_nth)
  then obtain vs where "list_all2 (\<lambda>r v. get_reply r me nonce (of_nat (card V)) v) rs' vs" and m: "mset vs = mset (sorted_list_of_set V)"
    using list_all2_reorder_left_invariance [OF _ assms(2)] by blast
  then have l: "list_all2 (\<lambda>v r. get_reply r me nonce (of_nat (card V)) v) vs rs'" by (auto simp: list_all2_conv_all_nth)
  have v: "set vs = V" "distinct vs" "length vs = card V"
    using m assms(3) by (metis set_mset_mset set_sorted_list_of_set, metis mset_eq_imp_distinct_iff distinct_sorted_list_of_set, metis size_mset length_sorted_list_of_set)
  then have "vs \<noteq> []" using assms(4) by auto
  then show ?thesis using get_replies_taken [OF l v(2) _ assms(6,7)] v assms(5) by auto
qed


lemma sample_find_value:
  assumes "length i = 5" "length j = 5"
  shows "\<exists>dh. d_find_value t j key tag (px_dht (sample_proxy i)) = Some dh"
proof -
  have "rt_lookup j dht_num_find_node (rttable_init i [7, 8]) = Some [self_addr (rttable_init i [7, 8])]"
    using lookup_alone [OF assms] by (simp add: dht_num_find_node_def num_find_node_def)
  moreover have "ord_find (d_query (sample_peer i [])) 7 = None" by (simp add: sample_peer_def ord_find_def)
  ultimately show ?thesis
    by (simp add: d_find_value_def not_reachable_def dt_node_def dtun_init_def d_find_nv_def alloc_query_def d_send_find_def put_q_def new_dht_query_def self_addr_def
        dht_max_query_def Let_def)
qed


subsection \<open>Datagrams\<close>

lemma udp_recv_bytes: "length m \<le> 1024 \<Longrightarrow> pbuf_bytes (udp_recv m) = m"
  using udp_recv_read(1) [of m "[]"] udp_recv_simps [of m] by (simp add: pbuf_bytes_def get_data_def get_len_def)

lemma frame_msg:
  assumes "length src = 5" "length dst = 5"
  shows "dht_msg (frame ty src dst body) ty src dst body"
proof -
  obtain h where h: "hdr_bytes (new_hdr ty (48 + length body) src dst) = Some h" using hdr_total [OF assms] by force
  then show ?thesis using hdr_fields [OF assms h] by (simp add: frame_def dht_msg_def hdr_size_def)
qed

lemma forward_sent:
  assumes "px_registered s dst = Some reg" "ra_addr reg = inet_node dst c" "length src = 5" "length dst = 5" "length body \<le> 956"
  shows "\<exists>r. px_forward_msg (frame type_dgram src dst body) (In a) s = Some (px_send [(r, In c)] s) \<and> dht_msg r type_proxy_dgram_forwarded src dst
    (htons_bytes domain_inet @ htons_bytes (sin_port a) @ htonl_bytes (sin_addr a) @ replicate 12 0 @ body)"
proof -
  let ?b = "htons_bytes domain_inet @ htons_bytes (sin_port a) @ htonl_bytes (sin_addr a) @ replicate 12 0 @ body"
  note m = frame_msg [OF assms(3,4), of type_dgram body]
  have h: "hd_type (hdr_at (frame type_dgram src dst body)) = type_dgram" "drop 48 (frame type_dgram src dst body) = body"
    "length (frame type_dgram src dst body) = 48 + length body"
    using m by (simp_all add: dht_msg_def new_hdr_def)
  obtain r where r: "send_msg ?b type_proxy_dgram_forwarded (inet_node dst c) src = Some [(r, In c)]" "dht_msg r type_proxy_dgram_forwarded src dst ?b"
    using send_msg_inet [OF assms(3,4)] by blast
  have "px_forward_msg (frame type_dgram src dst body) (In a) s = Some (px_send [(r, In c)] s)"
    using assms(1,2,5) h dht_msg_hdr [OF m] r(1) by (simp add: px_forward_msg_def msg_forwarded_def px_buf_size_def Let_def)
  then show ?thesis using r(2) by blast
qed

lemma forward_read:
  assumes r: "dht_msg r type_proxy_dgram_forwarded src dst (htons_bytes domain_inet @ htons_bytes (sin_port a) @ htonl_bytes (sin_addr a) @ replicate 12 0 @ body)"
    and "body \<noteq> []" "length body \<le> 956" "px_is_callback s"
  shows "px_calls (px_recv_forwarded (udp_recv r) s) = px_calls s @ [CallDgramFunc body src,
    CallAdvertiseTo src domain_inet (sin_port a) (htonl_bytes (sin_addr a) @ replicate 12 0)]"
proof -
  have len: "length r = 68 + length body" and ty: "hd_type (hdr_at r) = type_proxy_dgram_forwarded" using r by (simp_all add: dht_msg_def new_hdr_def)
  have "pbuf_bytes (udp_recv r) = r" "get_len (udp_recv r) = 68 + int (length body)" using len assms(3) by (simp_all add: udp_recv_bytes udp_recv_simps)
  moreover have "drop 68 r = body" "u16_at 48 r = domain_inet" "u16_at 50 r = sin_port a" "take 16 (drop 52 r) = htonl_bytes (sin_addr a) @ replicate 12 0"
    by (simp_all add: dht_msg_at [OF r] at_append)
  ultimately show ?thesis using assms(2,4) ty dht_msg_hdr [OF r] by (simp add: px_recv_forwarded_def Let_def px_call_def)
qed

text \<open>
  Property C36.  The other direction does not work.  What \<open>A\<close> sends to a node it has no address of
  goes to its server, and the server hands the received buffer on to the datagram component as
  it is.  That buffer is full to its front, so there is no room for the header: even if the address of the
  destination is known nothing is sent, and no error is reported.
\<close>

theorem relayed_datagram_lost:
  assumes "get_addr dst (d_peers (px_dht sa)) = None" "px_is_registered sa" "px_server sa = Some (inet_node (px_id sb) b)"
    and "length (px_id sa) = 5" "length dst = 5" "48 + length body \<le> 1024" "px_has_registered (px_id sa) sb"
    and "get_addr dst (ad_peers (dg_adv g)) = Some (inet_node dst c)" "dst \<notin> dg_requesting g" "queue_of dst g = []"
  shows "\<exists>sa' m g'. px_send_dgram body dst sa = Some sa' \<and> px_out sa' = px_out sa @ [(m, In b)] \<and>
    px_recv_dgram (udp_recv m) sb = px_call (CallSendDgram (udp_recv m) dst type_proxy_dgram) sb \<and>
    send_dgram_pbuf (udp_recv m) dst type_proxy_dgram g = Some g' \<and> dg_out g' = dg_out g \<and> queue_of dst g' = []"
proof -
  let ?h = "(new_hdr type_proxy_dgram (48 + length body) (px_id sa) dst)\<lparr>hd_reserved := ntohs_bytes [px_junk sa, px_junk sa]\<rparr>"
  obtain h where h: "hdr_bytes ?h = Some h" "length h = 48" "hdr_at (h @ body) = ?h"
    using hdr_roundtrip [of ?h body] assms(4,5) by (auto simp: new_hdr_def hdr_size_def)
  let ?m = "h @ body"
  have "px_route dst sa = Some (inet_node dst b)" using assms(1-3) by (simp add: px_route_def inet_node_def)
  moreover have "send_to ?m (inet_node dst b) = Some [(?m, In b)]" by (simp add: send_to_def inet_node_def)
  moreover have "ca_id (inet_node dst b) = dst" by (simp add: inet_node_def)
  ultimately have 1: "px_send_dgram body dst sa = Some (px_send [(?m, In b)] sa)"
    using assms(6) h(1) by (simp add: px_send_dgram_def px_send_hdr_def hdr_size_def)
  have l: "length ?m \<le> 1024" using h(2) assms(6) by simp
  have 2: "px_recv_dgram (udp_recv ?m) sb = px_call (CallSendDgram (udp_recv ?m) dst type_proxy_dgram) sb"
    using h(3) assms(7) by (simp add: px_recv_dgram_def udp_recv_bytes [OF l] Let_def new_hdr_def)
  have "m_head (udp_recv ?m) = 0" using udp_recv_simps(1) [OF l] by (simp add: get_data_def)
  then have "prepend (int hdr_size) (udp_recv ?m) = (None, udp_recv ?m)" by (simp add: prepend_def hdr_size_def)
  then have "send_dgram_pbuf (udp_recv ?m) dst type_proxy_dgram g = Some (g\<lparr>dg_pool := insert dst (dg_pool g), dg_queue := (dg_queue g)(dst \<mapsto> [])\<rparr>)"
    using assms(8-10) by (cases "dg_queue g dst") (simp_all add: send_dgram_pbuf_def push2queue_def request_def send_queue_def queue_of_def dg_send_msg_def Let_def)
  then show ?thesis using 1 2 by (intro exI [of _ "px_send [(?m, In b)] sa"] exI [of _ ?m]) (auto simp: queue_of_def)
qed

theorem relayed_datagram_lost_witness:
  "\<exists>sa' m g'. px_send_dgram [1, 2, 3] [0, 0, 0, 0, 1]
      ((sample_proxy [0, 0, 0, 0, 5])\<lparr>px_is_registered := True, px_server := Some (inet_node [0, 0, 0, 0, 2] (sample_at 9))\<rparr>) = Some sa' \<and>
    px_out sa' = [(m, In (sample_at 9))] \<and> send_dgram_pbuf (udp_recv m) [0, 0, 0, 0, 1] type_proxy_dgram (dg_node 2 one_peer) = Some g' \<and> dg_out g' = []"
proof -
  let ?a = "(sample_proxy [0, 0, 0, 0, 5])\<lparr>px_is_registered := True, px_server := Some (inet_node [0, 0, 0, 0, 2] (sample_at 9))\<rparr>"
  let ?b = "(sample_proxy [0, 0, 0, 0, 2])\<lparr>px_registered := [[0, 0, 0, 0, 5] \<mapsto> \<lparr>ra_session = 5, ra_addr = inet_node [0, 0, 0, 0, 5] (sample_at 8), ra_time = 90\<rparr>]\<rparr>"
  let ?g = "dg_node 2 one_peer"
  have "get_addr [0, 0, 0, 0, 1] (d_peers (px_dht ?a)) = None" "px_out ?a = []"
    using empty_peers_addr [of "[0, 0, 0, 0, 1]"] by (simp_all add: dt_node_def dtun_init_def set_callback_def get_addr_def)
  moreover have "dg_out ?g = []" by (simp add: dg_node_def dgram_init_def dg_set_callback_def)
  ultimately show ?thesis
    using relayed_datagram_lost [of "[0, 0, 0, 0, 1]" ?a ?b "sample_at 9" "[1, 2, 3]" ?g "\<lparr>sin_port = 1, sin_addr = 7\<rparr>"] one_peer_addr
    by (auto simp: px_has_registered_def queue_of_def)
qed

subsection \<open>Storing\<close>

lemma store_msg_bytes:
  assumes m: "dht_msg m type_proxy_store src dst body" "msg_proxy_store i key val ttl unique = Some body" and len: "length i = 5"
    and short: "76 + length key + length val \<le> px_buf_size"
  shows "unat (u16_at 68 m) = length key" "unat (u16_at 70 m) = length val" "length m = 76 + length key + length val" "id_at 48 m = i" "u16_at 72 m = ttl"
    "u8_at 74 m = store_flags unique" "drop 76 m = key @ val"
proof -
  obtain b where b: "id_bytes i = Some b" using len by (simp add: id_bytes_eq)
  have lb: "length b = 20" by (rule length_id_bytes [OF len b])
  have body: "body = b @ htons_bytes (of_nat (length key)) @ htons_bytes (of_nat (length val)) @ htons_bytes ttl @ [store_flags unique, 0] @ key @ val"
    using m(2) b by (simp add: msg_proxy_store_def)
  have lbody: "length body = 28 + length key + length val" using lb by (simp add: body)
  note f = dht_msg_at [OF m(1)] dht_msg_u8 [OF m(1), unfolded lbody]
  show "unat (u16_at 68 m) = length key" "unat (u16_at 70 m) = length val"
    using lb short by (simp_all add: f body at_append unat_of_nat px_buf_size_def)
  show "length m = 76 + length key + length val" using m(1) lbody by (simp add: dht_msg_def)
  show "id_at 48 m = i" using id_at_bytes [OF len b] by (simp add: f body)
  show "u16_at 72 m = ttl" "u8_at 74 m = store_flags unique" "drop 76 m = key @ val" using lb by (simp_all add: f body at_append)
qed



lemma px_close_same: "px_close d s = Some s' \<Longrightarrow> \<exists>dh. s' = s\<lparr>px_dht := dh\<rparr> \<and> d_dtun dh = px_dtun s"
  by (auto simp: px_close_def px_set_dht_def d_close_def split: Option.bind_splits prod.splits)

text \<open>What the timer's sweep leaves as it is.\<close>

definition store_view :: "proxy \<Rightarrow> cageaddr option \<times> bool \<times> bool \<times> bool \<times> node_state \<times> store_func list" where
  "store_view s = (px_server s, px_is_registered s, px_is_registering s, px_timer_register s, px_nat s, px_store_data s)"

lemma px_close_view: "px_close d s = Some s' \<Longrightarrow> store_view s' = store_view s"
  by (auto simp: store_view_def dest!: px_close_same)

lemma px_close_all_view: "px_close_all ds s = Some s' \<Longrightarrow> store_view s' = store_view s"
  by (induction ds arbitrary: s) (auto split: Option.bind_splits dest: px_close_view)

lemma px_sweep_reply_view: "px_sweep_reply e s = Some s' \<Longrightarrow> store_view s' = store_view s"
  by (auto simp: px_sweep_reply_def Let_def store_view_def split: prod.splits if_splits Option.bind_splits dest!: px_close_same)

lemma run_steps_view:
  assumes "\<And>e s s'. f e s = Some s' \<Longrightarrow> store_view s' = store_view s"
  shows "run_steps f es s = Some s' \<Longrightarrow> store_view s' = store_view s"
  by (induction es arbitrary: s) (auto split: option.splits dest: assms)

lemma store_view_upd [simp]:
  "store_view (s\<lparr>px_rdp_store := a\<rparr>) = store_view s" "store_view (s\<lparr>px_recv_stores := b\<rparr>) = store_view s" "store_view (s\<lparr>px_recv_gets := c\<rparr>) = store_view s"
  "store_view (s\<lparr>px_rdp_reply := d\<rparr>) = store_view s"
  by (simp_all add: store_view_def)

lemma px_sweep_rdp_view:
  assumes "px_sweep_rdp t s = Some s'"
  shows "store_view s' = store_view s"
proof -
  obtain s1 s2 s3 s4 where s: "px_close_all (px_overdue t id (px_rdp_store s)) s = Some s1"
    "px_close_all (px_overdue t xs_time (px_recv_stores s1)) (s1\<lparr>px_rdp_store := px_kept t id (px_rdp_store s1)\<rparr>) = Some s2"
    "px_close_all (px_overdue t xg_time (px_recv_gets s2)) (s2\<lparr>px_recv_stores := px_kept t xs_time (px_recv_stores s2)\<rparr>) = Some s3"
    "px_close_all (px_overdue t id (px_rdp_reply s3)) (s3\<lparr>px_recv_gets := px_kept t xg_time (px_recv_gets s3)\<rparr>) = Some s4"
    "run_steps px_sweep_reply (px_recv_replies s4) (s4\<lparr>px_rdp_reply := px_kept t id (px_rdp_reply s4)\<rparr>) = Some s'"
    using assms by (auto simp: px_sweep_rdp_def Let_def split: Option.bind_splits)
  then show ?thesis
    using px_close_all_view [OF s(1)] px_close_all_view [OF s(2)] px_close_all_view [OF s(3)] px_close_all_view [OF s(4)] run_steps_view [OF px_sweep_reply_view s(5)] by simp
qed

lemma px_refresh_view: "store_view (px_refresh t s) = store_view s"
  by (simp add: store_view_def px_refresh_def px_set_registered_def px_upd)

lemma retry_without_server:
  assumes "px_server s = None" "px_store_data s \<noteq> []" "px_nat s = node_symmetric"
  shows "px_retry_storing t s = None"
  using assms by (cases "px_store_data s") (simp_all add: px_retry_storing_def px_connect_store_def)

text \<open>
  Property C37.  A value stored before the node is registered makes it fault.  A node behind a
  symmetric NAT that has no server yet keeps the value for later; the next time the proxy's timer fires
  before the registration succeeds, the value is sent to the server all the same, and
  the identifier of the server, which is null, is dereferenced.
\<close>

theorem early_store_faults:
  assumes "px_store t i key val ttl unique s = Some s1" "\<not> px_is_registered s" "px_server s = None" "d_use_rdp (px_dht s)"
    and "px_nat s = node_symmetric" "px_nat s1 = node_symmetric"
  shows "px_retry_storing t' s1 = None \<and> px_timer_proxy t' s1 = None"
proof -
  obtain s0 where s0: "px_register_node s = Some s0" "s1 = s0\<lparr>px_store_data := px_store_data s0 @ [create_store_func i key val ttl unique]\<rparr>"
    using assms(1,2,4,5) by (auto simp: px_store_def px_register_node_def px_upd split: if_splits Option.bind_splits)
  then have s1: "px_is_registering s1" "px_server s1 = None" "px_store_data s1 \<noteq> []"
    using assms(3) by (auto simp: px_register_node_def px_upd split: if_splits Option.bind_splits)
  let ?s = "px_refresh t' s1"
  note r = px_refresh_view [of t' s1]
  have "px_is_registering ?s" using r s1(1) by (simp add: store_view_def)
  then have reg: "px_register_node ?s = Some ?s" by (simp add: px_register_node_def)
  have "px_retry_storing t' s2 = None" if "px_sweep_rdp t' ?s = Some s2" for s2
    using px_sweep_rdp_view [OF that] r s1 assms(6) by (intro retry_without_server) (auto simp: store_view_def)
  moreover have "px_nat ?s = node_symmetric" using r assms(6) by (simp add: store_view_def)
  ultimately have "px_timer_proxy t' s1 = None"
    using reg by (cases "px_sweep_rdp t' ?s") (simp_all add: px_timer_proxy_def Let_def)
  then show ?thesis using retry_without_server [OF s1(2,3) assms(6)] by simp
qed

definition sample_symmetric :: proxy where
  "sample_symmetric = px_set_dht ((sample_dht [0, 0, 0, 0, 5])\<lparr>d_dtun := (dt_node [0, 0, 0, 0, 5])\<lparr>dt_nat := node_symmetric\<rparr>, d_use_rdp := True\<rparr>) (sample_proxy [0, 0, 0, 0, 5])"

lemma sample_symmetric_simps [simp]:
  "px_dtun sample_symmetric = (dt_node [0, 0, 0, 0, 5])\<lparr>dt_nat := node_symmetric\<rparr>" "d_use_rdp (px_dht sample_symmetric)" "px_id sample_symmetric = [0, 0, 0, 0, 5]"
  "\<not> px_is_registered sample_symmetric" "\<not> px_is_registering sample_symmetric" "\<not> px_timer_register sample_symmetric" "px_server sample_symmetric = None"
  by (simp_all add: sample_symmetric_def px_set_dht_def)

lemma sample_symmetric_registers:
  "\<exists>s. px_register_node sample_symmetric = Some s \<and> px_nat s = node_symmetric \<and> px_id s = [0, 0, 0, 0, 5] \<and> d_use_rdp (px_dht s) \<and> px_store_data s = px_store_data sample_symmetric"
  using lookup_alone [of "[0, 0, 0, 0, 5]" "[0, 0, 0, 0, 5]" "[]"]
  by (simp add: px_register_node_def dt_find_node_def find_nv_def dt_node_def dtun_init_def px_upd dt_called_def)

theorem early_store_faults_witness:
  "\<exists>s1. px_store 100 [0, 0, 0, 0, 1] [7] [1, 2, 3] 60 False sample_symmetric = Some s1 \<and> px_timer_proxy 130 s1 = None"
proof -
  obtain s0 where s0: "px_register_node sample_symmetric = Some s0" "px_nat s0 = node_symmetric" "d_use_rdp (px_dht s0)" using sample_symmetric_registers by blast
  let ?s = "s0\<lparr>px_store_data := px_store_data s0 @ [create_store_func [0, 0, 0, 0, 1] [7] [1, 2, 3] 60 False]\<rparr>"
  have store: "px_store 100 [0, 0, 0, 0, 1] [7] [1, 2, 3] 60 False sample_symmetric = Some ?s" using s0 by (simp add: px_store_def)
  have "px_nat ?s = node_symmetric" using s0(2) by simp
  then show ?thesis using early_store_faults [OF store, of 130] store by simp
qed

subsection \<open>Registrations and fetches that go wrong\<close>

lemma px_connect_store_reg:
  "px_connect_store t f s = Some s' \<Longrightarrow> px_is_registering s' = px_is_registering s \<and> px_timer_register s' = px_timer_register s"
  by (auto simp: px_connect_store_def px_connect_def px_set_dht_def split: Option.bind_splits)

lemma px_retry_reg:
  assumes "px_retry_storing t s = Some s'"
  shows "px_is_registering s' = px_is_registering s \<and> px_timer_register s' = px_timer_register s"
proof -
  have "run_steps (px_connect_store t) fs s = Some s1 \<Longrightarrow> px_is_registering s1 = px_is_registering s \<and> px_timer_register s1 = px_timer_register s" for fs s1
    by (induction fs arbitrary: s) (auto split: option.splits dest!: px_connect_store_reg)
  then show ?thesis using assms by (fastforce simp: px_retry_storing_def split: if_splits Option.bind_splits)
qed

lemma px_timer_reg:
  assumes "px_timer_proxy t s = Some s'" "px_is_registering s"
  shows "px_is_registering s' \<and> px_timer_register s' = px_timer_register s"
proof -
  let ?s = "px_refresh t s"
  note r = px_refresh_view [of t s]
  have reg: "px_register_node ?s = Some ?s" using r assms(2) by (simp add: px_register_node_def store_view_def)
  show ?thesis
  proof (cases "px_nat ?s = node_symmetric")
    case True
    then obtain s1 s2 where s: "px_sweep_rdp t ?s = Some s1" "px_retry_storing t s1 = Some s2" "s' = s2\<lparr>px_timer := t + proxy_timer_interval\<rparr>"
      using assms(1) reg by (auto simp: px_timer_proxy_def Let_def split: Option.bind_splits)
    then show ?thesis using px_sweep_rdp_view [OF s(1)] px_retry_reg [OF s(2)] r assms(2) by (simp add: store_view_def)
  next
    case False
    then show ?thesis using assms r by (auto simp: px_timer_proxy_def Let_def store_view_def)
  qed
qed

text \<open>
  A registration that finds no other node is never tried again.  The node is marked as
  registering, but no timer runs that would clear the mark, since it is started with the
  message: however often the proxy's timer fires, no other attempt is made.
\<close>

lemma registration_stuck:
  assumes "\<not> px_is_registering s" "\<not> px_timer_register s" "px_register_node s = Some s1" "list_all (\<lambda>c. ca_id c = px_id s) nodes"
    and "run_steps px_timer_proxy ts s1 = Some s2"
  shows "px_register_found nodes s1 = Some s1 \<and> px_is_registering s2 \<and> \<not> px_timer_register s2 \<and> px_register_node s2 = Some s2"
proof -
  have s1: "px_is_registering s1" "\<not> px_timer_register s1" "px_id s1 = px_id s"
    using assms(1-3) by (auto simp: px_register_node_def px_upd split: Option.bind_splits)
  have "find (\<lambda>c. ca_id c \<noteq> px_id s1) nodes = None" using assms(4) s1(3) by (auto simp: find_None_iff list_all_iff)
  then have "px_register_found nodes s1 = Some s1" by (simp add: px_register_found_def)
  moreover have "px_is_registering s2 \<and> \<not> px_timer_register s2"
    using s1(1,2) assms(5) by (induction ts arbitrary: s1) (auto split: option.splits dest!: px_timer_reg)
  ultimately show ?thesis by (simp add: px_register_node_def)
qed

definition quiet :: "proxy \<Rightarrow> bool" where
  "quiet s \<longleftrightarrow> px_rdp_store s = [] \<and> px_recv_stores s = [] \<and> px_recv_gets s = [] \<and> px_rdp_reply s = [] \<and> px_recv_replies s = [] \<and> px_store_data s = []"

lemma quiet_timer:
  assumes "quiet s" "px_is_registering s"
  shows "\<exists>s'. px_timer_proxy t s = Some s' \<and> quiet s' \<and> px_is_registering s'"
proof -
  let ?s = "px_refresh t s"
  have q: "quiet ?s" "px_is_registering ?s" using assms by (simp_all add: quiet_def px_refresh_def px_set_registered_def px_upd)
  then have "px_sweep_rdp t ?s = Some ?s" "px_retry_storing t ?s = Some ?s"
    by (simp_all add: quiet_def px_sweep_rdp_def px_retry_storing_def px_overdue_def px_kept_def Let_def)
  then have "px_timer_proxy t s = Some (?s\<lparr>px_timer := t + proxy_timer_interval\<rparr>)" using q(2) by (simp add: px_timer_proxy_def px_register_node_def Let_def)
  then show ?thesis using q by (simp add: quiet_def)
qed

lemma quiet_timers: "quiet s \<Longrightarrow> px_is_registering s \<Longrightarrow> \<exists>s'. run_steps px_timer_proxy ts s = Some s'"
proof (induction ts arbitrary: s)
  case (Cons t ts)
  then show ?case using quiet_timer [of s t] by fastforce
qed simp

lemma registration_stuck_witness:
  "\<exists>s1 s2. px_register_node sample_symmetric = Some s1 \<and> run_steps px_timer_proxy [130, 160] s1 = Some s2 \<and>
    px_register_found [inet_node [0, 0, 0, 0, 5] (sample_at 8)] s1 = Some s1 \<and> px_is_registering s2 \<and> px_register_node s2 = Some s2"
proof -
  obtain s1 where s1: "px_register_node sample_symmetric = Some s1" using sample_symmetric_registers by blast
  then have q: "quiet s1" "px_is_registering s1" by (auto simp: px_register_node_def quiet_def sample_symmetric_def sample_proxy_def new_proxy_def px_upd split: Option.bind_splits)
  obtain s2 where "run_steps px_timer_proxy [130, 160] s1 = Some s2" using quiet_timers [OF q, of "[130, 160]"] by blast
  then show ?thesis using registration_stuck [OF _ _ s1, of "[inet_node [0, 0, 0, 0, 5] (sample_at 8)]" "[130, 160]" s2] s1 by (auto simp: inet_node_def)
qed

text \<open>
  A fetch over RDP can call its callback twice.  Its values arrive on a connection
  the server opens; when that ends they are passed to the callback and the fetch is over, but the
  connection on which it was asked keeps its entry.  If that one breaks later, because
  the server's reset was lost, the callback is called again, now without values.
\<close>

lemma fetch_called_twice:
  assumes "ord_find (px_recv_replies s) d2 = Some r" "ord_find (px_getdata s) (xr_nonce r) = Some p" "gd_vset (px_heap s p) \<noteq> {}" "ord_wf (px_getdata s)"
    and "ord_find (px_rdp_get s) d1 = Some g" "pg_nonce g = xr_nonce r" "pg_func g = gd_func (px_heap s p)"
    and "px_recv_reply_event t d2 RESET s = Some s1" "px_get_event d1 BROKEN s1 = Some s2"
  shows "px_results s2 = px_results s @ [(pg_func g, Some (gd_vset (px_heap s p))), (pg_func g, None)]"
proof -
  have s1: "px_results s1 = px_results s @ [(pg_func g, Some (gd_vset (px_heap s p)))]" "px_rdp_get s1 = px_rdp_get s"
    "ord_find (px_getdata s1) (pg_nonce g) = None"
    using assms(1-4,6-8) by (auto simp: px_recv_reply_event_def px_reply_close_def px_erase_reply_def px_erase_get_def px_upd Let_def ord_find_del
        split: Option.bind_splits dest!: px_close_same)
  then show ?thesis
    using assms(5,9) by (auto simp: px_get_event_def px_erase_rdp_get_def px_upd split: Option.bind_splits dest!: px_close_same)
qed

definition sample_fetch :: proxy where
  "sample_fetch = (px_set_dht ((sample_dht [0, 0, 0, 0, 5])\<lparr>d_rdp := rdp_init [] 0\<rparr>) (sample_proxy [0, 0, 0, 0, 5]))\<lparr>
     px_getdata := [(42, 0)], px_heap := (\<lambda>_. (new_getdata [7] 3)\<lparr>gd_vset := {[1]}\<rparr>),
     px_rdp_get := [(11, \<lparr>pg_id = [0, 0, 0, 0, 1], pg_func = 3, pg_key = [7], pg_time = 90, pg_nonce = 42, pg_data = 0\<rparr>)],
     px_recv_replies := [(12, (new_recv_reply 95 0)\<lparr>xr_nonce := 42, xr_state := RGR_VAL_HDR\<rparr>)]\<rparr>"

lemma sample_fetch_close [simp]: "px_close d (sample_fetch\<lparr>px_getdata := x, px_heap := h, px_results := y\<rparr>) = Some (sample_fetch\<lparr>px_getdata := x, px_heap := h, px_results := y\<rparr>)"
  by (simp add: sample_fetch_def px_close_def d_close_def close_def px_set_dht_def rdp_init_def listen_right_def ord_find_def)

lemma fetch_called_twice_witness:
  "\<exists>s1 s2. px_recv_reply_event 100 12 RESET sample_fetch = Some s1 \<and> px_get_event 11 BROKEN s1 = Some s2 \<and> px_results s2 = [(3, Some {[1]}), (3, None)]"
proof -
  let ?s = sample_fetch
  have "ord_find (px_recv_replies ?s) 12 = Some ((new_recv_reply 95 0)\<lparr>xr_nonce := 42, xr_state := RGR_VAL_HDR\<rparr>)" "ord_find (px_getdata ?s) 42 = Some 0"
    "gd_vset (px_heap ?s 0) = {[1]}" "ord_wf (px_getdata ?s)" "gd_func (px_heap ?s 0) = 3" "px_results ?s = []"
    "ord_find (px_rdp_get ?s) 11 = Some \<lparr>pg_id = [0, 0, 0, 0, 1], pg_func = 3, pg_key = [7], pg_time = 90, pg_nonce = 42, pg_data = 0\<rparr>"
    by (simp_all add: sample_fetch_def ord_find_def ord_wf_def new_getdata_def px_set_dht_def)
  moreover have "\<exists>s1 s2. px_recv_reply_event 100 12 RESET ?s = Some s1 \<and> px_get_event 11 BROKEN s1 = Some s2"
    by (simp add: px_recv_reply_event_def px_reply_close_def px_erase_reply_def px_get_event_def px_close_def d_close_def close_def Let_def px_upd px_erase_get_def
        sample_fetch_def rdp_init_def listen_right_def ord_find_def new_recv_reply_def)
  ultimately show ?thesis using fetch_called_twice [of ?s 12 _ 0 11] by (auto simp: new_recv_reply_def) 
qed

lemma px_receive_same: "px_receive d n s = (bs, s') \<Longrightarrow> \<exists>dh. s' = s\<lparr>px_dht := dh\<rparr>"
  by (auto simp: px_receive_def px_set_dht_def split: prod.splits)

lemma px_rdp_send_same: "px_rdp_send d bs s = Some s' \<Longrightarrow> \<exists>dh. s' = s\<lparr>px_dht := dh\<rparr>"
  by (auto simp: px_rdp_send_def px_set_dht_def split: Option.bind_splits)

text \<open>
  Property C38.  A value that arrives in several segments is recorded after the first of them, with
  whatever the new buffer held in place of the rest: the test for completeness adds where it should
  compare.  The rest of the value is then read as the header of another one.
\<close>

theorem partial_value_recorded:
  assumes "ord_find (px_recv_replies s) d = Some r" "xr_state r = RGR_VAL" "xr_read r = 0" "unat (xr_valuelen r) = n" "xr_val r = replicate n junk"
    and "ord_find (px_getdata s) (xr_nonce r) = Some p" "px_receive d (int n) s = (bs, s0)" "bs \<noteq> []" "length bs < n" "n < 2 ^ 15"
    and "rgr_step t d s = Some (goes_on, s')"
  shows "gd_vset (px_heap s' p) = insert (bs @ replicate (n - length bs) junk) (gd_vset (px_heap s p)) \<and> goes_on \<and>
    (\<exists>r'. ord_find (px_recv_replies s') d = Some r' \<and> xr_state r' = RGR_VAL_HDR)"
proof -
  have "xr_valuelen r = of_nat n" using assms(4) by auto
  then have "(of_nat (length bs) + xr_valuelen r :: u16) = of_nat (length bs + n)" by simp
  then have "unat (of_nat (length bs) + xr_valuelen r :: u16) = length bs + n" using assms(9,10) by (simp only: unat_of_nat) simp
  then have nz: "of_nat (length bs) + xr_valuelen r \<noteq> (0 :: u16)" using assms(8) by (metis add_is_0 length_0_conv unat_0)
  have val: "bs @ drop (length bs) (xr_val r) = bs @ replicate (n - length bs) junk" using assms(5) by simp
  obtain dh where "s0 = s\<lparr>px_dht := dh\<rparr>" using px_receive_same [OF assms(7)] by blast
  then show ?thesis
    using assms(1-4,6-8,11) nz val
    by (auto simp: rgr_step_def rgr_read_val_def Let_def px_put_reply_def px_put_def ord_find_ins split: Option.bind_splits dest!: px_rdp_send_same)
qed

definition sample_partial :: proxy where
  "sample_partial = (px_set_dht ((sample_dht [0, 0, 0, 0, 5])\<lparr>d_rdp := upd_con 0 (\<lambda>c. c\<lparr>rqueue := [sample_seg [1, 2, 3]]\<rparr>) sample_rdp\<rparr>) (sample_proxy [0, 0, 0, 0, 5]))\<lparr>
     px_getdata := [(42, 0)], px_heap := (\<lambda>_. new_getdata [7] 3),
     px_recv_replies := [(7, (new_recv_reply 95 0)\<lparr>xr_nonce := 42, xr_state := RGR_VAL, xr_valuelen := 5, xr_val := replicate 5 9\<rparr>)]\<rparr>"

lemma sample_partial_receives: "\<exists>dh. px_receive 7 5 sample_partial = ([1, 2, 3], sample_partial\<lparr>px_dht := dh\<rparr>) \<and> ord_find (m_desc2conn (d_rdp dh)) 7 = Some 0 \<and> state (heap (d_rdp dh) 0) \<noteq> OPEN"
proof -
  have "m_len (sample_seg [1, 2, 3]) = 3" by (simp add: sample_seg_def pbuf_write_def)
  then show ?thesis
    by (simp add: px_receive_def d_receive_def receive_def sample_partial_def px_set_dht_def sample_rdp_def upd_con_def ord_find_def Let_def rdp_con_new_def init_rwnd_def)
      (rule exI, rule conjI [OF refl], simp)
qed

theorem partial_value_recorded_witness:
  "\<exists>s'. rgr_step 100 7 sample_partial = Some (True, s') \<and> gd_vset (px_heap s' 0) = {[1, 2, 3, 9, 9]}"
proof -
  let ?s = sample_partial and ?r = "(new_recv_reply 95 0)\<lparr>xr_nonce := 42, xr_state := RGR_VAL, xr_valuelen := 5, xr_val := replicate 5 9\<rparr>"
  obtain dh where dh: "px_receive 7 5 ?s = ([1, 2, 3], ?s\<lparr>px_dht := dh\<rparr>)" "ord_find (m_desc2conn (d_rdp dh)) 7 = Some 0" "state (heap (d_rdp dh) 0) \<noteq> OPEN"
    using sample_partial_receives by blast
  have s: "ord_find (px_recv_replies ?s) 7 = Some ?r" "ord_find (px_getdata ?s) 42 = Some 0" "gd_vset (px_heap ?s 0) = {}"
    by (simp_all add: sample_partial_def ord_find_def new_getdata_def)
  have "\<exists>s'. rgr_step 100 7 ?s = Some (True, s')"
    using dh s by (simp add: rgr_step_def rgr_read_val_def new_recv_reply_def px_rdp_send_def d_rdp_send_def send_def px_put_reply_def px_put_def Let_def)
  then obtain s' where s': "rgr_step 100 7 ?s = Some (True, s')" by blast
  have r: "xr_state ?r = RGR_VAL" "xr_read ?r = 0" "unat (xr_valuelen ?r) = 5" "xr_val ?r = replicate 5 9" "xr_nonce ?r = 42" by (simp_all add: new_recv_reply_def)
  have "[1, 2, 3] @ replicate (5 - length [1, 2, 3 :: u8]) 9 = [1, 2, 3, 9, 9 :: u8]" by (simp add: numeral_2_eq_2)
  moreover have "gd_vset (px_heap s' 0) = insert ([1, 2, 3] @ replicate (5 - length [1, 2, 3 :: u8]) 9) (gd_vset (px_heap ?s 0))"
    using partial_value_recorded [OF s(1) r(1-4) _ _ _ _ _ s', of 0 "[1, 2, 3]"] r(5) s(2) dh(1) by simp
  ultimately show ?thesis using s' s(3) by simp
qed

subsection \<open>Loops\<close>

text \<open>
  Property C25.  The loops in which the callbacks of the DHT and of the proxy read from a connection
  end: each of their eight steps that continues has taken bytes from the queue, so that more
  fuel than one unit more than the bytes queued never changes the result.  A result \<open>None\<close> of
  these loops is a fault of the code, not a lack of fuel.
\<close>

theorem reading_loops_end:
  assumes "px_left d s < n"
  shows "read_loop n (rs_step t d) (px_dht s) = read_loop (Suc (px_left d s)) (rs_step t d) (px_dht s) \<and>
    read_loop n (get_step t p d) (px_dht s) = read_loop (Suc (px_left d s)) (get_step t p d) (px_dht s) \<and>
    read_loop n (rget_step t d) (px_dht s) = read_loop (Suc (px_left d s)) (rget_step t d) (px_dht s) \<and>
    read_loop n (rget_read_op t d) (px_dht s) = read_loop (Suc (px_left d s)) (rget_read_op t d) (px_dht s) \<and>
    read_loop n (xs_step t d) s = read_loop (Suc (px_left d s)) (xs_step t d) s \<and>
    read_loop n (rg_step t d) s = read_loop (Suc (px_left d s)) (rg_step t d) s \<and>
    read_loop n (rgr_step t d) s = read_loop (Suc (px_left d s)) (rgr_step t d) s \<and>
    read_loop n (gr_read_op tag d) s = read_loop (Suc (px_left d s)) (gr_read_op tag d) s"
  using assms by (intro conjI storing.enough_fuel getting.enough_fuel serving.enough_fuel answering.enough_fuel
      proxy_storing.enough_fuel proxy_serving.enough_fuel proxy_fetching.enough_fuel proxy_answering.enough_fuel) simp_all

theorem reading_loops_end_witness:
  "px_left 7 sample_partial = 3 \<and> read_loop 9 (rgr_step 100 7) sample_partial = read_loop 4 (rgr_step 100 7) sample_partial"
proof -
  have q: "px_left 7 sample_partial = 3" by (simp add: sample_partial_def queued_bytes_def sample_rdp_def ord_find_def upd_con_def px_set_dht_def)
  then show ?thesis using reading_loops_end [of 7 sample_partial 9 100 0 0] unfolding q by (simp add: numeral_eq_Suc del: read_loop.simps)
qed

end
