(* ===== verification/Cage_Props.thy ===== *)
theory Cage_Props
  imports Cage Proxy_Props Dtun_Msgs
begin

section \<open>Properties of the node\<close>

text \<open>
  What the components send reaches the handler it is for, with two exceptions; what is no message
  changes nothing; and a datagram on its way through three nodes.
\<close>

subsection \<open>The switch\<close>

lemmas cage_types = type_defs type_dtun_defs type_dht_find_node_def type_dht_find_node_reply_def type_dht_find_value_def type_dht_find_value_reply_def
  type_dht_store_def type_dht_ping_def type_dht_ping_reply_def type_proxy_register_def type_proxy_register_reply_def type_proxy_store_def type_proxy_get_def
  type_proxy_get_reply_def type_proxy_dgram_def type_proxy_dgram_forwarded_def type_proxy_rdp_def type_proxy_rdp_forwarded_def

lemma cage_switch_simps:
  "cage_switch type_nat_echo n = exactly 52 n Nat_recv_echo"
  "cage_switch type_nat_echo_reply n = exactly 72 n Nat_recv_echo_reply"
  "cage_switch type_nat_echo_redirect n = exactly 56 n Nat_recv_echo_redirect"
  "cage_switch type_dtun_ping n = exactly 52 n Dtun_recv_ping"
  "cage_switch type_dtun_ping_reply n = exactly 52 n Dtun_recv_ping_reply"
  "cage_switch type_dtun_find_node n = exactly 76 n Dtun_recv_find_node"
  "cage_switch type_dtun_find_node_reply n = at_least 76 n Dtun_recv_find_node_reply"
  "cage_switch type_dtun_register n = exactly 52 n Dtun_recv_register"
  "cage_switch type_dtun_find_value n = exactly 76 n Dtun_recv_find_value"
  "cage_switch type_dtun_find_value_reply n = at_least 76 n Dtun_recv_find_value_reply"
  "cage_switch type_dtun_request n = exactly 72 n Dtun_recv_request"
  "cage_switch type_dtun_request_by n = at_least 68 n Dtun_recv_request_by"
  "cage_switch type_dtun_request_reply n = exactly 52 n Dtun_recv_request_reply"
  "cage_switch type_dht_find_node n = exactly 76 n Dht_recv_find_node"
  "cage_switch type_dht_find_node_reply n = at_least 76 n Dht_recv_find_node_reply"
  "cage_switch type_dht_store n = at_least 96 n Dht_recv_store"
  "cage_switch type_dht_find_value n = at_least 80 n Dht_recv_find_value"
  "cage_switch type_dht_find_value_reply n = at_least 80 n Dht_recv_find_value_reply"
  "cage_switch type_rdp n = at_least 48 n Dgram_recv_dgram"
  "cage_switch type_dgram n = at_least 48 n Dgram_recv_dgram"
  "cage_switch type_proxy_register n = exactly 56 n Proxy_recv_register"
  "cage_switch type_proxy_register_reply n = exactly 52 n Proxy_recv_register_reply"
  "cage_switch type_proxy_store n = at_least 76 n Proxy_recv_store"
  "cage_switch type_proxy_get n = at_least 76 n Proxy_recv_get"
  "cage_switch type_proxy_get_reply n = at_least 76 n Proxy_recv_get_reply"
  "cage_switch type_proxy_dgram n = at_least 48 n Proxy_recv_dgram"
  "cage_switch type_proxy_rdp_forwarded n = at_least 76 n Proxy_recv_forwarded"
  "cage_switch type_proxy_dgram_forwarded n = at_least 76 n Proxy_recv_forwarded"
  "cage_switch type_advertise n = exactly 56 n Advertise_recv_advertise"
  "cage_switch type_advertise_reply n = exactly 56 n Advertise_recv_advertise_reply"
  "cage_switch type_dht_ping n = None" "cage_switch type_dht_ping_reply n = None" "cage_switch type_undefined n = None"
  by (simp_all add: cage_switch_def cage_types type_undefined_def)

lemma dispatch_hdr:
  assumes "hdr_bytes ((new_hdr ty n src dst)\<lparr>hd_reserved := junk\<rparr>) = Some h" "length src = 5" "length dst = 5"
  shows "cage_dispatch (h @ body) = cage_switch ty (48 + length body)"
proof -
  have "length h = 48 \<and> hdr_at (h @ body) = (new_hdr ty n src dst)\<lparr>hd_reserved := junk\<rparr>" using hdr_junk_fields [OF assms(2,3), where ty = ty and n = n and junk = junk] assms(1) by auto
  then show ?thesis by (simp add: cage_dispatch_def new_hdr_def hdr_size_def)
qed

lemma dispatch_new_hdr:
  "hdr_bytes (new_hdr ty n src dst) = Some h \<Longrightarrow> length src = 5 \<Longrightarrow> length dst = 5 \<Longrightarrow> cage_dispatch (h @ body) = cage_switch ty (48 + length body)"
  using dispatch_hdr [where ty = ty and n = n and src = src and dst = dst and junk = 0 and h = h and body = body] by (simp add: new_hdr_def)

lemma dispatch_sent:
  assumes "send_msg body ty c src = Some ms" "(m, a) \<in> set ms" "length src = 5" "length (ca_id c) = 5"
  shows "cage_dispatch m = cage_switch ty (48 + length body)"
  using assms dispatch_new_hdr by (auto simp: send_msg_def split: Option.bind_splits if_splits)

lemma dispatch_frame:
  assumes "length src = 5" "length dst = 5"
  shows "cage_dispatch (frame ty src dst body) = cage_switch ty (48 + length body)"
proof -
  obtain h where "hdr_bytes (new_hdr ty (hdr_size + length body) src dst) = Some h" using hdr_total [OF assms] by blast
  then show ?thesis using assms by (simp add: frame_def dispatch_new_hdr)
qed

subsection \<open>What is sent\<close>

text \<open>
  The messages the components compose, with the handler each of them is for.  The pings of the DHT
  are not among them, nor a forwarded message with less than eight bytes.
\<close>

inductive sent_for :: "cage_handler \<Rightarrow> u8 list \<Rightarrow> bool" where
  nat_echo: "length me = 5 \<Longrightarrow> msg_nat_echo me nonce = Some m \<Longrightarrow> sent_for Nat_recv_echo m"
| nat_echo_reply: "length me = 5 \<Longrightarrow> length dst = 5 \<Longrightarrow> msg_nat_echo_reply me dst nonce (In a) = Some m \<Longrightarrow> sent_for Nat_recv_echo_reply m"
| nat_echo_redirect: "length me = 5 \<Longrightarrow> length dst = 5 \<Longrightarrow> msg_nat_echo_redirect me dst nonce port = Some m \<Longrightarrow> sent_for Nat_recv_echo_redirect m"
| dtun_ping: "length me = 5 \<Longrightarrow> length dst = 5 \<Longrightarrow> msg_ping type_dtun_ping me dst nonce = Some m \<Longrightarrow> sent_for Dtun_recv_ping m"
| dtun_ping_reply: "length me = 5 \<Longrightarrow> length dst = 5 \<Longrightarrow> msg_ping type_dtun_ping_reply me dst nonce = Some m \<Longrightarrow> sent_for Dtun_recv_ping_reply m"
| dtun_find_node: "length me = 5 \<Longrightarrow> length dst = 5 \<Longrightarrow> length i = 5 \<Longrightarrow> msg_dtun_find type_dtun_find_node me dst nonce i domain st = Some m \<Longrightarrow> sent_for Dtun_recv_find_node m"
| dtun_find_value: "length me = 5 \<Longrightarrow> length dst = 5 \<Longrightarrow> length i = 5 \<Longrightarrow> msg_dtun_find type_dtun_find_value me dst nonce i domain st = Some m \<Longrightarrow> sent_for Dtun_recv_find_value m"
| dtun_find_node_reply: "length me = 5 \<Longrightarrow> sent_for Dtun_recv_find_node q \<Longrightarrow> msg_dtun_reply type_dtun_find_node_reply me q num flag addrs = Some m \<Longrightarrow> sent_for Dtun_recv_find_node_reply m"
| dtun_find_value_reply: "length me = 5 \<Longrightarrow> sent_for Dtun_recv_find_value q \<Longrightarrow> msg_dtun_reply type_dtun_find_value_reply me q num flag addrs = Some m \<Longrightarrow> sent_for Dtun_recv_find_value_reply m"
| dtun_register: "length me = 5 \<Longrightarrow> length dst = 5 \<Longrightarrow> msg_dtun_register me dst session = Some m \<Longrightarrow> sent_for Dtun_recv_register m"
| dtun_request: "length me = 5 \<Longrightarrow> length dst = 5 \<Longrightarrow> length i = 5 \<Longrightarrow> msg_dtun_request me dst nonce i = Some m \<Longrightarrow> sent_for Dtun_recv_request m"
| dtun_request_by: "length me = 5 \<Longrightarrow> length dst = 5 \<Longrightarrow> length i = 5 \<Longrightarrow> msg_dtun_request_by me dst nonce (inet_node i a) = Some m \<Longrightarrow> sent_for Dtun_recv_request_by m"
| dtun_request_reply: "length me = 5 \<Longrightarrow> length dst = 5 \<Longrightarrow> msg_dtun_request_reply me dst nonce junk = Some m \<Longrightarrow> sent_for Dtun_recv_request_reply m"
| dht_find_node: "dht_find_node_body i nonce domain = Some b \<Longrightarrow> length i = 5 \<Longrightarrow> send_msg b type_dht_find_node c me = Some ms \<Longrightarrow> (m, a) \<in> set ms \<Longrightarrow>
    length me = 5 \<Longrightarrow> length (ca_id c) = 5 \<Longrightarrow> sent_for Dht_recv_find_node m"
| dht_find_node_reply: "sent_for Dht_recv_find_node q \<Longrightarrow> send_msg (take 26 (drop 48 q) @ [num, 0] @ addrs) type_dht_find_node_reply c me = Some ms \<Longrightarrow> (m, a) \<in> set ms \<Longrightarrow>
    length me = 5 \<Longrightarrow> length (ca_id c) = 5 \<Longrightarrow> sent_for Dht_recv_find_node_reply m"
| dht_store: "msg_dht_store f me = Some b \<Longrightarrow> length (sf_id f) = 5 \<Longrightarrow> send_msg b type_dht_store c me = Some ms \<Longrightarrow> (m, a) \<in> set ms \<Longrightarrow>
    length me = 5 \<Longrightarrow> length (ca_id c) = 5 \<Longrightarrow> sent_for Dht_recv_store m"
| dht_find_value: "dht_find_value_body by_rdp key i nonce domain = Some b \<Longrightarrow> length i = 5 \<Longrightarrow> send_msg b type_dht_find_value c me = Some ms \<Longrightarrow> (m, a) \<in> set ms \<Longrightarrow>
    length me = 5 \<Longrightarrow> length (ca_id c) = 5 \<Longrightarrow> sent_for Dht_recv_find_value m"
| dht_find_value_reply: "sent_for Dht_recv_find_value q \<Longrightarrow> send_msg (find_value_reply_body q index tot flag bs) type_dht_find_value_reply c me = Some ms \<Longrightarrow> (m, a) \<in> set ms \<Longrightarrow>
    length me = 5 \<Longrightarrow> length (ca_id c) = 5 \<Longrightarrow> sent_for Dht_recv_find_value_reply m"
| dgram: "length me = 5 \<Longrightarrow> length dst = 5 \<Longrightarrow> ty = type_dgram \<or> ty = type_rdp \<Longrightarrow> sent_for Dgram_recv_dgram (frame ty me dst body)"
| proxy_register: "send_msg (htonl_bytes session @ htonl_bytes nonce) type_proxy_register c me = Some ms \<Longrightarrow> (m, a) \<in> set ms \<Longrightarrow>
    length me = 5 \<Longrightarrow> length (ca_id c) = 5 \<Longrightarrow> sent_for Proxy_recv_register m"
| proxy_register_reply: "sent_for Proxy_recv_register q \<Longrightarrow> send_msg (take 4 (drop 52 q)) type_proxy_register_reply c me = Some ms \<Longrightarrow> (m, a) \<in> set ms \<Longrightarrow>
    length me = 5 \<Longrightarrow> length (ca_id c) = 5 \<Longrightarrow> sent_for Proxy_recv_register_reply m"
| proxy_store: "msg_proxy_store i key val ttl unique = Some b \<Longrightarrow> length i = 5 \<Longrightarrow> send_msg b type_proxy_store c me = Some ms \<Longrightarrow> (m, a) \<in> set ms \<Longrightarrow>
    length me = 5 \<Longrightarrow> length (ca_id c) = 5 \<Longrightarrow> sent_for Proxy_recv_store m"
| proxy_get: "msg_proxy_get i key nonce = Some b \<Longrightarrow> length i = 5 \<Longrightarrow> send_msg b type_proxy_get c me = Some ms \<Longrightarrow> (m, a) \<in> set ms \<Longrightarrow>
    length me = 5 \<Longrightarrow> length (ca_id c) = 5 \<Longrightarrow> sent_for Proxy_recv_get m"
| proxy_get_reply: "get_reply_body f index tot flag val = Some b \<Longrightarrow> length (gf_id f) = 5 \<Longrightarrow> send_msg b type_proxy_get_reply c me = Some ms \<Longrightarrow> (m, a) \<in> set ms \<Longrightarrow>
    length me = 5 \<Longrightarrow> length (ca_id c) = 5 \<Longrightarrow> sent_for Proxy_recv_get_reply m"
| proxy_dgram: "px_send_hdr body junk type_proxy_dgram c s = Some s' \<Longrightarrow> px_out s' = px_out s @ ms \<Longrightarrow> (m, a) \<in> set ms \<Longrightarrow>
    length (px_id s) = 5 \<Longrightarrow> length (ca_id c) = 5 \<Longrightarrow> sent_for Proxy_recv_dgram m"
| proxy_forwarded: "msg_forwarded body (In b) = Some fb \<Longrightarrow> 8 \<le> length body \<Longrightarrow> ty = type_proxy_dgram_forwarded \<or> ty = type_proxy_rdp_forwarded \<Longrightarrow>
    send_msg fb ty c me = Some ms \<Longrightarrow> (m, a) \<in> set ms \<Longrightarrow> length me = 5 \<Longrightarrow> length (ca_id c) = 5 \<Longrightarrow> sent_for Proxy_recv_forwarded m"
| advertise: "length me = 5 \<Longrightarrow> length dst = 5 \<Longrightarrow> msg_advertise type_advertise me dst nonce session = Some m \<Longrightarrow> sent_for Advertise_recv_advertise m"
| advertise_reply: "send_msg (htonl_bytes nonce @ htonl_bytes session) type_advertise_reply c me = Some ms \<Longrightarrow> (m, a) \<in> set ms \<Longrightarrow>
    length me = 5 \<Longrightarrow> length (ca_id c) = 5 \<Longrightarrow> sent_for Advertise_recv_advertise_reply m"

lemma exactly_Some: "exactly n len h = Some h' \<longleftrightarrow> len = n \<and> h' = h"
  and at_least_Some: "at_least n len h = Some h' \<longleftrightarrow> n \<le> len \<and> h' = h"
  by (auto simp: exactly_def at_least_def)

lemma dispatch_size:
  "cage_dispatch q = Some Dtun_recv_find_node \<Longrightarrow> length q = 76" "cage_dispatch q = Some Dtun_recv_find_value \<Longrightarrow> length q = 76"
  "cage_dispatch q = Some Dht_recv_find_node \<Longrightarrow> length q = 76" "cage_dispatch q = Some Dht_recv_find_value \<Longrightarrow> 80 \<le> length q"
  "cage_dispatch q = Some Proxy_recv_register \<Longrightarrow> length q = 56"
  by (auto simp: cage_dispatch_def cage_switch_def Let_def exactly_Some at_least_Some split: if_splits)

lemma length_id_at [simp]: "length (id_at off m) = 5"
proof -
  have "length (from_binary_loop i buf n) = length n" for i buf n
    by (induction i buf n rule: from_binary_loop.induct) (subst from_binary_loop.simps, simp)
  then show ?thesis by (simp add: id_at_def bn_from_binary_def)
qed

lemmas composing = msg_nat_echo_def msg_nat_echo_reply_def seen_addr_def msg_nat_echo_redirect_def msg_ping_def msg_dtun_find_def msg_dtun_reply_def
  msg_dtun_register_def msg_dtun_request_def msg_advertise_def



text \<open>
  Property C34.  The pings of the DHT and their replies are for no handler: a node that receives one does
  nothing.  So a ping of the DHT is never answered, and the node it probes is always dropped from
  the row when the ping times out.
\<close>

theorem dht_pings_dropped:
  assumes "msg_ping ty src dst nonce = Some m" "ty = type_dht_ping \<or> ty = type_dht_ping_reply" "length src = 5" "length dst = 5"
  shows "cage_receive order t (udp_recv m) from' s = Some s"
proof -
  obtain h where h: "hdr_bytes (new_hdr ty 52 src dst) = Some h" "m = h @ htonl_bytes nonce" using assms(1) by (auto simp: msg_ping_def ping_size_def split: Option.bind_splits)
  then have "length m = 52" using hdr_fields(1) [OF assms(3,4) h(1)] by simp
  then have "pbuf_bytes (udp_recv m) = m" by (simp add: udp_recv_bytes)
  moreover have "cage_dispatch m = None" using dispatch_new_hdr [OF h(1) assms(3,4)] h(2) assms(2) by (auto simp: cage_switch_simps)
  ultimately show ?thesis by (simp add: cage_receive_def)
qed

definition sample_cage :: "uint160 \<Rightarrow> cage" where
  "sample_cage i = cage_init i (sample_proxy i) [] [] (advertise_init i 5 [9] empty_peers 0 0) True"

theorem dht_pings_dropped_witness:
  "\<exists>m. msg_ping type_dht_ping [0, 0, 0, 0, 5] [0, 0, 0, 0, 2] 42 = Some m \<and>
    cage_receive id 100 (udp_recv m) (In (sample_at 8)) (sample_cage [0, 0, 0, 0, 2]) = Some (sample_cage [0, 0, 0, 0, 2])"
proof -
  obtain h where "hdr_bytes (new_hdr type_dht_ping ping_size [0, 0, 0, 0, 5] [0, 0, 0, 0, 2]) = Some h"
    using hdr_total [of "[0, 0, 0, 0, 5]" "[0, 0, 0, 0, 2]"] by auto
  then have m: "msg_ping type_dht_ping [0, 0, 0, 0, 5] [0, 0, 0, 0, 2] 42 = Some (h @ htonl_bytes 42)" by (simp add: msg_ping_def)
  then show ?thesis using dht_pings_dropped [OF m] by simp
qed

subsection \<open>A datagram through three nodes\<close>

lemma d_set_same_peers: "d_set_peers (d_peers s) s = Some s"
  by (simp add: d_set_peers_def)

lemma recv_dgram_other:
  assumes "length src = 5" "length dst = 5" "dst \<noteq> dg_id g" "length body \<le> 976"
  shows "\<exists>x. recv_dgram t (udp_recv (frame ty src dst body)) from' g = Some (g\<lparr>dg_forwards := dg_forwards g @ [x]\<rparr>)"
proof -
  note m = frame_msg [OF assms(1,2), of ty body]
  obtain h where h: "hdr_bytes (new_hdr ty (48 + length body) src dst) = Some h" using hdr_total [OF assms(1,2)] by force
  have frame: "frame ty src dst body = h @ body" using h by (simp add: frame_def hdr_size_def)
  note f = hdr_fields [OF assms(1,2) h]
  have "unat (word_of_nat (48 + length body) :: u16) = 48 + length body" by (subst unat_of_nat) (use assms(4) in simp)
  then have "uint (word_of_nat (48 + length body) :: u16) = 48 + int (length body)" unfolding uint_nat by simp
  moreover have "hdr_at h = new_hdr ty (48 + length body) src dst" using f(2) [of "[]"] by simp
  moreover have "pbuf_read (udp_recv (h @ body)) 0 48 = h" using udp_recv_read(1) [of h body] f(1) assms(4) by simp
  moreover have "get_data (udp_recv (h @ body)) = 0" "get_len (udp_recv (h @ body)) = 48 + int (length body)"
    using udp_recv_simps [of "h @ body"] f(1) assms(4) by simp_all
  ultimately show ?thesis using assms(3) by (simp add: recv_dgram_def Let_def hdr_size_def new_hdr_def frame) (intro exI, rule refl)
qed

lemma cg_forwards:
  assumes "length src = 5" "length dst = 5" "dst \<noteq> dg_id (cg_dgram s)" "length body \<le> 956" "px_forward_msg (frame type_dgram src dst body) from' (cg_proxy_view s) = Some (px_send ms (cg_proxy_view s))"
  shows "\<exists>s'. cage_receive order t (udp_recv (frame type_dgram src dst body)) from' s = Some s' \<and> px_out (cg_proxy s') = px_out (cg_proxy s) @ ms"
proof -
  let ?m = "frame type_dgram src dst body" and ?g = "cg_dgram_view s"
  have g: "dg_id ?g = dg_id (cg_dgram s)" "dg_forwards ?g = dg_forwards (cg_dgram s)" "ad_peers (dg_adv ?g) = d_peers (px_dht (cg_proxy s))"
    by (simp_all add: cg_dgram_view_def Let_def)
  obtain x where x: "recv_dgram t (udp_recv ?m) from' ?g = Some (?g\<lparr>dg_forwards := dg_forwards ?g @ [x]\<rparr>)"
    using recv_dgram_other [of src dst ?g body t type_dgram from'] assms(1-4) g(1) by auto
  let ?s = "s\<lparr>cg_dgram := ?g\<lparr>dg_forwards := dg_forwards ?g @ [x]\<rparr>\<rparr>"
  have 1: "cg_run_dgram (recv_dgram t (udp_recv ?m) from') s = Some ?s"
    using x g(3) d_set_same_peers [of "px_dht (cg_proxy s)"] by (simp add: cg_run_dgram_def px_set_dht_def)
  have view: "cg_proxy_view ?s = cg_proxy_view s" by (simp add: cg_proxy_view_def cg_state_def)
  have "px_calls (px_send ms (cg_proxy_view s)) = px_calls (cg_proxy s)" "px_out (cg_proxy_view s) = px_out (cg_proxy s)"
    by (simp_all add: cg_proxy_view_def px_upd)
  then have 2: "cg_run_proxy t (px_forward_msg ?m from') ?s = Some (?s\<lparr>cg_proxy := px_send ms (cg_proxy_view s)\<rparr>)" "px_out (px_send ms (cg_proxy_view s)) = px_out (cg_proxy s) @ ms"
    using assms(5) by (simp_all add: cg_run_proxy_def view)
  have len: "length ?m = 48 + length body" using frame_msg [OF assms(1,2)] by (simp add: dht_msg_def)
  then have "pbuf_bytes (udp_recv ?m) = ?m" using assms(4) by (simp add: udp_recv_bytes)
  moreover have "cage_dispatch ?m = Some Dgram_recv_dgram" using assms(1,2) by (simp add: dispatch_frame cage_switch_simps at_least_def)
  ultimately have "cage_receive order t (udp_recv ?m) from' s = Some (?s\<lparr>cg_proxy := px_send ms (cg_proxy_view s)\<rparr>)"
    using 1 2(1) g(2) by (simp add: cage_receive_def cg_recv_dgram_def)
  then show ?thesis using 2(2) by simp
qed

text \<open>
  Property C9.  A datagram through three nodes.  \<open>B\<close> has the destination registered and receives
  the frame in which some node at \<open>a\<close> sent the datagram.  Then \<open>B\<close> wraps it and sends it on to the registered
  address.  If it has eight bytes or more the destination passes the data, with
  the identifier of the sender, to the application and advertises itself to the address of
  the sender; a shorter one it drops, since the switch compares with the size of another message.
\<close>

theorem datagram_through_proxy:
  assumes "px_registered (cg_proxy sb) dst = Some reg" "ra_addr reg = inet_node dst c" "dst \<noteq> dg_id (cg_dgram sb)" "length src = 5" "length dst = 5"
    and "body \<noteq> []" "length body \<le> 956" "px_is_callback (cg_proxy sc)"
  shows "\<exists>sb' r p. cage_receive order t (udp_recv (frame type_dgram src dst body)) (In a) sb = Some sb' \<and> px_out (cg_proxy sb') = px_out (cg_proxy sb) @ [(r, In c)] \<and>
    cage_receive order' t' (udp_recv r) from' sc =
      (if 8 \<le> length body then cg_run_adv (advertise_to t' src domain_inet (sin_port a) (htonl_bytes (sin_addr a) @ replicate 12 0)) (sc\<lparr>cg_proxy := p\<rparr>)
       else Some sc) \<and>
    px_calls p = px_calls (cg_proxy sc) @ [CallDgramFunc body src, CallAdvertiseTo src domain_inet (sin_port a) (htonl_bytes (sin_addr a) @ replicate 12 0)]"
proof -
  let ?b = "htons_bytes domain_inet @ htons_bytes (sin_port a) @ htonl_bytes (sin_addr a) @ replicate 12 0 @ body"
  have "px_registered (cg_proxy_view sb) dst = Some reg" using assms(1) by (simp add: cg_proxy_view_def)
  then obtain r where r: "px_forward_msg (frame type_dgram src dst body) (In a) (cg_proxy_view sb) = Some (px_send [(r, In c)] (cg_proxy_view sb))"
    "dht_msg r type_proxy_dgram_forwarded src dst ?b"
    using forward_sent [OF _ assms(2,4,5,7)] by blast
  obtain sb' where sb': "cage_receive order t (udp_recv (frame type_dgram src dst body)) (In a) sb = Some sb'" "px_out (cg_proxy sb') = px_out (cg_proxy sb) @ [(r, In c)]"
    using cg_forwards [OF assms(4,5,3,7) r(1)] by blast
  let ?p = "px_recv_forwarded (udp_recv r) (cg_proxy_view sc)"
  have "px_is_callback (cg_proxy_view sc)" "px_calls (cg_proxy_view sc) = px_calls (cg_proxy sc)" using assms(8) by (simp_all add: cg_proxy_view_def px_upd)
  then have calls: "px_calls ?p = px_calls (cg_proxy sc) @ [CallDgramFunc body src, CallAdvertiseTo src domain_inet (sin_port a) (htonl_bytes (sin_addr a) @ replicate 12 0)]"
    using forward_read [OF r(2) assms(6,7)] by simp
  have len: "length r = 68 + length body" using r(2) by (simp add: dht_msg_def)
  have "cage_dispatch r = (if 8 \<le> length body then Some Proxy_recv_forwarded else None)"
    using r(2) by (simp add: dht_msg_def cage_dispatch_def new_hdr_def hdr_size_def cage_switch_simps at_least_def)
  moreover have "pbuf_bytes (udp_recv r) = r" using len assms(7) by (simp add: udp_recv_bytes)
  moreover have "cg_run_proxy t' (\<lambda>p. Some (px_recv_forwarded (udp_recv r) p)) sc =
      cg_run_adv (advertise_to t' src domain_inet (sin_port a) (htonl_bytes (sin_addr a) @ replicate 12 0)) (sc\<lparr>cg_proxy := ?p\<rparr>)"
    using calls by (simp add: cg_run_proxy_def split: option.split)
  ultimately show ?thesis using sb' calls by (intro exI [of _ sb'] exI [of _ r] exI [of _ ?p]) (simp add: cage_receive_def)
qed

theorem datagram_through_proxy_witness:
  "\<exists>sb' r p. cage_receive id 100 (udp_recv (frame type_dgram [0, 0, 0, 0, 7] [0, 0, 0, 0, 5] [1, 2, 3, 4, 5, 6, 7, 8])) (In (sample_at 77))
      ((sample_cage [0, 0, 0, 0, 2])\<lparr>cg_proxy := (sample_proxy [0, 0, 0, 0, 2])\<lparr>px_registered := [[0, 0, 0, 0, 5] \<mapsto>
         \<lparr>ra_session = 5, ra_addr = inet_node [0, 0, 0, 0, 5] (sample_at 8), ra_time = 90\<rparr>]\<rparr>\<rparr>) = Some sb' \<and>
    px_out (cg_proxy sb') = [(r, In (sample_at 8))] \<and>
    cage_receive id 101 (udp_recv r) (In (sample_at 9)) (cage_set_dgram_callback (sample_cage [0, 0, 0, 0, 5])) =
      cg_run_adv (advertise_to 101 [0, 0, 0, 0, 7] domain_inet 77 (htonl_bytes 1 @ replicate 12 0)) ((cage_set_dgram_callback (sample_cage [0, 0, 0, 0, 5]))\<lparr>cg_proxy := p\<rparr>) \<and>
    px_calls p = [CallDgramFunc [1, 2, 3, 4, 5, 6, 7, 8] [0, 0, 0, 0, 7], CallAdvertiseTo [0, 0, 0, 0, 7] domain_inet 77 (htonl_bytes 1 @ replicate 12 0)]"
proof -
  let ?reg = "\<lparr>ra_session = 5, ra_addr = inet_node [0, 0, 0, 0, 5] (sample_at 8), ra_time = 90\<rparr>"
  let ?b = "(sample_cage [0, 0, 0, 0, 2])\<lparr>cg_proxy := (sample_proxy [0, 0, 0, 0, 2])\<lparr>px_registered := [[0, 0, 0, 0, 5] \<mapsto> ?reg]\<rparr>\<rparr>"
  let ?c = "cage_set_dgram_callback (sample_cage [0, 0, 0, 0, 5])"
  have "px_out (cg_proxy ?b) = []" "px_registered (cg_proxy ?b) [0, 0, 0, 0, 5] = Some ?reg" "dg_id (cg_dgram ?b) = [0, 0, 0, 0, 2]" "px_is_callback (cg_proxy ?c)" "px_calls (cg_proxy ?c) = []"
    by (simp_all add: dt_node_def dtun_init_def cage_set_dgram_callback_def px_set_callback_def sample_cage_def cage_init_def dgram_init_def)
  then show ?thesis
    using datagram_through_proxy [of ?b "[0, 0, 0, 0, 5]" ?reg "sample_at 8" "[0, 0, 0, 0, 7]" "[1, 2, 3, 4, 5, 6, 7, 8]" ?c id 100 "sample_at 77" id 101 "In (sample_at 9)"]
    by (auto simp: sample_at_def)
qed

end
