(* ===== verification/Timer.thy ===== *)
theory Timer
  imports Prelude
begin

section \<open>Timers (timer.hpp, timer.cpp)\<close>

text \<open>
  A callback has at most one event in the event loop; when the event fires early, because the clock
  of the loop is not that of the system, it is scheduled again.  Callbacks are numbers.  Times are
  in microseconds, and the arithmetic the code does in doubles is exact here.  \<open>tm_armed\<close> is
  what the event loop has been given, the argument of the last \<^verbatim>\<open>evtimer_add\<close>; an
  event that fires is not armed any more.
\<close>

record timeval =
  tv_sec :: int
  tv_usec :: int

definition us :: "timeval \<Rightarrow> int" where
  "us t = tv_sec t * 1000000 + tv_usec t"

record timer_cb =
  tc_scheduled :: int
  tc_interval :: timeval

record timer =
  tm_events :: "nat set"
  tm_cbs :: "nat \<Rightarrow> timer_cb"
  tm_armed :: "nat \<rightharpoonup> timeval"

definition unset_timer :: "nat \<Rightarrow> timer \<Rightarrow> timer" where
  "unset_timer f s =
     (if f \<in> tm_events s then s\<lparr>tm_armed := (tm_armed s)(f := None), tm_events := tm_events s - {f}\<rparr> else s)"

definition set_timer :: "int \<Rightarrow> nat \<Rightarrow> timeval \<Rightarrow> timer \<Rightarrow> timer" where
  "set_timer t f iv s =
     (let s = unset_timer f s in
      s\<lparr>tm_cbs := (tm_cbs s)(f := \<lparr>tc_scheduled = t, tc_interval = iv\<rparr>), tm_events := insert f (tm_events s), tm_armed := (tm_armed s)(f \<mapsto> iv)\<rparr>)"

text \<open>\<^verbatim>\<open>ceil\<close> of a time in seconds.\<close>

definition ceil_sec :: "int \<Rightarrow> int" where
  "ceil_sec d = - ((- d) div 1000000)"

text \<open>
  The event of \<open>f\<close> fires at \<open>t\<close>; the result tells whether the callback is called.  \<open>m_scheduled\<close> keeps
  the time the timer was set when the interval is shortened.
\<close>

definition timer_callback :: "int \<Rightarrow> nat \<Rightarrow> timer \<Rightarrow> (bool \<times> timer) option" where
  "timer_callback t f s =
     (let c = tm_cbs s f; diff = t - tc_scheduled c; interval = us (tc_interval c); sec = ceil_sec (interval - diff);
          s = s\<lparr>tm_armed := (tm_armed s)(f := None)\<rparr> in
      if diff < interval \<and> sec > 1 then
        (if f \<notin> tm_events s then None
         else
           let iv = \<lparr>tv_sec = sec, tv_usec = interval - diff - sec * 1000000\<rparr> in
           Some (False, s\<lparr>tm_cbs := (tm_cbs s)(f := c\<lparr>tc_interval := iv\<rparr>), tm_armed := (tm_armed s)(f \<mapsto> iv)\<rparr>))
      else Some (True, s\<lparr>tm_events := tm_events s - {f}\<rparr>))"

definition timer_destroy :: "timer \<Rightarrow> timer" where
  "timer_destroy s = s\<lparr>tm_armed := (\<lambda>f. if f \<in> tm_events s then None else tm_armed s f)\<rparr>"

subsection \<open>Properties\<close>

text \<open>What the event loop has are the events of the table; every operation keeps it.\<close>

definition timer_wf :: "timer \<Rightarrow> bool" where
  "timer_wf s \<longleftrightarrow> dom (tm_armed s) = tm_events s"

lemma set_timer_wf: "timer_wf s \<Longrightarrow> timer_wf (set_timer t f iv s)"
  by (auto simp: timer_wf_def set_timer_def unset_timer_def Let_def)

lemma unset_timer_wf: "timer_wf s \<Longrightarrow> timer_wf (unset_timer f s) \<and> f \<notin> dom (tm_armed (unset_timer f s))"
  by (auto simp: timer_wf_def unset_timer_def)

lemma timer_callback_wf: "timer_wf s \<Longrightarrow> f \<in> tm_events s \<Longrightarrow> timer_callback t f s = Some (fired, s') \<Longrightarrow> timer_wf s'"
  by (auto simp: timer_wf_def timer_callback_def Let_def simp del: dom_fun_upd split: if_splits) (auto simp: dom_def split: if_splits)

lemma timer_destroy_wf: "timer_wf s \<Longrightarrow> tm_armed (timer_destroy s) = Map.empty"
  by (auto simp: timer_wf_def timer_destroy_def fun_eq_iff dom_def)

lemma ceil_sec_bounds: "d \<le> ceil_sec d * 1000000" "ceil_sec d * 1000000 < d + 1000000"
  using div_mult_mod_eq [of "- d" 1000000] pos_mod_sign [of 1000000 "- d"] pos_mod_bound [of 1000000 "- d"] unfolding ceil_sec_def by linarith+

lemma ceil_sec_le: "ceil_sec d \<le> 1 \<longleftrightarrow> d \<le> 1000000"
  using ceil_sec_bounds [of d] by auto


text \<open>
  A timer that was scheduled again can fire early: the time since it was first set is
  compared with the interval that was left.
\<close>

lemma rescheduled_fires_early:
  assumes "timer_callback t1 f (set_timer t0 f iv s) = Some (False, s1)" "t0 \<le> t1" "t0 + us iv - t1 \<le> t2 - t0"
  shows "\<exists>s2. timer_callback t2 f s1 = Some (True, s2)"
proof -
  have "tm_cbs s1 f = \<lparr>tc_scheduled = t0, tc_interval = \<lparr>tv_sec = ceil_sec (t0 + us iv - t1), tv_usec = t0 + us iv - t1 - ceil_sec (t0 + us iv - t1) * 1000000\<rparr>\<rparr>"
    using assms(1) by (auto simp: timer_callback_def set_timer_def Let_def algebra_simps split: if_splits)
  then show ?thesis using assms(3) by (simp add: timer_callback_def Let_def us_def)
qed

lemma rescheduled_fires_early_witness:
  "\<exists>s1 s2. timer_callback 4000000 1 (set_timer 0 1 \<lparr>tv_sec = 10, tv_usec = 0\<rparr> \<lparr>tm_events = {}, tm_cbs = (\<lambda>_. \<lparr>tc_scheduled = 0, tc_interval = \<lparr>tv_sec = 0, tv_usec = 0\<rparr>\<rparr>), tm_armed = Map.empty\<rparr>) = Some (False, s1) \<and>
    timer_callback 6000000 1 s1 = Some (True, s2)"
  by (simp add: timer_callback_def set_timer_def unset_timer_def Let_def us_def ceil_sec_def)

end
