(* ===== verification/Spec2Isabelle.thy ===== *)
theory Spec2Isabelle
  imports Rdp_Stream Rdp_Timer Rdp_Handshake Bn_Shift Rttable_Props Dgram_Props Dtun_Safety Dht_Find Cage_Props Timer
begin

text \<open>
  \<^bold>\<open>A verification of libcage, the peer-to-peer library of the Open Monitor agent.\<close>

  libcage (src/libcage) connects the agents.  Nodes have 160-bit identifiers; a node keeps a
  cache of the addresses of its peers, finds out whether it is behind a NAT, looks for nodes
  and values in Kademlia-like routing tables, and exchanges datagrams and, on top of them,
  reliable streams.

  \<^bold>\<open>The parts and their theories.\<close>

  \<^item> \<open>Prelude\<close>: the fixed-width integers, network byte order, ring indices, sequence
    numbers; \<open>Ordmap\<close>: \<^verbatim>\<open>std::map\<close> as sorted association lists, behind the locale
    \<open>finite_map\<close>.
  \<^item> \<open>Packetbuf\<close> (packetbuf.hpp, packetbuf.cpp): the 1024-byte buffers with their window.
  \<^item> \<open>Bn\<close>, \<open>Bn_Shift\<close> (bn.hpp): the multi-limb integers that identifiers are made of, limb
    loop by limb loop, against the numbers they represent; their binary and hexadecimal forms.
  \<^item> \<open>Cagetypes\<close> (cagetypes.hpp, cagetypes.cpp): addresses, the message header, lists of nodes,
    \<^verbatim>\<open>send_msg\<close>.  A message is a list of bytes, read at the offsets of its struct.
  \<^item> \<open>Peers\<close>, \<open>Peers_Props\<close> (peers.hpp, peers.cpp): the cache of addresses, sessions and
    time-outs; the locale \<open>address_book\<close> is what it promises its clients.
  \<^item> \<open>Rttable\<close> (rttable.hpp, rttable.cpp): rows by distance, pings of the oldest node of a full
    row, lookup, merging.  \<open>Rttable_Lookup\<close>: the lookup against sorting the whole table;
    \<open>Rttable_Inv\<close>: the invariant of the reachable tables; \<open>Rttable_Props\<close>: the properties.
  \<^item> \<open>Natdetector\<close>, \<open>Natdetector_Props\<close> (natdetector.hpp, natdetector.cpp): the state machine of
    the NAT detection and the protocol it plays with its peers.
  \<^item> \<open>Advertise\<close> (advertise.hpp, advertise.cpp): advertisements, over the cache of peers.
  \<^item> \<open>Dgram\<close>, \<open>Dgram_Props\<close> (dgram.hpp, dgram.cpp): queues of datagrams and their delivery, over
    packet buffers, peers and advertisements.
  \<^item> \<open>Ping\<close> (ping.hpp): the ping messages by which routing tables probe nodes.
  \<^item> \<open>Dtun\<close> (dtun.hpp, dtun.cpp): the directory of tunnels, a routing table with queries for
    nodes and values, registrations and requests.  \<open>Dtun_Query\<close>: what a query asks, and the
    retries of a request; \<open>Dtun_Inv\<close>: the invariant of its queries, registrations and peers,
    kept by every operation and timer; \<open>Dtun_Live\<close>: queries nobody answers; \<open>Dtun_Msgs\<close>: the
    fields of the messages; \<open>Dtun_Props\<close>: a question and its answer between two nodes;
    \<open>Dtun_Request\<close>: the messages of a request among three; \<open>Dtun_Safety\<close>: limits of queries,
    the query a malformed answer blocks, and the protection of registrations.
  \<^item> \<open>Rdp_Types\<close>, \<open>Rdp_Con\<close> (rdp.hpp, rdp.cpp, class \<^verbatim>\<open>rdp_con\<close>): segments, the send and the
    receive window of a connection.  \<open>Rdp_Rwnd\<close>, \<open>Rdp_Swnd\<close>: the windows against abstract
    ones; \<open>Rdp_Stream\<close>: sender and receiver over a network that loses, repeats and reorders.
  \<^item> \<open>Rdp\<close> (class \<^verbatim>\<open>rdp\<close>): tables, interface, the handlers of every state, the timer.
    \<open>Rdp_Inv\<close>, \<open>Rdp_Steps\<close>, \<open>Rdp_Reach\<close>: the invariant of its tables and the order of the
    states, kept by every step; \<open>Rdp_Props\<close>, \<open>Rdp_Handshake\<close>, \<open>Rdp_Timer\<close>: properties of
    the interface, of the handshake of two machines and of the timer's loop.

  \<^item> \<open>Dht_Store\<close>, \<open>Dht\<close> (dht.hpp, dht.cpp): the distributed hash table, on top of the routing
    table, the directory of tunnels and RDP: stored values, queries, storing and fetching by
    datagram and over connections, restoring, timers.  \<open>Dht_Stored\<close>: the nested tables as a
    finite map; \<open>Dht_Table\<close>: the changes of the table and the locale \<open>table_invariant\<close> that
    carries a property through every operation; \<open>Dht_Rdp\<close>, \<open>Dht_Loops\<close>: requests that arrive
    over a connection and the loops that read them (locale \<open>reader\<close>); \<open>Dht_Value\<close>: the
    messages of a store and of a value query; \<open>Dht_Props\<close>, \<open>Dht_Find\<close>: the properties.
  \<^item> \<open>Proxy\<close> (proxy.hpp, proxy.cpp): what a node behind a symmetric NAT has another one do for
    it, both sides: registration, storing and fetching, datagrams.  \<open>Proxy_Props\<close>: the
    reading loops, the messages between a node and its server, and what goes wrong.
  \<^item> \<open>Cage\<close> (cage.hpp, cage.cpp): the node, which owns the components: the switch that gives a
    received datagram to a handler, the handlers on the composed state, the interface.
    \<open>Cage_Props\<close>: every kind of message against the switch, a datagram through three nodes.
  \<^item> \<open>Timer\<close> (timer.hpp, timer.cpp): the timers over the event loop.

  \<^bold>\<open>How the code is modelled.\<close>  A class is a record, its operations are functions from state to
  state; a result \<open>None\<close> is a fault (an exception nobody catches, a null pointer, an index
  outside its array, a division by zero) or an exhausted supply of random numbers.  Shared
  objects of RDP are in a store indexed by references.  What leaves a component without
  coming back is a log in its state: datagrams sent, callbacks made, calls of components that
  are not modelled.  Random numbers, times, ports of new sockets and the resolution of names
  are arguments or supplies in the state.  Callbacks of the application are a parameter that
  gives the calls they make; the iteration order of a hash table is a parameter with the
  hypothesis that it is a permutation.  Timers are operations that may run when they are set;
  state machines are inductive step relations over all operations.

  \<^bold>\<open>Fuel.\<close>  \<open>id2i4lookup_loop\<close> has 162 steps, one more than the 161 that \<open>lookup_loop_spec\<close> shows
  to be enough (every step clears the highest bit in which identifier and target differ);
  \<open>timer_loop\<close> of RDP has as many steps as connections, which \<open>timer_visits_every_connection\<close>
  shows to be enough; \<open>other_peer\<close> of the NAT detection has one step per entry of the cache
  and one to find its end; \<open>value_failed\<close> of the directory has one step per retry a request has
  left and one more, which \<open>request_retries_end\<close> shows to be enough; \<open>read_loop\<close> of the DHT and the proxy has one more than the bytes
  queued, which \<open>reading_loops_end\<close> shows to be enough.  Loops over random numbers end with the supply.

  \<^bold>\<open>Composition.\<close>  The models nest as the components call each other: the proxy holds the DHT, which
  holds RDP and the directory, which holds the peers.  The node adds the NAT detection and the
  datagrams and shows each of them the peers and the state that are shared.  Where a
  callback leads back into the caller (events of RDP, answers of queries) the call is in a log
  of the state and its handling is an operation of its own.

  \<^bold>\<open>Not modelled.\<close>  The UDP handler is a thin wrapper around sockets and libevent, which the
  models replace by logs of what is sent and by the buffer \<open>udp_recv\<close>; \<^verbatim>\<open>rttable::print_table\<close>, \<^verbatim>\<open>cage::print_state\<close>
  and the debug code only print.  Multiplication of an identifier by a double reads
  uninitialised limbs.  The agent's user interface is Objective-C; boost, protobuf, OpenSSL,
  libevent, CocoaAsyncSocket and MKNetworkKit are vendored, the protocol messages generated.
\<close>

end
